(* ===== verification/Prelude.thy ===== *)
theory Prelude
  imports Main "HOL-Library.Word" "HOL-Library.Monad_Syntax" "HOL-Library.Multiset"
    "HOL-Library.Signed_Division"
begin

text \<open>
  The shared base of the development: bytes and little-endian number encodings, reads from a
  byte buffer that fail out of range, in-place writes, and the list facts that the component
  theories share.  A read returns \<open>None\<close> exactly when the C++ code would touch memory
  outside the buffer, so that undefined behaviour is a value of the model.
\<close>

unbundle bit_operations_syntax

named_theorems rd_simps \<open>reads at concrete places of a buffer\<close>
named_theorems rd_mono \<open>reads that succeed survive a longer prefix\<close>

section \<open>Types\<close>

type_synonym byte = "8 word"
type_synonym u16 = "16 word"
type_synonym u32 = "32 word"
type_synonym u64 = "64 word"
type_synonym buffer = "byte list"

section \<open>Signed machine arithmetic\<close>

text \<open>The result of an \<open>int\<close> or \<open>long\<close> operation: an overflow or a division by zero is undefined.\<close>

definition int_op :: "int \<Rightarrow> int option" where
  "int_op x = (if - (2 ^ 31) \<le> x \<and> x < 2 ^ 31 then Some x else None)"

definition int_div :: "int \<Rightarrow> int \<Rightarrow> int option" where
  "int_div a b = (if b = 0 then None else int_op (a sdiv b))"

definition int_rem :: "int \<Rightarrow> int \<Rightarrow> int option" where
  "int_rem a b = (if b = 0 then None else do { _ \<leftarrow> int_op (a sdiv b); Some (a smod b) })"

definition long_op :: "int \<Rightarrow> int option" where
  "long_op x = (if - (2 ^ 63) \<le> x \<and> x < 2 ^ 63 then Some x else None)"

section \<open>Little-endian encodings\<close>

fun le_bytes :: "nat \<Rightarrow> nat \<Rightarrow> byte list" where
  "le_bytes 0 x = []"
| "le_bytes (Suc n) x = of_nat x # le_bytes n (x div 256)"

fun le_nat :: "byte list \<Rightarrow> nat" where
  "le_nat [] = 0"
| "le_nat (b # bs) = unat b + 256 * le_nat bs"

lemma length_le_bytes [simp]: "length (le_bytes n x) = n"
  by (induction n arbitrary: x) auto

lemma unat_of_nat_byte: "unat (of_nat x :: byte) = x mod 256"
  by (simp add: unat_of_nat)

lemma le_nat_le_bytes: "le_nat (le_bytes n x) = x mod 256 ^ n"
proof (induction n arbitrary: x)
  case 0
  then show ?case by simp
next
  case (Suc n)
  have "x mod (256 * 256 ^ n) = 256 * (x div 256 mod 256 ^ n) + x mod 256"
    by (rule mod_mult2_eq)
  with Suc show ?case by (simp add: unat_of_nat_byte)
qed

lemma le_nat_le_bytes_id [simp]: "x < 256 ^ n \<Longrightarrow> le_nat (le_bytes n x) = x"
  by (simp add: le_nat_le_bytes)

lemma le_nat_less: "le_nat bs < 256 ^ length bs"
proof (induction bs)
  case Nil
  then show ?case by simp
next
  case (Cons b bs)
  have "unat b < 256" using unsigned_less [of b] by simp
  moreover from Cons have "Suc (le_nat bs) \<le> 256 ^ length bs" by simp
  then have "256 * Suc (le_nat bs) \<le> 256 * 256 ^ length bs" by (rule mult_le_mono2)
  ultimately show ?case by simp
qed

lemma le_bytes_le_nat [simp]: "le_bytes (length bs) (le_nat bs) = bs"
proof (induction bs)
  case Nil
  then show ?case by simp
next
  case (Cons b bs)
  have b: "unat b < 256" using unsigned_less [of b] by simp
  have "(of_nat (unat b + 256 * le_nat bs) :: byte) = of_nat (unat b) + of_nat 256 * of_nat (le_nat bs)"
    by simp
  also have "(of_nat 256 :: byte) = 0" by simp
  finally have "(of_nat (unat b + 256 * le_nat bs) :: byte) = b" by simp
  moreover from b have "(unat b + 256 * le_nat bs) div 256 = le_nat bs" by simp
  ultimately show ?case using Cons by simp
qed

lemma le_bytes_inj:
  assumes "le_bytes n x = le_bytes n y" and "x < 256 ^ n" and "y < 256 ^ n"
  shows "x = y"
  using assms by (metis le_nat_le_bytes_id)

lemma le_bytes_zero: "le_bytes n 0 = replicate n 0"
  by (induction n) auto

section \<open>Bounded reads and in-place writes\<close>

text \<open>\<open>peek buf pos n\<close>: the \<open>n\<close> bytes at \<open>pos\<close>, \<open>None\<close> when they are not all inside the buffer.\<close>

definition peek :: "buffer \<Rightarrow> int \<Rightarrow> nat \<Rightarrow> byte list option" where
  "peek buf pos n =
     (if 0 \<le> pos \<and> pos + int n \<le> int (length buf) then Some (take n (drop (nat pos) buf)) else None)"

definition poke :: "buffer \<Rightarrow> nat \<Rightarrow> byte list \<Rightarrow> buffer" where
  "poke buf i bs = take i buf @ bs @ drop (i + length bs) buf"

lemma peek_Some_iff:
  "peek buf pos n = Some bs \<longleftrightarrow>
     0 \<le> pos \<and> pos + int n \<le> int (length buf) \<and> bs = take n (drop (nat pos) buf)"
  by (auto simp: peek_def)

lemma peek_None_iff: "peek buf pos n = None \<longleftrightarrow> pos < 0 \<or> int (length buf) < pos + int n"
  by (auto simp: peek_def)

lemma peek_length: "peek buf pos n = Some bs \<Longrightarrow> length bs = n"
  by (auto simp: peek_Some_iff)

lemma peek_prefix [rd_mono]:
  assumes "peek buf pos n = Some bs"
  shows "peek (pre @ buf) (int (length pre) + pos) n = Some bs"
proof -
  from assms have "nat (int (length pre) + pos) = length pre + nat pos"
    by (simp add: peek_Some_iff nat_add_distrib)
  with assms show ?thesis by (simp add: peek_Some_iff)
qed

lemma peek_append:
  "peek (as @ bs @ cs) (int (length as)) (length bs) = Some bs"
  by (simp add: peek_def)

lemma peek_append': "k = int (length as) \<Longrightarrow> n = length bs \<Longrightarrow> peek (as @ bs @ cs) k n = Some bs"
  by (simp add: peek_append)

lemma length_poke [simp]: "i + length bs \<le> length buf \<Longrightarrow> length (poke buf i bs) = length buf"
  by (simp add: poke_def)

lemma poke_append:
  "poke (as @ xs @ cs) (length as) bs = as @ bs @ cs" if "length xs = length bs"
  using that by (simp add: poke_def)

lemma poke_append': "i = length as \<Longrightarrow> length xs = length bs \<Longrightarrow> poke (as @ xs @ cs) i bs = as @ bs @ cs"
  by (simp add: poke_append)

lemma drop_poke_ge: "k \<le> i \<Longrightarrow> i \<le> length buf \<Longrightarrow> drop k (poke buf i bs) = poke (drop k buf) (i - k) bs"
  by (simp add: poke_def drop_take)

lemma take_poke_le: "k \<le> i \<Longrightarrow> i \<le> length buf \<Longrightarrow> take k (poke buf i bs) = take k buf"
  by (simp add: poke_def)

lemma drop_poke_lt: "i + length bs \<le> k \<Longrightarrow> i + length bs \<le> length buf \<Longrightarrow> drop k (poke buf i bs) = drop k buf"
  by (simp add: poke_def)

section \<open>Lists\<close>

text \<open>Reading a concatenation of equally long chunks back.\<close>

fun chunks :: "nat \<Rightarrow> 'a list \<Rightarrow> nat \<Rightarrow> 'a list list" where
  "chunks k xs 0 = []"
| "chunks k xs (Suc n) = take k xs # chunks k (drop k xs) n"

lemma chunks_concat: "\<forall>x\<in>set xss. length x = k \<Longrightarrow> chunks k (concat xss @ ys) (length xss) = xss"
  by (induction xss) auto

lemma length_concat_same: "\<forall>x\<in>set xss. length x = k \<Longrightarrow> length (concat xss) = k * length xss"
  by (induction xss) auto

lemma sum_list_replicate_nat: "sum_list (replicate n (k::nat)) = n * k"
  by (induction n) auto

lemma take_drop_upt:
  "j \<le> length xs \<Longrightarrow> map (\<lambda>k. xs ! k) [i..<j] = take (j - i) (drop i xs)"
  by (rule nth_equalityI) auto

section \<open>Bit masks\<close>

lemma and_mask_nat_int: "(x::int) AND (2 ^ k - 1) = x mod 2 ^ k"
  by (simp add: take_bit_eq_mask [symmetric] take_bit_eq_mod mask_eq_exp_minus_1 [symmetric])

lemma and_not_mask_int: "(x::int) AND NOT (2 ^ k - 1) = x - x mod 2 ^ k"
proof -
  have "x AND NOT (mask k) = push_bit k (drop_bit k x)"
    by (rule bit_eqI) (auto simp: bit_simps)
  also have "\<dots> = x - take_bit k x"
    using bits_ident [of k x] by simp
  finally show ?thesis
    by (simp add: mask_eq_exp_minus_1 take_bit_eq_mod)
qed

end
