(* ===== verification/Float32.thy ===== *)
theory Float32
  imports Prelude
begin

text \<open>
  The C++ \<open>float\<close> and \<open>double\<close> types as their IEEE-754 bit patterns, with the comparisons,
  negation, addition, multiplication and narrowing the program uses, rounding to nearest even.
  This is the language's arithmetic, modelled on integers so that every operation computes.
  A NaN result is the default quiet NaN: C++ leaves its payload to the implementation.
\<close>

type_synonym f32 = "32 word"
type_synonym f64 = "64 word"

text \<open>\<open>Fin s m e\<close> is the number \<open>(-1)\<^sup>s \<cdot> m \<cdot> 2\<^sup>e\<close> with \<open>0 \<le> m\<close>.\<close>

datatype fval = NaN | Inf bool | Fin bool int int

definition decode_ieee :: "nat \<Rightarrow> int \<Rightarrow> nat \<Rightarrow> int \<Rightarrow> fval" where
  \<comment> \<open>mantissa bits, largest exponent field, total width less one, bit pattern\<close>
  "decode_ieee mb emax w u =
     (let s = (u div 2 ^ w = 1); ef = u div 2 ^ mb mod (emax + 1); m = u mod 2 ^ mb;
          bias = emax div 2
      in if ef = emax then (if m = 0 then Inf s else NaN)
         else if ef = 0 then Fin s m (1 - bias - int mb)
         else Fin s (m + 2 ^ mb) (ef - bias - int mb))"

definition f32_val :: "f32 \<Rightarrow> fval" where
  "f32_val b = decode_ieee 23 255 31 (uint b)"

definition f64_val :: "f64 \<Rightarrow> fval" where
  "f64_val b = decode_ieee 52 2047 63 (uint b)"

function nbits :: "int \<Rightarrow> int" where
  "nbits m = (if m \<le> 0 then 0 else 1 + nbits (m div 2))"
  by pat_completeness auto
termination by (relation "measure nat") auto

declare nbits.simps [simp del]

definition round_shift :: "int \<Rightarrow> nat \<Rightarrow> int" where
  \<comment> \<open>\<open>m / 2\<^sup>d\<close> to the nearest integer, ties to even\<close>
  "round_shift m d =
     (if d = 0 then m
      else let q = m div 2 ^ d; r = m mod 2 ^ d; h = 2 ^ (d - 1)
           in if r > h \<or> (r = h \<and> odd q) then q + 1 else q)"

definition f32_qnan :: f32 where
  "f32_qnan = 0x7FC00000"

definition f32_make :: "bool \<Rightarrow> int \<Rightarrow> f32" where
  "f32_make s u = word_of_int ((if s then 2 ^ 31 else 0) + u)"

definition f32_round :: "bool \<Rightarrow> int \<Rightarrow> int \<Rightarrow> f32" where
  "f32_round s m e =
     (if m = 0 then f32_make s 0
      else let q = max (e + nbits m - 24) (- 149);
               r = (if q \<le> e then m * 2 ^ nat (e - q) else round_shift m (nat (q - e)));
               (r', q') = (if r = 2 ^ 24 then (2 ^ 23, q + 1) else (r, q))
           in if r' < 2 ^ 23 then f32_make s r'
              else if q' + 150 \<ge> 255 then f32_make s (255 * 2 ^ 23)
              else f32_make s ((q' + 150) * 2 ^ 23 + (r' - 2 ^ 23)))"

section \<open>Classification and comparison\<close>

definition f32_is_nan :: "f32 \<Rightarrow> bool" where
  "f32_is_nan a = (f32_val a = NaN)"

text \<open>The exact comparison of two finite values: the sign of their difference.\<close>

definition fin_scaled :: "bool \<Rightarrow> int \<Rightarrow> int \<Rightarrow> int \<Rightarrow> int" where
  "fin_scaled s m e e0 = (if s then - 1 else 1) * m * 2 ^ nat (e - e0)"

fun fval_le :: "fval \<Rightarrow> fval \<Rightarrow> bool" where
  "fval_le NaN _ = False"
| "fval_le _ NaN = False"
| "fval_le (Inf s) y = (s \<or> y = Inf False)"
| "fval_le x (Inf s) = (\<not> s)"
| "fval_le (Fin s m e) (Fin s' m' e') =
     (fin_scaled s m e (min e e') \<le> fin_scaled s' m' e' (min e e'))"

definition f32_le :: "f32 \<Rightarrow> f32 \<Rightarrow> bool" where
  "f32_le a b = fval_le (f32_val a) (f32_val b)"

definition f32_eq :: "f32 \<Rightarrow> f32 \<Rightarrow> bool" where
  "f32_eq a b = (f32_le a b \<and> f32_le b a)"

section \<open>Arithmetic\<close>

definition f32_neg :: "f32 \<Rightarrow> f32" where
  "f32_neg a = a XOR 0x80000000"

definition f32_mul :: "f32 \<Rightarrow> f32 \<Rightarrow> f32" where
  "f32_mul a b =
     (case (f32_val a, f32_val b) of
        (NaN, _) \<Rightarrow> f32_qnan
      | (_, NaN) \<Rightarrow> f32_qnan
      | (Inf s, Inf s') \<Rightarrow> f32_make (s \<noteq> s') (255 * 2 ^ 23)
      | (Inf s, Fin s' m' e') \<Rightarrow> (if m' = 0 then f32_qnan else f32_make (s \<noteq> s') (255 * 2 ^ 23))
      | (Fin s m e, Inf s') \<Rightarrow> (if m = 0 then f32_qnan else f32_make (s \<noteq> s') (255 * 2 ^ 23))
      | (Fin s m e, Fin s' m' e') \<Rightarrow> f32_round (s \<noteq> s') (m * m') (e + e'))"

definition f32_add :: "f32 \<Rightarrow> f32 \<Rightarrow> f32" where
  "f32_add a b =
     (case (f32_val a, f32_val b) of
        (NaN, _) \<Rightarrow> f32_qnan
      | (_, NaN) \<Rightarrow> f32_qnan
      | (Inf s, Inf s') \<Rightarrow> (if s = s' then a else f32_qnan)
      | (Inf s, Fin s' m' e') \<Rightarrow> a
      | (Fin s m e, Inf s') \<Rightarrow> b
      | (Fin s m e, Fin s' m' e') \<Rightarrow>
          (let e0 = min e e'; v = fin_scaled s m e e0 + fin_scaled s' m' e' e0
           in if v = 0 then f32_make (s \<and> s') 0
              else f32_round (v < 0) \<bar>v\<bar> e0))"

definition f32_of_f64 :: "f64 \<Rightarrow> f32" where
  "f32_of_f64 d =
     (case f64_val d of
        NaN \<Rightarrow> f32_qnan
      | Inf s \<Rightarrow> f32_make s (255 * 2 ^ 23)
      | Fin s m e \<Rightarrow> f32_round s m e)"

section \<open>Facts the components use\<close>

lemma fval_le_trans: "fval_le x y \<Longrightarrow> fval_le y x \<Longrightarrow> fval_le x x"
  by (cases x; cases y) auto

lemma f32_le_nan [simp]: "f32_is_nan a \<Longrightarrow> \<not> f32_le a b" "f32_is_nan b \<Longrightarrow> \<not> f32_le a b"
  by (auto simp: f32_le_def f32_is_nan_def) (cases "f32_val a", auto)

lemma fval_le_refl: "x \<noteq> NaN \<Longrightarrow> fval_le x x"
  by (cases x) auto

lemma f32_eq_refl: "\<not> f32_is_nan a \<Longrightarrow> f32_eq a a"
  by (simp add: f32_eq_def f32_le_def f32_is_nan_def fval_le_refl)

lemma f32_val_zero [simp]: "f32_val 0 = Fin False 0 (- 149)"
  by (simp add: f32_val_def decode_ieee_def)

lemma fin_scaled_zero_iff: "fin_scaled s m e e0 = 0 \<longleftrightarrow> m = 0"
  by (auto simp: fin_scaled_def)

lemma f32_eq_zero_iff: "f32_eq a 0 \<longleftrightarrow> (\<exists>s e. f32_val a = Fin s 0 e)"
proof -
  have "fin_scaled s m e (min e (- 149)) \<le> 0 \<and> 0 \<le> fin_scaled s m e (min (- 149) e) \<longleftrightarrow> m = 0" for s m e
    using fin_scaled_zero_iff [of s m e "min e (- 149)"] by (auto simp: min.commute)
  moreover have z: "fin_scaled False 0 e e0 = 0" for e e0
    by (simp add: fin_scaled_def)
  ultimately show ?thesis
    by (cases "f32_val a") (auto simp: f32_eq_def f32_le_def z)
qed

lemma f32_mantissa_zero_iff: "(\<exists>s e. f32_val a = Fin s 0 e) \<longleftrightarrow> a = 0 \<or> a = 0x80000000"
proof
  assume "\<exists>s e. f32_val a = Fin s 0 e"
  then have z: "uint a div 2 ^ 23 mod 256 = 0" "uint a mod 2 ^ 23 = 0"
    by (auto simp: f32_val_def decode_ieee_def Let_def split: if_splits)
  have u: "0 \<le> uint a" "uint a < 2 ^ 32"
    using unsigned_less [of a] by auto
  define q where "q = uint a div 2 ^ 23"
  from u have q: "0 \<le> q" "q < 512" by (simp_all add: q_def pos_imp_zdiv_nonneg_iff div_less_iff_less_mult)
  from z(1) have "q mod 256 = 0" by (simp add: q_def)
  with q have "q = 0 \<or> q = 256" by presburger
  moreover from z(2) have "uint a = q * 2 ^ 23"
    using div_mult_mod_eq [of "uint a" "2 ^ 23"] by (simp add: q_def)
  ultimately have "uint a = 0 \<or> uint a = 2 ^ 31" by auto
  then have "uint a = uint (0 :: f32) \<or> uint a = uint (0x80000000 :: f32)" by simp
  then show "a = 0 \<or> a = 0x80000000" by (simp only: word_uint_eq_iff)
next
  assume "a = 0 \<or> a = 0x80000000"
  then show "\<exists>s e. f32_val a = Fin s 0 e"
    by (auto simp: f32_val_def decode_ieee_def)
qed

lemma f32_eq_zero: "f32_eq a 0 \<longleftrightarrow> a = 0 \<or> a = 0x80000000"
  by (simp only: f32_eq_zero_iff f32_mantissa_zero_iff)

end
