(* ===== verification/Fb_Base.thy ===== *)
theory Fb_Base
  imports Float32
begin

text \<open>
  \<open>flatbuffers/base.h\<close>, \<open>buffer.h\<close> and \<open>allocator.h\<close>: scalar types, byte order, scalar reads
  and writes, padding, default comparison, and the downward copy of the default allocator.
  A pointer into a buffer is its distance from the buffer's start (an \<open>int\<close>, since pointer
  arithmetic may leave the buffer); a scalar value is its bit pattern as a \<open>nat\<close>.
\<close>

section \<open>Scalar types\<close>

datatype scalar_ty = I8 | U16 | U32 | I32 | U64 | F32

fun sizeof_ty :: "scalar_ty \<Rightarrow> nat" where
  "sizeof_ty I8 = 1"
| "sizeof_ty U16 = 2"
| "sizeof_ty U32 = 4"
| "sizeof_ty I32 = 4"
| "sizeof_ty U64 = 8"
| "sizeof_ty F32 = 4"

lemma sizeof_ty_cases: "sizeof_ty t \<in> {1, 2, 4, 8}"
  by (cases t) auto

lemma sizeof_ty_pos [simp]: "0 < sizeof_ty t"
  by (cases t) auto

lemma sizeof_ty_le_8: "sizeof_ty t \<le> 8"
  by (cases t) auto

section \<open>Constants and alignment requirements\<close>

definition FLATBUFFERS_MAX_BUFFER_SIZE :: nat where
  "FLATBUFFERS_MAX_BUFFER_SIZE = 2 ^ 31 - 1"

definition FLATBUFFERS_MIN_BUFFER_SIZE :: nat where
  "FLATBUFFERS_MIN_BUFFER_SIZE = 4 + 4 + 2 + 2"

definition FLATBUFFERS_MAX_ALIGNMENT :: nat where
  "FLATBUFFERS_MAX_ALIGNMENT = 32"

definition kFileIdentifierLength :: nat where
  "kFileIdentifierLength = 4"

definition VerifyAlignmentRequirements :: "u64 \<Rightarrow> u64 \<Rightarrow> bool" where
  "VerifyAlignmentRequirements align min_align =
     (min_align \<le> align \<and> align \<le> of_nat FLATBUFFERS_MAX_ALIGNMENT \<and> align AND (align - 1) = 0)"

section \<open>Byte order\<close>

text \<open>
  A native load or store of \<open>n\<close> bytes on a host of the given byte order, and the swap that
  \<open>EndianSwap\<close> selects by size.
\<close>

definition native_load :: "bool \<Rightarrow> byte list \<Rightarrow> nat" where
  "native_load big bs = le_nat (if big then rev bs else bs)"

definition native_store :: "bool \<Rightarrow> nat \<Rightarrow> nat \<Rightarrow> byte list" where
  "native_store big n x = (if big then rev (le_bytes n x) else le_bytes n x)"

definition bswap :: "nat \<Rightarrow> nat \<Rightarrow> nat" where
  "bswap n x = le_nat (rev (le_bytes n x))"

definition EndianSwap :: "nat \<Rightarrow> nat \<Rightarrow> nat" where
  "EndianSwap n t =
     (if n = 1 then t
      else if n = 2 then bswap 2 t
      else if n = 4 then bswap 4 t
      else if n = 8 then bswap 8 t
      else t)"

definition EndianScalar :: "bool \<Rightarrow> nat \<Rightarrow> nat \<Rightarrow> nat" where
  "EndianScalar big n t = (if \<not> big then t else EndianSwap n t)"

definition ReadScalar_host :: "bool \<Rightarrow> byte list \<Rightarrow> nat" where
  "ReadScalar_host big bs = EndianScalar big (length bs) (native_load big bs)"

definition WriteScalar_host :: "bool \<Rightarrow> nat \<Rightarrow> nat \<Rightarrow> byte list" where
  "WriteScalar_host big n t = native_store big n (EndianScalar big n t)"

lemma le_bytes_mod: "le_bytes n (x mod 256 ^ n) = le_bytes n x"
  by (metis le_bytes_le_nat le_nat_le_bytes length_le_bytes)

lemma le_bytes_eq_le_nat: "length bs = n \<Longrightarrow> le_bytes n (le_nat bs) = bs"
  by auto

lemma bswap_bswap: "bswap n (bswap n x) = x mod 256 ^ n"
  by (simp add: bswap_def le_bytes_eq_le_nat le_nat_le_bytes)

text \<open>Both helpers give little-endian bytes whatever the host.\<close>

lemma WriteScalar_host_le:
  assumes "n \<in> {1, 2, 4, 8}"
  shows "WriteScalar_host big n t = le_bytes n t"
proof (cases big)
  case True
  have "rev (le_bytes n (bswap n t)) = le_bytes n t"
    by (simp add: bswap_def le_bytes_eq_le_nat)
  moreover have "rev (le_bytes (Suc 0) t) = le_bytes (Suc 0) t" by simp
  ultimately show ?thesis using True assms
    by (auto simp: WriteScalar_host_def EndianScalar_def EndianSwap_def native_store_def)
next
  case False
  then show ?thesis by (simp add: WriteScalar_host_def EndianScalar_def native_store_def)
qed

lemma ReadScalar_host_le:
  assumes "length bs \<in> {1, 2, 4, 8}"
  shows "ReadScalar_host big bs = le_nat bs"
proof (cases big)
  case True
  have sw: "bswap (length bs) (le_nat (rev bs)) = le_nat bs"
    by (simp add: bswap_def le_bytes_eq_le_nat)
  moreover have "length bs = 1 \<Longrightarrow> rev bs = bs"
    by (cases bs) auto
  ultimately show ?thesis using True assms
    by (auto simp: ReadScalar_host_def EndianScalar_def EndianSwap_def native_load_def)
next
  case False
  then show ?thesis by (simp add: ReadScalar_host_def EndianScalar_def native_load_def)
qed

section \<open>Scalar reads and writes in a buffer\<close>

text \<open>
  The program's targets (x86-64 and ARM64) are little-endian hosts, so the component models use
  the little-endian instance; \<open>ReadScalar_host_le\<close> and \<open>WriteScalar_host_le\<close> show a big-endian
  host reads and writes the same bytes.
\<close>

definition ReadScalar :: "nat \<Rightarrow> buffer \<Rightarrow> int \<Rightarrow> nat option" where
  "ReadScalar n buf p = map_option (ReadScalar_host False) (peek buf p n)"

definition WriteScalar :: "nat \<Rightarrow> buffer \<Rightarrow> nat \<Rightarrow> nat \<Rightarrow> buffer" where
  "WriteScalar n buf p t = poke buf p (WriteScalar_host False n t)"

text \<open>A \<open>soffset_t\<close> is read as a signed 32-bit value.\<close>

definition soffset_of :: "nat \<Rightarrow> int" where
  "soffset_of x = (if x < 2 ^ 31 then int x else int x - 2 ^ 32)"

definition ReadSOffset :: "buffer \<Rightarrow> int \<Rightarrow> int option" where
  "ReadSOffset buf p = map_option soffset_of (ReadScalar 4 buf p)"

lemma ReadScalar_host_False [simp]: "ReadScalar_host False bs = le_nat bs"
  by (simp add: ReadScalar_host_def EndianScalar_def native_load_def)

lemma WriteScalar_host_False [simp]: "WriteScalar_host False n t = le_bytes n t"
  by (simp add: WriteScalar_host_def EndianScalar_def native_store_def)

lemma ReadScalar_Some_iff:
  "ReadScalar n buf p = Some x \<longleftrightarrow>
     0 \<le> p \<and> p + int n \<le> int (length buf) \<and> x = le_nat (take n (drop (nat p) buf))"
  by (auto simp: ReadScalar_def peek_def)

lemma ReadScalar_defined: "0 \<le> p \<Longrightarrow> p + int n \<le> int (length buf) \<Longrightarrow> \<exists>x. ReadScalar n buf p = Some x"
  by (auto simp: ReadScalar_Some_iff)

lemma ReadScalar_prefix [rd_mono]:
  "ReadScalar n buf p = Some x \<Longrightarrow> ReadScalar n (pre @ buf) (int (length pre) + p) = Some x"
  by (auto simp: ReadScalar_def dest: peek_prefix [where pre = pre])

lemma ReadScalar_less: "ReadScalar n buf p = Some x \<Longrightarrow> x < 256 ^ n"
proof -
  assume "ReadScalar n buf p = Some x"
  then obtain bs where bs: "peek buf p n = Some bs" "x = le_nat bs"
    by (auto simp: ReadScalar_def)
  from peek_length [OF bs(1)] le_nat_less [of bs] bs(2) show ?thesis by simp
qed

lemma ReadSOffset_prefix [rd_mono]:
  "ReadSOffset buf p = Some x \<Longrightarrow> ReadSOffset (pre @ buf) (int (length pre) + p) = Some x"
  by (auto simp: ReadSOffset_def dest: ReadScalar_prefix [where pre = pre])

lemma ReadScalar_append:
  "p = int (length as) \<Longrightarrow> x < 256 ^ n \<Longrightarrow> ReadScalar n (as @ le_bytes n x @ cs) p = Some x"
  by (simp add: ReadScalar_Some_iff)

lemma length_WriteScalar [simp]: "p + n \<le> length buf \<Longrightarrow> length (WriteScalar n buf p t) = length buf"
  by (simp add: WriteScalar_def)

section \<open>Padding\<close>

text \<open>
  The size arithmetic is that of \<open>size_t\<close>: the complement of \<open>buf_size\<close> plus one, wrapping,
  masked by a power of two less one, is \<open>-buf_size\<close> modulo that power.
\<close>

definition PaddingBytes :: "nat \<Rightarrow> nat \<Rightarrow> nat" where
  "PaddingBytes buf_size scalar_size = nat ((NOT (int buf_size) + 1) AND (int scalar_size - 1))"

lemma PaddingBytes_pow2: "PaddingBytes b (2 ^ k) = nat ((- int b) mod 2 ^ k)"
proof -
  have "NOT (int b) + 1 = - int b" by (simp add: not_int_def)
  then show ?thesis by (simp add: PaddingBytes_def and_mask_nat_int)
qed

definition pow2 :: "nat \<Rightarrow> bool" where
  "pow2 n \<longleftrightarrow> (\<exists>k. n = 2 ^ k)"

lemma pow2_consts [simp]: "pow2 1" "pow2 (Suc 0)" "pow2 2" "pow2 4" "pow2 8"
  by (auto simp: pow2_def intro: exI [of _ 0] exI [of _ 1] exI [of _ 2] exI [of _ 3])

lemma pow2_sizeof_ty [simp]: "pow2 (sizeof_ty t)"
  by (cases t) auto

lemma pow2_pos: "pow2 n \<Longrightarrow> 0 < n"
  by (auto simp: pow2_def)

lemma PaddingBytes_less: "pow2 n \<Longrightarrow> PaddingBytes b n < n"
  by (auto simp: pow2_def PaddingBytes_pow2 nat_less_iff)

lemma PaddingBytes_aligns: "pow2 n \<Longrightarrow> (b + PaddingBytes b n) mod n = 0"
proof -
  assume "pow2 n"
  then obtain k where n: "n = 2 ^ k" by (auto simp: pow2_def)
  have "(int b + (- int b) mod 2 ^ k) mod 2 ^ k = 0"
    by (simp add: mod_add_right_eq)
  then have "int ((b + PaddingBytes b n) mod n) = 0"
    by (simp add: n PaddingBytes_pow2 zmod_int)
  then show ?thesis by simp
qed

lemma PaddingBytes_aligned: "pow2 n \<Longrightarrow> b mod n = 0 \<Longrightarrow> PaddingBytes b n = 0"
proof -
  assume p: "pow2 n" and b: "b mod n = 0"
  from p have "PaddingBytes b n mod n = 0"
    using PaddingBytes_aligns [of n b] b by (simp add: mod_eq_0_iff_dvd dvd_add_right_iff)
  with PaddingBytes_less [OF p, of b] show ?thesis by simp
qed

section \<open>Comparisons\<close>

text \<open>
  \<open>IsTheSameAs\<close> is C++ equality at the field's type.  For \<open>float\<close> it equates the two zeros and
  never holds of a NaN; the other types compare bit patterns.
\<close>

fun IsTheSameAs :: "scalar_ty \<Rightarrow> nat \<Rightarrow> nat \<Rightarrow> bool" where
  "IsTheSameAs F32 e d = f32_eq (word_of_nat e) (word_of_nat d)"
| "IsTheSameAs _ e d = (e = d)"

definition IsOutRange :: "'a::linorder \<Rightarrow> 'a \<Rightarrow> 'a \<Rightarrow> bool" where
  "IsOutRange v low high = (v < low \<or> high < v)"

definition IsInRange :: "'a::linorder \<Rightarrow> 'a \<Rightarrow> 'a \<Rightarrow> bool" where
  "IsInRange v low high = (\<not> IsOutRange v low high)"

lemma IsInRange_iff: "IsInRange v low high \<longleftrightarrow> low \<le> v \<and> v \<le> high"
  by (auto simp: IsInRange_def IsOutRange_def)

section \<open>Offsets and roots\<close>

text \<open>An \<open>Offset\<close> is a wrapped distance from the buffer's end; 0 is the null object.\<close>

type_synonym offset = nat

definition IsNull :: "offset \<Rightarrow> bool" where
  "IsNull off = (off = 0)"

definition GetMutableRoot :: "buffer \<Rightarrow> int option" where
  "GetMutableRoot buf = map_option int (ReadScalar 4 buf 0)"

definition GetRoot :: "buffer \<Rightarrow> int option" where
  "GetRoot buf = GetMutableRoot buf"

section \<open>The default allocator\<close>

text \<open>
  \<open>allocate\<close> hands out a block whose bytes are not specified; the model takes them from a
  parameter \<open>fresh\<close>.  \<open>memcpy_downward\<close> copies the used back and front of the old block.
\<close>

type_synonym allocator = "nat \<Rightarrow> byte list"

definition memcpy_downward ::
    "byte list \<Rightarrow> nat \<Rightarrow> byte list \<Rightarrow> nat \<Rightarrow> nat \<Rightarrow> nat \<Rightarrow> byte list" where
  "memcpy_downward old_p old_size new_p new_size in_use_back in_use_front =
     (let new1 = poke new_p (new_size - in_use_back)
                   (take in_use_back (drop (old_size - in_use_back) old_p))
      in poke new1 0 (take in_use_front old_p))"

definition reallocate_downward ::
    "allocator \<Rightarrow> byte list \<Rightarrow> nat \<Rightarrow> nat \<Rightarrow> nat \<Rightarrow> nat \<Rightarrow> byte list" where
  "reallocate_downward fresh old_p old_size new_size in_use_back in_use_front =
     memcpy_downward old_p old_size (fresh new_size) new_size in_use_back in_use_front"

lemma memcpy_downward_spec:
  assumes "length old_p = old_size" "length new_p = new_size" "old_size \<le> new_size"
    and "back + front \<le> old_size"
  defines "r \<equiv> memcpy_downward old_p old_size new_p new_size back front"
  shows "length r = new_size"
    and "drop (new_size - back) r = drop (old_size - back) old_p"
    and "take front r = take front old_p"
proof -
  define b where "b = drop (old_size - back) old_p"
  define f where "f = take front old_p"
  have lb: "length b = back" and lf: "length f = front"
    using assms by (auto simp: b_def f_def)
  have tb: "take back b = b" using lb by simp
  have r: "r = poke (poke new_p (new_size - back) b) 0 f"
    unfolding r_def memcpy_downward_def Let_def b_def [symmetric] f_def [symmetric] tb ..
  have l1: "length (poke new_p (new_size - back) b) = new_size"
    using assms lb by simp
  show "length r = new_size" unfolding r using l1 lf assms(3,4) by simp
  have "drop (new_size - back) r = drop (new_size - back) (poke new_p (new_size - back) b)"
    unfolding r using l1 lf assms(4) assms(3) by (intro drop_poke_lt) auto
  also have "\<dots> = b" using lb assms(2-4) by (simp add: poke_def)
  finally show "drop (new_size - back) r = drop (old_size - back) old_p" by (simp add: b_def)
  show "take front r = take front old_p"
    using lf by (simp add: r poke_def f_def [symmetric])
qed

section \<open>String comparison and file identifiers\<close>

text \<open>\<open>memcmp\<close> compares unsigned bytes; its sign is all the code uses.\<close>

fun memcmp :: "byte list \<Rightarrow> byte list \<Rightarrow> int" where
  "memcmp (a # as) (b # bs) = (if a < b then - 1 else if b < a then 1 else memcmp as bs)"
| "memcmp _ _ = 0"

definition StringLessThan :: "byte list \<Rightarrow> byte list \<Rightarrow> bool" where
  "StringLessThan a b =
     (let n = min (length a) (length b); cmp = memcmp (take n a) (take n b)
      in if cmp = 0 then length a < length b else cmp < 0)"

lemma memcmp_zero_iff: "length a = length b \<Longrightarrow> memcmp a b = 0 \<longleftrightarrow> a = b"
  by (induction a b rule: list_induct2) auto

lemma memcmp_antisym: "memcmp b a = - memcmp a b"
  by (induction a b rule: memcmp.induct) auto

end
