(* ===== verification/Fb_Table.thy ===== *)
theory Fb_Table
  imports Fb_Base
begin

text \<open>
  \<open>flatbuffers/table.h\<close>, \<open>vector.h\<close> and the \<open>IndirectHelper\<close>s of \<open>buffer.h\<close>: reading a finished
  buffer.  A table, a vector or a struct is the position of its first byte.  \<open>None\<close> is a read
  outside the buffer; a possibly null pointer is an inner \<open>option\<close>.
\<close>

section \<open>Tables\<close>

definition GetVTable :: "buffer \<Rightarrow> int \<Rightarrow> int option" where
  "GetVTable buf t = do { so \<leftarrow> ReadSOffset buf t; Some (t - so) }"

definition GetOptionalFieldOffset :: "buffer \<Rightarrow> int \<Rightarrow> nat \<Rightarrow> nat option" where
  "GetOptionalFieldOffset buf t field = do {
     vtable \<leftarrow> GetVTable buf t;
     vtsize \<leftarrow> ReadScalar 2 buf vtable;
     if field < vtsize then ReadScalar 2 buf (vtable + int field) else Some 0
   }"

definition GetField :: "nat \<Rightarrow> buffer \<Rightarrow> int \<Rightarrow> nat \<Rightarrow> nat \<Rightarrow> nat option" where
  "GetField n buf t field defaultval = do {
     field_offset \<leftarrow> GetOptionalFieldOffset buf t field;
     if field_offset \<noteq> 0 then ReadScalar n buf (t + int field_offset) else Some defaultval
   }"

definition GetPointer :: "buffer \<Rightarrow> int \<Rightarrow> nat \<Rightarrow> int option option" where
  "GetPointer buf t field = do {
     field_offset \<leftarrow> GetOptionalFieldOffset buf t field;
     (let p = t + int field_offset
      in if field_offset \<noteq> 0
         then do { o' \<leftarrow> ReadScalar 4 buf p; Some (Some (p + int o')) }
         else Some None)
   }"

definition GetStruct :: "buffer \<Rightarrow> int \<Rightarrow> nat \<Rightarrow> int option option" where
  "GetStruct buf t field = do {
     field_offset \<leftarrow> GetOptionalFieldOffset buf t field;
     Some (if field_offset \<noteq> 0 then Some (t + int field_offset) else None)
   }"

definition GetOptional :: "nat \<Rightarrow> buffer \<Rightarrow> int \<Rightarrow> nat \<Rightarrow> nat option option" where
  "GetOptional n buf t field = do {
     field_offset \<leftarrow> GetOptionalFieldOffset buf t field;
     if field_offset \<noteq> 0
     then do { x \<leftarrow> ReadScalar n buf (t + int field_offset); Some (Some x) }
     else Some None
   }"

definition GetAddressOf :: "buffer \<Rightarrow> int \<Rightarrow> nat \<Rightarrow> int option option" where
  "GetAddressOf buf t field = do {
     field_offset \<leftarrow> GetOptionalFieldOffset buf t field;
     Some (if field_offset \<noteq> 0 then Some (t + int field_offset) else None)
   }"

definition CheckField :: "buffer \<Rightarrow> int \<Rightarrow> nat \<Rightarrow> bool option" where
  "CheckField buf t field = do {
     field_offset \<leftarrow> GetOptionalFieldOffset buf t field;
     Some (field_offset \<noteq> 0)
   }"

text \<open>A store at a position; outside the buffer it is undefined behaviour.\<close>

definition store :: "nat \<Rightarrow> buffer \<Rightarrow> int \<Rightarrow> nat \<Rightarrow> buffer option" where
  "store n buf p val =
     (if 0 \<le> p \<and> p + int n \<le> int (length buf) then Some (WriteScalar n buf (nat p) val) else None)"

definition SetField :: "scalar_ty \<Rightarrow> buffer \<Rightarrow> int \<Rightarrow> nat \<Rightarrow> nat \<Rightarrow> nat \<Rightarrow> (bool \<times> buffer) option" where
  "SetField ty buf t field val d = do {
     field_offset \<leftarrow> GetOptionalFieldOffset buf t field;
     if field_offset = 0 then Some (IsTheSameAs ty val d, buf)
     else do { buf' \<leftarrow> store (sizeof_ty ty) buf (t + int field_offset) val; Some (True, buf') }
   }"

definition SetPointer :: "buffer \<Rightarrow> int \<Rightarrow> nat \<Rightarrow> int \<Rightarrow> (bool \<times> buffer) option" where
  "SetPointer buf t field val = do {
     field_offset \<leftarrow> GetOptionalFieldOffset buf t field;
     if field_offset = 0 then Some (False, buf)
     else do {
       buf' \<leftarrow> store 4 buf (t + int field_offset)
                 (nat ((val - (t + int field_offset)) mod 2 ^ 32));
       Some (True, buf')
     }
   }"

section \<open>Vectors\<close>

definition vec_size :: "buffer \<Rightarrow> int \<Rightarrow> nat option" where
  "vec_size buf v = ReadScalar 4 buf v"

definition vec_Data :: "int \<Rightarrow> int" where
  "vec_Data v = v + 4"

definition Read_scalar :: "nat \<Rightarrow> buffer \<Rightarrow> int \<Rightarrow> nat \<Rightarrow> nat option" where
  "Read_scalar n buf p i = ReadScalar n buf (p + int (n * i))"

definition Read_offset :: "buffer \<Rightarrow> int \<Rightarrow> nat \<Rightarrow> int option" where
  "Read_offset buf p i = do {
     (let offset_location = p + int (i * 4)
      in do { o' \<leftarrow> ReadScalar 4 buf offset_location; Some (offset_location + int o') })
   }"

definition Read_struct :: "nat \<Rightarrow> int \<Rightarrow> nat \<Rightarrow> int" where
  "Read_struct element_stride p i = p + int (i * element_stride)"

definition Get_scalar :: "nat \<Rightarrow> buffer \<Rightarrow> int \<Rightarrow> nat \<Rightarrow> nat option" where
  "Get_scalar n buf v i = Read_scalar n buf (vec_Data v) i"

definition Get_table :: "buffer \<Rightarrow> int \<Rightarrow> nat \<Rightarrow> int option" where
  "Get_table buf v i = Read_offset buf (vec_Data v) i"

definition Get_struct :: "nat \<Rightarrow> int \<Rightarrow> nat \<Rightarrow> int" where
  "Get_struct stride v i = Read_struct stride (vec_Data v) i"

section \<open>Reads survive a longer prefix\<close>

text \<open>
  Every pointer of a buffer is relative, so a read that succeeds in a buffer succeeds, with the
  shifted result, in any buffer that extends it at the front.  This is what makes objects stable
  while the builder prepends more of them.
\<close>

abbreviation shift :: "buffer \<Rightarrow> int \<Rightarrow> int" where
  "shift pre p \<equiv> int (length pre) + p"

lemma GetVTable_prefix [rd_mono]:
  "GetVTable buf t = Some vt \<Longrightarrow> GetVTable (pre @ buf) (shift pre t) = Some (shift pre vt)"
  by (auto simp: GetVTable_def bind_eq_Some_conv dest: ReadSOffset_prefix [where pre = pre])

lemma GetOptionalFieldOffset_prefix [rd_mono]:
  assumes "GetOptionalFieldOffset buf t f = Some fo"
  shows "GetOptionalFieldOffset (pre @ buf) (shift pre t) f = Some fo"
proof -
  from assms obtain vt vs where vt: "GetVTable buf t = Some vt" and vs: "ReadScalar 2 buf vt = Some vs"
    and fo: "(if f < vs then ReadScalar 2 buf (vt + int f) else Some 0) = Some fo"
    by (auto simp: GetOptionalFieldOffset_def bind_eq_Some_conv)
  have "f < vs \<Longrightarrow> ReadScalar 2 (pre @ buf) (shift pre vt + int f) = Some fo"
    using fo ReadScalar_prefix [of 2 buf "vt + int f" fo pre] by (simp add: add.assoc)
  with GetVTable_prefix [OF vt] ReadScalar_prefix [OF vs] fo show ?thesis
    by (auto simp: GetOptionalFieldOffset_def split: if_splits)
qed

lemma GetField_prefix [rd_mono]:
  assumes "GetField n buf t f d = Some x"
  shows "GetField n (pre @ buf) (shift pre t) f d = Some x"
proof -
  from assms obtain fo where fo: "GetOptionalFieldOffset buf t f = Some fo"
    and x: "(if fo \<noteq> 0 then ReadScalar n buf (t + int fo) else Some d) = Some x"
    by (auto simp: GetField_def bind_eq_Some_conv)
  have "fo \<noteq> 0 \<Longrightarrow> ReadScalar n (pre @ buf) (shift pre t + int fo) = Some x"
    using x ReadScalar_prefix [of n buf "t + int fo" x pre] by (simp add: add.assoc)
  with GetOptionalFieldOffset_prefix [OF fo] x show ?thesis
    by (auto simp: GetField_def split: if_splits)
qed

lemma GetPointer_prefix [rd_mono]:
  assumes "GetPointer buf t f = Some p"
  shows "GetPointer (pre @ buf) (shift pre t) f = Some (map_option (shift pre) p)"
proof -
  from assms obtain fo where fo: "GetOptionalFieldOffset buf t f = Some fo"
    by (auto simp: GetPointer_def bind_eq_Some_conv)
  show ?thesis
  proof (cases "fo = 0")
    case True
    with assms fo GetOptionalFieldOffset_prefix [OF fo] show ?thesis by (auto simp: GetPointer_def)
  next
    case False
    with assms fo obtain x where x: "ReadScalar 4 buf (t + int fo) = Some x"
      and p: "p = Some (t + int fo + int x)"
      by (auto simp: GetPointer_def Let_def bind_eq_Some_conv)
    have "ReadScalar 4 (pre @ buf) (shift pre t + int fo) = Some x"
      using ReadScalar_prefix [OF x, of pre] by (simp add: add.assoc)
    with False GetOptionalFieldOffset_prefix [OF fo] p show ?thesis
      by (auto simp: GetPointer_def Let_def)
  qed
qed

lemma vec_size_prefix [rd_mono]:
  "vec_size buf v = Some n \<Longrightarrow> vec_size (pre @ buf) (shift pre v) = Some n"
  by (simp add: vec_size_def ReadScalar_prefix)

lemma Get_table_prefix [rd_mono]:
  assumes "Get_table buf v i = Some t"
  shows "Get_table (pre @ buf) (shift pre v) i = Some (shift pre t)"
proof -
  from assms obtain x where x: "ReadScalar 4 buf (v + 4 + int (i * 4)) = Some x"
    and t: "t = v + 4 + int (i * 4) + int x"
    by (auto simp: Get_table_def Read_offset_def vec_Data_def Let_def bind_eq_Some_conv)
  from ReadScalar_prefix [OF x, of pre] t show ?thesis
    by (simp add: Get_table_def Read_offset_def vec_Data_def Let_def add.assoc)
qed

lemma Get_struct_shift: "Get_struct n (shift pre v) i = shift pre (Get_struct n v i)"
  by (simp add: Get_struct_def Read_struct_def vec_Data_def)

section \<open>Writing a field and reading it back\<close>

lemma store_length: "store n buf p x = Some buf' \<Longrightarrow> length buf' = length buf"
  by (auto simp: store_def split: if_splits)

lemma store_read:
  assumes "store n buf p x = Some buf'" and "x < 256 ^ n"
  shows "ReadScalar n buf' p = Some x"
proof -
  from assms(1) have p: "0 \<le> p" "p + int n \<le> int (length buf)" and b: "buf' = poke buf (nat p) (le_bytes n x)"
    by (auto simp: store_def WriteScalar_def split: if_splits)
  have "length (take (nat p) buf) = nat p" using p by simp
  then show ?thesis using p assms(2)
    by (auto simp: b poke_def intro!: ReadScalar_append)
qed

text \<open>A store leaves every read of bytes it does not overlap unchanged.\<close>

lemma store_other:
  assumes "store n buf p x = Some buf'" and "q + int m \<le> p \<or> p + int n \<le> q"
  shows "ReadScalar m buf' q = ReadScalar m buf q"
proof -
  from assms(1) have p: "0 \<le> p" "p + int n \<le> int (length buf)" and b: "buf' = poke buf (nat p) (le_bytes n x)"
    by (auto simp: store_def WriteScalar_def split: if_splits)
  have len: "length buf' = length buf" using store_length [OF assms(1)] .
  show ?thesis
  proof (cases "0 \<le> q \<and> q + int m \<le> int (length buf)")
    case False
    then show ?thesis by (auto simp: ReadScalar_def peek_def len)
  next
    case True
    have "take m (drop (nat q) buf') = take m (drop (nat q) buf)"
      using assms(2)
    proof
      assume lo: "q + int m \<le> p"
      with True have "nat q + m \<le> nat p" by linarith
      then have "take (nat q + m) buf' = take (nat q + m) buf"
        using p by (simp add: b take_poke_le)
      then show ?thesis by (metis take_drop add.commute)
    next
      assume hi: "p + int n \<le> q"
      with p have "nat p + length (le_bytes n x) \<le> nat q" by simp
      then show ?thesis using p by (simp add: b drop_poke_lt)
    qed
    with True show ?thesis by (simp add: ReadScalar_def peek_def len)
  qed
qed

end
