(* ===== verification/Fb_Verifier.thy ===== *)
theory Fb_Verifier
  imports Fb_Table
begin

text \<open>
  \<open>flatbuffers/verifier.h\<close> (the instance \<open>VerifierTemplate<false>\<close> that \<open>Verifier\<close> names) and the
  verifying members of \<open>table.h\<close>.  A check is a function of the verifier; one that reads the
  buffer returns \<open>None\<close> if it reads outside it.  Checks joined by \<open>&&\<close> become \<open>vall\<close>, which threads
  the depth and table counters and stops at the first failure, as C++ does.  The theorems show
  that a verification never reads outside the buffer, whatever the bytes are, and that a table
  that passed can be read without leaving the buffer.
\<close>

section \<open>State\<close>

record VerifierOptions =
  max_depth :: u32
  max_tables :: u32
  check_alignment :: bool
  check_nested_flatbuffers :: bool
  max_size :: nat

definition default_options :: VerifierOptions where
  "default_options = \<lparr>max_depth = 64, max_tables = 1000000, check_alignment = True,
     check_nested_flatbuffers = True, max_size = FLATBUFFERS_MAX_BUFFER_SIZE\<rparr>"

record Verifier =
  vr_buf :: buffer
  vr_opts :: VerifierOptions
  vr_depth :: u32
  vr_num_tables :: u32

definition mk_verifier :: "buffer \<Rightarrow> VerifierOptions \<Rightarrow> Verifier" where
  "mk_verifier buf opts = \<lparr>vr_buf = buf, vr_opts = opts, vr_depth = 0, vr_num_tables = 0\<rparr>"

definition vr_size :: "Verifier \<Rightarrow> nat" where
  "vr_size vr = length (vr_buf vr)"

text \<open>A pointer difference converted to \<open>size_t\<close>.\<close>

definition size_t_of :: "int \<Rightarrow> nat" where
  "size_t_of x = nat (x mod 2 ^ 64)"

section \<open>Range and alignment checks\<close>

definition Verify :: "Verifier \<Rightarrow> nat \<Rightarrow> nat \<Rightarrow> bool" where
  "Verify vr elem elem_len = (elem_len < vr_size vr \<and> elem \<le> vr_size vr - elem_len)"

definition VerifyAlignment :: "Verifier \<Rightarrow> nat \<Rightarrow> nat \<Rightarrow> bool" where
  "VerifyAlignment vr elem align =
     (elem AND (align - 1) = 0 \<or> \<not> check_alignment (vr_opts vr))"

definition Verify_T :: "nat \<Rightarrow> Verifier \<Rightarrow> nat \<Rightarrow> bool" where
  "Verify_T n vr elem = (VerifyAlignment vr elem n \<and> Verify vr elem n)"

definition VerifyFromPointer :: "Verifier \<Rightarrow> int \<Rightarrow> nat \<Rightarrow> bool" where
  "VerifyFromPointer vr p len = Verify vr (size_t_of p) len"

definition VerifyFieldStruct :: "Verifier \<Rightarrow> int \<Rightarrow> nat \<Rightarrow> nat \<Rightarrow> nat \<Rightarrow> bool" where
  "VerifyFieldStruct vr base elem_off elem_len align =
     (let f = size_t_of (base + int elem_off) in VerifyAlignment vr f align \<and> Verify vr f elem_len)"

definition vr_VerifyField :: "nat \<Rightarrow> Verifier \<Rightarrow> int \<Rightarrow> nat \<Rightarrow> nat \<Rightarrow> bool" where
  "vr_VerifyField n vr base elem_off align =
     (let f = size_t_of (base + int elem_off) in VerifyAlignment vr f align \<and> Verify vr f n)"

section \<open>Offsets, vectors and strings\<close>

text \<open>\<open>VerifyOffset(start)\<close> returns the offset it read, or 0 when it is not a valid forward offset.\<close>

definition vr_VerifyOffset :: "Verifier \<Rightarrow> nat \<Rightarrow> nat option" where
  "vr_VerifyOffset vr start =
     (if \<not> Verify_T 4 vr start then Some 0
      else do {
        o' \<leftarrow> ReadScalar 4 (vr_buf vr) (int start);
        (if o' = 0 then Some 0
         else if soffset_of o' < 0 then Some 0
         else if \<not> Verify vr (size_t_of (int start + int o')) 1 then Some 0
         else Some o')
      })"

definition vr_VerifyOffset_at :: "Verifier \<Rightarrow> int \<Rightarrow> nat \<Rightarrow> nat option" where
  "vr_VerifyOffset_at vr base start = vr_VerifyOffset vr (size_t_of (base + int start))"

text \<open>The result and, through the out parameter, the end of the array.\<close>

definition VerifyVectorOrString :: "Verifier \<Rightarrow> int \<Rightarrow> nat \<Rightarrow> (bool \<times> nat) option" where
  "VerifyVectorOrString vr vec elem_size =
     (let vec_offset = size_t_of vec
      in if \<not> Verify_T 4 vr vec_offset then Some (False, 0)
         else do {
           size \<leftarrow> ReadScalar 4 (vr_buf vr) vec;
           (let max_elems = max_size (vr_opts vr) div elem_size
            in if \<not> size < max_elems then Some (False, 0)
               else (let byte_size = 4 + elem_size * size
                     in Some (Verify vr vec_offset byte_size, vec_offset + byte_size)))
         })"

definition VerifyVector :: "nat \<Rightarrow> Verifier \<Rightarrow> int option \<Rightarrow> bool option" where
  "VerifyVector elem_size vr vec =
     (case vec of None \<Rightarrow> Some True
      | Some v \<Rightarrow> map_option fst (VerifyVectorOrString vr v elem_size))"

definition VerifyString :: "Verifier \<Rightarrow> int option \<Rightarrow> bool option" where
  "VerifyString vr str =
     (case str of None \<Rightarrow> Some True
      | Some s \<Rightarrow> do {
          (ok, end') \<leftarrow> VerifyVectorOrString vr s 1;
          if \<not> ok then Some False
          else if \<not> Verify vr end' 1 then Some False
          else do { c \<leftarrow> ReadScalar 1 (vr_buf vr) (int end'); Some (c = 0) }
        })"

fun VerifyStrings_loop :: "Verifier \<Rightarrow> int \<Rightarrow> nat \<Rightarrow> nat \<Rightarrow> bool option" where
  "VerifyStrings_loop vr v i 0 = Some True"
| "VerifyStrings_loop vr v i (Suc n) = do {
     s \<leftarrow> Get_table (vr_buf vr) v i;
     ok \<leftarrow> VerifyString vr (Some s);
     if \<not> ok then Some False else VerifyStrings_loop vr v (Suc i) n
   }"

definition VerifyVectorOfStrings :: "Verifier \<Rightarrow> int option \<Rightarrow> bool option" where
  "VerifyVectorOfStrings vr vec =
     (case vec of None \<Rightarrow> Some True
      | Some v \<Rightarrow> do { n \<leftarrow> vec_size (vr_buf vr) v; VerifyStrings_loop vr v 0 n })"

section \<open>Stateful checks\<close>

type_synonym vm = "Verifier \<Rightarrow> (bool \<times> Verifier) option"

fun vall :: "vm list \<Rightarrow> vm" where
  "vall [] vr = Some (True, vr)"
| "vall (m # ms) vr =
     (case m vr of
        None \<Rightarrow> None
      | Some (ok, vr') \<Rightarrow> if ok then vall ms vr' else Some (False, vr'))"

definition vpure :: "(Verifier \<Rightarrow> bool option) \<Rightarrow> vm" where
  "vpure c vr = map_option (\<lambda>ok. (ok, vr)) (c vr)"

definition VerifyComplexity :: "Verifier \<Rightarrow> bool \<times> Verifier" where
  "VerifyComplexity vr =
     (let vr' = vr\<lparr>vr_depth := vr_depth vr + 1, vr_num_tables := vr_num_tables vr + 1\<rparr>
      in (vr_depth vr' \<le> max_depth (vr_opts vr') \<and> vr_num_tables vr' \<le> max_tables (vr_opts vr'), vr'))"

definition EndTable_check :: vm where
  "EndTable_check vr = Some (True, vr\<lparr>vr_depth := vr_depth vr - 1\<rparr>)"

definition vr_VerifyTableStart :: "int \<Rightarrow> vm" where
  "vr_VerifyTableStart table vr =
     (let tableo = size_t_of table
      in if \<not> Verify_T 4 vr tableo then Some (False, vr)
         else do {
           so \<leftarrow> ReadSOffset (vr_buf vr) table;
           (let vtableo = size_t_of (table - so);
                (ok, vr') = VerifyComplexity vr
            in if \<not> ok then Some (False, vr')
               else if \<not> Verify_T 2 vr' vtableo then Some (False, vr')
               else do {
                 vs \<leftarrow> ReadScalar 2 (vr_buf vr') (int vtableo);
                 if \<not> VerifyAlignment vr' vs 2 then Some (False, vr')
                 else do {
                   vsize \<leftarrow> ReadScalar 2 (vr_buf vr') (int vtableo);
                   Some (vsize AND 1 = 0 \<and> Verify vr' vtableo vsize, vr')
                 }
               })
         })"

text \<open>\<open>VerifyTable(p)\<close> for a possibly null table pointer and the table type's own \<open>Verify\<close>.\<close>

definition VerifyTable :: "(int \<Rightarrow> vm) \<Rightarrow> int option \<Rightarrow> vm" where
  "VerifyTable T_Verify table vr =
     (case table of None \<Rightarrow> Some (True, vr) | Some t \<Rightarrow> T_Verify t vr)"

fun VerifyTables_loop :: "(int \<Rightarrow> vm) \<Rightarrow> int \<Rightarrow> nat \<Rightarrow> nat \<Rightarrow> vm" where
  "VerifyTables_loop T_Verify v i 0 vr = Some (True, vr)"
| "VerifyTables_loop T_Verify v i (Suc n) vr = do {
     t \<leftarrow> Get_table (vr_buf vr) v i;
     (ok, vr') \<leftarrow> T_Verify t vr;
     if \<not> ok then Some (False, vr') else VerifyTables_loop T_Verify v (Suc i) n vr'
   }"

definition VerifyVectorOfTables :: "(int \<Rightarrow> vm) \<Rightarrow> int option \<Rightarrow> vm" where
  "VerifyVectorOfTables T_Verify vec vr =
     (case vec of None \<Rightarrow> Some (True, vr)
      | Some v \<Rightarrow> do { n \<leftarrow> vec_size (vr_buf vr) v; VerifyTables_loop T_Verify v 0 n vr })"

section \<open>The verifying members of Table\<close>

definition t_VerifyField :: "nat \<Rightarrow> int \<Rightarrow> nat \<Rightarrow> nat \<Rightarrow> vm" where
  "t_VerifyField n t field align = vpure (\<lambda>vr. do {
     field_offset \<leftarrow> GetOptionalFieldOffset (vr_buf vr) t field;
     Some (field_offset = 0 \<or> vr_VerifyField n vr t field_offset align)
   })"

definition t_VerifyFieldRequired :: "nat \<Rightarrow> int \<Rightarrow> nat \<Rightarrow> nat \<Rightarrow> vm" where
  "t_VerifyFieldRequired n t field align = vpure (\<lambda>vr. do {
     field_offset \<leftarrow> GetOptionalFieldOffset (vr_buf vr) t field;
     Some (field_offset \<noteq> 0 \<and> vr_VerifyField n vr t field_offset align)
   })"

definition t_VerifyOffset :: "int \<Rightarrow> nat \<Rightarrow> vm" where
  "t_VerifyOffset t field = vpure (\<lambda>vr. do {
     field_offset \<leftarrow> GetOptionalFieldOffset (vr_buf vr) t field;
     if field_offset = 0 then Some True
     else do { o' \<leftarrow> vr_VerifyOffset_at vr t field_offset; Some (o' \<noteq> 0) }
   })"

definition t_VerifyOffsetRequired :: "int \<Rightarrow> nat \<Rightarrow> vm" where
  "t_VerifyOffsetRequired t field = vpure (\<lambda>vr. do {
     field_offset \<leftarrow> GetOptionalFieldOffset (vr_buf vr) t field;
     if field_offset = 0 then Some False
     else do { o' \<leftarrow> vr_VerifyOffset_at vr t field_offset; Some (o' \<noteq> 0) }
   })"

text \<open>\<open>verifier.VerifyVector(field())\<close>: the accessor's pointer read, then the check.\<close>

definition t_VerifyVector :: "nat \<Rightarrow> int \<Rightarrow> nat \<Rightarrow> vm" where
  "t_VerifyVector elem_size t field = vpure (\<lambda>vr. do {
     v \<leftarrow> GetPointer (vr_buf vr) t field;
     VerifyVector elem_size vr v
   })"

definition t_VerifyTable :: "(int \<Rightarrow> vm) \<Rightarrow> int \<Rightarrow> nat \<Rightarrow> vm" where
  "t_VerifyTable T_Verify t field vr = do {
     p \<leftarrow> GetPointer (vr_buf vr) t field;
     VerifyTable T_Verify p vr
   }"

definition t_VerifyVectorOfTables :: "(int \<Rightarrow> vm) \<Rightarrow> int \<Rightarrow> nat \<Rightarrow> vm" where
  "t_VerifyVectorOfTables T_Verify t field vr = do {
     v \<leftarrow> GetPointer (vr_buf vr) t field;
     VerifyVectorOfTables T_Verify v vr
   }"

section \<open>Whole buffers\<close>

text \<open>\<open>strncmp(a, b, n) == 0\<close>: equal up to \<open>n\<close> bytes or to a common terminating zero.\<close>

fun strncmp_eq :: "nat \<Rightarrow> byte list \<Rightarrow> byte list \<Rightarrow> bool" where
  "strncmp_eq n (a # as) (b # bs) = (n = 0 \<or> a = b \<and> (a = 0 \<or> strncmp_eq (n - 1) as bs))"
| "strncmp_eq n _ _ = (n = 0)"

definition BufferHasIdentifier :: "buffer \<Rightarrow> int \<Rightarrow> byte list \<Rightarrow> bool \<Rightarrow> bool option" where
  "BufferHasIdentifier buf p identifier size_prefixed = do {
     b \<leftarrow> peek buf (p + (if size_prefixed then 8 else 4)) kFileIdentifierLength;
     Some (strncmp_eq kFileIdentifierLength b identifier)
   }"

definition VerifyBufferFromStart :: "(int \<Rightarrow> vm) \<Rightarrow> byte list option \<Rightarrow> nat \<Rightarrow> vm" where
  "VerifyBufferFromStart T_Verify identifier start vr =
     (if \<not> vr_size vr \<ge> FLATBUFFERS_MIN_BUFFER_SIZE then Some (False, vr)
      else do {
        idok \<leftarrow> (case identifier of None \<Rightarrow> Some True
                 | Some i \<Rightarrow> if vr_size vr \<ge> 2 * 4
                     then BufferHasIdentifier (vr_buf vr) (int start) i False else Some False);
        (if \<not> idok then Some (False, vr)
         else do {
           o' \<leftarrow> vr_VerifyOffset vr start;
           (if o' = 0 then Some (False, vr)
            else T_Verify (int start + int o') vr)
         })
      })"

definition VerifyBuffer :: "(int \<Rightarrow> vm) \<Rightarrow> byte list option \<Rightarrow> vm" where
  "VerifyBuffer T_Verify identifier = VerifyBufferFromStart T_Verify identifier 0"

definition VerifySizePrefixedBuffer :: "(int \<Rightarrow> vm) \<Rightarrow> byte list option \<Rightarrow> vm" where
  "VerifySizePrefixedBuffer T_Verify identifier vr =
     (if \<not> Verify_T 4 vr 0 then Some (False, vr)
      else do {
        n \<leftarrow> ReadScalar 4 (vr_buf vr) 0;
        if \<not> n + 4 \<le> vr_size vr then Some (False, vr)
        else VerifyBufferFromStart T_Verify identifier 4 vr
      })"

definition VerifyNestedFlatBuffer :: "(int \<Rightarrow> vm) \<Rightarrow> int option \<Rightarrow> byte list option \<Rightarrow> vm" where
  "VerifyNestedFlatBuffer T_Verify nested identifier vr =
     (if \<not> check_nested_flatbuffers (vr_opts vr) then Some (True, vr)
      else (case nested of
        None \<Rightarrow> Some (True, vr)
      | Some v \<Rightarrow> do {
          n \<leftarrow> vec_size (vr_buf vr) v;
          if \<not> n \<ge> FLATBUFFERS_MIN_BUFFER_SIZE then Some (False, vr)
          else do {
            b \<leftarrow> peek (vr_buf vr) (vec_Data v) n;
            (ok, _) \<leftarrow> VerifyBuffer T_Verify identifier (mk_verifier b (vr_opts vr));
            Some (ok, vr)
          }
        }))"

section \<open>Facts about checks\<close>

text \<open>\<open>same\<close>: a check leaves the buffer and the options alone.\<close>

definition vsame :: "Verifier \<Rightarrow> Verifier \<Rightarrow> bool" where
  "vsame vr vr' \<longleftrightarrow> vr_buf vr' = vr_buf vr \<and> vr_opts vr' = vr_opts vr"

lemma vsame_refl [simp]: "vsame vr vr"
  by (simp add: vsame_def)

lemma vsame_trans: "vsame a b \<Longrightarrow> vsame b c \<Longrightarrow> vsame a c"
  by (simp add: vsame_def)

definition vframe :: "vm \<Rightarrow> bool" where
  "vframe m \<longleftrightarrow> (\<forall>vr ok vr'. m vr = Some (ok, vr') \<longrightarrow> vsame vr vr')"

lemma vframeD: "vframe m \<Longrightarrow> m vr = Some (ok, vr') \<Longrightarrow> vsame vr vr'"
  by (auto simp: vframe_def)

lemma vframe_vpure [simp]: "vframe (vpure c)"
  by (auto simp: vframe_def vpure_def)

lemma vpure_True: "vpure c vr = Some (True, vr') \<longleftrightarrow> c vr = Some True \<and> vr' = vr"
  by (auto simp: vpure_def)

lemma vpure_None: "vpure c vr = None \<longleftrightarrow> c vr = None"
  by (auto simp: vpure_def)

lemma vframe_vall: "(\<forall>m\<in>set ms. vframe m) \<Longrightarrow> vframe (vall ms)"
proof (induction ms)
  case Nil
  then show ?case by (simp add: vframe_def)
next
  case (Cons m ms)
  then have m: "vframe m" and ms: "vframe (vall ms)" by auto
  show ?case
    unfolding vframe_def
  proof (intro allI impI)
    fix vr ok vr' assume a: "vall (m # ms) vr = Some (ok, vr')"
    then obtain b vr1 where b: "m vr = Some (b, vr1)" by (auto split: option.splits)
    from vframeD [OF m b] a b vframeD [OF ms, of vr1] show "vsame vr vr'"
      by (auto split: if_splits intro: vsame_trans)
  qed
qed

lemma vall_True_Cons:
  "vall (m # ms) vr = Some (True, vr'') \<longleftrightarrow>
     (\<exists>vr'. m vr = Some (True, vr') \<and> vall ms vr' = Some (True, vr''))"
  by (auto split: option.splits if_splits)

lemma vall_None_Cons:
  "vall (m # ms) vr = None \<longleftrightarrow>
     m vr = None \<or> (\<exists>vr'. m vr = Some (True, vr') \<and> vall ms vr' = None)"
  by (auto split: option.splits if_splits)

lemma vframe_EndTable [simp]: "vframe EndTable_check"
  by (auto simp: vframe_def EndTable_check_def vsame_def)

lemma vframe_VerifyTableStart [simp]: "vframe (vr_VerifyTableStart t)"
  by (auto simp: vframe_def vr_VerifyTableStart_def VerifyComplexity_def Let_def vsame_def
      bind_eq_Some_conv split: if_splits)

lemma vframe_VerifyTable: "(\<And>t. vframe (T t)) \<Longrightarrow> vframe (t_VerifyTable T t f)"
  by (auto simp: vframe_def t_VerifyTable_def VerifyTable_def bind_eq_Some_conv split: option.splits)

lemma VerifyTables_loop_same:
  assumes "\<And>t. vframe (T t)"
  shows "VerifyTables_loop T v i n vr = Some (ok, vr') \<Longrightarrow> vsame vr vr'"
proof (induction n arbitrary: i vr)
  case 0
  then show ?case by simp
next
  case (Suc n)
  from Suc.prems obtain t ok1 vr1 where t: "T t vr = Some (ok1, vr1)"
    and r: "(if \<not> ok1 then Some (False, vr1) else VerifyTables_loop T v (Suc i) n vr1) = Some (ok, vr')"
    by (auto simp: bind_eq_Some_conv)
  have s: "vsame vr vr1" using vframeD [OF assms t] .
  from r show ?case using s by (auto split: if_splits intro: vsame_trans dest: Suc.IH)
qed

lemma vframe_VerifyVectorOfTables: "(\<And>t. vframe (T t)) \<Longrightarrow> vframe (t_VerifyVectorOfTables T t f)"
  unfolding vframe_def t_VerifyVectorOfTables_def VerifyVectorOfTables_def
  using VerifyTables_loop_same [of T] by (auto simp: bind_eq_Some_conv vframe_def split: option.splits)

lemma vframe_t_checks [simp]:
  "vframe (t_VerifyField n t f a)" "vframe (t_VerifyFieldRequired n t f a)" "vframe (t_VerifyOffset t f)"
  "vframe (t_VerifyOffsetRequired t f)" "vframe (t_VerifyVector n t f)"
  by (simp_all add: t_VerifyField_def t_VerifyFieldRequired_def t_VerifyOffset_def
      t_VerifyOffsetRequired_def t_VerifyVector_def)

text \<open>Each member of a check that passes passes in turn, on the same buffer.\<close>

lemma vall_member:
  assumes "vall ms vr = Some (True, vr')" and "\<forall>m \<in> set ms. vframe m" and "m \<in> set ms"
  shows "\<exists>v1 v2. m v1 = Some (True, v2) \<and> vsame vr v1"
  using assms
proof (induction ms arbitrary: vr)
  case (Cons m' ms)
  from Cons.prems(1) obtain v1 where v1: "m' vr = Some (True, v1)" "vall ms v1 = Some (True, vr')" unfolding vall_True_Cons by blast
  show ?case
  proof (cases "m = m'")
    case True
    with v1 show ?thesis using vsame_refl by blast
  next
    case False
    have "vsame vr v1" using vframeD [where m = m' and vr = vr, OF _ v1(1)] Cons.prems(2) by simp
    with False Cons.IH [OF v1(2)] Cons.prems(2,3) show ?thesis using vsame_trans by (metis list.set_intros(2) set_ConsD)
  qed
qed simp

text \<open>A verified vector has fewer elements than the largest buffer could hold.\<close>

lemma vector_count:
  assumes "t_VerifyVector es t f vr = Some (True, vr')" and "GetPointer (vr_buf vr) t f = Some (Some v)" and "vec_size (vr_buf vr) v = Some n"
  shows "n < max_size (vr_opts vr) div es"
  using assms by (auto simp: t_VerifyVector_def vpure_def VerifyVector_def VerifyVectorOrString_def vec_size_def Let_def split: if_splits)

section \<open>Sizes and pointers\<close>

text \<open>
  A buffer is smaller than \<open>2\<^sup>62\<close> bytes and pointer arithmetic from inside it moves by less than
  \<open>2\<^sup>33\<close>; within that range a conversion to \<open>size_t\<close> that passes a range check was not negative.
\<close>

definition small :: "buffer \<Rightarrow> bool" where
  "small buf \<longleftrightarrow> length buf < 2 ^ 62"

definition near :: "buffer \<Rightarrow> int \<Rightarrow> bool" where
  "near buf p \<longleftrightarrow> - (2 ^ 62) \<le> p \<and> p \<le> 2 ^ 62 + int (length buf)"

lemma size_t_of_nonneg: "0 \<le> p \<Longrightarrow> p < 2 ^ 64 \<Longrightarrow> size_t_of p = nat p"
  by (simp add: size_t_of_def)

lemma size_t_of_int [simp]: "n < 2 ^ 64 \<Longrightarrow> size_t_of (int n) = n"
  by (simp add: size_t_of_def)

lemma size_t_of_le:
  assumes "small buf" and "near buf p" and "size_t_of p + n \<le> length buf"
  shows "0 \<le> p" and "p + int n \<le> int (length buf)" and "size_t_of p = nat p"
proof -
  have nn: "0 \<le> p"
  proof (rule ccontr)
    assume "\<not> 0 \<le> p"
    then have "(p + 2 ^ 64) mod 2 ^ 64 = p + 2 ^ 64"
      using assms(2) by (intro mod_pos_pos_trivial) (auto simp: near_def)
    then have "p mod 2 ^ 64 = p + 2 ^ 64" by simp
    then have "2 ^ 63 \<le> p mod 2 ^ 64" using assms(2) by (simp add: near_def)
    then have "2 ^ 63 \<le> size_t_of p" by (simp add: size_t_of_def nat_le_iff le_nat_iff)
    with assms(1,3) show False by (simp add: small_def)
  qed
  then show "0 \<le> p" .
  have "p < 2 ^ 64" using assms(1,2) by (simp add: near_def small_def)
  with nn show s: "size_t_of p = nat p" by (simp add: size_t_of_nonneg)
  with nn assms(3) show "p + int n \<le> int (length buf)" by linarith
qed

lemma Verify_bound: "Verify vr e n \<Longrightarrow> e + n \<le> length (vr_buf vr)"
  by (auto simp: Verify_def vr_size_def)

lemma Verify_T_bound: "Verify_T n vr e \<Longrightarrow> e + n \<le> length (vr_buf vr)"
  by (auto simp: Verify_T_def dest: Verify_bound)

lemma Verify_inside:
  assumes "small (vr_buf vr)" and "near (vr_buf vr) p" and "Verify vr (size_t_of p) n"
  shows "0 \<le> p" and "p + int n \<le> int (length (vr_buf vr))" and "size_t_of p = nat p"
  using size_t_of_le [OF assms(1,2) Verify_bound [OF assms(3)]] by auto

lemma Verify_read:
  assumes "small (vr_buf vr)" and "near (vr_buf vr) p" and "Verify vr (size_t_of p) n"
  shows "\<exists>x. ReadScalar n (vr_buf vr) p = Some x"
  using Verify_inside [OF assms] by (intro ReadScalar_defined)

section \<open>Tables that passed VerifyTableStart\<close>

text \<open>The header of a verified table: its vtable lies inside the buffer and has an even size.\<close>

definition vtable_inside :: "buffer \<Rightarrow> int \<Rightarrow> bool" where
  "vtable_inside buf t \<longleftrightarrow>
     0 \<le> t \<and> t + 4 \<le> int (length buf) \<and>
     (\<exists>vt vs. GetVTable buf t = Some vt \<and> ReadScalar 2 buf vt = Some vs \<and> even vs \<and>
              0 \<le> vt \<and> vt + int vs \<le> int (length buf))"

lemma soffset_of_bounds: "x < 2 ^ 32 \<Longrightarrow> - (2 ^ 31) \<le> soffset_of x \<and> soffset_of x < 2 ^ 31"
  by (auto simp: soffset_of_def)

lemma ReadSOffset_bounds: "ReadSOffset buf p = Some so \<Longrightarrow> - (2 ^ 31) \<le> so \<and> so < 2 ^ 31"
  using soffset_of_bounds ReadScalar_less by (fastforce simp: ReadSOffset_def)

lemma even_and_1: "(n::nat) AND 1 = 0 \<longleftrightarrow> even n"
  by (simp add: and_one_eq even_iff_mod_2_eq_zero)

text \<open>\<open>VerifyTableStart\<close> reads only inside the buffer, and establishes the header.\<close>

lemma VerifyTableStart_safe:
  assumes sm: "small (vr_buf vr)" and nr: "near (vr_buf vr) t"
  shows "vr_VerifyTableStart t vr \<noteq> None"
    and "vr_VerifyTableStart t vr = Some (True, vr') \<Longrightarrow> vtable_inside (vr_buf vr) t"
proof -
  define buf where "buf = vr_buf vr"
  define vc where "vc = snd (VerifyComplexity vr)"
  have vcb: "vr_buf vc = buf" "vr_size vc = length buf"
    by (simp_all add: vc_def VerifyComplexity_def Let_def buf_def vr_size_def)
  have "vr_VerifyTableStart t vr \<noteq> None \<and>
    (vr_VerifyTableStart t vr = Some (True, vr') \<longrightarrow> vtable_inside buf t)"
  proof (cases "Verify_T 4 vr (size_t_of t)")
    case False
    then show ?thesis by (simp add: vr_VerifyTableStart_def)
  next
    case True
    then have "Verify vr (size_t_of t) 4" by (simp add: Verify_T_def)
    note tin = Verify_inside [OF sm nr this, folded buf_def]
    obtain so where so: "ReadSOffset buf t = Some so"
      using ReadScalar_defined [of t 4 buf] tin by (auto simp: ReadSOffset_def)
    define vt where "vt = t - so"
    have nvt: "near buf vt" using tin ReadSOffset_bounds [OF so] sm
      by (auto simp: near_def vt_def small_def buf_def)
    obtain okc where okc: "VerifyComplexity vr = (okc, vc)"
      by (metis vc_def prod.collapse)
    note unf = vr_VerifyTableStart_def [of t vr, unfolded Let_def, folded buf_def]
    show ?thesis
    proof (cases "okc \<and> Verify_T 2 vc (size_t_of vt)")
      case False
      with True so okc show ?thesis by (auto simp: unf vt_def [symmetric])
    next
      case vok: True
      then have v2: "Verify vc (size_t_of vt) 2" by (simp add: Verify_T_def)
      have smc: "small (vr_buf vc)" and nrc: "near (vr_buf vc) vt"
        using sm nvt by (simp_all add: vcb buf_def)
      note vin = Verify_inside [OF smc nrc v2, unfolded vcb]
      obtain vs where vs: "ReadScalar 2 buf vt = Some vs"
        using ReadScalar_defined [of vt 2 buf] vin by auto
      have rd: "ReadScalar 2 (vr_buf vc) (int (size_t_of vt)) = Some vs"
        using vs vin by (simp add: vcb)
      have res: "vr_VerifyTableStart t vr =
        (if \<not> VerifyAlignment vc vs 2 then Some (False, vc)
         else Some (vs AND 1 = 0 \<and> Verify vc (size_t_of vt) vs, vc))"
        using True so okc vok rd by (simp add: unf vt_def [symmetric])
      have "vs AND 1 = 0 \<Longrightarrow> Verify vc (size_t_of vt) vs \<Longrightarrow> vtable_inside buf t"
        using Verify_inside [OF smc nrc, of vs] vcb vs so tin vin(1)
        by (auto simp: vtable_inside_def GetVTable_def vt_def even_and_1 [symmetric])
      with res show ?thesis by auto
    qed
  qed
  then show "vr_VerifyTableStart t vr \<noteq> None"
    "vr_VerifyTableStart t vr = Some (True, vr') \<Longrightarrow> vtable_inside (vr_buf vr) t"
    by (auto simp: buf_def)
qed

text \<open>Field lookups in such a table stay inside the buffer, for every (even) field number.\<close>

lemma vtable_inside_field:
  assumes "vtable_inside buf t" and "even field"
  shows "\<exists>fo. GetOptionalFieldOffset buf t field = Some fo \<and> fo < 2 ^ 16"
proof -
  from assms(1) obtain vt vs where vt: "GetVTable buf t = Some vt" and vs: "ReadScalar 2 buf vt = Some vs"
    and ev: "even vs" and b: "0 \<le> vt" "vt + int vs \<le> int (length buf)"
    by (auto simp: vtable_inside_def)
  show ?thesis
  proof (cases "field < vs")
    case False
    with vt vs show ?thesis by (simp add: GetOptionalFieldOffset_def)
  next
    case True
    with assms(2) ev have "field + 2 \<le> vs" by presburger
    with b have "0 \<le> vt + int field" "vt + int field + int 2 \<le> int (length buf)" by auto
    from ReadScalar_defined [OF this] obtain fo where fo: "ReadScalar 2 buf (vt + int field) = Some fo"
      by auto
    with vt vs True ReadScalar_less [OF fo] show ?thesis by (simp add: GetOptionalFieldOffset_def)
  qed
qed

lemma near_field: "vtable_inside buf t \<Longrightarrow> small buf \<Longrightarrow> fo < 2 ^ 16 \<Longrightarrow> near buf (t + int fo)"
  by (auto simp: vtable_inside_def near_def small_def)

text \<open>A verified scalar field reads inside the buffer.\<close>

lemma t_VerifyField_safe:
  assumes ti: "vtable_inside (vr_buf vr) t" and sm: "small (vr_buf vr)" and ev: "even field"
  shows "t_VerifyField n t field a vr \<noteq> None"
    and "t_VerifyField n t field a vr = Some (True, vr') \<Longrightarrow>
           \<exists>x. GetField n (vr_buf vr) t field d = Some x"
proof -
  obtain fo where fo: "GetOptionalFieldOffset (vr_buf vr) t field = Some fo" "fo < 2 ^ 16"
    using vtable_inside_field [OF ti ev] by auto
  then show "t_VerifyField n t field a vr \<noteq> None"
    by (simp add: t_VerifyField_def vpure_def)
  assume "t_VerifyField n t field a vr = Some (True, vr')"
  then have "fo \<noteq> 0 \<Longrightarrow> Verify vr (size_t_of (t + int fo)) n"
    using fo by (auto simp: t_VerifyField_def vpure_def vr_VerifyField_def Let_def)
  then show "\<exists>x. GetField n (vr_buf vr) t field d = Some x"
    using fo Verify_read [OF sm near_field [OF ti sm fo(2)], of n]
    by (cases "fo = 0") (auto simp: GetField_def)
qed

text \<open>A verified offset field points at a byte of the buffer.\<close>

lemma VerifyOffset_safe:
  assumes sm: "small (vr_buf vr)" and nr: "near (vr_buf vr) p"
  shows "vr_VerifyOffset vr (size_t_of p) \<noteq> None"
    and "vr_VerifyOffset vr (size_t_of p) = Some x \<Longrightarrow> x \<noteq> 0 \<Longrightarrow>
           ReadScalar 4 (vr_buf vr) p = Some x \<and> 0 \<le> p \<and> p + int x < int (length (vr_buf vr))"
proof -
  have "vr_VerifyOffset vr (size_t_of p) \<noteq> None \<and>
    (vr_VerifyOffset vr (size_t_of p) = Some x \<longrightarrow> x \<noteq> 0 \<longrightarrow>
      ReadScalar 4 (vr_buf vr) p = Some x \<and> 0 \<le> p \<and> p + int x < int (length (vr_buf vr)))"
  proof (cases "Verify_T 4 vr (size_t_of p)")
    case False
    then show ?thesis by (simp add: vr_VerifyOffset_def)
  next
    case True
    then have "Verify vr (size_t_of p) 4" by (simp add: Verify_T_def)
    note pin = Verify_inside [OF sm nr this]
    then have ps: "int (size_t_of p) = p" by simp
    obtain o' where o': "ReadScalar 4 (vr_buf vr) p = Some o'"
      using ReadScalar_defined [of p 4 "vr_buf vr"] pin by auto
    have "o' < 2 ^ 32" using ReadScalar_less [OF o'] by simp
    then have "near (vr_buf vr) (p + int o')" using pin sm by (auto simp: near_def small_def)
    note oin = Verify_inside [OF sm this, of 1]
    show ?thesis using True o' ps oin by (auto simp: vr_VerifyOffset_def)
  qed
  then show "vr_VerifyOffset vr (size_t_of p) \<noteq> None"
    "vr_VerifyOffset vr (size_t_of p) = Some x \<Longrightarrow> x \<noteq> 0 \<Longrightarrow>
       ReadScalar 4 (vr_buf vr) p = Some x \<and> 0 \<le> p \<and> p + int x < int (length (vr_buf vr))"
    by auto
qed

text \<open>What a passed offset check says of the accessor's pointer.\<close>

definition pointer_inside :: "buffer \<Rightarrow> int option \<Rightarrow> bool" where
  "pointer_inside buf p = (case p of None \<Rightarrow> True | Some q \<Rightarrow> 0 \<le> q \<and> q < int (length buf))"

lemma t_VerifyOffset_safe:
  assumes ti: "vtable_inside (vr_buf vr) t" and sm: "small (vr_buf vr)" and ev: "even field"
  shows "t_VerifyOffset t field vr \<noteq> None" and "t_VerifyOffsetRequired t field vr \<noteq> None"
    and "t_VerifyOffset t field vr = Some (True, vr') \<Longrightarrow>
           \<exists>p. GetPointer (vr_buf vr) t field = Some p \<and> pointer_inside (vr_buf vr) p"
    and "t_VerifyOffsetRequired t field vr = Some (True, vr') \<Longrightarrow>
           \<exists>q. GetPointer (vr_buf vr) t field = Some (Some q) \<and> pointer_inside (vr_buf vr) (Some q)"
proof -
  obtain fo where fo: "GetOptionalFieldOffset (vr_buf vr) t field = Some fo" "fo < 2 ^ 16"
    using vtable_inside_field [OF ti ev] by auto
  define p where "p = t + int fo"
  have nr: "near (vr_buf vr) p" using near_field [OF ti sm fo(2)] by (simp add: p_def)
  obtain x where x: "vr_VerifyOffset vr (size_t_of p) = Some x"
    using VerifyOffset_safe(1) [OF sm nr] by auto
  note xs = VerifyOffset_safe(2) [OF sm nr x]
  show "t_VerifyOffset t field vr \<noteq> None" "t_VerifyOffsetRequired t field vr \<noteq> None"
    using fo x by (auto simp: t_VerifyOffset_def t_VerifyOffsetRequired_def vpure_def vr_VerifyOffset_at_def p_def)
  have gp: "fo \<noteq> 0 \<Longrightarrow> x \<noteq> 0 \<Longrightarrow> \<exists>q. GetPointer (vr_buf vr) t field = Some (Some q) \<and>
      pointer_inside (vr_buf vr) (Some q)"
    using xs fo by (auto simp: GetPointer_def Let_def p_def [symmetric] pointer_inside_def)
  show "\<exists>p. GetPointer (vr_buf vr) t field = Some p \<and> pointer_inside (vr_buf vr) p"
    if "t_VerifyOffset t field vr = Some (True, vr')"
    using that gp fo x
    by (cases "fo = 0") (auto simp: t_VerifyOffset_def vpure_def vr_VerifyOffset_at_def p_def GetPointer_def
        pointer_inside_def)
  show "\<exists>q. GetPointer (vr_buf vr) t field = Some (Some q) \<and> pointer_inside (vr_buf vr) (Some q)"
    if "t_VerifyOffsetRequired t field vr = Some (True, vr')"
    using that gp fo x
    by (auto simp: t_VerifyOffsetRequired_def vpure_def vr_VerifyOffset_at_def p_def split: if_splits)
qed

text \<open>A verified vector: its length and all its elements are inside the buffer.\<close>

definition vector_inside :: "buffer \<Rightarrow> nat \<Rightarrow> int \<Rightarrow> bool" where
  "vector_inside buf elem_size v \<longleftrightarrow>
     (\<exists>n. vec_size buf v = Some n \<and> 0 \<le> v \<and> v + 4 + int (elem_size * n) \<le> int (length buf))"

lemma VerifyVectorOrString_safe:
  assumes sm: "small (vr_buf vr)" and nr: "near (vr_buf vr) v"
  shows "VerifyVectorOrString vr v es \<noteq> None"
    and "VerifyVectorOrString vr v es = Some (True, e) \<Longrightarrow> vector_inside (vr_buf vr) es v"
proof -
  have "VerifyVectorOrString vr v es \<noteq> None \<and>
    (VerifyVectorOrString vr v es = Some (True, e) \<longrightarrow> vector_inside (vr_buf vr) es v)"
  proof (cases "Verify_T 4 vr (size_t_of v)")
    case False
    then show ?thesis by (simp add: VerifyVectorOrString_def)
  next
    case True
    then have "Verify vr (size_t_of v) 4" by (simp add: Verify_T_def)
    note vin = Verify_inside [OF sm nr this]
    obtain n where n: "ReadScalar 4 (vr_buf vr) v = Some n"
      using ReadScalar_defined [of v 4 "vr_buf vr"] vin by auto
    show ?thesis using True n Verify_inside [OF sm nr, of "4 + es * n"]
      by (auto simp: VerifyVectorOrString_def Let_def vector_inside_def vec_size_def algebra_simps)
  qed
  then show "VerifyVectorOrString vr v es \<noteq> None"
    "VerifyVectorOrString vr v es = Some (True, e) \<Longrightarrow> vector_inside (vr_buf vr) es v"
    by auto
qed

lemma pointer_inside_near: "pointer_inside buf (Some q) \<Longrightarrow> small buf \<Longrightarrow> near buf q"
  by (auto simp: pointer_inside_def near_def)

lemma t_VerifyVector_safe:
  assumes sm: "small (vr_buf vr)" and p: "GetPointer (vr_buf vr) t f = Some p" "pointer_inside (vr_buf vr) p"
  shows "t_VerifyVector es t f vr \<noteq> None"
    and "t_VerifyVector es t f vr = Some (True, vr') \<Longrightarrow> p = Some v \<Longrightarrow> vector_inside (vr_buf vr) es v"
proof -
  have nr: "near (vr_buf vr) v" if "p = Some v" for v
    using pointer_inside_near p(2) sm that by auto
  show "t_VerifyVector es t f vr \<noteq> None"
    using p VerifyVectorOrString_safe(1) [OF sm nr]
    by (auto simp: t_VerifyVector_def vpure_def VerifyVector_def split: option.splits)
  assume "t_VerifyVector es t f vr = Some (True, vr')" "p = Some v"
  then show "vector_inside (vr_buf vr) es v"
    using p(1) VerifyVectorOrString_safe(2) [OF sm nr]
    by (auto simp: t_VerifyVector_def vpure_def VerifyVector_def)
qed

text \<open>Elements of a verified vector of offsets can be followed.\<close>

lemma vector_inside_Get_table:
  assumes "vector_inside buf 4 v" and "vec_size buf v = Some n" and "i < n" and "small buf"
  shows "\<exists>t. Get_table buf v i = Some t \<and> near buf t"
proof -
  from assms(1,2) have b: "0 \<le> v" "v + 4 + int (4 * n) \<le> int (length buf)"
    by (auto simp: vector_inside_def)
  with assms(3) have "0 \<le> v + 4 + int (i * 4)" "v + 4 + int (i * 4) + int 4 \<le> int (length buf)" by auto
  from ReadScalar_defined [OF this] obtain x where x: "ReadScalar 4 buf (v + 4 + int (i * 4)) = Some x"
    by auto
  have "x < 2 ^ 32" using ReadScalar_less [OF x] by simp
  with x b assms(3,4) show ?thesis
    by (auto simp: Get_table_def Read_offset_def vec_Data_def Let_def near_def small_def)
qed

section \<open>Safe checks, composed\<close>

text \<open>
  \<open>vsafe buf m Q\<close>: run on \<open>buf\<close>, the check \<open>m\<close> never reads outside it, leaves it in place, and
  when it passes \<open>Q\<close> holds.  The rule for \<open>#\<close> lets each check use what the earlier ones
  established, which is the order the generated \<open>Verify\<close> members rely on.
\<close>

definition vsafe :: "buffer \<Rightarrow> vm \<Rightarrow> bool \<Rightarrow> bool" where
  "vsafe buf m Q \<longleftrightarrow>
     (\<forall>vr. vr_buf vr = buf \<longrightarrow>
        (\<exists>ok vr'. m vr = Some (ok, vr') \<and> vr_buf vr' = buf \<and> (ok \<longrightarrow> Q)))"

lemma vsafeI:
  assumes "vframe m" and "\<And>vr :: Verifier. vr_buf vr = buf \<Longrightarrow> m vr \<noteq> None"
    and "\<And>vr vr' :: Verifier. vr_buf vr = buf \<Longrightarrow> m vr = Some (True, vr') \<Longrightarrow> Q"
  shows "vsafe buf m Q"
  unfolding vsafe_def
proof (intro allI impI)
  fix vr :: Verifier assume b: "vr_buf vr = buf"
  with assms(2) obtain ok vr' where m: "m vr = Some (ok, vr')" by fastforce
  with vframeD [OF assms(1) m] b assms(3) [OF b]
  show "\<exists>ok vr'. m vr = Some (ok, vr') \<and> vr_buf vr' = buf \<and> (ok \<longrightarrow> Q)"
    by (auto simp: vsame_def)
qed

lemma vsafe_not_None: "vsafe buf m Q \<Longrightarrow> vr_buf vr = buf \<Longrightarrow> m vr \<noteq> None"
  unfolding vsafe_def by fastforce

lemma vsafe_sound: "vsafe buf m Q \<Longrightarrow> vr_buf vr = buf \<Longrightarrow> m vr = Some (True, vr') \<Longrightarrow> Q"
  by (force simp: vsafe_def)

lemma vsafe_mono: "vsafe buf m Q \<Longrightarrow> (Q \<Longrightarrow> R) \<Longrightarrow> vsafe buf m R"
  unfolding vsafe_def by blast

lemma vsafe_Nil: "vsafe buf (vall []) True"
  unfolding vsafe_def by auto

lemma vsafe_Cons:
  assumes m: "vsafe buf m Q" and ms: "Q \<Longrightarrow> vsafe buf (vall ms) R"
  shows "vsafe buf (vall (m # ms)) (Q \<and> R)"
  unfolding vsafe_def
proof (intro allI impI)
  fix vr :: Verifier assume "vr_buf vr = buf"
  with m obtain ok vr1 where r: "m vr = Some (ok, vr1)" "vr_buf vr1 = buf" "ok \<longrightarrow> Q"
    by (auto simp: vsafe_def)
  show "\<exists>ok' vr'. vall (m # ms) vr = Some (ok', vr') \<and> vr_buf vr' = buf \<and> (ok' \<longrightarrow> Q \<and> R)"
  proof (cases ok)
    case True
    with r ms obtain ok2 vr2 where "vall ms vr1 = Some (ok2, vr2)" "vr_buf vr2 = buf" "ok2 \<longrightarrow> R"
      by (auto simp: vsafe_def)
    with r True show ?thesis by auto
  next
    case False
    with r show ?thesis by auto
  qed
qed

lemma vsafe_EndTable: "vsafe buf EndTable_check True"
  unfolding vsafe_def EndTable_check_def by auto

lemma vsafe_VerifyTableStart:
  "small buf \<Longrightarrow> near buf t \<Longrightarrow> vsafe buf (vr_VerifyTableStart t) (vtable_inside buf t)"
  using VerifyTableStart_safe by (intro vsafeI) auto

lemma vsafe_VerifyField:
  assumes "vtable_inside buf t" and "small buf" and "even f"
  shows "vsafe buf (t_VerifyField n t f a) (\<forall>d. \<exists>x. GetField n buf t f d = Some x)"
proof (rule vsafeI)
  fix vr vr' :: Verifier assume b: "vr_buf vr = buf"
  show "t_VerifyField n t f a vr \<noteq> None" using t_VerifyField_safe(1) [of vr t f] assms b by simp
  show "\<forall>d. \<exists>x. GetField n buf t f d = Some x" if "t_VerifyField n t f a vr = Some (True, vr')"
    using t_VerifyField_safe(2) [of vr t f n a vr'] that assms b by simp
qed (simp add: t_VerifyField_def)

lemma vsafe_VerifyOffset:
  assumes "vtable_inside buf t" and "small buf" and "even f"
  shows "vsafe buf (t_VerifyOffset t f) (\<exists>p. GetPointer buf t f = Some p \<and> pointer_inside buf p)"
  using t_VerifyOffset_safe [where vr = vr and t = t and field = f for vr] assms
  by (intro vsafeI) auto

lemma vsafe_VerifyOffsetRequired:
  assumes "vtable_inside buf t" and "small buf" and "even f"
  shows "vsafe buf (t_VerifyOffsetRequired t f)
     (\<exists>q. GetPointer buf t f = Some (Some q) \<and> pointer_inside buf (Some q))"
  using t_VerifyOffset_safe [where vr = vr and t = t and field = f for vr] assms
  by (intro vsafeI) auto

lemma vsafe_VerifyVector:
  assumes "small buf" and "GetPointer buf t f = Some p" and "pointer_inside buf p"
  shows "vsafe buf (t_VerifyVector es t f) (\<forall>v. p = Some v \<longrightarrow> vector_inside buf es v)"
  using t_VerifyVector_safe [where vr = vr and t = t and f = f and p = p and es = es for vr] assms
  by (intro vsafeI) auto

lemma vsafe_VerifyTable:
  assumes "GetPointer buf t f = Some (Some q)" and "vsafe buf (T q) Q"
  shows "vsafe buf (t_VerifyTable T t f) Q"
  using assms by (auto simp: vsafe_def t_VerifyTable_def VerifyTable_def)

lemma VerifyTables_loop_vsafe:
  assumes T: "\<And>t. near buf t \<Longrightarrow> vsafe buf (T t) (P t)"
    and vi: "vector_inside buf 4 v" "vec_size buf v = Some n" "small buf"
  shows "i + k \<le> n \<Longrightarrow> vsafe buf (VerifyTables_loop T v i k)
     (\<forall>j. i \<le> j \<and> j < i + k \<longrightarrow> (\<exists>t. Get_table buf v j = Some t \<and> near buf t \<and> P t))"
proof (induction k arbitrary: i)
  case 0
  show ?case unfolding vsafe_def by (intro allI impI exI [where x = True]) auto
next
  case (Suc k)
  obtain t where t: "Get_table buf v i = Some t" "near buf t"
    using vector_inside_Get_table [OF vi(1,2) _ vi(3), of i] Suc.prems by auto
  have IH: "vsafe buf (VerifyTables_loop T v (Suc i) k)
     (\<forall>j. Suc i \<le> j \<and> j < Suc i + k \<longrightarrow> (\<exists>t. Get_table buf v j = Some t \<and> near buf t \<and> P t))"
    using Suc.IH [of "Suc i"] Suc.prems by simp
  show ?case
    unfolding vsafe_def
  proof (intro allI impI)
    fix vr :: Verifier assume vb: "vr_buf vr = buf"
    obtain ok w where w: "T t vr = Some (ok, w)" "vr_buf w = buf" "ok \<longrightarrow> P t"
      using T [OF t(2)] vb by (auto simp: vsafe_def)
    obtain ok2 u where u: "VerifyTables_loop T v (Suc i) k w = Some (ok2, u)" "vr_buf u = buf"
      and q: "ok2 \<longrightarrow> (\<forall>j. Suc i \<le> j \<and> j < Suc i + k \<longrightarrow> (\<exists>t. Get_table buf v j = Some t \<and> near buf t \<and> P t))"
      using IH w(2) unfolding vsafe_def by blast
    have "ok \<Longrightarrow> ok2 \<Longrightarrow> i \<le> j \<and> j < i + Suc k \<Longrightarrow> \<exists>t. Get_table buf v j = Some t \<and> near buf t \<and> P t" for j
      using q w(3) t by (cases "j = i") auto
    then show "\<exists>ok vr'. VerifyTables_loop T v i (Suc k) vr = Some (ok, vr') \<and> vr_buf vr' = buf \<and>
       (ok \<longrightarrow> (\<forall>j. i \<le> j \<and> j < i + Suc k \<longrightarrow> (\<exists>t. Get_table buf v j = Some t \<and> near buf t \<and> P t)))"
      using w u t vb by (cases ok) auto
  qed
qed

lemma vsafe_VerifyVectorOfTables:
  assumes T: "\<And>t. near buf t \<Longrightarrow> vsafe buf (T t) (P t)" and sm: "small buf"
    and p: "GetPointer buf tb f = Some p" and pv: "\<And>v. p = Some v \<Longrightarrow> vector_inside buf 4 v"
  shows "vsafe buf (t_VerifyVectorOfTables T tb f)
     (\<forall>v n. p = Some v \<longrightarrow> vec_size buf v = Some n \<longrightarrow>
        (\<forall>j<n. \<exists>t. Get_table buf v j = Some t \<and> near buf t \<and> P t))"
proof (cases p)
  case None
  then show ?thesis
    using p by (auto simp: vsafe_def t_VerifyVectorOfTables_def VerifyVectorOfTables_def)
next
  case (Some u)
  then obtain m where m: "vec_size buf u = Some m" using pv by (auto simp: vector_inside_def)
  from VerifyTables_loop_vsafe [OF T pv [OF Some] m sm, where i = 0 and k = m]
  have "vsafe buf (VerifyTables_loop T u 0 m)
      (\<forall>j<m. \<exists>t. Get_table buf u j = Some t \<and> near buf t \<and> P t)" by simp
  then show ?thesis
    using p Some m by (auto simp: vsafe_def t_VerifyVectorOfTables_def VerifyVectorOfTables_def)
qed

lemma vsafe_VerifyBuffer:
  assumes T: "\<And>t. near buf t \<Longrightarrow> vsafe buf (T t) (P t)" and sm: "small buf"
  shows "vsafe buf (VerifyBuffer T None) (\<exists>t. GetRoot buf = Some t \<and> near buf t \<and> P t)"
  unfolding vsafe_def
proof (intro allI impI)
  fix vr :: Verifier assume vb: "vr_buf vr = buf"
  have sm': "small (vr_buf vr)" "near (vr_buf vr) 0" using sm vb by (simp_all add: near_def)
  note O = VerifyOffset_safe [OF sm']
  obtain x where x: "vr_VerifyOffset vr 0 = Some x" using O(1) by (auto simp: size_t_of_def)
  show "\<exists>ok vr'. VerifyBuffer T None vr = Some (ok, vr') \<and> vr_buf vr' = buf \<and>
     (ok \<longrightarrow> (\<exists>t. GetRoot buf = Some t \<and> near buf t \<and> P t))"
  proof (cases "FLATBUFFERS_MIN_BUFFER_SIZE \<le> vr_size vr \<and> x \<noteq> 0")
    case False
    with x vb show ?thesis by (auto simp: VerifyBuffer_def VerifyBufferFromStart_def)
  next
    case True
    then have r: "ReadScalar 4 buf 0 = Some x" "int x < int (length buf)"
      using O(2) [of x] x vb by (auto simp: size_t_of_def)
    then have nr: "near buf (int x)" by (auto simp: near_def)
    obtain ok w where "T (int x) vr = Some (ok, w)" "vr_buf w = buf" "ok \<longrightarrow> P (int x)"
      using T [OF nr] vb by (auto simp: vsafe_def)
    moreover have "VerifyBuffer T None vr = T (int x) vr"
      using True x by (simp add: VerifyBuffer_def VerifyBufferFromStart_def)
    moreover have "GetRoot buf = Some (int x)" using r by (simp add: GetRoot_def GetMutableRoot_def)
    ultimately show ?thesis using nr by auto
  qed
qed

text \<open>The same for a verifier freshly made over the buffer.\<close>

lemma VerifyBuffer_safe:
  assumes T: "\<And>t. near buf t \<Longrightarrow> vsafe buf (T t) (P t)" and sm: "small buf"
  shows "\<exists>ok vr'. VerifyBuffer T None (mk_verifier buf opts) = Some (ok, vr') \<and>
     (ok \<longrightarrow> (\<exists>t. GetRoot buf = Some t \<and> P t))"
proof -
  have "vr_buf (mk_verifier buf opts) = buf" by (simp add: mk_verifier_def)
  with vsafe_VerifyBuffer [where T = T and P = P, OF T sm] obtain ok vr' where
    "VerifyBuffer T None (mk_verifier buf opts) = Some (ok, vr')"
    "ok \<longrightarrow> (\<exists>t. GetRoot buf = Some t \<and> near buf t \<and> P t)"
    unfolding vsafe_def by blast
  then show ?thesis by blast
qed

end
