(* ===== verification/Schema_Read.thy ===== *)
theory Schema_Read
  imports Fb_Verifier
begin

text \<open>
  The reading half of \<open>generated/pricing_request_generated.h\<close> (schema
  \<open>schemas/pricing_request.fbs\<close>): the enum, the struct, the accessors and the \<open>Verify\<close> of each
  table.  \<open>request_of\<close>, \<open>batch_of\<close> and \<open>response_of\<close> gather the accessors of a message into a
  record; the theorems say that a buffer that passed its \<open>Verify\<close> has one.
\<close>

section \<open>OptionType\<close>

type_synonym OptionType = "8 word"

definition OptionType_Call :: OptionType where "OptionType_Call = 0"
definition OptionType_Put :: OptionType where "OptionType_Put = 1"

definition EnumValuesOptionType :: "OptionType list" where
  "EnumValuesOptionType = [OptionType_Call, OptionType_Put]"

definition EnumNamesOptionType :: "string option list" where
  "EnumNamesOptionType = [Some ''Call'', Some ''Put'', None]"

definition EnumNameOptionType :: "OptionType \<Rightarrow> string option" where
  "EnumNameOptionType e =
     (if IsOutRange (sint e) (sint OptionType_Call) (sint OptionType_Put) then Some ''''
      else EnumNamesOptionType ! nat (sint e))"

section \<open>AlphaBetaPair\<close>

record AlphaBetaPair =
  ab_idx :: u32
  ab_alpha :: f32
  ab_beta :: f32

definition AlphaBetaPair_size :: nat where
  "AlphaBetaPair_size = 12"

definition AlphaBetaPair_bytes :: "AlphaBetaPair \<Rightarrow> byte list" where
  "AlphaBetaPair_bytes p = le_bytes 4 (unat (ab_idx p)) @ le_bytes 4 (unat (ab_alpha p)) @ le_bytes 4 (unat (ab_beta p))"

definition AlphaBetaPair_idx :: "buffer \<Rightarrow> int \<Rightarrow> u32 option" where
  "AlphaBetaPair_idx buf p = map_option word_of_nat (ReadScalar 4 buf p)"

definition AlphaBetaPair_alpha :: "buffer \<Rightarrow> int \<Rightarrow> f32 option" where
  "AlphaBetaPair_alpha buf p = map_option word_of_nat (ReadScalar 4 buf (p + 4))"

definition AlphaBetaPair_beta :: "buffer \<Rightarrow> int \<Rightarrow> f32 option" where
  "AlphaBetaPair_beta buf p = map_option word_of_nat (ReadScalar 4 buf (p + 8))"

section \<open>PricingParams\<close>

definition PP_VT_OPTION_TYPE :: nat where "PP_VT_OPTION_TYPE = 4"
definition PP_VT_STOCK_PRICE :: nat where "PP_VT_STOCK_PRICE = 6"
definition PP_VT_STRIKE_PRICE :: nat where "PP_VT_STRIKE_PRICE = 8"
definition PP_VT_INTEREST_RATE :: nat where "PP_VT_INTEREST_RATE = 10"
definition PP_VT_TIME_TO_MATURITY :: nat where "PP_VT_TIME_TO_MATURITY = 12"
definition PP_VT_STOCK_DISCRETIZATION :: nat where "PP_VT_STOCK_DISCRETIZATION = 14"

lemmas PP_VT_defs [simp] = PP_VT_OPTION_TYPE_def PP_VT_STOCK_PRICE_def PP_VT_STRIKE_PRICE_def
  PP_VT_INTEREST_RATE_def PP_VT_TIME_TO_MATURITY_def PP_VT_STOCK_DISCRETIZATION_def

definition PricingParams_option_type :: "buffer \<Rightarrow> int \<Rightarrow> OptionType option" where
  "PricingParams_option_type buf t = map_option word_of_nat (GetField 1 buf t PP_VT_OPTION_TYPE 0)"

definition PricingParams_stock_price :: "buffer \<Rightarrow> int \<Rightarrow> f32 option" where
  "PricingParams_stock_price buf t = map_option word_of_nat (GetField 4 buf t PP_VT_STOCK_PRICE 0)"

definition PricingParams_strike_price :: "buffer \<Rightarrow> int \<Rightarrow> f32 option" where
  "PricingParams_strike_price buf t = map_option word_of_nat (GetField 4 buf t PP_VT_STRIKE_PRICE 0)"

definition PricingParams_interest_rate :: "buffer \<Rightarrow> int \<Rightarrow> f32 option" where
  "PricingParams_interest_rate buf t = map_option word_of_nat (GetField 4 buf t PP_VT_INTEREST_RATE 0)"

definition PricingParams_time_to_maturity :: "buffer \<Rightarrow> int \<Rightarrow> f32 option" where
  "PricingParams_time_to_maturity buf t = map_option word_of_nat (GetField 4 buf t PP_VT_TIME_TO_MATURITY 0)"

definition PricingParams_stock_discretization :: "buffer \<Rightarrow> int \<Rightarrow> f32 option" where
  "PricingParams_stock_discretization buf t =
     map_option word_of_nat (GetField 4 buf t PP_VT_STOCK_DISCRETIZATION 0)"

definition PricingParams_Verify :: "int \<Rightarrow> vm" where
  "PricingParams_Verify t = vall [
     vr_VerifyTableStart t,
     t_VerifyField 1 t PP_VT_OPTION_TYPE 1,
     t_VerifyField 4 t PP_VT_STOCK_PRICE 4,
     t_VerifyField 4 t PP_VT_STRIKE_PRICE 4,
     t_VerifyField 4 t PP_VT_INTEREST_RATE 4,
     t_VerifyField 4 t PP_VT_TIME_TO_MATURITY 4,
     t_VerifyField 4 t PP_VT_STOCK_DISCRETIZATION 4,
     EndTable_check]"

record pricing_params =
  pp_option_type :: OptionType
  pp_stock_price :: f32
  pp_strike_price :: f32
  pp_interest_rate :: f32
  pp_time_to_maturity :: f32
  pp_stock_discretization :: f32

text \<open>All six accessors of a \<open>PricingParams\<close> table.\<close>

definition params_of :: "buffer \<Rightarrow> int \<Rightarrow> pricing_params option" where
  "params_of buf t = do {
     ot \<leftarrow> PricingParams_option_type buf t;
     s \<leftarrow> PricingParams_stock_price buf t;
     k \<leftarrow> PricingParams_strike_price buf t;
     r \<leftarrow> PricingParams_interest_rate buf t;
     ttm \<leftarrow> PricingParams_time_to_maturity buf t;
     ds \<leftarrow> PricingParams_stock_discretization buf t;
     Some \<lparr>pp_option_type = ot, pp_stock_price = s, pp_strike_price = k, pp_interest_rate = r,
           pp_time_to_maturity = ttm, pp_stock_discretization = ds\<rparr>
   }"

section \<open>RangePricingRequest and BatchPricingRequest\<close>

definition RR_VT_REQUEST :: nat where "RR_VT_REQUEST = 4"
definition RR_VT_REQUEST_HASH :: nat where "RR_VT_REQUEST_HASH = 6"
definition RR_VT_PAIRS :: nat where "RR_VT_PAIRS = 8"
definition BR_VT_BATCH_COUNTER_ID :: nat where "BR_VT_BATCH_COUNTER_ID = 4"
definition BR_VT_REQUEST :: nat where "BR_VT_REQUEST = 6"
definition BR_VT_PAIRS :: nat where "BR_VT_PAIRS = 8"

lemmas RQ_VT_defs [simp] = RR_VT_REQUEST_def RR_VT_REQUEST_HASH_def RR_VT_PAIRS_def
  BR_VT_BATCH_COUNTER_ID_def BR_VT_REQUEST_def BR_VT_PAIRS_def

definition RangePricingRequest_request :: "buffer \<Rightarrow> int \<Rightarrow> int option option" where
  "RangePricingRequest_request buf t = GetPointer buf t RR_VT_REQUEST"

definition RangePricingRequest_request_hash :: "buffer \<Rightarrow> int \<Rightarrow> u64 option" where
  "RangePricingRequest_request_hash buf t = map_option word_of_nat (GetField 8 buf t RR_VT_REQUEST_HASH 0)"

definition RangePricingRequest_pairs :: "buffer \<Rightarrow> int \<Rightarrow> int option option" where
  "RangePricingRequest_pairs buf t = GetPointer buf t RR_VT_PAIRS"

definition RangePricingRequest_Verify :: "int \<Rightarrow> vm" where
  "RangePricingRequest_Verify t = vall [
     vr_VerifyTableStart t,
     t_VerifyOffsetRequired t RR_VT_REQUEST,
     t_VerifyTable PricingParams_Verify t RR_VT_REQUEST,
     t_VerifyField 8 t RR_VT_REQUEST_HASH 8,
     t_VerifyOffsetRequired t RR_VT_PAIRS,
     t_VerifyVector AlphaBetaPair_size t RR_VT_PAIRS,
     EndTable_check]"

definition BatchPricingRequest_batch_counter_id :: "buffer \<Rightarrow> int \<Rightarrow> u64 option" where
  "BatchPricingRequest_batch_counter_id buf t =
     map_option word_of_nat (GetField 8 buf t BR_VT_BATCH_COUNTER_ID 0)"

definition BatchPricingRequest_request :: "buffer \<Rightarrow> int \<Rightarrow> int option option" where
  "BatchPricingRequest_request buf t = GetPointer buf t BR_VT_REQUEST"

definition BatchPricingRequest_pairs :: "buffer \<Rightarrow> int \<Rightarrow> int option option" where
  "BatchPricingRequest_pairs buf t = GetPointer buf t BR_VT_PAIRS"

definition BatchPricingRequest_Verify :: "int \<Rightarrow> vm" where
  "BatchPricingRequest_Verify t = vall [
     vr_VerifyTableStart t,
     t_VerifyField 8 t BR_VT_BATCH_COUNTER_ID 8,
     t_VerifyOffsetRequired t BR_VT_REQUEST,
     t_VerifyTable PricingParams_Verify t BR_VT_REQUEST,
     t_VerifyOffsetRequired t BR_VT_PAIRS,
     t_VerifyVector AlphaBetaPair_size t BR_VT_PAIRS,
     EndTable_check]"

section \<open>PricingResponse, BatchPricingResponse and RangePricingResponse\<close>

definition PR_VT_IDX :: nat where "PR_VT_IDX = 4"
definition PR_VT_ALPHA :: nat where "PR_VT_ALPHA = 6"
definition PR_VT_BETA :: nat where "PR_VT_BETA = 8"
definition PR_VT_PRICE :: nat where "PR_VT_PRICE = 10"
definition PR_VT_HEDGE_RATIO :: nat where "PR_VT_HEDGE_RATIO = 12"
definition BS_VT_BATCH_ID :: nat where "BS_VT_BATCH_ID = 4"
definition BS_VT_RESULTS :: nat where "BS_VT_RESULTS = 6"
definition RS_VT_REQUEST_HASH :: nat where "RS_VT_REQUEST_HASH = 4"
definition RS_VT_RESULTS :: nat where "RS_VT_RESULTS = 6"

lemmas RS_VT_defs [simp] = PR_VT_IDX_def PR_VT_ALPHA_def PR_VT_BETA_def PR_VT_PRICE_def
  PR_VT_HEDGE_RATIO_def BS_VT_BATCH_ID_def BS_VT_RESULTS_def RS_VT_REQUEST_HASH_def RS_VT_RESULTS_def

definition PricingResponse_idx :: "buffer \<Rightarrow> int \<Rightarrow> u32 option" where
  "PricingResponse_idx buf t = map_option word_of_nat (GetField 4 buf t PR_VT_IDX 0)"

definition PricingResponse_alpha :: "buffer \<Rightarrow> int \<Rightarrow> f32 option" where
  "PricingResponse_alpha buf t = map_option word_of_nat (GetField 4 buf t PR_VT_ALPHA 0)"

definition PricingResponse_beta :: "buffer \<Rightarrow> int \<Rightarrow> f32 option" where
  "PricingResponse_beta buf t = map_option word_of_nat (GetField 4 buf t PR_VT_BETA 0)"

definition PricingResponse_price :: "buffer \<Rightarrow> int \<Rightarrow> f32 option" where
  "PricingResponse_price buf t = map_option word_of_nat (GetField 4 buf t PR_VT_PRICE 0)"

definition PricingResponse_hedge_ratio :: "buffer \<Rightarrow> int \<Rightarrow> f32 option" where
  "PricingResponse_hedge_ratio buf t = map_option word_of_nat (GetField 4 buf t PR_VT_HEDGE_RATIO 0)"

definition PricingResponse_Verify :: "int \<Rightarrow> vm" where
  "PricingResponse_Verify t = vall [
     vr_VerifyTableStart t,
     t_VerifyField 4 t PR_VT_IDX 4,
     t_VerifyField 4 t PR_VT_ALPHA 4,
     t_VerifyField 4 t PR_VT_BETA 4,
     t_VerifyField 4 t PR_VT_PRICE 4,
     t_VerifyField 4 t PR_VT_HEDGE_RATIO 4,
     EndTable_check]"

definition BatchPricingResponse_batch_id :: "buffer \<Rightarrow> int \<Rightarrow> u64 option" where
  "BatchPricingResponse_batch_id buf t = map_option word_of_nat (GetField 8 buf t BS_VT_BATCH_ID 0)"

definition BatchPricingResponse_results :: "buffer \<Rightarrow> int \<Rightarrow> int option option" where
  "BatchPricingResponse_results buf t = GetPointer buf t BS_VT_RESULTS"

definition BatchPricingResponse_Verify :: "int \<Rightarrow> vm" where
  "BatchPricingResponse_Verify t = vall [
     vr_VerifyTableStart t,
     t_VerifyField 8 t BS_VT_BATCH_ID 8,
     t_VerifyOffset t BS_VT_RESULTS,
     t_VerifyVector 4 t BS_VT_RESULTS,
     t_VerifyVectorOfTables PricingResponse_Verify t BS_VT_RESULTS,
     EndTable_check]"

definition RangePricingResponse_request_hash :: "buffer \<Rightarrow> int \<Rightarrow> u64 option" where
  "RangePricingResponse_request_hash buf t = map_option word_of_nat (GetField 8 buf t RS_VT_REQUEST_HASH 0)"

definition RangePricingResponse_results :: "buffer \<Rightarrow> int \<Rightarrow> int option option" where
  "RangePricingResponse_results buf t = GetPointer buf t RS_VT_RESULTS"

definition RangePricingResponse_Verify :: "int \<Rightarrow> vm" where
  "RangePricingResponse_Verify t = vall [
     vr_VerifyTableStart t,
     t_VerifyField 8 t RS_VT_REQUEST_HASH 8,
     t_VerifyOffset t RS_VT_RESULTS,
     t_VerifyVector 4 t RS_VT_RESULTS,
     t_VerifyVectorOfTables PricingResponse_Verify t RS_VT_RESULTS,
     EndTable_check]"

definition GetRangePricingRequest :: "buffer \<Rightarrow> int option" where
  "GetRangePricingRequest buf = GetRoot buf"

definition VerifyRangePricingRequestBuffer :: vm where
  "VerifyRangePricingRequestBuffer = VerifyBuffer RangePricingRequest_Verify None"

definition VerifySizePrefixedRangePricingRequestBuffer :: vm where
  "VerifySizePrefixedRangePricingRequestBuffer = VerifySizePrefixedBuffer RangePricingRequest_Verify None"

section \<open>Whole messages\<close>

definition pair_of :: "buffer \<Rightarrow> int \<Rightarrow> AlphaBetaPair option" where
  "pair_of buf p = do {
     i \<leftarrow> AlphaBetaPair_idx buf p;
     a \<leftarrow> AlphaBetaPair_alpha buf p;
     b \<leftarrow> AlphaBetaPair_beta buf p;
     Some \<lparr>ab_idx = i, ab_alpha = a, ab_beta = b\<rparr>
   }"

definition pairs_of :: "buffer \<Rightarrow> int \<Rightarrow> AlphaBetaPair list option" where
  "pairs_of buf v = do {
     n \<leftarrow> vec_size buf v;
     those (map (\<lambda>i. pair_of buf (Get_struct AlphaBetaPair_size v i)) [0..<n])
   }"

record range_request =
  rq_params :: pricing_params
  rq_hash :: u64
  rq_pairs :: "AlphaBetaPair list"

definition deref :: "'a option \<Rightarrow> 'a option" where
  \<comment> \<open>use of a possibly null pointer; null is undefined behaviour\<close>
  "deref p = p"

definition request_of :: "buffer \<Rightarrow> int \<Rightarrow> range_request option" where
  "request_of buf t = do {
     base' \<leftarrow> RangePricingRequest_request buf t;
     base \<leftarrow> deref base';
     ps \<leftarrow> params_of buf base;
     h \<leftarrow> RangePricingRequest_request_hash buf t;
     v' \<leftarrow> RangePricingRequest_pairs buf t;
     v \<leftarrow> deref v';
     prs \<leftarrow> pairs_of buf v;
     Some \<lparr>rq_params = ps, rq_hash = h, rq_pairs = prs\<rparr>
   }"

record batch_request =
  bq_id :: u64
  bq_params :: pricing_params
  bq_pairs :: "AlphaBetaPair list"

definition batch_of :: "buffer \<Rightarrow> int \<Rightarrow> batch_request option" where
  "batch_of buf t = do {
     i \<leftarrow> BatchPricingRequest_batch_counter_id buf t;
     base' \<leftarrow> BatchPricingRequest_request buf t;
     base \<leftarrow> deref base';
     ps \<leftarrow> params_of buf base;
     v' \<leftarrow> BatchPricingRequest_pairs buf t;
     v \<leftarrow> deref v';
     prs \<leftarrow> pairs_of buf v;
     Some \<lparr>bq_id = i, bq_params = ps, bq_pairs = prs\<rparr>
   }"

record pricing_response =
  pr_idx :: u32
  pr_alpha :: f32
  pr_beta :: f32
  pr_price :: f32
  pr_hedge_ratio :: f32

definition row_of :: "buffer \<Rightarrow> int \<Rightarrow> pricing_response option" where
  "row_of buf t = do {
     i \<leftarrow> PricingResponse_idx buf t;
     a \<leftarrow> PricingResponse_alpha buf t;
     b \<leftarrow> PricingResponse_beta buf t;
     pr \<leftarrow> PricingResponse_price buf t;
     h \<leftarrow> PricingResponse_hedge_ratio buf t;
     Some \<lparr>pr_idx = i, pr_alpha = a, pr_beta = b, pr_price = pr, pr_hedge_ratio = h\<rparr>
   }"

definition rows_of :: "buffer \<Rightarrow> int \<Rightarrow> pricing_response list option" where
  "rows_of buf v = do {
     n \<leftarrow> vec_size buf v;
     those (map (\<lambda>i. do { t \<leftarrow> Get_table buf v i; row_of buf t }) [0..<n])
   }"

text \<open>A response message: its identifier and, when the vector is present, its rows.\<close>

definition response_of ::
    "(buffer \<Rightarrow> int \<Rightarrow> u64 option) \<Rightarrow> (buffer \<Rightarrow> int \<Rightarrow> int option option) \<Rightarrow>
     buffer \<Rightarrow> int \<Rightarrow> (u64 \<times> pricing_response list option) option" where
  "response_of id_of results_of buf t = do {
     i \<leftarrow> id_of buf t;
     v' \<leftarrow> results_of buf t;
     (case v' of None \<Rightarrow> Some (i, None)
      | Some v \<Rightarrow> do { rows \<leftarrow> rows_of buf v; Some (i, Some rows) })
   }"

abbreviation batch_response_of :: "buffer \<Rightarrow> int \<Rightarrow> (u64 \<times> pricing_response list option) option" where
  "batch_response_of \<equiv> response_of BatchPricingResponse_batch_id BatchPricingResponse_results"

abbreviation range_response_of :: "buffer \<Rightarrow> int \<Rightarrow> (u64 \<times> pricing_response list option) option" where
  "range_response_of \<equiv> response_of RangePricingResponse_request_hash RangePricingResponse_results"

section \<open>A verified message can be read\<close>

lemma those_Some_iff: "(\<exists>ys. those xs = Some ys) \<longleftrightarrow> (\<forall>x\<in>set xs. x \<noteq> None)"
  by (induction xs) (auto split: option.splits)

lemma those_map_Some: "(\<And>x. x \<in> set xs \<Longrightarrow> f x = Some (g x)) \<Longrightarrow> those (map f xs) = Some (map g xs)"
  by (induction xs) auto

text \<open>
  A table whose \<open>Verify\<close> is a \<open>VerifyTableStart\<close> followed by scalar fields: never a read outside
  the buffer, and every listed field readable afterwards.
\<close>

definition field_checks :: "int \<Rightarrow> (nat \<times> nat) list \<Rightarrow> vm list" where
  "field_checks t fs = map (\<lambda>(n, f). t_VerifyField n t f n) fs"

lemma vsafe_field_checks:
  assumes ti: "vtable_inside buf t" and sm: "small buf"
  shows "\<forall>(n, f)\<in>set fs. even f \<Longrightarrow> vsafe buf (vall (field_checks t fs @ [EndTable_check]))
           (\<forall>(n, f)\<in>set fs. \<forall>d. \<exists>x. GetField n buf t f d = Some x)"
proof (induction fs)
  case Nil
  have "vsafe buf (vall [EndTable_check]) (True \<and> True)"
    by (rule vsafe_Cons [OF vsafe_EndTable vsafe_Nil])
  then show ?case by (simp add: field_checks_def del: vall.simps)
next
  case (Cons a fs)
  obtain n f where a: "a = (n, f)" by (cases a)
  have "vsafe buf (vall (t_VerifyField n t f n # (field_checks t fs @ [EndTable_check])))
     ((\<forall>d. \<exists>x. GetField n buf t f d = Some x) \<and> (\<forall>(n, f)\<in>set fs. \<forall>d. \<exists>x. GetField n buf t f d = Some x))"
    using vsafe_VerifyField [OF ti sm] Cons a by (intro vsafe_Cons) auto
  then show ?case by (simp add: field_checks_def a del: vall.simps)
qed

lemma vsafe_scalar_table:
  assumes "near buf t" and "small buf" and "\<forall>(n, f)\<in>set fs. even f"
  shows "vsafe buf (vall (vr_VerifyTableStart t # field_checks t fs @ [EndTable_check]))
     (\<forall>(n, f)\<in>set fs. \<forall>d. \<exists>x. GetField n buf t f d = Some x)"
  by (rule vsafe_mono [OF vsafe_Cons [OF vsafe_VerifyTableStart [OF assms(2,1)]
        vsafe_field_checks [OF _ assms(2,3)]]]) auto

lemma vsafe_PricingParams_Verify:
  assumes "near buf t" and "small buf"
  shows "vsafe buf (PricingParams_Verify t) (\<exists>ps. params_of buf t = Some ps)"
proof -
  define fs :: "(nat \<times> nat) list" where "fs = [(1, 4), (4, 6), (4, 8), (4, 10), (4, 12), (4, 14)]"
  have "PricingParams_Verify t = vall (vr_VerifyTableStart t # field_checks t fs @ [EndTable_check])"
    by (simp add: PricingParams_Verify_def field_checks_def fs_def)
  moreover have "\<exists>ps. params_of buf t = Some ps"
    if "\<forall>(n, f)\<in>set fs. \<forall>d. \<exists>x. GetField n buf t f d = Some x"
  proof -
    from that obtain a b c d e f where
      "GetField 1 buf t 4 0 = Some a" "GetField 4 buf t 6 0 = Some b" "GetField 4 buf t 8 0 = Some c"
      "GetField 4 buf t 10 0 = Some d" "GetField 4 buf t 12 0 = Some e" "GetField 4 buf t 14 0 = Some f"
      by (simp add: fs_def) blast
    then show ?thesis
      by (simp add: params_of_def PricingParams_option_type_def PricingParams_stock_price_def
          PricingParams_strike_price_def PricingParams_interest_rate_def
          PricingParams_time_to_maturity_def PricingParams_stock_discretization_def)
  qed
  ultimately show ?thesis
    using vsafe_mono [OF vsafe_scalar_table [OF assms, of fs]] by (simp add: fs_def)
qed

lemma vsafe_PricingResponse_Verify:
  assumes "near buf t" and "small buf"
  shows "vsafe buf (PricingResponse_Verify t) (\<exists>r. row_of buf t = Some r)"
proof -
  define fs :: "(nat \<times> nat) list" where "fs = [(4, 4), (4, 6), (4, 8), (4, 10), (4, 12)]"
  have "PricingResponse_Verify t = vall (vr_VerifyTableStart t # field_checks t fs @ [EndTable_check])"
    by (simp add: PricingResponse_Verify_def field_checks_def fs_def)
  moreover have "\<exists>r. row_of buf t = Some r"
    if "\<forall>(n, f)\<in>set fs. \<forall>d. \<exists>x. GetField n buf t f d = Some x"
  proof -
    from that obtain a b c d e where
      "GetField 4 buf t 4 0 = Some a" "GetField 4 buf t 6 0 = Some b" "GetField 4 buf t 8 0 = Some c"
      "GetField 4 buf t 10 0 = Some d" "GetField 4 buf t 12 0 = Some e"
      by (simp add: fs_def) blast
    then show ?thesis
      by (simp add: row_of_def PricingResponse_idx_def PricingResponse_alpha_def
          PricingResponse_beta_def PricingResponse_price_def PricingResponse_hedge_ratio_def)
  qed
  ultimately show ?thesis
    using vsafe_mono [OF vsafe_scalar_table [OF assms, of fs]] by (simp add: fs_def)
qed

text \<open>Vectors of structs and of tables.\<close>

lemma pairs_of_inside:
  assumes "vector_inside buf AlphaBetaPair_size v"
  shows "\<exists>ps. pairs_of buf v = Some ps"
proof -
  from assms obtain n where n: "vec_size buf v = Some n" and v: "0 \<le> v"
    and b: "v + 4 + int (12 * n) \<le> int (length buf)"
    by (auto simp: vector_inside_def AlphaBetaPair_size_def)
  have "pair_of buf (Get_struct AlphaBetaPair_size v i) \<noteq> None" if "i < n" for i
  proof -
    define p where "p = Get_struct AlphaBetaPair_size v i"
    have p: "0 \<le> p" "p + 12 \<le> int (length buf)"
      using v b that by (auto simp: p_def Get_struct_def Read_struct_def vec_Data_def AlphaBetaPair_size_def)
    have "\<exists>x. ReadScalar 4 buf (p + k) = Some x" if "0 \<le> k" "k \<le> 8" for k
      using p that by (intro ReadScalar_defined) auto
    from this [of 0] this [of 4] this [of 8] show ?thesis
      by (auto simp: pair_of_def AlphaBetaPair_idx_def AlphaBetaPair_alpha_def AlphaBetaPair_beta_def p_def)
  qed
  then have "\<exists>ps. those (map (\<lambda>i. pair_of buf (Get_struct AlphaBetaPair_size v i)) [0..<n]) = Some ps"
    by (auto simp: those_Some_iff)
  with n show ?thesis by (simp add: pairs_of_def)
qed

lemma rows_of_inside:
  assumes "vec_size buf v = Some n"
    and "\<forall>j<n. \<exists>t. Get_table buf v j = Some t \<and> near buf t \<and> (\<exists>r. row_of buf t = Some r)"
  shows "\<exists>rs. rows_of buf v = Some rs"
proof -
  have "\<exists>rs. those (map (\<lambda>i. do { t \<leftarrow> Get_table buf v i; row_of buf t }) [0..<n]) = Some rs"
    using assms(2) by (fastforce simp: those_Some_iff)
  with assms(1) show ?thesis by (simp add: rows_of_def)
qed

text \<open>A verified request has fewer pairs than the largest buffer could hold, whatever its own size.\<close>

lemma those_length: "those xs = Some ys \<Longrightarrow> length ys = length xs"
  by (induction xs arbitrary: ys) (auto split: option.splits)

lemma RangePricingRequest_Verify_count:
  assumes "RangePricingRequest_Verify t vr = Some (True, vr')" and "request_of (vr_buf vr) t = Some rr"
  shows "length (rq_pairs rr) < max_size (vr_opts vr) div AlphaBetaPair_size"
proof -
  have f: "vframe (PricingParams_Verify p)" for p unfolding PricingParams_Verify_def by (rule vframe_vall) simp
  have "\<exists>v1 v2. t_VerifyVector AlphaBetaPair_size t RR_VT_PAIRS v1 = Some (True, v2) \<and> vsame vr v1"
    by (rule vall_member [OF assms(1) [unfolded RangePricingRequest_Verify_def]]) (simp_all add: f vframe_VerifyTable)
  then obtain v1 v2 where v: "t_VerifyVector AlphaBetaPair_size t RR_VT_PAIRS v1 = Some (True, v2)" "vsame vr v1" by blast
  from assms(2) obtain p n where p: "GetPointer (vr_buf vr) t RR_VT_PAIRS = Some (Some p)" "vec_size (vr_buf vr) p = Some n"
    "length (rq_pairs rr) = n"
    by (auto simp: request_of_def RangePricingRequest_pairs_def pairs_of_def bind_eq_Some_conv deref_def those_length split: option.splits)
  with vector_count [OF v(1)] v(2) show ?thesis by (simp add: vsame_def)
qed

lemma verified_pairs_count:
  assumes "VerifyRangePricingRequestBuffer (mk_verifier msg default_options) = Some (True, vr)"
    and "GetRangePricingRequest msg = Some t" and "request_of msg t = Some rr"
  shows "length (rq_pairs rr) < 2 ^ 31"
proof -
  let ?vr = "mk_verifier msg default_options"
  have buf: "vr_buf ?vr = msg" "vr_opts ?vr = default_options" by (simp_all add: mk_verifier_def)
  from assms(1) obtain o' where o: "vr_VerifyOffset ?vr 0 = Some o'" "o' \<noteq> 0" "RangePricingRequest_Verify (int o') ?vr = Some (True, vr)"
    by (auto simp: VerifyRangePricingRequestBuffer_def VerifyBuffer_def VerifyBufferFromStart_def bind_eq_Some_conv split: if_splits)
  have "ReadScalar 4 msg 0 = Some o'" using o(1,2) by (auto simp: vr_VerifyOffset_def buf bind_eq_Some_conv split: if_splits)
  with assms(2) have "t = int o'" by (simp add: GetRangePricingRequest_def GetRoot_def GetMutableRoot_def)
  with RangePricingRequest_Verify_count [OF o(3)] assms(3) show ?thesis
    by (simp add: buf) (simp add: default_options_def FLATBUFFERS_MAX_BUFFER_SIZE_def AlphaBetaPair_size_def)
qed

text \<open>The three message types.\<close>

lemma vsafe_RangePricingRequest_Verify:
  assumes nr: "near buf t" and sm: "small buf"
  shows "vsafe buf (RangePricingRequest_Verify t) (\<exists>r. request_of buf t = Some r)"
proof -
  have "vsafe buf (RangePricingRequest_Verify t)
    (vtable_inside buf t \<and>
     (\<exists>q. GetPointer buf t 4 = Some (Some q) \<and> pointer_inside buf (Some q)) \<and>
     (\<exists>q ps. GetPointer buf t 4 = Some (Some q) \<and> params_of buf q = Some ps) \<and>
     (\<forall>d. \<exists>x. GetField 8 buf t 6 d = Some x) \<and>
     (\<exists>v. GetPointer buf t 8 = Some (Some v) \<and> pointer_inside buf (Some v)) \<and>
     (\<exists>v. GetPointer buf t 8 = Some (Some v) \<and> vector_inside buf AlphaBetaPair_size v) \<and> True \<and> True)"
    unfolding RangePricingRequest_Verify_def RQ_VT_defs
  proof (intro vsafe_Cons vsafe_Nil vsafe_EndTable)
    show "vsafe buf (vr_VerifyTableStart t) (vtable_inside buf t)"
      by (rule vsafe_VerifyTableStart [OF sm nr])
    assume ti: "vtable_inside buf t"
    show "vsafe buf (t_VerifyOffsetRequired t 4)
        (\<exists>q. GetPointer buf t 4 = Some (Some q) \<and> pointer_inside buf (Some q))"
      by (rule vsafe_VerifyOffsetRequired [OF ti sm]) simp
    show "vsafe buf (t_VerifyField 8 t 6 8) (\<forall>d. \<exists>x. GetField 8 buf t 6 d = Some x)"
      by (rule vsafe_VerifyField [OF ti sm]) simp
    show "vsafe buf (t_VerifyOffsetRequired t 8)
        (\<exists>v. GetPointer buf t 8 = Some (Some v) \<and> pointer_inside buf (Some v))"
      by (rule vsafe_VerifyOffsetRequired [OF ti sm]) simp
  next
    assume "\<exists>q. GetPointer buf t 4 = Some (Some q) \<and> pointer_inside buf (Some q)"
    then obtain q where q: "GetPointer buf t 4 = Some (Some q)" "pointer_inside buf (Some q)" by blast
    show "vsafe buf (t_VerifyTable PricingParams_Verify t 4)
       (\<exists>q ps. GetPointer buf t 4 = Some (Some q) \<and> params_of buf q = Some ps)"
      by (rule vsafe_VerifyTable [where T = PricingParams_Verify, OF q(1) vsafe_mono
          [OF vsafe_PricingParams_Verify [OF pointer_inside_near [OF q(2) sm] sm]]]) (use q in auto)
  next
    assume "\<exists>v. GetPointer buf t 8 = Some (Some v) \<and> pointer_inside buf (Some v)"
    then obtain v where v: "GetPointer buf t 8 = Some (Some v)" "pointer_inside buf (Some v)" by blast
    show "vsafe buf (t_VerifyVector AlphaBetaPair_size t 8)
       (\<exists>v. GetPointer buf t 8 = Some (Some v) \<and> vector_inside buf AlphaBetaPair_size v)"
      by (rule vsafe_mono [OF vsafe_VerifyVector [OF sm v]]) (use v in auto)
  qed
  then show ?thesis
  proof (rule vsafe_mono)
    assume Q: "vtable_inside buf t \<and>
     (\<exists>q. GetPointer buf t 4 = Some (Some q) \<and> pointer_inside buf (Some q)) \<and>
     (\<exists>q ps. GetPointer buf t 4 = Some (Some q) \<and> params_of buf q = Some ps) \<and>
     (\<forall>d. \<exists>x. GetField 8 buf t 6 d = Some x) \<and>
     (\<exists>v. GetPointer buf t 8 = Some (Some v) \<and> pointer_inside buf (Some v)) \<and>
     (\<exists>v. GetPointer buf t 8 = Some (Some v) \<and> vector_inside buf AlphaBetaPair_size v) \<and> True \<and> True"
    then obtain q ps v h where "GetPointer buf t 4 = Some (Some q)" "params_of buf q = Some ps"
      "GetField 8 buf t 6 0 = Some h" "GetPointer buf t 8 = Some (Some v)"
      "vector_inside buf AlphaBetaPair_size v"
      by blast
    with pairs_of_inside [of buf v] show "\<exists>r. request_of buf t = Some r"
      by (auto simp: request_of_def deref_def RangePricingRequest_request_def
          RangePricingRequest_request_hash_def RangePricingRequest_pairs_def)
  qed
qed

lemma vsafe_BatchPricingRequest_Verify:
  assumes nr: "near buf t" and sm: "small buf"
  shows "vsafe buf (BatchPricingRequest_Verify t) (\<exists>r. batch_of buf t = Some r)"
proof -
  have "vsafe buf (BatchPricingRequest_Verify t)
    (vtable_inside buf t \<and>
     (\<forall>d. \<exists>x. GetField 8 buf t 4 d = Some x) \<and>
     (\<exists>q. GetPointer buf t 6 = Some (Some q) \<and> pointer_inside buf (Some q)) \<and>
     (\<exists>q ps. GetPointer buf t 6 = Some (Some q) \<and> params_of buf q = Some ps) \<and>
     (\<exists>v. GetPointer buf t 8 = Some (Some v) \<and> pointer_inside buf (Some v)) \<and>
     (\<exists>v. GetPointer buf t 8 = Some (Some v) \<and> vector_inside buf AlphaBetaPair_size v) \<and> True \<and> True)"
    unfolding BatchPricingRequest_Verify_def RQ_VT_defs
  proof (intro vsafe_Cons vsafe_Nil vsafe_EndTable)
    show "vsafe buf (vr_VerifyTableStart t) (vtable_inside buf t)"
      by (rule vsafe_VerifyTableStart [OF sm nr])
    assume ti: "vtable_inside buf t"
    show "vsafe buf (t_VerifyField 8 t 4 8) (\<forall>d. \<exists>x. GetField 8 buf t 4 d = Some x)"
      by (rule vsafe_VerifyField [OF ti sm]) simp
    show "vsafe buf (t_VerifyOffsetRequired t 6)
        (\<exists>q. GetPointer buf t 6 = Some (Some q) \<and> pointer_inside buf (Some q))"
      by (rule vsafe_VerifyOffsetRequired [OF ti sm]) simp
    show "vsafe buf (t_VerifyOffsetRequired t 8)
        (\<exists>v. GetPointer buf t 8 = Some (Some v) \<and> pointer_inside buf (Some v))"
      by (rule vsafe_VerifyOffsetRequired [OF ti sm]) simp
  next
    assume "\<exists>q. GetPointer buf t 6 = Some (Some q) \<and> pointer_inside buf (Some q)"
    then obtain q where q: "GetPointer buf t 6 = Some (Some q)" "pointer_inside buf (Some q)" by blast
    show "vsafe buf (t_VerifyTable PricingParams_Verify t 6)
       (\<exists>q ps. GetPointer buf t 6 = Some (Some q) \<and> params_of buf q = Some ps)"
      by (rule vsafe_VerifyTable [where T = PricingParams_Verify, OF q(1) vsafe_mono
          [OF vsafe_PricingParams_Verify [OF pointer_inside_near [OF q(2) sm] sm]]]) (use q in auto)
  next
    assume "\<exists>v. GetPointer buf t 8 = Some (Some v) \<and> pointer_inside buf (Some v)"
    then obtain v where v: "GetPointer buf t 8 = Some (Some v)" "pointer_inside buf (Some v)" by blast
    show "vsafe buf (t_VerifyVector AlphaBetaPair_size t 8)
       (\<exists>v. GetPointer buf t 8 = Some (Some v) \<and> vector_inside buf AlphaBetaPair_size v)"
      by (rule vsafe_mono [OF vsafe_VerifyVector [OF sm v]]) (use v in auto)
  qed
  then show ?thesis
  proof (rule vsafe_mono)
    assume Q: "vtable_inside buf t \<and>
     (\<forall>d. \<exists>x. GetField 8 buf t 4 d = Some x) \<and>
     (\<exists>q. GetPointer buf t 6 = Some (Some q) \<and> pointer_inside buf (Some q)) \<and>
     (\<exists>q ps. GetPointer buf t 6 = Some (Some q) \<and> params_of buf q = Some ps) \<and>
     (\<exists>v. GetPointer buf t 8 = Some (Some v) \<and> pointer_inside buf (Some v)) \<and>
     (\<exists>v. GetPointer buf t 8 = Some (Some v) \<and> vector_inside buf AlphaBetaPair_size v) \<and> True \<and> True"
    then obtain q ps v h where "GetPointer buf t 6 = Some (Some q)" "params_of buf q = Some ps"
      "GetField 8 buf t 4 0 = Some h" "GetPointer buf t 8 = Some (Some v)"
      "vector_inside buf AlphaBetaPair_size v"
      by blast
    with pairs_of_inside [of buf v] show "\<exists>r. batch_of buf t = Some r"
      by (auto simp: batch_of_def deref_def BatchPricingRequest_request_def
          BatchPricingRequest_batch_counter_id_def BatchPricingRequest_pairs_def)
  qed
qed

text \<open>Both response tables have the same shape: an identifier at 4 and the rows at 6.\<close>

lemma vsafe_response_Verify:
  assumes nr: "near buf t" and sm: "small buf"
  shows "vsafe buf (vall [vr_VerifyTableStart t, t_VerifyField 8 t 4 8, t_VerifyOffset t 6,
       t_VerifyVector 4 t 6, t_VerifyVectorOfTables PricingResponse_Verify t 6, EndTable_check])
     (\<exists>x p. GetField 8 buf t 4 0 = Some x \<and> GetPointer buf t 6 = Some p \<and>
        (\<forall>v. p = Some v \<longrightarrow> (\<exists>rs. rows_of buf v = Some rs)))"
proof -
  define rows_ok where "rows_ok p \<longleftrightarrow> (\<forall>v n. p = Some v \<longrightarrow> vec_size buf v = Some n \<longrightarrow>
        (\<forall>j<n. \<exists>t. Get_table buf v j = Some t \<and> near buf t \<and> (\<exists>r. row_of buf t = Some r)))" for p
  have "vsafe buf (vall [vr_VerifyTableStart t, t_VerifyField 8 t 4 8, t_VerifyOffset t 6,
       t_VerifyVector 4 t 6, t_VerifyVectorOfTables PricingResponse_Verify t 6, EndTable_check])
    (vtable_inside buf t \<and>
     (\<forall>d. \<exists>x. GetField 8 buf t 4 d = Some x) \<and>
     (\<exists>p. GetPointer buf t 6 = Some p \<and> pointer_inside buf p) \<and>
     (\<exists>p. GetPointer buf t 6 = Some p \<and> (\<forall>v. p = Some v \<longrightarrow> vector_inside buf 4 v)) \<and>
     (\<exists>p. GetPointer buf t 6 = Some p \<and> rows_ok p) \<and> True \<and> True)"
  proof (intro vsafe_Cons vsafe_Nil vsafe_EndTable)
    show "vsafe buf (vr_VerifyTableStart t) (vtable_inside buf t)"
      by (rule vsafe_VerifyTableStart [OF sm nr])
    assume ti: "vtable_inside buf t"
    show "vsafe buf (t_VerifyField 8 t 4 8) (\<forall>d. \<exists>x. GetField 8 buf t 4 d = Some x)"
      by (rule vsafe_VerifyField [OF ti sm]) simp
    show "vsafe buf (t_VerifyOffset t 6) (\<exists>p. GetPointer buf t 6 = Some p \<and> pointer_inside buf p)"
      by (rule vsafe_VerifyOffset [OF ti sm]) simp
  next
    assume "\<exists>p. GetPointer buf t 6 = Some p \<and> pointer_inside buf p"
    then obtain p where p: "GetPointer buf t 6 = Some p" "pointer_inside buf p" by blast
    show "vsafe buf (t_VerifyVector 4 t 6)
       (\<exists>p. GetPointer buf t 6 = Some p \<and> (\<forall>v. p = Some v \<longrightarrow> vector_inside buf 4 v))"
      by (rule vsafe_mono [OF vsafe_VerifyVector [OF sm p]]) (use p in auto)
  next
    assume "\<exists>p. GetPointer buf t 6 = Some p \<and> (\<forall>v. p = Some v \<longrightarrow> vector_inside buf 4 v)"
    then obtain p where p: "GetPointer buf t 6 = Some p" "\<And>v. p = Some v \<Longrightarrow> vector_inside buf 4 v"
      by blast
    show "vsafe buf (t_VerifyVectorOfTables PricingResponse_Verify t 6)
       (\<exists>p. GetPointer buf t 6 = Some p \<and> rows_ok p)"
      by (rule vsafe_mono [OF vsafe_VerifyVectorOfTables [OF vsafe_PricingResponse_Verify [OF _ sm] sm p]])
         (use p in \<open>auto simp: rows_ok_def\<close>)
  qed
  then show ?thesis
  proof (rule vsafe_mono)
    assume Q: "vtable_inside buf t \<and>
     (\<forall>d. \<exists>x. GetField 8 buf t 4 d = Some x) \<and>
     (\<exists>p. GetPointer buf t 6 = Some p \<and> pointer_inside buf p) \<and>
     (\<exists>p. GetPointer buf t 6 = Some p \<and> (\<forall>v. p = Some v \<longrightarrow> vector_inside buf 4 v)) \<and>
     (\<exists>p. GetPointer buf t 6 = Some p \<and> rows_ok p) \<and> True \<and> True"
    then obtain x p where x: "GetField 8 buf t 4 0 = Some x" and p: "GetPointer buf t 6 = Some p"
      and vi: "\<forall>v. p = Some v \<longrightarrow> vector_inside buf 4 v" and ok: "rows_ok p"
      by (metis option.inject)
    have "\<exists>rs. rows_of buf v = Some rs" if "p = Some v" for v
    proof -
      from vi that obtain n where "vec_size buf v = Some n" by (auto simp: vector_inside_def)
      with ok that rows_of_inside show ?thesis by (auto simp: rows_ok_def)
    qed
    with x p show "\<exists>x p. GetField 8 buf t 4 0 = Some x \<and> GetPointer buf t 6 = Some p \<and>
        (\<forall>v. p = Some v \<longrightarrow> (\<exists>rs. rows_of buf v = Some rs))" by blast
  qed
qed

lemma vsafe_BatchPricingResponse_Verify:
  assumes "near buf t" and "small buf"
  shows "vsafe buf (BatchPricingResponse_Verify t) (\<exists>r. batch_response_of buf t = Some r)"
  unfolding BatchPricingResponse_Verify_def RS_VT_defs
  by (rule vsafe_mono [OF vsafe_response_Verify [OF assms]])
     (auto simp: response_of_def BatchPricingResponse_batch_id_def BatchPricingResponse_results_def
       split: option.splits)

lemma vsafe_RangePricingResponse_Verify:
  assumes "near buf t" and "small buf"
  shows "vsafe buf (RangePricingResponse_Verify t) (\<exists>r. range_response_of buf t = Some r)"
  unfolding RangePricingResponse_Verify_def RS_VT_defs
  by (rule vsafe_mono [OF vsafe_response_Verify [OF assms]])
     (auto simp: response_of_def RangePricingResponse_request_hash_def RangePricingResponse_results_def
       split: option.splits)

end
