(* ===== verification/Fb_Downward.thy ===== *)
theory Fb_Downward
  imports Fb_Base
begin

text \<open>
  \<open>flatbuffers/vector_downward.h\<close>: one allocation that holds a byte vector growing from its end
  towards lower addresses and, at its front, a scratch pad growing upwards.  The pointers
  \<open>buf_\<close>, \<open>cur_\<close> and \<open>scratch_\<close> become the block itself and two indices into it.  The
  abstraction is a pair of independent byte lists: \<open>contents\<close> (prepended to) and
  \<open>scratch_bytes\<close> (appended to); every operation is shown to act on them alone.  \<open>size_\<close> is a
  \<open>nat\<close>: it agrees with the 32-bit counter under the bound the code asserts, \<open>size() < max_size_\<close>.
\<close>

section \<open>State\<close>

record vector_downward =
  vd_alloc :: allocator
  vd_initial_size :: nat
  vd_max_size :: nat
  vd_buffer_minalign :: nat
  vd_reserved :: nat
  vd_size :: nat
  vd_buf :: "byte list option"
  vd_cur :: nat
  vd_scratch :: nat

definition mk_vector_downward :: "nat \<Rightarrow> allocator \<Rightarrow> nat \<Rightarrow> nat \<Rightarrow> vector_downward" where
  "mk_vector_downward initial_size fresh minalign max_size =
     \<lparr>vd_alloc = fresh, vd_initial_size = initial_size, vd_max_size = max_size,
      vd_buffer_minalign = minalign, vd_reserved = 0, vd_size = 0, vd_buf = None,
      vd_cur = 0, vd_scratch = 0\<rparr>"

definition mem :: "vector_downward \<Rightarrow> byte list" where
  "mem v = (case vd_buf v of None \<Rightarrow> [] | Some m \<Rightarrow> m)"

text \<open>The two abstract vectors.\<close>

definition contents :: "vector_downward \<Rightarrow> byte list" where
  "contents v = drop (vd_cur v) (mem v)"

definition scratch_bytes :: "vector_downward \<Rightarrow> byte list" where
  "scratch_bytes v = take (vd_scratch v) (mem v)"

definition vd_ok :: "vector_downward \<Rightarrow> bool" where
  "vd_ok v \<longleftrightarrow>
     length (mem v) = vd_reserved v \<and> vd_scratch v \<le> vd_cur v \<and> vd_cur v \<le> vd_reserved v \<and>
     vd_size v = vd_reserved v - vd_cur v \<and> (vd_buf v = None \<longrightarrow> vd_reserved v = 0) \<and>
     (\<forall>n. length (vd_alloc v n) = n) \<and> pow2 (vd_buffer_minalign v)"

section \<open>Observers\<close>

definition unused_buffer_size :: "vector_downward \<Rightarrow> nat" where
  "unused_buffer_size v = vd_cur v - vd_scratch v"

definition scratch_size :: "vector_downward \<Rightarrow> nat" where
  "scratch_size v = vd_scratch v"

definition vd_offset :: "vector_downward \<Rightarrow> nat" where
  "vd_offset v = vd_cur v"

definition capacity :: "vector_downward \<Rightarrow> nat" where
  "capacity v = vd_reserved v"

text \<open>\<open>data()\<close> and \<open>data_at(offset)\<close> are pointers into the block: their indices.\<close>

definition vd_data :: "vector_downward \<Rightarrow> nat" where
  "vd_data v = vd_cur v"

definition data_at :: "vector_downward \<Rightarrow> nat \<Rightarrow> nat" where
  "data_at v offset = vd_reserved v - offset"

section \<open>Clearing\<close>

definition clear_scratch :: "vector_downward \<Rightarrow> vector_downward" where
  "clear_scratch v = v\<lparr>vd_scratch := 0\<rparr>"

definition clear_buffer :: "vector_downward \<Rightarrow> vector_downward" where
  "clear_buffer v = v\<lparr>vd_buf := None\<rparr>"

definition vd_clear :: "vector_downward \<Rightarrow> vector_downward" where
  "vd_clear v =
     (let v1 = (case vd_buf v of
                  Some m \<Rightarrow> v\<lparr>vd_cur := vd_reserved v\<rparr>
                | None \<Rightarrow> v\<lparr>vd_reserved := 0, vd_cur := 0\<rparr>)
      in clear_scratch (v1\<lparr>vd_size := 0\<rparr>))"

definition vd_reset :: "vector_downward \<Rightarrow> vector_downward" where
  "vd_reset v = vd_clear (clear_buffer v)"

text \<open>\<open>release_raw\<close> hands over the block, its capacity and the data's offset in it.\<close>

definition release_raw :: "vector_downward \<Rightarrow> byte list option \<times> nat \<times> nat \<times> vector_downward" where
  "release_raw v =
     (let buf = vd_buf v; allocated_bytes = vd_reserved v; offset = vd_offset v
      in (buf, allocated_bytes, offset, vd_clear (v\<lparr>vd_buf := None\<rparr>)))"

section \<open>Growth\<close>

definition reallocate :: "nat \<Rightarrow> vector_downward \<Rightarrow> vector_downward" where
  "reallocate len v =
     (let old_reserved = vd_reserved v;
          old_size = vd_size v;
          old_scratch_size = scratch_size v;
          r1 = old_reserved + max len (if old_reserved \<noteq> 0 then old_reserved div 2 else vd_initial_size v);
          r2 = nat ((int r1 + int (vd_buffer_minalign v) - 1) AND NOT (int (vd_buffer_minalign v) - 1));
          buf = (case vd_buf v of
                   Some m \<Rightarrow> reallocate_downward (vd_alloc v) m old_reserved r2 old_size old_scratch_size
                 | None \<Rightarrow> vd_alloc v r2)
      in v\<lparr>vd_reserved := r2, vd_buf := Some buf, vd_cur := r2 - old_size,
           vd_scratch := old_scratch_size\<rparr>)"

definition ensure_space :: "nat \<Rightarrow> vector_downward \<Rightarrow> vector_downward" where
  "ensure_space len v = (if len > unused_buffer_size v then reallocate len v else v)"

definition make_space :: "nat \<Rightarrow> vector_downward \<Rightarrow> vector_downward" where
  "make_space len v =
     (if len \<noteq> 0
      then (let v1 = ensure_space len v
            in v1\<lparr>vd_cur := vd_cur v1 - len, vd_size := vd_size v1 + len\<rparr>)
      else v)"

text \<open>A store into the block at an index, as the code's \<open>memcpy\<close> and pointer writes do.\<close>

definition mem_write :: "nat \<Rightarrow> byte list \<Rightarrow> vector_downward \<Rightarrow> vector_downward" where
  "mem_write i bs v = v\<lparr>vd_buf := map_option (\<lambda>m. poke m i bs) (vd_buf v)\<rparr>"

definition vd_push :: "byte list \<Rightarrow> vector_downward \<Rightarrow> vector_downward" where
  "vd_push bytes v =
     (if length bytes > 0
      then (let v1 = make_space (length bytes) v in mem_write (vd_cur v1) bytes v1)
      else v)"

definition push_small :: "byte list \<Rightarrow> vector_downward \<Rightarrow> vector_downward" where
  "push_small t v = (let v1 = make_space (length t) v in mem_write (vd_cur v1) t v1)"

definition scratch_push_small :: "byte list \<Rightarrow> vector_downward \<Rightarrow> vector_downward" where
  "scratch_push_small t v =
     (let v1 = ensure_space (length t) v; v2 = mem_write (vd_scratch v1) t v1
      in v2\<lparr>vd_scratch := vd_scratch v2 + length t\<rparr>)"

text \<open>The loop \<open>for (i = 0; i < zero_pad_bytes; i++) cur_[i] = 0\<close>, from index \<open>i\<close> on.\<close>

fun fill_loop :: "nat \<Rightarrow> nat \<Rightarrow> vector_downward \<Rightarrow> vector_downward" where
  "fill_loop 0 i v = v"
| "fill_loop (Suc n) i v = fill_loop n (Suc i) (mem_write (vd_cur v + i) [0] v)"

definition vd_fill :: "nat \<Rightarrow> vector_downward \<Rightarrow> vector_downward" where
  "vd_fill zero_pad_bytes v = fill_loop zero_pad_bytes 0 (make_space zero_pad_bytes v)"

definition fill_big :: "nat \<Rightarrow> vector_downward \<Rightarrow> vector_downward" where
  "fill_big zero_pad_bytes v =
     (let v1 = make_space zero_pad_bytes v in mem_write (vd_cur v1) (replicate zero_pad_bytes 0) v1)"

definition vd_pop :: "nat \<Rightarrow> vector_downward \<Rightarrow> vector_downward" where
  "vd_pop n v = v\<lparr>vd_cur := vd_cur v + n, vd_size := vd_size v - n\<rparr>"

definition scratch_pop :: "nat \<Rightarrow> vector_downward \<Rightarrow> vector_downward" where
  "scratch_pop n v = v\<lparr>vd_scratch := vd_scratch v - n\<rparr>"

section \<open>The invariant and the two abstract vectors\<close>

lemmas vd_defs = vd_ok_def contents_def scratch_bytes_def mem_def

lemma vd_ok_alloc: "vd_ok v \<Longrightarrow> length (vd_alloc v n) = n"
  by (simp add: vd_ok_def)

lemma vd_size_contents: "vd_ok v \<Longrightarrow> vd_size v = length (contents v)"
  by (simp add: vd_ok_def contents_def)

lemma scratch_size_bytes: "vd_ok v \<Longrightarrow> vd_scratch v = length (scratch_bytes v)"
  by (simp add: vd_ok_def scratch_bytes_def)

lemma vd_ok_mk: "(\<forall>n. length (fresh n) = n) \<Longrightarrow> pow2 a \<Longrightarrow> vd_ok (mk_vector_downward i fresh a m)"
  by (simp add: vd_defs mk_vector_downward_def)

lemma contents_mk [simp]: "contents (mk_vector_downward i fresh a m) = []"
  by (simp add: vd_defs mk_vector_downward_def)

lemma scratch_bytes_mk [simp]: "scratch_bytes (mk_vector_downward i fresh a m) = []"
  by (simp add: vd_defs mk_vector_downward_def)

text \<open>Rounding the capacity up never shrinks it.\<close>

lemma round_up_ge:
  assumes "pow2 a"
  shows "r \<le> nat ((int r + int a - 1) AND NOT (int a - 1))"
proof -
  from assms obtain k where a: "a = 2 ^ k" by (auto simp: pow2_def)
  define x where "x = int r + 2 ^ k - 1"
  have "x mod 2 ^ k < 2 ^ k" by simp
  then have "int r \<le> x - x mod 2 ^ k" using x_def by linarith
  then show ?thesis by (simp add: a and_not_mask_int x_def [symmetric])
qed

lemma reallocate_spec:
  assumes ok: "vd_ok v" and len: "0 < len"
  defines "w \<equiv> reallocate len v"
  shows "vd_ok w" and "contents w = contents v" and "scratch_bytes w = scratch_bytes v"
    and "len \<le> unused_buffer_size w"
proof -
  define r1 where "r1 = vd_reserved v +
     max len (if vd_reserved v \<noteq> 0 then vd_reserved v div 2 else vd_initial_size v)"
  define r2 where "r2 = nat ((int r1 + int (vd_buffer_minalign v) - 1) AND NOT (int (vd_buffer_minalign v) - 1))"
  from ok have ra: "r1 \<le> r2" unfolding r2_def by (intro round_up_ge) (simp add: vd_ok_def)
  have rr: "vd_reserved v + len \<le> r1" by (simp add: r1_def)
  from ok have "vd_size v = vd_reserved v - vd_cur v" "vd_scratch v \<le> vd_cur v" "vd_cur v \<le> vd_reserved v"
    by (simp_all add: vd_ok_def)
  then have sz: "vd_size v + vd_scratch v \<le> vd_reserved v" by linarith
  define b where "b = (case vd_buf v of
       Some m \<Rightarrow> memcpy_downward m (vd_reserved v) (vd_alloc v r2) r2 (vd_size v) (vd_scratch v)
     | None \<Rightarrow> vd_alloc v r2)"
  have w: "w = v\<lparr>vd_reserved := r2, vd_buf := Some b, vd_cur := r2 - vd_size v,
                 vd_scratch := vd_scratch v\<rparr>"
    unfolding w_def reallocate_def Let_def scratch_size_def reallocate_downward_def
      r1_def [symmetric] r2_def [symmetric] b_def [symmetric] ..
  have bs: "length b = r2 \<and> drop (r2 - vd_size v) b = contents v \<and> take (vd_scratch v) b = scratch_bytes v"
  proof (cases "vd_buf v")
    case None
    then have "vd_reserved v = 0" using ok by (simp add: vd_ok_def)
    then have "vd_size v = 0" "vd_scratch v = 0" using sz by simp_all
    with None ok show ?thesis by (simp add: b_def vd_defs)
  next
    case (Some m)
    have m: "length m = vd_reserved v" using ok Some by (simp add: vd_ok_def mem_def)
    have "vd_reserved v \<le> r2" using ra rr by simp
    note spec = memcpy_downward_spec [OF m vd_ok_alloc [OF ok] this sz]
    have "vd_reserved v - vd_size v = vd_cur v" using ok by (simp add: vd_ok_def)
    with spec Some show ?thesis
      by (simp add: b_def contents_def scratch_bytes_def mem_def)
  qed
  have le: "vd_scratch v + len \<le> r2 - vd_size v" using ra rr sz by simp
  show "vd_ok w" using ok bs le sz ra rr
    by (auto simp: w vd_ok_def mem_def)
  show "contents w = contents v" using bs by (simp add: w contents_def mem_def)
  show "scratch_bytes w = scratch_bytes v" using bs by (simp add: w scratch_bytes_def mem_def)
  show "len \<le> unused_buffer_size w" using le by (simp add: w unused_buffer_size_def)
qed

lemma ensure_space_spec:
  fixes len :: nat
  assumes ok: "vd_ok v"
  defines "w \<equiv> ensure_space len v"
  shows "vd_ok w" and "contents w = contents v" and "scratch_bytes w = scratch_bytes v"
    and "len \<le> unused_buffer_size w"
  using reallocate_spec [OF ok, of len] ok by (auto simp: w_def ensure_space_def)

lemma ensure_space_buf: "vd_ok v \<Longrightarrow> 0 < len \<Longrightarrow> vd_buf (ensure_space len v) \<noteq> None"
  by (auto simp: ensure_space_def reallocate_def Let_def unused_buffer_size_def vd_ok_def)

text \<open>A store that stays inside the data, or inside the scratch pad, touches only that part.\<close>

lemma mem_mem_write: "vd_buf v \<noteq> None \<Longrightarrow> mem (mem_write i bs v) = poke (mem v) i bs"
  by (auto simp: mem_write_def mem_def)

lemma mem_write_sel [simp]:
  "vd_cur (mem_write i bs v) = vd_cur v" "vd_scratch (mem_write i bs v) = vd_scratch v"
  "vd_size (mem_write i bs v) = vd_size v" "vd_reserved (mem_write i bs v) = vd_reserved v"
  by (simp_all add: mem_write_def)

lemma mem_write_ok:
  assumes "vd_ok v" and "i + length bs \<le> vd_reserved v"
  shows "vd_ok (mem_write i bs v)"
proof (cases "vd_buf v")
  case None
  with assms show ?thesis by (simp add: mem_write_def vd_ok_def mem_def)
next
  case (Some m)
  with assms show ?thesis by (simp add: mem_write_def vd_ok_def mem_def)
qed

lemma mem_write_data:
  assumes ok: "vd_ok v" and lo: "vd_cur v \<le> i" and hi: "i + length bs \<le> vd_reserved v"
  shows "vd_ok (mem_write i bs v)"
    and "contents (mem_write i bs v) = poke (contents v) (i - vd_cur v) bs"
    and "scratch_bytes (mem_write i bs v) = scratch_bytes v"
proof -
  show "vd_ok (mem_write i bs v)" by (rule mem_write_ok [OF ok hi])
  show "contents (mem_write i bs v) = poke (contents v) (i - vd_cur v) bs"
  proof (cases "vd_buf v")
    case None
    with ok hi have "bs = []" "vd_reserved v = 0" by (auto simp: vd_ok_def)
    with None show ?thesis by (simp add: mem_write_def contents_def mem_def poke_def)
  next
    case (Some m)
    then show ?thesis using ok lo hi
      by (simp add: contents_def mem_mem_write drop_poke_ge vd_ok_def)
  qed
  show "scratch_bytes (mem_write i bs v) = scratch_bytes v"
  proof (cases "vd_buf v")
    case None
    then show ?thesis by (simp add: mem_write_def scratch_bytes_def mem_def)
  next
    case (Some m)
    then show ?thesis using ok lo hi
      by (simp add: scratch_bytes_def mem_mem_write take_poke_le vd_ok_def)
  qed
qed

lemma make_space_spec:
  fixes len :: nat
  assumes ok: "vd_ok v"
  defines "w \<equiv> make_space len v"
  shows "vd_ok w" and "drop len (contents w) = contents v" and "length (contents w) = len + length (contents v)"
    and "scratch_bytes w = scratch_bytes v"
proof -
  define e where "e = ensure_space len v"
  note es = ensure_space_spec [OF ok, of len, folded e_def]
  have c: "len \<noteq> 0 \<Longrightarrow> w = e\<lparr>vd_cur := vd_cur e - len, vd_size := vd_size e + len\<rparr>"
    by (simp add: w_def make_space_def Let_def e_def)
  have u: "len \<le> vd_cur e - vd_scratch e" using es(4) by (simp add: unused_buffer_size_def)
  show "vd_ok w"
  proof (cases "len = 0")
    case False
    with c u es(1) show ?thesis by (auto simp: vd_ok_def mem_def)
  qed (simp add: w_def make_space_def ok)
  have "drop len (contents w) = contents v \<and> length (contents w) = len + length (contents v)
        \<and> scratch_bytes w = scratch_bytes v"
  proof (cases "len = 0")
    case False
    with c have w: "contents w = drop (vd_cur e - len) (mem e)" "scratch_bytes w = scratch_bytes e"
      by (simp_all add: contents_def scratch_bytes_def mem_def)
    have ce: "contents v = drop (vd_cur e) (mem e)" using es(2) by (simp add: contents_def)
    from False u have "len \<le> vd_cur e" by simp
    moreover have "vd_cur e \<le> length (mem e)" using es(1) by (simp add: vd_ok_def)
    ultimately show ?thesis using w ce es(3) by simp
  qed (simp add: w_def make_space_def)
  then show "drop len (contents w) = contents v" "length (contents w) = len + length (contents v)"
    "scratch_bytes w = scratch_bytes v" by auto
qed

lemma make_space_reserved: "vd_ok v \<Longrightarrow> vd_cur (make_space len v) + len \<le> vd_reserved (make_space len v)"
  using make_space_spec(1,3) [of v len] by (auto simp: vd_ok_def contents_def)

text \<open>The abstract effect of every operation.\<close>

lemma push_spec:
  assumes ok: "vd_ok v"
  shows "vd_ok (vd_push bs v)" and "contents (vd_push bs v) = bs @ contents v"
    and "scratch_bytes (vd_push bs v) = scratch_bytes v"
proof -
  define w where "w = make_space (length bs) v"
  note ms = make_space_spec [OF ok, of "length bs", folded w_def]
  have hi: "vd_cur w + length bs \<le> vd_reserved w"
    using make_space_reserved [OF ok, of "length bs"] by (simp add: w_def)
  note wr = mem_write_data [OF ms(1) _ hi]
  have p: "length bs > 0 \<Longrightarrow> vd_push bs v = mem_write (vd_cur w) bs w"
    by (simp add: vd_push_def Let_def w_def)
  have "poke (contents w) 0 bs = bs @ contents v"
    using ms(2) by (simp add: poke_def)
  then show "contents (vd_push bs v) = bs @ contents v"
    using p wr(2) by (cases "bs = []") (simp_all add: vd_push_def)
  show "vd_ok (vd_push bs v)" using p wr(1) ok by (cases "bs = []") (simp_all add: vd_push_def)
  show "scratch_bytes (vd_push bs v) = scratch_bytes v"
    using p wr(3) ms(4) by (cases "bs = []") (simp_all add: vd_push_def)
qed

lemma push_small_eq: "vd_ok v \<Longrightarrow> bs \<noteq> [] \<Longrightarrow> push_small bs v = vd_push bs v"
  by (simp add: push_small_def vd_push_def)

lemma fill_loop_spec:
  assumes "vd_ok v" and "i + n \<le> length (contents v)"
  shows "vd_ok (fill_loop n i v) \<and> contents (fill_loop n i v) = poke (contents v) i (replicate n 0)
     \<and> scratch_bytes (fill_loop n i v) = scratch_bytes v"
  using assms
proof (induction n arbitrary: i v)
  case 0
  then show ?case by (simp add: poke_def)
next
  case (Suc n)
  define w where "w = mem_write (vd_cur v + i) [0] v"
  have hi: "vd_cur v + i + length [0::byte] \<le> vd_reserved v"
    using Suc.prems by (simp add: vd_ok_def contents_def)
  note wr = mem_write_data [OF Suc.prems(1) _ hi, folded w_def]
  have c: "contents w = poke (contents v) i [0]" using wr(2) by simp
  have "Suc i + n \<le> length (contents w)" using Suc.prems by (simp add: c)
  note IH = Suc.IH [OF wr(1) [OF le_add1] this]
  have "poke (poke (contents v) i [0]) (Suc i) (replicate n 0) = poke (contents v) i (replicate (Suc n) 0)"
    using Suc.prems(2) by (simp add: poke_def min_def) (simp add: add.commute)
  with IH c wr(3) show ?case by (simp add: w_def)
qed

lemma fill_spec:
  assumes ok: "vd_ok v"
  shows "vd_ok (vd_fill n v)" and "contents (vd_fill n v) = replicate n 0 @ contents v"
    and "scratch_bytes (vd_fill n v) = scratch_bytes v"
proof -
  note ms = make_space_spec [OF ok, of n]
  have "0 + n \<le> length (contents (make_space n v))" using ms(3) by simp
  from fill_loop_spec [OF ms(1) this] ms
  show "vd_ok (vd_fill n v)" "contents (vd_fill n v) = replicate n 0 @ contents v"
    "scratch_bytes (vd_fill n v) = scratch_bytes v"
    by (simp_all add: vd_fill_def poke_def)
qed

lemma fill_big_eq: "vd_ok v \<Longrightarrow> 0 < n \<Longrightarrow> fill_big n v = vd_push (replicate n 0) v"
  by (simp add: fill_big_def vd_push_def)

lemma pop_spec:
  assumes "vd_ok v" and "n \<le> length (contents v)"
  shows "vd_ok (vd_pop n v)" and "contents (vd_pop n v) = drop n (contents v)"
    and "scratch_bytes (vd_pop n v) = scratch_bytes v"
  using assms by (auto simp: vd_ok_def contents_def scratch_bytes_def mem_def vd_pop_def add.commute)

lemma scratch_push_spec:
  assumes ok: "vd_ok v" and ne: "t \<noteq> []"
  shows "vd_ok (scratch_push_small t v)" and "contents (scratch_push_small t v) = contents v"
    and "scratch_bytes (scratch_push_small t v) = scratch_bytes v @ t"
proof -
  define e where "e = ensure_space (length t) v"
  note es = ensure_space_spec [OF ok, of "length t", folded e_def]
  have u: "vd_scratch e + length t \<le> vd_cur e"
    using es(1,4) by (auto simp: unused_buffer_size_def vd_ok_def)
  have b: "vd_buf e \<noteq> None" using ensure_space_buf [OF ok] ne by (simp add: e_def)
  have le: "vd_cur e \<le> length (mem e)" "length (mem e) = vd_reserved e" using es(1) by (simp_all add: vd_ok_def)
  have s: "scratch_push_small t v = (mem_write (vd_scratch e) t e)\<lparr>vd_scratch := vd_scratch e + length t\<rparr>"
    by (simp add: scratch_push_small_def Let_def e_def)
  have m: "mem (scratch_push_small t v) = poke (mem e) (vd_scratch e) t"
    using mem_mem_write [OF b] by (simp add: s mem_def)
  have "vd_ok (mem_write (vd_scratch e) t e)" using mem_write_ok [OF es(1)] u le by simp
  then show "vd_ok (scratch_push_small t v)" using u by (simp add: s vd_ok_def mem_def)
  have "drop (vd_cur e) (poke (mem e) (vd_scratch e) t) = drop (vd_cur e) (mem e)"
    using u le by (intro drop_poke_lt) auto
  then show "contents (scratch_push_small t v) = contents v"
    using m es(2) by (simp add: contents_def s)
  have tk: "take (vd_scratch e + length t) (poke (mem e) (vd_scratch e) t) = take (vd_scratch e) (mem e) @ t"
    using u le by (simp add: poke_def)
  show "scratch_bytes (scratch_push_small t v) = scratch_bytes v @ t"
    using m es(3) tk by (simp add: scratch_bytes_def s)
qed

lemma scratch_pop_spec:
  assumes "vd_ok v" and "n \<le> length (scratch_bytes v)"
  shows "vd_ok (scratch_pop n v)" and "contents (scratch_pop n v) = contents v"
    and "scratch_bytes (scratch_pop n v) = take (length (scratch_bytes v) - n) (scratch_bytes v)"
  using assms by (auto simp: vd_ok_def contents_def scratch_bytes_def mem_def scratch_pop_def)

lemma clear_scratch_spec:
  assumes "vd_ok v"
  shows "vd_ok (clear_scratch v)" and "contents (clear_scratch v) = contents v"
    and "scratch_bytes (clear_scratch v) = []"
  using assms by (auto simp: vd_ok_def contents_def scratch_bytes_def mem_def clear_scratch_def)

lemma clear_spec:
  assumes "vd_ok v"
  shows "vd_ok (vd_clear v)" and "contents (vd_clear v) = []" and "scratch_bytes (vd_clear v) = []"
  using assms
  by (auto simp: vd_ok_def contents_def scratch_bytes_def mem_def vd_clear_def clear_scratch_def
      split: option.splits)

lemma reset_spec:
  assumes "vd_ok v"
  shows "vd_ok (vd_reset v)" and "contents (vd_reset v) = []" and "scratch_bytes (vd_reset v) = []"
  using assms
  by (auto simp: vd_ok_def contents_def scratch_bytes_def mem_def vd_reset_def vd_clear_def
      clear_buffer_def clear_scratch_def split: option.splits)

lemma release_raw_spec:
  assumes "vd_ok v" and "release_raw v = (Some m, allocated, off, w)"
  shows "drop off m = contents v" and "length m = allocated" and "vd_ok w" and "contents w = []"
  using assms
  by (auto simp: vd_ok_def contents_def mem_def release_raw_def Let_def vd_offset_def vd_clear_def
      clear_scratch_def split: option.splits)

section \<open>The interface the builder relies on\<close>

text \<open>
  The builder uses the vector through its operations only.  The contract says what each does to
  the two abstract vectors; the interpretation below discharges it for the concrete block with
  its reallocation.
\<close>

locale downward_store =
  fixes ok :: "'v \<Rightarrow> bool"
    and data :: "'v \<Rightarrow> byte list"
    and scr :: "'v \<Rightarrow> byte list"
    and push :: "byte list \<Rightarrow> 'v \<Rightarrow> 'v"
    and fill :: "nat \<Rightarrow> 'v \<Rightarrow> 'v"
    and pop :: "nat \<Rightarrow> 'v \<Rightarrow> 'v"
    and spush :: "byte list \<Rightarrow> 'v \<Rightarrow> 'v"
    and spop :: "nat \<Rightarrow> 'v \<Rightarrow> 'v"
  assumes push_ok: "ok v \<Longrightarrow> ok (push bs v)"
    and push_data: "ok v \<Longrightarrow> data (push bs v) = bs @ data v"
    and push_scr: "ok v \<Longrightarrow> scr (push bs v) = scr v"
    and fill_push: "ok v \<Longrightarrow> data (fill n v) = replicate n 0 @ data v"
    and fill_scr: "ok v \<Longrightarrow> scr (fill n v) = scr v"
    and fill_ok: "ok v \<Longrightarrow> ok (fill n v)"
    and pop_ok: "ok v \<Longrightarrow> n \<le> length (data v) \<Longrightarrow> ok (pop n v)"
    and pop_data: "ok v \<Longrightarrow> n \<le> length (data v) \<Longrightarrow> data (pop n v) = drop n (data v)"
    and pop_scr: "ok v \<Longrightarrow> n \<le> length (data v) \<Longrightarrow> scr (pop n v) = scr v"
    and spush_ok: "ok v \<Longrightarrow> bs \<noteq> [] \<Longrightarrow> ok (spush bs v)"
    and spush_data: "ok v \<Longrightarrow> bs \<noteq> [] \<Longrightarrow> data (spush bs v) = data v"
    and spush_scr: "ok v \<Longrightarrow> bs \<noteq> [] \<Longrightarrow> scr (spush bs v) = scr v @ bs"
    and spop_ok: "ok v \<Longrightarrow> n \<le> length (scr v) \<Longrightarrow> ok (spop n v)"
    and spop_data: "ok v \<Longrightarrow> n \<le> length (scr v) \<Longrightarrow> data (spop n v) = data v"
    and spop_scr: "ok v \<Longrightarrow> n \<le> length (scr v) \<Longrightarrow>
           scr (spop n v) = take (length (scr v) - n) (scr v)"
begin

text \<open>The two vectors never interfere, and each behaves as a stack.\<close>

lemma push_pop:
  assumes "ok v"
  shows "data (pop (length bs) (push bs v)) = data v" and "scr (pop (length bs) (push bs v)) = scr v"
  using assms by (simp_all add: push_ok push_data push_scr pop_data pop_scr)

lemma spush_spop:
  assumes "ok v" and "bs \<noteq> []"
  shows "scr (spop (length bs) (spush bs v)) = scr v" and "data (spop (length bs) (spush bs v)) = data v"
  using assms by (simp_all add: spush_ok spush_data spush_scr spop_data spop_scr)

lemma push_spush_commute:
  assumes "ok v" and "t \<noteq> []"
  shows "data (push bs (spush t v)) = data (spush t (push bs v))"
    and "scr (push bs (spush t v)) = scr (spush t (push bs v))"
  using assms by (simp_all add: push_ok push_data push_scr spush_ok spush_data spush_scr)

lemma fold_push:
  "ok v \<Longrightarrow> ok (fold push bss v) \<and> data (fold push bss v) = concat (rev bss) @ data v
     \<and> scr (fold push bss v) = scr v"
  by (induction bss arbitrary: v) (auto simp: push_ok push_data push_scr)

end

interpretation vd: downward_store vd_ok contents scratch_bytes vd_push vd_fill vd_pop
    scratch_push_small scratch_pop
  by unfold_locales (simp_all add: push_spec fill_spec pop_spec scratch_push_spec scratch_pop_spec)

end
