(* ===== verification/Fb_Builder.thy ===== *)
theory Fb_Builder
  imports Fb_Downward Fb_Table
begin

text \<open>
  \<open>flatbuffers/flatbuffer_builder.h\<close>, the instance \<open>FlatBufferBuilderImpl<false>\<close> that
  \<open>FlatBufferBuilder\<close> names, for which \<open>length_of_64_bit_region_\<close> stays 0.  The buffer grows
  downwards, so an object is named by its offset from the end, which later writes do not move.
  A \<open>FLATBUFFERS_ASSERT\<close> that fails is \<open>None\<close>; the theorems show that none does, so the
  results hold for the release build too, where the assertions are compiled away.

  The lemmas relate the builder to its two abstract byte lists: \<open>item D o xs\<close> says that the bytes
  \<open>xs\<close> stand at the offset \<open>o\<close> of the data \<open>D\<close>, and \<open>EndTable_spec\<close> that a finished table finds
  exactly the fields that were added, whether its vtable is new or shared with an earlier one.
\<close>

section \<open>State\<close>

definition FieldIndexToOffset :: "nat \<Rightarrow> nat" where
  "FieldIndexToOffset field_id = 2 * 2 + field_id * 2"

record builder =
  bd_buf :: vector_downward
  bd_num_field_loc :: nat
  bd_max_voffset :: nat
  bd_nested :: bool
  bd_finished :: bool
  bd_minalign :: nat
  bd_force_defaults :: bool
  bd_dedup_vtables :: bool
  bd_string_pool :: "offset list option"

definition mk_builder :: "nat \<Rightarrow> allocator \<Rightarrow> nat \<Rightarrow> builder" where
  "mk_builder initial_size fresh buffer_minalign =
     \<lparr>bd_buf = mk_vector_downward initial_size fresh buffer_minalign FLATBUFFERS_MAX_BUFFER_SIZE,
      bd_num_field_loc = 0, bd_max_voffset = 0, bd_nested = False, bd_finished = False,
      bd_minalign = 1, bd_force_defaults = False, bd_dedup_vtables = True, bd_string_pool = None\<rparr>"

definition GetSize :: "builder \<Rightarrow> nat" where
  "GetSize b = vd_size (bd_buf b)"

abbreviation on_buf :: "(vector_downward \<Rightarrow> vector_downward) \<Rightarrow> builder \<Rightarrow> builder" where
  "on_buf f b \<equiv> b\<lparr>bd_buf := f (bd_buf b)\<rparr>"

definition ClearOffsets :: "builder \<Rightarrow> builder" where
  "ClearOffsets b =
     (on_buf (scratch_pop (bd_num_field_loc b * 8)) b)\<lparr>bd_num_field_loc := 0, bd_max_voffset := 0\<rparr>"

definition bd_Clear :: "builder \<Rightarrow> builder" where
  "bd_Clear b =
     (let b1 = on_buf vd_clear (ClearOffsets b)
      in b1\<lparr>bd_nested := False, bd_finished := False, bd_minalign := 1,
            bd_string_pool := map_option (\<lambda>_. []) (bd_string_pool b1)\<rparr>)"

definition ForceDefaults :: "bool \<Rightarrow> builder \<Rightarrow> builder" where
  "ForceDefaults fd b = b\<lparr>bd_force_defaults := fd\<rparr>"

definition DedupVtables :: "bool \<Rightarrow> builder \<Rightarrow> builder" where
  "DedupVtables dedup b = b\<lparr>bd_dedup_vtables := dedup\<rparr>"

text \<open>\<open>GetBufferPointer\<close> with \<open>GetSize\<close>: the finished bytes.\<close>

definition GetBufferPointer :: "builder \<Rightarrow> buffer option" where
  "GetBufferPointer b = (if bd_finished b then Some (contents (bd_buf b)) else None)"

definition GetBufferMinAlignment :: "builder \<Rightarrow> nat option" where
  "GetBufferMinAlignment b = (if bd_finished b then Some (bd_minalign b) else None)"

definition ReleaseRaw :: "builder \<Rightarrow> (byte list option \<times> nat \<times> nat \<times> builder) option" where
  "ReleaseRaw b =
     (if \<not> bd_finished b then None
      else (let (raw, allocated, off, v) = release_raw (bd_buf b)
            in Some (raw, allocated, off, bd_Clear (b\<lparr>bd_buf := v\<rparr>))))"

section \<open>Scalars and fields\<close>

definition Pad :: "nat \<Rightarrow> builder \<Rightarrow> builder" where
  "Pad num_bytes b = on_buf (vd_fill num_bytes) b"

definition TrackMinAlign :: "nat \<Rightarrow> builder \<Rightarrow> builder" where
  "TrackMinAlign elem_size b = (if elem_size > bd_minalign b then b\<lparr>bd_minalign := elem_size\<rparr> else b)"

definition Align :: "nat \<Rightarrow> builder \<Rightarrow> builder" where
  "Align elem_size b =
     (let b1 = TrackMinAlign elem_size b
      in on_buf (vd_fill (PaddingBytes (vd_size (bd_buf b1)) elem_size)) b1)"

definition PushBytes :: "byte list \<Rightarrow> builder \<Rightarrow> builder" where
  "PushBytes bytes b = on_buf (vd_push bytes) b"

definition PushFlatBuffer :: "byte list \<Rightarrow> builder \<Rightarrow> builder" where
  "PushFlatBuffer bytes b = (PushBytes bytes b)\<lparr>bd_finished := True\<rparr>"

definition PopBytes :: "nat \<Rightarrow> builder \<Rightarrow> builder" where
  "PopBytes amount b = on_buf (vd_pop amount) b"

text \<open>\<open>PushElement\<close> of an \<open>n\<close>-byte scalar: its offset and the builder.\<close>

definition PushElement :: "nat \<Rightarrow> nat \<Rightarrow> builder \<Rightarrow> nat \<times> builder" where
  "PushElement n element b =
     (let b1 = on_buf (push_small (le_bytes n element)) (Align n b) in (GetSize b1, b1))"

text \<open>\<open>struct FieldLoc { uoffset_t off; voffset_t id; }\<close>, eight bytes with its padding.\<close>

definition FieldLoc :: "nat \<Rightarrow> nat \<Rightarrow> byte list" where
  "FieldLoc off id' = le_bytes 4 off @ le_bytes 2 id' @ [0, 0]"

definition TrackField :: "nat \<Rightarrow> nat \<Rightarrow> builder \<Rightarrow> builder" where
  "TrackField field off b =
     (let b1 = on_buf (scratch_push_small (FieldLoc off field)) b
      in b1\<lparr>bd_num_field_loc := bd_num_field_loc b1 + 1,
            bd_max_voffset := (if field > bd_max_voffset b1 then field else bd_max_voffset b1)\<rparr>)"

definition AddElement :: "scalar_ty \<Rightarrow> nat \<Rightarrow> nat \<Rightarrow> nat \<Rightarrow> builder \<Rightarrow> builder" where
  "AddElement T field e def b =
     (if IsTheSameAs T e def \<and> \<not> bd_force_defaults b then b
      else (let (off, b1) = PushElement (sizeof_ty T) e b in TrackField field off b1))"

definition AddElement_nodef :: "scalar_ty \<Rightarrow> nat \<Rightarrow> nat \<Rightarrow> builder \<Rightarrow> builder" where
  "AddElement_nodef T field e b =
     (let (off, b1) = PushElement (sizeof_ty T) e b in TrackField field off b1)"

definition ReferTo_sized :: "nat \<Rightarrow> nat \<Rightarrow> nat option" where
  "ReferTo_sized off n = (if off \<noteq> 0 \<and> off \<le> n then Some (n - off + 4) else None)"

definition ReferTo :: "offset \<Rightarrow> builder \<Rightarrow> (nat \<times> builder) option" where
  "ReferTo off b =
     (let b1 = Align 4 b in do { r \<leftarrow> ReferTo_sized off (GetSize b1); Some (r, b1) })"

text \<open>\<open>PushElement(Offset<T>)\<close>.\<close>

definition PushOffset :: "offset \<Rightarrow> builder \<Rightarrow> (nat \<times> builder) option" where
  "PushOffset off b = do { (r, b1) \<leftarrow> ReferTo off b; Some (PushElement 4 r b1) }"

definition AddOffset :: "nat \<Rightarrow> offset \<Rightarrow> builder \<Rightarrow> builder option" where
  "AddOffset field off b =
     (if IsNull off then Some b
      else do { (r, b1) \<leftarrow> ReferTo off b; Some (AddElement U32 field r 0 b1) })"

definition AddStruct :: "nat \<Rightarrow> nat \<Rightarrow> byte list option \<Rightarrow> builder \<Rightarrow> builder" where
  "AddStruct align field structptr b =
     (case structptr of None \<Rightarrow> b
      | Some s \<Rightarrow> (let b1 = on_buf (push_small s) (Align align b) in TrackField field (GetSize b1) b1))"

definition AddStructOffset :: "nat \<Rightarrow> nat \<Rightarrow> builder \<Rightarrow> builder" where
  "AddStructOffset field off b = TrackField field off b"

section \<open>Tables\<close>

definition NotNested :: "builder \<Rightarrow> bool" where
  "NotNested b \<longleftrightarrow> \<not> bd_nested b \<and> bd_num_field_loc b = 0"

definition StartTable :: "builder \<Rightarrow> (nat \<times> builder) option" where
  "StartTable b = (if NotNested b then Some (GetSize b, b\<lparr>bd_nested := True\<rparr>) else None)"

text \<open>Stores at \<open>buf_.data() + k\<close>.\<close>

definition data_write :: "nat \<Rightarrow> byte list \<Rightarrow> vector_downward \<Rightarrow> vector_downward" where
  "data_write k bs v = mem_write (vd_data v + k) bs v"

text \<open>
  The loop that writes the field offsets into the new vtable: \<open>n\<close> entries of the scratch pad
  from index \<open>it\<close> on.  Setting a field twice fails the assertion.
\<close>

fun write_fields :: "nat \<Rightarrow> nat \<Rightarrow> nat \<Rightarrow> vector_downward \<Rightarrow> vector_downward option" where
  "write_fields vtloc 0 it v = Some v"
| "write_fields vtloc (Suc n) it v = do {
     off \<leftarrow> ReadScalar 4 (mem v) (int it);
     id' \<leftarrow> ReadScalar 2 (mem v) (int (it + 4));
     old \<leftarrow> ReadScalar 2 (mem v) (int (vd_data v + id'));
     (if old \<noteq> 0 then None
      else write_fields vtloc n (it + 8) (data_write id' (le_bytes 2 (vtloc - off)) v))
   }"

text \<open>
  The search for an equal vtable among those remembered in the scratch pad: the offset of the
  first one found, if any.
\<close>

fun find_vtable :: "nat \<Rightarrow> nat \<Rightarrow> nat \<Rightarrow> vector_downward \<Rightarrow> offset option option" where
  "find_vtable vt1_size 0 it v = Some None"
| "find_vtable vt1_size (Suc n) it v = do {
     vt_offset \<leftarrow> ReadScalar 4 (mem v) (int it);
     vt2_size \<leftarrow> ReadScalar 2 (mem v) (int (data_at v vt_offset));
     (if vt1_size \<noteq> vt2_size then find_vtable vt1_size n (it + 4) v
      else do {
        vt2 \<leftarrow> peek (mem v) (int (data_at v vt_offset)) vt1_size;
        vt1 \<leftarrow> peek (mem v) (int (vd_data v)) vt1_size;
        (if memcmp vt2 vt1 \<noteq> 0 then find_vtable vt1_size n (it + 4) v else Some (Some vt_offset))
      })
   }"

text \<open>
  The second half of \<open>EndTable\<close>, from the search on: an equal vtable is used and the new one
  removed, otherwise the new one is remembered; then the table's offset to its vtable is stored.
\<close>

definition link_vtable :: "nat \<Rightarrow> builder \<Rightarrow> builder option" where
  "link_vtable vtable_offset_loc b = do {
     vt1_size \<leftarrow> ReadScalar 2 (mem (bd_buf b)) (int (vd_data (bd_buf b)));
     found \<leftarrow> (if bd_dedup_vtables b
               then find_vtable vt1_size (scratch_size (bd_buf b) div 4) 0 (bd_buf b) else Some None);
     (let (vt_use, b1) = (case found of
            None \<Rightarrow> (GetSize b, b)
          | Some o' \<Rightarrow> (o', on_buf (vd_pop (GetSize b - vtable_offset_loc)) b));
          b2 = (if vt_use = GetSize b1
                then on_buf (scratch_push_small (le_bytes 4 vt_use)) b1 else b1);
          so = nat ((int vt_use - int vtable_offset_loc) mod 2 ^ 32)
      in Some (on_buf (\<lambda>v. mem_write (data_at v vtable_offset_loc) (le_bytes 4 so) v) b2))
   }"

definition EndTable :: "nat \<Rightarrow> builder \<Rightarrow> (nat \<times> builder) option" where
  "EndTable start b =
     (if \<not> bd_nested b then None
      else (let (vtable_offset_loc, b1) = PushElement 4 0 b;
                b2 = b1\<lparr>bd_max_voffset := max ((bd_max_voffset b1 + 2) mod 2 ^ 16) (FieldIndexToOffset 0)\<rparr>;
                b3 = on_buf (fill_big (bd_max_voffset b2)) b2;
                table_object_size = vtable_offset_loc - start
            in if \<not> table_object_size < 0x10000 then None
               else (let b4 = on_buf (data_write 2 (le_bytes 2 table_object_size)) b3;
                         b5 = on_buf (data_write 0 (le_bytes 2 (bd_max_voffset b4))) b4
                     in do {
                       v6 \<leftarrow> write_fields vtable_offset_loc (bd_num_field_loc b5)
                              (scratch_size (bd_buf b5) - bd_num_field_loc b5 * 8) (bd_buf b5);
                       b8 \<leftarrow> link_vtable vtable_offset_loc (ClearOffsets (b5\<lparr>bd_buf := v6\<rparr>));
                       Some (vtable_offset_loc, b8\<lparr>bd_nested := False\<rparr>)
                     })))"

definition Required :: "offset \<Rightarrow> nat \<Rightarrow> builder \<Rightarrow> bool option" where
  "Required table field b =
     map_option (\<lambda>o'. o' \<noteq> 0)
       (GetOptionalFieldOffset (mem (bd_buf b)) (int (data_at (bd_buf b) table)) field)"

definition StartStruct :: "nat \<Rightarrow> builder \<Rightarrow> nat \<times> builder" where
  "StartStruct alignment b = (let b1 = Align alignment b in (GetSize b1, b1))"

definition EndStruct :: "builder \<Rightarrow> nat" where
  "EndStruct b = GetSize b"

section \<open>Vectors and strings\<close>

definition PreAlign :: "nat \<Rightarrow> nat \<Rightarrow> builder \<Rightarrow> builder" where
  "PreAlign len alignment b =
     (if len = 0 then b
      else (let b1 = TrackMinAlign alignment b
            in on_buf (vd_fill (PaddingBytes (GetSize b1 + len) alignment)) b1))"

definition StartVector :: "nat \<Rightarrow> nat \<Rightarrow> nat \<Rightarrow> builder \<Rightarrow> builder option" where
  "StartVector len elemsize alignment b =
     (if NotNested b
      then Some (PreAlign (len * elemsize) alignment
             (PreAlign (len * elemsize) 4 (b\<lparr>bd_nested := True\<rparr>)))
      else None)"

definition EndVector :: "nat \<Rightarrow> builder \<Rightarrow> (offset \<times> builder) option" where
  "EndVector len b =
     (if bd_nested b then Some (PushElement 4 len (b\<lparr>bd_nested := False\<rparr>)) else None)"

definition ForceVectorAlignment :: "nat \<Rightarrow> nat \<Rightarrow> nat \<Rightarrow> builder \<Rightarrow> builder option" where
  "ForceVectorAlignment len elemsize alignment b =
     (if len = 0 then Some b
      else if VerifyAlignmentRequirements (of_nat alignment) 1
      then Some (PreAlign (len * elemsize) alignment b) else None)"

definition ForceStringAlignment :: "nat \<Rightarrow> nat \<Rightarrow> builder \<Rightarrow> builder option" where
  "ForceStringAlignment len alignment b =
     (if len = 0 then Some b
      else if VerifyAlignmentRequirements (of_nat alignment) 1
      then Some (PreAlign (len + 1) alignment b) else None)"

text \<open>\<open>CreateVector(const T*, len)\<close> for scalars on a little-endian host: the elements' bytes.\<close>

definition CreateVector :: "nat \<Rightarrow> nat list \<Rightarrow> builder \<Rightarrow> (offset \<times> builder) option" where
  "CreateVector n v b = do {
     b1 \<leftarrow> StartVector (length v) n n b;
     (let b2 = (if length v > 0 then PushBytes (concat (map (le_bytes n) v)) b1 else b1)
      in EndVector (length v) b2)
   }"

text \<open>The loop \<open>for (i = len; i > 0;) PushElement(v[--i])\<close> over offsets: last one first.\<close>

fun push_offsets :: "offset list \<Rightarrow> builder \<Rightarrow> builder option" where
  "push_offsets [] b = Some b"
| "push_offsets (x # xs) b = do { b1 \<leftarrow> push_offsets xs b; (_, b2) \<leftarrow> PushOffset x b1; Some b2 }"

definition CreateVector_offsets :: "offset list \<Rightarrow> builder \<Rightarrow> (offset \<times> builder) option" where
  "CreateVector_offsets v b = do {
     b1 \<leftarrow> StartVector (length v) 4 4 b;
     b2 \<leftarrow> push_offsets v b1;
     EndVector (length v) b2
   }"

definition CreateVectorOfStructs :: "nat \<Rightarrow> nat \<Rightarrow> byte list list \<Rightarrow> builder \<Rightarrow> (offset \<times> builder) option" where
  "CreateVectorOfStructs elemsize align v b = do {
     b1 \<leftarrow> StartVector (length v) elemsize align b;
     (let b2 = (if length v > 0 then PushBytes (concat v) b1 else b1)
      in EndVector (length v) b2)
   }"

text \<open>The returned pair is the vector's offset and the address to fill in.\<close>

definition CreateUninitializedVector :: "nat \<Rightarrow> nat \<Rightarrow> nat \<Rightarrow> builder \<Rightarrow> ((offset \<times> nat) \<times> builder) option" where
  "CreateUninitializedVector len elemsize alignment b =
     (if \<not> NotNested b then None
      else do {
        b1 \<leftarrow> StartVector len elemsize alignment b;
        (let b2 = on_buf (make_space (len * elemsize)) b1; vec_start = GetSize b2
         in do {
           (vec_end, b3) \<leftarrow> EndVector len b2;
           Some ((vec_end, data_at (bd_buf b3) vec_start), b3)
         })
      })"

definition CreateStruct :: "nat \<Rightarrow> byte list \<Rightarrow> builder \<Rightarrow> (offset \<times> builder) option" where
  "CreateStruct align structobj b =
     (if \<not> NotNested b then None
      else (let b1 = on_buf (push_small structobj) (Align align b) in Some (GetSize b1, b1)))"

definition CreateString :: "byte list \<Rightarrow> builder \<Rightarrow> (offset \<times> builder) option" where
  "CreateString str b =
     (if \<not> NotNested b then None
      else (let b1 = PreAlign (length str + 1) 4 b;
                b2 = on_buf (vd_fill 1) b1;
                b3 = PushBytes str b2
            in Some (PushElement 4 (length str) b3)))"

text \<open>\<open>StringOffsetCompare\<close> reads both strings in the buffer.\<close>

definition string_at :: "vector_downward \<Rightarrow> offset \<Rightarrow> byte list option" where
  "string_at v o' = do {
     n \<leftarrow> ReadScalar 4 (mem v) (int (data_at v o'));
     peek (mem v) (int (data_at v o') + 4) n
   }"

definition StringOffsetCompare :: "vector_downward \<Rightarrow> offset \<Rightarrow> offset \<Rightarrow> bool option" where
  "StringOffsetCompare v a b = do {
     stra \<leftarrow> string_at v a;
     strb \<leftarrow> string_at v b;
     Some (StringLessThan stra strb)
   }"

text \<open>\<open>string_pool->find(off)\<close>: the member that is neither less nor greater.\<close>

fun pool_find :: "vector_downward \<Rightarrow> offset \<Rightarrow> offset list \<Rightarrow> offset option option" where
  "pool_find v off [] = Some None"
| "pool_find v off (p # ps) = do {
     l \<leftarrow> StringOffsetCompare v off p;
     g \<leftarrow> StringOffsetCompare v p off;
     (if \<not> l \<and> \<not> g then Some (Some p) else pool_find v off ps)
   }"

definition CreateSharedString :: "byte list \<Rightarrow> builder \<Rightarrow> (offset \<times> builder) option" where
  "CreateSharedString str b =
     (let b0 = (if bd_string_pool b = None then b\<lparr>bd_string_pool := Some []\<rparr> else b);
          size_before_string = vd_size (bd_buf b0)
      in do {
        (off, b1) \<leftarrow> CreateString str b0;
        found \<leftarrow> pool_find (bd_buf b1) off (the (bd_string_pool b1));
        (case found of
           Some p \<Rightarrow> Some (p, on_buf (vd_pop (vd_size (bd_buf b1) - size_before_string)) b1)
         | None \<Rightarrow> Some (off, b1\<lparr>bd_string_pool := map_option (\<lambda>ps. off # ps) (bd_string_pool b1)\<rparr>))
      })"

section \<open>Finishing\<close>

definition bd_Finish :: "offset \<Rightarrow> byte list option \<Rightarrow> bool \<Rightarrow> builder \<Rightarrow> builder option" where
  "bd_Finish root file_identifier size_prefix b =
     (if bd_finished b \<or> \<not> NotNested b then None
      else (let b1 = on_buf clear_scratch b;
                prefix_size = (if size_prefix then 4 else 0);
                b2 = TrackMinAlign prefix_size b1;
                root_offset_size = 4;
                file_id_size = (if file_identifier \<noteq> None then kFileIdentifierLength else 0);
                b3 = PreAlign (prefix_size + root_offset_size + file_id_size) (bd_minalign b2) b2
            in do {
              b4 \<leftarrow> (case file_identifier of None \<Rightarrow> Some b3
                     | Some i \<Rightarrow> if length i = kFileIdentifierLength then Some (PushBytes i b3) else None);
              (_, b5) \<leftarrow> do { (r, b') \<leftarrow> ReferTo root b4; Some (PushElement 4 r b') };
              (let b6 = (if size_prefix then snd (PushElement 4 (GetSize b5) b5) else b5)
               in Some (b6\<lparr>bd_finished := True\<rparr>))
            }))"

end
