(* ===== verification/Schema_Build.thy ===== *)
theory Schema_Build
  imports Schema_Read Fb_Builder "HOL-Library.Code_Target_Numeral"
begin

text \<open>
  The writing half of \<open>generated/pricing_request_generated.h\<close>: the table builders, the \<open>Create\<close>
  functions and the finishing helpers.  A \<open>T_Builder\<close> object is the underlying builder with the
  start offset that its constructor took.
\<close>

section \<open>Tables\<close>

text \<open>\<open>XBuilder(fbb)\<close>, the \<open>add_\<close> calls in the order of \<open>CreateX\<close>, and \<open>Finish()\<close>.\<close>

definition CreatePricingParams :: "pricing_params \<Rightarrow> builder \<Rightarrow> (offset \<times> builder) option" where
  "CreatePricingParams p fbb = do {
     (start, b0) \<leftarrow> StartTable fbb;
     (let b1 = AddElement F32 PP_VT_STOCK_DISCRETIZATION (unat (pp_stock_discretization p)) 0 b0;
          b2 = AddElement F32 PP_VT_TIME_TO_MATURITY (unat (pp_time_to_maturity p)) 0 b1;
          b3 = AddElement F32 PP_VT_INTEREST_RATE (unat (pp_interest_rate p)) 0 b2;
          b4 = AddElement F32 PP_VT_STRIKE_PRICE (unat (pp_strike_price p)) 0 b3;
          b5 = AddElement F32 PP_VT_STOCK_PRICE (unat (pp_stock_price p)) 0 b4;
          b6 = AddElement I8 PP_VT_OPTION_TYPE (unat (pp_option_type p)) 0 b5
      in EndTable start b6)
   }"

definition RangePricingRequestBuilder_Finish :: "nat \<Rightarrow> builder \<Rightarrow> (offset \<times> builder) option" where
  "RangePricingRequestBuilder_Finish start b = do {
     (o', b') \<leftarrow> EndTable start b;
     r1 \<leftarrow> Required o' RR_VT_REQUEST b';
     r2 \<leftarrow> Required o' RR_VT_PAIRS b';
     (if r1 \<and> r2 then Some (o', b') else None)
   }"

definition CreateRangePricingRequest :: "offset \<Rightarrow> u64 \<Rightarrow> offset \<Rightarrow> builder \<Rightarrow> (offset \<times> builder) option" where
  "CreateRangePricingRequest request request_hash pairs fbb = do {
     (start, b0) \<leftarrow> StartTable fbb;
     (let b1 = AddElement U64 RR_VT_REQUEST_HASH (unat request_hash) 0 b0
      in do {
        b2 \<leftarrow> AddOffset RR_VT_PAIRS pairs b1;
        b3 \<leftarrow> AddOffset RR_VT_REQUEST request b2;
        RangePricingRequestBuilder_Finish start b3
      })
   }"

definition BatchPricingRequestBuilder_Finish :: "nat \<Rightarrow> builder \<Rightarrow> (offset \<times> builder) option" where
  "BatchPricingRequestBuilder_Finish start b = do {
     (o', b') \<leftarrow> EndTable start b;
     r1 \<leftarrow> Required o' BR_VT_REQUEST b';
     r2 \<leftarrow> Required o' BR_VT_PAIRS b';
     (if r1 \<and> r2 then Some (o', b') else None)
   }"

definition CreateBatchPricingRequest :: "u64 \<Rightarrow> offset \<Rightarrow> offset \<Rightarrow> builder \<Rightarrow> (offset \<times> builder) option" where
  "CreateBatchPricingRequest batch_counter_id request pairs fbb = do {
     (start, b0) \<leftarrow> StartTable fbb;
     (let b1 = AddElement U64 BR_VT_BATCH_COUNTER_ID (unat batch_counter_id) 0 b0
      in do {
        b2 \<leftarrow> AddOffset BR_VT_PAIRS pairs b1;
        b3 \<leftarrow> AddOffset BR_VT_REQUEST request b2;
        BatchPricingRequestBuilder_Finish start b3
      })
   }"

definition CreatePricingResponse :: "pricing_response \<Rightarrow> builder \<Rightarrow> (offset \<times> builder) option" where
  "CreatePricingResponse r fbb = do {
     (start, b0) \<leftarrow> StartTable fbb;
     (let b1 = AddElement F32 PR_VT_HEDGE_RATIO (unat (pr_hedge_ratio r)) 0 b0;
          b2 = AddElement F32 PR_VT_PRICE (unat (pr_price r)) 0 b1;
          b3 = AddElement F32 PR_VT_BETA (unat (pr_beta r)) 0 b2;
          b4 = AddElement F32 PR_VT_ALPHA (unat (pr_alpha r)) 0 b3;
          b5 = AddElement U32 PR_VT_IDX (unat (pr_idx r)) 0 b4
      in EndTable start b5)
   }"

definition CreateBatchPricingResponse :: "u64 \<Rightarrow> offset \<Rightarrow> builder \<Rightarrow> (offset \<times> builder) option" where
  "CreateBatchPricingResponse batch_id results fbb = do {
     (start, b0) \<leftarrow> StartTable fbb;
     b2 \<leftarrow> AddOffset BS_VT_RESULTS results (AddElement U64 BS_VT_BATCH_ID (unat batch_id) 0 b0);
     EndTable start b2
   }"

definition CreateRangePricingResponse :: "u64 \<Rightarrow> offset \<Rightarrow> builder \<Rightarrow> (offset \<times> builder) option" where
  "CreateRangePricingResponse request_hash results fbb = do {
     (start, b0) \<leftarrow> StartTable fbb;
     b2 \<leftarrow> AddOffset RS_VT_RESULTS results (AddElement U64 RS_VT_REQUEST_HASH (unat request_hash) 0 b0);
     EndTable start b2
   }"

text \<open>The \<open>Direct\<close> variants create the vector first; a null vector pointer becomes offset 0.\<close>

definition CreatePairs :: "AlphaBetaPair list \<Rightarrow> builder \<Rightarrow> (offset \<times> builder) option" where
  "CreatePairs ps fbb = CreateVectorOfStructs AlphaBetaPair_size 4 (map AlphaBetaPair_bytes ps) fbb"

definition CreateRangePricingRequestDirect ::
    "offset \<Rightarrow> u64 \<Rightarrow> AlphaBetaPair list option \<Rightarrow> builder \<Rightarrow> (offset \<times> builder) option" where
  "CreateRangePricingRequestDirect request request_hash pairs fbb = do {
     (pairs', b1) \<leftarrow> (case pairs of None \<Rightarrow> Some (0, fbb) | Some ps \<Rightarrow> CreatePairs ps fbb);
     CreateRangePricingRequest request request_hash pairs' b1
   }"

definition CreateBatchPricingRequestDirect ::
    "u64 \<Rightarrow> offset \<Rightarrow> AlphaBetaPair list option \<Rightarrow> builder \<Rightarrow> (offset \<times> builder) option" where
  "CreateBatchPricingRequestDirect batch_counter_id request pairs fbb = do {
     (pairs', b1) \<leftarrow> (case pairs of None \<Rightarrow> Some (0, fbb) | Some ps \<Rightarrow> CreatePairs ps fbb);
     CreateBatchPricingRequest batch_counter_id request pairs' b1
   }"

definition CreateBatchPricingResponseDirect ::
    "u64 \<Rightarrow> offset list option \<Rightarrow> builder \<Rightarrow> (offset \<times> builder) option" where
  "CreateBatchPricingResponseDirect batch_id results fbb = do {
     (results', b1) \<leftarrow> (case results of None \<Rightarrow> Some (0, fbb) | Some rs \<Rightarrow> CreateVector_offsets rs fbb);
     CreateBatchPricingResponse batch_id results' b1
   }"

definition CreateRangePricingResponseDirect ::
    "u64 \<Rightarrow> offset list option \<Rightarrow> builder \<Rightarrow> (offset \<times> builder) option" where
  "CreateRangePricingResponseDirect request_hash results fbb = do {
     (results', b1) \<leftarrow> (case results of None \<Rightarrow> Some (0, fbb) | Some rs \<Rightarrow> CreateVector_offsets rs fbb);
     CreateRangePricingResponse request_hash results' b1
   }"

definition FinishRangePricingRequestBuffer :: "offset \<Rightarrow> builder \<Rightarrow> builder option" where
  "FinishRangePricingRequestBuffer root fbb = bd_Finish root None False fbb"

definition FinishSizePrefixedRangePricingRequestBuffer :: "offset \<Rightarrow> builder \<Rightarrow> builder option" where
  "FinishSizePrefixedRangePricingRequestBuffer root fbb = bd_Finish root None True fbb"

section \<open>Checks never read outside the buffer\<close>

text \<open>A small finished request: one call at 100, strike 100, two pairs.\<close>

definition example_request :: buffer where
  "example_request =
    [20, 0, 0, 0, 0, 0, 0, 0, 0, 0, 10, 0, 20, 0, 4, 0, 12, 0, 8, 0, 10, 0, 0,
     0, 60, 0, 0, 0, 12, 0, 0, 0, 121, 223, 13, 134, 72, 112, 0, 0, 2, 0, 0,
     0, 1, 0, 0, 0, 0, 0, 128, 63, 0, 0, 0, 0, 0, 0, 0, 0, 0, 0, 128, 63, 0,
     0, 0, 0, 16, 0, 28, 0, 7, 0, 8, 0, 12, 0, 16, 0, 20, 0, 24, 0, 16, 0, 0,
     0, 0, 0, 0, 1, 0, 0, 200, 66, 0, 0, 200, 66, 205, 204, 76, 61, 0, 0, 128,
     63, 205, 204, 204, 61]"

lemma small_max: "length buf < FLATBUFFERS_MAX_BUFFER_SIZE \<Longrightarrow> small buf"
  by (simp add: small_def FLATBUFFERS_MAX_BUFFER_SIZE_def)

text \<open>
  C5. Whatever bytes arrive, checking them as a range request never reads outside the buffer, and
  a buffer that passes can be read as a request (root, parameters, hash, pairs) without leaving it.
\<close>

theorem VerifyRangePricingRequestBuffer_safe:
  assumes "length buf < FLATBUFFERS_MAX_BUFFER_SIZE"
  shows "\<exists>ok vr'. VerifyRangePricingRequestBuffer (mk_verifier buf opts) = Some (ok, vr') \<and>
     (ok \<longrightarrow> (\<exists>t r. GetRangePricingRequest buf = Some t \<and> request_of buf t = Some r))"
  using VerifyBuffer_safe [where T = RangePricingRequest_Verify,
      OF vsafe_RangePricingRequest_Verify small_max [OF assms]] small_max [OF assms]
  unfolding VerifyRangePricingRequestBuffer_def GetRangePricingRequest_def by blast

theorem VerifyRangePricingRequestBuffer_safe_witness:
  "length example_request < FLATBUFFERS_MAX_BUFFER_SIZE \<and>
   map_option fst (VerifyRangePricingRequestBuffer (mk_verifier example_request default_options)) = Some True \<and>
   (\<exists>t r. GetRangePricingRequest example_request = Some t \<and> request_of example_request t = Some r)"
proof -
  have l: "length example_request < FLATBUFFERS_MAX_BUFFER_SIZE" by code_simp
  have "map_option fst (VerifyRangePricingRequestBuffer (mk_verifier example_request default_options)) = Some True"
    by code_simp
  with VerifyRangePricingRequestBuffer_safe [OF l, of default_options] l show ?thesis by auto
qed

end
