(* ===== verification/Fb_Layout.thy ===== *)
theory Fb_Layout
  imports Fb_Table
begin

text \<open>
  What stands where in a buffer that is built from its end.  \<open>item D o xs\<close>: the bytes \<open>xs\<close> start
  \<open>o\<close> bytes before the end of \<open>D\<close>.  \<open>table_at D o L\<close>: at \<open>o\<close> there is a table whose vtable is
  well-formed and gives the field at slot \<open>f\<close> the position \<open>L f\<close>, 0 for an absent one.  Both are
  stable when bytes are prepended, and both determine what the reading functions return.
\<close>

section \<open>Items\<close>

definition item :: "buffer \<Rightarrow> nat \<Rightarrow> byte list \<Rightarrow> bool" where
  "item D o' xs \<longleftrightarrow> length xs \<le> o' \<and> o' \<le> length D \<and> take (length xs) (drop (length D - o') D) = xs"

lemma item_prefix: "item D o' xs \<Longrightarrow> item (pre @ D) o' xs"
  by (auto simp: item_def)

lemma item_front: "item (xs @ D) (length xs + length D) xs"
  by (simp add: item_def)

lemma item_front': "o' = length xs + length D \<Longrightarrow> item (xs @ D) o' xs"
  by (simp add: item_front)

lemma item_len: "item D o' xs \<Longrightarrow> length xs \<le> o' \<and> o' \<le> length D"
  by (simp add: item_def)

lemma item_peek:
  assumes "item D o' xs" and "k + n \<le> length xs"
  shows "peek D (int (length D) - int o' + int k) n = Some (take n (drop k xs))"
proof -
  from assms have l: "length xs \<le> o'" "o' \<le> length D" and xs: "take (length xs) (drop (length D - o') D) = xs"
    by (auto simp: item_def)
  have "nat (int (length D) - int o' + int k) = (length D - o') + k" using l by linarith
  moreover have "take n (drop k xs) = take n (drop (length D - o' + k) D)"
    by (subst xs [symmetric]) (use assms(2) in \<open>simp add: drop_take min_def add.commute\<close>)
  ultimately show ?thesis using l assms(2) by (auto simp: peek_Some_iff)
qed

lemma item_ReadScalar:
  assumes "item D o' (le_bytes n x)" and "x < 256 ^ n"
  shows "ReadScalar n D (int (length D) - int o') = Some x"
  using item_peek [OF assms(1), of 0 n] assms(2) by (simp add: ReadScalar_def)

lemma item_sub:
  assumes "item D o' xs" and "k + n \<le> length xs"
  shows "item D (o' - k) (take n (drop k xs))"
proof -
  from assms have l: "length xs \<le> o'" "o' \<le> length D" and xs: "take (length xs) (drop (length D - o') D) = xs"
    by (auto simp: item_def)
  have e: "length D - (o' - k) = (length D - o') + k" using l assms(2) by linarith
  have "take n (drop k xs) = take n (drop (length D - (o' - k)) D)"
    by (subst xs [symmetric]) (use assms(2) in \<open>simp add: e drop_take min_def add.commute\<close>)
  then show ?thesis using l assms(2) by (auto simp: item_def)
qed

lemma item_append:
  assumes "item D o' (xs @ ys)"
  shows "item D o' xs" and "item D (o' - length xs) ys"
  using item_sub [OF assms, of 0 "length xs"] item_sub [OF assms, of "length xs" "length ys"] by simp_all

section \<open>Vtables\<close>

text \<open>Two bytes of a vtable.\<close>

definition rd2 :: "byte list \<Rightarrow> nat \<Rightarrow> nat" where
  "rd2 vt f = le_nat (take 2 (drop f vt))"

definition vtable_ok :: "byte list \<Rightarrow> bool" where
  "vtable_ok vt \<longleftrightarrow> 4 \<le> length vt \<and> even (length vt) \<and> rd2 vt 0 = length vt"

definition slot :: "byte list \<Rightarrow> nat \<Rightarrow> nat" where
  "slot vt f = (if f < length vt then rd2 vt f else 0)"

lemma take2_poke_other:
  assumes "even f" and "even g" and "f \<noteq> g" and "length bs = 2" and "g + 2 \<le> length vt"
  shows "take 2 (drop f (poke vt g bs)) = take 2 (drop f vt)"
proof (cases "f < g")
  case True
  with assms have fg: "f + 2 \<le> g" by presburger
  have "take (f + 2) (poke vt g bs) = take (f + 2) vt" using fg assms(5) by (intro take_poke_le) auto
  then show ?thesis by (metis take_drop add.commute)
next
  case False
  with assms have "g + 2 \<le> f" by presburger
  with assms show ?thesis by (simp add: drop_poke_lt)
qed

lemma take2_poke_same:
  assumes "length bs = 2" and "g + 2 \<le> length vt"
  shows "take 2 (drop g (poke vt g bs)) = bs"
  using assms by (simp add: poke_def)

text \<open>The vtable after the fields \<open>(off, id)\<close> of a table at \<open>o\<close> were stored into it.\<close>

definition vt_fill :: "nat \<Rightarrow> (nat \<times> nat) list \<Rightarrow> byte list \<Rightarrow> byte list" where
  "vt_fill o' fls vt = fold (\<lambda>(off, f) vt. poke vt f (le_bytes 2 (o' - off))) fls vt"

definition field_pos :: "nat \<Rightarrow> (nat \<times> nat) list \<Rightarrow> nat \<Rightarrow> nat" where
  "field_pos o' fls f = (case map_of (map (\<lambda>(off, g). (g, off)) fls) f of None \<Rightarrow> 0 | Some off \<Rightarrow> o' - off)"

definition fields_ok :: "nat \<Rightarrow> (nat \<times> nat) list \<Rightarrow> bool" where
  "fields_ok n fls \<longleftrightarrow> distinct (map snd fls) \<and> (\<forall>(off, f)\<in>set fls. even f \<and> 4 \<le> f \<and> f + 2 \<le> n)"

lemma length_vt_fill: "\<forall>(off, f)\<in>set fls. f + 2 \<le> length vt \<Longrightarrow> length (vt_fill o' fls vt) = length vt"
  by (induction fls arbitrary: vt) (auto simp: vt_fill_def)

lemma vt_fill_other:
  assumes "even g" and "\<forall>(off, f)\<in>set fls. even f \<and> f + 2 \<le> length vt \<and> f \<noteq> g"
  shows "take 2 (drop g (vt_fill o' fls vt)) = take 2 (drop g vt)"
  using assms
proof (induction fls arbitrary: vt)
  case Nil
  then show ?case by (simp add: vt_fill_def)
next
  case (Cons a fls)
  obtain off f where a: "a = (off, f)" by (cases a)
  from Cons.prems a have f: "even f" "f + 2 \<le> length vt" "f \<noteq> g" by auto
  have "take 2 (drop g (vt_fill o' fls (poke vt f (le_bytes 2 (o' - off))))) =
      take 2 (drop g (poke vt f (le_bytes 2 (o' - off))))"
    using Cons.prems a f by (intro Cons.IH) auto
  also have "\<dots> = take 2 (drop g vt)" using f Cons.prems(1) by (intro take2_poke_other) auto
  finally show ?case by (simp add: vt_fill_def a)
qed

lemma vt_fill_same:
  assumes "distinct (map snd fls)" and "\<forall>(off, f)\<in>set fls. even f \<and> f + 2 \<le> length vt"
    and "(off, g) \<in> set fls"
  shows "take 2 (drop g (vt_fill o' fls vt)) = le_bytes 2 (o' - off)"
  using assms
proof (induction fls arbitrary: vt)
  case Nil
  then show ?case by simp
next
  case (Cons a fls)
  obtain off1 f where a: "a = (off1, f)" by (cases a)
  define w where "w = poke vt f (le_bytes 2 (o' - off1))"
  from Cons.prems a have f: "even f" "f + 2 \<le> length vt" "f \<notin> snd ` set fls" by auto
  have lw: "length w = length vt" using f by (simp add: w_def)
  have step: "vt_fill o' (a # fls) vt = vt_fill o' fls w" by (simp add: vt_fill_def a w_def)
  show ?case
  proof (cases "(off, g) = (off1, f)")
    case True
    have "take 2 (drop f (vt_fill o' fls w)) = take 2 (drop f w)"
      using Cons.prems f lw by (intro vt_fill_other) (auto simp: image_iff)
    also have "\<dots> = le_bytes 2 (o' - off1)" using f by (simp add: w_def take2_poke_same)
    finally show ?thesis using True step by simp
  next
    case False
    with Cons.prems a lw show ?thesis unfolding step by (intro Cons.IH) auto
  qed
qed

lemma map_of_swap:
  assumes "distinct (map snd fls)"
  shows "map_of (map (\<lambda>(off, g). (g, off)) fls) f = Some off \<longleftrightarrow> (off, f) \<in> set fls"
proof -
  have "distinct (map fst (map (\<lambda>(off, g). (g, off)) fls))"
    using assms by (simp add: comp_def case_prod_beta)
  from map_of_eq_Some_iff [OF this] show ?thesis by force
qed

text \<open>A filled vtable that started as zeros but for its header.\<close>

lemma slot_vt_fill:
  assumes ok: "fields_ok n fls" and n: "length vt = n" and ev: "even f" "4 \<le> f" and evn: "even n"
    and z: "drop 4 vt = replicate (n - 4) 0"
    and off: "\<forall>(off, g)\<in>set fls. o' - off < 2 ^ 16"
  shows "slot (vt_fill o' fls vt) f = field_pos o' fls f"
proof -
  have fs: "\<forall>(off, f)\<in>set fls. even f \<and> f + 2 \<le> length vt" "distinct (map snd fls)"
    using ok n by (auto simp: fields_ok_def)
  have len: "length (vt_fill o' fls vt) = n" using fs n by (subst length_vt_fill) auto
  show ?thesis
  proof (cases "map_of (map (\<lambda>(off, g). (g, off)) fls) f")
    case (Some off)
    then have m: "(off, f) \<in> set fls" using map_of_swap [OF fs(2), of f off] by simp
    with fs n have "f < n" by auto
    moreover have "o' - off < 2 ^ 16" using off m by auto
    ultimately show ?thesis
      unfolding slot_def rd2_def field_pos_def len vt_fill_same [OF fs(2,1) m, of o'] Some le_nat_le_bytes
      by simp
  next
    case None
    then have nm: "\<forall>(off, g)\<in>set fls. g \<noteq> f"
      using map_of_swap [OF fs(2), of f] by fastforce
    have "slot (vt_fill o' fls vt) f = 0"
    proof (cases "f < n")
      case True
      then have f2: "f + 2 \<le> n" using ev evn by presburger
      have "take 2 (drop f (vt_fill o' fls vt)) = take 2 (drop f vt)"
        using fs nm ev by (intro vt_fill_other) auto
      also have "drop f vt = drop (f - 4) (drop 4 vt)" using ev by simp
      also have "take 2 (drop (f - 4) (drop 4 vt)) = replicate 2 0"
        using z f2 ev by (simp add: min_def)
      finally show ?thesis by (simp add: slot_def rd2_def numeral_2_eq_2)
    qed (simp add: slot_def len)
    then show ?thesis using None by (simp add: field_pos_def)
  qed
qed

section \<open>Tables\<close>

definition table_at :: "buffer \<Rightarrow> nat \<Rightarrow> (nat \<Rightarrow> nat) \<Rightarrow> bool" where
  "table_at D o' L \<longleftrightarrow>
     (\<exists>vo vt so. item D o' (le_bytes 4 so) \<and> so < 2 ^ 32 \<and> soffset_of so = int vo - int o' \<and>
        item D vo vt \<and> vtable_ok vt \<and> even vo \<and> (\<forall>f. even f \<longrightarrow> 4 \<le> f \<longrightarrow> slot vt f = L f))"

lemma table_atE:
  assumes "table_at D o' L"
  obtains vo vt so where "item D o' (le_bytes 4 so)" "so < 2 ^ 32" "soffset_of so = int vo - int o'"
    "item D vo vt" "vtable_ok vt" "even vo" "\<And>f. even f \<Longrightarrow> 4 \<le> f \<Longrightarrow> slot vt f = L f"
  using assms unfolding table_at_def by (elim exE conjE) (rule that; assumption?; simp)

lemma table_atI:
  assumes "item D o' (le_bytes 4 so)" "so < 2 ^ 32" "soffset_of so = int vo - int o'"
    "item D vo vt" "vtable_ok vt" "even vo" "\<And>f. even f \<Longrightarrow> 4 \<le> f \<Longrightarrow> slot vt f = L f"
  shows "table_at D o' L"
  unfolding table_at_def
  by (intro exI [of _ vo] exI [of _ vt] exI [of _ so] conjI allI impI) (rule assms; assumption)+

lemma table_at_prefix: "table_at D o' L \<Longrightarrow> table_at (pre @ D) o' L"
  by (elim table_atE) (rule table_atI; (rule item_prefix)?; assumption?; simp)

lemma table_at_len: "table_at D o' L \<Longrightarrow> 4 \<le> o' \<and> o' \<le> length D"
  by (elim table_atE) (drule item_len, simp)

lemma table_at_cong:
  assumes "table_at D o' L" and "\<And>f. even f \<Longrightarrow> 4 \<le> f \<Longrightarrow> L f = L' f"
  shows "table_at D o' L'"
  using assms(1) by (elim table_atE) (rule table_atI; assumption?; simp add: assms(2))

text \<open>The address of the object at offset \<open>o\<close>.\<close>

abbreviation addr :: "buffer \<Rightarrow> nat \<Rightarrow> int" where
  "addr D o' \<equiv> int (length D) - int o'"

lemma table_at_GetVTable:
  assumes "item D o' (le_bytes 4 so)" "so < 2 ^ 32" "soffset_of so = int vo - int o'"
  shows "GetVTable D (addr D o') = Some (addr D vo)"
  using item_ReadScalar [OF assms(1)] assms(2,3) by (simp add: GetVTable_def ReadSOffset_def)

lemma table_at_field:
  assumes t: "table_at D o' L" and f: "even f" "4 \<le> f"
  shows "GetOptionalFieldOffset D (addr D o') f = Some (L f)"
proof -
  from t obtain vo vt so where so: "item D o' (le_bytes 4 so)" "so < 2 ^ 32" "soffset_of so = int vo - int o'"
    and vt: "item D vo vt" "vtable_ok vt" and Ls: "\<And>f. even f \<Longrightarrow> 4 \<le> f \<Longrightarrow> slot vt f = L f"
    by (rule table_atE) (rule that; assumption)
  have L: "slot vt f = L f" using Ls f by simp
  from vt have l: "4 \<le> length vt" "even (length vt)" "rd2 vt 0 = length vt" by (simp_all add: vtable_ok_def)
  have sz: "ReadScalar 2 D (addr D vo) = Some (length vt)"
    using item_peek [OF vt(1), of 0 2] l by (simp add: ReadScalar_def rd2_def)
  have "ReadScalar 2 D (addr D vo + int f) = Some (rd2 vt f)" if "f < length vt"
  proof -
    have "f + 2 \<le> length vt" using that f l by presburger
    from item_peek [OF vt(1) this] show ?thesis by (simp add: ReadScalar_def rd2_def)
  qed
  with sz L f table_at_GetVTable [OF so] show ?thesis
    by (auto simp: GetOptionalFieldOffset_def slot_def)
qed

text \<open>A scalar field stored at offset \<open>off\<close>, and an absent one.\<close>

lemma table_at_GetField:
  assumes t: "table_at D o' L" and f: "even f" "4 \<le> f"
    and L: "L f = o' - off" "off < o'" and i: "item D off (le_bytes n x)" "x < 256 ^ n"
  shows "GetField n D (addr D o') f d = Some x"
proof -
  have "addr D o' + int (o' - off) = addr D off" using L(2) by simp
  with table_at_field [OF t f] L item_ReadScalar [OF i] show ?thesis by (simp add: GetField_def)
qed

lemma table_at_GetField_absent:
  assumes "table_at D o' L" and "even f" "4 \<le> f" and "L f = 0"
  shows "GetField n D (addr D o') f d = Some d"
  using table_at_field [OF assms(1-3)] assms(4) by (simp add: GetField_def)

lemma table_at_GetPointer:
  assumes t: "table_at D o' L" and f: "even f" "4 \<le> f"
    and L: "L f = o' - off" "off < o'" and i: "item D off (le_bytes 4 (off - p))" "off - p < 2 ^ 32" "p \<le> off"
  shows "GetPointer D (addr D o') f = Some (Some (addr D p))"
proof -
  have "addr D o' + int (o' - off) = addr D off" using L(2) by simp
  with table_at_field [OF t f] L item_ReadScalar [OF i(1)] i(2,3) show ?thesis
    by (simp add: GetPointer_def Let_def)
qed

lemma table_at_GetPointer_absent:
  assumes "table_at D o' L" and "even f" "4 \<le> f" and "L f = 0"
  shows "GetPointer D (addr D o') f = Some None"
  using table_at_field [OF assms(1-3)] assms(4) by (simp add: GetPointer_def)

end
