(* ===== verification/Fb_Builder_Facts.thy ===== *)
theory Fb_Builder_Facts
  imports Fb_Builder Fb_Layout
begin

text \<open>
  What the builder's operations do, on the two abstract vectors of its buffer.  \<open>idle b\<close>: between
  objects, with a scratch pad that holds only offsets of well-formed vtables.  \<open>table_open b s V k\<close>:
  a table started at size \<open>s\<close> has the fields \<open>V\<close> so far, in at most \<open>k\<close> bytes.  \<open>table_vals D o V\<close>:
  the finished table at \<open>o\<close> has exactly the fields \<open>V\<close>.  Each operation has one lemma.
\<close>

abbreviation bdata :: "builder \<Rightarrow> buffer" where
  "bdata b \<equiv> contents (bd_buf b)"

abbreviation bscr :: "builder \<Rightarrow> byte list" where
  "bscr b \<equiv> scratch_bytes (bd_buf b)"

definition ext :: "builder \<Rightarrow> builder \<Rightarrow> nat \<Rightarrow> bool" where
  "ext b b' n \<longleftrightarrow> (\<exists>pre. bdata b' = pre @ bdata b \<and> length pre \<le> n) \<and> bd_minalign b \<le> bd_minalign b' \<and>
     bd_minalign b' \<le> max 8 (bd_minalign b) \<and> bd_finished b' = bd_finished b \<and> bd_force_defaults b' = bd_force_defaults b"

lemma ext_refl [simp]: "ext b b n"
  by (simp add: ext_def)

lemma ext_trans: "ext a b m \<Longrightarrow> ext b c n \<Longrightarrow> ext a c (m + n)"
  by (fastforce simp: ext_def)

lemma ext_mono: "ext a b m \<Longrightarrow> m \<le> n \<Longrightarrow> ext a b n"
  by (fastforce simp: ext_def)

lemma ext_item: "ext b b' n \<Longrightarrow> item (bdata b) o' xs \<Longrightarrow> item (bdata b') o' xs"
  by (auto simp: ext_def item_prefix)

lemma ext_table_at: "ext b b' n \<Longrightarrow> table_at (bdata b) o' L \<Longrightarrow> table_at (bdata b') o' L"
  by (auto simp: ext_def table_at_prefix)

lemma ext_length: "ext b b' n \<Longrightarrow> length (bdata b) \<le> length (bdata b') \<and> length (bdata b') \<le> length (bdata b) + n"
  by (auto simp: ext_def)

section \<open>Reading the block through its two vectors\<close>

lemma mem_split:
  assumes "vd_ok v"
  shows "mem v = scratch_bytes v @ take (vd_cur v - vd_scratch v) (drop (vd_scratch v) (mem v)) @ contents v"
proof -
  from assms have "vd_scratch v \<le> vd_cur v" by (simp add: vd_ok_def)
  then have "drop (vd_scratch v) (mem v) =
      take (vd_cur v - vd_scratch v) (drop (vd_scratch v) (mem v)) @ drop (vd_cur v) (mem v)"
    by (metis append_take_drop_id drop_drop le_add_diff_inverse2)
  then show ?thesis
    unfolding scratch_bytes_def contents_def by (metis append_take_drop_id)
qed

lemma peek_mem_scr:
  assumes "vd_ok v" and "it + n \<le> length (scratch_bytes v)"
  shows "peek (mem v) (int it) n = Some (take n (drop it (scratch_bytes v)))"
  by (subst mem_split [OF assms(1)]) (use assms(2) in \<open>simp add: peek_def\<close>)

lemma peek_mem_data:
  assumes "vd_ok v" and "k + n \<le> length (contents v)"
  shows "peek (mem v) (int (vd_data v + k)) n = Some (take n (drop k (contents v)))"
proof -
  have "length (contents v) = length (mem v) - vd_cur v" "vd_cur v \<le> length (mem v)"
    using assms(1) by (simp_all add: contents_def vd_ok_def)
  then show ?thesis using assms(2)
    by (simp add: peek_def vd_data_def contents_def add.commute nat_add_distrib)
qed

lemma data_at_eq:
  assumes "vd_ok v" and "o' \<le> length (contents v)"
  shows "data_at v o' = vd_data v + (length (contents v) - o')"
  using assms by (auto simp: data_at_def vd_data_def contents_def vd_ok_def)

lemma peek_mem_item:
  assumes v: "vd_ok v" and i: "item (contents v) o' xs" and n: "n \<le> length xs"
  shows "peek (mem v) (int (data_at v o')) n = Some (take n xs)"
proof -
  define k where "k = length (contents v) - o'"
  from i have l: "length xs \<le> o'" "o' \<le> length (contents v)" and t: "take (length xs) (drop k (contents v)) = xs"
    by (auto simp: item_def k_def)
  have "take n (drop k (contents v)) = take n xs" by (subst t [symmetric]) (simp add: n)
  with peek_mem_data [OF v, of k n] n l show ?thesis
    by (simp add: data_at_eq [OF v l(2)] k_def [symmetric])
     (simp add: k_def)
qed

text \<open>A store at \<open>data() + k\<close> inside the data.\<close>

lemma data_write_spec:
  assumes "vd_ok v" and "k + length bs \<le> length (contents v)"
  shows "vd_ok (data_write k bs v)" and "contents (data_write k bs v) = poke (contents v) k bs"
    and "scratch_bytes (data_write k bs v) = scratch_bytes v"
proof -
  have "vd_cur v + k + length bs \<le> vd_reserved v"
    using assms by (auto simp: vd_ok_def contents_def)
  note w = mem_write_data [OF assms(1) _ this]
  show "vd_ok (data_write k bs v)" "contents (data_write k bs v) = poke (contents v) k bs"
    "scratch_bytes (data_write k bs v) = scratch_bytes v"
    using w by (simp_all add: data_write_def vd_data_def)
qed

lemma push_small_spec:
  assumes "vd_ok v" and "bs \<noteq> []"
  shows "vd_ok (push_small bs v)" and "contents (push_small bs v) = bs @ contents v"
    and "scratch_bytes (push_small bs v) = scratch_bytes v"
  using push_spec [OF assms(1)] by (simp_all add: push_small_eq assms)

lemma fill_big_spec:
  assumes "vd_ok v" and "0 < n"
  shows "vd_ok (fill_big n v)" and "contents (fill_big n v) = replicate n 0 @ contents v"
    and "scratch_bytes (fill_big n v) = scratch_bytes v"
  using push_spec [OF assms(1)] by (simp_all add: fill_big_eq assms)

section \<open>Pushing scalars\<close>

definition pad_to :: "nat \<Rightarrow> byte list \<Rightarrow> byte list" where
  "pad_to n D = replicate (PaddingBytes (length D) n) 0 @ D"

lemma pad_to_mod: "pow2 n \<Longrightarrow> length (pad_to n D) mod n = 0"
  using PaddingBytes_aligns [of n "length D"] by (simp add: pad_to_def add.commute)

lemma pad_to_less: "pow2 n \<Longrightarrow> length (pad_to n D) < length D + n"
  using PaddingBytes_less [of n "length D"] by (simp add: pad_to_def)

lemma pad_to_ge: "length D \<le> length (pad_to n D)"
  by (simp add: pad_to_def)

lemma pad_to_aligned: "pow2 n \<Longrightarrow> length D mod n = 0 \<Longrightarrow> pad_to n D = D"
  by (simp add: pad_to_def PaddingBytes_aligned)

text \<open>
  \<open>ctl\<close>: the builder's control state but for the buffer and the alignment, which only the
  operations on whole objects change.
\<close>

definition ctl :: "builder \<Rightarrow> builder \<Rightarrow> bool" where
  "ctl b b' \<longleftrightarrow> bd_num_field_loc b' = bd_num_field_loc b \<and> bd_max_voffset b' = bd_max_voffset b \<and>
     bd_nested b' = bd_nested b \<and> bd_finished b' = bd_finished b \<and>
     bd_force_defaults b' = bd_force_defaults b \<and> bd_dedup_vtables b' = bd_dedup_vtables b"

lemma ctl_trans: "ctl a b \<Longrightarrow> ctl b c \<Longrightarrow> ctl a c"
  by (simp add: ctl_def)

lemma Align_spec:
  assumes "vd_ok (bd_buf b)"
  shows "vd_ok (bd_buf (Align n b))" and "bdata (Align n b) = pad_to n (bdata b)"
    and "bscr (Align n b) = bscr b" and "ctl b (Align n b)"
    and "bd_minalign (Align n b) = max n (bd_minalign b)"
  using fill_spec [OF assms]
  by (simp_all add: Align_def TrackMinAlign_def Let_def pad_to_def vd_size_contents [OF assms] ctl_def)

lemma PushElement_spec:
  assumes ok: "vd_ok (bd_buf b)" and n: "0 < n" and p: "PushElement n x b = (off, b')"
  shows "vd_ok (bd_buf b')" and "bdata b' = le_bytes n x @ pad_to n (bdata b)"
    and "bscr b' = bscr b" and "ctl b b'" and "bd_minalign b' = max n (bd_minalign b)"
    and "off = length (bdata b')"
proof -
  note a = Align_spec [OF ok, of n]
  have ne: "le_bytes n x \<noteq> []" using n by (cases n) auto
  note s = push_small_spec [OF a(1) ne]
  have b': "b' = on_buf (push_small (le_bytes n x)) (Align n b)" and off: "off = GetSize b'"
    using p by (auto simp: PushElement_def Let_def)
  show "vd_ok (bd_buf b')" "bdata b' = le_bytes n x @ pad_to n (bdata b)" "bscr b' = bscr b"
    using s a by (simp_all add: b')
  show "ctl b b'" "bd_minalign b' = max n (bd_minalign b)" using a by (simp_all add: b' ctl_def)
  show "off = length (bdata b')" using s(1) by (simp add: off GetSize_def vd_size_contents b')
qed

section \<open>The scratch pad\<close>

definition scr_of :: "nat list \<Rightarrow> (nat \<times> nat) list \<Rightarrow> byte list" where
  "scr_of vs fls = concat (map (le_bytes 4) vs) @ concat (map (\<lambda>(off, f). FieldLoc off f) fls)"

lemma length_FieldLoc [simp]: "length (FieldLoc off f) = 8"
  by (simp add: FieldLoc_def)

lemma length_concat_vs: "length (concat (map (le_bytes n) vs)) = n * length vs"
  by (induction vs) auto

lemma length_concat_fls: "length (concat (map (\<lambda>(off, f). FieldLoc off f) fls)) = 8 * length fls"
  by (induction fls) auto

lemma length_scr_of: "length (scr_of vs fls) = 4 * length vs + 8 * length fls"
  by (simp add: scr_of_def length_concat_vs length_concat_fls)

definition max_field :: "(nat \<times> nat) list \<Rightarrow> nat" where
  "max_field fls = fold max (map snd fls) 0"

definition bd_inv :: "builder \<Rightarrow> nat list \<Rightarrow> (nat \<times> nat) list \<Rightarrow> bool" where
  "bd_inv b vs fls \<longleftrightarrow> vd_ok (bd_buf b) \<and> bscr b = scr_of vs fls \<and> bd_num_field_loc b = length fls \<and>
     bd_max_voffset b = max_field fls \<and> pow2 (bd_minalign b)"

lemma max_field_snoc: "max_field (fls @ [(off, f)]) = max f (max_field fls)"
  by (simp add: max_field_def)

lemma max_field_bound: "(off, f) \<in> set fls \<Longrightarrow> f \<le> max_field fls"
  by (induction fls rule: rev_induct) (auto simp: max_field_snoc)

lemma max_field_in: "max_field fls = 0 \<or> max_field fls \<in> snd ` set fls"
proof (induction fls rule: rev_induct)
  case Nil
  then show ?case by (simp add: max_field_def)
next
  case (snoc a fls)
  then show ?case by (cases a) (auto simp: max_field_snoc max_def)
qed

lemma TrackField_spec:
  assumes "bd_inv b vs fls"
  shows "bd_inv (TrackField f off b) vs (fls @ [(off, f)])" and "bdata (TrackField f off b) = bdata b"
    and "bd_minalign (TrackField f off b) = bd_minalign b" and "bd_nested (TrackField f off b) = bd_nested b"
    and "bd_finished (TrackField f off b) = bd_finished b"
    and "bd_force_defaults (TrackField f off b) = bd_force_defaults b"
proof -
  have ok: "vd_ok (bd_buf b)" and ne: "FieldLoc off f \<noteq> []"
    using assms by (auto simp: bd_inv_def FieldLoc_def)
  note s = scratch_push_spec [OF ok ne]
  show "bd_inv (TrackField f off b) vs (fls @ [(off, f)])"
    using assms s by (simp add: bd_inv_def TrackField_def Let_def scr_of_def max_field_snoc max_def)
  show "bdata (TrackField f off b) = bdata b" using s by (simp add: TrackField_def Let_def)
qed (simp_all add: TrackField_def Let_def)

section \<open>Writing the vtable\<close>

lemma write_fields_spec:
  assumes "vd_ok v" and "scratch_bytes v = pre @ concat (map (\<lambda>(off, f). FieldLoc off f) fls)"
    and "contents v = vt @ rest"
    and "\<forall>(off, f)\<in>set fls. off < 2 ^ 32 \<and> f < 2 ^ 16 \<and> even f \<and> f + 2 \<le> length vt \<and> take 2 (drop f vt) = [0, 0]"
    and "distinct (map snd fls)"
  shows "\<exists>v'. write_fields o' (length fls) (length pre) v = Some v' \<and> vd_ok v' \<and>
     contents v' = vt_fill o' fls vt @ rest \<and> scratch_bytes v' = scratch_bytes v"
  using assms
proof (induction fls arbitrary: pre v vt)
  case Nil
  then show ?case by (simp add: vt_fill_def)
next
  case (Cons a fls)
  obtain off f where a: "a = (off, f)" by (cases a)
  note ok = Cons.prems(1)
  have f: "off < 2 ^ 32" "f < 2 ^ 16" "even f" "f + 2 \<le> length vt" "take 2 (drop f vt) = [0, 0]"
    using Cons.prems(4) a by auto
  define tl where "tl = concat (map (\<lambda>(off, f). FieldLoc off f) fls)"
  have scr: "scratch_bytes v = pre @ le_bytes 4 off @ le_bytes 2 f @ [0, 0] @ tl"
    using Cons.prems(2) by (simp add: a FieldLoc_def tl_def)
  have r1: "ReadScalar 4 (mem v) (int (length pre)) = Some off"
    using peek_mem_scr [OF ok, of "length pre" 4] f(1) by (simp add: scr ReadScalar_def)
  have "drop (length pre + 4) (scratch_bytes v) = le_bytes 2 f @ [0, 0] @ tl" by (simp add: scr)
  then have r2: "ReadScalar 2 (mem v) (int (length pre + 4)) = Some f"
    using peek_mem_scr [OF ok, of "length pre + 4" 2] f(2) by (simp add: scr ReadScalar_def)
  have d2: "take 2 (drop f (contents v)) = [0, 0]" using f(4,5) Cons.prems(3) by simp
  have r3: "ReadScalar 2 (mem v) (int (vd_data v + f)) = Some 0"
    using peek_mem_data [OF ok, of f 2] d2 f(4) Cons.prems(3) by (simp add: ReadScalar_def)
  define w where "w = data_write f (le_bytes 2 (o' - off)) v"
  define vt1 where "vt1 = poke vt f (le_bytes 2 (o' - off))"
  have lc: "f + length (le_bytes 2 (o' - off)) \<le> length (contents v)" using f(4) Cons.prems(3) by simp
  note wr = data_write_spec [OF ok lc, folded w_def]
  have cw: "contents w = vt1 @ rest"
    using wr(2) f(4) Cons.prems(3) by (simp add: vt1_def poke_def)
  have lv: "length vt1 = length vt" using f(4) by (simp add: vt1_def)
  have scrw: "scratch_bytes w = (pre @ FieldLoc off f) @ concat (map (\<lambda>(off, f). FieldLoc off f) fls)"
    using wr(3) Cons.prems(2) by (simp add: a)
  have rest: "\<forall>(off, g)\<in>set fls. off < 2 ^ 32 \<and> g < 2 ^ 16 \<and> even g \<and> g + 2 \<le> length vt1 \<and> take 2 (drop g vt1) = [0, 0]"
  proof
    fix z assume z: "z \<in> set fls"
    obtain off2 g where zg: "z = (off2, g)" by (cases z)
    have "f \<noteq> g" using Cons.prems(5) z zg by (force simp: a)
    moreover have "off2 < 2 ^ 32 \<and> g < 2 ^ 16 \<and> even g \<and> g + 2 \<le> length vt \<and> take 2 (drop g vt) = [0, 0]"
      using Cons.prems(4) z zg by auto
    ultimately show "case z of (off, g) \<Rightarrow> off < 2 ^ 32 \<and> g < 2 ^ 16 \<and> even g \<and> g + 2 \<le> length vt1 \<and>
        take 2 (drop g vt1) = [0, 0]"
      using take2_poke_other [of g f "le_bytes 2 (o' - off)" vt] f zg lv by (simp add: vt1_def)
  qed
  have "distinct (map snd fls)" using Cons.prems(5) by simp
  from Cons.IH [OF wr(1) scrw cw rest this] obtain v' where v':
    "write_fields o' (length fls) (length (pre @ FieldLoc off f)) w = Some v'" "vd_ok v'"
    "contents v' = vt_fill o' fls vt1 @ rest" "scratch_bytes v' = scratch_bytes w" by blast
  have "write_fields o' (length (a # fls)) (length pre) v = Some v'"
    using r1 r2 r3 v'(1) by (simp add: w_def)
  moreover have "vt_fill o' (a # fls) vt = vt_fill o' fls vt1" by (simp add: vt_fill_def a vt1_def)
  ultimately show ?case using v' wr(3) by simp
qed

section \<open>Searching for an equal vtable\<close>

definition vtables :: "nat list \<Rightarrow> buffer \<Rightarrow> bool" where
  "vtables vs D \<longleftrightarrow> (\<forall>vo\<in>set vs. even vo \<and> vo < 2 ^ 32 \<and> (\<exists>vt. item D vo vt \<and> vtable_ok vt))"

lemma vtables_prefix: "vtables vs D \<Longrightarrow> vtables vs (pre @ D)"
  unfolding vtables_def using item_prefix by blast

lemma find_vtable_spec:
  assumes ok: "vd_ok v" and vt1: "contents v = vt1 @ rest" and pre: "contents v = p @ D"
  shows "scratch_bytes v = pr @ concat (map (le_bytes 4) vs) \<Longrightarrow> vtables vs D \<Longrightarrow>
     \<exists>r. find_vtable (length vt1) (length vs) (length pr) v = Some r \<and>
       (\<forall>vo. r = Some vo \<longrightarrow> vo \<in> set vs \<and> item D vo vt1)"
proof (induction vs arbitrary: pr)
  case Nil
  then show ?case by simp
next
  case (Cons vo vs)
  from Cons.prems(2) obtain vt2 where i: "item D vo vt2" and vok: "vtable_ok vt2" and vo: "vo < 2 ^ 32"
    by (auto simp: vtables_def)
  have i': "item (contents v) vo vt2" using item_prefix [OF i] pre by simp
  have l2: "4 \<le> length vt2" "rd2 vt2 0 = length vt2" using vok by (simp_all add: vtable_ok_def)
  have r1: "ReadScalar 4 (mem v) (int (length pr)) = Some vo"
    using peek_mem_scr [OF ok, of "length pr" 4] Cons.prems(1) vo by (simp add: ReadScalar_def)
  have r2: "ReadScalar 2 (mem v) (int (data_at v vo)) = Some (length vt2)"
    using peek_mem_item [OF ok i', of 2] l2 by (simp add: ReadScalar_def rd2_def)
  have p1: "peek (mem v) (int (vd_data v)) (length vt1) = Some vt1"
    using peek_mem_data [OF ok, of 0 "length vt1"] vt1 by simp
  have p2: "length vt1 = length vt2 \<Longrightarrow> peek (mem v) (int (data_at v vo)) (length vt1) = Some vt2"
    using peek_mem_item [OF ok i', of "length vt1"] by simp
  have "scratch_bytes v = (pr @ le_bytes 4 vo) @ concat (map (le_bytes 4) vs)" "vtables vs D"
    using Cons.prems by (simp_all add: vtables_def)
  from Cons.IH [OF this] obtain r where r:
    "find_vtable (length vt1) (length vs) (length (pr @ le_bytes 4 vo)) v = Some r"
    "\<forall>vo. r = Some vo \<longrightarrow> vo \<in> set vs \<and> item D vo vt1" by blast
  show ?case
  proof (cases "length vt1 = length vt2 \<and> vt1 = vt2")
    case True
    then have "find_vtable (length vt1) (length (vo # vs)) (length pr) v = Some (Some vo)"
      using r1 r2 p1 p2 memcmp_zero_iff [of vt2 vt1] by simp
    with True i show ?thesis by auto
  next
    case False
    then have "find_vtable (length vt1) (length (vo # vs)) (length pr) v = Some r"
      using r1 r2 p1 p2 memcmp_zero_iff [of vt2 vt1] r(1) by (auto simp del: length_le_bytes) auto
    with r(2) show ?thesis by auto
  qed
qed

lemma soffset_of_mod:
  assumes "- (2 ^ 31) \<le> x" and "x < 2 ^ 31"
  shows "soffset_of (nat (x mod 2 ^ 32)) = x" and "nat (x mod 2 ^ 32) < 2 ^ 32"
proof -
  show "soffset_of (nat (x mod 2 ^ 32)) = x"
  proof (cases "0 \<le> x")
    case True
    then have "x mod 2 ^ 32 = x" using assms by simp
    with True assms show ?thesis by (simp add: soffset_of_def)
  next
    case False
    then have "x mod 2 ^ 32 = x + 2 ^ 32"
      using assms by (subst mod_add_self2 [symmetric]) (intro mod_pos_pos_trivial, auto)
    with False assms show ?thesis by (simp add: soffset_of_def)
  qed
  show "nat (x mod 2 ^ 32) < 2 ^ 32" by (simp add: nat_less_iff)
qed

section \<open>Ending a table\<close>

text \<open>The header and the zeroed slots that \<open>EndTable\<close> writes before the field positions.\<close>

definition vt_init :: "nat \<Rightarrow> nat \<Rightarrow> byte list" where
  "vt_init mv tsize = le_bytes 2 mv @ le_bytes 2 tsize @ replicate (mv - 4) 0"

lemma length_vt_init: "4 \<le> mv \<Longrightarrow> length (vt_init mv tsize) = mv"
  by (simp add: vt_init_def)

lemma vt_init_pokes:
  assumes "4 \<le> mv"
  shows "poke (poke (replicate mv 0 @ D) 2 (le_bytes 2 tsize)) 0 (le_bytes 2 mv) = vt_init mv tsize @ D"
proof -
  obtain k where "mv = 4 + k" using le_Suc_ex [OF assms] by blast
  then have "replicate mv (0::byte) = replicate 2 0 @ replicate 2 0 @ replicate (mv - 4) 0"
    by (simp add: numeral_eq_Suc)
  then have r: "replicate mv 0 @ D = replicate 2 0 @ replicate 2 0 @ (replicate (mv - 4) 0 @ D)" by simp
  have "poke (replicate mv 0 @ D) 2 (le_bytes 2 tsize) = replicate 2 0 @ le_bytes 2 tsize @ (replicate (mv - 4) 0 @ D)"
    unfolding r by (rule poke_append') auto
  then show ?thesis
    using poke_append' [of 0 "[]" "replicate 2 0" "le_bytes 2 mv" "le_bytes 2 tsize @ replicate (mv - 4) 0 @ D"]
    by (simp add: vt_init_def)
qed

lemma slot_zero: "4 \<le> f \<Longrightarrow> f + 2 \<le> mv \<Longrightarrow> take 2 (drop f (vt_init mv tsize)) = [0, 0]"
proof -
  assume f: "4 \<le> f" "f + 2 \<le> mv"
  then have "drop f (vt_init mv tsize) = replicate (mv - f) 0" by (simp add: vt_init_def)
  moreover have "take 2 (replicate (mv - f) (0::byte)) = replicate 2 0" using f by (simp add: min_def)
  ultimately show ?thesis by (simp add: numeral_2_eq_2)
qed

lemma vtable_ok_fill:
  assumes mv: "4 \<le> mv" "even mv" "mv < 2 ^ 16" and ok: "fields_ok mv fls"
  shows "vtable_ok (vt_fill o' fls (vt_init mv tsize))" and "length (vt_fill o' fls (vt_init mv tsize)) = mv"
proof -
  have fs: "\<forall>(off, f)\<in>set fls. f + 2 \<le> length (vt_init mv tsize)"
    using ok mv by (auto simp: fields_ok_def length_vt_init)
  show len: "length (vt_fill o' fls (vt_init mv tsize)) = mv"
    using length_vt_fill [OF fs] mv by (simp add: length_vt_init)
  have "take 2 (drop 0 (vt_fill o' fls (vt_init mv tsize))) = take 2 (drop 0 (vt_init mv tsize))"
    using ok mv by (intro vt_fill_other) (auto simp: fields_ok_def length_vt_init)
  also have "\<dots> = le_bytes 2 mv" by (simp add: vt_init_def)
  finally have "rd2 (vt_fill o' fls (vt_init mv tsize)) 0 = mv"
    using mv by (simp add: rd2_def)
  with len mv show "vtable_ok (vt_fill o' fls (vt_init mv tsize))" by (simp add: vtable_ok_def)
qed

text \<open>The builder when the vtable has been written and before the search for an equal one.\<close>

lemma EndTable_vtable_written:
  fixes mv tsize o' :: nat
  assumes v0: "vd_ok (bd_buf b)" and s0: "bscr b = scr_of vs fls" and ok: "fields_ok mv fls"
    and mv: "4 \<le> mv" "mv < 2 ^ 16"
    and offs: "\<forall>(off, f)\<in>set fls. off < 2 ^ 32"
    and D: "bdata b = D1" and nl: "bd_num_field_loc b = length fls"
  defines "b3 \<equiv> on_buf (fill_big mv) b"
  defines "b5 \<equiv> on_buf (data_write 0 (le_bytes 2 mv)) (on_buf (data_write 2 (le_bytes 2 tsize)) b3)"
  shows "\<exists>v6. write_fields o' (bd_num_field_loc b5) (scratch_size (bd_buf b5) - bd_num_field_loc b5 * 8) (bd_buf b5) = Some v6 \<and>
     vd_ok v6 \<and> contents v6 = vt_fill o' fls (vt_init mv tsize) @ D1 \<and> scratch_bytes v6 = scr_of vs fls"
proof -
  have "0 < mv" using mv by simp
  note f3 = fill_big_spec [OF v0 this]
  have c3: "contents (bd_buf b3) = replicate mv 0 @ D1" and s3: "scratch_bytes (bd_buf b3) = scr_of vs fls"
    and v3: "vd_ok (bd_buf b3)"
    using f3 D s0 by (simp_all add: b3_def)
  have l2: "2 + length (le_bytes 2 tsize) \<le> length (contents (bd_buf b3))" using mv by (simp add: c3)
  note w4 = data_write_spec [OF v3 l2]
  have l0: "0 + length (le_bytes 2 mv) \<le> length (contents (data_write 2 (le_bytes 2 tsize) (bd_buf b3)))"
    using w4(2) mv by (simp add: c3)
  note w5 = data_write_spec [OF w4(1) l0]
  have v5: "vd_ok (bd_buf b5)" and c5: "contents (bd_buf b5) = vt_init mv tsize @ D1"
    and s5: "scratch_bytes (bd_buf b5) = scr_of vs fls" and n5: "bd_num_field_loc b5 = length fls"
    using w5 w4 c3 s3 vt_init_pokes [OF mv(1), of D1 tsize] nl by (simp_all add: b5_def b3_def)
  have sz: "scratch_size (bd_buf b5) = length (scr_of vs fls)"
    using scratch_size_bytes [OF v5] s5 by (simp add: scratch_size_def)
  have start: "scratch_size (bd_buf b5) - bd_num_field_loc b5 * 8 = length (concat (map (le_bytes 4) vs))"
    by (simp add: sz n5 length_scr_of length_concat_vs)
  have fs: "\<forall>(off, f)\<in>set fls. off < 2 ^ 32 \<and> f < 2 ^ 16 \<and> even f \<and> f + 2 \<le> length (vt_init mv tsize) \<and>
      take 2 (drop f (vt_init mv tsize)) = [0, 0]"
  proof
    fix z assume z: "z \<in> set fls"
    obtain off f where zf: "z = (off, f)" by (cases z)
    have "even f" "4 \<le> f" "f + 2 \<le> mv" using ok z zf by (auto simp: fields_ok_def)
    moreover have "off < 2 ^ 32" using offs z zf by auto
    ultimately show "case z of (off, f) \<Rightarrow> off < 2 ^ 32 \<and> f < 2 ^ 16 \<and> even f \<and> f + 2 \<le> length (vt_init mv tsize) \<and>
      take 2 (drop f (vt_init mv tsize)) = [0, 0]"
      using mv slot_zero [of f mv tsize] by (simp add: zf length_vt_init)
  qed
  have "distinct (map snd fls)" using ok by (simp add: fields_ok_def)
  from write_fields_spec [OF v5 s5 [unfolded scr_of_def] c5 fs this, of o'] s5
  show ?thesis by (simp add: start [unfolded n5] n5)
qed

text \<open>
  The last step.  \<open>linked v v' vt P vs' vo\<close>: the table whose vtable offset stands before \<open>P\<close> now
  points at \<open>vo\<close>, where the vtable \<open>vt\<close> is.
\<close>

definition linked :: "vector_downward \<Rightarrow> byte list \<Rightarrow> buffer \<Rightarrow> nat list \<Rightarrow> nat \<Rightarrow> bool" where
  "linked v vt P vs vo \<longleftrightarrow> vd_ok v \<and> scratch_bytes v = scr_of vs [] \<and> vtables vs (contents v) \<and>
     (\<exists>pre so. contents v = pre @ le_bytes 4 so @ P \<and> length pre \<le> length vt \<and> so < 2 ^ 32 \<and>
        soffset_of so = int vo - int (4 + length P) \<and> even vo \<and> item (contents v) vo vt)"

lemma link_new:
  assumes ok: "vd_ok v" and c: "contents v = vt @ le_bytes 4 0 @ P" and scr: "scratch_bytes v = scr_of vs []"
    and vt: "vtable_ok vt" and vts: "vtables vs P" and o': "o' = 4 + length P" "even o'"
    and sm: "length (contents v) < 2 ^ 31"
  defines "u \<equiv> length vt + o'"
  defines "w \<equiv> scratch_push_small (le_bytes 4 u) v"
  shows "linked (mem_write (data_at w o') (le_bytes 4 (nat ((int u - int o') mod 2 ^ 32))) w) vt P (vs @ [u]) u"
proof -
  have l31: "u < 2 ^ 31" using sm c o' by (simp add: u_def)
  have evu: "even u" using vt o' by (simp add: vtable_ok_def u_def)
  have ne: "le_bytes 4 u \<noteq> []" by (metis length_le_bytes length_0_conv zero_neq_numeral)
  note sp = scratch_push_spec [OF ok ne, folded w_def]
  have da: "data_at w o' = vd_data w + length vt"
    using data_at_eq [OF sp(1), of o'] sp(2) c o' by simp
  define so where "so = nat ((int u - int o') mod 2 ^ 32)"
  have so: "soffset_of so = int u - int o'" "so < 2 ^ 32"
    using soffset_of_mod [of "int u - int o'"] l31 by (auto simp: so_def u_def)
  have "length vt + length (le_bytes 4 so) \<le> length (contents w)" using sp(2) c by simp
  note wr = data_write_spec [OF sp(1) this]
  have dw: "mem_write (data_at w o') (le_bytes 4 so) w = data_write (length vt) (le_bytes 4 so) w"
    by (simp add: data_write_def da)
  have c10: "contents (data_write (length vt) (le_bytes 4 so) w) = vt @ le_bytes 4 so @ P"
    using wr(2) sp(2) c poke_append' [of "length vt" vt "le_bytes 4 0" "le_bytes 4 so" P] by simp
  have it: "item (vt @ le_bytes 4 so @ P) u vt"
    by (rule item_front') (simp add: u_def o')
  have "vtables vs (vt @ le_bytes 4 so @ P)"
    using vtables_prefix [OF vts, of "vt @ le_bytes 4 so"] by simp
  then have "vtables (vs @ [u]) (vt @ le_bytes 4 so @ P)"
    using it vt evu l31 by (auto simp: vtables_def)
  moreover have "scratch_bytes w = scr_of (vs @ [u]) []" using sp(3) scr by (simp add: scr_of_def)
  ultimately show ?thesis
    unfolding linked_def so_def [symmetric] dw c10
    using wr so it evu o' by auto
qed

lemma link_shared:
  assumes ok: "vd_ok v" and c: "contents v = vt @ le_bytes 4 0 @ P" and scr: "scratch_bytes v = scr_of vs []"
    and vts: "vtables vs P" and o': "o' = 4 + length P"
    and sm: "length (contents v) < 2 ^ 31" and vo: "vo \<in> set vs" "item P vo vt"
  defines "w \<equiv> vd_pop (length vt) v"
  shows "linked (mem_write (data_at w o') (le_bytes 4 (nat ((int vo - int o') mod 2 ^ 32))) w) vt P vs vo"
    and "vd_size w = o'" and "vo < o'"
proof -
  have voe: "even vo" using vts vo(1) by (auto simp: vtables_def)
  show vlo: "vo < o'" using item_len [OF vo(2)] o' by simp
  have pl: "length vt \<le> length (contents v)" using c by simp
  note pp = pop_spec [OF ok pl, folded w_def]
  have cw: "contents w = le_bytes 4 0 @ P" using pp(2) c by simp
  show "vd_size w = o'" using vd_size_contents [OF pp(1)] cw o' by simp
  have da: "data_at w o' = vd_data w + 0" using data_at_eq [OF pp(1), of o'] cw o' by simp
  define so where "so = nat ((int vo - int o') mod 2 ^ 32)"
  have "o' < 2 ^ 31" using sm c o' by simp
  then have so: "soffset_of so = int vo - int o'" "so < 2 ^ 32"
    using soffset_of_mod [of "int vo - int o'"] vlo by (auto simp: so_def)
  have "0 + length (le_bytes 4 so) \<le> length (contents w)" by (simp add: cw)
  note wr = data_write_spec [OF pp(1) this]
  have dw: "mem_write (data_at w o') (le_bytes 4 so) w = data_write 0 (le_bytes 4 so) w"
    by (simp add: data_write_def da)
  have c10: "contents (data_write 0 (le_bytes 4 so) w) = le_bytes 4 so @ P"
    using wr(2) cw poke_append' [of 0 "[]" "le_bytes 4 0" "le_bytes 4 so" P] by simp
  show "linked (mem_write (data_at w o') (le_bytes 4 (nat ((int vo - int o') mod 2 ^ 32))) w) vt P vs vo"
    unfolding linked_def so_def [symmetric] dw c10
    using wr(1,3) so pp(3) scr voe item_prefix [OF vo(2)] vtables_prefix [OF vts] o'
    by (intro conjI exI [of _ "[]"] exI [of _ so]) auto
qed

lemma link_vtable_spec:
  assumes ok: "vd_ok (bd_buf b)" and c: "bdata b = vt @ le_bytes 4 0 @ P" and scr: "bscr b = scr_of vs []"
    and vt: "vtable_ok vt" "length vt < 2 ^ 16" and vts: "vtables vs P" and o': "o' = 4 + length P" "even o'"
    and sm: "length (bdata b) < 2 ^ 31"
  shows "\<exists>v vs' vo. link_vtable o' b = Some (b\<lparr>bd_buf := v\<rparr>) \<and> linked v vt P vs' vo"
proof -
  define v where "v = bd_buf b"
  note A = ok [folded v_def] c [folded v_def] scr [folded v_def]
  have sz: "GetSize b = length vt + o'" using vd_size_contents [OF A(1)] A(2) o' by (simp add: GetSize_def v_def)
  have vl: "4 \<le> length vt" "rd2 vt 0 = length vt" using vt(1) by (simp_all add: vtable_ok_def)
  have "take 2 vt = take 2 (contents v)" using A(2) vl by simp
  then have r1: "ReadScalar 2 (mem v) (int (vd_data v)) = Some (length vt)"
    using peek_mem_data [OF A(1), of 0 2] A(2) vl by (simp add: ReadScalar_def rd2_def)
  have ssz: "scratch_size v div 4 = length vs"
    using scratch_size_bytes [OF A(1)] A(3) by (simp add: scratch_size_def length_scr_of)
  have cP: "contents v = (vt @ le_bytes 4 0) @ P" using A(2) by simp
  have "scratch_bytes v = [] @ concat (map (le_bytes 4) vs)" using A(3) by (simp add: scr_of_def)
  from find_vtable_spec [OF A(1,2) cP this vts] obtain r where
    r: "find_vtable (length vt) (length vs) 0 v = Some r" "\<forall>vo. r = Some vo \<longrightarrow> vo \<in> set vs \<and> item P vo vt"
    by auto
  define found where "found = (if bd_dedup_vtables b then r else None)"
  have fnd: "(if bd_dedup_vtables b then find_vtable (length vt) (length vs) 0 v else Some None) = Some found"
    using r(1) by (simp add: found_def)
  have smv: "length (contents v) < 2 ^ 31" using sm by (simp add: v_def)
  show ?thesis
  proof (cases found)
    case None
    define u where "u = length vt + o'"
    define w where "w = scratch_push_small (le_bytes 4 u) v"
    define x where "x = mem_write (data_at w o') (le_bytes 4 (nat ((int u - int o') mod 2 ^ 32))) w"
    have "link_vtable o' b = Some (b\<lparr>bd_buf := x\<rparr>)"
      using None r1 fnd sz
      by (cases "bd_dedup_vtables b")
        (simp_all add: link_vtable_def v_def [symmetric] ssz u_def w_def x_def Let_def)
    then show ?thesis
      using link_new [OF A vt(1) vts o' smv, folded u_def, folded w_def, folded x_def] by blast
  next
    case (Some vo)
    then have "vo \<in> set vs" "item P vo vt" using r(2) by (auto simp: found_def split: if_splits)
    note ls = link_shared [OF A vts o'(1) smv this]
    define w where "w = vd_pop (length vt) v"
    define x where "x = mem_write (data_at w o') (le_bytes 4 (nat ((int vo - int o') mod 2 ^ 32))) w"
    have "vo \<noteq> vd_size w" using ls(2,3) by (simp add: w_def)
    then have "link_vtable o' b = Some (b\<lparr>bd_buf := x\<rparr>)"
      using r1 fnd Some sz
      by (cases "bd_dedup_vtables b")
        (simp_all add: link_vtable_def v_def [symmetric] ssz Let_def w_def [symmetric] x_def GetSize_def)
    then show ?thesis using ls(1) [folded w_def, folded x_def] by blast
  qed
qed

lemma ClearOffsets_spec:
  assumes ok: "vd_ok (bd_buf b)" and s: "bscr b = scr_of vs fls" and n: "bd_num_field_loc b = length fls"
  shows "vd_ok (bd_buf (ClearOffsets b))" and "bdata (ClearOffsets b) = bdata b"
    and "bscr (ClearOffsets b) = scr_of vs []"
proof -
  have "bd_num_field_loc b * 8 \<le> length (bscr b)" by (simp add: s n length_scr_of)
  note sp = scratch_pop_spec [OF ok this]
  show "vd_ok (bd_buf (ClearOffsets b))" "bdata (ClearOffsets b) = bdata b"
    using sp by (simp_all add: ClearOffsets_def)
  show "bscr (ClearOffsets b) = scr_of vs []"
    using sp(3) by (simp add: ClearOffsets_def s n length_scr_of)
      (simp add: scr_of_def length_concat_vs)
qed

lemma ClearOffsets_sel [simp]:
  "bd_num_field_loc (ClearOffsets b) = 0" "bd_max_voffset (ClearOffsets b) = 0"
  "bd_minalign (ClearOffsets b) = bd_minalign b" "bd_finished (ClearOffsets b) = bd_finished b"
  "bd_force_defaults (ClearOffsets b) = bd_force_defaults b"
  by (simp_all add: ClearOffsets_def)

lemma pow2_max: "pow2 a \<Longrightarrow> pow2 b \<Longrightarrow> pow2 (max a b)"
  by (simp add: max_def)

lemma max_field_even: "fields_ok n fls \<Longrightarrow> even (max_field fls)"
  using max_field_in [of fls] by (auto simp: fields_ok_def)

lemma EndTable_spec:
  assumes inv: "bd_inv b vs fls" and nst: "bd_nested b" and vts: "vtables vs (bdata b)"
    and fo: "fields_ok (max_field fls + 2) fls" "max_field fls + 2 < 2 ^ 16"
    and st: "start \<le> length (bdata b)" "length (bdata b) + 7 < start + 2 ^ 16"
    and offs: "\<forall>(off, f)\<in>set fls. start < off \<and> off \<le> length (bdata b)"
    and sm: "length (bdata b) + 7 + 2 ^ 16 < 2 ^ 31"
  shows "\<exists>o' b' vs'. EndTable start b = Some (o', b') \<and> bd_inv b' vs' [] \<and> vtables vs' (bdata b') \<and>
     \<not> bd_nested b' \<and> ext b b' (7 + max 4 (max_field fls + 2)) \<and> table_at (bdata b') o' (field_pos o' fls) \<and>
     o' mod 4 = 0 \<and> length (bdata b) < o' \<and> 4 \<le> bd_minalign b'"
proof -
  define D where "D = bdata b"
  define P where "P = pad_to 4 D"
  define mv where "mv = max (max_field fls + 2) 4"
  obtain o' b1 where p: "PushElement 4 0 b = (o', b1)" by (cases "PushElement 4 0 b")
  have v0: "vd_ok (bd_buf b)" using inv by (simp add: bd_inv_def)
  note ps = PushElement_spec [OF v0 zero_less_numeral p, folded D_def, folded P_def]
  have o': "o' = 4 + length P" using ps(2,6) by simp
  have P4: "length P mod 4 = 0" "length P < length D + 4" "length D \<le> length P"
    using pad_to_mod [of 4 D] pad_to_less [of 4 D] pad_to_ge [of D 4] by (simp_all add: P_def)
  have o4: "o' mod 4 = 0" "even o'" using o' P4(1) by presburger+
  obtain q where q: "P = q @ D" by (auto simp: P_def pad_to_def)
  have mv: "4 \<le> mv" "mv < 2 ^ 16" "even mv" "fields_ok mv fls"
    using fo max_field_even [OF fo(1)] by (auto simp: mv_def fields_ok_def max_def)
  have mvd: "max ((bd_max_voffset b1 + 2) mod 2 ^ 16) (FieldIndexToOffset 0) = mv"
    using ps(4) inv fo(2) by (simp add: ctl_def bd_inv_def FieldIndexToOffset_def mv_def)
  have inv1: "bd_inv b1 vs fls"
    using inv ps(1,3,4,5) pow2_max [of 4 "bd_minalign b"] by (simp add: bd_inv_def ctl_def)
  define b2 where "b2 = b1\<lparr>bd_max_voffset := mv\<rparr>"
  have offs32: "\<forall>(off, f)\<in>set fls. off < 2 ^ 32" using offs sm by fastforce
  define tsize where "tsize = o' - start"
  have ts: "tsize < 0x10000" using st o' P4 by (simp add: tsize_def D_def)
  define b5 where "b5 = on_buf (data_write 0 (le_bytes 2 mv)) (on_buf (data_write 2 (le_bytes 2 tsize)) (on_buf (fill_big mv) b2))"
  define vt where "vt = vt_fill o' fls (vt_init mv tsize)"
  have "bdata b2 = le_bytes 4 0 @ P" "bd_num_field_loc b2 = length fls" "vd_ok (bd_buf b2)" "bscr b2 = scr_of vs fls"
    using ps(2) inv1 by (simp_all add: b2_def bd_inv_def)
  note c2 = this
  obtain v6 where v6: "write_fields o' (bd_num_field_loc b5) (scratch_size (bd_buf b5) - bd_num_field_loc b5 * 8) (bd_buf b5) = Some v6"
    "vd_ok v6" "contents v6 = vt @ le_bytes 4 0 @ P" "scratch_bytes v6 = scr_of vs fls"
    using EndTable_vtable_written [OF c2(3,4) mv(4,1,2) offs32 c2(1,2), of o' tsize]
    by (auto simp: b5_def vt_def)
  have vtok: "vtable_ok vt" "length vt = mv"
    using vtable_ok_fill [OF mv(1,3,2,4)] by (simp_all add: vt_def)
  define b7 where "b7 = ClearOffsets (b5\<lparr>bd_buf := v6\<rparr>)"
  have n5: "bd_num_field_loc b5 = length fls" using c2(2) by (simp add: b5_def)
  have b7: "vd_ok (bd_buf b7)" "bdata b7 = vt @ le_bytes 4 0 @ P" "bscr b7 = scr_of vs []"
    using ClearOffsets_spec [of "b5\<lparr>bd_buf := v6\<rparr>" vs fls] v6 n5 by (simp_all add: b7_def)
  have vtsP: "vtables vs P" using vtables_prefix [OF vts, of q] q by (simp add: D_def)
  have sm7: "length (bdata b7) < 2 ^ 31" using sm b7(2) vtok(2) mv(2) P4 by (simp add: D_def)
  have lvt: "length vt < 2 ^ 16" using vtok(2) mv(2) by simp
  obtain v vs' vo where lk: "link_vtable o' b7 = Some (b7\<lparr>bd_buf := v\<rparr>)" "linked v vt P vs' vo"
    using link_vtable_spec [OF b7 vtok(1) lvt vtsP o' o4(2) sm7] by blast
  define b' where "b' = b7\<lparr>bd_buf := v, bd_nested := False\<rparr>"
  have "bd_nested b" "bd_max_voffset b2 = mv" "bd_buf b1 = bd_buf b2" "bd_num_field_loc b1 = bd_num_field_loc b2"
    using nst by (simp_all add: b2_def)
  then have run: "EndTable start b = Some (o', b')"
    using p mvd ts v6(1) lk(1)
    by (simp add: EndTable_def Let_def b2_def [symmetric] tsize_def [symmetric] b5_def b7_def b'_def)
  from lk(2) obtain pre so where cv: "contents v = pre @ le_bytes 4 so @ P" and lpre: "length pre \<le> length vt"
    and so: "so < 2 ^ 32" "soffset_of so = int vo - int o'" and vo: "even vo" "item (contents v) vo vt"
    and inv': "vd_ok v" "scratch_bytes v = scr_of vs' []" "vtables vs' (contents v)"
    by (auto simp: linked_def o')
  have ma: "bd_minalign b' = max 4 (bd_minalign b)" using ps(5) by (simp add: b'_def b7_def b5_def b2_def)
  have ext: "ext b b' (7 + mv)"
    unfolding ext_def using cv lpre vtok(2) P4 q ps(4) ma
    by (intro conjI exI [of _ "pre @ le_bytes 4 so @ q"])
      (auto simp: D_def b'_def b7_def b5_def b2_def ctl_def)
  have it: "item (contents v) o' (le_bytes 4 so)"
    unfolding cv by (rule item_prefix, rule item_front') (simp add: o')
  have dz: "drop 4 (vt_init mv tsize) = replicate (mv - 4) 0" by (simp add: vt_init_def)
  have od: "\<forall>(off, g)\<in>set fls. o' - off < 2 ^ 16" using offs ts by (fastforce simp: tsize_def)
  have "table_at (contents v) o' (field_pos o' fls)"
    using slot_vt_fill [OF mv(4) length_vt_init [OF mv(1)] _ _ mv(3) dz od]
    by (intro table_atI [OF it so vo(2) vtok(1) vo(1)]) (simp add: vt_def)
  moreover have "bd_inv b' vs' []"
    using inv' inv ma pow2_max [of 4 "bd_minalign b"]
    by (simp add: bd_inv_def b'_def b7_def max_field_def)
  moreover have "length (bdata b) < o'" using o' P4 by (simp add: D_def)
  ultimately show ?thesis
    using run ext inv'(3) o4 ma by (intro exI conjI) (auto simp: b'_def mv_def max.commute)
qed

end
