(* ===== verification/Fb_Objects.thy ===== *)
theory Fb_Objects
  imports Fb_Builder_Facts
begin

text \<open>
  The builder seen from its clients.  A table under construction is a map from slots to values
  (\<open>table_open\<close>), a finished one the same map at an offset (\<open>table_vals\<close>); between objects the
  builder is \<open>idle\<close>.  The generated code's \<open>add_\<close> calls extend the map one by one, and what the
  reading functions return is read off the map.
\<close>

section \<open>Values in slots\<close>

datatype slotv = Scalar nat nat | Ref nat

fun sv_size :: "slotv \<Rightarrow> nat" where
  "sv_size (Scalar n x) = n"
| "sv_size (Ref p) = 4"

fun sv_bytes :: "slotv \<Rightarrow> nat \<Rightarrow> byte list" where
  "sv_bytes (Scalar n x) off = le_bytes n x"
| "sv_bytes (Ref p) off = le_bytes 4 (off - p)"

fun sv_ok :: "slotv \<Rightarrow> nat \<Rightarrow> bool" where
  "sv_ok (Scalar n x) off \<longleftrightarrow> 0 < n \<and> x < 256 ^ n \<and> off mod n = 0"
| "sv_ok (Ref p) off \<longleftrightarrow> 0 < p \<and> p < off \<and> off mod 4 = 0 \<and> off < 2 ^ 31"

definition stored :: "buffer \<Rightarrow> nat \<Rightarrow> slotv \<Rightarrow> bool" where
  "stored D off w \<longleftrightarrow> item D off (sv_bytes w off) \<and> sv_ok w off"

lemma stored_prefix: "stored D off w \<Longrightarrow> stored (pre @ D) off w"
  by (simp add: stored_def item_prefix)

lemma ext_stored: "ext b b' n \<Longrightarrow> stored (bdata b) off w \<Longrightarrow> stored (bdata b') off w"
  by (simp add: stored_def ext_item)

section \<open>Tables under construction and finished\<close>

type_synonym slots = "nat \<Rightarrow> slotv option"

definition idle :: "builder \<Rightarrow> bool" where
  "idle b \<longleftrightarrow> (\<exists>vs. bd_inv b vs [] \<and> vtables vs (bdata b)) \<and> \<not> bd_nested b \<and> \<not> bd_force_defaults b \<and>
     \<not> bd_finished b"

definition slot_id :: "nat \<Rightarrow> bool" where
  "slot_id f \<longleftrightarrow> even f \<and> 4 \<le> f \<and> f \<le> 252"

definition open_fields :: "builder \<Rightarrow> nat \<Rightarrow> slots \<Rightarrow> (nat \<times> nat) list \<Rightarrow> bool" where
  "open_fields b s V fls \<longleftrightarrow> distinct (map snd fls) \<and> dom V = snd ` set fls \<and>
     (\<forall>(off, f)\<in>set fls. slot_id f \<and> s < off \<and> off \<le> length (bdata b) \<and>
        (\<exists>w. V f = Some w \<and> stored (bdata b) off w \<and> sv_size w \<le> bd_minalign b))"

definition table_open :: "builder \<Rightarrow> nat \<Rightarrow> slots \<Rightarrow> nat \<Rightarrow> bool" where
  "table_open b s V k \<longleftrightarrow> bd_nested b \<and> \<not> bd_force_defaults b \<and> \<not> bd_finished b \<and>
     s \<le> length (bdata b) \<and> length (bdata b) \<le> s + k \<and>
     (\<exists>vs fls. bd_inv b vs fls \<and> vtables vs (bdata b) \<and> open_fields b s V fls)"

text \<open>The position \<open>l\<close> that a vtable gives a slot, against the slot's value.\<close>

definition placed :: "buffer \<Rightarrow> nat \<Rightarrow> slotv option \<Rightarrow> nat \<Rightarrow> bool" where
  "placed D o' v l \<longleftrightarrow>
     (case v of None \<Rightarrow> l = 0 | Some w \<Rightarrow> \<exists>off. l = o' - off \<and> off < o' \<and> stored D off w)"

lemma placed_prefix: "placed D o' v l \<Longrightarrow> placed (pre @ D) o' v l"
  by (cases v) (auto simp: placed_def stored_prefix)

definition table_vals :: "buffer \<Rightarrow> nat \<Rightarrow> slots \<Rightarrow> bool" where
  "table_vals D o' V \<longleftrightarrow> o' mod 4 = 0 \<and>
     (\<exists>L. table_at D o' L \<and> (\<forall>f. even f \<longrightarrow> 4 \<le> f \<longrightarrow> placed D o' (V f) (L f)))"

lemma table_vals_prefix: "table_vals D o' V \<Longrightarrow> table_vals (pre @ D) o' V"
  unfolding table_vals_def
  by (elim conjE exE, intro conjI exI, assumption, erule table_at_prefix) (simp add: placed_prefix)

lemma ext_table_vals: "ext b b' n \<Longrightarrow> table_vals (bdata b) o' V \<Longrightarrow> table_vals (bdata b') o' V"
  by (auto simp: ext_def table_vals_prefix)

section \<open>Reading a finished table\<close>

lemma table_vals_slot:
  assumes "table_vals D o' V" and "slot_id f"
  obtains L where "table_at D o' L" "even f" "4 \<le> f"
    "placed D o' (V f) (L f)"
  using assms unfolding table_vals_def slot_id_def by blast

lemma read_scalar:
  assumes "table_vals D o' V" and "slot_id f" and "V f = Some (Scalar n x)"
  shows "GetField n D (addr D o') f d = Some x"
proof -
  obtain L where t: "table_at D o' L" "even f" "4 \<le> f"
    and L: "placed D o' (V f) (L f)"
    by (rule table_vals_slot [OF assms(1,2)])
  then obtain off where "L f = o' - off" "off < o'" "item D off (le_bytes n x)" "x < 256 ^ n"
    using assms(3) by (auto simp: stored_def placed_def)
  with table_at_GetField [OF t] show ?thesis by blast
qed

lemma read_default:
  assumes "table_vals D o' V" and "slot_id f" and "V f = None"
  shows "GetField n D (addr D o') f d = Some d"
proof -
  obtain L where "table_at D o' L" "even f" "4 \<le> f"
    "placed D o' (V f) (L f)"
    by (rule table_vals_slot [OF assms(1,2)])
  with table_at_GetField_absent assms(3) show ?thesis by (auto simp: placed_def)
qed

lemma read_ref:
  assumes "table_vals D o' V" and "slot_id f" and "V f = Some (Ref p)"
  shows "GetPointer D (addr D o') f = Some (Some (addr D p))"
proof -
  obtain L where t: "table_at D o' L" "even f" "4 \<le> f"
    and L: "placed D o' (V f) (L f)"
    by (rule table_vals_slot [OF assms(1,2)])
  then obtain off where o: "L f = o' - off" "off < o'" and i: "item D off (le_bytes 4 (off - p))"
    and p: "p < off" "off < 2 ^ 31"
    using assms(3) by (auto simp: stored_def placed_def)
  have "off - p < 2 ^ 32" using p by simp
  with table_at_GetPointer [OF t o i] p show ?thesis by simp
qed

lemma read_null:
  assumes "table_vals D o' V" and "slot_id f" and "V f = None"
  shows "GetPointer D (addr D o') f = Some None"
proof -
  obtain L where "table_at D o' L" "even f" "4 \<le> f"
    "placed D o' (V f) (L f)"
    by (rule table_vals_slot [OF assms(1,2)])
  with table_at_GetPointer_absent assms(3) show ?thesis by (auto simp: placed_def)
qed

section \<open>Building a table\<close>

lemma StartTable_open:
  assumes "idle b"
  shows "\<exists>b'. StartTable b = Some (length (bdata b), b') \<and> table_open b' (length (bdata b)) Map.empty 0 \<and> ext b b' 0"
proof -
  from assms obtain vs where i: "bd_inv b vs []" "vtables vs (bdata b)"
    and n: "\<not> bd_nested b" "\<not> bd_force_defaults b" "\<not> bd_finished b"
    by (auto simp: idle_def)
  have "GetSize b = length (bdata b)" using i(1) by (simp add: GetSize_def bd_inv_def vd_size_contents)
  moreover have "NotNested b" using i(1) n by (simp add: NotNested_def bd_inv_def)
  moreover have "table_open (b\<lparr>bd_nested := True\<rparr>) (length (bdata b)) Map.empty 0"
    unfolding table_open_def
    using i n by (intro conjI exI [of _ vs] exI [of _ "[]"]) (auto simp: bd_inv_def open_fields_def)
  ultimately show ?thesis by (simp add: StartTable_def ext_def)
qed

text \<open>A new entry whose value has just been written at the front of the data.\<close>

lemma open_fields_add:
  assumes of: "open_fields b s V fls" and e: "bdata b' = pre @ bdata b" "bd_minalign b \<le> bd_minalign b'"
    and f: "slot_id f" "V f = None" and off: "s < off" "off \<le> length (bdata b')"
    and w: "stored (bdata b') off w" "sv_size w \<le> bd_minalign b'"
  shows "open_fields b' s (V(f \<mapsto> w)) (fls @ [(off, f)])"
proof -
  have nf: "f \<notin> snd ` set fls" using of f(2) by (auto simp: open_fields_def)
  have old: "slot_id g \<and> s < o1 \<and> o1 \<le> length (bdata b') \<and>
      (\<exists>u. (V(f \<mapsto> w)) g = Some u \<and> stored (bdata b') o1 u \<and> sv_size u \<le> bd_minalign b')"
    if "(o1, g) \<in> set fls" for o1 g
  proof -
    from of that obtain u where "slot_id g" "s < o1" "o1 \<le> length (bdata b)" "V g = Some u"
      "stored (bdata b) o1 u" "sv_size u \<le> bd_minalign b"
      by (auto simp: open_fields_def)
    moreover have "g \<noteq> f" using nf that by force
    ultimately show ?thesis using stored_prefix e by auto
  qed
  have d: "distinct (map snd fls)" "dom V = snd ` set fls" using of by (simp_all add: open_fields_def)
  show ?thesis
    unfolding open_fields_def
  proof (intro conjI ballI)
    fix z assume "z \<in> set (fls @ [(off, f)])"
    then have "z \<in> set fls \<or> z = (off, f)" by auto
    then show "case z of (off, f') \<Rightarrow> slot_id f' \<and> s < off \<and> off \<le> length (bdata b') \<and>
        (\<exists>u. (V(f \<mapsto> w)) f' = Some u \<and> stored (bdata b') off u \<and> sv_size u \<le> bd_minalign b')"
      using old f(1) off w by (cases z) (elim disjE; force)
  qed (use d nf in auto)
qed

lemma AddElement_open:
  assumes t: "table_open b s V k" and f: "slot_id f" "V f = None"
    and x: "x < 256 ^ sizeof_ty T"
  shows "table_open (AddElement T f x d b) s
      (if IsTheSameAs T x d then V else V(f \<mapsto> Scalar (sizeof_ty T) x)) (k + 15)"
    and "ext b (AddElement T f x d b) 15"
proof -
  define n where "n = sizeof_ty T"
  have n: "0 < n" "n \<le> 8" "pow2 n" by (simp_all add: n_def sizeof_ty_le_8)
  from t obtain vs fls where inv: "bd_inv b vs fls" and vts: "vtables vs (bdata b)" and of: "open_fields b s V fls"
    and c: "bd_nested b" "\<not> bd_force_defaults b" "\<not> bd_finished b" "s \<le> length (bdata b)" "length (bdata b) \<le> s + k"
    by (auto simp: table_open_def)
  obtain off b1 where p: "PushElement n x b = (off, b1)" by (cases "PushElement n x b")
  have v0: "vd_ok (bd_buf b)" using inv by (simp add: bd_inv_def)
  note ps = PushElement_spec [OF v0 n(1) p]
  define b2 where "b2 = TrackField f off b1"
  have inv1: "bd_inv b1 vs fls"
    using inv ps pow2_max [OF n(3), of "bd_minalign b"] by (simp add: bd_inv_def ctl_def)
  note tf = TrackField_spec [OF inv1, of f off, folded b2_def]
  have e: "bdata b2 = (le_bytes n x @ replicate (PaddingBytes (length (bdata b)) n) 0) @ bdata b"
    using tf(2) ps(2) by (simp add: pad_to_def)
  have pl: "PaddingBytes (length (bdata b)) n < n" by (rule PaddingBytes_less [OF n(3)])
  have off: "off = n + length (pad_to n (bdata b))" using ps(2,6) by simp
  have "off mod n = 0" using pad_to_mod [OF n(3), of "bdata b"] off by simp
  then have st: "stored (bdata b2) off (Scalar n x)"
    using x n off tf(2) ps(2) by (simp add: stored_def n_def item_front')
  have ex: "ext b b2 15"
    unfolding ext_def using e pl n tf(3-) ps(4,5)
    by (intro conjI exI [of _ "le_bytes n x @ replicate (PaddingBytes (length (bdata b)) n) 0"])
      (auto simp: ctl_def)
  have fields: "open_fields b2 s (V(f \<mapsto> Scalar n x)) (fls @ [(off, f)])"
    using off ps(2,5) tf(2,3) c(4) pad_to_ge [of "bdata b" n] n(1)
    by (intro open_fields_add [OF of e _ f _ _ st]) auto
  have vts2: "vtables vs (bdata b2)" unfolding e by (rule vtables_prefix [OF vts])
  have op: "table_open b2 s (V(f \<mapsto> Scalar n x)) (k + 15)"
    unfolding table_open_def
    using c e pl n tf ps(4) vts2 fields
    by (intro conjI exI [of _ vs] exI [of _ "fls @ [(off, f)]"]) (auto simp: ctl_def)
  have keep: "table_open b s V (k + 15)" using t by (auto simp: table_open_def)
  have "AddElement T f x d b = (if IsTheSameAs T x d then b else b2)"
    using c(2) p by (simp add: AddElement_def b2_def n_def)
  with op keep ex show "table_open (AddElement T f x d b) s
      (if IsTheSameAs T x d then V else V(f \<mapsto> Scalar (sizeof_ty T) x)) (k + 15)"
    "ext b (AddElement T f x d b) 15"
    by (simp_all add: n_def)
qed

text \<open>\<open>PushOffset\<close> and \<open>AddOffset\<close>: a reference to an earlier object.\<close>

lemma ReferTo_spec:
  assumes ok: "vd_ok (bd_buf b)" and p: "0 < p" "p \<le> length (bdata b)"
  shows "ReferTo p b = Some (length (pad_to 4 (bdata b)) - p + 4, Align 4 b)"
proof -
  note a = Align_spec [OF ok, of 4]
  have "GetSize (Align 4 b) = length (pad_to 4 (bdata b))"
    using a(1,2) by (simp add: GetSize_def vd_size_contents)
  moreover have "p \<le> length (pad_to 4 (bdata b))" using p pad_to_ge [of "bdata b" 4] by linarith
  ultimately show ?thesis using p by (simp add: ReferTo_def ReferTo_sized_def Let_def)
qed

lemma PushOffset_spec:
  assumes ok: "vd_ok (bd_buf b)" and p: "0 < p" "p \<le> length (bdata b)" and sm: "length (bdata b) + 7 < 2 ^ 31"
  shows "\<exists>off b'. PushOffset p b = Some (off, b') \<and> PushElement 4 (off - p) (Align 4 b) = (off, b') \<and>
     vd_ok (bd_buf b') \<and> bdata b' = le_bytes 4 (off - p) @ pad_to 4 (bdata b) \<and> bscr b' = bscr b \<and>
     ctl b b' \<and> bd_minalign b' = max 4 (bd_minalign b) \<and> off = 4 + length (pad_to 4 (bdata b)) \<and>
     stored (bdata b') off (Ref p)"
proof -
  define r where "r = length (pad_to 4 (bdata b)) - p + 4"
  note a = Align_spec [OF ok, of 4]
  obtain off b' where e: "PushElement 4 r (Align 4 b) = (off, b')" by (cases "PushElement 4 r (Align 4 b)")
  note ps = PushElement_spec [OF a(1) zero_less_numeral e]
  have m: "length (pad_to 4 (bdata b)) mod 4 = 0" "length (pad_to 4 (bdata b)) < length (bdata b) + 4"
    using pad_to_mod [of 4] pad_to_less [of 4] by simp_all
  have pp: "pad_to 4 (pad_to 4 (bdata b)) = pad_to 4 (bdata b)" using m(1) by (simp add: pad_to_aligned)
  have off: "off = 4 + length (pad_to 4 (bdata b))" using ps(2,6) a(2) pp by simp
  have rr: "r = off - p" using p pad_to_ge [of "bdata b" 4] by (simp add: r_def off)
  have "off mod 4 = 0" using m(1) off by simp
  then have "stored (bdata b') off (Ref p)"
    using p m sm off ps(2) a(2) pp rr pad_to_ge [of "bdata b" 4]
    by (simp add: stored_def item_front')
  moreover have "PushOffset p b = Some (off, b')"
    using ReferTo_spec [OF ok p, folded r_def] e by (simp add: PushOffset_def)
  moreover have "bdata b' = le_bytes 4 (off - p) @ pad_to 4 (bdata b)" using ps(2) a(2) pp rr by simp
  moreover have "ctl b b'" by (rule ctl_trans [OF a(4) ps(4)])
  moreover have "bd_minalign b' = max 4 (bd_minalign b)" "bscr b' = bscr b" using ps(3,5) a(3,5) by simp_all
  ultimately show ?thesis using e [unfolded rr] ps(1) off by (intro exI conjI) assumption+
qed

lemma AddElement_Ref:
  assumes "x \<noteq> 0"
  shows "AddElement U32 f x 0 b = (let (off, b1) = PushElement 4 x b in TrackField f off b1)"
  using assms by (simp add: AddElement_def)

lemma AddOffset_open:
  assumes t: "table_open b s V k" and f: "slot_id f" "V f = None"
    and p: "0 < p" "p \<le> length (bdata b)" and sm: "length (bdata b) + 7 < 2 ^ 31"
  shows "\<exists>b'. AddOffset f p b = Some b' \<and> table_open b' s (V(f \<mapsto> Ref p)) (k + 7) \<and> ext b b' 7"
proof -
  from t obtain vs fls where inv: "bd_inv b vs fls" and vts: "vtables vs (bdata b)" and of: "open_fields b s V fls"
    and c: "bd_nested b" "\<not> bd_force_defaults b" "\<not> bd_finished b" "s \<le> length (bdata b)" "length (bdata b) \<le> s + k"
    by (auto simp: table_open_def)
  have v0: "vd_ok (bd_buf b)" using inv by (simp add: bd_inv_def)
  from PushOffset_spec [OF v0 p sm] obtain off b1 where
    push: "PushElement 4 (off - p) (Align 4 b) = (off, b1)" "PushOffset p b = Some (off, b1)"
    and b1: "vd_ok (bd_buf b1)" "bdata b1 = le_bytes 4 (off - p) @ pad_to 4 (bdata b)" "bscr b1 = bscr b"
    "ctl b b1" "bd_minalign b1 = max 4 (bd_minalign b)" and off: "off = 4 + length (pad_to 4 (bdata b))"
    and st: "stored (bdata b1) off (Ref p)" by blast
  define b2 where "b2 = TrackField f off b1"
  have inv1: "bd_inv b1 vs fls"
    using inv b1 pow2_max [of 4 "bd_minalign b"] by (simp add: bd_inv_def ctl_def)
  note tf = TrackField_spec [OF inv1, of f off, folded b2_def]
  have e: "bdata b2 = (le_bytes 4 (off - p) @ replicate (PaddingBytes (length (bdata b)) 4) 0) @ bdata b"
    using tf(2) b1(2) by (simp add: pad_to_def)
  have pl: "PaddingBytes (length (bdata b)) 4 < 4" by (rule PaddingBytes_less) simp
  have st2: "stored (bdata b2) off (Ref p)" using st tf(2) by simp
  have ex: "ext b b2 7"
    unfolding ext_def using e pl tf(3-) b1(4,5)
    by (intro conjI exI [of _ "le_bytes 4 (off - p) @ replicate (PaddingBytes (length (bdata b)) 4) 0"])
      (auto simp: ctl_def)
  have fields: "open_fields b2 s (V(f \<mapsto> Ref p)) (fls @ [(off, f)])"
    using off b1(2,5) tf(2,3) c(4) pad_to_ge [of "bdata b" 4]
    by (intro open_fields_add [OF of e _ f _ _ st2]) auto
  have vts2: "vtables vs (bdata b2)" unfolding e by (rule vtables_prefix [OF vts])
  have op: "table_open b2 s (V(f \<mapsto> Ref p)) (k + 7)"
    unfolding table_open_def
    using c e pl tf b1(4) vts2 fields
    by (intro conjI exI [of _ vs] exI [of _ "fls @ [(off, f)]"]) (auto simp: ctl_def)
  have ne: "off - p \<noteq> 0" using st by (simp add: stored_def)
  have r: "length (pad_to 4 (bdata b)) - p + 4 = off - p" using off p pad_to_ge [of "bdata b" 4] by simp
  have "AddOffset f p b = Some b2"
    using ReferTo_spec [OF v0 p] p push ne r
    by (simp add: AddOffset_def IsNull_def AddElement_Ref [OF ne] b2_def)
  with op ex show ?thesis by blast
qed

lemma AddOffset_null: "AddOffset f 0 b = Some b"
  by (simp add: AddOffset_def IsNull_def)

section \<open>Finishing a table\<close>

lemma fields_ok_open:
  assumes "open_fields b s V fls"
  shows "fields_ok (max_field fls + 2) fls" and "max_field fls \<le> 252"
proof -
  show "fields_ok (max_field fls + 2) fls"
    using assms max_field_bound by (fastforce simp: fields_ok_def open_fields_def slot_id_def)
  show "max_field fls \<le> 252"
    using assms max_field_in [of fls] by (auto simp: open_fields_def slot_id_def)
qed

lemma placed_fields:
  assumes of: "open_fields b s V fls" and o': "length (bdata b) < o'"
  shows "placed (bdata b) o' (V f) (field_pos o' fls f)"
proof -
  have d: "distinct (map snd fls)" "dom V = snd ` set fls" using of by (simp_all add: open_fields_def)
  show ?thesis
  proof (cases "V f")
    case None
    then have "f \<notin> snd ` set fls" using d(2) by auto
    then have "map_of (map (\<lambda>(off, g). (g, off)) fls) f = None"
      by (force simp: map_of_eq_None_iff image_iff split: prod.splits)
    with None show ?thesis by (simp add: placed_def field_pos_def)
  next
    case (Some w)
    then obtain off where m: "(off, f) \<in> set fls" using d(2) by (force simp: dom_def)
    with of Some have "off \<le> length (bdata b)" "stored (bdata b) off w"
      by (auto simp: open_fields_def)
    moreover have "map_of (map (\<lambda>(off, g). (g, off)) fls) f = Some off" using map_of_swap [OF d(1)] m by blast
    ultimately show ?thesis using Some o' by (auto simp: placed_def field_pos_def)
  qed
qed

lemma EndTable_open:
  assumes t: "table_open b s V k" and k: "k + 7 < 2 ^ 16" and sm: "length (bdata b) + 7 + 2 ^ 16 < 2 ^ 31"
  shows "\<exists>o' b'. EndTable s b = Some (o', b') \<and> idle b' \<and> ext b b' 261 \<and> table_vals (bdata b') o' V \<and>
     length (bdata b) < o' \<and> o' \<le> length (bdata b') \<and> 4 \<le> bd_minalign b' \<and>
     (\<forall>f w. V f = Some w \<longrightarrow> sv_size w \<le> bd_minalign b')"
proof -
  from t obtain vs fls where inv: "bd_inv b vs fls" and vts: "vtables vs (bdata b)" and of: "open_fields b s V fls"
    and c: "bd_nested b" "\<not> bd_force_defaults b" "\<not> bd_finished b" "s \<le> length (bdata b)" "length (bdata b) \<le> s + k"
    by (auto simp: table_open_def)
  note fo = fields_ok_open [OF of]
  have mf: "max_field fls + 2 < 2 ^ 16" using fo(2) by simp
  have st: "length (bdata b) + 7 < s + 2 ^ 16" using c(5) k by linarith
  have offs: "\<forall>(off, f)\<in>set fls. s < off \<and> off \<le> length (bdata b)" using of by (auto simp: open_fields_def)
  obtain o' b' vs' where e: "EndTable s b = Some (o', b')" and i: "bd_inv b' vs' []" "vtables vs' (bdata b')"
    "\<not> bd_nested b'" and x: "ext b b' (7 + max 4 (max_field fls + 2))" and ta: "table_at (bdata b') o' (field_pos o' fls)"
    and o': "o' mod 4 = 0" "length (bdata b) < o'" "4 \<le> bd_minalign b'"
    using EndTable_spec [OF inv c(1) vts fo(1) mf c(4) st offs sm]
    by (elim exE conjE) (rule that; assumption)
  have x': "ext b b' 261" using ext_mono [OF x] fo(2) by simp
  have id: "idle b'" using i x c(2,3) by (auto simp: idle_def ext_def)
  obtain pre where pre: "bdata b' = pre @ bdata b" using x by (auto simp: ext_def)
  have pl: "placed (bdata b') o' (V f) (field_pos o' fls f)" for f
    using placed_prefix [OF placed_fields [OF of o'(2)]] pre by simp
  have tv: "table_vals (bdata b') o' V"
    unfolding table_vals_def using ta pl o'(1) by (intro conjI exI [of _ "field_pos o' fls"]) auto
  have sz: "sv_size w \<le> bd_minalign b'" if "V f = Some w" for f w
  proof -
    have "f \<in> snd ` set fls" using of that by (auto simp: open_fields_def)
    then have "sv_size w \<le> bd_minalign b" using of that by (auto simp: open_fields_def)
    then show ?thesis using x by (simp add: ext_def)
  qed
  show ?thesis
    using e id x' tv o' sz table_at_len [OF ta] by (intro exI [of _ o'] exI [of _ b'] conjI) auto
qed

section \<open>Vectors\<close>

text \<open>
  \<open>touched b b' m\<close>: \<open>b'\<close> is \<open>b\<close> with bytes prepended and the alignment raised to at least \<open>m\<close>; the
  scratch pad and the control state are the same.
\<close>

definition touched :: "builder \<Rightarrow> builder \<Rightarrow> nat \<Rightarrow> bool" where
  "touched b b' n \<longleftrightarrow> vd_ok (bd_buf b') \<and> (\<exists>pre. bdata b' = pre @ bdata b \<and> length pre \<le> n) \<and>
     bscr b' = bscr b \<and> ctl b b' \<and> bd_minalign b \<le> bd_minalign b' \<and>
     bd_minalign b' \<le> max 8 (bd_minalign b) \<and> pow2 (bd_minalign b')"

lemma touched_trans:
  assumes "touched a b m" and "touched b c n"
  shows "touched a c (m + n)"
proof -
  from assms obtain p q where "bdata b = p @ bdata a" "length p \<le> m" "bdata c = q @ bdata b" "length q \<le> n"
    by (auto simp: touched_def)
  then have "\<exists>pre. bdata c = pre @ bdata a \<and> length pre \<le> m + n" by (intro exI [of _ "q @ p"]) simp
  with assms show ?thesis by (auto simp: touched_def intro: ctl_trans)
qed

lemma touched_refl: "vd_ok (bd_buf b) \<Longrightarrow> pow2 (bd_minalign b) \<Longrightarrow> touched b b n"
  by (simp add: touched_def ctl_def)

lemma touched_mono: "touched a b m \<Longrightarrow> m \<le> n \<Longrightarrow> touched a b n"
  by (fastforce simp: touched_def)

lemma touched_stored: "touched b b' n \<Longrightarrow> stored (bdata b) off w \<Longrightarrow> stored (bdata b') off w"
  by (auto simp: touched_def stored_prefix)

lemma touched_length: "touched b b' n \<Longrightarrow> length (bdata b) \<le> length (bdata b') \<and> length (bdata b') \<le> length (bdata b) + n"
  by (auto simp: touched_def)

lemma PushElement_touched:
  assumes "vd_ok (bd_buf b)" "pow2 (bd_minalign b)" "pow2 n" "PushElement n x b = (off, b')"
    and n8: "n \<le> 8"
  shows "touched b b' (2 * n)"
proof -
  note ps = PushElement_spec [OF assms(1) pow2_pos [OF assms(3)] assms(4)]
  have "PaddingBytes (length (bdata b)) n < n" by (rule PaddingBytes_less [OF assms(3)])
  then show ?thesis
    using ps n8 pow2_max [OF assms(3,2)] unfolding touched_def
    by (intro conjI exI [of _ "le_bytes n x @ replicate (PaddingBytes (length (bdata b)) n) 0"])
      (auto simp: pad_to_def)
qed

lemma four_le_max: "(4::nat) \<le> max 8 n"
  by simp

lemma PreAlign_touched:
  assumes "vd_ok (bd_buf b)" "pow2 (bd_minalign b)" "pow2 n" and n8: "n \<le> max 8 (bd_minalign b)"
  shows "touched b (PreAlign len n b) n" and "len \<noteq> 0 \<Longrightarrow> (length (bdata (PreAlign len n b)) + len) mod n = 0"
    and "len \<noteq> 0 \<Longrightarrow> n \<le> bd_minalign (PreAlign len n b)"
    and "(length (bdata b) + len) mod n = 0 \<Longrightarrow> bdata (PreAlign len n b) = bdata b"
proof -
  have sz: "GetSize (TrackMinAlign n b) = length (bdata b)"
    using vd_size_contents [OF assms(1)] by (simp add: GetSize_def TrackMinAlign_def)
  define k where "k = PaddingBytes (length (bdata b) + len) n"
  have k: "k < n" using PaddingBytes_less [OF assms(3)] by (simp add: k_def)
  have eq: "len \<noteq> 0 \<Longrightarrow> bdata (PreAlign len n b) = replicate k 0 @ bdata b"
    "len \<noteq> 0 \<Longrightarrow> vd_ok (bd_buf (PreAlign len n b))" "len \<noteq> 0 \<Longrightarrow> bscr (PreAlign len n b) = bscr b"
    "bd_minalign (PreAlign len n b) = (if len = 0 then bd_minalign b else max n (bd_minalign b))"
    "ctl b (PreAlign len n b)"
    using fill_spec [OF assms(1), of k] sz
    by (simp_all add: PreAlign_def k_def Let_def TrackMinAlign_def ctl_def)
  show "touched b (PreAlign len n b) n"
  proof (cases "len = 0")
    case True
    then show ?thesis using touched_refl [OF assms(1,2)] by (simp add: PreAlign_def)
  next
    case False
    then show ?thesis using eq k n8 pow2_max [OF assms(3,2)] by (auto simp: touched_def)
  qed
  show "len \<noteq> 0 \<Longrightarrow> (length (bdata (PreAlign len n b)) + len) mod n = 0"
    using eq(1) PaddingBytes_aligns [OF assms(3), of "length (bdata b) + len"] by (simp add: k_def ac_simps)
  show "len \<noteq> 0 \<Longrightarrow> n \<le> bd_minalign (PreAlign len n b)" using eq(4) by simp
  show "bdata (PreAlign len n b) = bdata b" if "(length (bdata b) + len) mod n = 0"
  proof (cases "len = 0")
    case False
    then show ?thesis using eq(1) PaddingBytes_aligned [OF assms(3) that] by (simp add: k_def)
  qed (simp add: PreAlign_def)
qed

text \<open>A vector opened between objects, and closed into an idle builder again.\<close>

lemma StartVector_touched:
  assumes "idle b"
  shows "\<exists>b1. StartVector n es 4 b = Some b1 \<and> touched (b\<lparr>bd_nested := True\<rparr>) b1 8 \<and>
     (n * es \<noteq> 0 \<longrightarrow> (length (bdata b1) + n * es) mod 4 = 0)"
proof -
  define b0 where "b0 = b\<lparr>bd_nested := True\<rparr>"
  define b1 where "b1 = PreAlign (n * es) 4 b0"
  define b2 where "b2 = PreAlign (n * es) 4 b1"
  have p: "vd_ok (bd_buf b0)" "pow2 (bd_minalign b0)" and nn: "NotNested b"
    using assms by (auto simp: idle_def bd_inv_def b0_def NotNested_def)
  note A = PreAlign_touched [OF p pow2_consts(4) four_le_max, of "n * es", folded b1_def]
  have p1: "vd_ok (bd_buf b1)" "pow2 (bd_minalign b1)" using A(1) by (simp_all add: touched_def)
  note B = PreAlign_touched [OF p1 pow2_consts(4) four_le_max, of "n * es", folded b2_def]
  have "touched b0 b2 8" using touched_trans [OF A(1) B(1)] by simp
  moreover have "StartVector n es 4 b = Some b2" using nn by (simp add: StartVector_def b0_def b1_def b2_def)
  ultimately show ?thesis using B(2) by (auto simp: b0_def)
qed

lemma EndVector_idle:
  assumes i: "idle b" and t: "touched (b\<lparr>bd_nested := True\<rparr>) b1 k"
  shows "\<exists>o' b'. EndVector n b1 = Some (o', b') \<and> idle b' \<and> ext b b' (k + 8) \<and>
     o' = length (bdata b') \<and> o' mod 4 = 0 \<and> 4 \<le> bd_minalign b' \<and>
     bdata b' = le_bytes 4 n @ pad_to 4 (bdata b1)"
proof -
  define b2 where "b2 = b1\<lparr>bd_nested := False\<rparr>"
  obtain o' b' where p: "PushElement 4 n b2 = (o', b')" by (cases "PushElement 4 n b2")
  have v: "vd_ok (bd_buf b2)" "pow2 (bd_minalign b2)" using t by (simp_all add: touched_def b2_def)
  note ps = PushElement_spec [OF v(1) zero_less_numeral p]
  have tt: "touched b2 b' 8" using PushElement_touched [OF v pow2_consts(4) p] by simp
  from i obtain vs where vs: "bd_inv b vs []" "vtables vs (bdata b)"
    and nf: "\<not> bd_nested b" "\<not> bd_force_defaults b" "\<not> bd_finished b" by (auto simp: idle_def)
  obtain pre1 where pre1: "bdata b1 = pre1 @ bdata b" "length pre1 \<le> k"
    using t by (auto simp: touched_def)
  obtain pre2 where pre2: "bdata b' = pre2 @ bdata b1" "length pre2 \<le> 8"
    using tt by (auto simp: touched_def b2_def)
  have dat: "bdata b' = (pre2 @ pre1) @ bdata b" "length (pre2 @ pre1) \<le> k + 8" using pre1 pre2 by simp_all
  have same: "bd_nested b' = False" "bd_finished b' = bd_finished b" "bd_force_defaults b' = bd_force_defaults b"
    "bd_num_field_loc b' = bd_num_field_loc b" "bd_max_voffset b' = bd_max_voffset b" "bscr b' = bscr b"
    "bd_minalign b \<le> bd_minalign b'" "bd_minalign b' \<le> max 8 (bd_minalign b)"
    "pow2 (bd_minalign b')" "vd_ok (bd_buf b')"
    using t tt by (auto simp: touched_def ctl_def b2_def)
  have "vtables vs (bdata b')" unfolding dat(1) by (rule vtables_prefix [OF vs(2)])
  then have "idle b'" unfolding idle_def using vs(1) same nf by (auto simp: bd_inv_def)
  moreover have "ext b b' (k + 8)" unfolding ext_def using dat same by auto
  moreover have "EndVector n b1 = Some (o', b')"
    using p t by (simp add: EndVector_def b2_def touched_def ctl_def)
  moreover have "bdata b' = le_bytes 4 n @ pad_to 4 (bdata b1)" using ps(2) by (simp add: b2_def)
  moreover have "o' = length (bdata b')" "4 \<le> bd_minalign b'" using ps(5,6) by simp_all
  moreover have "o' mod 4 = 0" using ps(2,6) pad_to_mod [of 4 "bdata b2"] by simp
  ultimately show ?thesis by (intro exI conjI) assumption+
qed

text \<open>A vector of structs and a vector of references, as they stand in the data.\<close>

definition struct_vec :: "buffer \<Rightarrow> nat \<Rightarrow> nat \<Rightarrow> byte list list \<Rightarrow> bool" where
  "struct_vec D o' es v \<longleftrightarrow> o' mod 4 = 0 \<and> length v < 2 ^ 32 \<and> (\<forall>x\<in>set v. length x = es) \<and>
     item D o' (le_bytes 4 (length v) @ concat v)"

definition ref_vec :: "buffer \<Rightarrow> nat \<Rightarrow> nat list \<Rightarrow> bool" where
  "ref_vec D o' ps \<longleftrightarrow> o' mod 4 = 0 \<and> 4 + 4 * length ps \<le> o' \<and> o' < 2 ^ 31 \<and> item D o' (le_bytes 4 (length ps)) \<and>
     (\<forall>i<length ps. stored D (o' - 4 - 4 * i) (Ref (ps ! i)))"

lemma struct_vec_prefix: "struct_vec D o' es v \<Longrightarrow> struct_vec (pre @ D) o' es v"
  by (simp add: struct_vec_def item_prefix)

lemma ref_vec_prefix: "ref_vec D o' ps \<Longrightarrow> ref_vec (pre @ D) o' ps"
  by (simp add: ref_vec_def item_prefix stored_prefix)

lemma ext_struct_vec: "ext b b' n \<Longrightarrow> struct_vec (bdata b) o' es v \<Longrightarrow> struct_vec (bdata b') o' es v"
  by (auto simp: ext_def struct_vec_prefix)

lemma ext_ref_vec: "ext b b' n \<Longrightarrow> ref_vec (bdata b) o' ps \<Longrightarrow> ref_vec (bdata b') o' ps"
  by (auto simp: ext_def ref_vec_prefix)

lemma read_struct_vec_size: "struct_vec D o' es v \<Longrightarrow> vec_size D (addr D o') = Some (length v)"
  unfolding struct_vec_def vec_size_def
  by (elim conjE, drule item_append(1)) (rule item_ReadScalar, auto)

lemma take_concat_nth:
  assumes "\<forall>x\<in>set v. length x = es" and "i < length v"
  shows "take es (drop (es * i) (concat v)) = v ! i"
  using assms
proof (induction v arbitrary: i)
  case Nil
  then show ?case by simp
next
  case (Cons x v)
  then show ?case by (cases i) (auto simp: add.commute)
qed

lemma read_struct_vec_elem:
  assumes s: "struct_vec D o' es v" and i: "i < length v" and k: "k + n \<le> es"
  shows "peek D (Get_struct es (addr D o') i + int k) n = Some (take n (drop k (v ! i)))"
proof -
  have l: "\<forall>x\<in>set v. length x = es" and it: "item D o' (le_bytes 4 (length v) @ concat v)"
    using s by (simp_all add: struct_vec_def)
  have lc: "length (concat v) = es * length v" by (rule length_concat_same [OF l])
  have "i * es + es \<le> length v * es" using i by (metis mult_le_mono1 Suc_leI mult_Suc add.commute)
  then have "(4 + i * es + k) + n \<le> length (le_bytes 4 (length v) @ concat v)"
    using k lc by (simp add: mult.commute)
  from item_peek [OF it this]
  have "peek D (addr D o' + int (4 + i * es + k)) n =
      Some (take n (drop (4 + i * es + k) (le_bytes 4 (length v) @ concat v)))" .
  moreover have "take n (drop (4 + i * es + k) (le_bytes 4 (length v) @ concat v)) =
      take n (drop k (take es (drop (es * i) (concat v))))"
    using k by (simp add: drop_take min_def mult.commute add.commute)
  ultimately show ?thesis
    using take_concat_nth [OF l i] by (simp add: Get_struct_def Read_struct_def vec_Data_def ac_simps)
qed

lemma read_ref_vec_size: "ref_vec D o' ps \<Longrightarrow> vec_size D (addr D o') = Some (length ps)"
  unfolding ref_vec_def vec_size_def by (elim conjE, rule item_ReadScalar) auto

lemma read_ref_vec_elem:
  assumes r: "ref_vec D o' ps" and i: "i < length ps"
  shows "Get_table D (addr D o') i = Some (addr D (ps ! i))"
proof -
  have b: "4 + 4 * length ps \<le> o'" and st: "stored D (o' - 4 - 4 * i) (Ref (ps ! i))"
    using r i by (auto simp: ref_vec_def)
  define off where "off = o' - 4 - 4 * i"
  have off: "int off = int o' - 4 - 4 * int i" using b i by (simp add: off_def)
  have p: "0 < ps ! i" "ps ! i < off" "off < 2 ^ 31" and it: "item D off (le_bytes 4 (off - ps ! i))"
    using st by (auto simp: stored_def off_def)
  have "off - ps ! i < 256 ^ 4" using p by simp
  from item_ReadScalar [OF it this] have "ReadScalar 4 D (addr D off) = Some (off - ps ! i)" .
  then show ?thesis
    using off p by (simp add: Get_table_def Read_offset_def vec_Data_def Let_def algebra_simps)
qed

lemma CreateVectorOfStructs_idle:
  assumes i: "idle b" and l: "\<forall>x\<in>set v. length x = es" and es: "0 < es" and n: "length v < 2 ^ 32"
  shows "\<exists>o' b'. CreateVectorOfStructs es 4 v b = Some (o', b') \<and> idle b' \<and> ext b b' (es * length v + 16) \<and>
     struct_vec (bdata b') o' es v \<and> o' \<le> length (bdata b') \<and> 0 < o' \<and> 4 \<le> bd_minalign b'"
proof -
  obtain b1 where b1: "StartVector (length v) es 4 b = Some b1" "touched (b\<lparr>bd_nested := True\<rparr>) b1 8"
    and al: "length v * es \<noteq> 0 \<Longrightarrow> (length (bdata b1) + length v * es) mod 4 = 0"
    using StartVector_touched [OF i, of "length v" es] by (elim exE conjE) (rule that; simp)
  have lc: "length (concat v) = es * length v" by (rule length_concat_same [OF l])
  define b2 where "b2 = (if length v > 0 then PushBytes (concat v) b1 else b1)"
  have v1: "vd_ok (bd_buf b1)" "pow2 (bd_minalign b1)" using b1(2) by (simp_all add: touched_def)
  have d2: "bdata b2 = concat v @ bdata b1" using push_spec [OF v1(1)] by (simp add: b2_def PushBytes_def)
  have "touched b1 b2 (es * length v)"
    using push_spec [OF v1(1)] v1 lc touched_refl [OF v1] unfolding touched_def
    by (auto simp: b2_def PushBytes_def ctl_def)
  from touched_trans [OF b1(2) this] have t2: "touched (b\<lparr>bd_nested := True\<rparr>) b2 (8 + es * length v)" .
  obtain o' b' where e: "EndVector (length v) b2 = Some (o', b')" "idle b'" "ext b b' (8 + es * length v + 8)"
    "o' = length (bdata b')" "o' mod 4 = 0" "4 \<le> bd_minalign b'"
    "bdata b' = le_bytes 4 (length v) @ pad_to 4 (bdata b2)"
    using EndVector_idle [OF i t2, of "length v"] by (elim exE conjE) (rule that; assumption)
  have "item (bdata b') o' (le_bytes 4 (length v) @ concat v)"
  proof (cases "v = []")
    case True
    then show ?thesis using e(4,7) by (simp add: item_front')
  next
    case False
    then have "length (bdata b2) mod 4 = 0" using al es lc d2 by (simp add: ac_simps)
    then have "bdata b' = (le_bytes 4 (length v) @ concat v) @ bdata b1"
      using e(7) d2 by (simp add: pad_to_aligned)
    then show ?thesis using e(4) by (metis item_front length_append)
  qed
  then have "struct_vec (bdata b') o' es v" using l n e(5) by (simp add: struct_vec_def)
  moreover have "CreateVectorOfStructs es 4 v b = Some (o', b')"
    using b1(1) e(1) by (simp add: CreateVectorOfStructs_def b2_def)
  moreover have "ext b b' (es * length v + 16)" by (rule ext_mono [OF e(3)]) simp
  moreover have "0 < o'" using e(4,7) by simp
  ultimately show ?thesis using e(2,4,6) by auto
qed

lemma push_offsets_spec:
  assumes "vd_ok (bd_buf b)" "pow2 (bd_minalign b)" "length (bdata b) mod 4 = 0"
    and "\<forall>p\<in>set ps. 0 < p \<and> p \<le> length (bdata b)" and "length (bdata b) + 4 * length ps + 7 < 2 ^ 31"
  shows "\<exists>b'. push_offsets ps b = Some b' \<and> touched b b' (4 * length ps) \<and>
     length (bdata b') = length (bdata b) + 4 * length ps \<and>
     (\<forall>i<length ps. stored (bdata b') (length (bdata b') - 4 * i) (Ref (ps ! i)))"
  using assms(4,5)
proof (induction ps)
  case Nil
  then show ?case using touched_refl [OF assms(1,2)] by simp
next
  case (Cons p ps)
  then obtain b1 where b1: "push_offsets ps b = Some b1" "touched b b1 (4 * length ps)"
    "length (bdata b1) = length (bdata b) + 4 * length ps"
    "\<forall>i<length ps. stored (bdata b1) (length (bdata b1) - 4 * i) (Ref (ps ! i))" by auto
  have v1: "vd_ok (bd_buf b1)" "pow2 (bd_minalign b1)" using b1(2) by (simp_all add: touched_def)
  have m4: "length (bdata b1) mod 4 = 0" using b1(3) assms(3) by simp
  have p: "0 < p" "p \<le> length (bdata b1)" "length (bdata b1) + 7 < 2 ^ 31" using Cons.prems b1(3) by auto
  obtain off b2 where b2: "PushOffset p b1 = Some (off, b2)" "PushElement 4 (off - p) (Align 4 b1) = (off, b2)"
    "vd_ok (bd_buf b2)" "bdata b2 = le_bytes 4 (off - p) @ pad_to 4 (bdata b1)" "bscr b2 = bscr b1" "ctl b1 b2"
    "bd_minalign b2 = max 4 (bd_minalign b1)" "off = 4 + length (pad_to 4 (bdata b1))" "stored (bdata b2) off (Ref p)"
    using PushOffset_spec [OF v1(1) p] by (elim exE conjE) (rule that; assumption)
  have d2: "bdata b2 = le_bytes 4 (off - p) @ bdata b1" "off = length (bdata b2)"
    using b2(4,8) m4 by (simp_all add: pad_to_aligned)
  have t12: "touched b1 b2 4"
    unfolding touched_def using b2 d2(1) v1 pow2_max [of 4 "bd_minalign b1"] by auto
  have "stored (bdata b2) (length (bdata b2) - 4 * i) (Ref ((p # ps) ! i))" if "i < Suc (length ps)" for i
  proof (cases i)
    case 0
    then show ?thesis using b2(9) d2(2) by simp
  next
    case (Suc j)
    then have "stored (bdata b1) (length (bdata b1) - 4 * j) (Ref (ps ! j))" using b1(4) that by simp
    from touched_stored [OF t12 this] show ?thesis using Suc d2(1) by simp
  qed
  moreover have "touched b b2 (4 * length (p # ps))" using touched_trans [OF b1(2) t12] by (simp add: add.commute)
  ultimately show ?case using b1(1,3) b2(1) d2(1) by (intro exI [of _ b2]) auto
qed

lemma CreateVector_offsets_idle:
  assumes i: "idle b" and p: "\<forall>p\<in>set ps. 0 < p \<and> p \<le> length (bdata b)"
    and sm: "length (bdata b) + 4 * length ps + 23 < 2 ^ 31"
  shows "\<exists>o' b'. CreateVector_offsets ps b = Some (o', b') \<and> idle b' \<and> ext b b' (4 * length ps + 16) \<and>
     ref_vec (bdata b') o' ps \<and> o' \<le> length (bdata b') \<and> 0 < o' \<and> 4 \<le> bd_minalign b'"
proof -
  obtain b1 where b1: "StartVector (length ps) 4 4 b = Some b1" "touched (b\<lparr>bd_nested := True\<rparr>) b1 8"
    and al: "length ps * 4 \<noteq> 0 \<Longrightarrow> (length (bdata b1) + length ps * 4) mod 4 = 0"
    using StartVector_touched [OF i, of "length ps" 4] by (elim exE conjE) (rule that; simp)
  have v1: "vd_ok (bd_buf b1)" "pow2 (bd_minalign b1)" using b1(2) by (simp_all add: touched_def)
  have l1: "length (bdata b) \<le> length (bdata b1)" "length (bdata b1) \<le> length (bdata b) + 8"
    using touched_length [OF b1(2)] by simp_all
  have "\<exists>b2. push_offsets ps b1 = Some b2 \<and> touched b1 b2 (4 * length ps) \<and>
     length (bdata b2) = length (bdata b1) + 4 * length ps \<and>
     (\<forall>i<length ps. stored (bdata b2) (length (bdata b2) - 4 * i) (Ref (ps ! i)))"
  proof (cases "ps = []")
    case True
    then show ?thesis using touched_refl [OF v1] by simp
  next
    case False
    then show ?thesis using p l1 sm al by (intro push_offsets_spec [OF v1]) force+
  qed
  then obtain b2 where b2: "push_offsets ps b1 = Some b2" "touched b1 b2 (4 * length ps)"
    "length (bdata b2) = length (bdata b1) + 4 * length ps"
    "\<forall>i<length ps. stored (bdata b2) (length (bdata b2) - 4 * i) (Ref (ps ! i))" by blast
  obtain o' b' where e: "EndVector (length ps) b2 = Some (o', b')" "idle b'" "ext b b' (8 + 4 * length ps + 8)"
    "o' = length (bdata b')" "o' mod 4 = 0" "4 \<le> bd_minalign b'"
    "bdata b' = le_bytes 4 (length ps) @ pad_to 4 (bdata b2)"
    using EndVector_idle [OF i touched_trans [OF b1(2) b2(2)], of "length ps"]
    by (elim exE conjE) (rule that; assumption)
  have el: "stored (bdata b') (o' - 4 - 4 * i) (Ref (ps ! i))" if "i < length ps" for i
  proof -
    have "length (bdata b2) mod 4 = 0" using al that b2(3) by (cases ps) (auto simp: mult.commute)
    then have d: "bdata b' = le_bytes 4 (length ps) @ bdata b2" using e(7) by (simp add: pad_to_aligned)
    then have "o' - 4 - 4 * i = length (bdata b2) - 4 * i" using e(4) by simp
    with b2(4) that d show ?thesis by (simp add: stored_prefix)
  qed
  have "item (bdata b') o' (le_bytes 4 (length ps))" using e(4,7) by (simp add: item_front')
  moreover have "4 + 4 * length ps \<le> o'" using e(4,7) b2(3) pad_to_ge [of "bdata b2" 4] by simp
  moreover have "o' < 2 ^ 31" using ext_length [OF e(3)] e(4) sm by simp
  ultimately have "ref_vec (bdata b') o' ps" using el e(5) by (simp add: ref_vec_def)
  moreover have "CreateVector_offsets ps b = Some (o', b')"
    using b1(1) b2(1) e(1) by (simp add: CreateVector_offsets_def)
  moreover have "ext b b' (4 * length ps + 16)" by (rule ext_mono [OF e(3)]) simp
  moreover have "0 < o'" using e(4,7) by simp
  ultimately show ?thesis using e(2,4,6) by auto
qed

section \<open>Finishing a buffer\<close>

text \<open>
  The finished bytes have a length that is a multiple of the largest alignment used, so an object
  whose offset is aligned has an aligned address, and their root pointer leads to the root.
\<close>

definition finished_buf :: "builder \<Rightarrow> nat \<Rightarrow> buffer \<Rightarrow> bool" where
  "finished_buf b root D \<longleftrightarrow> (\<exists>pre. D = pre @ bdata b \<and> 4 \<le> length pre \<and> length pre \<le> bd_minalign b + 4) \<and>
     length D mod bd_minalign b = 0 \<and> GetRoot D = Some (addr D root) \<and> length D < 2 ^ 31"

lemma pow2_dvd: "pow2 a \<Longrightarrow> pow2 b \<Longrightarrow> a \<le> b \<Longrightarrow> a dvd b"
  by (auto simp: pow2_def le_imp_power_dvd)

lemma bd_Finish_spec:
  assumes i: "idle b" and r: "0 < root" "root \<le> length (bdata b)" and m: "4 \<le> bd_minalign b"
    and sm: "length (bdata b) + bd_minalign b + 4 < 2 ^ 31"
  shows "\<exists>b' D. bd_Finish root None False b = Some b' \<and> GetBufferPointer b' = Some D \<and> finished_buf b root D"
proof -
  define M where "M = bd_minalign b"
  define b1 where "b1 = on_buf clear_scratch b"
  have inv: "vd_ok (bd_buf b)" "pow2 M" "NotNested b" "\<not> bd_finished b"
    using i by (auto simp: idle_def bd_inv_def NotNested_def M_def)
  have b1: "vd_ok (bd_buf b1)" "bdata b1 = bdata b" "bd_minalign b1 = M"
    using clear_scratch_spec [OF inv(1)] by (simp_all add: b1_def M_def)
  define b3 where "b3 = PreAlign 4 M b1"
  have M1: "pow2 (bd_minalign b1)" "pow2 M" using b1(3) inv(2) by simp_all
  have M8: "M \<le> max 8 (bd_minalign b1)" using b1(3) by simp
  note pa = PreAlign_touched [OF b1(1) M1 M8, of 4, folded b3_def]
  have v3: "vd_ok (bd_buf b3)" using pa(1) by (simp add: touched_def)
  obtain pre where pre: "bdata b3 = pre @ bdata b" "length pre \<le> M"
    using pa(1) b1(2) by (auto simp: touched_def)
  have al: "(length (bdata b3) + 4) mod M = 0" using pa(2) by simp
  have "4 dvd M" using pow2_dvd [of 4 M] inv(2) m by (simp add: M_def)
  then have "(length (bdata b3) + 4) mod 4 = 0" using al by (meson dvd_trans mod_0_imp_dvd dvd_imp_mod_0)
  then have a4: "length (bdata b3) mod 4 = 0" by presburger
  have rr: "0 < root" "root \<le> length (bdata b3)" using r pre(1) by simp_all
  have sm3: "length (bdata b3) + 7 < 2 ^ 31 \<or> length (bdata b3) + 4 < 2 ^ 31"
    using sm pre by (simp add: M_def)
  define off where "off = 4 + length (bdata b3)"
  define b5 where "b5 = snd (PushElement 4 (off - root) (Align 4 b3))"
  have rf: "ReferTo root b3 = Some (off - root, Align 4 b3)"
    using ReferTo_spec [OF v3 rr] a4 rr by (simp add: pad_to_aligned off_def)
  obtain o5 where p5: "PushElement 4 (off - root) (Align 4 b3) = (o5, b5)"
    by (cases "PushElement 4 (off - root) (Align 4 b3)") (simp add: b5_def)
  note a3 = Align_spec [OF v3, of 4]
  note ps = PushElement_spec [OF a3(1) zero_less_numeral p5]
  have d5: "bdata b5 = le_bytes 4 (off - root) @ bdata b3"
    using ps(2) a3(2) a4 by (simp add: pad_to_aligned)
  define D where "D = bdata b5"
  have fin: "bd_Finish root None False b = Some (b5\<lparr>bd_finished := True\<rparr>)"
    using inv(3,4) rf p5 b1(3) by (simp add: bd_Finish_def b1_def [symmetric] TrackMinAlign_def b3_def [symmetric] Let_def)
  have lD: "length D = off" using d5 by (simp add: D_def off_def)
  have "off < 2 ^ 31" using sm pre by (simp add: off_def M_def)
  then have "ReadScalar 4 D 0 = Some (off - root)"
    using ReadScalar_append [of 0 "[]" "off - root" 4 "bdata b3"] rr by (simp add: D_def d5)
  then have root: "GetRoot D = Some (addr D root)"
    using rr lD by (simp add: GetRoot_def GetMutableRoot_def off_def of_nat_diff)
  have "finished_buf b root D"
    unfolding finished_buf_def
  proof (intro conjI exI [of _ "le_bytes 4 (off - root) @ pre"])
    show "D = (le_bytes 4 (off - root) @ pre) @ bdata b" using d5 pre(1) by (simp add: D_def)
    show "length D mod bd_minalign b = 0" using al lD by (simp add: off_def M_def add.commute)
  qed (use pre(2) root lD \<open>off < 2 ^ 31\<close> in \<open>simp_all add: M_def\<close>)
  moreover have "GetBufferPointer (b5\<lparr>bd_finished := True\<rparr>) = Some D"
    by (simp add: GetBufferPointer_def D_def)
  ultimately show ?thesis using fin by blast
qed

lemma idle_mk_builder:
  assumes "\<forall>n. length (fresh n) = n" and "pow2 a"
  shows "idle (mk_builder i fresh a)" and "bdata (mk_builder i fresh a) = []"
    and "bd_minalign (mk_builder i fresh a) = 1"
proof -
  have "vd_ok (bd_buf (mk_builder i fresh a))" using vd_ok_mk [OF assms] by (simp add: mk_builder_def)
  then show "idle (mk_builder i fresh a)"
    unfolding idle_def
    by (intro conjI exI [of _ "[]"])
      (simp_all add: bd_inv_def mk_builder_def scr_of_def max_field_def vtables_def)
qed (simp_all add: mk_builder_def)

lemma finished_mod:
  assumes "finished_buf b root D" and "pow2 n" "pow2 (bd_minalign b)" "n \<le> bd_minalign b"
  shows "length D mod n = 0"
proof -
  have "n dvd bd_minalign b" using assms by (intro pow2_dvd) auto
  with assms(1) show ?thesis by (auto simp: finished_buf_def mod_eq_0_iff_dvd intro: dvd_trans)
qed

section \<open>Whole tables\<close>

text \<open>
  The \<open>add_\<close> calls of a table builder as a list, in the order the code makes them.  \<open>slots_of\<close> is
  the map they leave: a scalar equal to its default leaves no entry.
\<close>

datatype fop = Put scalar_ty nat nat | Link nat nat

fun add_op :: "fop \<Rightarrow> builder \<Rightarrow> builder option" where
  "add_op (Put T f x) b = Some (AddElement T f x 0 b)"
| "add_op (Link f p) b = AddOffset f p b"

fun add_ops :: "fop list \<Rightarrow> builder \<Rightarrow> builder option" where
  "add_ops [] b = Some b"
| "add_ops (x # xs) b = do { b1 \<leftarrow> add_op x b; add_ops xs b1 }"

definition build_table :: "fop list \<Rightarrow> builder \<Rightarrow> (nat \<times> builder) option" where
  "build_table ops b = do { (s, b0) \<leftarrow> StartTable b; b1 \<leftarrow> add_ops ops b0; EndTable s b1 }"

definition opt_slot :: "scalar_ty \<Rightarrow> nat \<Rightarrow> slotv option" where
  "opt_slot T x = (if IsTheSameAs T x 0 then None else Some (Scalar (sizeof_ty T) x))"

fun put_op :: "fop \<Rightarrow> slots \<Rightarrow> slots" where
  "put_op (Put T f x) V = V(f := opt_slot T x)"
| "put_op (Link f p) V = V(f \<mapsto> Ref p)"

definition slots_of :: "fop list \<Rightarrow> slots" where
  "slots_of ops = fold put_op ops Map.empty"

fun op_slot :: "fop \<Rightarrow> nat" where
  "op_slot (Put T f x) = f"
| "op_slot (Link f p) = f"

fun op_ok :: "nat \<Rightarrow> fop \<Rightarrow> bool" where
  "op_ok n (Put T f x) \<longleftrightarrow> slot_id f \<and> x < 256 ^ sizeof_ty T"
| "op_ok n (Link f p) \<longleftrightarrow> slot_id f \<and> 0 < p \<and> p \<le> n"

lemma add_op_open:
  assumes t: "table_open b s V k" and ok: "op_ok n x" "n \<le> length (bdata b)" and V: "V (op_slot x) = None"
    and sm: "length (bdata b) + 7 < 2 ^ 31"
  shows "\<exists>b'. add_op x b = Some b' \<and> table_open b' s (put_op x V) (k + 15) \<and> ext b b' 15"
proof (cases x)
  case (Put T f y)
  have "V(f := opt_slot T y) = (if IsTheSameAs T y 0 then V else V(f \<mapsto> Scalar (sizeof_ty T) y))"
    using V Put by (auto simp: opt_slot_def)
  with AddElement_open [OF t, of f y T 0] ok V Put show ?thesis by simp
next
  case (Link f p)
  then obtain b' where b': "AddOffset f p b = Some b'" "table_open b' s (V(f \<mapsto> Ref p)) (k + 7)" "ext b b' 7"
    using AddOffset_open [OF t, of f p] ok V sm by auto
  have "table_open b' s (V(f \<mapsto> Ref p)) (k + 15)" using b'(2) by (auto simp: table_open_def)
  with b' Link ext_mono [OF b'(3), of 15] show ?thesis by simp
qed

lemma put_op_other: "f \<noteq> op_slot x \<Longrightarrow> put_op x V f = V f"
  by (cases x) auto

lemma add_ops_open:
  assumes "table_open b s V k" and "\<forall>x\<in>set xs. op_ok n x \<and> V (op_slot x) = None"
    and "distinct (map op_slot xs)" and "n \<le> length (bdata b)" and "length (bdata b) + 15 * length xs + 7 < 2 ^ 31"
  shows "\<exists>b'. add_ops xs b = Some b' \<and> table_open b' s (fold put_op xs V) (k + 15 * length xs) \<and>
     ext b b' (15 * length xs)"
  using assms
proof (induction xs arbitrary: b V k)
  case Nil
  then show ?case by simp
next
  case (Cons x xs)
  then obtain b1 where b1: "add_op x b = Some b1" "table_open b1 s (put_op x V) (k + 15)" "ext b b1 15"
    using add_op_open [OF Cons.prems(1), of n x] by auto
  have l: "n \<le> length (bdata b1)" "length (bdata b1) + 15 * length xs + 7 < 2 ^ 31"
    using ext_length [OF b1(3)] Cons.prems(4,5) by auto
  have ok: "\<forall>y\<in>set xs. op_ok n y \<and> put_op x V (op_slot y) = None"
    using Cons.prems(2,3) by (auto simp: put_op_other image_iff)
  from Cons.IH [OF b1(2) ok _ l] Cons.prems(3) obtain b2 where
    b2: "add_ops xs b1 = Some b2" "table_open b2 s (fold put_op xs (put_op x V)) (k + 15 + 15 * length xs)"
    "ext b1 b2 (15 * length xs)" by auto
  from ext_trans [OF b1(3) b2(3)] b1(1) b2 show ?case by (simp add: algebra_simps)
qed

lemma build_table_spec:
  assumes i: "idle b" and ok: "\<forall>x\<in>set ops. op_ok (length (bdata b)) x" "distinct (map op_slot ops)"
    and len: "length ops \<le> 8" and sm: "length (bdata b) + 127 + 2 ^ 16 < 2 ^ 31"
  shows "\<exists>o' b'. build_table ops b = Some (o', b') \<and> idle b' \<and> ext b b' 381 \<and>
     table_vals (bdata b') o' (slots_of ops) \<and> length (bdata b) < o' \<and> o' \<le> length (bdata b') \<and> 4 \<le> bd_minalign b' \<and>
     (\<forall>f w. slots_of ops f = Some w \<longrightarrow> sv_size w \<le> bd_minalign b')"
proof -
  obtain b0 where b0: "StartTable b = Some (length (bdata b), b0)" "table_open b0 (length (bdata b)) Map.empty 0"
    "ext b b0 0" using StartTable_open [OF i] by blast
  have d0: "length (bdata b0) = length (bdata b)" using ext_length [OF b0(3)] by simp
  have "length (bdata b0) + 15 * length ops + 7 < 2 ^ 31" using d0 len sm by simp
  then obtain b1 where b1: "add_ops ops b0 = Some b1"
    "table_open b1 (length (bdata b)) (slots_of ops) (15 * length ops)" "ext b0 b1 (15 * length ops)"
    using add_ops_open [OF b0(2), of ops "length (bdata b)"] ok d0 by (auto simp: slots_of_def)
  have l1: "length (bdata b1) + 7 + 2 ^ 16 < 2 ^ 31" using ext_length [OF b1(3)] d0 len sm by simp
  have k: "15 * length ops + 7 < 2 ^ 16" using len by simp
  obtain o' b' where e: "EndTable (length (bdata b)) b1 = Some (o', b')" "idle b'" "ext b1 b' 261"
    "table_vals (bdata b') o' (slots_of ops)" "length (bdata b1) < o'" "o' \<le> length (bdata b')" "4 \<le> bd_minalign b'"
    "\<forall>f w. slots_of ops f = Some w \<longrightarrow> sv_size w \<le> bd_minalign b'"
    using EndTable_open [OF b1(2) k l1] by (elim exE conjE) (rule that; assumption)
  have "ext b b' 381"
    using ext_mono [OF ext_trans [OF b0(3) ext_trans [OF b1(3) e(3)]]] len by simp
  moreover have "length (bdata b) < o'" using e(5) ext_length [OF b1(3)] d0 by simp
  moreover have "build_table ops b = Some (o', b')" using b0(1) b1(1) e(1) by (simp add: build_table_def)
  ultimately show ?thesis using e(2,4,6-8) by (intro exI conjI) assumption+
qed

lemma read_opt:
  assumes "table_vals D o' V" and "slot_id f" and "V f = opt_slot T x"
  shows "GetField (sizeof_ty T) D (addr D o') f 0 = Some (if IsTheSameAs T x 0 then 0 else x)"
  using read_scalar [OF assms(1,2), of "sizeof_ty T" x 0] read_default [OF assms(1,2), of "sizeof_ty T" 0] assms(3)
  by (simp add: opt_slot_def split: if_splits)

end
