(* ===== verification/Fb_Verified.thy ===== *)
theory Fb_Verified
  imports Fb_Verifier Fb_Objects
begin

text \<open>
  What the builder lays out passes the verifier.  \<open>passes m D d d' j\<close>: run with the default options
  at depth \<open>d\<close>, the check \<open>m\<close> succeeds, ends at depth \<open>d'\<close> and counts \<open>j\<close> tables, as long as the
  limit of 1,000,000 tables is not exceeded.
\<close>

section \<open>Checks that pass\<close>

definition ready :: "Verifier \<Rightarrow> buffer \<Rightarrow> nat \<Rightarrow> nat \<Rightarrow> bool" where
  "ready vr D d k \<longleftrightarrow> vr_buf vr = D \<and> vr_opts vr = default_options \<and> vr_depth vr = of_nat d \<and>
     vr_num_tables vr = of_nat k"

definition max_tables_nat :: nat where
  "max_tables_nat = 1000000"

definition passes :: "vm \<Rightarrow> buffer \<Rightarrow> nat \<Rightarrow> nat \<Rightarrow> nat \<Rightarrow> bool" where
  "passes m D d d' j \<longleftrightarrow> (\<forall>vr k. ready vr D d k \<longrightarrow> k + j \<le> max_tables_nat \<longrightarrow>
     (\<exists>vr'. m vr = Some (True, vr') \<and> ready vr' D d' (k + j)))"

lemma passesI:
  assumes "\<And>vr k. ready vr D d k \<Longrightarrow> k + j \<le> max_tables_nat \<Longrightarrow> \<exists>vr'. m vr = Some (True, vr') \<and> ready vr' D d' (k + j)"
  shows "passes m D d d' j"
  unfolding passes_def using assms by blast

lemma passesD:
  assumes "passes m D d d' j" and "ready vr D d k" and "k + j \<le> max_tables_nat"
  shows "\<exists>vr'. m vr = Some (True, vr') \<and> ready vr' D d' (k + j)"
  using assms unfolding passes_def by blast

lemma passes_Nil: "passes (vall []) D d d 0"
  by (rule passesI) simp

lemma passes_Cons:
  assumes m: "passes m D d d1 i" and ms: "passes (vall ms) D d1 d2 j"
  shows "passes (vall (m # ms)) D d d2 (i + j)"
proof (rule passesI)
  fix vr :: Verifier and k assume r: "ready vr D d k" "k + (i + j) \<le> max_tables_nat"
  then have "k + i \<le> max_tables_nat" by simp
  from passesD [OF m r(1) this] obtain v1 where v1: "m vr = Some (True, v1)" "ready v1 D d1 (k + i)" by blast
  have "k + i + j \<le> max_tables_nat" using r(2) by simp
  from passesD [OF ms v1(2) this] obtain v2 where "vall ms v1 = Some (True, v2)" "ready v2 D d2 (k + i + j)" by blast
  with v1 show "\<exists>vr'. vall (m # ms) vr = Some (True, vr') \<and> ready vr' D d2 (k + (i + j))"
    by (simp add: add.assoc)
qed

lemma passes_vpure:
  assumes "\<And>vr k. ready vr D d k \<Longrightarrow> c vr = Some True"
  shows "passes (vpure c) D d d 0"
  by (rule passesI) (simp add: vpure_def assms)

lemma passes_EndTable: "0 < d \<Longrightarrow> passes EndTable_check D d (d - 1) 0"
  by (rule passesI) (auto simp: EndTable_check_def ready_def of_nat_diff)

section \<open>Objects inside a buffer\<close>

text \<open>
  \<open>framed D E\<close>: \<open>E\<close> is the tail of the finished buffer \<open>D\<close>, in front of which the root offset
  stands; the whole length is a multiple of 4.
\<close>

definition framed :: "buffer \<Rightarrow> buffer \<Rightarrow> bool" where
  "framed D E \<longleftrightarrow> (\<exists>pre. D = pre @ E \<and> 4 \<le> length pre) \<and> length D mod 4 = 0 \<and> length D < 2 ^ 31"

lemma framed_item: "framed D E \<Longrightarrow> item E o' xs \<Longrightarrow> item D o' xs \<and> o' + 4 \<le> length D \<and> length xs \<le> o'"
  by (auto simp: framed_def item_prefix dest: item_len)

lemma framed_stored: "framed D E \<Longrightarrow> stored E off w \<Longrightarrow> stored D off w"
  by (auto simp: framed_def stored_prefix)

lemma framed_table_vals: "framed D E \<Longrightarrow> table_vals E o' V \<Longrightarrow> table_vals D o' V"
  by (auto simp: framed_def table_vals_prefix)

lemma size_t_addr: "o' \<le> length D \<Longrightarrow> length D < 2 ^ 31 \<Longrightarrow> size_t_of (addr D o') = length D - o'"
  by (simp add: size_t_of_nonneg nat_diff_distrib)

lemma aligned_diff: "(a::nat) mod n = 0 \<Longrightarrow> b mod n = 0 \<Longrightarrow> (a - b) mod n = 0"
  by (meson dvd_diff_nat dvd_imp_mod_0 mod_0_imp_dvd)

lemma and_pow2: "pow2 n \<Longrightarrow> (x::nat) AND (n - 1) = x mod n"
proof -
  assume "pow2 n"
  then obtain k where n: "n = 2 ^ k" by (auto simp: pow2_def)
  have "x AND (n - 1) = take_bit k x" by (simp only: n take_bit_eq_mask mask_eq_exp_minus_1)
  also have "\<dots> = x mod n" by (simp only: n take_bit_eq_mod)
  finally show ?thesis .
qed

lemma VerifyAlignment_pow2: "pow2 n \<Longrightarrow> x mod n = 0 \<Longrightarrow> VerifyAlignment vr x n"
  unfolding VerifyAlignment_def using and_pow2 by metis

text \<open>\<open>n\<close> bytes at an offset that is at least \<open>n\<close> pass the range check.\<close>

lemma Verify_addr:
  assumes "ready vr D d k" and "n \<le> o'" and "o' + 4 \<le> length D"
  shows "Verify vr (length D - o') n"
  using assms by (auto simp: Verify_def vr_size_def ready_def)

lemma Verify_T_addr:
  assumes "ready vr D d k" and "n \<le> o'" and "o' + 4 \<le> length D" and "pow2 n"
    and "length D mod n = 0" and "o' mod n = 0"
  shows "Verify_T n vr (length D - o')"
  using Verify_addr [OF assms(1-3)] VerifyAlignment_pow2 [OF assms(4) aligned_diff [OF assms(5,6)]]
  by (simp add: Verify_T_def)

section \<open>Tables\<close>

lemma of_nat_le_u32: "n < 2 ^ 32 \<Longrightarrow> m < 2 ^ 32 \<Longrightarrow> (of_nat n :: u32) \<le> of_nat m \<longleftrightarrow> n \<le> m"
  by (simp add: word_le_nat_alt unat_of_nat)

lemma VerifyComplexity_ready:
  assumes "ready vr D d k" and "d < 64" and "k + 1 \<le> max_tables_nat"
  shows "\<exists>vr'. VerifyComplexity vr = (True, vr') \<and> ready vr' D (d + 1) (k + 1)"
proof -
  have "(of_nat (d + 1) :: u32) \<le> of_nat 64" "(of_nat (k + 1) :: u32) \<le> of_nat 1000000"
    using assms(2,3) by (subst of_nat_le_u32; simp add: max_tables_nat_def)+
  then show ?thesis
    using assms(1) by (simp add: VerifyComplexity_def Let_def ready_def default_options_def add.commute)
qed

lemma table_at_item:
  assumes "table_at D o' L"
  obtains so where "item D o' (le_bytes 4 so)"
  using assms by (elim table_atE) (rule that)

lemma passes_TableStart:
  assumes fr: "framed D E" and t: "table_vals E o' V" and d: "d < 64"
  shows "passes (vr_VerifyTableStart (addr D o')) D d (d + 1) 1"
proof (rule passesI)
  fix vr :: Verifier and k assume r: "ready vr D d k" and k: "k + 1 \<le> max_tables_nat"
  obtain L where "table_at E o' L" and o4: "o' mod 4 = 0" using t by (auto simp: table_vals_def)
  then obtain vo vt so where so: "item E o' (le_bytes 4 so)" "so < 2 ^ 32" "soffset_of so = int vo - int o'"
    and vt: "item E vo vt" "vtable_ok vt" "even vo" by (elim table_atE) (rule that; assumption)
  have D: "length D mod 4 = 0" "length D < 2 ^ 31" "vr_buf vr = D" using fr r by (simp_all add: framed_def ready_def)
  note io = framed_item [OF fr so(1)]
  note iv = framed_item [OF fr vt(1)]
  have lvt: "4 \<le> length vt" "even (length vt)" "rd2 vt 0 = length vt" using vt(2) by (simp_all add: vtable_ok_def)
  have s4: "size_t_of (addr D o') = length D - o'" using io D(2) by (intro size_t_addr) auto
  have sv: "size_t_of (addr D vo) = length D - vo" using iv D(2) by (intro size_t_addr) auto
  have V4: "Verify_T 4 vr (length D - o')" using r io D(1) o4 by (intro Verify_T_addr) auto
  have rso: "ReadSOffset D (addr D o') = Some (int vo - int o')"
    using item_ReadScalar [of D o' 4 so] io so by (simp add: ReadSOffset_def)
  obtain vr' where vr': "VerifyComplexity vr = (True, vr')" "ready vr' D (d + 1) (k + 1)"
    using VerifyComplexity_ready [OF r d k] by blast
  have b': "vr_buf vr' = D" using vr'(2) by (simp add: ready_def)
  have ev: "length D mod 2 = 0" "vo mod 2 = 0" using D(1) vt(3) by presburger+
  have V2: "Verify_T 2 vr' (length D - vo)" using vr'(2) iv lvt ev by (intro Verify_T_addr) auto
  have pos: "int (length D - vo) = addr D vo" using iv by (simp add: of_nat_diff)
  have rv: "ReadScalar 2 D (int (length D - vo)) = Some (length vt)"
    using item_peek [of D vo vt 0 2] iv lvt by (simp add: ReadScalar_def rd2_def pos)
  have al: "VerifyAlignment vr' (length vt) 2" using lvt(2) by (intro VerifyAlignment_pow2) auto
  have a1: "length vt AND 1 = 0" using lvt(2) by (simp add: and_one_eq)
  have Vv: "Verify vr' (length D - vo) (length vt)" using vr'(2) iv by (intro Verify_addr) auto
  have "addr D o' - (int vo - int o') = addr D vo" by simp
  then show "\<exists>vr'. vr_VerifyTableStart (addr D o') vr = Some (True, vr') \<and> ready vr' D (d + 1) (k + 1)"
    using V4 rso vr' V2 rv al a1 Vv b' D(3)
    by (simp add: vr_VerifyTableStart_def Let_def s4 sv)
qed

lemma passes_VerifyField:
  assumes fr: "framed D E" and t: "table_vals E o' V" and f: "slot_id f"
    and n: "pow2 n" and nD: "V f \<noteq> None \<Longrightarrow> length D mod n = 0" and V: "V f = None \<or> (\<exists>x. V f = Some (Scalar n x))"
  shows "passes (t_VerifyField n (addr D o') f n) D d d 0"
  unfolding t_VerifyField_def
proof (rule passes_vpure)
  fix vr :: Verifier and k assume r: "ready vr D d k"
  have D: "length D < 2 ^ 31" "vr_buf vr = D" using fr r by (simp_all add: framed_def ready_def)
  obtain L where L: "table_at E o' L" "even f" "4 \<le> f" "placed E o' (V f) (L f)"
    by (rule table_vals_slot [OF t f])
  have "table_at D o' L" using fr L(1) by (auto simp: framed_def table_at_prefix)
  from table_at_field [OF this L(2,3)] have fo: "GetOptionalFieldOffset D (addr D o') f = Some (L f)" .
  have "L f = 0 \<or> vr_VerifyField n vr (addr D o') (L f) n"
  proof (cases "V f")
    case None
    then show ?thesis using L(4) by (simp add: placed_def)
  next
    case (Some w)
    then obtain x where w: "w = Scalar n x" using V by auto
    then obtain off where off: "L f = o' - off" "off < o'" "item E off (le_bytes n x)" "off mod n = 0"
      using L(4) Some by (auto simp: placed_def stored_def)
    note i = framed_item [OF fr off(3)]
    have "size_t_of (addr D o' + int (L f)) = length D - off"
      using size_t_addr [of off D] i D(1) off(1,2) by (simp add: of_nat_diff)
    then show ?thesis
      using Verify_addr [OF r, of n off] VerifyAlignment_pow2 [OF n aligned_diff [OF nD off(4)]] i Some
      by (simp add: vr_VerifyField_def Let_def)
  qed
  with fo D(2) show "do { field_offset \<leftarrow> GetOptionalFieldOffset (vr_buf vr) (addr D o') f;
      Some (field_offset = 0 \<or> vr_VerifyField n vr (addr D o') field_offset n) } = Some True" by simp
qed

text \<open>A reference passes \<open>VerifyOffset\<close>.\<close>

lemma VerifyOffset_ref:
  assumes fr: "framed D E" and r: "ready vr D d k" and st: "stored E off (Ref p)"
  shows "vr_VerifyOffset vr (length D - off) = Some (off - p)"
proof -
  have D: "length D mod 4 = 0" "length D < 2 ^ 31" "vr_buf vr = D" using fr r by (simp_all add: framed_def ready_def)
  have p: "0 < p" "p < off" "off mod 4 = 0" and it: "item E off (le_bytes 4 (off - p))"
    using st by (auto simp: stored_def)
  note i = framed_item [OF fr it]
  have V4: "Verify_T 4 vr (length D - off)" using r i D(1) p(3) by (intro Verify_T_addr) auto
  have x: "off - p < 2 ^ 31" "off - p \<noteq> 0" using i D(2) p by auto
  have pos: "int (length D - off) = addr D off" using i by (simp add: of_nat_diff)
  have rd: "ReadScalar 4 D (int (length D - off)) = Some (off - p)"
    using item_ReadScalar [of D off 4 "off - p"] i x by (simp add: pos)
  have "int (length D - off) + int (off - p) = addr D p" using i p by (simp add: of_nat_diff)
  moreover have "size_t_of (addr D p) = length D - p" using i p D(2) by (intro size_t_addr) auto
  moreover have "Verify vr (length D - p) 1" using i p by (intro Verify_addr [OF r]) auto
  moreover have "\<not> soffset_of (off - p) < 0" using x by (simp add: soffset_of_def)
  ultimately show ?thesis using V4 rd x D(3) by (simp add: vr_VerifyOffset_def)
qed

lemma passes_VerifyOffsetRequired:
  assumes fr: "framed D E" and t: "table_vals E o' V" and f: "slot_id f" and V: "V f = Some (Ref p)"
  shows "passes (t_VerifyOffsetRequired (addr D o') f) D d d 0" and "passes (t_VerifyOffset (addr D o') f) D d d 0"
proof -
  obtain L where L: "table_at E o' L" "even f" "4 \<le> f" "placed E o' (V f) (L f)"
    by (rule table_vals_slot [OF t f])
  have "table_at D o' L" using fr L(1) by (auto simp: framed_def table_at_prefix)
  from table_at_field [OF this L(2,3)] have fo: "GetOptionalFieldOffset D (addr D o') f = Some (L f)" .
  obtain off where off: "L f = o' - off" "off < o'" "stored E off (Ref p)"
    using L(4) V by (auto simp: placed_def)
  have p: "p < off" using off(3) by (simp add: stored_def)
  have i: "item E off (le_bytes 4 (off - p))" using off(3) by (simp add: stored_def)
  note io = framed_item [OF fr i]
  have "length D < 2 ^ 31" using fr by (simp add: framed_def)
  then have s: "size_t_of (addr D o' + int (L f)) = length D - off"
    using size_t_addr [of off D] io off(1,2) by (simp add: of_nat_diff)
  have ok: "vr_VerifyOffset_at vr (addr D o') (L f) = Some (off - p)" if "ready vr D d k" for vr :: Verifier and k
    using VerifyOffset_ref [OF fr that off(3)] s by (simp add: vr_VerifyOffset_at_def)
  have ne: "L f \<noteq> 0" "off - p \<noteq> 0" using off p by auto
  show "passes (t_VerifyOffsetRequired (addr D o') f) D d d 0"
    unfolding t_VerifyOffsetRequired_def
    by (rule passes_vpure) (use fo ok ne in \<open>simp add: ready_def\<close>)
  show "passes (t_VerifyOffset (addr D o') f) D d d 0"
    unfolding t_VerifyOffset_def
    by (rule passes_vpure) (use fo ok ne in \<open>simp add: ready_def\<close>)
qed

section \<open>Vectors, nested tables and whole buffers\<close>

lemma VerifyVectorOrString_passes:
  assumes fr: "framed D E" and r: "ready vr D d k" and it: "item E v (le_bytes 4 n @ xs)"
    and v4: "v mod 4 = 0" and n: "n < 2 ^ 32" "length xs = es * n" and es: "n < FLATBUFFERS_MAX_BUFFER_SIZE div es"
  shows "\<exists>e. VerifyVectorOrString vr (addr D v) es = Some (True, e)"
proof -
  have D: "length D mod 4 = 0" "length D < 2 ^ 31" "vr_buf vr = D" using fr r by (simp_all add: framed_def ready_def)
  note i = framed_item [OF fr it]
  have s: "size_t_of (addr D v) = length D - v" using i D(2) by (intro size_t_addr) auto
  have V4: "Verify_T 4 vr (length D - v)" using r i D(1) v4 by (intro Verify_T_addr) auto
  have "item D v (le_bytes 4 n)" using item_append(1) i by blast
  from item_ReadScalar [OF this] n(1) have rd: "ReadScalar 4 D (addr D v) = Some n" by simp
  have "Verify vr (length D - v) (4 + es * n)" using i n(2) by (intro Verify_addr [OF r]) auto
  moreover have "max_size (vr_opts vr) = FLATBUFFERS_MAX_BUFFER_SIZE" using r by (simp add: ready_def default_options_def)
  ultimately show ?thesis using V4 rd es D(3) by (simp add: VerifyVectorOrString_def Let_def s)
qed

lemma passes_VerifyVector:
  assumes fr: "framed D E" and t: "table_vals E o' V" and f: "slot_id f" "V f = Some (Ref v)"
    and it: "item E v (le_bytes 4 n @ xs)" "v mod 4 = 0" "n < 2 ^ 32" "length xs = es * n"
    and es: "n < FLATBUFFERS_MAX_BUFFER_SIZE div es"
  shows "passes (t_VerifyVector es (addr D o') f) D d d 0"
  unfolding t_VerifyVector_def
proof (rule passes_vpure)
  fix vr :: Verifier and k assume r: "ready vr D d k"
  have "GetPointer D (addr D o') f = Some (Some (addr D v))"
    by (rule read_ref [OF framed_table_vals [OF fr t] f])
  with VerifyVectorOrString_passes [OF fr r it es] r
  show "do { v \<leftarrow> GetPointer (vr_buf vr) (addr D o') f; VerifyVector es vr v } = Some True"
    by (auto simp: VerifyVector_def ready_def)
qed

lemma max_elems_12: "12 * n + 8 < 2 ^ 31 \<Longrightarrow> n < FLATBUFFERS_MAX_BUFFER_SIZE div 12"
  by (simp add: FLATBUFFERS_MAX_BUFFER_SIZE_def)

lemma max_elems_4: "4 * n + 8 < 2 ^ 31 \<Longrightarrow> n < FLATBUFFERS_MAX_BUFFER_SIZE div 4"
  by (simp add: FLATBUFFERS_MAX_BUFFER_SIZE_def)

lemma passes_VerifyVector_struct:
  assumes fr: "framed D E" and t: "table_vals E o' V" and f: "slot_id f" "V f = Some (Ref v)"
    and sv: "struct_vec E v 12 xs"
  shows "passes (t_VerifyVector 12 (addr D o') f) D d d 0"
proof -
  have l: "v mod 4 = 0" "length xs < 2 ^ 32" and it: "item E v (le_bytes 4 (length xs) @ concat xs)"
    and lc: "length (concat xs) = 12 * length xs"
    using sv length_concat_same [of xs 12] by (simp_all add: struct_vec_def)
  have "12 * length xs + 8 \<le> length D" using framed_item [OF fr it] lc by simp
  then have "length xs < FLATBUFFERS_MAX_BUFFER_SIZE div 12"
    using fr by (intro max_elems_12) (simp add: framed_def)
  then show ?thesis using passes_VerifyVector [OF fr t f it l lc] by simp
qed

lemma ref_vec_item:
  assumes "ref_vec E v ps"
  shows "\<exists>xs. item E v (le_bytes 4 (length ps) @ xs) \<and> length xs = 4 * length ps"
proof -
  from assms have b: "4 + 4 * length ps \<le> v" and it: "item E v (le_bytes 4 (length ps))"
    by (simp_all add: ref_vec_def)
  define k where "k = length E - v"
  have l: "v \<le> length E" and hd: "take 4 (drop k E) = le_bytes 4 (length ps)"
    using it by (simp_all add: item_def k_def)
  have "take (4 + 4 * length ps) (drop k E) = take 4 (drop k E) @ take (4 * length ps) (drop 4 (drop k E))"
    by (simp add: take_add)
  then show ?thesis
    using b l hd by (intro exI [of _ "take (4 * length ps) (drop 4 (drop k E))"]) (auto simp: item_def k_def)
qed

lemma passes_VerifyVector_ref:
  assumes fr: "framed D E" and t: "table_vals E o' V" and f: "slot_id f" "V f = Some (Ref v)"
    and rv: "ref_vec E v ps"
  shows "passes (t_VerifyVector 4 (addr D o') f) D d d 0"
proof -
  obtain xs where it: "item E v (le_bytes 4 (length ps) @ xs)" and lx: "length xs = 4 * length ps"
    using ref_vec_item [OF rv] by blast
  have l: "v mod 4 = 0" "length ps < 2 ^ 32" using rv by (simp_all add: ref_vec_def)
  have "4 * length ps + 8 \<le> length D" using framed_item [OF fr it] lx by simp
  then have "length ps < FLATBUFFERS_MAX_BUFFER_SIZE div 4"
    using fr by (intro max_elems_4) (simp add: framed_def)
  then show ?thesis using passes_VerifyVector [OF fr t f it l lx] by simp
qed

lemma passes_VerifyTable:
  assumes fr: "framed D E" and t: "table_vals E o' V" and f: "slot_id f" "V f = Some (Ref p)"
    and T: "passes (T (addr D p)) D d d j"
  shows "passes (t_VerifyTable T (addr D o') f) D d d j"
proof (rule passesI)
  fix vr :: Verifier and k assume r: "ready vr D d k" "k + j \<le> max_tables_nat"
  have "GetPointer D (addr D o') f = Some (Some (addr D p))"
    by (rule read_ref [OF framed_table_vals [OF fr t] f])
  with passesD [OF T r] r(1)
  show "\<exists>vr'. t_VerifyTable T (addr D o') f vr = Some (True, vr') \<and> ready vr' D d (k + j)"
    by (simp add: t_VerifyTable_def VerifyTable_def ready_def)
qed

lemma passes_tables_loop:
  assumes rv: "ref_vec D v ps" and T: "\<forall>p\<in>set ps. passes (T (addr D p)) D d d 1"
  shows "i + n \<le> length ps \<Longrightarrow> passes (VerifyTables_loop T (addr D v) i n) D d d n"
proof (induction n arbitrary: i)
  case 0
  show ?case by (rule passesI) simp
next
  case (Suc n)
  have i: "i < length ps" using Suc.prems by simp
  have Ti: "passes (T (addr D (ps ! i))) D d d 1" using T i by simp
  have IH: "passes (VerifyTables_loop T (addr D v) (Suc i) n) D d d n" using Suc by simp
  show ?case
  proof (rule passesI)
    fix vr :: Verifier and k assume r: "ready vr D d k" "k + Suc n \<le> max_tables_nat"
    then obtain v1 where v1: "T (addr D (ps ! i)) vr = Some (True, v1)" "ready v1 D d (k + 1)"
      using passesD [OF Ti, of vr k] by auto
    then obtain v2 where v2: "VerifyTables_loop T (addr D v) (Suc i) n v1 = Some (True, v2)" "ready v2 D d (k + 1 + n)"
      using passesD [OF IH v1(2)] r(2) by auto
    have "Get_table (vr_buf vr) (addr D v) i = Some (addr D (ps ! i))"
      using read_ref_vec_elem [OF rv i] r(1) by (simp add: ready_def)
    with v1 v2 show "\<exists>vr'. VerifyTables_loop T (addr D v) i (Suc n) vr = Some (True, vr') \<and> ready vr' D d (k + Suc n)"
      by (auto simp: algebra_simps)
  qed
qed

lemma passes_VerifyVectorOfTables:
  assumes fr: "framed D E" and t: "table_vals E o' V" and f: "slot_id f" "V f = Some (Ref v)"
    and rv: "ref_vec E v ps" and T: "\<forall>p\<in>set ps. passes (T (addr D p)) D d d 1"
  shows "passes (t_VerifyVectorOfTables T (addr D o') f) D d d (length ps)"
proof (rule passesI)
  fix vr :: Verifier and k assume r: "ready vr D d k" "k + length ps \<le> max_tables_nat"
  have rvD: "ref_vec D v ps" using fr rv by (auto simp: framed_def ref_vec_prefix)
  have "GetPointer D (addr D o') f = Some (Some (addr D v))"
    by (rule read_ref [OF framed_table_vals [OF fr t] f])
  moreover have "vec_size D (addr D v) = Some (length ps)" by (rule read_ref_vec_size [OF rvD])
  ultimately show "\<exists>vr'. t_VerifyVectorOfTables T (addr D o') f vr = Some (True, vr') \<and> ready vr' D d (k + length ps)"
    using passesD [OF passes_tables_loop [OF rvD T, of 0 "length ps"] r] r(1)
    by (simp add: t_VerifyVectorOfTables_def VerifyVectorOfTables_def ready_def)
qed

lemma ready_mk_verifier: "ready (mk_verifier D default_options) D 0 0"
  by (simp add: ready_def mk_verifier_def)

lemma finished_framed:
  assumes "finished_buf b root D" and "idle b" and "4 \<le> bd_minalign b"
  shows "framed D (bdata b)"
proof -
  obtain pre where "D = pre @ bdata b" "4 \<le> length pre" using assms(1) by (auto simp: finished_buf_def)
  moreover have "pow2 (bd_minalign b)" using assms(2) by (auto simp: idle_def bd_inv_def)
  then have "length D mod 4 = 0" using finished_mod [OF assms(1) pow2_consts(4)] assms(3) by simp
  ultimately show ?thesis using \<open>D = pre @ bdata b\<close> assms(1) by (auto simp: framed_def finished_buf_def)
qed

text \<open>A whole buffer: the root table's check is reached and passes.\<close>

lemma VerifyBuffer_passes:
  assumes fr: "framed D E" and root: "GetRoot D = Some (addr D r)" "r < length D" "0 < r" "12 \<le> length D"
    and T: "passes (T (addr D r)) D 0 d' j" "j \<le> max_tables_nat"
  shows "\<exists>vr'. VerifyBuffer T None (mk_verifier D default_options) = Some (True, vr')"
proof -
  define vr where "vr = mk_verifier D default_options"
  have r: "ready vr D 0 0" by (simp add: vr_def ready_mk_verifier)
  have D: "length D mod 4 = 0" "length D < 2 ^ 31" "vr_buf vr = D" using fr r by (simp_all add: framed_def ready_def)
  have rd: "ReadScalar 4 D 0 = Some (length D - r)"
    using root(1,2) by (auto simp: GetRoot_def GetMutableRoot_def)
  have V4: "Verify_T 4 vr 0"
    using D root(4) VerifyAlignment_pow2 [of 4 0] by (simp add: Verify_T_def Verify_def vr_size_def)
  have x: "length D - r \<noteq> 0" "length D - r < 2 ^ 31" using root(2) D(2) by auto
  have ls: "size_t_of (int (length D - r)) = length D - r" using x(2) by (subst size_t_of_nonneg) auto
  have V1: "Verify vr (length D - r) 1" using root(2-4) D(3) by (auto simp: Verify_def vr_size_def)
  have "\<not> soffset_of (length D - r) < 0" using x(2) by (simp add: soffset_of_def)
  then have vo: "vr_VerifyOffset vr 0 = Some (length D - r)"
    using V4 rd x V1 ls D(3) by (simp add: vr_VerifyOffset_def)
  have a: "int (length D - r) = addr D r" using root(2) by (simp add: of_nat_diff)
  obtain vr' where "T (addr D r) vr = Some (True, vr')" using passesD [OF T(1) r] T(2) by auto
  then have "VerifyBuffer T None vr = Some (True, vr')"
    using vo x(1) a root(4) D(3)
    by (simp add: VerifyBuffer_def VerifyBufferFromStart_def vr_size_def FLATBUFFERS_MIN_BUFFER_SIZE_def)
  then show ?thesis by (auto simp: vr_def)
qed

end
