(* ===== verification/Schema_Roundtrip.thy ===== *)
theory Schema_Roundtrip
  imports Schema_Build Fb_Verified
begin

text \<open>
  The generated builders against the generated accessors: what a message was built from is what
  its accessors return, and every finished message passes its own \<open>Verify\<close>.  A float field whose
  value compares equal to the default 0 is not stored, so -0 reads back as +0 (\<open>canon_f32\<close>).
\<close>

section \<open>Message contents as slot maps\<close>

definition canon_f32 :: "f32 \<Rightarrow> f32" where
  "canon_f32 x = (if f32_eq x 0 then 0 else x)"

definition canon_params :: "pricing_params \<Rightarrow> pricing_params" where
  "canon_params p = \<lparr>pp_option_type = pp_option_type p, pp_stock_price = canon_f32 (pp_stock_price p),
     pp_strike_price = canon_f32 (pp_strike_price p), pp_interest_rate = canon_f32 (pp_interest_rate p),
     pp_time_to_maturity = canon_f32 (pp_time_to_maturity p),
     pp_stock_discretization = canon_f32 (pp_stock_discretization p)\<rparr>"

definition canon_row :: "pricing_response \<Rightarrow> pricing_response" where
  "canon_row r = \<lparr>pr_idx = pr_idx r, pr_alpha = canon_f32 (pr_alpha r), pr_beta = canon_f32 (pr_beta r),
     pr_price = canon_f32 (pr_price r), pr_hedge_ratio = canon_f32 (pr_hedge_ratio r)\<rparr>"

lemma canon_f32_id: "x \<noteq> 0x80000000 \<Longrightarrow> canon_f32 x = x"
  using f32_eq_zero [of x] by (auto simp: canon_f32_def)

definition params_slots :: "pricing_params \<Rightarrow> slots" where
  "params_slots p = Map.empty(4 := opt_slot I8 (unat (pp_option_type p)), 6 := opt_slot F32 (unat (pp_stock_price p)),
     8 := opt_slot F32 (unat (pp_strike_price p)), 10 := opt_slot F32 (unat (pp_interest_rate p)),
     12 := opt_slot F32 (unat (pp_time_to_maturity p)), 14 := opt_slot F32 (unat (pp_stock_discretization p)))"

definition row_slots :: "pricing_response \<Rightarrow> slots" where
  "row_slots r = Map.empty(4 := opt_slot U32 (unat (pr_idx r)), 6 := opt_slot F32 (unat (pr_alpha r)),
     8 := opt_slot F32 (unat (pr_beta r)), 10 := opt_slot F32 (unat (pr_price r)),
     12 := opt_slot F32 (unat (pr_hedge_ratio r)))"

definition range_slots :: "nat \<Rightarrow> u64 \<Rightarrow> nat \<Rightarrow> slots" where
  "range_slots a h v = Map.empty(4 \<mapsto> Ref a, 6 := opt_slot U64 (unat h), 8 \<mapsto> Ref v)"

definition batch_slots :: "u64 \<Rightarrow> nat \<Rightarrow> nat \<Rightarrow> slots" where
  "batch_slots i a v = Map.empty(4 := opt_slot U64 (unat i), 6 \<mapsto> Ref a, 8 \<mapsto> Ref v)"

definition response_slots :: "u64 \<Rightarrow> nat \<Rightarrow> slots" where
  "response_slots i v = Map.empty(4 := opt_slot U64 (unat i), 6 \<mapsto> Ref v)"

lemma slot_ids [simp]: "slot_id 4" "slot_id 6" "slot_id 8" "slot_id 10" "slot_id 12" "slot_id 14"
  by (simp_all add: slot_id_def)

section \<open>Scalar tables\<close>

lemma read_f32:
  assumes "table_vals D o' V" and "slot_id f" and "V f = opt_slot F32 (unat (x :: f32))"
  shows "map_option word_of_nat (GetField 4 D (addr D o') f 0) = Some (canon_f32 x)"
  using read_opt [OF assms] by (auto simp: canon_f32_def)

lemma read_word:
  fixes x :: "'a::len word"
  assumes "table_vals D o' V" and "slot_id f" and "V f = opt_slot T (unat x)" and "T \<noteq> F32"
  shows "map_option word_of_nat (GetField (sizeof_ty T) D (addr D o') f 0) = Some x"
  using read_opt [OF assms(1-3)] assms(4) by (cases T) auto

lemma params_read:
  assumes "table_vals D o' (params_slots p)"
  shows "params_of D (addr D o') = Some (canon_params p)"
proof -
  note rd = read_f32 [OF assms]
  have "map_option word_of_nat (GetField 1 D (addr D o') 4 0) = Some (pp_option_type p)"
    using read_word [OF assms, of 4 I8 "pp_option_type p"] by (simp add: params_slots_def)
  with rd [of 6 "pp_stock_price p"] rd [of 8 "pp_strike_price p"] rd [of 10 "pp_interest_rate p"]
    rd [of 12 "pp_time_to_maturity p"] rd [of 14 "pp_stock_discretization p"]
  show ?thesis
    by (auto simp: params_slots_def params_of_def PricingParams_option_type_def PricingParams_stock_price_def
        PricingParams_strike_price_def PricingParams_interest_rate_def PricingParams_time_to_maturity_def
        PricingParams_stock_discretization_def canon_params_def)
qed

lemma row_read:
  assumes "table_vals D o' (row_slots r)"
  shows "row_of D (addr D o') = Some (canon_row r)"
proof -
  note rd = read_f32 [OF assms]
  have "map_option word_of_nat (GetField 4 D (addr D o') 4 0) = Some (pr_idx r)"
    using read_word [OF assms, of 4 U32 "pr_idx r"] by (simp add: row_slots_def)
  with rd [of 6 "pr_alpha r"] rd [of 8 "pr_beta r"] rd [of 10 "pr_price r"] rd [of 12 "pr_hedge_ratio r"]
  show ?thesis
    by (auto simp: row_slots_def row_of_def PricingResponse_idx_def PricingResponse_alpha_def
        PricingResponse_beta_def PricingResponse_price_def PricingResponse_hedge_ratio_def canon_row_def)
qed

text \<open>Checks of a table of scalar fields.\<close>

lemma opt_slot_scalar: "opt_slot T x = None \<or> (\<exists>y. opt_slot T x = Some (Scalar (sizeof_ty T) y))"
  by (simp add: opt_slot_def)

lemma pow2_le_4: "pow2 n \<Longrightarrow> n \<le> 4 \<Longrightarrow> n dvd 4"
  using pow2_dvd [of n 4] by simp

lemma passes_scalar_table:
  assumes fr: "framed D E" and t: "table_vals E o' V" and d: "d < 64"
    and fs: "\<forall>(n, f)\<in>set fs. slot_id f \<and> pow2 n \<and> n \<le> 4 \<and> (V f = None \<or> (\<exists>x. V f = Some (Scalar n x)))"
  shows "passes (vall (vr_VerifyTableStart (addr D o') # field_checks (addr D o') fs @ [EndTable_check])) D d d 1"
proof -
  have m4: "length D mod 4 = 0" using fr by (simp add: framed_def)
  have "passes (vall (field_checks (addr D o') fs @ [EndTable_check])) D (d + 1) d 0"
    using fs
  proof (induction fs)
    case Nil
    show ?case
      using passes_Cons [OF passes_EndTable [of "d + 1" D] passes_Nil] by (simp add: field_checks_def del: vall.simps)
  next
    case (Cons a fs)
    obtain n f where a: "a = (n, f)" by (cases a)
    with Cons.prems have f: "slot_id f" "pow2 n" "n \<le> 4" "V f = None \<or> (\<exists>x. V f = Some (Scalar n x))" by auto
    have "length D mod n = 0" using pow2_le_4 [OF f(2,3)] m4 by (meson dvd_trans mod_0_imp_dvd dvd_imp_mod_0)
    then have "passes (t_VerifyField n (addr D o') f n) D (d + 1) (d + 1) 0"
      by (intro passes_VerifyField [OF fr t f(1,2) _ f(4)])
    from passes_Cons [OF this Cons.IH] Cons.prems show ?case by (simp add: field_checks_def a del: vall.simps)
  qed
  from passes_Cons [OF passes_TableStart [OF fr t d] this] show ?thesis by simp
qed

lemma params_passes:
  assumes "framed D E" and "table_vals E o' (params_slots p)" and "d < 64"
  shows "passes (PricingParams_Verify (addr D o')) D d d 1"
proof -
  define fs :: "(nat \<times> nat) list" where "fs = [(1, 4), (4, 6), (4, 8), (4, 10), (4, 12), (4, 14)]"
  have "PricingParams_Verify (addr D o') =
      vall (vr_VerifyTableStart (addr D o') # field_checks (addr D o') fs @ [EndTable_check])"
    by (simp add: PricingParams_Verify_def field_checks_def fs_def)
  moreover have "\<forall>(n, f)\<in>set fs. slot_id f \<and> pow2 n \<and> n \<le> 4 \<and>
      (params_slots p f = None \<or> (\<exists>x. params_slots p f = Some (Scalar n x)))"
    using opt_slot_scalar [of I8] opt_slot_scalar [of F32] by (simp add: fs_def params_slots_def)
  ultimately show ?thesis using passes_scalar_table [OF assms] by simp
qed

lemma row_passes:
  assumes "framed D E" and "table_vals E o' (row_slots r)" and "d < 64"
  shows "passes (PricingResponse_Verify (addr D o')) D d d 1"
proof -
  define fs :: "(nat \<times> nat) list" where "fs = [(4, 4), (4, 6), (4, 8), (4, 10), (4, 12)]"
  have "PricingResponse_Verify (addr D o') =
      vall (vr_VerifyTableStart (addr D o') # field_checks (addr D o') fs @ [EndTable_check])"
    by (simp add: PricingResponse_Verify_def field_checks_def fs_def)
  moreover have "\<forall>(n, f)\<in>set fs. slot_id f \<and> pow2 n \<and> n \<le> 4 \<and>
      (row_slots r f = None \<or> (\<exists>x. row_slots r f = Some (Scalar n x)))"
    using opt_slot_scalar [of U32] opt_slot_scalar [of F32] by (simp add: fs_def row_slots_def)
  ultimately show ?thesis using passes_scalar_table [OF assms] by simp
qed

section \<open>Requests\<close>

lemma length_AlphaBetaPair_bytes [simp]: "length (AlphaBetaPair_bytes p) = 12"
  by (simp add: AlphaBetaPair_bytes_def)

lemma pair_read:
  assumes "peek D p 4 = Some (take 4 (AlphaBetaPair_bytes q))"
    and "peek D (p + 4) 4 = Some (take 4 (drop 4 (AlphaBetaPair_bytes q)))"
    and "peek D (p + 8) 4 = Some (take 4 (drop 8 (AlphaBetaPair_bytes q)))"
  shows "pair_of D p = Some q"
proof -
  have "unat (x :: u32) < 256 ^ 4" for x using unsigned_less [of x] by simp
  with assms show ?thesis
    by (simp add: pair_of_def AlphaBetaPair_idx_def AlphaBetaPair_alpha_def AlphaBetaPair_beta_def ReadScalar_def
        AlphaBetaPair_bytes_def)
qed

lemma pairs_read:
  assumes "struct_vec D v 12 (map AlphaBetaPair_bytes ps)"
  shows "pairs_of D (addr D v) = Some ps"
proof -
  have "pair_of D (Get_struct 12 (addr D v) i) = Some (ps ! i)" if "i < length ps" for i
    using read_struct_vec_elem [OF assms, of i 0 4] read_struct_vec_elem [OF assms, of i 4 4]
      read_struct_vec_elem [OF assms, of i 8 4] that
    by (intro pair_read) auto
  then have "those (map (\<lambda>i. pair_of D (Get_struct 12 (addr D v) i)) [0..<length ps]) = Some (map (\<lambda>i. ps ! i) [0..<length ps])"
    by (intro those_map_Some) auto
  then show ?thesis
    using read_struct_vec_size [OF assms] by (simp add: pairs_of_def AlphaBetaPair_size_def map_nth)
qed

definition request_at :: "buffer \<Rightarrow> slots \<Rightarrow> nat \<Rightarrow> nat \<Rightarrow> nat \<Rightarrow> pricing_params \<Rightarrow> AlphaBetaPair list \<Rightarrow> bool" where
  "request_at D V o' a v p ps \<longleftrightarrow> table_vals D o' V \<and> table_vals D a (params_slots p) \<and>
     struct_vec D v 12 (map AlphaBetaPair_bytes ps)"

lemma framed_request_at: "framed D E \<Longrightarrow> request_at E V o' a v p ps \<Longrightarrow> request_at D V o' a v p ps"
  by (auto simp: request_at_def framed_def table_vals_prefix struct_vec_prefix)

lemma range_request_read:
  assumes "request_at D (range_slots a h v) o' a v p ps"
  shows "request_of D (addr D o') = Some \<lparr>rq_params = canon_params p, rq_hash = h, rq_pairs = ps\<rparr>"
proof -
  have t: "table_vals D o' (range_slots a h v)" and pa: "table_vals D a (params_slots p)"
    and sv: "struct_vec D v 12 (map AlphaBetaPair_bytes ps)" using assms by (simp_all add: request_at_def)
  have "map_option word_of_nat (GetField 8 D (addr D o') 6 0) = Some h"
    using read_word [OF t, of 6 U64 h] by (simp add: range_slots_def)
  moreover have "GetPointer D (addr D o') 4 = Some (Some (addr D a))" "GetPointer D (addr D o') 8 = Some (Some (addr D v))"
    using read_ref [OF t, of 4 a] read_ref [OF t, of 8 v] by (simp_all add: range_slots_def)
  ultimately show ?thesis
    using params_read [OF pa] pairs_read [OF sv]
    by (auto simp: request_of_def deref_def RangePricingRequest_request_def
        RangePricingRequest_request_hash_def RangePricingRequest_pairs_def)
qed

lemma batch_request_read:
  assumes "request_at D (batch_slots i a v) o' a v p ps"
  shows "batch_of D (addr D o') = Some \<lparr>bq_id = i, bq_params = canon_params p, bq_pairs = ps\<rparr>"
proof -
  have t: "table_vals D o' (batch_slots i a v)" and pa: "table_vals D a (params_slots p)"
    and sv: "struct_vec D v 12 (map AlphaBetaPair_bytes ps)" using assms by (simp_all add: request_at_def)
  have "map_option word_of_nat (GetField 8 D (addr D o') 4 0) = Some i"
    using read_word [OF t, of 4 U64 i] by (simp add: batch_slots_def)
  moreover have "GetPointer D (addr D o') 6 = Some (Some (addr D a))" "GetPointer D (addr D o') 8 = Some (Some (addr D v))"
    using read_ref [OF t, of 6 a] read_ref [OF t, of 8 v] by (simp_all add: batch_slots_def)
  ultimately show ?thesis
    using params_read [OF pa] pairs_read [OF sv]
    by (auto simp: batch_of_def deref_def BatchPricingRequest_request_def
        BatchPricingRequest_batch_counter_id_def BatchPricingRequest_pairs_def)
qed

lemma range_request_passes:
  assumes fr: "framed D E" and r: "request_at E (range_slots a h v) o' a v p ps"
    and al: "h \<noteq> 0 \<Longrightarrow> length D mod 8 = 0"
  shows "passes (RangePricingRequest_Verify (addr D o')) D 0 0 2"
proof -
  have t: "table_vals E o' (range_slots a h v)" and pa: "table_vals E a (params_slots p)"
    and sv: "struct_vec E v 12 (map AlphaBetaPair_bytes ps)" using r by (simp_all add: request_at_def)
  have V: "range_slots a h v 4 = Some (Ref a)" "range_slots a h v 8 = Some (Ref v)"
    "range_slots a h v 6 = opt_slot U64 (unat h)" by (simp_all add: range_slots_def)
  have h: "passes (t_VerifyField 8 (addr D o') 6 8) D 1 1 0"
    using al opt_slot_scalar [of U64 "unat h"]
    by (intro passes_VerifyField [OF fr t]) (auto simp: V opt_slot_def unsigned_eq_0_iff split: if_splits)
  have "passes (RangePricingRequest_Verify (addr D o')) D 0 (1 - 1) (1 + (0 + (1 + (0 + (0 + (0 + (0 + 0)))))))"
    unfolding RangePricingRequest_Verify_def RQ_VT_defs AlphaBetaPair_size_def
  proof (intro passes_Cons passes_Nil)
    show "passes (vr_VerifyTableStart (addr D o')) D 0 1 1" using passes_TableStart [OF fr t, of 0] by simp
    show "passes (t_VerifyOffsetRequired (addr D o') 4) D 1 1 0"
      by (rule passes_VerifyOffsetRequired(1) [OF fr t _ V(1)]) simp
    show "passes (t_VerifyTable PricingParams_Verify (addr D o') 4) D 1 1 1"
      by (rule passes_VerifyTable [where T = PricingParams_Verify, OF fr t _ V(1) params_passes [OF fr pa]]) simp_all
    show "passes (t_VerifyField 8 (addr D o') 6 8) D 1 1 0" by (rule h)
    show "passes (t_VerifyOffsetRequired (addr D o') 8) D 1 1 0"
      by (rule passes_VerifyOffsetRequired(1) [OF fr t _ V(2)]) simp
    show "passes (t_VerifyVector 12 (addr D o') 8) D 1 1 0"
      by (rule passes_VerifyVector_struct [OF fr t _ V(2) sv]) simp
    show "passes EndTable_check D 1 (1 - 1) 0" by (rule passes_EndTable) simp
  qed (rule passes_Nil)
  then show ?thesis by (simp add: numeral_2_eq_2)
qed

lemma batch_request_passes:
  assumes fr: "framed D E" and r: "request_at E (batch_slots i a v) o' a v p ps"
    and al: "i \<noteq> 0 \<Longrightarrow> length D mod 8 = 0"
  shows "passes (BatchPricingRequest_Verify (addr D o')) D 0 0 2"
proof -
  have t: "table_vals E o' (batch_slots i a v)" and pa: "table_vals E a (params_slots p)"
    and sv: "struct_vec E v 12 (map AlphaBetaPair_bytes ps)" using r by (simp_all add: request_at_def)
  have V: "batch_slots i a v 6 = Some (Ref a)" "batch_slots i a v 8 = Some (Ref v)"
    "batch_slots i a v 4 = opt_slot U64 (unat i)" by (simp_all add: batch_slots_def)
  have h: "passes (t_VerifyField 8 (addr D o') 4 8) D 1 1 0"
    using al opt_slot_scalar [of U64 "unat i"]
    by (intro passes_VerifyField [OF fr t]) (auto simp: V opt_slot_def unsigned_eq_0_iff split: if_splits)
  have "passes (BatchPricingRequest_Verify (addr D o')) D 0 (1 - 1) (1 + (0 + (0 + (1 + (0 + (0 + (0 + 0)))))))"
    unfolding BatchPricingRequest_Verify_def RQ_VT_defs AlphaBetaPair_size_def
  proof (intro passes_Cons passes_Nil)
    show "passes (vr_VerifyTableStart (addr D o')) D 0 1 1" using passes_TableStart [OF fr t, of 0] by simp
    show "passes (t_VerifyField 8 (addr D o') 4 8) D 1 1 0" by (rule h)
    show "passes (t_VerifyOffsetRequired (addr D o') 6) D 1 1 0"
      by (rule passes_VerifyOffsetRequired(1) [OF fr t _ V(1)]) simp
    show "passes (t_VerifyTable PricingParams_Verify (addr D o') 6) D 1 1 1"
      by (rule passes_VerifyTable [where T = PricingParams_Verify, OF fr t _ V(1) params_passes [OF fr pa]]) simp_all
    show "passes (t_VerifyOffsetRequired (addr D o') 8) D 1 1 0"
      by (rule passes_VerifyOffsetRequired(1) [OF fr t _ V(2)]) simp
    show "passes (t_VerifyVector 12 (addr D o') 8) D 1 1 0"
      by (rule passes_VerifyVector_struct [OF fr t _ V(2) sv]) simp
    show "passes EndTable_check D 1 (1 - 1) 0" by (rule passes_EndTable) simp
  qed (rule passes_Nil)
  then show ?thesis by (simp add: numeral_2_eq_2)
qed

section \<open>Responses\<close>

text \<open>\<open>BatchPricingResponse\<close> and \<open>RangePricingResponse\<close>: an identifier and the rows.\<close>

definition response_at :: "buffer \<Rightarrow> u64 \<Rightarrow> nat \<Rightarrow> nat \<Rightarrow> nat list \<Rightarrow> pricing_response list \<Rightarrow> bool" where
  "response_at D i o' v ps rows \<longleftrightarrow> table_vals D o' (response_slots i v) \<and> ref_vec D v ps \<and>
     length ps = length rows \<and> (\<forall>j<length rows. table_vals D (ps ! j) (row_slots (rows ! j)))"

lemma framed_response_at: "framed D E \<Longrightarrow> response_at E i o' v ps rows \<Longrightarrow> response_at D i o' v ps rows"
  by (auto simp: response_at_def framed_def table_vals_prefix ref_vec_prefix)

lemma rows_read:
  assumes "response_at D i o' v ps rows"
  shows "rows_of D (addr D v) = Some (map canon_row rows)"
proof -
  have rv: "ref_vec D v ps" and l: "length ps = length rows"
    and rw: "\<forall>j<length rows. table_vals D (ps ! j) (row_slots (rows ! j))"
    using assms by (simp_all add: response_at_def)
  have "do { t \<leftarrow> Get_table D (addr D v) j; row_of D t } = Some (map canon_row rows ! j)" if "j < length rows" for j
    using read_ref_vec_elem [OF rv, of j] row_read rw that l by simp
  then have "those (map (\<lambda>j. do { t \<leftarrow> Get_table D (addr D v) j; row_of D t }) [0..<length rows]) =
      Some (map (\<lambda>j. map canon_row rows ! j) [0..<length rows])"
    by (intro those_map_Some) auto
  moreover have "map (\<lambda>j. map canon_row rows ! j) [0..<length rows] = map canon_row rows"
    using map_nth [of "map canon_row rows"] by simp
  ultimately show ?thesis using read_ref_vec_size [OF rv] l by (simp add: rows_of_def)
qed

lemma response_read:
  assumes r: "response_at D i o' v ps rows"
  shows "map_option word_of_nat (GetField 8 D (addr D o') 4 0) = Some i"
    and "GetPointer D (addr D o') 6 = Some (Some (addr D v))"
proof -
  have t: "table_vals D o' (response_slots i v)" using r by (simp add: response_at_def)
  show "map_option word_of_nat (GetField 8 D (addr D o') 4 0) = Some i"
    using read_word [OF t, of 4 U64 i] by (simp add: response_slots_def)
  show "GetPointer D (addr D o') 6 = Some (Some (addr D v))"
    using read_ref [OF t, of 6 v] by (simp add: response_slots_def)
qed

lemma batch_response_read:
  "response_at D i o' v ps rows \<Longrightarrow> batch_response_of D (addr D o') = Some (i, Some (map canon_row rows))"
  using response_read [of D i o' v ps rows] rows_read [of D i o' v ps rows]
  by (auto simp: response_of_def BatchPricingResponse_batch_id_def BatchPricingResponse_results_def)

lemma range_response_read:
  "response_at D i o' v ps rows \<Longrightarrow> range_response_of D (addr D o') = Some (i, Some (map canon_row rows))"
  using response_read [of D i o' v ps rows] rows_read [of D i o' v ps rows]
  by (auto simp: response_of_def RangePricingResponse_request_hash_def RangePricingResponse_results_def)

lemma response_passes:
  assumes fr: "framed D E" and r: "response_at E i o' v ps rows" and al: "i \<noteq> 0 \<Longrightarrow> length D mod 8 = 0"
  shows "passes (vall [vr_VerifyTableStart (addr D o'), t_VerifyField 8 (addr D o') 4 8,
       t_VerifyOffset (addr D o') 6, t_VerifyVector 4 (addr D o') 6,
       t_VerifyVectorOfTables PricingResponse_Verify (addr D o') 6, EndTable_check]) D 0 0 (1 + length rows)"
proof -
  have t: "table_vals E o' (response_slots i v)" and rv: "ref_vec E v ps" and l: "length ps = length rows"
    and rw: "\<forall>j<length rows. table_vals E (ps ! j) (row_slots (rows ! j))"
    using r by (simp_all add: response_at_def)
  have V: "response_slots i v 4 = opt_slot U64 (unat i)" "response_slots i v 6 = Some (Ref v)"
    by (simp_all add: response_slots_def)
  have h: "passes (t_VerifyField 8 (addr D o') 4 8) D 1 1 0"
    using al opt_slot_scalar [of U64 "unat i"]
    by (intro passes_VerifyField [OF fr t]) (auto simp: V opt_slot_def unsigned_eq_0_iff split: if_splits)
  have rows: "\<forall>p\<in>set ps. passes (PricingResponse_Verify (addr D p)) D 1 1 1"
  proof
    fix p assume "p \<in> set ps"
    then obtain j where "j < length rows" "p = ps ! j" using l by (auto simp: in_set_conv_nth)
    then show "passes (PricingResponse_Verify (addr D p)) D 1 1 1"
      using row_passes [OF fr, of p "rows ! j" 1] rw by simp
  qed
  have "passes (vall [vr_VerifyTableStart (addr D o'), t_VerifyField 8 (addr D o') 4 8,
       t_VerifyOffset (addr D o') 6, t_VerifyVector 4 (addr D o') 6,
       t_VerifyVectorOfTables PricingResponse_Verify (addr D o') 6, EndTable_check]) D 0 (1 - 1)
       (1 + (0 + (0 + (0 + (length ps + (0 + 0))))))"
  proof (intro passes_Cons passes_Nil)
    show "passes (vr_VerifyTableStart (addr D o')) D 0 1 1" using passes_TableStart [OF fr t, of 0] by simp
    show "passes (t_VerifyField 8 (addr D o') 4 8) D 1 1 0" by (rule h)
    show "passes (t_VerifyOffset (addr D o') 6) D 1 1 0"
      by (rule passes_VerifyOffsetRequired(2) [OF fr t _ V(2)]) simp
    show "passes (t_VerifyVector 4 (addr D o') 6) D 1 1 0"
      by (rule passes_VerifyVector_ref [OF fr t _ V(2) rv]) simp
    show "passes (t_VerifyVectorOfTables PricingResponse_Verify (addr D o') 6) D 1 1 (length ps)"
      by (rule passes_VerifyVectorOfTables [OF fr t _ V(2) rv rows]) simp
    show "passes EndTable_check D 1 (1 - 1) 0" by (rule passes_EndTable) simp
  qed (rule passes_Nil)
  then show ?thesis by (simp add: l del: vall.simps)
qed

section \<open>Building the messages\<close>

text \<open>Each \<open>Create\<close> function is a \<open>build_table\<close> with its own order of \<open>add_\<close> calls.\<close>

lemma CreatePricingParams_build:
  "CreatePricingParams p b = build_table
     [Put F32 14 (unat (pp_stock_discretization p)), Put F32 12 (unat (pp_time_to_maturity p)),
      Put F32 10 (unat (pp_interest_rate p)), Put F32 8 (unat (pp_strike_price p)),
      Put F32 6 (unat (pp_stock_price p)), Put I8 4 (unat (pp_option_type p))] b"
  by (simp add: CreatePricingParams_def build_table_def Let_def split: option.splits prod.splits bind_splits)

lemma CreatePricingResponse_build:
  "CreatePricingResponse r b = build_table
     [Put F32 12 (unat (pr_hedge_ratio r)), Put F32 10 (unat (pr_price r)), Put F32 8 (unat (pr_beta r)),
      Put F32 6 (unat (pr_alpha r)), Put U32 4 (unat (pr_idx r))] b"
  by (simp add: CreatePricingResponse_def build_table_def Let_def)

lemma unat_bounds [simp]:
  "unat (x :: 8 word) < 256" "unat (y :: u32) < 4294967296" "unat (z :: u64) < 18446744073709551616"
  using unsigned_less [of x] unsigned_less [of y] unsigned_less [of z] by simp_all

end
