(* ===== verification/Schema_Message.thy ===== *)
theory Schema_Message
  imports Schema_Roundtrip
begin

text \<open>
  Whole messages: a fresh builder, the objects in the order every sender of the program creates
  them (the vector, then the parameters or the rows, then the root table), and \<open>Finish\<close>.  The
  order of the \<open>add_\<close> calls is a parameter, since the client, the worker and the generated
  \<open>Create\<close> functions differ in it.  Building never hits an assertion, and the bytes that result
  read back as what was put in and pass \<open>Verify\<close>.
\<close>

section \<open>Required fields\<close>

lemma peek_mem_GetOptionalFieldOffset:
  assumes v: "vd_ok v" and t: "GetOptionalFieldOffset (contents v) (addr (contents v) o') f = Some x"
    and o': "o' \<le> length (contents v)"
  shows "GetOptionalFieldOffset (mem v) (int (data_at v o')) f = Some x"
proof -
  define pre where "pre = scratch_bytes v @ take (vd_cur v - vd_scratch v) (drop (vd_scratch v) (mem v))"
  have m: "mem v = pre @ contents v" using mem_split [OF v] by (simp add: pre_def)
  have "length pre = vd_cur v" using v by (auto simp: pre_def scratch_bytes_def vd_ok_def min_def)
  then have "int (data_at v o') = shift pre (addr (contents v) o')"
    using data_at_eq [OF v o'] o' by (simp add: vd_data_def)
  with GetOptionalFieldOffset_prefix [OF t, of pre] m show ?thesis by simp
qed

lemma Required_Ref:
  assumes i: "idle b" and t: "table_vals (bdata b) o' V" and f: "slot_id f" "V f = Some (Ref p)"
    and o': "o' \<le> length (bdata b)"
  shows "Required o' f b = Some True"
proof -
  from i have v: "vd_ok (bd_buf b)" by (auto simp: idle_def bd_inv_def)
  obtain L where L: "table_at (bdata b) o' L" "even f" "4 \<le> f" "placed (bdata b) o' (V f) (L f)"
    by (rule table_vals_slot [OF t f(1)])
  then have "L f \<noteq> 0" using f(2) by (auto simp: placed_def)
  with peek_mem_GetOptionalFieldOffset [OF v table_at_field [OF L(1-3)] o'] show ?thesis
    by (simp add: Required_def)
qed

section \<open>Requests\<close>

text \<open>\<open>fa\<close> and \<open>fv\<close> are the required fields of the root table that hold the parameters and the pairs.\<close>

definition build_request ::
    "AlphaBetaPair list \<Rightarrow> fop list \<Rightarrow> (nat \<Rightarrow> nat \<Rightarrow> fop list) \<Rightarrow> nat \<Rightarrow> nat \<Rightarrow> builder \<Rightarrow> buffer option" where
  "build_request ps pops rops fa fv b0 = do {
     (v, b1) \<leftarrow> CreatePairs ps b0;
     (a, b2) \<leftarrow> build_table pops b1;
     (o', b3) \<leftarrow> build_table (rops a v) b2;
     r1 \<leftarrow> Required o' fa b3;
     r2 \<leftarrow> Required o' fv b3;
     (if r1 \<and> r2 then do { b4 \<leftarrow> bd_Finish o' None False b3; GetBufferPointer b4 } else None)
   }"

definition root_of :: "buffer \<Rightarrow> buffer \<Rightarrow> nat \<Rightarrow> bool" where
  "root_of D E o' \<longleftrightarrow> framed D E \<and> GetRoot D = Some (addr D o') \<and> 0 < o' \<and> o' < length D \<and> 12 \<le> length D"

definition fops_ok :: "nat \<Rightarrow> fop list \<Rightarrow> bool" where
  "fops_ok n ops \<longleftrightarrow> (\<forall>x\<in>set ops. op_ok n x) \<and> distinct (map op_slot ops) \<and> length ops \<le> 8"

lemma op_ok_mono: "op_ok m x \<Longrightarrow> m \<le> n \<Longrightarrow> op_ok n x"
  by (cases x) auto

lemma fops_ok_mono: "fops_ok m ops \<Longrightarrow> m \<le> n \<Longrightarrow> fops_ok n ops"
  by (auto simp: fops_ok_def intro: op_ok_mono)

text \<open>The last two steps of every message: the root table and \<open>Finish\<close>.\<close>

lemma build_root:
  assumes i: "idle b" and ok: "fops_ok (length (bdata b)) ops"
    and sm: "length (bdata b) + 70000 < 2 ^ 31" and m: "bd_minalign b \<le> 8" and x: "4 \<le> length (bdata b)"
  shows "\<exists>o' b3 b4 D. build_table ops b = Some (o', b3) \<and> bd_Finish o' None False b3 = Some b4 \<and>
     GetBufferPointer b4 = Some D \<and> root_of D (bdata b3) o' \<and> ext b b3 381 \<and> idle b3 \<and>
     o' \<le> length (bdata b3) \<and> table_vals (bdata b3) o' (slots_of ops) \<and>
     (\<forall>f y. slots_of ops f = Some (Scalar 8 y) \<longrightarrow> length D mod 8 = 0)"
proof -
  from ok have ok': "\<forall>x\<in>set ops. op_ok (length (bdata b)) x" "distinct (map op_slot ops)" "length ops \<le> 8"
    by (simp_all add: fops_ok_def)
  have s: "length (bdata b) + 127 + 2 ^ 16 < 2 ^ 31" using sm by simp
  obtain o' b3 where t: "build_table ops b = Some (o', b3)" "idle b3" "ext b b3 381"
    "table_vals (bdata b3) o' (slots_of ops)" "length (bdata b) < o'" "o' \<le> length (bdata b3)" "4 \<le> bd_minalign b3"
    "\<forall>f w. slots_of ops f = Some w \<longrightarrow> sv_size w \<le> bd_minalign b3"
    using build_table_spec [OF i ok' s] by (elim exE conjE) (rule that; assumption)
  have m3: "bd_minalign b3 \<le> 8" using t(3) m by (auto simp: ext_def)
  have o': "0 < o'" using t(5) by simp
  have sm3: "length (bdata b3) + bd_minalign b3 + 4 < 2 ^ 31" using ext_length [OF t(3)] sm m3 by simp
  obtain b4 D where f: "bd_Finish o' None False b3 = Some b4" "GetBufferPointer b4 = Some D" "finished_buf b3 o' D"
    using bd_Finish_spec [OF t(2) o' t(6,7) sm3] by (elim exE conjE) (rule that; assumption)
  have fr: "framed D (bdata b3)" by (rule finished_framed [OF f(3) t(2,7)])
  have r: "GetRoot D = Some (addr D o')" using f(3) by (simp add: finished_buf_def)
  obtain pre where pre: "D = pre @ bdata b3" "4 \<le> length pre" using f(3) by (auto simp: finished_buf_def)
  have "o' mod 4 = 0" using t(4) by (simp add: table_vals_def)
  then have "8 \<le> o'" using t(5) x by presburger
  then have ro: "root_of D (bdata b3) o'" using fr r o' pre t(6) by (simp add: root_of_def)
  have p: "pow2 (bd_minalign b3)" using t(2) by (auto simp: idle_def bd_inv_def)
  have "length D mod 8 = 0" if "slots_of ops g = Some (Scalar 8 y)" for g y
  proof -
    have "8 \<le> bd_minalign b3" using t(8) that by fastforce
    then show ?thesis by (rule finished_mod [OF f(3) pow2_consts(5) p])
  qed
  with t(1-4,6) f(1,2) ro show ?thesis by blast
qed

theorem build_request_spec:
  assumes i: "idle b0" "bdata b0 = []" "bd_minalign b0 = 1" and n: "length ps \<le> 2 ^ 27"
    and p: "fops_ok 0 pops" "slots_of pops = params_slots p"
    and r: "\<And>a v k. 0 < a \<Longrightarrow> a \<le> k \<Longrightarrow> 0 < v \<Longrightarrow> v \<le> k \<Longrightarrow> fops_ok k (rops a v)"
    and V: "\<And>a v. slots_of (rops a v) = V a v"
    and f: "slot_id fa" "slot_id fv" "\<And>a v. V a v fa = Some (Ref a)" "\<And>a v. V a v fv = Some (Ref v)"
  shows "\<exists>D E o' a v. build_request ps pops rops fa fv b0 = Some D \<and> root_of D E o' \<and> request_at E (V a v) o' a v p ps \<and>
     (\<forall>f y. V a v f = Some (Scalar 8 y) \<longrightarrow> length D mod 8 = 0)"
proof -
  have ps: "\<forall>x\<in>set (map AlphaBetaPair_bytes ps). length x = 12" "length (map AlphaBetaPair_bytes ps) < 2 ^ 32"
    using n by auto
  obtain v b1 where b1: "CreatePairs ps b0 = Some (v, b1)" "idle b1" "ext b0 b1 (12 * length ps + 16)"
    "struct_vec (bdata b1) v 12 (map AlphaBetaPair_bytes ps)" "v \<le> length (bdata b1)" "0 < v" "4 \<le> bd_minalign b1"
    using CreateVectorOfStructs_idle [OF i(1) ps(1) _ ps(2)]
    unfolding CreatePairs_def AlphaBetaPair_size_def by auto
  have v4: "v mod 4 = 0" using b1(4) by (simp add: struct_vec_def)
  have l1: "length (bdata b1) \<le> 12 * length ps + 16" using ext_length [OF b1(3)] i(2) by simp
  have m1: "bd_minalign b1 \<le> 8" using b1(3) i(3) by (auto simp: ext_def)
  have p': "\<forall>x\<in>set pops. op_ok (length (bdata b1)) x" "distinct (map op_slot pops)" "length pops \<le> 8"
    using p(1) by (auto simp: fops_ok_def intro: op_ok_mono [of 0])
  have s1: "length (bdata b1) + 127 + 2 ^ 16 < 2 ^ 31" using l1 n by simp
  obtain a b2 where b2: "build_table pops b1 = Some (a, b2)" "idle b2" "ext b1 b2 381"
    "table_vals (bdata b2) a (slots_of pops)" "length (bdata b1) < a" "a \<le> length (bdata b2)"
    using build_table_spec [OF b1(2) p' s1] by (elim exE conjE) (rule that; assumption)
  have l2: "length (bdata b2) \<le> length (bdata b1) + 381" "length (bdata b1) \<le> length (bdata b2)"
    using ext_length [OF b2(3)] by simp_all
  have m2: "bd_minalign b2 \<le> 8" using b2(3) m1 by (auto simp: ext_def)
  have ro: "fops_ok (length (bdata b2)) (rops a v)" using r b1(5,6) b2(5,6) l2 by simp
  have v4': "4 \<le> v" using b1(6) v4 by presburger
  have s2: "length (bdata b2) + 70000 < 2 ^ 31" "4 \<le> length (bdata b2)"
    using l1 l2 n v4' b1(5) by simp_all
  obtain o' b3 b4 D where b3: "build_table (rops a v) b2 = Some (o', b3)" "bd_Finish o' None False b3 = Some b4"
    "GetBufferPointer b4 = Some D" "root_of D (bdata b3) o'" "ext b2 b3 381" "idle b3" "o' \<le> length (bdata b3)"
    "table_vals (bdata b3) o' (slots_of (rops a v))"
    "\<forall>f y. slots_of (rops a v) f = Some (Scalar 8 y) \<longrightarrow> length D mod 8 = 0"
    using build_root [OF b2(2) ro s2(1) m2 s2(2)] by (elim exE conjE) (rule that; assumption)
  have "Required o' fa b3 = Some True" "Required o' fv b3 = Some True"
    using Required_Ref [OF b3(6,8) _ _ b3(7)] V f by simp_all
  then have "build_request ps pops rops fa fv b0 = Some D"
    using b1(1) b2(1) b3(1-3) by (simp add: build_request_def)
  moreover have "request_at (bdata b3) (V a v) o' a v p ps"
    unfolding request_at_def
    using b3(8) ext_table_vals [OF b3(5) b2(4)] ext_struct_vec [OF b3(5) ext_struct_vec [OF b2(3) b1(4)]] p(2) V
    by simp
  ultimately show ?thesis using b3(4,9) V by (intro exI [of _ D] exI [of _ "bdata b3"] exI [of _ o'] exI [of _ a] exI [of _ v]) simp
qed

section \<open>Responses\<close>

text \<open>The loop that creates one table per row and collects the offsets.\<close>

primrec create_rows :: "pricing_response list \<Rightarrow> builder \<Rightarrow> (offset list \<times> builder) option" where
  "create_rows [] b = Some ([], b)"
| "create_rows (r # rs) b = do {
     (x, b1) \<leftarrow> CreatePricingResponse r b;
     (xs, b2) \<leftarrow> create_rows rs b1;
     Some (x # xs, b2)
   }"

definition build_response :: "pricing_response list \<Rightarrow> (nat \<Rightarrow> fop list) \<Rightarrow> builder \<Rightarrow> buffer option" where
  "build_response rows rops b0 = do {
     (offs, b1) \<leftarrow> create_rows rows b0;
     (v, b2) \<leftarrow> CreateVector_offsets offs b1;
     (o', b3) \<leftarrow> build_table (rops v) b2;
     b4 \<leftarrow> bd_Finish o' None False b3;
     GetBufferPointer b4
   }"

lemma CreatePricingResponse_spec:
  assumes i: "idle b" and sm: "length (bdata b) + 127 + 2 ^ 16 < 2 ^ 31"
  shows "\<exists>o' b'. CreatePricingResponse r b = Some (o', b') \<and> idle b' \<and> ext b b' 381 \<and>
     table_vals (bdata b') o' (row_slots r) \<and> 0 < o' \<and> o' \<le> length (bdata b')"
proof -
  define ops where "ops = [Put F32 12 (unat (pr_hedge_ratio r)), Put F32 10 (unat (pr_price r)),
    Put F32 8 (unat (pr_beta r)), Put F32 6 (unat (pr_alpha r)), Put U32 4 (unat (pr_idx r))]"
  have ok: "\<forall>x\<in>set ops. op_ok (length (bdata b)) x" "distinct (map op_slot ops)" "length ops \<le> 8"
    by (simp_all add: ops_def)
  have "slots_of ops = row_slots r" by (auto simp: slots_of_def ops_def row_slots_def)
  then show ?thesis
    using build_table_spec [OF i ok sm] CreatePricingResponse_build [of r b] unfolding ops_def [symmetric] by auto
qed

lemma create_rows_spec:
  assumes "idle b" and "length (bdata b) + 381 * length rows + 66000 < 2 ^ 31"
  shows "\<exists>offs b'. create_rows rows b = Some (offs, b') \<and> idle b' \<and> ext b b' (381 * length rows) \<and>
     length offs = length rows \<and> (\<forall>p\<in>set offs. 0 < p \<and> p \<le> length (bdata b')) \<and>
     (\<forall>j<length rows. table_vals (bdata b') (offs ! j) (row_slots (rows ! j)))"
  using assms
proof (induction rows arbitrary: b)
  case Nil
  then show ?case by simp
next
  case (Cons r rs)
  have "length (bdata b) + 127 + 2 ^ 16 < 2 ^ 31" using Cons.prems(2) by simp
  from CreatePricingResponse_spec [OF Cons.prems(1) this, of r] obtain x b1 where
    x: "CreatePricingResponse r b = Some (x, b1)" "idle b1" "ext b b1 381"
      "table_vals (bdata b1) x (row_slots r)" "0 < x" "x \<le> length (bdata b1)" by (elim exE conjE) (rule that; assumption)
  have "length (bdata b1) + 381 * length rs + 66000 < 2 ^ 31" using ext_length [OF x(3)] Cons.prems(2) by simp
  from Cons.IH [OF x(2) this] obtain xs b2 where
    xs: "create_rows rs b1 = Some (xs, b2)" "idle b2" "ext b1 b2 (381 * length rs)" "length xs = length rs"
      "\<forall>p\<in>set xs. 0 < p \<and> p \<le> length (bdata b2)"
      "\<forall>j<length rs. table_vals (bdata b2) (xs ! j) (row_slots (rs ! j))" by (elim exE conjE) (rule that; assumption)
  have "\<forall>j<length (r # rs). table_vals (bdata b2) ((x # xs) ! j) (row_slots ((r # rs) ! j))"
    using xs(6) ext_table_vals [OF xs(3) x(4)] by (auto simp: less_Suc_eq_0_disj)
  moreover have "\<forall>p\<in>set (x # xs). 0 < p \<and> p \<le> length (bdata b2)" using xs(5) x(5,6) ext_length [OF xs(3)] by auto
  moreover have "ext b b2 (381 * length (r # rs))" using ext_trans [OF x(3) xs(3)] by simp
  ultimately show ?case using x(1) xs(1,2,4) by (intro exI [of _ "x # xs"] exI [of _ b2]) simp
qed

theorem build_response_spec:
  assumes i: "idle b0" "bdata b0 = []" "bd_minalign b0 = 1" and n: "length rows \<le> 5 * 10 ^ 6"
    and r: "\<And>v k. 0 < v \<Longrightarrow> v \<le> k \<Longrightarrow> fops_ok k (rops v)" and V: "\<And>v. slots_of (rops v) = response_slots h v"
  shows "\<exists>D E o' v offs. build_response rows rops b0 = Some D \<and> root_of D E o' \<and>
     response_at E h o' v offs rows \<and> (h \<noteq> 0 \<longrightarrow> length D mod 8 = 0)"
proof -
  have s0: "length (bdata b0) + 381 * length rows + 66000 < 2 ^ 31" using i(2) n by simp
  from create_rows_spec [OF i(1) s0] obtain offs b1 where
    b1: "create_rows rows b0 = Some (offs, b1)" "idle b1" "ext b0 b1 (381 * length rows)" "length offs = length rows"
      "\<forall>p\<in>set offs. 0 < p \<and> p \<le> length (bdata b1)"
      "\<forall>j<length rows. table_vals (bdata b1) (offs ! j) (row_slots (rows ! j))" by (elim exE conjE) (rule that; assumption)
  have l1: "length (bdata b1) \<le> 381 * length rows" using ext_length [OF b1(3)] i(2) by simp
  have m1: "bd_minalign b1 \<le> 8" using b1(3) i(3) by (auto simp: ext_def)
  have s1: "length (bdata b1) + 4 * length offs + 23 < 2 ^ 31" using l1 n b1(4) by simp
  from CreateVector_offsets_idle [OF b1(2,5) s1] obtain v b2 where
    b2: "CreateVector_offsets offs b1 = Some (v, b2)" "idle b2" "ext b1 b2 (4 * length offs + 16)"
      "ref_vec (bdata b2) v offs" "v \<le> length (bdata b2)" "0 < v" by (elim exE conjE) (rule that; assumption)
  have "v mod 4 = 0" using b2(4) by (simp add: ref_vec_def)
  then have v4: "4 \<le> v" using b2(6) by presburger
  have l2: "length (bdata b2) \<le> length (bdata b1) + 4 * length offs + 16" using ext_length [OF b2(3)] by simp
  have m2: "bd_minalign b2 \<le> 8" using b2(3) m1 by (auto simp: ext_def)
  have ro: "fops_ok (length (bdata b2)) (rops v)" using r b2(5,6) by simp
  have s2: "length (bdata b2) + 70000 < 2 ^ 31" "4 \<le> length (bdata b2)" using l1 l2 n v4 b2(5) b1(4) by simp_all
  obtain o' b3 b4 D where b3: "build_table (rops v) b2 = Some (o', b3)" "bd_Finish o' None False b3 = Some b4"
    "GetBufferPointer b4 = Some D" "root_of D (bdata b3) o'" "ext b2 b3 381"
    "table_vals (bdata b3) o' (slots_of (rops v))"
    "\<forall>f y. slots_of (rops v) f = Some (Scalar 8 y) \<longrightarrow> length D mod 8 = 0"
    using build_root [OF b2(2) ro s2(1) m2 s2(2)] by (elim exE conjE) (rule that; assumption)
  have "build_response rows rops b0 = Some D"
    using b1(1) b2(1) b3(1-3) by (simp add: build_response_def)
  moreover have "response_at (bdata b3) h o' v offs rows"
    unfolding response_at_def
    using b3(6) V b1(4,6) ext_ref_vec [OF b3(5) b2(4)] ext_table_vals [OF b3(5) ext_table_vals [OF b2(3)]] by simp
  moreover have "h \<noteq> 0 \<longrightarrow> length D mod 8 = 0"
    using b3(7) V [of v] by (auto simp: response_slots_def opt_slot_def unsigned_eq_0_iff split: if_splits)
  ultimately show ?thesis using b3(4) by (intro exI conjI) assumption+
qed

section \<open>Reading and checking a whole message\<close>

text \<open>Every request of the client's shape, and every batch of the worker's shape.\<close>

lemma root_of_Verify:
  assumes r: "root_of D E o'" and T: "passes (T (addr D o')) D 0 d' j" and j: "j \<le> max_tables_nat"
  shows "\<exists>vr'. VerifyBuffer T None (mk_verifier D default_options) = Some (True, vr')"
proof (rule VerifyBuffer_passes)
  show "framed D E" "GetRoot D = Some (addr D o')" "o' < length D" "0 < o'" "12 \<le> length D"
    using r by (simp_all add: root_of_def)
  show "passes (T (addr D o')) D 0 d' j" "j \<le> max_tables_nat" by (fact T, fact j)
qed

text \<open>
  The check of the receivers that start at an unverified root: \<open>GetRoot\<close>, then the table's own
  \<open>Verify\<close>.  It reads the root offset, so it needs four bytes.
\<close>

definition root_check :: "(int \<Rightarrow> vm) \<Rightarrow> buffer \<Rightarrow> bool option" where
  "root_check T D = do { t \<leftarrow> GetRoot D; (ok, _) \<leftarrow> T t (mk_verifier D default_options); Some ok }"

definition root_read :: "(buffer \<Rightarrow> int \<Rightarrow> 'a option) \<Rightarrow> buffer \<Rightarrow> 'a option" where
  "root_read rd D = do { t \<leftarrow> GetRoot D; rd D t }"

lemma GetRoot_near: "4 \<le> length D \<Longrightarrow> \<exists>t. GetRoot D = Some t \<and> near D t"
proof -
  assume l: "4 \<le> length D"
  define bs where "bs = take 4 D"
  have r: "ReadScalar 4 D 0 = Some (le_nat bs)"
    using l by (simp add: ReadScalar_def peek_def bs_def ReadScalar_host_False)
  have "length bs = 4" using l by (simp add: bs_def)
  then have "le_nat bs < 256 ^ 4" using le_nat_less [of bs] by simp
  with r show ?thesis by (auto simp: GetRoot_def GetMutableRoot_def near_def)
qed

lemma root_check_safe:
  assumes T: "\<And>t. near D t \<Longrightarrow> vsafe D (T t) (P t)" and l: "4 \<le> length D"
  shows "\<exists>ok. root_check T D = Some ok \<and> (ok \<longrightarrow> (\<exists>t. GetRoot D = Some t \<and> P t))"
proof -
  obtain t where t: "GetRoot D = Some t" "near D t" using GetRoot_near [OF l] by blast
  have "vr_buf (mk_verifier D default_options) = D" by (simp add: mk_verifier_def)
  with T [OF t(2)] obtain ok w where "T t (mk_verifier D default_options) = Some (ok, w)" "ok \<longrightarrow> P t"
    unfolding vsafe_def by blast
  with t show ?thesis by (simp add: root_check_def)
qed

lemma root_check_passes:
  assumes r: "root_of D E o'" and T: "passes (T (addr D o')) D 0 d' j" and j: "j \<le> max_tables_nat"
  shows "root_check T D = Some True"
proof -
  have "0 + j \<le> max_tables_nat" using j by simp
  from passesD [OF T ready_mk_verifier this] obtain w where
    "T (addr D o') (mk_verifier D default_options) = Some (True, w)" by blast
  with r show ?thesis by (simp add: root_check_def root_of_def)
qed

end
