(* ===== verification/Pricer.thy ===== *)
theory Pricer
  imports Schema_Message Float32
begin

text \<open>
  \<open>src/range_pricer.cpp\<close>: the SIMD kernel, its plain C++ entry point \<open>price\<close> and the message entry
  point \<open>process\<close> of the worker threads.  Highway and the platform's \<open>exp\<close> are the record
  \<open>platform\<close>; \<open>platform_ok\<close> states the documented behaviour the code relies on, with one function
  of a lane for \<open>hn::Exp\<close>.  An array is a list with its address; None is undefined behaviour.
\<close>

section \<open>Highway and exp\<close>

record platform =
  hn_Lanes :: nat
  hn_Set :: "f32 \<Rightarrow> f32 list"
  hn_Neg :: "f32 list \<Rightarrow> f32 list"
  hn_Mul :: "f32 list \<Rightarrow> f32 list \<Rightarrow> f32 list"
  hn_Exp :: "f32 list \<Rightarrow> f32 list"
  hn_Zero :: "f32 list"
  hn_Store :: "f32 list \<Rightarrow> nat \<Rightarrow> nat \<Rightarrow> f32 list \<Rightarrow> f32 list option"
  std_exp :: "f32 \<Rightarrow> f32"

definition aligned_at :: "nat \<Rightarrow> nat \<Rightarrow> bool" where
  "aligned_at n a \<longleftrightarrow> a mod (4 * n) = 0"

text \<open>
  \<open>hn_Store v base i arr\<close> stores at element \<open>i\<close> of the array \<open>arr\<close> that starts at address
  \<open>base\<close>; Highway documents it for addresses aligned to the vector size only.
\<close>

definition platform_ok :: "platform \<Rightarrow> (f32 \<Rightarrow> f32) \<Rightarrow> bool" where
  "platform_ok pf lane_exp \<longleftrightarrow> 0 < hn_Lanes pf \<and>
     (\<forall>x. hn_Set pf x = replicate (hn_Lanes pf) x) \<and>
     (\<forall>v. hn_Neg pf v = map f32_neg v) \<and>
     (\<forall>v w. hn_Mul pf v w = map2 f32_mul v w) \<and>
     (\<forall>v. hn_Exp pf v = map lane_exp v) \<and>
     hn_Zero pf = replicate (hn_Lanes pf) 0 \<and>
     (\<forall>v base i arr. length v = hn_Lanes pf \<longrightarrow> i + hn_Lanes pf \<le> length arr \<longrightarrow>
        aligned_at (hn_Lanes pf) (base + 4 * i) \<longrightarrow>
        hn_Store pf v base i arr = Some (take i arr @ v @ drop (i + hn_Lanes pf) arr))"

section \<open>The kernel\<close>

text \<open>The body of full vectors: it returns the first index not done, and both arrays.\<close>

partial_function (option) store_loop ::
    "platform \<Rightarrow> f32 list \<Rightarrow> f32 list \<Rightarrow> nat \<Rightarrow> nat \<Rightarrow> nat \<Rightarrow> nat \<Rightarrow> f32 list \<Rightarrow> f32 list \<Rightarrow>
     (nat \<times> f32 list \<times> f32 list) option" where
  "store_loop pf v_pv v_hr base_p base_h cnt i prices hedge_ratios =
     (if i + hn_Lanes pf \<le> cnt
      then do {
        prices' \<leftarrow> hn_Store pf v_pv base_p i prices;
        hedge_ratios' \<leftarrow> hn_Store pf v_hr base_h i hedge_ratios;
        store_loop pf v_pv v_hr base_p base_h cnt (i + hn_Lanes pf) prices' hedge_ratios'
      }
      else Some (i, prices, hedge_ratios))"

text \<open>\<open>arr[i] = x\<close>.\<close>

definition set_at :: "'a list \<Rightarrow> nat \<Rightarrow> 'a \<Rightarrow> 'a list option" where
  "set_at arr i x = (if i < length arr then Some (arr[i := x]) else None)"

text \<open>The scalar tail: \<open>n\<close> elements from index \<open>i\<close>.\<close>

fun tail_loop :: "f32 \<Rightarrow> nat \<Rightarrow> nat \<Rightarrow> f32 list \<Rightarrow> f32 list \<Rightarrow> (f32 list \<times> f32 list) option" where
  "tail_loop pv 0 i prices hedge_ratios = Some (prices, hedge_ratios)"
| "tail_loop pv (Suc n) i prices hedge_ratios = do {
     prices' \<leftarrow> set_at prices i pv;
     hedge_ratios' \<leftarrow> set_at hedge_ratios i 0;
     tail_loop pv n (i + 1) prices' hedge_ratios'
   }"

definition vectorized_price ::
    "platform \<Rightarrow> f32 \<Rightarrow> f32 \<Rightarrow> f32 \<Rightarrow> f32 \<Rightarrow> f32 \<Rightarrow> f32 list \<Rightarrow> f32 list \<Rightarrow> nat \<Rightarrow> f32 list \<Rightarrow> nat \<Rightarrow> f32 list \<Rightarrow>
     nat \<Rightarrow> (f32 list \<times> f32 list) option" where
  "vectorized_price pf S K r T ds alphas betas base_p prices base_h hedge_ratios cnt =
     (let v_r = hn_Set pf r;
          v_T = hn_Set pf T;
          v_neg_rT = hn_Neg pf (hn_Mul pf v_r v_T);
          v_pv = hn_Exp pf v_neg_rT;
          v_hr = hn_Zero pf
      in do {
        (i, prices', hedge_ratios') \<leftarrow> store_loop pf v_pv v_hr base_p base_h cnt 0 prices hedge_ratios;
        (if i < cnt
         then tail_loop (std_exp pf (f32_mul (f32_neg r) T)) (cnt - i) i prices' hedge_ratios'
         else Some (prices', hedge_ratios'))
      })"

section \<open>price\<close>

datatype pricer_error = invalid_argument string

record PricingInput =
  pi_idx :: u32
  pi_alpha :: f32
  pi_beta :: f32

record PricingOutput =
  po_idx :: u32
  po_alpha :: f32
  po_beta :: f32
  po_price :: f32
  po_hedge_ratio :: f32

text \<open>The checks both entry points start with; \<open>x <= 0\<close> is false for a NaN.\<close>

definition check_params :: "f32 \<Rightarrow> f32 \<Rightarrow> pricer_error option" where
  "check_params time_to_maturity stock_discretization =
     (if f32_le time_to_maturity 0 then Some (invalid_argument ''time_to_maturity must be positive'')
      else if f32_le stock_discretization 0 then Some (invalid_argument ''stock_discretization must be positive'')
      else None)"

text \<open>\<open>addr_p\<close> and \<open>addr_h\<close> are the addresses of the two result vectors of \<open>n\<close> floats.\<close>

definition price ::
    "platform \<Rightarrow> nat \<Rightarrow> nat \<Rightarrow> OptionType \<Rightarrow> f32 \<Rightarrow> f32 \<Rightarrow> f32 \<Rightarrow> f32 \<Rightarrow> f32 \<Rightarrow> PricingInput list \<Rightarrow>
     (pricer_error + PricingOutput list) option" where
  "price pf addr_p addr_h option_type stock_price strike_price interest_rate time_to_maturity
     stock_discretization inputs =
     (case check_params time_to_maturity stock_discretization of
        Some e \<Rightarrow> Some (Inl e)
      | None \<Rightarrow>
          (let n = length inputs
           in if n = 0 then Some (Inr [])
              else do {
                (prices, hedge_ratios) \<leftarrow> vectorized_price pf stock_price strike_price interest_rate
                   time_to_maturity stock_discretization (map pi_alpha inputs) (map pi_beta inputs)
                   addr_p (replicate n 0) addr_h (replicate n 0) n;
                Some (Inr (map (\<lambda>i. \<lparr>po_idx = pi_idx (inputs ! i), po_alpha = pi_alpha (inputs ! i),
                   po_beta = pi_beta (inputs ! i), po_price = prices ! i, po_hedge_ratio = hedge_ratios ! i\<rparr>)
                   [0..<n]))
              }))"

section \<open>process\<close>

text \<open>\<open>fresh\<close> is what newly allocated memory holds.\<close>

definition builder_of :: "nat \<Rightarrow> (nat \<Rightarrow> byte list) \<Rightarrow> builder" where
  "builder_of initial_size fresh = mk_builder initial_size fresh 8"

definition process ::
    "platform \<Rightarrow> nat \<Rightarrow> nat \<Rightarrow> (nat \<Rightarrow> byte list) \<Rightarrow> pricing_params \<Rightarrow> AlphaBetaPair list \<Rightarrow> u64 \<Rightarrow>
     (pricer_error + buffer) option" where
  "process pf addr_p addr_h fresh params pairs batch_id =
     (case check_params (pp_time_to_maturity params) (pp_stock_discretization params) of
        Some e \<Rightarrow> Some (Inl e)
      | None \<Rightarrow>
          (let n = length pairs; alphas = map ab_alpha pairs; betas = map ab_beta pairs
           in do {
             (prices, hedge_ratios) \<leftarrow> vectorized_price pf (pp_stock_price params) (pp_strike_price params)
                (pp_interest_rate params) (pp_time_to_maturity params) (pp_stock_discretization params)
                alphas betas addr_p (replicate n 0) addr_h (replicate n 0) n;
             (result_offsets, b1) \<leftarrow> create_rows
                (map (\<lambda>i. \<lparr>pr_idx = ab_idx (pairs ! i), pr_alpha = alphas ! i, pr_beta = betas ! i,
                   pr_price = prices ! i, pr_hedge_ratio = hedge_ratios ! i\<rparr>) [0..<n])
                (builder_of 512 fresh);
             (results_vec, b2) \<leftarrow> CreateVector_offsets result_offsets b1;
             (batch_response, b3) \<leftarrow> CreateBatchPricingResponse batch_id results_vec b2;
             b4 \<leftarrow> bd_Finish batch_response None False b3;
             buf \<leftarrow> GetBufferPointer b4;
             Some (Inr buf)
           }))"

section \<open>What the kernel computes\<close>

text \<open>
  The value of element \<open>i\<close> of \<open>n\<close>: the vector exponential for the elements of full vectors, the
  scalar one for the rest.
\<close>

definition kernel_price :: "platform \<Rightarrow> (f32 \<Rightarrow> f32) \<Rightarrow> f32 \<Rightarrow> f32 \<Rightarrow> nat \<Rightarrow> nat \<Rightarrow> f32" where
  "kernel_price pf lane_exp r T n i =
     (if i < n div hn_Lanes pf * hn_Lanes pf then lane_exp (f32_neg (f32_mul r T))
      else std_exp pf (f32_mul (f32_neg r) T))"

lemma tail_loop_eq:
  assumes "i + n \<le> length ps" and "i + n \<le> length hs"
  shows "tail_loop pv n i ps hs =
    Some (take i ps @ replicate n pv @ drop (i + n) ps, take i hs @ replicate n 0 @ drop (i + n) hs)"
  using assms
proof (induction n arbitrary: i ps hs)
  case 0
  then show ?case by simp
next
  case (Suc n)
  have upd: "take (Suc i) (xs[i := x]) = take i xs @ [x]" if "i < length xs" for xs :: "f32 list" and x
    using that by (simp add: take_Suc_conv_app_nth)
  from Suc show ?case by (simp add: set_at_def upd)
qed

lemma aligned_step: "aligned_at n a \<Longrightarrow> aligned_at n (a + 4 * (k * n))"
  unfolding aligned_at_def using mod_mult_self1 [of a k "4 * n"] by (simp add: mult.left_commute)

lemma store_loop_eq:
  assumes pf: "platform_ok pf e" and v: "length v = hn_Lanes pf" "length w = hn_Lanes pf"
    and al: "aligned_at (hn_Lanes pf) bp" "aligned_at (hn_Lanes pf) bh"
    and i: "i = k * hn_Lanes pf" "i \<le> c" and l: "length ps = c" "length hs = c"
    and c: "c div hn_Lanes pf = k + m"
  shows "store_loop pf v w bp bh c i ps hs =
    Some (c div hn_Lanes pf * hn_Lanes pf,
      take i ps @ concat (replicate m v) @ drop (c div hn_Lanes pf * hn_Lanes pf) ps,
      take i hs @ concat (replicate m w) @ drop (c div hn_Lanes pf * hn_Lanes pf) hs)"
  using i l c
proof (induction m arbitrary: i k ps hs)
  case 0
  have "0 < hn_Lanes pf" using pf by (simp add: platform_ok_def)
  then have "\<not> i + hn_Lanes pf \<le> c"
    using 0 dividend_less_div_times [of "hn_Lanes pf" c] by (simp add: add.commute)
  then show ?case using 0 by (subst store_loop.simps) simp
next
  case (Suc m)
  define N where "N = hn_Lanes pf"
  define q where "q = c div N * N"
  have N: "0 < N" using pf by (simp add: platform_ok_def N_def)
  have kN: "i + N = (k + 1) * N" using Suc.prems(1) by (simp add: N_def)
  have "(k + 1) * N \<le> c div N * N" using Suc.prems(5) by (intro mult_right_mono) (simp_all add: N_def)
  then have le: "i + N \<le> q" using kN by (simp add: q_def)
  moreover have "q \<le> c" by (simp add: q_def)
  ultimately have lc: "i + N \<le> c" by linarith
  have ali: "aligned_at N (bp + 4 * i)" "aligned_at N (bh + 4 * i)"
    using al [THEN aligned_step, of k] Suc.prems(1) by (simp_all add: N_def)
  note pfu = pf [unfolded platform_ok_def, folded N_def]
  have st: "hn_Store pf v bp i ps = Some (take i ps @ v @ drop (i + N) ps)"
    "hn_Store pf w bh i hs = Some (take i hs @ w @ drop (i + N) hs)"
    using pfu v Suc.prems(3,4) lc ali by (simp_all add: N_def [symmetric])
  define ps' where "ps' = take i ps @ v @ drop (i + N) ps"
  define hs' where "hs' = take i hs @ w @ drop (i + N) hs"
  have l': "length ps' = c" "length hs' = c"
    using Suc.prems(3,4) lc v by (simp_all add: ps'_def hs'_def N_def [symmetric])
  have c': "c div hn_Lanes pf = (k + 1) + m" using Suc.prems(5) by simp
  have IH: "store_loop pf v w bp bh c (i + N) ps' hs' =
     Some (q, take (i + N) ps' @ concat (replicate m v) @ drop q ps', take (i + N) hs' @ concat (replicate m w) @ drop q hs')"
    using Suc.IH [OF _ _ l' c', of "i + N"] kN lc by (simp add: q_def N_def)
  have "take (i + N) ps' = take i ps @ v" "drop q ps' = drop q ps"
    "take (i + N) hs' = take i hs @ w" "drop q hs' = drop q hs"
    using Suc.prems(3,4) lc le v by (simp_all add: ps'_def hs'_def N_def [symmetric])
  moreover have "store_loop pf v w bp bh c i ps hs = store_loop pf v w bp bh c (i + N) ps' hs'"
    using st lc by (subst store_loop.simps) (simp add: N_def [symmetric] ps'_def hs'_def)
  ultimately show ?case using IH by (simp add: q_def N_def)
qed

lemma concat_replicate_replicate: "concat (replicate m (replicate n x)) = replicate (m * n) x"
  by (induction m) (simp_all add: replicate_add [symmetric])

lemma vectorized_price_eq:
  assumes pf: "platform_ok pf e" and al: "aligned_at (hn_Lanes pf) bp" "aligned_at (hn_Lanes pf) bh"
    and l: "length ps = n" "length hs = n"
  shows "vectorized_price pf S K r T ds as bs bp ps bh hs n =
    Some (map (kernel_price pf e r T n) [0..<n], replicate n 0)"
proof -
  define N where "N = hn_Lanes pf"
  define q where "q = n div N * N"
  have q: "q \<le> n" by (simp add: q_def)
  define x where "x = e (f32_neg (f32_mul r T))"
  define y where "y = std_exp pf (f32_mul (f32_neg r) T)"
  have v: "hn_Exp pf (hn_Neg pf (hn_Mul pf (hn_Set pf r) (hn_Set pf T))) = replicate N x"
    "hn_Zero pf = replicate N 0"
    using pf by (simp_all add: platform_ok_def N_def x_def zip_replicate)
  have lv: "length (replicate N x) = hn_Lanes pf" "length (replicate N (0 :: f32)) = hn_Lanes pf"
    by (simp_all add: N_def)
  have "store_loop pf (replicate N x) (replicate N 0) bp bh n 0 ps hs =
      Some (q, replicate q x @ drop q ps, replicate q 0 @ drop q hs)"
    using store_loop_eq [OF pf lv al, of 0 0 n ps hs "n div N"] l
    by (simp add: N_def [symmetric] q_def concat_replicate_replicate)
  moreover have "map (kernel_price pf e r T n) [0..<n] = replicate q x @ replicate (n - q) y"
    using q by (intro nth_equalityI) (auto simp: kernel_price_def nth_append N_def [symmetric] q_def [symmetric] x_def y_def)
  moreover have "replicate q (0 :: f32) @ replicate (n - q) 0 = replicate n 0"
    using q by (simp add: replicate_add [symmetric])
  ultimately show ?thesis
    using v q l by (auto simp: vectorized_price_def tail_loop_eq y_def [symmetric])
qed

section \<open>Both entry points\<close>

text \<open>The rows both produce.\<close>

definition priced :: "platform \<Rightarrow> (f32 \<Rightarrow> f32) \<Rightarrow> pricing_params \<Rightarrow> AlphaBetaPair list \<Rightarrow> pricing_response list" where
  "priced pf lane_exp p pairs = map (\<lambda>i. \<lparr>pr_idx = ab_idx (pairs ! i), pr_alpha = ab_alpha (pairs ! i),
     pr_beta = ab_beta (pairs ! i),
     pr_price = kernel_price pf lane_exp (pp_interest_rate p) (pp_time_to_maturity p) (length pairs) i,
     pr_hedge_ratio = 0\<rparr>) [0..<length pairs]"

lemma length_priced [simp]: "length (priced pf e p ps) = length ps"
  by (simp add: priced_def)

definition input_of :: "AlphaBetaPair \<Rightarrow> PricingInput" where
  "input_of p = \<lparr>pi_idx = ab_idx p, pi_alpha = ab_alpha p, pi_beta = ab_beta p\<rparr>"

definition output_of :: "pricing_response \<Rightarrow> PricingOutput" where
  "output_of r = \<lparr>po_idx = pr_idx r, po_alpha = pr_alpha r, po_beta = pr_beta r, po_price = pr_price r,
     po_hedge_ratio = pr_hedge_ratio r\<rparr>"

abbreviation price_of :: "platform \<Rightarrow> nat \<Rightarrow> nat \<Rightarrow> pricing_params \<Rightarrow> AlphaBetaPair list \<Rightarrow>
    (pricer_error + PricingOutput list) option" where
  "price_of pf ap ah p ps \<equiv> price pf ap ah (pp_option_type p) (pp_stock_price p) (pp_strike_price p)
     (pp_interest_rate p) (pp_time_to_maturity p) (pp_stock_discretization p) (map input_of ps)"

abbreviation check_of :: "pricing_params \<Rightarrow> pricer_error option" where
  "check_of p \<equiv> check_params (pp_time_to_maturity p) (pp_stock_discretization p)"

lemma price_eq:
  assumes "platform_ok pf e" and "aligned_at (hn_Lanes pf) ap" "aligned_at (hn_Lanes pf) ah"
    and "check_of p = None"
  shows "price_of pf ap ah p ps = Some (Inr (map output_of (priced pf e p ps)))"
proof (cases "ps = []")
  case True
  with assms(4) show ?thesis by (simp add: price_def priced_def)
next
  case False
  with assms(4) vectorized_price_eq [OF assms(1-3)] show ?thesis
    by (simp add: price_def priced_def Let_def output_of_def input_of_def)
qed

definition response_ops :: "u64 \<Rightarrow> nat \<Rightarrow> fop list" where
  "response_ops i v = [Put U64 4 (unat i), Link 6 v]"

lemma response_ops_ok: "0 < v \<Longrightarrow> v \<le> k \<Longrightarrow> fops_ok k (response_ops i v)"
  by (simp add: fops_ok_def response_ops_def)

lemma slots_response_ops: "slots_of (response_ops i v) = response_slots i v"
  by (simp add: slots_of_def response_ops_def response_slots_def)

lemma CreateBatchPricingResponse_build: "CreateBatchPricingResponse i v = build_table (response_ops i v)"
  by (rule ext) (simp add: CreateBatchPricingResponse_def build_table_def response_ops_def BS_VT_BATCH_ID_def
      BS_VT_RESULTS_def)

lemma CreateRangePricingResponse_build: "CreateRangePricingResponse i v = build_table (response_ops i v)"
  by (rule ext) (simp add: CreateRangePricingResponse_def build_table_def response_ops_def RS_VT_REQUEST_HASH_def
      RS_VT_RESULTS_def)

lemma process_eq:
  assumes "platform_ok pf e" and "aligned_at (hn_Lanes pf) ap" "aligned_at (hn_Lanes pf) ah"
    and "check_of p = None"
  shows "process pf ap ah fresh p ps i =
    map_option Inr (build_response (priced pf e p ps) (response_ops i) (builder_of 512 fresh))"
proof -
  have "map (\<lambda>j. \<lparr>pr_idx = ab_idx (ps ! j), pr_alpha = map ab_alpha ps ! j, pr_beta = map ab_beta ps ! j,
      pr_price = map (kernel_price pf e (pp_interest_rate p) (pp_time_to_maturity p) (length ps)) [0..<length ps] ! j,
      pr_hedge_ratio = replicate (length ps) 0 ! j\<rparr>) [0..<length ps] = priced pf e p ps"
    by (simp add: priced_def)
  then show ?thesis
    using vectorized_price_eq [OF assms(1-3)] assms(4)
    by (simp add: process_def build_response_def Let_def CreateBatchPricingResponse_build map_option_case
        split: bind_splits option.splits)
qed

lemma builder_of_fresh:
  assumes "\<forall>n. length (fresh n) = n"
  shows "idle (builder_of k fresh)" "bdata (builder_of k fresh) = []" "bd_minalign (builder_of k fresh) = 1"
  using idle_mk_builder [OF assms, of 8 k] by (simp_all add: builder_of_def)

text \<open>The message that \<open>process\<close> returns.\<close>

lemma process_message:
  assumes pf: "platform_ok pf e" "aligned_at (hn_Lanes pf) ap" "aligned_at (hn_Lanes pf) ah"
    and c: "check_of p = None" and fresh: "\<forall>n. length (fresh n) = n" and n: "length ps \<le> 5 * 10 ^ 6"
  shows "\<exists>D E o' v offs. process pf ap ah fresh p ps i = Some (Inr D) \<and> root_of D E o' \<and>
     response_at E i o' v offs (priced pf e p ps) \<and> (i \<noteq> 0 \<longrightarrow> length D mod 8 = 0)"
proof -
  have "length (priced pf e p ps) \<le> 5 * 10 ^ 6" using n by simp
  then have "\<exists>D E o' v offs. build_response (priced pf e p ps) (response_ops i) (builder_of 512 fresh) = Some D \<and>
     root_of D E o' \<and> response_at E i o' v offs (priced pf e p ps) \<and> (i \<noteq> 0 \<longrightarrow> length D mod 8 = 0)"
    by (rule build_response_spec [OF builder_of_fresh [OF fresh]]) (simp_all add: response_ops_ok slots_response_ops)
  then obtain D E o' v offs where
    "build_response (priced pf e p ps) (response_ops i) (builder_of 512 fresh) = Some D" "root_of D E o'"
    "response_at E i o' v offs (priced pf e p ps)" "i \<noteq> 0 \<longrightarrow> length D mod 8 = 0"
    by (elim exE conjE) (rule that; assumption)
  with process_eq [OF pf c, of fresh ps i] show ?thesis by (intro exI conjI) (simp, assumption+)
qed

end
