(* ===== verification/Codec.thy ===== *)
theory Codec
  imports Prelude
begin

text \<open>
  The contract between the sender and the receiver of a message.  A receiver checks the bytes and
  then reads them; a format is safe when checking always ends and a checked message can be read.  A
  codec adds the sender: what it encodes is accepted and read back as \<open>canon\<close> of what was sent.
\<close>

locale message_format =
  fixes fits :: "byte list \<Rightarrow> bool"
    and check :: "byte list \<Rightarrow> bool option"
    and read :: "byte list \<Rightarrow> 'b option"
  assumes check_total: "fits D \<Longrightarrow> check D \<noteq> None"
    and check_sound: "fits D \<Longrightarrow> check D = Some True \<Longrightarrow> read D \<noteq> None"
begin

definition receive :: "byte list \<Rightarrow> 'b option option" where
  "receive D = do { ok \<leftarrow> check D; (if ok then map_option Some (read D) else Some None) }"

lemma receive_total: "fits D \<Longrightarrow> \<exists>r. receive D = Some r"
  using check_total [of D] check_sound [of D] by (cases "check D") (auto simp: receive_def)

lemma receive_None: "fits D \<Longrightarrow> receive D = Some None \<longleftrightarrow> check D = Some False"
  using check_total [of D] by (cases "check D") (auto simp: receive_def)

lemma receive_Some: "receive D = Some (Some x) \<longleftrightarrow> check D = Some True \<and> read D = Some x"
  by (cases "check D") (auto simp: receive_def)

end

locale message_codec = message_format fits check read
  for fits :: "byte list \<Rightarrow> bool" and check :: "byte list \<Rightarrow> bool option" and read :: "byte list \<Rightarrow> 'b option" +
  fixes valid :: "'a \<Rightarrow> bool"
    and encode :: "'a \<Rightarrow> byte list option"
    and canon :: "'a \<Rightarrow> 'b"
  assumes encode_total: "valid x \<Longrightarrow> \<exists>D. encode x = Some D"
    and encode_accepted: "valid x \<Longrightarrow> encode x = Some D \<Longrightarrow> check D = Some True"
    and encode_read: "valid x \<Longrightarrow> encode x = Some D \<Longrightarrow> read D = Some (canon x)"
begin

lemma deliver: "valid x \<Longrightarrow> \<exists>D. encode x = Some D \<and> receive D = Some (Some (canon x))"
  using encode_total [of x] encode_accepted [of x] encode_read [of x] by (auto simp: receive_Some)

lemma deliver_all:
  assumes "\<forall>x\<in>set xs. valid x"
  shows "\<exists>Ds. those (map encode xs) = Some Ds \<and> map receive Ds = map (\<lambda>x. Some (Some (canon x))) xs"
  using assms
proof (induction xs)
  case Nil
  then show ?case by simp
next
  case (Cons x xs)
  obtain D where D: "encode x = Some D" "receive D = Some (Some (canon x))" using deliver [of x] Cons.prems by auto
  have "\<forall>x\<in>set xs. valid x" using Cons.prems by simp
  from Cons.IH [OF this] obtain Ds where Ds: "those (map encode xs) = Some Ds" "map receive Ds = map (\<lambda>x. Some (Some (canon x))) xs"
    by (elim exE conjE) (rule that; assumption)
  show ?case by (intro exI [of _ "D # Ds"]) (simp add: D Ds)
qed

text \<open>Equal bytes come from messages with equal contents.\<close>

lemma encode_inj: "valid x \<Longrightarrow> valid y \<Longrightarrow> encode x = Some D \<Longrightarrow> encode y = Some D \<Longrightarrow> canon x = canon y"
  using encode_read [of x D] encode_read [of y D] by simp

end

end
