(* ===== verification/Worker.thy ===== *)
theory Worker
  imports Pricer Codec
begin

text \<open>
  \<open>src/worker.cpp\<close>: slicing a request into batches, the worker threads' handler, and the server's
  handler with the reply.  Overflow and division by zero in an \<open>int\<close> are undefined behaviour, None.
\<close>

section \<open>Machine integers and affinity\<close>

text \<open>
  \<open>static_cast<int>\<close> of a 32-bit unsigned value.
\<close>

definition int_of_u32 :: "nat \<Rightarrow> int" where
  "int_of_u32 n = sint (word_of_nat n :: 32 word)"

text \<open>
  The CPU that \<open>set_thread_affinity\<close> asks for on Linux: \<open>Some None\<close> when the number of CPUs is
  unknown.  \<open>ncpus\<close> is \<open>hardware_concurrency()\<close>.
\<close>

definition set_thread_affinity :: "nat \<Rightarrow> int \<Rightarrow> int option option" where
  "set_thread_affinity hardware_concurrency cpu_index =
     (let ncpus = int_of_u32 hardware_concurrency
      in if ncpus = 0 then Some None else do { cpu \<leftarrow> int_rem cpu_index ncpus; Some (Some cpu) })"

section \<open>Batch expansion\<close>

datatype server_error = length_error

definition worker_params :: "pricing_params \<Rightarrow> builder \<Rightarrow> (offset \<times> builder) option" where
  "worker_params base b = do {
     (s, b0) \<leftarrow> StartTable b;
     (let b1 = AddElement F32 PP_VT_STOCK_PRICE (unat (pp_stock_price base)) 0 b0;
          b2 = AddElement F32 PP_VT_STRIKE_PRICE (unat (pp_strike_price base)) 0 b1;
          b3 = AddElement F32 PP_VT_INTEREST_RATE (unat (pp_interest_rate base)) 0 b2;
          b4 = AddElement F32 PP_VT_TIME_TO_MATURITY (unat (pp_time_to_maturity base)) 0 b3;
          b5 = AddElement F32 PP_VT_STOCK_DISCRETIZATION (unat (pp_stock_discretization base)) 0 b4
      in EndTable s b5)
   }"

definition batch_counter_id :: "u64 \<Rightarrow> int \<Rightarrow> u64" where
  "batch_counter_id request_hash c = request_hash * 1000 + word_of_int c"

text \<open>The body of the loop from the builder on: one batch message.\<close>

definition make_batch :: "(nat \<Rightarrow> byte list) \<Rightarrow> range_request \<Rightarrow> AlphaBetaPair list \<Rightarrow> int \<Rightarrow> buffer option" where
  "make_batch fresh rr chunk_pairs c = do {
     (pairs_vec, b1) \<leftarrow> CreatePairs chunk_pairs (builder_of 512 fresh);
     (request, b2) \<leftarrow> worker_params (rq_params rr) b1;
     (s, b3) \<leftarrow> StartTable b2;
     b5 \<leftarrow> AddOffset BR_VT_REQUEST request
             (AddElement U64 BR_VT_BATCH_COUNTER_ID (unat (batch_counter_id (rq_hash rr) c)) 0 b3);
     b6 \<leftarrow> AddOffset BR_VT_PAIRS pairs_vec b5;
     (root, b7) \<leftarrow> BatchPricingRequestBuilder_Finish s b6;
     b8 \<leftarrow> bd_Finish root None False b7;
     GetBufferPointer b8
   }"

text \<open>\<open>pairs->Get(i)\<close> for \<open>i\<close> from \<open>start\<close> to \<open>end\<close>.\<close>

definition Get_pairs :: "AlphaBetaPair list \<Rightarrow> nat \<Rightarrow> nat \<Rightarrow> AlphaBetaPair list option" where
  "Get_pairs pairs start end' =
     those (map (\<lambda>i. if i < length pairs then Some (pairs ! i) else None) [start..<end'])"

text \<open>\<open>reserve\<close> of a negative number is a request for a huge one, which throws.\<close>

fun expand_loop ::
    "(nat \<Rightarrow> byte list) \<Rightarrow> range_request \<Rightarrow> int \<Rightarrow> int \<Rightarrow> nat \<Rightarrow> int \<Rightarrow> (server_error + buffer list) option" where
  "expand_loop fresh rr chunk_sz total' 0 c = Some (Inr [])"
| "expand_loop fresh rr chunk_sz total' (Suc n) c = do {
     start \<leftarrow> int_op (c * chunk_sz);
     e \<leftarrow> int_op (start + chunk_sz);
     (let end' = min e total'
      in if end' - start < 0 then Some (Inl length_error)
         else do {
           chunk_pairs \<leftarrow> Get_pairs (rq_pairs rr) (nat start) (nat end');
           b \<leftarrow> make_batch fresh rr chunk_pairs c;
           rest \<leftarrow> expand_loop fresh rr chunk_sz total' n (c + 1);
           Some (case rest of Inl x \<Rightarrow> Inl x | Inr bs \<Rightarrow> Inr (b # bs))
         })
   }"

definition expand_to_batches ::
    "(nat \<Rightarrow> byte list) \<Rightarrow> range_request \<Rightarrow> int \<Rightarrow> (server_error + buffer list) option" where
  "expand_to_batches fresh rr simd_lanes =
     (let total' = int_of_u32 (length (rq_pairs rr)); chunk_sz = simd_lanes
      in do {
        s1 \<leftarrow> int_op (total' + chunk_sz);
        s2 \<leftarrow> int_op (s1 - 1);
        chunks \<leftarrow> int_div s2 chunk_sz;
        (if chunks < 0 then Some (Inl length_error)
         else expand_loop fresh rr chunk_sz total' (nat chunks) 0)
      })"

section \<open>The worker's handler\<close>

text \<open>Where one call of \<open>process\<close> finds its memory.\<close>

record alloc =
  al_prices :: nat
  al_hedge_ratios :: nat
  al_fresh :: "nat \<Rightarrow> byte list"

text \<open>
  One round of \<open>worker_thread\<close>: the bytes of the batch to the bytes pushed.  The log lines read the
  result message back.
\<close>

definition worker_round :: "platform \<Rightarrow> alloc \<Rightarrow> buffer \<Rightarrow> buffer option" where
  "worker_round pf al msg = do {
     batch \<leftarrow> GetRoot msg;
     (ok, _) \<leftarrow> BatchPricingRequest_Verify batch (mk_verifier msg default_options);
     (if \<not> ok then Some []
      else do {
        req \<leftarrow> BatchPricingRequest_request msg batch;
        prs \<leftarrow> BatchPricingRequest_pairs msg batch;
        (if req = None \<or> prs = None then Some []
         else do {
           b \<leftarrow> batch_of msg batch;
           res \<leftarrow> process pf (al_prices al) (al_hedge_ratios al) (al_fresh al) (bq_params b) (bq_pairs b) (bq_id b);
           (case res of
              Inl e \<Rightarrow> Some []
            | Inr result_buf \<Rightarrow> do {
                batch_response \<leftarrow> GetRoot result_buf;
                logged \<leftarrow> batch_response_of result_buf batch_response;
                Some result_buf
              })
         })
      })
   }"

section \<open>The server's handler\<close>

text \<open>The reply to a request that fails the check: hash 0 and no results.\<close>

definition error_reply :: "(nat \<Rightarrow> byte list) \<Rightarrow> buffer option" where
  "error_reply fresh = do {
     (root, b1) \<leftarrow> CreateRangePricingResponse 0 0 (builder_of 64 fresh);
     b2 \<leftarrow> bd_Finish root None False b1;
     GetBufferPointer b2
   }"

text \<open>Up to the dispatch: an error reply, or the request with its batches.\<close>

datatype request_outcome = Reply buffer | Dispatch range_request "buffer list"

definition on_request ::
    "(nat \<Rightarrow> byte list) \<Rightarrow> int \<Rightarrow> buffer \<Rightarrow> (server_error + request_outcome) option" where
  "on_request fresh simd_lanes msg = do {
     (ok, _) \<leftarrow> VerifyRangePricingRequestBuffer (mk_verifier msg default_options);
     (if \<not> ok then do { r \<leftarrow> error_reply fresh; Some (Inr (Reply r)) }
      else do {
        t \<leftarrow> GetRangePricingRequest msg;
        rr \<leftarrow> request_of msg t;
        batches \<leftarrow> expand_to_batches fresh rr simd_lanes;
        Some (case batches of Inl e \<Rightarrow> Inl e | Inr bs \<Rightarrow> Inr (Dispatch rr bs))
      })
   }"

text \<open>The collection loop over the messages in the order they are received.\<close>

fun collect_results :: "buffer list \<Rightarrow> pricing_response list option" where
  "collect_results [] = Some []"
| "collect_results (result_msg # msgs) =
     (if length result_msg = 0 then collect_results msgs
      else do {
        br \<leftarrow> GetRoot result_msg;
        (ok, _) \<leftarrow> BatchPricingResponse_Verify br (mk_verifier result_msg default_options);
        (if \<not> ok then collect_results msgs
         else do {
           (_, results) \<leftarrow> batch_response_of result_msg br;
           (case results of
              None \<Rightarrow> collect_results msgs
            | Some rows \<Rightarrow> do { rest \<leftarrow> collect_results msgs; Some (rows @ rest) })
         })
      })"

text \<open>\<open>std_sort\<close> is \<open>std::sort\<close> with the comparison of the indices; it need not be stable.\<close>

definition sort_ok :: "(pricing_response list \<Rightarrow> pricing_response list) \<Rightarrow> bool" where
  "sort_ok std_sort \<longleftrightarrow>
     (\<forall>xs. mset (std_sort xs) = mset xs \<and> sorted_wrt (\<lambda>a b. pr_idx a \<le> pr_idx b) (std_sort xs))"

definition make_reply ::
    "(pricing_response list \<Rightarrow> pricing_response list) \<Rightarrow> (nat \<Rightarrow> byte list) \<Rightarrow> u64 \<Rightarrow> pricing_response list \<Rightarrow>
     buffer option" where
  "make_reply std_sort fresh request_hash all_results = do {
     (result_offsets, b1) \<leftarrow> create_rows (std_sort all_results) (builder_of 1024 fresh);
     (results_vec, b2) \<leftarrow> CreateVector_offsets result_offsets b1;
     (root, b3) \<leftarrow> CreateRangePricingResponse request_hash results_vec b2;
     b4 \<leftarrow> bd_Finish root None False b3;
     GetBufferPointer b4
   }"

text \<open>
  One round of the server: the workers answer batch \<open>j\<close> with the memory \<open>als j\<close>, and their messages
  arrive in the order \<open>arrive\<close>.
\<close>

definition serve ::
    "platform \<Rightarrow> (nat \<Rightarrow> alloc) \<Rightarrow> (buffer list \<Rightarrow> buffer list) \<Rightarrow>
     (pricing_response list \<Rightarrow> pricing_response list) \<Rightarrow> (nat \<Rightarrow> byte list) \<Rightarrow> int \<Rightarrow> buffer \<Rightarrow>
     (server_error + buffer) option" where
  "serve pf als arrive std_sort fresh simd_lanes msg = do {
     o' \<leftarrow> on_request fresh simd_lanes msg;
     (case o' of
        Inl e \<Rightarrow> Some (Inl e)
      | Inr (Reply r) \<Rightarrow> Some (Inr r)
      | Inr (Dispatch rr batches) \<Rightarrow> do {
          results \<leftarrow> those (map (\<lambda>j. worker_round pf (als j) (batches ! j)) [0..<length batches]);
          all_results \<leftarrow> collect_results (arrive results);
          reply \<leftarrow> make_reply std_sort fresh (rq_hash rr) all_results;
          Some (Inr reply)
        })
   }"

end
