(* ===== verification/Worker_Facts.thy ===== *)
theory Worker_Facts
  imports Worker
begin

text \<open>
  What the batches, the workers' messages and the reply contain: the three message formats of
  \<open>src/worker.cpp\<close> as codecs, the slicing, and a whole round of the server.
\<close>

section \<open>The worker threads' batches\<close>

definition params_ops :: "pricing_params \<Rightarrow> fop list" where
  "params_ops p = [Put F32 6 (unat (pp_stock_price p)), Put F32 8 (unat (pp_strike_price p)),
     Put F32 10 (unat (pp_interest_rate p)), Put F32 12 (unat (pp_time_to_maturity p)),
     Put F32 14 (unat (pp_stock_discretization p))]"

lemma params_ops_ok: "fops_ok 0 (params_ops p)"
  by (simp add: fops_ok_def params_ops_def)

lemma slots_params_ops: "slots_of (params_ops p) = params_slots (p\<lparr>pp_option_type := 0\<rparr>)"
  by (auto simp: slots_of_def params_ops_def params_slots_def opt_slot_def)

lemma worker_params_build: "worker_params p = build_table (params_ops p)"
  by (rule ext) (simp add: worker_params_def build_table_def params_ops_def PP_VT_STOCK_PRICE_def
      PP_VT_STRIKE_PRICE_def PP_VT_INTEREST_RATE_def PP_VT_TIME_TO_MATURITY_def PP_VT_STOCK_DISCRETIZATION_def Let_def)

definition batch_ops :: "u64 \<Rightarrow> nat \<Rightarrow> nat \<Rightarrow> fop list" where
  "batch_ops i a v = [Put U64 4 (unat i), Link 6 a, Link 8 v]"

lemma batch_ops_ok: "0 < a \<Longrightarrow> a \<le> k \<Longrightarrow> 0 < v \<Longrightarrow> v \<le> k \<Longrightarrow> fops_ok k (batch_ops i a v)"
  by (simp add: fops_ok_def batch_ops_def)

lemma slots_batch_ops: "slots_of (batch_ops i a v) = batch_slots i a v"
  by (simp add: slots_of_def batch_ops_def batch_slots_def)

lemma make_batch_build:
  "make_batch fresh rr cp c = build_request cp (params_ops (rq_params rr)) (batch_ops (batch_counter_id (rq_hash rr) c))
     6 8 (builder_of 512 fresh)"
  by (simp add: make_batch_def build_request_def worker_params_build build_table_def batch_ops_def
      BatchPricingRequestBuilder_Finish_def RQ_VT_defs Option.bind_assoc split: bind_splits)

text \<open>The contents of a batch: the option type is not copied.\<close>

definition batch_content :: "range_request \<Rightarrow> AlphaBetaPair list \<Rightarrow> int \<Rightarrow> batch_request" where
  "batch_content rr cp c = \<lparr>bq_id = batch_counter_id (rq_hash rr) c,
     bq_params = canon_params ((rq_params rr)\<lparr>pp_option_type := 0\<rparr>), bq_pairs = cp\<rparr>"

definition fresh_ok :: "(nat \<Rightarrow> byte list) \<Rightarrow> bool" where
  "fresh_ok fresh \<longleftrightarrow> (\<forall>n. length (fresh n) = n)"

lemma make_batch_spec:
  assumes f: "fresh_ok fresh" and n: "length cp \<le> 2 ^ 27"
  shows "\<exists>D. make_batch fresh rr cp c = Some D \<and> root_check BatchPricingRequest_Verify D = Some True \<and>
     root_read batch_of D = Some (batch_content rr cp c) \<and> 4 \<le> length D \<and> small D"
proof -
  define i where "i = batch_counter_id (rq_hash rr) c"
  define p where "p = (rq_params rr)\<lparr>pp_option_type := 0\<rparr>"
  have "\<exists>D E o' a v. build_request cp (params_ops (rq_params rr)) (batch_ops i) 6 8 (builder_of 512 fresh) = Some D \<and>
     root_of D E o' \<and> request_at E (batch_slots i a v) o' a v p cp \<and>
     (\<forall>f y. batch_slots i a v f = Some (Scalar 8 y) \<longrightarrow> length D mod 8 = 0)"
    using f n
    by (intro build_request_spec builder_of_fresh)
      (simp_all add: fresh_ok_def params_ops_ok slots_params_ops p_def batch_ops_ok slots_batch_ops batch_slots_def)
  then obtain D E o' a v where D: "make_batch fresh rr cp c = Some D" "root_of D E o'"
    "request_at E (batch_slots i a v) o' a v p cp"
    "\<forall>f y. batch_slots i a v f = Some (Scalar 8 y) \<longrightarrow> length D mod 8 = 0"
    unfolding make_batch_build i_def [symmetric] by blast
  have fr: "framed D E" "GetRoot D = Some (addr D o')" using D(2) by (simp_all add: root_of_def)
  have "i \<noteq> 0 \<Longrightarrow> length D mod 8 = 0"
    using D(4) by (auto simp: batch_slots_def opt_slot_def unsigned_eq_0_iff split: if_splits)
  from batch_request_passes [OF fr(1) D(3) this] have "root_check BatchPricingRequest_Verify D = Some True"
    by (rule root_check_passes [OF D(2)]) (simp_all add: max_tables_nat_def)
  moreover have "root_read batch_of D = Some (batch_content rr cp c)"
    using batch_request_read [OF framed_request_at [OF fr(1) D(3)]] fr(2)
    by (simp add: root_read_def batch_content_def i_def p_def)
  moreover have "4 \<le> length D \<and> small D" using D(2) by (simp add: root_of_def framed_def small_def)
  ultimately show ?thesis using D(1) by blast
qed

abbreviation received :: "buffer \<Rightarrow> bool" where
  "received D \<equiv> 4 \<le> length D \<and> small D"

lemma root_format:
  assumes T: "\<And>D t. near D t \<Longrightarrow> small D \<Longrightarrow> vsafe D (T t) (\<exists>r. rd D t = Some r)"
  shows "message_format received (root_check T) (root_read rd)"
proof unfold_locales
  fix D assume r: "received D"
  then obtain ok where "root_check T D = Some ok" "ok \<longrightarrow> (\<exists>t. GetRoot D = Some t \<and> (\<exists>r. rd D t = Some r))"
    using root_check_safe [where T = T and P = "\<lambda>t. \<exists>r. rd D t = Some r" and D = D] T by blast
  then show "root_check T D \<noteq> None" "root_check T D = Some True \<Longrightarrow> root_read rd D \<noteq> None"
    by (auto simp: root_read_def)
qed

interpretation batch_format: message_format received "root_check BatchPricingRequest_Verify" "root_read batch_of"
  by (rule root_format) (rule vsafe_BatchPricingRequest_Verify)

text \<open>A sent batch: the memory, the request, its slice and the number of the slice.\<close>

type_synonym sent_batch = "(nat \<Rightarrow> byte list) \<times> range_request \<times> AlphaBetaPair list \<times> int"

definition valid_batch :: "sent_batch \<Rightarrow> bool" where
  "valid_batch = (\<lambda>(fresh, rr, cp, c). fresh_ok fresh \<and> length cp \<le> 2 ^ 27)"

interpretation batch_codec: message_codec received "root_check BatchPricingRequest_Verify" "root_read batch_of"
  valid_batch "\<lambda>(fresh, rr, cp, c). make_batch fresh rr cp c" "\<lambda>(fresh, rr, cp, c). batch_content rr cp c"
proof unfold_locales
  fix x :: sent_batch and D
  assume v: "valid_batch x"
  obtain fresh rr cp c where x: "x = (fresh, rr, cp, c)" by (cases x)
  from v x make_batch_spec [of fresh cp rr c] obtain B where B: "make_batch fresh rr cp c = Some B"
    "root_check BatchPricingRequest_Verify B = Some True" "root_read batch_of B = Some (batch_content rr cp c)"
    by (auto simp: valid_batch_def)
  then show "\<exists>D. (case x of (fresh, rr, cp, c) \<Rightarrow> make_batch fresh rr cp c) = Some D" by (simp add: x)
  assume "(case x of (fresh, rr, cp, c) \<Rightarrow> make_batch fresh rr cp c) = Some D"
  with B show "root_check BatchPricingRequest_Verify D = Some True"
    "root_read batch_of D = Some (case x of (fresh, rr, cp, c) \<Rightarrow> batch_content rr cp c)" by (simp_all add: x)
qed

section \<open>Slicing\<close>

text \<open>Slice number \<open>c\<close> of at most \<open>L\<close> pairs, and all of them.\<close>

definition chunk :: "nat \<Rightarrow> 'a list \<Rightarrow> nat \<Rightarrow> 'a list" where
  "chunk L xs c = take L (drop (c * L) xs)"

definition nchunks :: "nat \<Rightarrow> 'a list \<Rightarrow> nat" where
  "nchunks L xs = (length xs + L - 1) div L"

definition chunks_of :: "nat \<Rightarrow> 'a list \<Rightarrow> 'a list list" where
  "chunks_of L xs = map (chunk L xs) [0..<nchunks L xs]"

lemma concat_chunks: "concat (map (chunk L xs) [0..<k]) = take (k * L) xs"
proof (induction k)
  case 0
  show ?case by simp
next
  case (Suc k)
  have "take (k * L) xs @ take L (drop (k * L) xs) = take (k * L + L) xs" by (rule take_add [symmetric])
  moreover have "Suc k * L = k * L + L" by simp
  ultimately show ?case using Suc by (simp only: chunk_def upt_Suc map_append concat_append) simp
qed

lemma nchunks_bounds:
  assumes "0 < L"
  shows "length xs \<le> nchunks L xs * L" and "c < nchunks L xs \<Longrightarrow> c * L < length xs"
proof -
  define n where "n = length xs + L - 1"
  have n: "n div L * L + n mod L = n" "n mod L < L" using assms by simp_all
  then show "length xs \<le> nchunks L xs * L" unfolding nchunks_def n_def [symmetric] using assms n_def by linarith
  assume "c < nchunks L xs"
  then have "(c + 1) * L \<le> n div L * L" unfolding nchunks_def n_def [symmetric] by (intro mult_right_mono) simp_all
  then have "c * L + L \<le> n div L * L" by simp
  also have "\<dots> \<le> n" by (rule div_times_less_eq_dividend)
  finally have "c * L + L \<le> n" .
  then show "c * L < length xs" using assms n_def by linarith
qed

lemma concat_chunks_of: "0 < L \<Longrightarrow> concat (chunks_of L xs) = xs"
  using nchunks_bounds(1) [of L xs] by (simp add: chunks_of_def concat_chunks)

lemma chunks_of_sizes:
  assumes "0 < L" and "c \<in> set (chunks_of L xs)"
  shows "0 < length c" and "length c \<le> L"
proof -
  obtain k where k: "k < nchunks L xs" "c = chunk L xs k" using assms(2) by (auto simp: chunks_of_def)
  from nchunks_bounds(2) [OF assms(1) k(1)] assms(1) k(2) show "0 < length c" "length c \<le> L"
    by (simp_all add: chunk_def)
qed

lemma Get_pairs_chunk:
  assumes "0 < L" and "s = c * L" and "e = min (s + L) (length ps)"
  shows "Get_pairs ps s e = Some (chunk L ps c)"
proof -
  have "those (map (\<lambda>i. if i < length ps then Some (ps ! i) else None) [s..<e]) = Some (map (\<lambda>i. ps ! i) [s..<e])"
    using assms(3) by (intro those_map_Some) auto
  moreover have "map (\<lambda>i. ps ! i) [s..<e] = chunk L ps c"
    unfolding chunk_def assms(2) [symmetric]
  proof (intro nth_equalityI)
    show l: "length (map (\<lambda>i. ps ! i) [s..<e]) = length (take L (drop s ps))" using assms(3) by auto
    fix i assume "i < length (map (\<lambda>i. ps ! i) [s..<e])"
    then have i: "s + i < e" by simp
    then have "i < L" "s + i < length ps" using assms(3) by simp_all
    with i nth_upt [OF i] show "map (\<lambda>i. ps ! i) [s..<e] ! i = take L (drop s ps) ! i" by simp
  qed
  ultimately show ?thesis by (simp add: Get_pairs_def)
qed

lemma those_Cons_map: "those (f x # map f xs) = Option.bind (f x) (\<lambda>y. map_option ((#) y) (those (map f xs)))"
  by (cases "f x") auto

lemma expand_loop_eq:
  assumes L: "0 < L" and b: "int (length (rq_pairs rr)) + int L - 1 < 2 ^ 31" and k: "k + n \<le> nchunks L (rq_pairs rr)"
  shows "expand_loop fresh rr (int L) (int (length (rq_pairs rr))) n (int k) =
    map_option Inr (those (map (\<lambda>c. make_batch fresh rr (chunk L (rq_pairs rr) c) (int c)) [k..<k + n]))"
  using k
proof (induction n arbitrary: k)
  case 0
  then show ?case by simp
next
  case (Suc n)
  define ps where "ps = rq_pairs rr"
  have kl: "k * L < length ps" using nchunks_bounds(2) [OF L, of k ps] Suc.prems by (simp add: ps_def)
  define s where "s = k * L"
  define e where "e = min (s + L) (length ps)"
  have i: "int_op (int k * int L) = Some (int s)" "int_op (int s + int L) = Some (int (s + L))"
  proof -
    have "int s < int (length ps)" using kl unfolding s_def [symmetric] by (simp only: of_nat_less_iff)
    then have "0 \<le> int s \<and> int s + int L < 2 ^ 31" using b unfolding ps_def by linarith
    moreover have "int k * int L = int s" by (simp add: s_def)
    ultimately show "int_op (int k * int L) = Some (int s)" "int_op (int s + int L) = Some (int (s + L))"
      by (simp_all add: int_op_def)
  qed
  have me: "min (int (s + L)) (int (length ps)) = int e" by (simp add: e_def of_nat_min)
  have se: "s \<le> e" using kl by (simp add: e_def s_def)
  have g: "Get_pairs ps s e = Some (chunk L ps k)" by (rule Get_pairs_chunk [OF L s_def e_def])
  have IH: "expand_loop fresh rr (int L) (int (length ps)) n (int k + 1) =
    map_option Inr (those (map (\<lambda>c. make_batch fresh rr (chunk L ps c) (int c)) [Suc k..<Suc k + n]))"
    using Suc.IH [of "Suc k"] Suc.prems by (simp add: ps_def add.commute)
  have "[k..<k + Suc n] = k # [Suc k..<Suc k + n]" by (simp add: upt_conv_Cons)
  then show ?case
    using i me se g IH
    by (cases "make_batch fresh rr (chunk L ps k) (int k)";
        cases "those (map (\<lambda>c. make_batch fresh rr (chunk L ps c) (int c)) [Suc k..<Suc k + n])")
      (simp_all add: ps_def [symmetric] Let_def del: upt_Suc)
qed

lemma int_of_u32_small: "n < 2 ^ 31 \<Longrightarrow> int_of_u32 n = int n"
  by (simp add: int_of_u32_def signed_of_nat signed_take_bit_int_eq_self)

lemma expand_to_batches_eq:
  assumes L: "0 < L" and b: "length (rq_pairs rr) + L \<le> 2 ^ 31 - 1"
  shows "expand_to_batches fresh rr (int L) = map_option Inr (those (map
    (\<lambda>c. make_batch fresh rr (chunk L (rq_pairs rr) c) (int c)) [0..<nchunks L (rq_pairs rr)]))"
proof -
  define n where "n = length (rq_pairs rr)"
  have t: "int_of_u32 n = int n" using b by (intro int_of_u32_small) (simp add: n_def)
  have s: "int_op (int n + int L) = Some (int (n + L))" "int_op (int (n + L) - 1) = Some (int (n + L - 1))"
    using b L by (auto simp: int_op_def n_def)
  have "int (n + L - 1) sdiv int L = int (nchunks L (rq_pairs rr))"
    using L by (simp add: signed_divide_int_def nchunks_def n_def zdiv_int sgn_if)
  moreover have "n + L - 1 < 2 ^ 31" using b by (simp add: n_def)
  then have "nchunks L (rq_pairs rr) < 2 ^ 31"
    unfolding nchunks_def n_def [symmetric] by (rule le_less_trans [OF div_le_dividend])
  then have "int_op (int (nchunks L (rq_pairs rr))) = Some (int (nchunks L (rq_pairs rr)))"
    by (simp add: int_op_def)
  ultimately have d: "int_div (int (n + L - 1)) (int L) = Some (int (nchunks L (rq_pairs rr)))"
    using L by (simp add: int_div_def)
  have "int (length (rq_pairs rr)) + int L - 1 < 2 ^ 31" using b by simp
  from expand_loop_eq [OF L this, of 0 "nchunks L (rq_pairs rr)" fresh] t s d show ?thesis
    by (simp add: expand_to_batches_def Let_def n_def)
qed

text \<open>The root offset of a batch is read before anything is checked.\<close>

lemma worker_round_short: "length D < 4 \<Longrightarrow> worker_round pf al D = None"
  by (simp add: worker_round_def GetRoot_def GetMutableRoot_def ReadScalar_def peek_def)

text \<open>With a positive number of lanes nothing throws, however large the request.\<close>

lemma expand_loop_no_error:
  assumes "0 < L" and "(c + int n) * L \<le> total' + L - 1"
  shows "expand_loop fresh rr L total' n c \<noteq> Some (Inl e)"
  using assms
proof (induction n arbitrary: c)
  case (Suc n)
  have "c * L + (int n * L + L) \<le> total' + L - 1" using Suc.prems by (simp add: algebra_simps)
  moreover have "0 \<le> int n * L" using Suc.prems by simp
  ultimately have s: "c * L < total'" using Suc.prems(1) by linarith
  have "expand_loop fresh rr L total' n (c + 1) \<noteq> Some (Inl e)" using Suc by (simp add: algebra_simps)
  with s Suc.prems(1) show ?case
    by (auto simp: int_op_def bind_eq_Some_conv Let_def split: if_splits sum.splits)
qed simp

lemma expand_no_error:
  assumes "0 < L" and "length (rq_pairs rr) < 2 ^ 31"
  shows "expand_to_batches fresh rr L \<noteq> Some (Inl e)"
proof -
  let ?t = "int (length (rq_pairs rr))"
  have t: "int_of_u32 (length (rq_pairs rr)) = ?t" by (rule int_of_u32_small [OF assms(2)])
  have "0 \<le> ?t + L - 1" using assms(1) by simp
  then have d: "(?t + L - 1) sdiv L = (?t + L - 1) div L" using assms(1)
    by (cases "?t + L - 1 = 0") (simp_all add: signed_divide_int_def)
  have p: "0 \<le> (?t + L - 1) div L" using assms(1) by (simp add: pos_imp_zdiv_nonneg_iff)
  have "(0 + int (nat ((?t + L - 1) div L))) * L \<le> ?t + L - 1"
    using p div_mult_mod_eq [of "?t + L - 1" L] pos_mod_sign [OF assms(1), of "?t + L - 1"] by (simp only: int_nat_eq if_True add_0)
  from expand_loop_no_error [OF assms(1) this] p show ?thesis
    by (auto simp: expand_to_batches_def t Let_def int_op_def int_div_def d bind_eq_Some_conv split: if_splits)
qed

lemma on_request_no_error:
  assumes "0 < L"
  shows "on_request fresh L msg \<noteq> Some (Inl e)"
proof
  assume "on_request fresh L msg = Some (Inl e)"
  then obtain v t rr where "VerifyRangePricingRequestBuffer (mk_verifier msg default_options) = Some (True, v)"
    "GetRangePricingRequest msg = Some t" "request_of msg t = Some rr" "expand_to_batches fresh rr L = Some (Inl e)"
    by (auto simp: on_request_def bind_eq_Some_conv split: if_splits) (auto split: sum.splits)
  with expand_no_error [OF assms verified_pairs_count] show False by blast
qed

end
