(* ===== verification/Server_Facts.thy ===== *)
theory Server_Facts
  imports Worker_Facts
begin

text \<open>
  The workers' messages and the server's reply as codecs, and what a whole round of the server
  returns for a request.
\<close>

section \<open>Responses\<close>

lemma response_accepted:
  assumes r: "root_of D E o'" "response_at E i o' v offs rows" and al: "i \<noteq> 0 \<longrightarrow> length D mod 8 = 0"
    and n: "length rows \<le> 999999"
  shows "root_check BatchPricingResponse_Verify D = Some True"
    and "root_check RangePricingResponse_Verify D = Some True"
proof -
  have fr: "framed D E" using r(1) by (simp add: root_of_def)
  have "1 + length rows \<le> max_tables_nat" using n by (simp add: max_tables_nat_def)
  note p = response_passes [OF fr r(2) mp [OF al]] and c = root_check_passes [OF r(1) _ this]
  show "root_check BatchPricingResponse_Verify D = Some True"
    by (rule c) (use p in \<open>simp add: BatchPricingResponse_Verify_def RS_VT_defs del: vall.simps\<close>)
  show "root_check RangePricingResponse_Verify D = Some True"
    by (rule c) (use p in \<open>simp add: RangePricingResponse_Verify_def RS_VT_defs del: vall.simps\<close>)
qed

lemma response_contents:
  assumes r: "root_of D E o'" "response_at E i o' v offs rows"
  shows "root_read batch_response_of D = Some (i, Some (map canon_row rows))"
    and "root_read range_response_of D = Some (i, Some (map canon_row rows))"
proof -
  have "framed D E" "GetRoot D = Some (addr D o')" using r(1) by (simp_all add: root_of_def)
  with batch_response_read [OF framed_response_at [OF _ r(2)]] range_response_read [OF framed_response_at [OF _ r(2)]]
  show "root_read batch_response_of D = Some (i, Some (map canon_row rows))"
    "root_read range_response_of D = Some (i, Some (map canon_row rows))"
    by (simp_all add: root_read_def)
qed

lemma root_of_received: "root_of D E o' \<Longrightarrow> received D"
  by (simp add: root_of_def framed_def small_def)

text \<open>The conditions under which a call of \<open>process\<close> has defined behaviour.\<close>

definition alloc_ok :: "platform \<Rightarrow> alloc \<Rightarrow> bool" where
  "alloc_ok pf al \<longleftrightarrow> aligned_at (hn_Lanes pf) (al_prices al) \<and> aligned_at (hn_Lanes pf) (al_hedge_ratios al) \<and>
     fresh_ok (al_fresh al)"

abbreviation process_of :: "platform \<Rightarrow> alloc \<Rightarrow> pricing_params \<Rightarrow> AlphaBetaPair list \<Rightarrow> u64 \<Rightarrow>
    (pricer_error + buffer) option" where
  "process_of pf al p ps i \<equiv> process pf (al_prices al) (al_hedge_ratios al) (al_fresh al) p ps i"

lemma process_spec:
  assumes pf: "platform_ok pf e" "alloc_ok pf al" and c: "check_of p = None" and n: "length ps \<le> 5 * 10 ^ 6"
  shows "\<exists>D. process_of pf al p ps i = Some (Inr D) \<and> received D \<and>
     root_read batch_response_of D = Some (i, Some (map canon_row (priced pf e p ps))) \<and>
     (length ps \<le> 999999 \<longrightarrow> root_check BatchPricingResponse_Verify D = Some True)"
proof -
  have a: "aligned_at (hn_Lanes pf) (al_prices al)" "aligned_at (hn_Lanes pf) (al_hedge_ratios al)"
    "\<forall>n. length (al_fresh al n) = n" using pf(2) by (simp_all add: alloc_ok_def fresh_ok_def)
  obtain D E o' v offs where D: "process_of pf al p ps i = Some (Inr D)" "root_of D E o'"
    "response_at E i o' v offs (priced pf e p ps)" "i \<noteq> 0 \<longrightarrow> length D mod 8 = 0"
    using process_message [OF pf(1) a(1,2) c a(3) n, of i] by (elim exE conjE) (rule that; assumption)
  with response_accepted(1) [OF D(2-4)] response_contents(1) [OF D(2,3)] root_of_received [OF D(2)]
  show ?thesis by (intro exI [of _ D]) simp
qed

interpretation result_format: message_format received "root_check BatchPricingResponse_Verify" "root_read batch_response_of"
  by (rule root_format) (rule vsafe_BatchPricingResponse_Verify)

type_synonym sent_result = "platform \<times> (f32 \<Rightarrow> f32) \<times> alloc \<times> pricing_params \<times> AlphaBetaPair list \<times> u64"

definition valid_result :: "sent_result \<Rightarrow> bool" where
  "valid_result = (\<lambda>(pf, e, al, p, ps, i). platform_ok pf e \<and> alloc_ok pf al \<and> check_of p = None \<and> length ps \<le> 999999)"

definition sent_message :: "(pricer_error + buffer) option \<Rightarrow> buffer option" where
  "sent_message r = (case r of Some (Inr D) \<Rightarrow> Some D | _ \<Rightarrow> None)"

interpretation result_codec: message_codec received "root_check BatchPricingResponse_Verify" "root_read batch_response_of"
  valid_result "\<lambda>(pf, e, al, p, ps, i). sent_message (process_of pf al p ps i)"
  "\<lambda>(pf, e, al, p, ps, i). (i, Some (map canon_row (priced pf e p ps)))"
proof unfold_locales
  fix x :: sent_result and D
  assume v: "valid_result x"
  obtain pf e al p ps i where x: "x = (pf, e, al, p, ps, i)" by (cases x)
  from v x process_spec [of pf e al p ps i] obtain B where B: "process_of pf al p ps i = Some (Inr B)"
    "root_check BatchPricingResponse_Verify B = Some True"
    "root_read batch_response_of B = Some (i, Some (map canon_row (priced pf e p ps)))"
    by (auto simp: valid_result_def)
  then show "\<exists>D. (case x of (pf, e, al, p, ps, i) \<Rightarrow> sent_message (process_of pf al p ps i)) = Some D"
    by (simp add: x sent_message_def)
  assume "(case x of (pf, e, al, p, ps, i) \<Rightarrow> sent_message (process_of pf al p ps i)) = Some D"
  with B show "root_check BatchPricingResponse_Verify D = Some True"
    "root_read batch_response_of D =
      Some (case x of (pf, e, al, p, ps, i) \<Rightarrow> (i, Some (map canon_row (priced pf e p ps))))"
    by (simp_all add: x sent_message_def)
qed

section \<open>The reply\<close>

lemma make_reply_build:
  "make_reply std_sort fresh h rows = build_response (std_sort rows) (response_ops h) (builder_of 1024 fresh)"
  by (simp add: make_reply_def build_response_def CreateRangePricingResponse_build)

lemma sort_ok_length: "sort_ok std_sort \<Longrightarrow> length (std_sort xs) = length xs"
  by (metis sort_ok_def size_mset)

lemma make_reply_spec:
  assumes s: "sort_ok std_sort" and f: "fresh_ok fresh" and n: "length rows \<le> 5 * 10 ^ 6"
  shows "\<exists>D. make_reply std_sort fresh h rows = Some D \<and>
     root_read range_response_of D = Some (h, Some (map canon_row (std_sort rows))) \<and>
     (length rows \<le> 999999 \<longrightarrow> root_check RangePricingResponse_Verify D = Some True)"
proof -
  have "length (std_sort rows) \<le> 5 * 10 ^ 6" using n s by (simp add: sort_ok_length)
  then have "\<exists>D E o' v offs. build_response (std_sort rows) (response_ops h) (builder_of 1024 fresh) = Some D \<and>
     root_of D E o' \<and> response_at E h o' v offs (std_sort rows) \<and> (h \<noteq> 0 \<longrightarrow> length D mod 8 = 0)"
    using f by (intro build_response_spec builder_of_fresh)
      (simp_all add: fresh_ok_def response_ops_ok slots_response_ops)
  then obtain D E o' v offs where D: "make_reply std_sort fresh h rows = Some D" "root_of D E o'"
    "response_at E h o' v offs (std_sort rows)" "h \<noteq> 0 \<longrightarrow> length D mod 8 = 0"
    by (elim exE conjE) (rule that, simp only: make_reply_build, assumption+)
  with response_accepted(2) [OF D(2-4)] response_contents(2) [OF D(2,3)] s show ?thesis
    by (intro exI [of _ D]) (simp add: sort_ok_length)
qed

interpretation reply_format: message_format received "root_check RangePricingResponse_Verify" "root_read range_response_of"
  by (rule root_format) (rule vsafe_RangePricingResponse_Verify)

type_synonym sent_reply =
  "(pricing_response list \<Rightarrow> pricing_response list) \<times> (nat \<Rightarrow> byte list) \<times> u64 \<times> pricing_response list"

definition valid_reply :: "sent_reply \<Rightarrow> bool" where
  "valid_reply = (\<lambda>(std_sort, fresh, h, rows). sort_ok std_sort \<and> fresh_ok fresh \<and> length rows \<le> 999999)"

interpretation reply_codec: message_codec received "root_check RangePricingResponse_Verify" "root_read range_response_of"
  valid_reply "\<lambda>(std_sort, fresh, h, rows). make_reply std_sort fresh h rows"
  "\<lambda>(std_sort, fresh, h, rows). (h, Some (map canon_row (std_sort rows)))"
proof unfold_locales
  fix x :: sent_reply and D
  assume v: "valid_reply x"
  obtain std_sort fresh h rows where x: "x = (std_sort, fresh, h, rows)" by (cases x)
  from v x make_reply_spec [of std_sort fresh rows h] obtain B where B: "make_reply std_sort fresh h rows = Some B"
    "root_check RangePricingResponse_Verify B = Some True"
    "root_read range_response_of B = Some (h, Some (map canon_row (std_sort rows)))"
    by (auto simp: valid_reply_def)
  then show "\<exists>D. (case x of (std_sort, fresh, h, rows) \<Rightarrow> make_reply std_sort fresh h rows) = Some D" by (simp add: x)
  assume "(case x of (std_sort, fresh, h, rows) \<Rightarrow> make_reply std_sort fresh h rows) = Some D"
  with B show "root_check RangePricingResponse_Verify D = Some True"
    "root_read range_response_of D = Some (case x of (std_sort, fresh, h, rows) \<Rightarrow> (h, Some (map canon_row (std_sort rows))))"
    by (simp_all add: x)
qed

section \<open>One round of a worker\<close>

lemma batch_of_required:
  assumes "batch_of D t = Some b"
  shows "\<exists>a. BatchPricingRequest_request D t = Some (Some a)" and "\<exists>v. BatchPricingRequest_pairs D t = Some (Some v)"
  using assms by (auto simp: batch_of_def deref_def bind_eq_Some_conv)

lemma worker_round_rejects: "root_check BatchPricingRequest_Verify D = Some False \<Longrightarrow> worker_round pf al D = Some []"
  by (auto simp: root_check_def worker_round_def bind_eq_Some_conv)

lemma worker_round_accepts:
  assumes c: "root_check BatchPricingRequest_Verify D = Some True" and b: "root_read batch_of D = Some b"
  shows "worker_round pf al D = do {
     res \<leftarrow> process_of pf al (bq_params b) (bq_pairs b) (bq_id b);
     (case res of Inl e \<Rightarrow> Some []
      | Inr buf \<Rightarrow> do { t \<leftarrow> GetRoot buf; _ \<leftarrow> batch_response_of buf t; Some buf }) }"
proof -
  from b obtain t where t: "GetRoot D = Some t" "batch_of D t = Some b"
    by (auto simp: root_read_def bind_eq_Some_conv)
  with c obtain w where "BatchPricingRequest_Verify t (mk_verifier D default_options) = Some (True, w)"
    by (auto simp: root_check_def bind_eq_Some_conv)
  with t batch_of_required [OF t(2)] show ?thesis
    by (auto simp: worker_round_def cong: option.case_cong sum.case_cong)
qed

lemma process_error: "check_of p = Some e \<Longrightarrow> process_of pf al p ps i = Some (Inl e)"
  by (simp add: process_def)

text \<open>Whatever the batch, the worker sends one message: an empty one, or the result of \<open>process\<close>.\<close>

lemma worker_round_result:
  assumes pf: "platform_ok pf e" "alloc_ok pf al" and c: "root_check BatchPricingRequest_Verify D = Some True"
    and b: "root_read batch_of D = Some b" and n: "length (bq_pairs b) \<le> 5 * 10 ^ 6"
  shows "check_of (bq_params b) \<noteq> None \<Longrightarrow> worker_round pf al D = Some []"
    and "check_of (bq_params b) = None \<Longrightarrow> \<exists>R. worker_round pf al D = Some R \<and> received R \<and>
      root_read batch_response_of R = Some (bq_id b, Some (map canon_row (priced pf e (bq_params b) (bq_pairs b)))) \<and>
      (length (bq_pairs b) \<le> 999999 \<longrightarrow> root_check BatchPricingResponse_Verify R = Some True)"
proof -
  note w = worker_round_accepts [OF c b, of pf al]
  show "worker_round pf al D = Some []" if "check_of (bq_params b) \<noteq> None"
    using w that process_error [of "bq_params b" _ pf al "bq_pairs b" "bq_id b"] by auto
  assume "check_of (bq_params b) = None"
  from process_spec [OF pf this n, of "bq_id b"] obtain R where
    R: "process_of pf al (bq_params b) (bq_pairs b) (bq_id b) = Some (Inr R)" "received R"
      "root_read batch_response_of R = Some (bq_id b, Some (map canon_row (priced pf e (bq_params b) (bq_pairs b))))"
      "length (bq_pairs b) \<le> 999999 \<longrightarrow> root_check BatchPricingResponse_Verify R = Some True"
    by blast
  moreover have "\<exists>t. GetRoot R = Some t \<and> batch_response_of R t \<noteq> None"
    using R(3) by (auto simp: root_read_def bind_eq_Some_conv)
  ultimately show "\<exists>R. worker_round pf al D = Some R \<and> received R \<and>
      root_read batch_response_of R = Some (bq_id b, Some (map canon_row (priced pf e (bq_params b) (bq_pairs b)))) \<and>
      (length (bq_pairs b) \<le> 999999 \<longrightarrow> root_check BatchPricingResponse_Verify R = Some True)"
    using w by (intro exI [of _ R]) auto
qed

section \<open>Collecting\<close>

text \<open>The rows a message contributes: none when it is empty, invalid or without results.\<close>

definition rows_in :: "buffer \<Rightarrow> pricing_response list" where
  "rows_in D = (if D = [] then []
     else case result_format.receive D of Some (Some (_, Some rows)) \<Rightarrow> rows | _ \<Rightarrow> [])"

lemma rows_in_Nil [simp]: "rows_in [] = []"
  by (simp add: rows_in_def)

lemma collect_results_eq:
  assumes "\<forall>D\<in>set ms. D = [] \<or> received D"
  shows "collect_results ms = Some (concat (map rows_in ms))"
  using assms
proof (induction ms)
  case Nil
  then show ?case by simp
next
  case (Cons D ms)
  then have IH: "collect_results ms = Some (concat (map rows_in ms))" by simp
  show ?case
  proof (cases "D = []")
    case True
    with IH show ?thesis by simp
  next
    case False
    with Cons.prems have r: "received D" by simp
    then obtain t where t: "GetRoot D = Some t" using GetRoot_near [of D] by blast
    obtain ok where ok: "root_check BatchPricingResponse_Verify D = Some ok"
      using result_format.check_total [OF r] by blast
    then obtain w where w: "BatchPricingResponse_Verify t (mk_verifier D default_options) = Some (ok, w)"
      using t by (auto simp: root_check_def bind_eq_Some_conv)
    show ?thesis
    proof (cases ok)
      case False
      then have "rows_in D = []" using ok by (simp add: rows_in_def result_format.receive_def)
      then show ?thesis using False IH t w \<open>D \<noteq> []\<close> by simp
    next
      case True
      with ok have "root_read batch_response_of D \<noteq> None" using result_format.check_sound [OF r] by simp
      then obtain i res where rd: "batch_response_of D t = Some (i, res)" using t by (auto simp: root_read_def)
      then have "rows_in D = (case res of None \<Rightarrow> [] | Some rows \<Rightarrow> rows)"
        using True ok t \<open>D \<noteq> []\<close>
        by (simp add: rows_in_def result_format.receive_def root_read_def split: option.split)
      then show ?thesis using IH t w True rd \<open>D \<noteq> []\<close> by (simp split: option.split)
    qed
  qed
qed

lemma mset_concat_perm: "mset xs = mset ys \<Longrightarrow> mset (concat (map f xs)) = mset (concat (map f ys))"
proof -
  assume e: "mset xs = mset ys"
  have "mset (concat (map f zs)) = sum_mset (image_mset (\<lambda>x. mset (f x)) (mset zs))" for zs
    by (induction zs) simp_all
  with e show ?thesis by simp
qed

section \<open>A round of the server\<close>

lemma canon_f32_le_zero: "f32_le (canon_f32 x) 0 \<longleftrightarrow> f32_le x 0"
  using f32_eq_refl [of 0] by (auto simp: canon_f32_def f32_eq_def f32_is_nan_def)

lemma check_canon: "check_of (canon_params p) = check_of p"
  by (simp add: check_params_def canon_params_def canon_f32_le_zero)

lemma check_option_type: "check_of (canon_params (p\<lparr>pp_option_type := x\<rparr>)) = check_of p"
  using check_canon [of "p\<lparr>pp_option_type := x\<rparr>"] by simp

lemma canon_f32_idem [simp]: "canon_f32 (canon_f32 x) = canon_f32 x"
  by (simp add: canon_f32_def)

lemma canon_row_idem [simp]: "canon_row (canon_row r) = canon_row r"
  by (simp add: canon_row_def)

text \<open>The sent batches, one per slice, in order.\<close>

lemma expand_batches:
  assumes f: "fresh_ok fresh" and L: "0 < L" "L \<le> 2 ^ 27" and b: "length (rq_pairs rr) + L \<le> 2 ^ 31 - 1"
  shows "\<exists>Ds. expand_to_batches fresh rr (int L) = Some (Inr Ds) \<and> length Ds = nchunks L (rq_pairs rr) \<and>
     (\<forall>j<length Ds. batch_format.receive (Ds ! j) = Some (Some (batch_content rr (chunk L (rq_pairs rr) j) (int j))))"
proof -
  define xs where "xs = map (\<lambda>c. (fresh, rr, chunk L (rq_pairs rr) c, int c)) [0..<nchunks L (rq_pairs rr)]"
  have "\<forall>x\<in>set xs. valid_batch x" using f L(2) by (auto simp: xs_def valid_batch_def chunk_def)
  from batch_codec.deliver_all [OF this] obtain Ds where
    Ds: "those (map (\<lambda>(fresh, rr, cp, c). make_batch fresh rr cp c) xs) = Some Ds"
      "map batch_format.receive Ds = map (\<lambda>x. Some (Some (case x of (fresh, rr, cp, c) \<Rightarrow> batch_content rr cp c))) xs"
    by (elim exE conjE) (rule that; assumption)
  have l: "length Ds = nchunks L (rq_pairs rr)" using Ds(2) [THEN arg_cong, of length] by (simp add: xs_def)
  have "batch_format.receive (Ds ! j) = Some (Some (batch_content rr (chunk L (rq_pairs rr) j) (int j)))"
    if "j < length Ds" for j
    using Ds(2) [THEN arg_cong, of "\<lambda>ys. ys ! j"] that l by (simp add: xs_def)
  moreover have "expand_to_batches fresh rr (int L) = Some (Inr Ds)"
    using Ds(1) expand_to_batches_eq [OF L(1) b, of fresh] by (simp add: xs_def comp_def)
  ultimately show ?thesis using l by blast
qed

text \<open>What the worker answers to such a batch, as the rows the server takes from it.\<close>

definition slice_rows :: "platform \<Rightarrow> (f32 \<Rightarrow> f32) \<Rightarrow> pricing_params \<Rightarrow> AlphaBetaPair list \<Rightarrow> pricing_response list" where
  "slice_rows pf e p cp =
     (if check_of p = None then map canon_row (priced pf e (canon_params p) cp) else [])"

lemma priced_option_type: "priced pf e (canon_params (p\<lparr>pp_option_type := x\<rparr>)) cp = priced pf e (canon_params p) cp"
  by (simp add: priced_def canon_params_def)

lemma worker_round_slice:
  assumes pf: "platform_ok pf e" "alloc_ok pf al" and n: "length cp \<le> 999999"
    and D: "batch_format.receive D = Some (Some (batch_content rr cp c))"
  shows "\<exists>R. worker_round pf al D = Some R \<and> (R = [] \<or> received R) \<and> rows_in R = slice_rows pf e (rq_params rr) cp"
proof -
  have c: "root_check BatchPricingRequest_Verify D = Some True" "root_read batch_of D = Some (batch_content rr cp c)"
    using D by (simp_all add: batch_format.receive_Some)
  define b where "b = batch_content rr cp c"
  have b: "bq_pairs b = cp" "check_of (bq_params b) = check_of (rq_params rr)"
    "priced pf e (bq_params b) cp = priced pf e (canon_params (rq_params rr)) cp"
    by (simp_all add: b_def batch_content_def check_option_type priced_option_type)
  have nb: "length (bq_pairs b) \<le> 5 * 10 ^ 6" using n b(1) by simp
  note w = worker_round_result [OF pf c(1) c(2) [folded b_def] nb]
  show ?thesis
  proof (cases "check_of (rq_params rr) = None")
    case False
    then have "check_of (bq_params b) \<noteq> None" using b(2) by simp
    then have "worker_round pf al D = Some []" by (rule w(1))
    moreover have "slice_rows pf e (rq_params rr) cp = []" using False by (simp only: slice_rows_def if_False)
    ultimately show ?thesis by simp
  next
    case True
    then have "check_of (bq_params b) = None" using b(2) by simp
    from w(2) [OF this] obtain R where R: "worker_round pf al D = Some R" "received R"
      "root_read batch_response_of R = Some (bq_id b, Some (map canon_row (priced pf e (bq_params b) (bq_pairs b))))"
      "length (bq_pairs b) \<le> 999999 \<longrightarrow> root_check BatchPricingResponse_Verify R = Some True" by blast
    then have "result_format.receive R = Some (Some (bq_id b, Some (map canon_row (priced pf e (bq_params b) cp))))"
      using n b(1) by (simp add: result_format.receive_Some)
    moreover have "R \<noteq> []" using R(2) by auto
    ultimately have "rows_in R = slice_rows pf e (rq_params rr) cp"
      using True b(3) by (simp add: rows_in_def slice_rows_def)
    with R(1,2) show ?thesis by blast
  qed
qed

definition round_rows :: "platform \<Rightarrow> (f32 \<Rightarrow> f32) \<Rightarrow> nat \<Rightarrow> range_request \<Rightarrow> pricing_response list" where
  "round_rows pf e L rr = concat (map (slice_rows pf e (rq_params rr)) (chunks_of L (rq_pairs rr)))"

lemma slice_rows_idx:
  "map pr_idx (slice_rows pf e p cp) = (if check_of p = None then map ab_idx cp else [])"
proof -
  have "map (\<lambda>i. ab_idx (cp ! i)) [0..<length cp] = map ab_idx cp"
    by (intro nth_equalityI) simp_all
  then show ?thesis by (simp add: slice_rows_def canon_row_def priced_def comp_def)
qed

lemma length_slice_rows: "length (slice_rows pf e p cp) \<le> length cp"
  by (simp add: slice_rows_def)

lemma canon_slice_rows: "map canon_row (slice_rows pf e p cp) = slice_rows pf e p cp"
  by (simp add: slice_rows_def comp_def)

text \<open>A round of the server for a request that passed the check.\<close>

lemma serve_round:
  assumes pf: "platform_ok pf e" "\<forall>j. alloc_ok pf (als j)" and f: "fresh_ok fresh" and s: "sort_ok std_sort"
    and ar: "\<forall>xs. mset (arrive xs) = mset xs"
    and ok: "map_option fst (VerifyRangePricingRequestBuffer (mk_verifier msg default_options)) = Some True"
    and rr: "GetRangePricingRequest msg = Some t" "request_of msg t = Some rr"
    and L: "0 < L" "L \<le> 999999" and n: "length (rq_pairs rr) \<le> 5 * 10 ^ 6"
  shows "\<exists>D rows. serve pf als arrive std_sort fresh (int L) msg = Some (Inr D) \<and>
     root_read range_response_of D = Some (rq_hash rr, Some rows) \<and>
     mset rows = mset (round_rows pf e L rr) \<and> sorted_wrt (\<lambda>a b. pr_idx a \<le> pr_idx b) rows \<and>
     (length rows \<le> 999999 \<longrightarrow> root_check RangePricingResponse_Verify D = Some True)"
proof -
  define ps where "ps = rq_pairs rr"
  have b: "length (rq_pairs rr) + L \<le> 2 ^ 31 - 1" "L \<le> 2 ^ 27" using n L by simp_all
  obtain Ds where Ds: "expand_to_batches fresh rr (int L) = Some (Inr Ds)" "length Ds = nchunks L ps"
    "\<forall>j<length Ds. batch_format.receive (Ds ! j) = Some (Some (batch_content rr (chunk L ps j) (int j)))"
    using expand_batches [OF f L(1) b(2,1)] unfolding ps_def by blast
  define R where "R j = the (worker_round pf (als j) (Ds ! j))" for j
  have R: "worker_round pf (als j) (Ds ! j) = Some (R j)" "R j = [] \<or> received (R j)"
    "rows_in (R j) = slice_rows pf e (rq_params rr) (chunk L ps j)" if "j < length Ds" for j
  proof -
    have "length (chunk L ps j) \<le> 999999" using L by (simp add: chunk_def)
    from worker_round_slice [OF pf(1) spec [OF pf(2)] this] Ds(3) that
    obtain r where "worker_round pf (als j) (Ds ! j) = Some r" "r = [] \<or> received r"
      "rows_in r = slice_rows pf e (rq_params rr) (chunk L ps j)" by blast
    then show "worker_round pf (als j) (Ds ! j) = Some (R j)" "R j = [] \<or> received (R j)"
      "rows_in (R j) = slice_rows pf e (rq_params rr) (chunk L ps j)" by (simp_all add: R_def)
  qed
  define Rs where "Rs = map R [0..<length Ds]"
  have w: "those (map (\<lambda>j. worker_round pf (als j) (Ds ! j)) [0..<length Ds]) = Some Rs"
    unfolding Rs_def by (rule those_map_Some) (use R(1) in simp)
  have sa: "set (arrive Rs) = set Rs" using ar by (metis set_mset_mset)
  have "\<forall>D\<in>set Rs. D = [] \<or> received D" unfolding Rs_def using R(2) by simp
  then have "\<forall>D\<in>set (arrive Rs). D = [] \<or> received D" using sa by simp
  from collect_results_eq [OF this] obtain rows0 where
    c: "collect_results (arrive Rs) = Some rows0" and r0: "rows0 = concat (map rows_in (arrive Rs))" by simp
  have "map rows_in Rs = map (slice_rows pf e (rq_params rr)) (chunks_of L ps)"
    unfolding Rs_def chunks_of_def using R(3) Ds(2) by simp
  then have m0: "mset rows0 = mset (round_rows pf e L rr)"
    using mset_concat_perm [OF spec [OF ar, of Rs], of rows_in] by (simp add: r0 round_rows_def ps_def)
  have "length (round_rows pf e L rr) \<le> length ps"
  proof -
    have "length (concat (map (slice_rows pf e (rq_params rr)) cs)) \<le> length (concat cs)" for cs
      by (induction cs) (simp_all add: add_mono length_slice_rows)
    from this [of "chunks_of L ps"] show ?thesis using concat_chunks_of [OF L(1), of ps] by (simp add: round_rows_def ps_def)
  qed
  then have n0: "length rows0 \<le> 5 * 10 ^ 6" using n m0 by (simp add: ps_def) (metis le_trans size_mset)
  obtain D where D: "make_reply std_sort fresh (rq_hash rr) rows0 = Some D"
    "root_read range_response_of D = Some (rq_hash rr, Some (map canon_row (std_sort rows0)))"
    "length rows0 \<le> 999999 \<longrightarrow> root_check RangePricingResponse_Verify D = Some True"
    using make_reply_spec [OF s f n0, of "rq_hash rr"] by blast
  have ms: "mset (std_sort rows0) = mset (round_rows pf e L rr)" using s m0 by (simp add: sort_ok_def)
  have "\<forall>r\<in>set (round_rows pf e L rr). canon_row r = r"
    by (auto simp: round_rows_def slice_rows_def split: if_splits)
  then have id: "map canon_row (std_sort rows0) = std_sort rows0"
    using ms by (metis map_idI set_mset_mset)
  have "serve pf als arrive std_sort fresh (int L) msg = Some (Inr D)"
    using ok rr Ds(1) w c D(1) by (auto simp: serve_def on_request_def)
  moreover have "sorted_wrt (\<lambda>a b. pr_idx a \<le> pr_idx b) (std_sort rows0)" using s by (simp add: sort_ok_def)
  moreover have "length (std_sort rows0) = length rows0" by (rule sort_ok_length [OF s])
  ultimately show ?thesis using D(2,3) ms id by (intro exI [of _ D] exI [of _ "std_sort rows0"]) simp
qed

end
