(* ===== verification/Dispatch.thy ===== *)
theory Dispatch
  imports Server_Facts
begin

text \<open>
  The threads of \<open>run_server\<close> and the sockets between them, for one request: the server sends every
  batch, then receives as many messages; each worker takes a batch from its pipe, answers it, and
  pushes the answer into its other pipe.  A ZeroMQ pipe is a bounded queue; its limit is a parameter and
  stands for what the pipe really takes, since the high-water mark is documented as approximate only:
  \<open>send\<close> goes to some worker's pipe with room and blocks while there is none, \<open>recv\<close> takes from some
  pipe that is not empty and blocks while there is none.  Steps interleave in any order.
\<close>

section \<open>States and steps\<close>

text \<open>A batch and its answer carry the number of the batch, which the code does not see.\<close>

type_synonym item = "nat \<times> buffer"

record dispatch_state =
  ds_to_send :: "item list"
  ds_pipes :: "item list list"
  ds_busy :: "item option list"
  ds_outs :: "item list list"
  ds_expect :: nat
  ds_got :: "item list"

definition dispatch_start :: "nat \<Rightarrow> buffer list \<Rightarrow> dispatch_state" where
  "dispatch_start workers batches =
     \<lparr>ds_to_send = enumerate 0 batches, ds_pipes = replicate workers [], ds_busy = replicate workers None,
      ds_outs = replicate workers [], ds_expect = length batches, ds_got = []\<rparr>"

inductive dispatch_step :: "platform \<Rightarrow> nat \<Rightarrow> nat \<Rightarrow> dispatch_state \<Rightarrow> dispatch_state \<Rightarrow> bool"
  for pf :: platform and hwm_dispatch hwm_results :: nat where
  send: "ds_to_send s = b # bs \<Longrightarrow> i < length (ds_pipes s) \<Longrightarrow> length (ds_pipes s ! i) < hwm_dispatch \<Longrightarrow>
    dispatch_step pf hwm_dispatch hwm_results s
      (s\<lparr>ds_to_send := bs, ds_pipes := (ds_pipes s)[i := ds_pipes s ! i @ [b]]\<rparr>)"
| pull: "i < length (ds_pipes s) \<Longrightarrow> ds_busy s ! i = None \<Longrightarrow> ds_pipes s ! i = b # bs \<Longrightarrow>
    dispatch_step pf hwm_dispatch hwm_results s
      (s\<lparr>ds_pipes := (ds_pipes s)[i := bs], ds_busy := (ds_busy s)[i := Some b]\<rparr>)"
| push: "i < length (ds_busy s) \<Longrightarrow> ds_busy s ! i = Some (j, D) \<Longrightarrow> length (ds_outs s ! i) < hwm_results \<Longrightarrow>
    alloc_ok pf al \<Longrightarrow> worker_round pf al D = Some R \<Longrightarrow>
    dispatch_step pf hwm_dispatch hwm_results s
      (s\<lparr>ds_busy := (ds_busy s)[i := None], ds_outs := (ds_outs s)[i := ds_outs s ! i @ [(j, R)]]\<rparr>)"
| recv: "ds_to_send s = [] \<Longrightarrow> ds_expect s = Suc n \<Longrightarrow> i < length (ds_outs s) \<Longrightarrow> ds_outs s ! i = r # rs \<Longrightarrow>
    dispatch_step pf hwm_dispatch hwm_results s
      (s\<lparr>ds_expect := n, ds_got := ds_got s @ [r], ds_outs := (ds_outs s)[i := rs]\<rparr>)"

definition dispatch_done :: "dispatch_state \<Rightarrow> bool" where
  "dispatch_done s \<longleftrightarrow> ds_to_send s = [] \<and> ds_expect s = 0"

text \<open>What the server sends to the client when it is done.\<close>

definition dispatch_reply ::
    "(pricing_response list \<Rightarrow> pricing_response list) \<Rightarrow> (nat \<Rightarrow> byte list) \<Rightarrow> u64 \<Rightarrow> dispatch_state \<Rightarrow> buffer option" where
  "dispatch_reply std_sort fresh request_hash s = do {
     all_results \<leftarrow> collect_results (map snd (ds_got s));
     make_reply std_sort fresh request_hash all_results
   }"

inductive_cases dispatch_stepE: "dispatch_step pf cd cr s s'"

section \<open>Every run ends\<close>

definition busy_items :: "item option list \<Rightarrow> item list" where
  "busy_items bs = concat (map (\<lambda>x. case x of None \<Rightarrow> [] | Some b \<Rightarrow> [b]) bs)"

definition ds_measure :: "dispatch_state \<Rightarrow> nat" where
  "ds_measure s = 4 * length (ds_to_send s) + 3 * length (concat (ds_pipes s)) + 2 * length (busy_items (ds_busy s)) +
     length (concat (ds_outs s))"

lemma mset_concat_update:
  "i < length xs \<Longrightarrow> mset (concat (xs[i := ys])) + mset (xs ! i) = mset (concat xs) + mset ys"
proof (induction xs arbitrary: i)
  case Nil
  then show ?case by simp
next
  case (Cons x xs)
  then show ?case by (cases i) (simp_all add: ac_simps)
qed

lemma length_concat_update: "i < length xs \<Longrightarrow> length (concat (xs[i := ys])) + length (xs ! i) = length (concat xs) + length ys"
  using mset_concat_update [of i xs ys] by (metis size_mset size_union)

lemma busy_items_update:
  assumes "i < length bs"
  shows "mset (busy_items (bs[i := x])) + mset (case bs ! i of None \<Rightarrow> [] | Some b \<Rightarrow> [b]) =
    mset (busy_items bs) + mset (case x of None \<Rightarrow> [] | Some b \<Rightarrow> [b])"
  using mset_concat_update [of i "map (\<lambda>x. case x of None \<Rightarrow> [] | Some b \<Rightarrow> [b]) bs"] assms
  by (simp add: busy_items_def map_update)

lemma busy_items_length:
  assumes "i < length bs"
  shows "length (busy_items (bs[i := x])) + (if bs ! i = None then 0 else 1) =
    length (busy_items bs) + (if x = None then 0 else 1)"
  using arg_cong [OF busy_items_update [OF assms, of x], of size] by (auto split: option.splits)

text \<open>The shape of a state: one pipe of each kind and one hand for each worker.\<close>

definition ds_shape :: "nat \<Rightarrow> nat \<Rightarrow> nat \<Rightarrow> dispatch_state \<Rightarrow> bool" where
  "ds_shape W cd cr s \<longleftrightarrow> length (ds_pipes s) = W \<and> length (ds_busy s) = W \<and> length (ds_outs s) = W \<and>
     (\<forall>i<W. length (ds_pipes s ! i) \<le> cd \<and> length (ds_outs s ! i) \<le> cr)"

lemma ds_shape_start: "ds_shape W cd cr (dispatch_start W bs)"
  by (simp add: ds_shape_def dispatch_start_def)

lemma ds_shape_step: "dispatch_step pf cd cr s s' \<Longrightarrow> ds_shape W cd cr s \<Longrightarrow> ds_shape W cd cr s'"
proof (induction rule: dispatch_step.induct)
  case (pull i s b bs)
  then have "length bs \<le> cd" by (metis Suc_leD ds_shape_def length_Cons)
  with pull show ?case by (auto simp: ds_shape_def nth_list_update)
next
  case (recv s n i r rs)
  then have "length rs \<le> cr" by (metis Suc_leD ds_shape_def length_Cons)
  with recv show ?case by (auto simp: ds_shape_def nth_list_update)
qed (auto simp: ds_shape_def nth_list_update)

lemma ds_measure_step: "dispatch_step pf cd cr s s' \<Longrightarrow> ds_shape W cd cr s \<Longrightarrow> ds_measure s' < ds_measure s"
proof (induction rule: dispatch_step.induct)
  case (send s b bs i)
  then show ?case using length_concat_update [of i "ds_pipes s" "ds_pipes s ! i @ [b]"] by (simp add: ds_measure_def)
next
  case (pull i s b bs)
  then show ?case using length_concat_update [of i "ds_pipes s" bs] busy_items_length [of i "ds_busy s" "Some b"]
    by (simp add: ds_measure_def ds_shape_def)
next
  case (push i s j D al R)
  then show ?case using length_concat_update [of i "ds_outs s" "ds_outs s ! i @ [(j, R)]"] busy_items_length [of i "ds_busy s" None]
    by (simp add: ds_measure_def ds_shape_def)
next
  case (recv s n i r rs)
  then show ?case using length_concat_update [of i "ds_outs s" rs] by (simp add: ds_measure_def)
qed

text \<open>Runs that count their steps.\<close>

inductive dispatch_run :: "platform \<Rightarrow> nat \<Rightarrow> nat \<Rightarrow> dispatch_state \<Rightarrow> nat \<Rightarrow> dispatch_state \<Rightarrow> bool"
  for pf :: platform and hwm_dispatch hwm_results :: nat where
  run_refl: "dispatch_run pf hwm_dispatch hwm_results s 0 s"
| run_step: "dispatch_run pf hwm_dispatch hwm_results s n s' \<Longrightarrow> dispatch_step pf hwm_dispatch hwm_results s' s'' \<Longrightarrow>
    dispatch_run pf hwm_dispatch hwm_results s (Suc n) s''"

lemma dispatch_run_bound:
  assumes "dispatch_run pf cd cr s n s'" and "ds_shape W cd cr s"
  shows "ds_shape W cd cr s' \<and> n + ds_measure s' \<le> ds_measure s"
  using assms
proof (induction rule: dispatch_run.induct)
  case (run_refl s)
  then show ?case by simp
next
  case (run_step s n s' s'')
  then show ?case using ds_shape_step ds_measure_step by fastforce
qed

section \<open>Nothing is lost and nothing is made up\<close>

definition ds_items :: "dispatch_state \<Rightarrow> item multiset" where
  "ds_items s = mset (ds_to_send s) + mset (concat (ds_pipes s)) + mset (busy_items (ds_busy s))"

definition ds_answers :: "dispatch_state \<Rightarrow> item multiset" where
  "ds_answers s = mset (concat (ds_outs s)) + mset (ds_got s)"

definition answered :: "platform \<Rightarrow> buffer list \<Rightarrow> item \<Rightarrow> bool" where
  "answered pf batches x \<longleftrightarrow> (\<exists>al. alloc_ok pf al \<and> worker_round pf al (batches ! fst x) = Some (snd x))"

definition ds_inv :: "platform \<Rightarrow> buffer list \<Rightarrow> dispatch_state \<Rightarrow> bool" where
  "ds_inv pf batches s \<longleftrightarrow>
     image_mset fst (ds_items s + ds_answers s) = mset [0..<length batches] \<and>
     ds_expect s + length (ds_got s) = length batches \<and>
     (\<forall>x\<in>#ds_items s. snd x = batches ! fst x) \<and> (\<forall>x\<in>#ds_answers s. answered pf batches x) \<and>
     (ds_to_send s \<noteq> [] \<longrightarrow> ds_got s = [])"

lemma ds_inv_start: "ds_inv pf batches (dispatch_start W batches)"
proof -
  have "mset (concat (replicate W ([] :: item list))) = {#}" "busy_items (replicate W None) = []"
    by (induction W) (simp_all add: busy_items_def)
  moreover have "image_mset fst (mset (enumerate 0 batches)) = mset [0..<length batches]"
    by (simp flip: mset_map add: map_fst_enumerate)
  moreover have "snd x = batches ! fst x" if "x \<in> set (enumerate 0 batches)" for x
    using that by (auto simp: in_set_enumerate_eq)
  ultimately show ?thesis by (simp add: ds_inv_def dispatch_start_def ds_items_def ds_answers_def)
qed

lemma items_send:
  "i < length ps \<Longrightarrow> mset (concat (ps[i := ps ! i @ [b]])) = mset (concat ps) + {#b :: item#}"
  using mset_concat_update [of i ps "ps ! i @ [b]"] by simp

lemma items_take: "i < length ps \<Longrightarrow> ps ! i = b # bs \<Longrightarrow> mset (concat ps) = mset (concat (ps[i := bs])) + {#b :: item#}"
  using mset_concat_update [of i ps bs] by simp

lemma busy_take: "i < length bs \<Longrightarrow> bs ! i = None \<Longrightarrow> mset (busy_items (bs[i := Some b])) = mset (busy_items bs) + {#b#}"
  using busy_items_update [of i bs "Some b"] by simp

lemma busy_give: "i < length bs \<Longrightarrow> bs ! i = Some b \<Longrightarrow> mset (busy_items bs) = mset (busy_items (bs[i := None])) + {#b#}"
  using busy_items_update [of i bs None] by simp

lemma ds_inv_step: "dispatch_step pf cd cr s s' \<Longrightarrow> ds_shape W cd cr s \<Longrightarrow> ds_inv pf batches s \<Longrightarrow> ds_inv pf batches s'"
proof (induction rule: dispatch_step.induct)
  case (send s b bs i)
  let ?s' = "s\<lparr>ds_to_send := bs, ds_pipes := (ds_pipes s)[i := ds_pipes s ! i @ [b]]\<rparr>"
  have "ds_items ?s' = ds_items s" "ds_answers ?s' = ds_answers s" using send by (simp_all add: ds_items_def ds_answers_def items_send)
  with send show ?case by (auto simp: ds_inv_def)
next
  case (pull i s b bs)
  let ?s' = "s\<lparr>ds_pipes := (ds_pipes s)[i := bs], ds_busy := (ds_busy s)[i := Some b]\<rparr>"
  have "ds_items ?s' = ds_items s" "ds_answers ?s' = ds_answers s"
    using pull items_take [of i "ds_pipes s" b bs] busy_take [of i "ds_busy s" b] by (simp_all add: ds_items_def ds_answers_def ds_shape_def)
  with pull show ?case by (simp add: ds_inv_def)
next
  case (push i s j D al R)
  let ?s' = "s\<lparr>ds_busy := (ds_busy s)[i := None], ds_outs := (ds_outs s)[i := ds_outs s ! i @ [(j, R)]]\<rparr>"
  have i: "ds_items s = ds_items ?s' + {#(j, D)#}" "ds_answers ?s' = ds_answers s + {#(j, R)#}"
    using push busy_give [of i "ds_busy s" "(j, D)"] items_send [of i "ds_outs s" "(j, R)"]
    by (simp_all add: ds_items_def ds_answers_def ds_shape_def)
  with push have "D = batches ! j" by (simp add: ds_inv_def)
  with push have "answered pf batches (j, R)" by (auto simp: answered_def)
  with i push show ?case by (auto simp: ds_inv_def)
next
  case (recv s n i r rs)
  let ?s' = "s\<lparr>ds_expect := n, ds_got := ds_got s @ [r], ds_outs := (ds_outs s)[i := rs]\<rparr>"
  have "ds_items ?s' = ds_items s" "ds_answers ?s' = ds_answers s"
    using recv items_take [of i "ds_outs s" r rs] by (simp_all add: ds_items_def ds_answers_def)
  with recv show ?case by (simp add: ds_inv_def)
qed

lemma dispatch_run_inv:
  assumes "dispatch_run pf cd cr s n s'" and "ds_shape W cd cr s" and "ds_inv pf batches s"
  shows "ds_shape W cd cr s' \<and> ds_inv pf batches s'"
  using assms
proof (induction rule: dispatch_run.induct)
  case (run_refl s)
  then show ?case by simp
next
  case (run_step s n s' s'')
  then show ?case using ds_shape_step ds_inv_step by blast
qed

lemma ds_inv_sizes:
  assumes "ds_inv pf batches s"
  shows "size (ds_items s) + size (ds_answers s) = length batches"
  using arg_cong [OF conjunct1 [OF assms [unfolded ds_inv_def]], of size] by simp

text \<open>When the server is done, it has received one answer to each batch.\<close>

lemma dispatch_done_got:
  assumes "ds_inv pf batches s" and "dispatch_done s"
  shows "mset (map fst (ds_got s)) = mset [0..<length batches] \<and> (\<forall>x\<in>set (ds_got s). answered pf batches x)"
proof -
  have "length (ds_got s) = length batches" using assms by (simp add: ds_inv_def dispatch_done_def)
  with ds_inv_sizes [OF assms(1)] have "size (ds_items s) = 0" "size (concat (ds_outs s)) = 0"
    by (simp_all add: ds_answers_def)
  then have "ds_items s = {#}" "ds_answers s = mset (ds_got s)" by (simp_all add: ds_answers_def)
  with assms(1) show ?thesis by (simp add: ds_inv_def)
qed

section \<open>Progress and deadlock\<close>

definition in_flight :: "dispatch_state \<Rightarrow> nat" where
  "in_flight s = length (concat (ds_pipes s)) + length (busy_items (ds_busy s)) + length (concat (ds_outs s))"

definition dispatch_capacity :: "nat \<Rightarrow> nat \<Rightarrow> nat \<Rightarrow> nat" where
  "dispatch_capacity W cd cr = W * (cd + 1 + cr)"

lemma length_concat_le: "\<forall>i<length xs. length (xs ! i) \<le> k \<Longrightarrow> length (concat xs) \<le> length xs * k"
proof (induction xs)
  case Nil
  then show ?case by simp
next
  case (Cons x xs)
  from Cons.prems have "length x \<le> k" "\<forall>i<length xs. length (xs ! i) \<le> k" by fastforce+
  with Cons.IH show ?case by simp
qed

lemma length_concat_eq: "\<forall>i<length xs. length (xs ! i) = k \<Longrightarrow> length (concat xs) = length xs * k"
proof (induction xs)
  case Nil
  then show ?case by simp
next
  case (Cons x xs)
  from Cons.prems have "length x = k" "\<forall>i<length xs. length (xs ! i) = k" by fastforce+
  with Cons.IH show ?case by simp
qed

lemma in_flight_le: "ds_shape W cd cr s \<Longrightarrow> in_flight s \<le> dispatch_capacity W cd cr"
proof -
  assume s: "ds_shape W cd cr s"
  have "length (busy_items (ds_busy s)) \<le> length (map (\<lambda>x. case x of None \<Rightarrow> [] | Some b \<Rightarrow> [b]) (ds_busy s)) * 1"
    unfolding busy_items_def by (rule length_concat_le) (auto split: option.split)
  moreover have "length (concat (ds_pipes s)) \<le> length (ds_pipes s) * cd" "length (concat (ds_outs s)) \<le> length (ds_outs s) * cr"
    by (rule length_concat_le, use s in \<open>simp add: ds_shape_def\<close>)+
  ultimately show ?thesis using s by (simp add: in_flight_def dispatch_capacity_def ds_shape_def algebra_simps)
qed

text \<open>A worker can answer anything that it may be given.\<close>

definition workable :: "platform \<Rightarrow> buffer list \<Rightarrow> bool" where
  "workable pf batches \<longleftrightarrow> (\<forall>D\<in>set batches. \<exists>al R. alloc_ok pf al \<and> worker_round pf al D = Some R)"

lemma ds_busy_workable:
  assumes "ds_inv pf batches s" and "workable pf batches" and "i < length (ds_busy s)" and "ds_busy s ! i = Some (j, D)"
  shows "\<exists>al R. alloc_ok pf al \<and> worker_round pf al D = Some R"
proof -
  have "(j, D) \<in># mset (busy_items (ds_busy s))" using busy_give [OF assms(3,4)] by simp
  then have x: "(j, D) \<in># ds_items s" by (simp add: ds_items_def)
  then have "j \<in># image_mset fst (ds_items s + ds_answers s)" by force
  with assms(1) x have "j < length batches" "D = batches ! j" by (auto simp: ds_inv_def)
  with assms(2) show ?thesis by (simp add: workable_def)
qed

text \<open>
  Without a step, the server is done, or every pipe, hand and answer pipe is full and there is
  still a batch to send.
\<close>

lemma dispatch_stuck:
  assumes sh: "ds_shape W cd cr s" and inv: "ds_inv pf batches s" and w: "workable pf batches"
    and p: "0 < cd" "0 < cr" and stuck: "\<nexists>s'. dispatch_step pf cd cr s s'"
  shows "dispatch_done s \<or> (ds_to_send s \<noteq> [] \<and> in_flight s = dispatch_capacity W cd cr)"
proof -
  have noout: "\<not> length (ds_outs s ! i) < cr" if iw: "i < W" and nb: "ds_busy s ! i \<noteq> None" for i
  proof
    assume l: "length (ds_outs s ! i) < cr"
    obtain j D where b: "ds_busy s ! i = Some (j, D)" using nb by auto
    have i: "i < length (ds_busy s)" using sh iw by (simp add: ds_shape_def)
    obtain al R where "alloc_ok pf al" "worker_round pf al D = Some R" using ds_busy_workable [OF inv w i b] by blast
    from push [OF i b l this] stuck show False by blast
  qed
  have idle: "ds_pipes s ! i = []" if "i < W" "ds_busy s ! i = None" for i
  proof (rule ccontr)
    assume "ds_pipes s ! i \<noteq> []"
    then obtain b bs where "ds_pipes s ! i = b # bs" by (cases "ds_pipes s ! i") auto
    with pull [of i s b bs pf cd cr] that sh stuck show False by (auto simp: ds_shape_def)
  qed
  show ?thesis
  proof (cases "ds_to_send s")
    case Nil
    show ?thesis
    proof (cases "ds_expect s")
      case 0
      with Nil show ?thesis by (simp add: dispatch_done_def)
    next
      case (Suc n)
      have o: "ds_outs s ! i = []" if "i < W" for i
      proof (rule ccontr)
        assume "ds_outs s ! i \<noteq> []"
        then obtain r rs where "ds_outs s ! i = r # rs" by (cases "ds_outs s ! i") auto
        with recv [OF Nil Suc, of i r rs pf cd cr] that sh stuck show False by (auto simp: ds_shape_def)
      qed
      have b: "ds_busy s ! i = None" if "i < W" for i
        by (rule ccontr) (use noout [OF that] o [OF that] p in simp)
      have "length (concat (ds_outs s)) = length (ds_outs s) * 0" "length (concat (ds_pipes s)) = length (ds_pipes s) * 0"
        by (rule length_concat_eq, use o idle b sh in \<open>simp add: ds_shape_def\<close>)+
      moreover have "length (busy_items (ds_busy s)) = length (map (\<lambda>x. case x of None \<Rightarrow> [] | Some b \<Rightarrow> [b]) (ds_busy s)) * 0"
        unfolding busy_items_def using b sh by (intro length_concat_eq) (auto simp: ds_shape_def)
      ultimately have "size (ds_items s) = 0" "size (ds_answers s) = length (ds_got s)" using Nil by (simp_all add: ds_items_def ds_answers_def)
      with ds_inv_sizes [OF inv] inv Suc show ?thesis by (simp add: ds_inv_def)
    qed
  next
    case (Cons b bs)
    have full: "length (ds_pipes s ! i) = cd" if "i < W" for i
    proof -
      have "\<not> length (ds_pipes s ! i) < cd" using send [OF Cons, of i cd pf cr] that sh stuck by (auto simp: ds_shape_def)
      with sh that show ?thesis by (metis ds_shape_def le_neq_implies_less)
    qed
    then have hand: "ds_busy s ! i \<noteq> None" if "i < W" for i using idle [OF that] that p by fastforce
    then have ofull: "length (ds_outs s ! i) = cr" if "i < W" for i using noout [OF that] sh that by (metis ds_shape_def le_neq_implies_less)
    have "length (concat (ds_outs s)) = length (ds_outs s) * cr" "length (concat (ds_pipes s)) = length (ds_pipes s) * cd"
      by (rule length_concat_eq, use full ofull sh in \<open>simp add: ds_shape_def\<close>)+
    moreover have "length (busy_items (ds_busy s)) = length (map (\<lambda>x. case x of None \<Rightarrow> [] | Some b \<Rightarrow> [b]) (ds_busy s)) * 1"
      unfolding busy_items_def
      by (rule length_concat_eq) (use hand sh in \<open>fastforce simp: ds_shape_def split: option.split\<close>)
    ultimately show ?thesis using Cons sh by (simp add: in_flight_def dispatch_capacity_def ds_shape_def algebra_simps)
  qed
qed

text \<open>Up to the capacity a stuck server is done; beyond it, it is never done.\<close>

lemma dispatch_progress:
  assumes "ds_shape W cd cr s" and "ds_inv pf batches s" and "workable pf batches" and "0 < cd" and "0 < cr"
    and "length batches \<le> dispatch_capacity W cd cr" and "\<nexists>s'. dispatch_step pf cd cr s s'"
  shows "dispatch_done s"
proof -
  have "length (ds_to_send s) + in_flight s \<le> length batches"
    using ds_inv_sizes [OF assms(2)] by (simp add: ds_items_def ds_answers_def in_flight_def)
  with dispatch_stuck [OF assms(1-5,7)] assms(6) show ?thesis by (cases "ds_to_send s") auto
qed

text \<open>While there is something to send, nothing has been received.\<close>

lemma dispatch_over_capacity:
  assumes "ds_shape W cd cr s" and "ds_inv pf batches s" and "dispatch_capacity W cd cr < length batches" and "ds_to_send s \<noteq> []"
    and "dispatch_step pf cd cr s s'"
  shows "ds_to_send s' \<noteq> []"
proof
  assume n: "ds_to_send s' = []"
  have "ds_shape W cd cr s'" "ds_inv pf batches s'" using ds_shape_step [OF assms(5,1)] ds_inv_step [OF assms(5,1,2)] .
  moreover have "ds_got s' = []" using assms(5,4,2) by (auto elim!: dispatch_stepE simp: ds_inv_def)
  ultimately show False using ds_inv_sizes [of pf batches s'] in_flight_le [of W cd cr s'] n assms(3)
    by (simp add: ds_items_def ds_answers_def in_flight_def)
qed

lemma dispatch_never_done:
  assumes "dispatch_run pf cd cr (dispatch_start W batches) n s" and "dispatch_capacity W cd cr < length batches"
  shows "ds_to_send s \<noteq> []"
proof -
  define s0 where "s0 = dispatch_start W batches"
  have i: "ds_shape W cd cr s0" "ds_inv pf batches s0" unfolding s0_def by (rule ds_shape_start, rule ds_inv_start)
  have t: "ds_to_send s0 \<noteq> []" using assms(2) by (cases batches) (simp_all add: s0_def dispatch_start_def enumerate_eq_zip)
  have "ds_shape W cd cr s \<and> ds_inv pf batches s \<and> ds_to_send s \<noteq> []"
    using assms(1) [folded s0_def] i t
  proof (induction rule: dispatch_run.induct)
    case (run_refl s)
    then show ?case by simp
  next
    case (run_step s n s' s'')
    then show ?case using ds_shape_step ds_inv_step dispatch_over_capacity [OF _ _ assms(2)] by blast
  qed
  then show ?thesis by simp
qed

section \<open>A run computes what \<open>serve\<close> computes\<close>

lemma dispatch_answers:
  assumes "ds_inv pf batches s" and "dispatch_done s" and "alloc_ok pf al0"
  obtains als results where "\<forall>j. alloc_ok pf (als j)"
    "those (map (\<lambda>j. worker_round pf (als j) (batches ! j)) [0..<length batches]) = Some results"
    "mset (map snd (ds_got s)) = mset results"
proof -
  let ?N = "length batches"
  note got = dispatch_done_got [OF assms(1,2)]
  define g where "g = map_of (ds_got s)"
  have "distinct (map fst (ds_got s))" using got by (metis distinct_upt mset_eq_imp_distinct_iff)
  then have g: "g j = Some R \<longleftrightarrow> (j, R) \<in> set (ds_got s)" for j R by (simp add: g_def map_of_eq_Some_iff)
  have "set (map fst (ds_got s)) = set [0..<?N]" using got by (metis set_mset_mset)
  then have ex: "\<exists>R. g j = Some R" if "j < ?N" for j using that g by fastforce
  define als where "als = (\<lambda>j. SOME al. alloc_ok pf al \<and> (j < ?N \<longrightarrow> worker_round pf al (batches ! j) = g j))"
  have a: "alloc_ok pf (als j) \<and> (j < ?N \<longrightarrow> worker_round pf (als j) (batches ! j) = g j)" for j
  proof -
    have "\<exists>al. alloc_ok pf al \<and> (j < ?N \<longrightarrow> worker_round pf al (batches ! j) = g j)"
    proof (cases "j < ?N")
      case True
      then obtain R where R: "g j = Some R" using ex by blast
      with g have "(j, R) \<in> set (ds_got s)" by blast
      with got have "answered pf batches (j, R)" by blast
      with R show ?thesis by (auto simp: answered_def)
    qed (use assms(3) in auto)
    then show ?thesis unfolding als_def by (rule someI_ex)
  qed
  define results where "results = map (\<lambda>j. the (g j)) [0..<?N]"
  have "those (map (\<lambda>j. worker_round pf (als j) (batches ! j)) [0..<?N]) = Some results"
  proof -
    have "map (\<lambda>j. worker_round pf (als j) (batches ! j)) [0..<?N] = map Some results"
      using a ex unfolding results_def by (auto intro!: map_cong)
    then show ?thesis by (simp add: those_map_Some)
  qed
  moreover have "mset (map snd (ds_got s)) = mset results"
  proof -
    have "map snd (ds_got s) = map (\<lambda>x. the (g (fst x))) (ds_got s)"     proof (intro map_cong refl)
      fix x
      assume "x \<in> set (ds_got s)"
      then have "g (fst x) = Some (snd x)" using g by simp
      then show "snd x = the (g (fst x))" by simp
    qed
    also have "mset \<dots> = image_mset (\<lambda>j. the (g j)) (mset (map fst (ds_got s)))" by (simp add: image_mset.compositionality comp_def)
    also have "\<dots> = mset results" unfolding results_def using got by (metis mset_map)
    finally show ?thesis .
  qed
  ultimately show ?thesis using that [of als results] a by blast
qed

text \<open>A permutation of the answers, and nothing else, is what the order of arrival is.\<close>

lemma dispatch_serves_inv:
  assumes inv: "ds_inv pf batches s" and "dispatch_done s" and "alloc_ok pf al0"
    and "on_request fresh simd_lanes msg = Some (Inr (Dispatch rr batches))"
  shows "\<exists>als arrive. (\<forall>j. alloc_ok pf (als j)) \<and> (\<forall>xs. mset (arrive xs) = mset xs) \<and>
     serve pf als arrive std_sort fresh simd_lanes msg = map_option Inr (dispatch_reply std_sort fresh (rq_hash rr) s)"
proof -
  obtain als results where a: "\<forall>j. alloc_ok pf (als j)"
    "those (map (\<lambda>j. worker_round pf (als j) (batches ! j)) [0..<length batches]) = Some results"
    "mset (map snd (ds_got s)) = mset results"
    using dispatch_answers [OF assms(1-3)] .
  define arrive where "arrive = (\<lambda>xs. if xs = results then map snd (ds_got s) else xs)"
  have "serve pf als arrive std_sort fresh simd_lanes msg = map_option Inr (dispatch_reply std_sort fresh (rq_hash rr) s)"
    unfolding serve_def assms(4) by (simp add: a(2) arrive_def dispatch_reply_def map_option_case split: bind_splits)
  moreover have "\<forall>xs. mset (arrive xs) = mset xs" using a(3) by (simp add: arrive_def)
  ultimately show ?thesis using a(1) by blast
qed

lemma dispatch_serves:
  assumes "dispatch_run pf cd cr (dispatch_start W batches) n s" and "dispatch_done s" and "alloc_ok pf al0"
    and "on_request fresh simd_lanes msg = Some (Inr (Dispatch rr batches))"
  shows "\<exists>als arrive. (\<forall>j. alloc_ok pf (als j)) \<and> (\<forall>xs. mset (arrive xs) = mset xs) \<and>
     serve pf als arrive std_sort fresh simd_lanes msg = map_option Inr (dispatch_reply std_sort fresh (rq_hash rr) s)"
  using dispatch_serves_inv [OF conjunct2 [OF dispatch_run_inv [OF assms(1) ds_shape_start ds_inv_start]] assms(2-4)] .

text \<open>When the server is done, the pipes and the hands are empty: nothing is left for the next request.\<close>

lemma dispatch_done_clean:
  assumes "ds_inv pf batches s" and "ds_shape W cd cr s" and "dispatch_done s"
  shows "ds_pipes s = replicate W [] \<and> ds_busy s = replicate W None \<and> ds_outs s = replicate W []"
proof -
  have "length (ds_got s) = length batches" using assms(1,3) by (simp add: ds_inv_def dispatch_done_def)
  with ds_inv_sizes [OF assms(1)] have "size (ds_items s) = 0" "size (mset (concat (ds_outs s))) = 0"
    by (simp_all add: ds_answers_def)
  then have c: "concat (ds_pipes s) = []" "busy_items (ds_busy s) = []" "concat (ds_outs s) = []"
    by (simp_all add: ds_items_def)
  have e: "xs = replicate (length xs) []" if "concat xs = []" for xs :: "item list list"
    using that by (induction xs) simp_all
  have b: "bs = replicate (length bs) None" if "busy_items bs = []" for bs
    using that by (induction bs) (auto simp: busy_items_def split: option.splits)
  show ?thesis using e [OF c(1)] b [OF c(2)] e [OF c(3)] assms(2) by (simp add: ds_shape_def)
qed

section \<open>The batches of a request\<close>

lemma request_batches:
  assumes pf: "platform_ok pf e" "alloc_ok pf al" and f: "fresh_ok fresh"
    and L: "0 < L" "L \<le> 999999" and n: "length (rq_pairs rr) \<le> 5 * 10 ^ 6"
  shows "\<exists>batches. expand_to_batches fresh rr (int L) = Some (Inr batches) \<and> length batches = nchunks L (rq_pairs rr) \<and>
    workable pf batches"
proof -
  have b: "length (rq_pairs rr) + L \<le> 2 ^ 31 - 1" "L \<le> 2 ^ 27" using n L by simp_all
  from expand_batches [OF f L(1) b(2,1)] obtain Ds where Ds: "expand_to_batches fresh rr (int L) = Some (Inr Ds)"
    "length Ds = nchunks L (rq_pairs rr)"
    "\<forall>j<length Ds. batch_format.receive (Ds ! j) = Some (Some (batch_content rr (chunk L (rq_pairs rr) j) (int j)))"
    by (elim exE conjE) (rule that; assumption)
  have "\<exists>al R. alloc_ok pf al \<and> worker_round pf al D = Some R" if D: "D \<in> set Ds" for D
  proof -
    obtain j where j: "j < length Ds" "D = Ds ! j" using D by (auto simp: in_set_conv_nth)
    have "length (chunk L (rq_pairs rr) j) \<le> 999999" using L(2) by (simp add: chunk_def)
    from worker_round_slice [OF pf this] Ds(3) j pf(2) show ?thesis by blast
  qed
  with Ds show ?thesis by (auto simp: workable_def)
qed

end
