(* ===== verification/Server_Loop.thy ===== *)
theory Server_Loop
  imports Dispatch
begin

text \<open>
  \<open>run_server\<close> of \<open>src/worker.cpp\<close> over its whole life: the loop over requests, the workers and the
  monitor of signals, and the way they end.  \<open>ctx.shutdown()\<close> makes every socket operation of every
  thread throw \<open>ETERM\<close>.  The pipes and the workers live on from one request to the next.
\<close>

section \<open>The server's states and steps\<close>

datatype server_phase =
    Waiting
  | Round buffer range_request
  | Loop_left
  | Joined
  | Terminated

record server_state =
  sv_phase :: server_phase
  sv_net :: dispatch_state
  sv_down :: bool
  sv_monitor :: bool
  sv_workers :: "bool list"
  sv_log :: "(buffer \<times> buffer) list"

definition idle_net :: "nat \<Rightarrow> dispatch_state" where
  "idle_net workers = \<lparr>ds_to_send = [], ds_pipes = replicate workers [], ds_busy = replicate workers None,
     ds_outs = replicate workers [], ds_expect = 0, ds_got = []\<rparr>"

text \<open>After the threads are started; when the front end cannot be bound the loop is left at once.\<close>

definition server_start :: "nat \<Rightarrow> bool \<Rightarrow> server_state" where
  "server_start workers bound =
     \<lparr>sv_phase = (if bound then Waiting else Loop_left), sv_net = idle_net workers, sv_down = False, sv_monitor = True,
      sv_workers = replicate workers True, sv_log = []\<rparr>"

definition start_round :: "buffer list \<Rightarrow> dispatch_state \<Rightarrow> dispatch_state" where
  "start_round batches s = s\<lparr>ds_to_send := enumerate 0 batches, ds_expect := length batches, ds_got := []\<rparr>"

inductive server_step ::
    "platform \<Rightarrow> (pricing_response list \<Rightarrow> pricing_response list) \<Rightarrow> (nat \<Rightarrow> byte list) \<Rightarrow> int \<Rightarrow> nat \<Rightarrow> nat \<Rightarrow>
     server_state \<Rightarrow> server_state \<Rightarrow> bool"
  for pf :: platform and std_sort :: "pricing_response list \<Rightarrow> pricing_response list" and fresh :: "nat \<Rightarrow> byte list"
    and simd_lanes :: int and hwm_dispatch hwm_results :: nat where
  refuse: "sv_phase s = Waiting \<Longrightarrow> \<not> sv_down s \<Longrightarrow> on_request fresh simd_lanes msg = Some (Inr (Reply r)) \<Longrightarrow>
    server_step pf std_sort fresh simd_lanes hwm_dispatch hwm_results s (s\<lparr>sv_log := sv_log s @ [(msg, r)]\<rparr>)"
| accept: "sv_phase s = Waiting \<Longrightarrow> \<not> sv_down s \<Longrightarrow> on_request fresh simd_lanes msg = Some (Inr (Dispatch rr batches)) \<Longrightarrow>
    server_step pf std_sort fresh simd_lanes hwm_dispatch hwm_results s
      (s\<lparr>sv_phase := Round msg rr, sv_net := start_round batches (sv_net s)\<rparr>)"
| throw: "sv_phase s = Waiting \<Longrightarrow> \<not> sv_down s \<Longrightarrow> on_request fresh simd_lanes msg = Some (Inl e) \<Longrightarrow>
    server_step pf std_sort fresh simd_lanes hwm_dispatch hwm_results s (s\<lparr>sv_phase := Terminated\<rparr>)"
| traffic: "sv_phase s \<noteq> Terminated \<Longrightarrow> \<not> sv_down s \<Longrightarrow> dispatch_step pf hwm_dispatch hwm_results (sv_net s) net \<Longrightarrow>
    server_step pf std_sort fresh simd_lanes hwm_dispatch hwm_results s (s\<lparr>sv_net := net\<rparr>)"
| finish: "sv_phase s = Round msg rr \<Longrightarrow> \<not> sv_down s \<Longrightarrow> dispatch_done (sv_net s) \<Longrightarrow>
    dispatch_reply std_sort fresh (rq_hash rr) (sv_net s) = Some D \<Longrightarrow>
    server_step pf std_sort fresh simd_lanes hwm_dispatch hwm_results s
      (s\<lparr>sv_phase := Waiting, sv_log := sv_log s @ [(msg, D)]\<rparr>)"
| signal: "sv_phase s \<noteq> Terminated \<Longrightarrow> sv_monitor s \<Longrightarrow>
    server_step pf std_sort fresh simd_lanes hwm_dispatch hwm_results s (s\<lparr>sv_down := True, sv_monitor := False\<rparr>)"
| leave: "sv_phase s = Waiting \<or> sv_phase s = Round msg rr \<Longrightarrow> sv_down s \<Longrightarrow>
    server_step pf std_sort fresh simd_lanes hwm_dispatch hwm_results s (s\<lparr>sv_phase := Loop_left\<rparr>)"
| worker_exit: "sv_phase s \<noteq> Terminated \<Longrightarrow> sv_down s \<Longrightarrow> i < length (sv_workers s) \<Longrightarrow> sv_workers s ! i \<Longrightarrow>
    server_step pf std_sort fresh simd_lanes hwm_dispatch hwm_results s (s\<lparr>sv_workers := (sv_workers s)[i := False]\<rparr>)"
| join: "sv_phase s = Loop_left \<Longrightarrow> \<not> sv_monitor s \<Longrightarrow> True \<notin> set (sv_workers s) \<Longrightarrow>
    server_step pf std_sort fresh simd_lanes hwm_dispatch hwm_results s (s\<lparr>sv_phase := Joined\<rparr>)"

inductive_cases server_stepE: "server_step pf std_sort fresh simd_lanes cd cr s s'"

inductive server_run ::
    "platform \<Rightarrow> (pricing_response list \<Rightarrow> pricing_response list) \<Rightarrow> (nat \<Rightarrow> byte list) \<Rightarrow> int \<Rightarrow> nat \<Rightarrow> nat \<Rightarrow>
     server_state \<Rightarrow> nat \<Rightarrow> server_state \<Rightarrow> bool"
  for pf :: platform and std_sort :: "pricing_response list \<Rightarrow> pricing_response list" and fresh :: "nat \<Rightarrow> byte list"
    and simd_lanes :: int and hwm_dispatch hwm_results :: nat where
  server_refl: "server_run pf std_sort fresh simd_lanes hwm_dispatch hwm_results s 0 s"
| server_snoc: "server_run pf std_sort fresh simd_lanes hwm_dispatch hwm_results s n s' \<Longrightarrow>
    server_step pf std_sort fresh simd_lanes hwm_dispatch hwm_results s' s'' \<Longrightarrow>
    server_run pf std_sort fresh simd_lanes hwm_dispatch hwm_results s (Suc n) s''"

section \<open>The invariant\<close>

text \<open>What the server has logged is what \<open>serve\<close> gives, for some order of arrival.\<close>

definition served ::
    "platform \<Rightarrow> (pricing_response list \<Rightarrow> pricing_response list) \<Rightarrow> (nat \<Rightarrow> byte list) \<Rightarrow> int \<Rightarrow> buffer \<times> buffer \<Rightarrow> bool" where
  "served pf std_sort fresh simd_lanes x \<longleftrightarrow> (\<exists>als arrive. (\<forall>j. alloc_ok pf (als j)) \<and> (\<forall>xs. mset (arrive xs) = mset xs) \<and>
     serve pf als arrive std_sort fresh simd_lanes (fst x) = Some (Inr (snd x)))"

definition net_inv :: "platform \<Rightarrow> (nat \<Rightarrow> byte list) \<Rightarrow> int \<Rightarrow> nat \<Rightarrow> server_phase \<Rightarrow> dispatch_state \<Rightarrow> bool" where
  "net_inv pf fresh simd_lanes W ph net \<longleftrightarrow>
     (case ph of
        Waiting \<Rightarrow> net\<lparr>ds_got := []\<rparr> = idle_net W
      | Round msg rr \<Rightarrow> (\<exists>batches. on_request fresh simd_lanes msg = Some (Inr (Dispatch rr batches)) \<and> ds_inv pf batches net)
      | _ \<Rightarrow> True)"

definition server_inv ::
    "platform \<Rightarrow> (pricing_response list \<Rightarrow> pricing_response list) \<Rightarrow> (nat \<Rightarrow> byte list) \<Rightarrow> int \<Rightarrow> nat \<Rightarrow> nat \<Rightarrow> nat \<Rightarrow> server_state \<Rightarrow> bool" where
  "server_inv pf std_sort fresh simd_lanes cd cr W s \<longleftrightarrow>
     ds_shape W cd cr (sv_net s) \<and> net_inv pf fresh simd_lanes W (sv_phase s) (sv_net s) \<and>
     (\<forall>x\<in>set (sv_log s). served pf std_sort fresh simd_lanes x) \<and>
     length (sv_workers s) = W \<and> (sv_down s \<longleftrightarrow> \<not> sv_monitor s) \<and> (sv_phase s = Joined \<longrightarrow> sv_down s)"

lemma idle_shape: "ds_shape W cd cr (idle_net W)"
  by (simp add: ds_shape_def idle_net_def)

lemma server_start_inv: "server_inv pf std_sort fresh simd_lanes cd cr W (server_start W bound)"
  by (simp add: server_inv_def server_start_def idle_shape net_inv_def) (simp add: idle_net_def)

text \<open>An idle network takes no step, and a round starts from one as if it were new.\<close>

lemma idle_no_step: "net\<lparr>ds_got := []\<rparr> = idle_net W \<Longrightarrow> \<not> dispatch_step pf cd cr net net'"
proof
  assume n: "net\<lparr>ds_got := []\<rparr> = idle_net W" and st: "dispatch_step pf cd cr net net'"
  from n have "ds_to_send net = []" "ds_pipes net = replicate W []" "ds_busy net = replicate W None" "ds_expect net = 0"
    by (cases net, simp add: idle_net_def)+
  with st show False by (elim dispatch_stepE) auto
qed

lemma start_round_idle: "net\<lparr>ds_got := []\<rparr> = idle_net W \<Longrightarrow> start_round batches net = dispatch_start W batches"
  by (cases net) (simp add: idle_net_def start_round_def dispatch_start_def)

lemma done_idle:
  assumes "ds_inv pf batches s" and "ds_shape W cd cr s" and "dispatch_done s"
  shows "s\<lparr>ds_got := []\<rparr> = idle_net W"
  using dispatch_done_clean [OF assms] assms(3) by (cases s) (simp add: idle_net_def dispatch_done_def)

lemma server_step_inv:
  assumes "server_step pf std_sort fresh simd_lanes cd cr s s'" and "server_inv pf std_sort fresh simd_lanes cd cr W s"
    and "alloc_ok pf al"
  shows "server_inv pf std_sort fresh simd_lanes cd cr W s'"
  using assms(1,2)
proof (induction rule: server_step.induct)
  case (refuse s msg r)
  have "served pf std_sort fresh simd_lanes (msg, r)"
    unfolding served_def using refuse(3) assms(3)
    by (intro exI [of _ "\<lambda>_. al"] exI [of _ "\<lambda>xs. xs"]) (simp add: serve_def)
  with refuse show ?case by (simp add: server_inv_def)
next
  case (accept s msg rr batches)
  then have "start_round batches (sv_net s) = dispatch_start W batches"
    by (simp add: server_inv_def net_inv_def start_round_idle)
  with accept show ?case by (auto simp: server_inv_def net_inv_def ds_shape_start ds_inv_start)
next
  case (throw s msg e)
  then show ?case by (simp add: server_inv_def net_inv_def)
next
  case (traffic s net)
  then have sh: "ds_shape W cd cr (sv_net s)" by (simp add: server_inv_def)
  have "net_inv pf fresh simd_lanes W (sv_phase s) net"
  proof (cases "sv_phase s")
    case Waiting
    with traffic idle_no_step show ?thesis by (auto simp: server_inv_def net_inv_def)
  next
    case (Round msg rr)
    with traffic ds_inv_step [OF traffic(3) sh] show ?thesis by (auto simp: server_inv_def net_inv_def)
  qed (simp_all add: net_inv_def)
  with traffic ds_shape_step [OF traffic(3) sh] show ?case by (simp add: server_inv_def)
next
  case (finish s msg rr D)
  then obtain batches where b: "on_request fresh simd_lanes msg = Some (Inr (Dispatch rr batches))" "ds_inv pf batches (sv_net s)"
    by (auto simp: server_inv_def net_inv_def)
  from dispatch_serves_inv [OF b(2) finish(3) assms(3) b(1), of std_sort] finish(4)
  have "served pf std_sort fresh simd_lanes (msg, D)" by (auto simp: served_def)
  moreover have "(sv_net s)\<lparr>ds_got := []\<rparr> = idle_net W"
    using done_idle [where W = W and cd = cd and cr = cr, OF b(2) _ finish(3)] finish(5) by (simp add: server_inv_def)
  ultimately show ?case using finish by (simp add: server_inv_def net_inv_def)
next
  case (signal s)
  then show ?case by (simp add: server_inv_def)
next
  case (leave s msg rr)
  then show ?case by (simp add: server_inv_def net_inv_def)
next
  case (worker_exit s i)
  then show ?case by (simp add: server_inv_def)
next
  case (join s)
  then show ?case by (simp add: server_inv_def net_inv_def)
qed

lemma server_run_inv:
  assumes "server_run pf std_sort fresh simd_lanes cd cr s n s'" and "server_inv pf std_sort fresh simd_lanes cd cr W s"
    and "alloc_ok pf al"
  shows "server_inv pf std_sort fresh simd_lanes cd cr W s'"
  using assms(1,2) by (induction rule: server_run.induct) (use assms(3) in \<open>auto intro: server_step_inv\<close>)

section \<open>Shutting down\<close>

definition down_measure :: "server_state \<Rightarrow> nat" where
  "down_measure s = length (filter id (sv_workers s)) +
     (case sv_phase s of Waiting \<Rightarrow> 2 | Round _ _ \<Rightarrow> 2 | Loop_left \<Rightarrow> 1 | _ \<Rightarrow> 0)"

lemma filter_id_update: "i < length bs \<Longrightarrow> bs ! i \<Longrightarrow> Suc (length (filter id (bs[i := False]))) = length (filter id bs)"
  by (induction bs arbitrary: i) (auto split: nat.split simp: nth_Cons')

text \<open>After a signal the threads only leave, and something can leave until all are joined.\<close>

lemma down_step:
  assumes "server_step pf std_sort fresh simd_lanes cd cr s s'" and "sv_down s" and "\<not> sv_monitor s" and "sv_phase s \<noteq> Terminated"
  shows "sv_down s' \<and> \<not> sv_monitor s' \<and> sv_phase s' \<noteq> Terminated \<and> down_measure s' < down_measure s \<and> sv_log s' = sv_log s"
  using assms
proof (induction rule: server_step.induct)
  case (worker_exit s i)
  then show ?case using filter_id_update [of i "sv_workers s"] by (simp add: down_measure_def)
qed (auto simp: down_measure_def)

lemma down_progress:
  assumes "sv_down s" and "\<not> sv_monitor s" and "sv_phase s \<noteq> Terminated" and "\<nexists>s'. server_step pf std_sort fresh simd_lanes cd cr s s'"
  shows "sv_phase s = Joined"
proof (rule ccontr)
  assume j: "sv_phase s \<noteq> Joined"
  have "\<not> (sv_phase s = Waiting \<or> sv_phase s = Round msg rr)" for msg rr
    using leave [of s msg rr] assms by blast
  then have l: "sv_phase s = Loop_left" using j assms(3) by (cases "sv_phase s") auto
  have "True \<notin> set (sv_workers s)"
    using worker_exit [OF assms(3,1)] assms(4) unfolding in_set_conv_nth by blast
  with join [of s] l assms show False by blast
qed

lemma down_run:
  assumes "server_run pf std_sort fresh simd_lanes cd cr s n s'" and "sv_down s" and "\<not> sv_monitor s" and "sv_phase s \<noteq> Terminated"
  shows "sv_down s' \<and> \<not> sv_monitor s' \<and> sv_phase s' \<noteq> Terminated \<and> n + down_measure s' \<le> down_measure s \<and> sv_log s' = sv_log s"
  using assms
proof (induction rule: server_run.induct)
  case (server_refl s)
  then show ?case by simp
next
  case (server_snoc s n s' s'')
  then show ?case using down_step [OF server_snoc.hyps(2)] by fastforce
qed

text \<open>With a positive number of lanes no exception ends the process.\<close>

lemma server_not_terminated:
  assumes "server_run pf std_sort fresh L cd cr s n s'" and "0 < L" and "sv_phase s \<noteq> Terminated"
  shows "sv_phase s' \<noteq> Terminated"
  using assms(1,3)
proof (induction rule: server_run.induct)
  case (server_snoc s n s' s'')
  from server_snoc.hyps(2) server_snoc.IH [OF server_snoc.prems] on_request_no_error [OF assms(2)] show ?case
    by (auto elim: server_step.cases)
qed simp

end
