(* ===== verification/Fmt_Int.thy ===== *)
theory Fmt_Int
  imports Prelude
begin

text \<open>
  Decimal text of integers: \<open>std::to_string\<close>, the integer formatter and the digit counters of
  \<open>spdlog/fmt/bundled/format.h\<close>, and the padded forms of \<open>spdlog/details/fmt_helper.h\<close>.  Unsigned
  values are natural numbers with their bound as a hypothesis; a char buffer is a string, and a
  write outside it is None.
\<close>

section \<open>Decimal digits\<close>

definition digit_char :: "nat \<Rightarrow> char" where
  "digit_char d = char_of (48 + d)"

text \<open>The decimal text of a number, which the routines below are measured against.\<close>

lemma digit_chars:
  "digit_char 0 = CHR ''0''" "digit_char 1 = CHR ''1''" "digit_char (Suc 0) = CHR ''1''" "digit_char 2 = CHR ''2''"
  "digit_char 3 = CHR ''3''" "digit_char 4 = CHR ''4''" "digit_char 5 = CHR ''5''" "digit_char 6 = CHR ''6''"
  "digit_char 7 = CHR ''7''" "digit_char 8 = CHR ''8''" "digit_char 9 = CHR ''9''"
  by code_simp+

fun digits :: "nat \<Rightarrow> string" where
  "digits n = (if n < 10 then [digit_char n] else digits (n div 10) @ [digit_char (n mod 10)])"

declare digits.simps [simp del]

definition to_string :: "int \<Rightarrow> string" where
  "to_string i = (if i < 0 then CHR ''-'' # digits (nat (- i)) else digits (nat i))"

lemma length_digits_pos [simp]: "0 < length (digits n)"
  by (subst digits.simps) simp

lemma digits_not_Nil [simp]: "digits n \<noteq> []"
  using length_digits_pos [of n] by (simp del: length_digits_pos)

lemma length_digits_le: "0 < t \<Longrightarrow> length (digits n) \<le> t \<longleftrightarrow> n < 10 ^ t"
proof (induction t arbitrary: n)
  case 0
  then show ?case by simp
next
  case (Suc t)
  show ?case
  proof (cases "n < 10")
    case True
    have "(10::nat) \<le> 10 ^ Suc t" by simp
    with True have "n < 10 ^ Suc t" by linarith
    with True show ?thesis by (subst digits.simps) simp
  next
    case False
    then have n: "length (digits n) = Suc (length (digits (n div 10)))" by (subst digits.simps) simp
    show ?thesis
    proof (cases "t = 0")
      case True
      with False n show ?thesis by simp
    next
      case t: False
      have "n div 10 < 10 ^ t \<longleftrightarrow> n < 10 ^ t * 10" by (rule div_less_iff_less_mult) simp
      with Suc.IH [of "n div 10"] t n show ?thesis by (simp add: mult.commute)
    qed
  qed
qed

text \<open>The digits determine the number.\<close>

definition digits_val :: "string \<Rightarrow> nat" where
  "digits_val s = foldl (\<lambda>v c. v * 10 + (of_char c - 48)) 0 s"

lemma digits_val_snoc: "digits_val (s @ [c]) = digits_val s * 10 + (of_char c - 48)"
  by (simp add: digits_val_def)

lemma of_digit_char: "d < 10 \<Longrightarrow> (of_char (digit_char d) :: nat) = 48 + d"
  by (simp add: digit_char_def)

lemma digits_val_digits: "digits_val (digits n) = n"
proof (induction n rule: digits.induct)
  case (1 n)
  show ?case
  proof (cases "n < 10")
    case True
    then show ?thesis by (subst digits.simps) (simp add: digits_val_def of_digit_char)
  next
    case False
    with 1 show ?thesis by (subst digits.simps) (simp add: digits_val_snoc of_digit_char)
  qed
qed

section \<open>Writing digits into a buffer\<close>

definition digits2 :: "nat \<Rightarrow> string" where
  "digits2 value =
     take 2 (drop (value * 2) (concat (map (\<lambda>i. [digit_char (i div 10), digit_char (i mod 10)]) [0..<100])))"

text \<open>\<open>write2digits(out + n, value)\<close>, and a single store, in a buffer of chars.\<close>

definition write2digits :: "string \<Rightarrow> nat \<Rightarrow> nat \<Rightarrow> string option" where
  "write2digits out n value =
     (if n + 2 \<le> length out \<and> value < 100 then Some (take n out @ digits2 value @ drop (n + 2) out) else None)"

definition write1 :: "string \<Rightarrow> nat \<Rightarrow> char \<Rightarrow> string option" where
  "write1 out n c = (if n < length out then Some (out[n := c]) else None)"

text \<open>
  The loop of \<open>do_format_decimal\<close> and what follows it; \<open>n\<close> counts down.  Counting below the start
  of the buffer is undefined.
\<close>

fun do_format_decimal :: "string \<Rightarrow> nat \<Rightarrow> nat \<Rightarrow> (nat \<times> string) option" where
  "do_format_decimal out value n =
     (if value \<ge> 100 then
        (if n < 2 then None
         else do {
           out' \<leftarrow> write2digits out (n - 2) (value mod 100);
           do_format_decimal out' (value div 100) (n - 2)
         })
      else if value \<ge> 10 then
        (if n < 2 then None else do { out' \<leftarrow> write2digits out (n - 2) value; Some (n - 2, out') })
      else (if n < 1 then None else do { out' \<leftarrow> write1 out (n - 1) (digit_char value); Some (n - 1, out') }))"

declare do_format_decimal.simps [simp del]

text \<open>
  \<open>format_int\<close>: a buffer of 22 chars, the last one for the terminator, and the position of the
  first char.  \<open>w\<close> is 32 or 64, the width of the unsigned type that the argument is converted to.
\<close>

definition fmt_buffer_size :: nat where
  "fmt_buffer_size = 19 + 3"

definition format_unsigned :: "string \<Rightarrow> nat \<Rightarrow> (nat \<times> string) option" where
  "format_unsigned buffer value = do_format_decimal buffer value (fmt_buffer_size - 1)"

definition format_signed :: "nat \<Rightarrow> string \<Rightarrow> int \<Rightarrow> (nat \<times> string) option" where
  "format_signed w buffer value =
     (let abs_value = nat (value mod 2 ^ w);
          negative = value < 0;
          abs_value' = (if negative then nat ((0 - int abs_value) mod 2 ^ w) else abs_value)
      in do {
        (begin', buffer') \<leftarrow> format_unsigned buffer abs_value';
        (if negative
         then (if begin' < 1 then None
               else do { b2 \<leftarrow> write1 buffer' (begin' - 1) (CHR ''-''); Some (begin' - 1, b2) })
         else Some (begin', buffer'))
      })"

definition format_int_text :: "(nat \<times> string) \<Rightarrow> string" where
  "format_int_text = (\<lambda>(str, buffer). take (fmt_buffer_size - 1 - str) (drop str buffer))"

lemma pairs_drop: "i < n \<Longrightarrow> take 2 (drop (i * 2) (concat (map (\<lambda>i. [f i, g i]) [0..<n]))) = [f i, g i]"
proof (induction n)
  case 0
  then show ?case by simp
next
  case (Suc n)
  have l: "length (concat (map (\<lambda>i. [f i, g i]) [0..<n])) = n * 2" by (induction n) simp_all
  show ?case
  proof (cases "i = n")
    case True
    with l show ?thesis by simp
  next
    case False
    with Suc have "i < n" by simp
    with Suc.IH l show ?thesis by simp
  qed
qed

lemma digits2_eq: "v < 100 \<Longrightarrow> digits2 v = [digit_char (v div 10), digit_char (v mod 10)]"
  unfolding digits2_def by (rule pairs_drop)

lemma digits_1: "v < 10 \<Longrightarrow> digits v = [digit_char v]"
  by (subst digits.simps) simp

lemma digits_2: "10 \<le> v \<Longrightarrow> v < 100 \<Longrightarrow> digits v = digits2 v"
  by (subst digits.simps) (simp add: digits_1 digits2_eq div_less_iff_less_mult)

lemma digits_100: "100 \<le> v \<Longrightarrow> digits v = digits (v div 100) @ digits2 (v mod 100)"
proof -
  assume v: "100 \<le> v"
  have "v mod 100 = 10 * (v div 10 mod 10) + v mod 10" using mod_mult2_eq [of v 10 10] by simp
  then have "v div 10 div 10 = v div 100" "v div 10 mod 10 = v mod 100 div 10" "v mod 100 mod 10 = v mod 10"
    using div_mult2_eq [of v 10 10] by simp_all
  moreover have "digits v = digits (v div 10) @ [digit_char (v mod 10)]"
    using v by (subst digits.simps) simp
  moreover have "digits (v div 10) = digits (v div 10 div 10) @ [digit_char (v div 10 mod 10)]"
    using v by (subst digits.simps) simp
  ultimately show ?thesis by (simp add: digits2_eq)
qed

lemma length_digits2 [simp]: "v < 100 \<Longrightarrow> length (digits2 v) = 2"
  by (simp add: digits2_eq)

lemma do_format_decimal_eq:
  "length (digits v) \<le> n \<Longrightarrow> n \<le> length out \<Longrightarrow>
   do_format_decimal out v n =
     Some (n - length (digits v), take (n - length (digits v)) out @ digits v @ drop n out)"
proof (induction out v n rule: do_format_decimal.induct)
  case (1 out v n)
  consider "v < 10" | "10 \<le> v" "v < 100" | "100 \<le> v" by linarith
  then show ?case
  proof cases
    case 1
    with \<open>length (digits v) \<le> n\<close> have n: "1 \<le> n" by (simp add: digits_1)
    then have "Suc (n - 1) = n" by simp
    with 1 n \<open>n \<le> length out\<close> show ?thesis
      by (subst do_format_decimal.simps) (simp add: digits_1 write1_def upd_conv_take_nth_drop)
  next
    case 2
    with \<open>length (digits v) \<le> n\<close> have "2 \<le> n" by (simp add: digits_2)
    moreover from this have "Suc (Suc (n - 2)) = n" by simp
    ultimately show ?thesis using 2 \<open>n \<le> length out\<close>
      by (subst do_format_decimal.simps) (simp add: digits_2 write2digits_def)
  next
    case 3
    let ?d = "digits (v div 100)" and ?out = "take (n - 2) out @ digits2 (v mod 100) @ drop n out"
    have n: "length ?d + 2 \<le> n" using \<open>length (digits v) \<le> n\<close> 3 by (simp add: digits_100)
    then have n2: "Suc (Suc (n - 2)) = n" by simp
    with n have w: "write2digits out (n - 2) (v mod 100) = Some ?out"
      using \<open>n \<le> length out\<close> by (simp add: write2digits_def)
    have "do_format_decimal ?out (v div 100) (n - 2) =
        Some (n - 2 - length ?d, take (n - 2 - length ?d) ?out @ ?d @ drop (n - 2) ?out)"
      using n \<open>n \<le> length out\<close> 3 by (intro "1.IH") (simp_all add: w)
    moreover have "take (n - 2 - length ?d) ?out = take (n - 2 - length ?d) out"
      "drop (n - 2) ?out = digits2 (v mod 100) @ drop n out"
      using n \<open>n \<le> length out\<close> by simp_all
    ultimately show ?thesis using 3 n n2 w
      by (subst do_format_decimal.simps) (simp add: digits_100)
  qed
qed

lemma length_digits_u64: "n < 2 ^ 64 \<Longrightarrow> length (digits n) \<le> 20"
  by (subst length_digits_le) simp_all

lemma format_unsigned_eq:
  assumes "n < 2 ^ 64" and "length buffer = fmt_buffer_size"
  shows "format_unsigned buffer n = Some (21 - length (digits n), take (21 - length (digits n)) buffer @ digits n @ drop 21 buffer)"
  using assms length_digits_u64 [OF assms(1)]
  by (simp add: format_unsigned_def fmt_buffer_size_def do_format_decimal_eq)

text \<open>The text of an unsigned and of a signed number.\<close>

lemma format_unsigned_text:
  assumes "n < 2 ^ 64" and "length buffer = fmt_buffer_size"
  shows "map_option format_int_text (format_unsigned buffer n) = Some (digits n)"
  using assms length_digits_u64 [OF assms(1)]
  by (simp add: format_unsigned_eq format_int_text_def fmt_buffer_size_def)

lemma format_signed_text:
  assumes "w \<le> 64" and "0 < w" and "- (2 ^ (w - 1)) \<le> i" and "i < 2 ^ (w - 1)" and "length buffer = fmt_buffer_size"
  shows "map_option format_int_text (format_signed w buffer i) = Some (to_string i)"
proof -
  obtain k where w: "w = Suc k" using assms(2) by (cases w) auto
  with assms(3,4) have i: "- (2 ^ k) \<le> i" "i < 2 ^ k" by simp_all
  have m: "(2::int) ^ w \<le> 2 ^ 64" using assms(1) by (rule power_increasing) simp
  show ?thesis
  proof (cases "i < 0")
    case False
    then have "i mod 2 ^ w = i" using i w by (intro mod_pos_pos_trivial) auto
    moreover have n: "nat i < 2 ^ 64" using i False w m by (simp add: nat_less_iff)
    ultimately show ?thesis using False format_unsigned_text [OF n assms(5)] 
      by (cases "format_unsigned buffer (nat i)") (auto simp: format_signed_def to_string_def)
  next
    case True
    have "(- (i mod 2 ^ w)) mod 2 ^ w = (- i) mod 2 ^ w" by (simp add: mod_minus_eq)
    also have "\<dots> = - i" using True i w by (intro mod_pos_pos_trivial) auto
    finally have a: "nat ((0 - int (nat (i mod 2 ^ w))) mod 2 ^ w) = nat (- i)" by simp
    have n: "nat (- i) < 2 ^ 64" using i True w m by (simp add: nat_less_iff)
    let ?d = "digits (nat (- i))"
    have l: "length ?d \<le> 20" "0 < length ?d" using length_digits_u64 [OF n] by simp_all
    have b: "length buffer = 22" using assms(5) by (simp add: fmt_buffer_size_def)
    have "take (21 - length ?d) buffer = take (20 - length ?d) buffer @ [buffer ! (20 - length ?d)]"
    proof -
      have "21 - length ?d = Suc (20 - length ?d)" using l by simp
      then show ?thesis using l b by (simp only:) (rule take_Suc_conv_app_nth, simp)
    qed
    then show ?thesis using True a format_unsigned_eq [OF n assms(5)] l b
      by (simp add: format_signed_def to_string_def write1_def format_int_text_def fmt_buffer_size_def Let_def
          list_update_append)
  qed
qed

section \<open>Counting digits\<close>

fun count_digits_fallback :: "nat \<Rightarrow> nat \<Rightarrow> nat" where
  "count_digits_fallback n cnt =
     (if n < 10 then cnt
      else if n < 100 then cnt + 1
      else if n < 1000 then cnt + 2
      else if n < 10000 then cnt + 3
      else count_digits_fallback (n div 10000) (cnt + 4))"

declare count_digits_fallback.simps [simp del]

text \<open>\<open>__builtin_clz\<close> of a nonzero number of \<open>w\<close> bits.\<close>

fun bit_length :: "nat \<Rightarrow> nat" where
  "bit_length n = (if n = 0 then 0 else Suc (bit_length (n div 2)))"

declare bit_length.simps [simp del]

definition builtin_clz :: "nat \<Rightarrow> nat \<Rightarrow> nat" where
  "builtin_clz w n = w - bit_length n"

definition bsr2log10 :: "nat list" where
  "bsr2log10 =
     [1, 1, 1, 2, 2, 2, 3, 3, 3, 4, 4, 4, 4, 5, 5, 5, 6, 6, 6, 7, 7, 7, 7, 8, 8, 8, 9, 9, 9, 10, 10, 10,
      10, 11, 11, 11, 12, 12, 12, 13, 13, 13, 13, 14, 14, 14, 15, 15, 15, 16, 16, 16, 16, 17, 17, 17,
      18, 18, 18, 19, 19, 19, 19, 20]"

definition zero_or_powers_of_10 :: "nat list" where
  "zero_or_powers_of_10 =
     [0, 0, 10, 100, 1000, 10000, 100000, 1000000, 10000000, 100000000, 1000000000, 10000000000,
      100000000000, 1000000000000, 10000000000000, 100000000000000, 1000000000000000,
      10000000000000000, 100000000000000000, 1000000000000000000, 10000000000000000000]"

definition do_count_digits_64 :: "nat \<Rightarrow> nat" where
  "do_count_digits_64 n =
     (let t = bsr2log10 ! (builtin_clz 64 (n OR 1) XOR 63)
      in t - (if n < zero_or_powers_of_10 ! t then 1 else 0))"

text \<open>\<open>sizeof(#T) - 1\<close> is the length of the literal \<open>T\<close>.\<close>

definition FMT_INC :: "nat \<Rightarrow> nat" where
  "FMT_INC T = length (digits T) * 2 ^ 32 - T"

definition inc_thresholds :: "nat list" where
  "inc_thresholds =
     [0, 0, 0, 10, 10, 10, 100, 100, 100, 1000, 1000, 1000, 10000, 10000, 10000, 100000, 100000, 100000,
      1000000, 1000000, 1000000, 10000000, 10000000, 10000000, 100000000, 100000000, 100000000,
      1000000000, 1000000000, 1000000000, 1000000000, 1000000000]"

definition inc_table :: "nat list" where
  "inc_table = map FMT_INC inc_thresholds"

definition do_count_digits_32 :: "nat \<Rightarrow> nat" where
  "do_count_digits_32 n = (n + inc_table ! (builtin_clz 32 (n OR 1) XOR 31)) mod 2 ^ 64 div 2 ^ 32"

lemma count_digits_fallback_eq: "count_digits_fallback n c + 1 = c + length (digits n)"
proof (induction n c rule: count_digits_fallback.induct)
  case (1 n c)
  show ?case
  proof (cases "n < 10000")
    case True
    have "n < 10 ^ t \<longleftrightarrow> length (digits n) \<le> t" if "0 < t" for t using length_digits_le [OF that] by simp
    from this [of 1] this [of 2] this [of 3] this [of 4] True length_digits_pos [of n, THEN Suc_leI] show ?thesis
      by (subst count_digits_fallback.simps) auto
  next
    case False
    have "digits n = digits (n div 100) @ digits2 (n mod 100)"
      "digits (n div 100) = digits (n div 100 div 100) @ digits2 (n div 100 mod 100)"
      using False by (simp_all add: digits_100)
    moreover have "n div 100 div 100 = n div 10000" using div_mult2_eq [of n 100 100] by simp
    ultimately have "length (digits n) = length (digits (n div 10000)) + 4" by simp
    with False 1 show ?thesis by (subst count_digits_fallback.simps) simp
  qed
qed

lemma bit_length_bounds: "0 < n \<Longrightarrow> 2 ^ (bit_length n - 1) \<le> n \<and> n < 2 ^ bit_length n \<and> 0 < bit_length n"
proof (induction n rule: bit_length.induct)
  case (1 n)
  show ?case
  proof (cases "n = 1")
    case True
    then show ?thesis by (simp add: bit_length.simps)
  next
    case False
    with 1 have p: "0 < n div 2" by simp
    have b: "bit_length n = Suc (bit_length (n div 2))" using 1 by (subst bit_length.simps) simp
    from 1 p have i: "2 ^ (bit_length (n div 2) - 1) \<le> n div 2" "n div 2 < 2 ^ bit_length (n div 2)"
      "0 < bit_length (n div 2)" by simp_all
    then obtain k where "bit_length (n div 2) = Suc k" by (cases "bit_length (n div 2)") auto
    with i b show ?thesis by simp linarith
  qed
qed

text \<open>\<open>n | 1\<close> has the bit length of \<open>n\<close>, but for 0, and its digits when \<open>n\<close> is not 0.\<close>

lemma or_one_cases: "(n :: nat) OR 1 = (if even n then n + 1 else n)"
  using or_one_eq [of n] by simp

text \<open>The highest bit selects the digit count up to one comparison: a check over the 64 positions.\<close>

lemma upt_64: "0 # 1 # [2..<64] = [0..<64 :: nat]" and upt_32: "0 # 1 # [2..<32] = [0..<32 :: nat]"
  by (simp_all add: upt_conv_Cons del: upt_rec_numeral)

lemma list_all_uptD: "list_all P [0..<n] \<Longrightarrow> a < n \<Longrightarrow> P a"
  by (simp add: list_all_iff)

lemma bsr2log10_rows: "list_all2 (\<lambda>k t. 0 < t \<and> t \<le> 20 \<and> 2 * 2 ^ k \<le> (10::nat) ^ t \<and>
    (if t = 1 then zero_or_powers_of_10 ! t = 0
     else zero_or_powers_of_10 ! t = 10 ^ (t - 1) \<and> (10::nat) ^ (t - 2) \<le> 2 ^ k)) (0 # 1 # [2..<64]) bsr2log10"
  by (simp add: bsr2log10_def zero_or_powers_of_10_def)

lemma bsr2log10_table:
  assumes "k < 64" and "t = bsr2log10 ! k"
  shows "0 < t \<and> t \<le> 20 \<and> 2 * 2 ^ k \<le> (10::nat) ^ t \<and>
    (if t = 1 then zero_or_powers_of_10 ! t = 0
     else zero_or_powers_of_10 ! t = 10 ^ (t - 1) \<and> (10::nat) ^ (t - 2) \<le> 2 ^ k)"
proof -
  have k: "k < length [0..<64]" "[0..<64] ! k = k" using assms(1) by simp_all
  from list_all2_nthD [OF bsr2log10_rows [unfolded upt_64] k(1)] show ?thesis unfolding assms(2) k(2) .
qed

lemma xor_63: "a < 64 \<Longrightarrow> a XOR 63 = 63 - (a :: nat)"
proof -
  have "list_all (\<lambda>a. a XOR 63 = 63 - (a :: nat)) (0 # 1 # [2..<64])" by simp
  then show "a < 64 \<Longrightarrow> a XOR 63 = 63 - a" unfolding upt_64 by (rule list_all_uptD)
qed

lemma xor_31: "a < 32 \<Longrightarrow> a XOR 31 = 31 - (a :: nat)"
proof -
  have "list_all (\<lambda>a. a XOR 31 = 31 - (a :: nat)) (0 # 1 # [2..<32])" by simp
  then show "a < 32 \<Longrightarrow> a XOR 31 = 31 - a" unfolding upt_32 by (rule list_all_uptD)
qed

text \<open>The index of the highest bit, and what it says of \<open>n\<close>.\<close>

lemma highest_bit:
  fixes n w :: nat
  assumes "n < 2 ^ w" and "0 < w"
  obtains k where "bit_length (n OR 1) = Suc k" "k < w" "n < 2 ^ Suc k" "2 ^ k \<le> n \<or> k = 0"
proof -
  have m: "n OR 1 = n + of_bool (even n)" by (rule or_one_eq)
  then have p: "0 < n OR 1" by (cases n) auto
  obtain v where w: "w = Suc v" using assms(2) by (cases w) auto
  obtain k where k: "bit_length (n OR 1) = Suc k" using bit_length_bounds [OF p] by (cases "bit_length (n OR 1)") auto
  then have b: "2 ^ k \<le> n OR 1" "n OR 1 < 2 ^ Suc k" using bit_length_bounds [OF p] by simp_all
  have "n OR 1 < 2 ^ w" using assms(1) m w by (cases "even n") (auto elim!: evenE)
  with b(1) have "(2::nat) ^ k < 2 ^ w" by linarith
  then have "k < w" by (rule power_less_imp_less_exp [rotated]) simp
  moreover have "n < 2 ^ Suc k" using b(2) m by simp
  moreover have "2 ^ k \<le> n \<or> k = 0"
  proof (cases k)
    case (Suc j)
    then have "even ((2::nat) ^ k)" by simp
    then have "2 ^ k \<noteq> n + 1" if "even n" using that by (metis even_plus_one_iff)
    with b(1) m show ?thesis by (cases "even n") auto
  qed simp
  ultimately show ?thesis using that k by blast
qed

lemma length_digits_between:
  assumes "10 ^ j \<le> n" and "n < 10 ^ Suc j"
  shows "length (digits n) = Suc j"
proof -
  have "length (digits n) \<le> Suc j" using assms(2) by (subst length_digits_le) simp_all
  moreover have "\<not> length (digits n) \<le> j"
  proof (cases "j = 0")
    case True
    then show ?thesis by simp
  next
    case False
    with assms(1) show ?thesis by (subst length_digits_le) simp_all
  qed
  ultimately show ?thesis by simp
qed

lemma do_count_digits_64_eq:
  assumes "n < 2 ^ 64"
  shows "do_count_digits_64 n = length (digits n)"
proof -
  obtain k where k: "bit_length (n OR 1) = Suc k" "k < 64" "n < 2 ^ Suc k" "2 ^ k \<le> n \<or> k = 0"
    using highest_bit [OF assms] by auto
  define t where "t = bsr2log10 ! k"
  have i: "builtin_clz 64 (n OR 1) XOR 63 = k" using k by (simp add: builtin_clz_def xor_63)
  note r = bsr2log10_table [OF k(2) t_def]
  have le: "n < 10 ^ t" using r k(3) by auto
  show ?thesis
  proof (cases "t = 1")
    case True
    with le have "length (digits n) = 1" using digits_1 [of n] by simp
    with True r i t_def show ?thesis by (simp add: do_count_digits_64_def Let_def)
  next
    case False
    with r obtain j where j: "t = Suc (Suc j)" by (metis One_nat_def Suc_pred neq0_conv)
    have "bsr2log10 ! 0 = 1" by (simp add: bsr2log10_def)
    with False t_def have "k \<noteq> 0" by metis
    with k(4) have "2 ^ k \<le> n" by simp
    with r j have lo: "10 ^ j \<le> n" by simp
    have z: "zero_or_powers_of_10 ! t = 10 ^ Suc j" using r j by simp
    show ?thesis
    proof (cases "n < 10 ^ Suc j")
      case True
      with length_digits_between [OF lo] z i j t_def show ?thesis by (simp add: do_count_digits_64_def Let_def)
    next
      case False
      with length_digits_between [of "Suc j" n] le z i j t_def show ?thesis by (simp add: do_count_digits_64_def Let_def)
    qed
  qed
qed

text \<open>The same for 32 bits: each row adds the length of its power of ten when it is reached.\<close>

lemma inc_table_rows: "list_all2 (\<lambda>k T. let l = length (digits T) in l \<le> 10 \<and> 2 * 2 ^ k \<le> (10::nat) ^ l \<and>
    (if l = 1 then T = 0 else T = 10 ^ (l - 1) \<and> (10::nat) ^ (l - 2) \<le> 2 ^ k)) (0 # 1 # [2..<32]) inc_thresholds"
  by (simp add: inc_thresholds_def digits.simps)

lemma do_count_digits_32_eq:
  assumes "n < 2 ^ 32"
  shows "do_count_digits_32 n = length (digits n)"
proof -
  obtain k where k: "bit_length (n OR 1) = Suc k" "k < 32" "n < 2 ^ Suc k" "2 ^ k \<le> n \<or> k = 0"
    using highest_bit [OF assms] by auto
  define T where "T = inc_thresholds ! k"
  define l where "l = length (digits T)"
  have s: "length inc_thresholds = 32" "inc_thresholds ! 0 = 0" by (simp_all add: inc_thresholds_def)
  have r: "l \<le> 10" "2 * 2 ^ k \<le> (10::nat) ^ l" "l = 1 \<Longrightarrow> T = 0"
    "l \<noteq> 1 \<Longrightarrow> T = 10 ^ (l - 1) \<and> (10::nat) ^ (l - 2) \<le> 2 ^ k"
    using list_all2_nthD [OF inc_table_rows [unfolded upt_32], of k] k(2)
    by (simp_all add: T_def l_def Let_def split: if_splits)
  have i: "builtin_clz 32 (n OR 1) XOR 31 = k" using k by (simp add: builtin_clz_def xor_31)
  have T: "T < 2 ^ 32" "0 < l"
  proof -
    show "0 < l" by (simp add: l_def)
    show "T < 2 ^ 32"
    proof (cases "l = 1")
      case False
      have "(10::nat) ^ (l - 1) \<le> 10 ^ 9" using r(1) by (intro power_increasing) simp_all
      with r(4) [OF False] show ?thesis by simp
    qed (use r(3) in simp)
  qed
  have d: "do_count_digits_32 n = (if T \<le> n then l else l - 1)"
  proof -
    obtain j where j: "l = Suc j" using T(2) by (cases l) auto
    have "(n + (l * 2 ^ 32 - T)) div 2 ^ 32 = (if T \<le> n then l else j)"
    proof (cases "T \<le> n")
      case True
      then obtain e where e: "n = T + e" by (auto simp: le_iff_add)
      with assms have "n + (l * 2 ^ 32 - T) = e + l * 2 ^ 32" using T j by simp
      then show ?thesis using True e assms by simp
    next
      case False
      then obtain e where e: "T = n + e" "0 < e" by (metis less_imp_add_positive not_le)
      then have "n + (l * 2 ^ 32 - T) = (2 ^ 32 - e) + j * 2 ^ 32" using T j by simp
      then show ?thesis using False e T by simp
    qed
    moreover have "n + (l * 2 ^ 32 - T) < 2 ^ 64" using assms r(1) by simp
    ultimately show ?thesis using i k(2) s j by (simp add: do_count_digits_32_def inc_table_def FMT_INC_def T_def l_def)
  qed
  show ?thesis
  proof (cases "l = 1")
    case True
    with r k(3) have "n < 10" by simp
    with True r(3) d show ?thesis by (simp add: digits_1)
  next
    case False
    with T(2) obtain j where j: "l = Suc (Suc j)" by (metis One_nat_def Suc_pred neq0_conv)
    have "length (digits 0) = 1" by (simp add: digits_1)
    with s(2) False have "k \<noteq> 0" unfolding T_def l_def by metis
    with k(4) r(4) [OF False] j have "10 ^ j \<le> n" "T = 10 ^ Suc j" "n < 10 ^ Suc (Suc j)" using r(2) k(3) by auto
    with length_digits_between [of j n] length_digits_between [of "Suc j" n] d j show ?thesis
      by (cases "T \<le> n") simp_all
  qed
qed

section \<open>Padded numbers: \<open>spdlog/details/fmt_helper.h\<close>\<close>

text \<open>
  The uninitialised buffer of a \<open>format_int\<close>; its contents do not matter.  An unsigned \<open>T\<close> of \<open>w\<close>
  bits is a natural number, \<open>int\<close> is an integer.
\<close>

definition int_buffer :: string where
  "int_buffer = replicate fmt_buffer_size (CHR 0x00)"

definition append_uint :: "nat \<Rightarrow> string \<Rightarrow> string option" where
  "append_uint n dest = do { r \<leftarrow> format_unsigned int_buffer n; Some (dest @ format_int_text r) }"

definition append_int :: "nat \<Rightarrow> int \<Rightarrow> string \<Rightarrow> string option" where
  "append_int w n dest = do { r \<leftarrow> format_signed w int_buffer n; Some (dest @ format_int_text r) }"

definition fh_count_digits :: "nat \<Rightarrow> nat \<Rightarrow> nat" where
  "fh_count_digits w n = (if 32 < w then do_count_digits_64 (n mod 2 ^ 64) else do_count_digits_32 (n mod 2 ^ 32))"

text \<open>The text of \<open>{:02}\<close> in fmt and of \<open>%03lld\<close> in printf: zeros after the sign up to the width.\<close>

definition zero_fill :: "nat \<Rightarrow> int \<Rightarrow> string" where
  "zero_fill width n =
     (let sign = (if n < 0 then ''-'' else []); ds = digits (nat \<bar>n\<bar>)
      in sign @ replicate (width - length sign - length ds) (CHR ''0'') @ ds)"

definition pad2 :: "int \<Rightarrow> string \<Rightarrow> string" where
  "pad2 n dest =
     (if 0 \<le> n \<and> n < 100 then dest @ [digit_char (nat (n div 10)), digit_char (nat (n mod 10))]
      else dest @ zero_fill 2 n)"

function pad_zeros :: "nat \<Rightarrow> nat \<Rightarrow> string \<Rightarrow> string" where
  "pad_zeros ds width dest = (if ds < width then pad_zeros (ds + 1) width (dest @ ''0'') else dest)"
  by pat_completeness auto
termination by (relation "measure (\<lambda>(ds, width, _). width - ds)") auto

declare pad_zeros.simps [simp del]

definition pad_uint :: "nat \<Rightarrow> nat \<Rightarrow> nat \<Rightarrow> string \<Rightarrow> string option" where
  "pad_uint w n width dest = append_uint n (pad_zeros (fh_count_digits w n) width dest)"

definition pad3 :: "nat \<Rightarrow> string \<Rightarrow> string option" where
  "pad3 n dest =
     (if n < 1000
      then Some (dest @ [digit_char (n div 100), digit_char (n mod 100 div 10), digit_char (n mod 100 mod 10)])
      else append_uint n dest)"

definition pad6 :: "nat \<Rightarrow> nat \<Rightarrow> string \<Rightarrow> string option" where
  "pad6 w n dest = pad_uint w n 6 dest"

definition pad9 :: "nat \<Rightarrow> nat \<Rightarrow> string \<Rightarrow> string option" where
  "pad9 w n dest = pad_uint w n 9 dest"

text \<open>
  \<open>time_fraction\<close>: a time is its nanoseconds since the epoch; the target duration has \<open>u\<close>
  nanoseconds.  \<open>duration_cast\<close> truncates toward zero.
\<close>

definition time_fraction :: "int \<Rightarrow> int \<Rightarrow> int" where
  "time_fraction u tp = tp sdiv u - (tp sdiv 10 ^ 9) * (10 ^ 9 div u)"

subsection \<open>What they write\<close>

definition zero_padded :: "nat \<Rightarrow> nat \<Rightarrow> string" where
  "zero_padded width n = replicate (width - length (digits n)) (CHR ''0'') @ digits n"

lemma to_string_nonneg: "0 \<le> i \<Longrightarrow> to_string i = digits (nat i)"
  by (simp add: to_string_def)

lemma zero_fill_nonneg: "0 \<le> i \<Longrightarrow> zero_fill w i = zero_padded w (nat i)"
  by (simp add: zero_fill_def zero_padded_def Let_def)

lemma int_buffer_length: "length int_buffer = fmt_buffer_size"
  by (simp add: int_buffer_def)

lemma append_uint_eq: "n < 2 ^ 64 \<Longrightarrow> append_uint n dest = Some (dest @ digits n)"
  using format_unsigned_text [OF _ int_buffer_length] by (fastforce simp: append_uint_def)

lemma append_int_eq: "int_op i = Some i \<Longrightarrow> append_int 32 i dest = Some (dest @ to_string i)"
  using format_signed_text [of 32 i, OF _ _ _ _ int_buffer_length]
  by (fastforce simp: append_int_def int_op_def split: if_splits)

lemma append_long_eq: "long_op i = Some i \<Longrightarrow> append_int 64 i dest = Some (dest @ to_string i)"
  using format_signed_text [of 64 i, OF _ _ _ _ int_buffer_length]
  by (fastforce simp: append_int_def long_op_def split: if_splits)

lemma fh_count_digits_eq: "n < 2 ^ w \<Longrightarrow> w = 32 \<or> w = 64 \<Longrightarrow> fh_count_digits w n = length (digits n)"
  by (auto simp: fh_count_digits_def do_count_digits_64_eq do_count_digits_32_eq)

lemma pad_zeros_eq: "pad_zeros d width dest = dest @ replicate (width - d) (CHR ''0'')"
proof (induction d width dest rule: pad_zeros.induct)
  case (1 d width dest)
  show ?case
  proof (cases "d < width")
    case True
    then have "width - d = Suc (width - Suc d)" by simp
    with True 1 show ?thesis by (subst pad_zeros.simps) simp
  next
    case False
    then show ?thesis by (subst pad_zeros.simps) simp
  qed
qed

lemma pad_uint_eq:
  assumes "n < 2 ^ w" and "w = 32 \<or> w = 64"
  shows "pad_uint w n width dest = Some (dest @ zero_padded width n)"
proof -
  have "n < 2 ^ 64" using assms by auto
  with assms show ?thesis by (simp add: pad_uint_def pad_zeros_eq fh_count_digits_eq append_uint_eq zero_padded_def)
qed

lemma digit_char_0: "digit_char 0 = CHR ''0''"
  by code_simp

lemma replicate_two: "replicate 2 x = [x, x]"
  by (simp add: numeral_2_eq_2)

lemma pad3_eq: "n < 2 ^ 64 \<Longrightarrow> pad3 n dest = Some (dest @ zero_padded 3 n)"
proof -
  assume n: "n < 2 ^ 64"
  consider "n < 10" | "10 \<le> n" "n < 100" | "100 \<le> n" "n < 1000" | "1000 \<le> n" by linarith
  then show ?thesis
  proof cases
    case 1
    then show ?thesis by (simp add: pad3_def zero_padded_def digits_1 digit_char_0 replicate_two)
  next
    case 2
    then have "n mod 100 = n" by simp
    with 2 show ?thesis by (simp add: pad3_def zero_padded_def digits_2 digits2_eq digit_char_0)
  next
    case 3
    then have "n div 100 < 10" by (simp add: div_less_iff_less_mult)
    with 3 show ?thesis by (simp add: pad3_def zero_padded_def digits_100 digits_1 digits2_eq)
  next
    case 4
    then have "\<not> length (digits n) \<le> 3" using length_digits_le [of 3 n] by simp
    with 4 n show ?thesis by (simp add: pad3_def append_uint_eq zero_padded_def)
  qed
qed

lemma pad2_eq: "0 \<le> n \<Longrightarrow> pad2 n dest = dest @ zero_padded 2 (nat n)"
proof -
  assume n: "0 \<le> n"
  then obtain m where m: "n = int m" using nonneg_int_cases by blast
  consider "m < 10" | "10 \<le> m" "m < 100" | "100 \<le> m" by linarith
  then show ?thesis
  proof cases
    case 1
    then show ?thesis using m by (simp add: pad2_def zero_padded_def digits_1 digit_char_0)
  next
    case 2
    then show ?thesis using m by (simp add: pad2_def zero_padded_def digits_2 digits2_eq nat_div_distrib nat_mod_distrib)
  next
    case 3
    then show ?thesis using m by (simp add: pad2_def zero_fill_def zero_padded_def Let_def)
  qed
qed

text \<open>The fraction of a time after the epoch is below a second.\<close>

lemma time_fraction_eq:
  assumes "0 < u" and "u * q = 10 ^ 9" and "0 \<le> tp"
  shows "time_fraction u tp = tp div u mod q"
proof -
  have "0 < u * q" by (simp add: assms(2))
  then have "0 \<le> q" using assms(1) by (simp add: zero_less_mult_iff)
  then have "tp div 10 ^ 9 = tp div u div q" by (simp only: assms(2) [symmetric] zdiv_zmult2_eq)
  moreover have "10 ^ 9 div u = q" using assms(1) by (simp only: assms(2) [symmetric]) simp
  moreover have "tp sdiv k = tp div k" if "0 < k" for k using that assms(3) by (cases "tp = 0") (simp_all add: signed_divide_int_def)
  ultimately show ?thesis using assms(1) by (simp add: time_fraction_def minus_div_mult_eq_mod)
qed

end
