(* ===== verification/Client.thy ===== *)
theory Client
  imports Server_Facts Fmt_Int
begin

text \<open>
  \<open>src/client.cpp\<close>: the grid of pairs, the hash, the request message, the endpoint and what the
  client does with the reply.  The flags are a record of doubles; \<open>std::hash<float>\<close> is the parameter
  \<open>hash_float\<close>, since its values are the implementation's.
\<close>

section \<open>Flags\<close>

record client_flags =
  FLAGS_stock_price :: f64
  FLAGS_strike_price :: f64
  FLAGS_interest_rate :: f64
  FLAGS_time_to_maturity :: f64
  FLAGS_stock_discretization :: f64
  FLAGS_alpha_min :: f64
  FLAGS_alpha_max :: f64
  FLAGS_alpha_step :: f64
  FLAGS_beta_min :: f64
  FLAGS_beta_max :: f64
  FLAGS_beta_step :: f64
  FLAGS_host :: string
  FLAGS_port :: int
  FLAGS_log :: string

text \<open>The defaults: 100, 100, 0.05, 1, 0.01; both grids from 0 to 1 in steps of 0.1.\<close>

definition default_flags :: client_flags where
  "default_flags = \<lparr>FLAGS_stock_price = 0x4059000000000000, FLAGS_strike_price = 0x4059000000000000,
     FLAGS_interest_rate = 0x3FA999999999999A, FLAGS_time_to_maturity = 0x3FF0000000000000,
     FLAGS_stock_discretization = 0x3F847AE147AE147B,
     FLAGS_alpha_min = 0, FLAGS_alpha_max = 0x3FF0000000000000, FLAGS_alpha_step = 0x3FB999999999999A,
     FLAGS_beta_min = 0, FLAGS_beta_max = 0x3FF0000000000000, FLAGS_beta_step = 0x3FB999999999999A,
     FLAGS_host = ''localhost'', FLAGS_port = 5555, FLAGS_log = ''''\<rparr>"

section \<open>The grid\<close>

text \<open>\<open>for (float x = lo; x <= hi + 1e-6f; x += step)\<close>; None when the loop does not end.\<close>

partial_function (option) grid_loop :: "f32 \<Rightarrow> f32 \<Rightarrow> f32 \<Rightarrow> f32 list option" where
  "grid_loop step bound x =
     (if f32_le x bound then do { v \<leftarrow> grid_loop step bound (f32_add x step); Some (x # v) } else Some [])"

definition f32_1em6 :: f32 where
  "f32_1em6 = 0x358637BD"

definition grid_values :: "f32 \<Rightarrow> f32 \<Rightarrow> f32 \<Rightarrow> f32 list option" where
  "grid_values lo hi step =
     (if f32_le step 0 then Some [lo] else grid_loop step (f32_add hi f32_1em6) lo)"

primrec beta_loop :: "f32 \<Rightarrow> f32 list \<Rightarrow> u32 \<Rightarrow> AlphaBetaPair list \<times> u32" where
  "beta_loop a [] idx = ([], idx)"
| "beta_loop a (b # bs) idx =
     (let (ps, idx') = beta_loop a bs (idx + 1) in (\<lparr>ab_idx = idx, ab_alpha = a, ab_beta = b\<rparr> # ps, idx'))"

primrec alpha_loop :: "f32 list \<Rightarrow> f32 list \<Rightarrow> u32 \<Rightarrow> AlphaBetaPair list \<times> u32" where
  "alpha_loop betas [] idx = ([], idx)"
| "alpha_loop betas (a # as) idx =
     (let (ps, idx1) = beta_loop a betas idx; (qs, idx2) = alpha_loop betas as idx1 in (ps @ qs, idx2))"

definition client_pairs :: "client_flags \<Rightarrow> AlphaBetaPair list option" where
  "client_pairs fl = do {
     alphas \<leftarrow> grid_values (f32_of_f64 (FLAGS_alpha_min fl)) (f32_of_f64 (FLAGS_alpha_max fl))
                 (f32_of_f64 (FLAGS_alpha_step fl));
     betas \<leftarrow> grid_values (f32_of_f64 (FLAGS_beta_min fl)) (f32_of_f64 (FLAGS_beta_max fl))
                (f32_of_f64 (FLAGS_beta_step fl));
     Some (fst (alpha_loop betas alphas 0))
   }"

section \<open>The hash\<close>

definition hash_combine :: "(f32 \<Rightarrow> u64) \<Rightarrow> u64 \<Rightarrow> f32 \<Rightarrow> u64" where
  "hash_combine hash_float seed v =
     seed XOR (hash_float v + 0x9e3779b9 + push_bit 6 seed + drop_bit 2 seed)"

definition request_hash :: "(f32 \<Rightarrow> u64) \<Rightarrow> client_flags \<Rightarrow> u64" where
  "request_hash hash_float fl =
     (let h = hash_combine hash_float 0 (f32_of_f64 (FLAGS_stock_price fl));
          h = hash_combine hash_float h (f32_of_f64 (FLAGS_strike_price fl));
          h = hash_combine hash_float h (f32_of_f64 (FLAGS_interest_rate fl));
          h = hash_combine hash_float h (f32_of_f64 (FLAGS_time_to_maturity fl))
      in hash_combine hash_float h (f32_of_f64 (FLAGS_stock_discretization fl)))"

section \<open>The request\<close>

definition client_params :: "client_flags \<Rightarrow> builder \<Rightarrow> (offset \<times> builder) option" where
  "client_params fl b = do {
     (s, b0) \<leftarrow> StartTable b;
     (let b1 = AddElement F32 PP_VT_STOCK_PRICE (unat (f32_of_f64 (FLAGS_stock_price fl))) 0 b0;
          b2 = AddElement F32 PP_VT_STRIKE_PRICE (unat (f32_of_f64 (FLAGS_strike_price fl))) 0 b1;
          b3 = AddElement F32 PP_VT_INTEREST_RATE (unat (f32_of_f64 (FLAGS_interest_rate fl))) 0 b2;
          b4 = AddElement F32 PP_VT_TIME_TO_MATURITY (unat (f32_of_f64 (FLAGS_time_to_maturity fl))) 0 b3;
          b5 = AddElement F32 PP_VT_STOCK_DISCRETIZATION (unat (f32_of_f64 (FLAGS_stock_discretization fl))) 0 b4
      in EndTable s b5)
   }"

definition client_request ::
    "(nat \<Rightarrow> byte list) \<Rightarrow> client_flags \<Rightarrow> u64 \<Rightarrow> AlphaBetaPair list \<Rightarrow> buffer option" where
  "client_request fresh fl h pairs = do {
     (pairs_vec, b1) \<leftarrow> CreatePairs pairs (builder_of 256 fresh);
     (pricing_params, b2) \<leftarrow> client_params fl b1;
     (s, b3) \<leftarrow> StartTable b2;
     b4 \<leftarrow> AddOffset RR_VT_REQUEST pricing_params b3;
     b6 \<leftarrow> AddOffset RR_VT_PAIRS pairs_vec (AddElement U64 RR_VT_REQUEST_HASH (unat h) 0 b4);
     (root, b7) \<leftarrow> RangePricingRequestBuilder_Finish s b6;
     b8 \<leftarrow> bd_Finish root None False b7;
     GetBufferPointer b8
   }"

definition client_message :: "(f32 \<Rightarrow> u64) \<Rightarrow> (nat \<Rightarrow> byte list) \<Rightarrow> client_flags \<Rightarrow> buffer option" where
  "client_message hash_float fresh fl = do {
     pairs \<leftarrow> client_pairs fl;
     client_request fresh fl (request_hash hash_float fl) pairs
   }"

section \<open>The endpoint and the reply\<close>

definition endpoint :: "client_flags \<Rightarrow> string" where
  "endpoint fl = ''tcp://'' @ FLAGS_host fl @ '':'' @ to_string (FLAGS_port fl)"

text \<open>The exit code, and what is logged: the bytes of an invalid reply, or the hash with the rows.\<close>

datatype client_log = Invalid buffer | Results u64 "pricing_response list option"

definition on_reply :: "buffer \<Rightarrow> (nat \<times> client_log) option" where
  "on_reply reply = do {
     range_response \<leftarrow> GetRoot reply;
     (ok, _) \<leftarrow> RangePricingResponse_Verify range_response (mk_verifier reply default_options);
     (if \<not> ok then Some (1, Invalid reply)
      else do {
        (h, rows) \<leftarrow> range_response_of reply range_response;
        Some (0, Results h rows)
      })
   }"

section \<open>The grid and the pairs\<close>

lemma grid_values_single: "f32_le step 0 \<Longrightarrow> grid_values lo hi step = Some [lo]"
  by (simp add: grid_values_def)

text \<open>A grid: values up to the bound, each the one before plus the step, from \<open>x\<close> on.\<close>

definition is_grid :: "f32 \<Rightarrow> f32 \<Rightarrow> f32 \<Rightarrow> f32 list \<Rightarrow> bool" where
  "is_grid step bound x v \<longleftrightarrow> (\<forall>y\<in>set v. f32_le y bound) \<and>
     (\<forall>i. Suc i < length v \<longrightarrow> v ! Suc i = f32_add (v ! i) step) \<and>
     (if v = [] then \<not> f32_le x bound else hd v = x \<and> \<not> f32_le (f32_add (last v) step) bound)"

lemma grid_loop_is_grid:
  assumes "grid_loop step bound x = Some v"
  shows "is_grid step bound x v"
proof (rule grid_loop.raw_induct [where P = is_grid and xa = "((step, bound), x)" and y = v,
      simplified prod.case, rotated, OF assms])
  fix rec step bound x v
  assume IH: "\<And>step bound x y. rec step bound x = Some y \<Longrightarrow> is_grid step bound x y"
    and e: "(if f32_le x bound then do { v \<leftarrow> rec step bound (f32_add x step); Some (x # v) } else Some []) = Some v"
  show "is_grid step bound x v"
  proof (cases "f32_le x bound")
    case False
    with e have "v = []" by simp
    with False show ?thesis by (simp add: is_grid_def)
  next
    case True
    with e obtain w where w: "rec step bound (f32_add x step) = Some w" "v = x # w"
      by (auto simp: bind_eq_Some_conv)
    note g = IH [OF w(1)]
    have "v ! Suc i = f32_add (v ! i) step" if "Suc i < length v" for i
      using g that w(2) by (cases i; cases w) (auto simp: is_grid_def)
    with g True w(2) show ?thesis by (auto simp: is_grid_def split: if_splits)
  qed
qed

text \<open>A step that rounding absorbs keeps the loop going for ever.\<close>

lemma grid_loop_stuck:
  assumes "f32_add x step = x" and "f32_le x bound"
  shows "grid_loop step bound x = None"
proof (rule ccontr)
  assume "grid_loop step bound x \<noteq> None"
  then obtain v where v: "grid_loop step bound x = Some v" by blast
  have "step = step \<longrightarrow> bound = bound \<longrightarrow> x = x \<longrightarrow> False"
  proof (rule grid_loop.raw_induct [where P = "\<lambda>step' bound' y w. step' = step \<longrightarrow> bound' = bound \<longrightarrow> y = x \<longrightarrow> False"
        and xa = "((step, bound), x)" and y = v, simplified prod.case, rotated, OF v], intro impI)
    fix rec step' bound' y w
    assume IH: "\<And>step' bound' y w. rec step' bound' y = Some w \<Longrightarrow> step' = step \<longrightarrow> bound' = bound \<longrightarrow> y = x \<longrightarrow> False"
      and e: "(if f32_le y bound' then do { v \<leftarrow> rec step' bound' (f32_add y step'); Some (y # v) } else Some []) = Some w"
      and eq: "step' = step" "bound' = bound" "y = x"
    from e assms obtain u where "rec step bound x = Some u" by (auto simp: eq bind_eq_Some_conv)
    from IH [OF this] show False by simp
  qed
  then show False by simp
qed

lemma beta_loop_eq:
  "beta_loop a bs idx = (map (\<lambda>(k, b). \<lparr>ab_idx = idx + of_nat k, ab_alpha = a, ab_beta = b\<rparr>) (enumerate 0 bs),
     idx + of_nat (length bs))"
proof (induction bs arbitrary: idx)
  case Nil
  then show ?case by simp
next
  case (Cons b bs)
  have "enumerate 0 (b # bs) = (0, b) # map (\<lambda>(k, b). (Suc k, b)) (enumerate 0 bs)"
    by (simp add: enumerate_Suc_eq apfst_def map_prod_def split_beta')
  with Cons show ?case by (simp add: split_beta' comp_def algebra_simps)
qed

text \<open>Row by row: pair number \<open>i\<close> has index \<open>i\<close>.\<close>

lemma alpha_loop_spec:
  "length (fst (alpha_loop betas as idx)) = length as * length betas \<and>
   snd (alpha_loop betas as idx) = idx + of_nat (length as * length betas) \<and>
   map ab_idx (fst (alpha_loop betas as idx)) = map (\<lambda>k. idx + of_nat k) [0..<length as * length betas] \<and>
   map (\<lambda>p. (ab_alpha p, ab_beta p)) (fst (alpha_loop betas as idx)) = List.product as betas"
proof (induction as arbitrary: idx)
  case Nil
  then show ?case by simp
next
  case (Cons a as)
  define m where "m = length betas"
  define ps where "ps = fst (beta_loop a betas idx)"
  define qs where "qs = fst (alpha_loop betas as (idx + of_nat m))"
  have s: "alpha_loop betas (a # as) idx = (ps @ qs, snd (alpha_loop betas as (idx + of_nat m)))"
    by (simp add: ps_def qs_def m_def beta_loop_eq split_beta' Let_def)
  have ps: "length ps = m" "map ab_idx ps = map (\<lambda>k. idx + of_nat k) [0..<m]"
    "map (\<lambda>p. (ab_alpha p, ab_beta p)) ps = map (Pair a) betas"
    by (auto simp: ps_def m_def beta_loop_eq nth_enumerate_eq split_beta' intro!: nth_equalityI)
  have qs: "length qs = length as * m" "snd (alpha_loop betas as (idx + of_nat m)) = idx + of_nat m + of_nat (length as * m)"
    "map ab_idx qs = map (\<lambda>k. idx + of_nat m + of_nat k) [0..<length as * m]"
    "map (\<lambda>p. (ab_alpha p, ab_beta p)) qs = List.product as betas"
    using Cons [of "idx + of_nat m"] by (simp_all add: qs_def m_def)
  have "map (\<lambda>k. idx + of_nat k) [0..<m + n] = map (\<lambda>k. idx + of_nat k) [0..<m] @ map (\<lambda>k. idx + of_nat m + of_nat k) [0..<n]" for n
    by (induction n) (simp_all add: algebra_simps)
  from this [of "length as * m"] ps qs s show ?case by (simp add: m_def algebra_simps)
qed

end
