(* ===== verification/Client_Facts.thy ===== *)
theory Client_Facts
  imports Client
begin

text \<open>
  The client against the server: the request as a codec whose receiver is the server's check, and
  what the client logs for the server's reply.
\<close>

section \<open>The request\<close>

definition flag_params :: "client_flags \<Rightarrow> pricing_params" where
  "flag_params fl = \<lparr>pp_option_type = 0, pp_stock_price = f32_of_f64 (FLAGS_stock_price fl),
     pp_strike_price = f32_of_f64 (FLAGS_strike_price fl), pp_interest_rate = f32_of_f64 (FLAGS_interest_rate fl),
     pp_time_to_maturity = f32_of_f64 (FLAGS_time_to_maturity fl),
     pp_stock_discretization = f32_of_f64 (FLAGS_stock_discretization fl)\<rparr>"

lemma client_params_build: "client_params fl = build_table (params_ops (flag_params fl))"
  by (rule ext) (simp add: client_params_def build_table_def params_ops_def flag_params_def PP_VT_STOCK_PRICE_def
      PP_VT_STRIKE_PRICE_def PP_VT_INTEREST_RATE_def PP_VT_TIME_TO_MATURITY_def PP_VT_STOCK_DISCRETIZATION_def Let_def)

definition range_ops :: "u64 \<Rightarrow> nat \<Rightarrow> nat \<Rightarrow> fop list" where
  "range_ops h a v = [Link 4 a, Put U64 6 (unat h), Link 8 v]"

lemma range_ops_ok: "0 < a \<Longrightarrow> a \<le> k \<Longrightarrow> 0 < v \<Longrightarrow> v \<le> k \<Longrightarrow> fops_ok k (range_ops h a v)"
  by (simp add: fops_ok_def range_ops_def)

lemma slots_range_ops: "slots_of (range_ops h a v) = range_slots a h v"
  by (simp add: slots_of_def range_ops_def range_slots_def)

lemma client_request_build:
  "client_request fresh fl h ps =
     build_request ps (params_ops (flag_params fl)) (range_ops h) 4 8 (builder_of 256 fresh)"
  by (simp add: client_request_def build_request_def client_params_build build_table_def range_ops_def
      RangePricingRequestBuilder_Finish_def RQ_VT_defs Option.bind_assoc split: bind_splits)

definition request_check :: "buffer \<Rightarrow> bool option" where
  "request_check D = map_option fst (VerifyRangePricingRequestBuffer (mk_verifier D default_options))"

definition request_read :: "buffer \<Rightarrow> range_request option" where
  "request_read D = do { t \<leftarrow> GetRangePricingRequest D; request_of D t }"

definition request_content :: "client_flags \<Rightarrow> u64 \<Rightarrow> AlphaBetaPair list \<Rightarrow> range_request" where
  "request_content fl h ps = \<lparr>rq_params = canon_params (flag_params fl), rq_hash = h, rq_pairs = ps\<rparr>"

lemma client_request_spec:
  assumes f: "fresh_ok fresh" and n: "length ps \<le> 2 ^ 27"
  shows "\<exists>D. client_request fresh fl h ps = Some D \<and> request_check D = Some True \<and>
     request_read D = Some (request_content fl h ps)"
proof -
  have p0: "(flag_params fl)\<lparr>pp_option_type := 0\<rparr> = flag_params fl" by (simp add: flag_params_def)
  have "\<exists>D E o' a v. build_request ps (params_ops (flag_params fl)) (range_ops h) 4 8 (builder_of 256 fresh) = Some D \<and>
     root_of D E o' \<and> request_at E (range_slots a h v) o' a v (flag_params fl) ps \<and>
     (\<forall>f y. range_slots a h v f = Some (Scalar 8 y) \<longrightarrow> length D mod 8 = 0)"
    using f n
    by (intro build_request_spec builder_of_fresh)
      (simp_all add: fresh_ok_def params_ops_ok slots_params_ops p0 range_ops_ok slots_range_ops range_slots_def)
  then obtain D E o' a v where D: "client_request fresh fl h ps = Some D" "root_of D E o'"
    "request_at E (range_slots a h v) o' a v (flag_params fl) ps"
    "\<forall>f y. range_slots a h v f = Some (Scalar 8 y) \<longrightarrow> length D mod 8 = 0"
    by (elim exE conjE) (rule that, simp only: client_request_build, assumption+)
  have fr: "framed D E" "GetRoot D = Some (addr D o')" using D(2) by (simp_all add: root_of_def)
  have "h \<noteq> 0 \<Longrightarrow> length D mod 8 = 0"
    using D(4) [THEN spec, of 6] by (auto simp: range_slots_def opt_slot_def unsigned_eq_0_iff split: if_splits)
  note p = range_request_passes [OF fr(1) D(3) this]
  have "\<exists>vr'. VerifyBuffer RangePricingRequest_Verify None (mk_verifier D default_options) = Some (True, vr')"
    by (rule root_of_Verify [where T = RangePricingRequest_Verify, OF D(2) p]) (simp_all add: max_tables_nat_def)
  then have "request_check D = Some True" by (auto simp: request_check_def VerifyRangePricingRequestBuffer_def)
  moreover have "request_read D = Some (request_content fl h ps)"
    using range_request_read [OF framed_request_at [OF fr(1) D(3)]] fr(2)
    by (simp add: request_read_def GetRangePricingRequest_def request_content_def)
  ultimately show ?thesis using D(1) by blast
qed

abbreviation request_fits :: "buffer \<Rightarrow> bool" where
  "request_fits D \<equiv> length D < FLATBUFFERS_MAX_BUFFER_SIZE"

interpretation request_format: message_format request_fits request_check request_read
proof unfold_locales
  fix D :: buffer
  assume l: "request_fits D"
  then obtain ok vr' where "VerifyBuffer RangePricingRequest_Verify None (mk_verifier D default_options) = Some (ok, vr')"
    "ok \<longrightarrow> (\<exists>t. GetRoot D = Some t \<and> (\<exists>r. request_of D t = Some r))"
    using VerifyBuffer_safe [where T = RangePricingRequest_Verify,
      OF vsafe_RangePricingRequest_Verify small_max [OF l], of default_options] small_max [OF l] by blast
  then show "request_check D \<noteq> None" "request_check D = Some True \<Longrightarrow> request_read D \<noteq> None"
    by (auto simp: request_check_def request_read_def VerifyRangePricingRequestBuffer_def GetRangePricingRequest_def)
qed

type_synonym sent_request = "(nat \<Rightarrow> byte list) \<times> client_flags \<times> u64 \<times> AlphaBetaPair list"

definition valid_request :: "sent_request \<Rightarrow> bool" where
  "valid_request = (\<lambda>(fresh, fl, h, ps). fresh_ok fresh \<and> length ps \<le> 2 ^ 27)"

interpretation request_codec: message_codec request_fits request_check request_read
  valid_request "\<lambda>(fresh, fl, h, ps). client_request fresh fl h ps" "\<lambda>(fresh, fl, h, ps). request_content fl h ps"
proof unfold_locales
  fix x :: sent_request and D
  assume v: "valid_request x"
  obtain fresh fl h ps where x: "x = (fresh, fl, h, ps)" by (cases x)
  from v x client_request_spec [of fresh ps fl h] obtain B where B: "client_request fresh fl h ps = Some B"
    "request_check B = Some True" "request_read B = Some (request_content fl h ps)"
    by (auto simp: valid_request_def)
  then show "\<exists>D. (case x of (fresh, fl, h, ps) \<Rightarrow> client_request fresh fl h ps) = Some D" by (simp add: x)
  assume "(case x of (fresh, fl, h, ps) \<Rightarrow> client_request fresh fl h ps) = Some D"
  with B show "request_check D = Some True"
    "request_read D = Some (case x of (fresh, fl, h, ps) \<Rightarrow> request_content fl h ps)" by (simp_all add: x)
qed

section \<open>The reply\<close>

lemma on_reply_receive:
  assumes "reply_format.receive D = Some (Some (h, rows))"
  shows "on_reply D = Some (0, Results h rows)"
proof -
  have c: "root_check RangePricingResponse_Verify D = Some True" "root_read range_response_of D = Some (h, rows)"
    using assms by (simp_all add: reply_format.receive_Some)
  from c(2) obtain t where t: "GetRoot D = Some t" "range_response_of D t = Some (h, rows)"
    by (auto simp: root_read_def bind_eq_Some_conv)
  with c(1) obtain w where "RangePricingResponse_Verify t (mk_verifier D default_options) = Some (True, w)"
    by (auto simp: root_check_def bind_eq_Some_conv)
  with t show ?thesis by (simp add: on_reply_def)
qed

lemma on_reply_total:
  assumes "received D"
  shows "\<exists>r. on_reply D = Some r"
proof -
  obtain t where t: "GetRoot D = Some t" using GetRoot_near [of D] assms by blast
  obtain ok where ok: "root_check RangePricingResponse_Verify D = Some ok"
    using reply_format.check_total [OF assms] by blast
  have "ok \<Longrightarrow> root_read range_response_of D \<noteq> None" using reply_format.check_sound [OF assms] ok by simp
  then have rd: "ok \<Longrightarrow> \<exists>h rows. range_response_of D t = Some (h, rows)" using t by (auto simp: root_read_def)
  from t ok obtain w where "RangePricingResponse_Verify t (mk_verifier D default_options) = Some (ok, w)"
    by (auto simp: root_check_def bind_eq_Some_conv)
  with t rd show ?thesis by (cases ok) (auto simp: on_reply_def)
qed

text \<open>Fewer than four bytes: the root offset is read past the end of the message.\<close>

lemma on_reply_short: "length D < 4 \<Longrightarrow> on_reply D = None"
  by (simp add: on_reply_def GetRoot_def GetMutableRoot_def ReadScalar_def peek_def)

text \<open>A reply the server built is logged row by row.\<close>

lemma on_reply_server:
  assumes "make_reply std_sort fresh h rows = Some D" and "sort_ok std_sort" "fresh_ok fresh" "length rows \<le> 999999"
  shows "on_reply D = Some (0, Results h (Some (map canon_row (std_sort rows))))"
proof -
  have "valid_reply (std_sort, fresh, h, rows)" using assms(2-) by (simp add: valid_reply_def)
  from reply_codec.deliver [OF this] assms(1) show ?thesis by (auto intro: on_reply_receive)
qed

section \<open>The whole exchange\<close>

lemma canon_params_idem [simp]: "canon_params (canon_params p) = canon_params p"
  by (simp add: canon_params_def)

lemma length_round_rows: "0 < L \<Longrightarrow> length (round_rows pf e L rr) \<le> length (rq_pairs rr)"
proof -
  assume L: "0 < L"
  have "length (concat (map (slice_rows pf e (rq_params rr)) cs)) \<le> length (concat cs)" for cs
    by (induction cs) (simp_all add: add_mono length_slice_rows)
  from this [of "chunks_of L (rq_pairs rr)"] concat_chunks_of [OF L, of "rq_pairs rr"] show ?thesis
    by (simp add: round_rows_def)
qed

text \<open>Client, server, workers, server, client.\<close>

lemma exchange:
  assumes pf: "platform_ok pf e" "\<forall>j. alloc_ok pf (als j)" and f: "fresh_ok fresh" "fresh_ok fresh'"
    and s: "sort_ok std_sort" and ar: "\<forall>xs. mset (arrive xs) = mset xs"
    and L: "0 < L" "L \<le> 999999" and n: "length ps \<le> 999999"
  shows "\<exists>msg D rows. client_request fresh' fl h ps = Some msg \<and>
     serve pf als arrive std_sort fresh (int L) msg = Some (Inr D) \<and>
     on_reply D = Some (0, Results h (Some rows)) \<and>
     mset rows = mset (round_rows pf e L (request_content fl h ps)) \<and>
     sorted_wrt (\<lambda>a b. pr_idx a \<le> pr_idx b) rows"
proof -
  define rr where "rr = request_content fl h ps"
  have "valid_request (fresh', fl, h, ps)" using f n by (simp add: valid_request_def)
  from request_codec.deliver [OF this] obtain msg where
    m: "client_request fresh' fl h ps = Some msg" "request_format.receive msg = Some (Some rr)"
    by (auto simp: rr_def)
  then have ok: "request_check msg = Some True" and rd: "request_read msg = Some rr"
    by (simp_all add: request_format.receive_Some)
  from rd obtain t where t: "GetRangePricingRequest msg = Some t" "request_of msg t = Some rr"
    by (auto simp: request_read_def bind_eq_Some_conv)
  have h: "rq_hash rr = h" "rq_pairs rr = ps" by (simp_all add: rr_def request_content_def)
  have n': "length (rq_pairs rr) \<le> 5 * 10 ^ 6" using n h by simp
  from serve_round [OF pf f(1) s ar ok [unfolded request_check_def] t L n'] obtain D rows where
    D: "serve pf als arrive std_sort fresh (int L) msg = Some (Inr D)"
      "root_read range_response_of D = Some (rq_hash rr, Some rows)"
      "mset rows = mset (round_rows pf e L rr)" "sorted_wrt (\<lambda>a b. pr_idx a \<le> pr_idx b) rows"
      "length rows \<le> 999999 \<longrightarrow> root_check RangePricingResponse_Verify D = Some True" by blast
  have "length rows \<le> 999999"
    using D(3) [THEN arg_cong, of size] length_round_rows [OF L(1), of pf e rr] n h by simp
  then have "reply_format.receive D = Some (Some (h, Some rows))"
    using D(2,5) h by (simp add: reply_format.receive_Some)
  from on_reply_receive [OF this] m(1) D(1,3,4) show ?thesis unfolding rr_def by blast
qed

end
