(* ===== verification/Examples.thy ===== *)
theory Examples
  imports Client_Facts
begin

text \<open>
  Concrete inputs for the properties: a platform of four lanes with a toy exponential, memory, a
  sort, and the request message of \<open>Schema_Build\<close>.
\<close>

definition demo_exp :: "f32 \<Rightarrow> f32" where
  "demo_exp x = (if f32_le x 0 then 0x3F000000 else 0x40000000)"

definition demo_platform :: platform where
  "demo_platform = \<lparr>hn_Lanes = 4, hn_Set = replicate 4, hn_Neg = map f32_neg, hn_Mul = map2 f32_mul,
     hn_Exp = map demo_exp, hn_Zero = replicate 4 0,
     hn_Store = (\<lambda>v base i arr. if aligned_at 4 (base + 4 * i) then Some (take i arr @ v @ drop (i + 4) arr) else None),
     std_exp = demo_exp\<rparr>"

lemma demo_platform_ok: "platform_ok demo_platform demo_exp"
  by (auto simp: platform_ok_def demo_platform_def)

definition demo_fresh :: "nat \<Rightarrow> byte list" where
  "demo_fresh n = replicate n 0"

lemma demo_fresh_ok: "fresh_ok demo_fresh"
  by (simp add: fresh_ok_def demo_fresh_def)

definition demo_alloc :: alloc where
  "demo_alloc = \<lparr>al_prices = 0, al_hedge_ratios = 64, al_fresh = demo_fresh\<rparr>"

lemma demo_alloc_ok: "alloc_ok demo_platform demo_alloc"
  using demo_fresh_ok by (simp add: alloc_ok_def demo_alloc_def aligned_at_def demo_platform_def)

definition demo_sort :: "pricing_response list \<Rightarrow> pricing_response list" where
  "demo_sort = sort_key pr_idx"

lemma demo_sort_ok: "sort_ok demo_sort"
proof -
  have "sorted_wrt (\<lambda>a b. pr_idx a \<le> pr_idx b) (sort_key pr_idx xs)" for xs :: "pricing_response list"
    using sorted_sort_key [of pr_idx xs] by (simp add: sorted_map)
  then show ?thesis by (simp add: sort_ok_def demo_sort_def)
qed

definition demo_pairs :: "AlphaBetaPair list" where
  "demo_pairs = [\<lparr>ab_idx = 0, ab_alpha = 0, ab_beta = 0x3F800000\<rparr>, \<lparr>ab_idx = 1, ab_alpha = 0x3F800000, ab_beta = 0\<rparr>,
     \<lparr>ab_idx = 2, ab_alpha = 0x3F800000, ab_beta = 0x3F800000\<rparr>]"

definition demo_params :: pricing_params where
  "demo_params = \<lparr>pp_option_type = 1, pp_stock_price = 0x42C80000, pp_strike_price = 0x42C80000,
     pp_interest_rate = 0x3D4CCCCD, pp_time_to_maturity = 0x3F800000, pp_stock_discretization = 0x3C23D70A\<rparr>"

definition demo_request :: range_request where
  "demo_request = \<lparr>rq_params = demo_params, rq_hash = 7, rq_pairs = demo_pairs\<rparr>"

lemma demo_check: "check_of demo_params = None"
  by code_simp

text \<open>What \<open>example_request\<close> holds.\<close>

definition example_content :: range_request where
  "example_content = \<lparr>rq_params = \<lparr>pp_option_type = 1, pp_stock_price = 1120403456, pp_strike_price = 1120403456,
     pp_interest_rate = 1028443341, pp_time_to_maturity = 1065353216, pp_stock_discretization = 1036831949\<rparr>,
     rq_hash = 123456789012345,
     rq_pairs = [\<lparr>ab_idx = 1, ab_alpha = 1065353216, ab_beta = 0\<rparr>, \<lparr>ab_idx = 0, ab_alpha = 1065353216, ab_beta = 0\<rparr>]\<rparr>"

lemma example_request_check: "request_check example_request = Some True"
  by code_simp

lemma example_request_read: "request_read example_request = Some example_content"
  by code_simp

lemma example_content_pairs: "length (rq_pairs example_content) = 2" "check_of (rq_params example_content) = None"
  by code_simp+

end
