(* ===== verification/Dispatch_Theorems.thy ===== *)
theory Dispatch_Theorems
  imports Dispatch Examples
begin

text \<open>
  What the threads of the server do with a request: every interleaving that completes gives the reply
  that \<open>serve\<close> describes, none takes more than four steps for each batch, and the server gets to its
  reply as long as the batches fit into the pipes; with more batches it never does.
\<close>

lemma request_dispatched:
  assumes "request_check msg = Some True" and "request_read msg = Some rr"
    and "expand_to_batches fresh rr simd_lanes = Some (Inr batches)"
  shows "on_request fresh simd_lanes msg = Some (Inr (Dispatch rr batches))"
proof -
  from assms(1) obtain v where "VerifyRangePricingRequestBuffer (mk_verifier msg default_options) = Some (True, v)"
    by (auto simp: request_check_def)
  moreover from assms(2) obtain t where "GetRangePricingRequest msg = Some t" "request_of msg t = Some rr"
    by (auto simp: request_read_def bind_eq_Some_conv)
  ultimately show ?thesis using assms(3) by (simp add: on_request_def)
qed

text \<open>Every run can be continued to one that has no further step.\<close>

lemma ds_measure_start: "ds_measure (dispatch_start W batches) = 4 * length batches"
proof -
  have "busy_items (replicate W None) = []" by (induction W) (simp_all add: busy_items_def)
  moreover have "concat (replicate W []) = ([] :: item list)" by simp
  ultimately show ?thesis by (simp add: ds_measure_def dispatch_start_def)
qed

lemma maximal_run: "\<exists>n s. dispatch_run pf cd cr (dispatch_start W batches) n s \<and> (\<nexists>s'. dispatch_step pf cd cr s s')"
proof (rule ccontr)
  assume no: "\<not> ?thesis"
  have "\<exists>s. dispatch_run pf cd cr (dispatch_start W batches) n s" for n
  proof (induction n)
    case 0
    then show ?case using run_refl by blast
  next
    case (Suc n)
    with no show ?case using run_step by blast
  qed
  from this [of "Suc (4 * length batches)"] dispatch_run_bound [OF _ ds_shape_start] show False
    by (fastforce simp: ds_measure_start)
qed

lemma complete_run:
  assumes "workable pf batches" and "0 < cd" and "0 < cr" and "length batches \<le> dispatch_capacity W cd cr"
  shows "\<exists>n s. dispatch_run pf cd cr (dispatch_start W batches) n s \<and> dispatch_done s"
proof -
  obtain n s where s: "dispatch_run pf cd cr (dispatch_start W batches) n s" "\<nexists>s'. dispatch_step pf cd cr s s'"
    using maximal_run by blast
  have "ds_shape W cd cr s" "ds_inv pf batches s"
    using dispatch_run_inv [OF s(1) ds_shape_start ds_inv_start] by simp_all
  from dispatch_progress [OF this assms s(2)] s(1) show ?thesis by blast
qed

text \<open>Two batches of one pair each, one worker, pipes of one message.\<close>

lemma demo_run:
  obtains batches n s where "expand_to_batches demo_fresh example_content (int 1) = Some (Inr batches)" "length batches = 2"
    "dispatch_run demo_platform 1 1 (dispatch_start 1 batches) n s" "dispatch_done s"
proof -
  have l: "length (rq_pairs example_content) \<le> 5 * 10 ^ 6" by (simp add: example_content_pairs)
  from request_batches [OF demo_platform_ok demo_alloc_ok demo_fresh_ok _ _ l, of 1] obtain batches where
    b: "expand_to_batches demo_fresh example_content (int 1) = Some (Inr batches)" "length batches = 2" "workable demo_platform batches"
    by (auto simp: nchunks_def example_content_pairs)
  from complete_run [OF b(3), of 1 1 1] b that show ?thesis by (auto simp: dispatch_capacity_def)
qed

lemma dispatch_reply_of:
  assumes "platform_ok pf e" and "alloc_ok pf al" and "fresh_ok fresh" and "sort_ok std_sort"
    and "request_check msg = Some True" and "request_read msg = Some rr"
    and "0 < L" and "L \<le> 999999" and "length (rq_pairs rr) \<le> 5 * 10 ^ 6"
    and "expand_to_batches fresh rr (int L) = Some (Inr batches)"
    and "dispatch_run pf cd cr (dispatch_start W batches) n s" and "dispatch_done s"
  shows "\<exists>D rows. dispatch_reply std_sort fresh (rq_hash rr) s = Some D \<and>
     root_read range_response_of D = Some (rq_hash rr, Some rows) \<and>
     mset rows = mset (round_rows pf e L rr) \<and> sorted_wrt (\<lambda>a b. pr_idx a \<le> pr_idx b) rows"
proof -
  have "on_request fresh (int L) msg = Some (Inr (Dispatch rr batches))"
    by (rule request_dispatched [OF assms(5,6,10)])
  from dispatch_serves [OF assms(11,12,2) this, of std_sort] obtain als arrive where
    a: "\<forall>j. alloc_ok pf (als j)" "\<forall>xs. mset (arrive xs) = mset xs"
    "serve pf als arrive std_sort fresh (int L) msg = map_option Inr (dispatch_reply std_sort fresh (rq_hash rr) s)"
    by (elim exE conjE) (rule that; assumption)
  obtain t where t: "GetRangePricingRequest msg = Some t" "request_of msg t = Some rr"
    using assms(6) by (auto simp: request_read_def bind_eq_Some_conv)
  from serve_round [OF assms(1) a(1) assms(3,4) a(2) assms(5) [unfolded request_check_def] t assms(7-9)] a(3)
  show ?thesis by (auto simp: map_option_case split: option.splits)
qed

text \<open>
  C4. Refinement: for a request that passed the check, whatever the interleaving of the server and its
  workers and whatever the capacity of the pipes, when the server is done its reply has the hash of the
  request and, sorted by index, exactly the priced rows of the slices.
\<close>

theorem dispatch_refines_serve:
  assumes "platform_ok pf e" and "alloc_ok pf al" and "fresh_ok fresh" and "sort_ok std_sort"
    and "request_check msg = Some True" and "request_read msg = Some rr"
    and "0 < L" and "L \<le> 999999" and "length (rq_pairs rr) \<le> 5 * 10 ^ 6"
    and "expand_to_batches fresh rr (int L) = Some (Inr batches)"
    and "dispatch_run pf cd cr (dispatch_start W batches) n s" and "dispatch_done s"
  shows "\<exists>D rows. dispatch_reply std_sort fresh (rq_hash rr) s = Some D \<and>
     root_read range_response_of D = Some (rq_hash rr, Some rows) \<and>
     mset rows = mset (round_rows pf e L rr) \<and> sorted_wrt (\<lambda>a b. pr_idx a \<le> pr_idx b) rows"
  using dispatch_reply_of [OF assms(1-12)] .

theorem dispatch_refines_serve_witness:
  "\<exists>batches n s D rows. dispatch_run demo_platform 1 1 (dispatch_start 1 batches) n s \<and> dispatch_done s \<and>
     dispatch_reply demo_sort demo_fresh (rq_hash example_content) s = Some D \<and>
     root_read range_response_of D = Some (rq_hash example_content, Some rows) \<and>
     mset rows = mset (round_rows demo_platform demo_exp 1 example_content)"
proof -
  obtain batches n s where r: "expand_to_batches demo_fresh example_content (int 1) = Some (Inr batches)"
    "dispatch_run demo_platform 1 1 (dispatch_start 1 batches) n s" "dispatch_done s" by (rule demo_run)
  have l: "length (rq_pairs example_content) \<le> 5 * 10 ^ 6" by (simp add: example_content_pairs)
  have "(0::nat) < 1" "(1::nat) \<le> 999999" by simp_all
  from dispatch_refines_serve [OF demo_platform_ok demo_alloc_ok demo_fresh_ok demo_sort_ok example_request_check
      example_request_read this l r] r(2,3) show ?thesis by blast
qed

text \<open>At most four steps for each batch, and between any two steps the work that is left goes down.\<close>

lemma dispatch_bounded:
  assumes "dispatch_run pf cd cr (dispatch_start W batches) n s"
  shows "n \<le> 4 * length batches \<and> (\<forall>s'. dispatch_step pf cd cr s s' \<longrightarrow> ds_measure s' < ds_measure s)"
  using dispatch_run_bound [OF assms ds_shape_start] ds_measure_step by (fastforce simp: ds_measure_start)

text \<open>
  C17. Total correctness of a round: for a request that passed the check and whose batches fit into the pipes
  and the hands of the workers, every interleaving of the server and its workers comes to an end after at most
  four steps for each batch, there is one that does, and where one ends the server has its answers and its reply
  has the hash of the request and, sorted by index, exactly the priced rows of the slices.
\<close>

theorem dispatch_terminates:
  assumes "platform_ok pf e" and "alloc_ok pf al" and "fresh_ok fresh" and "sort_ok std_sort"
    and "request_check msg = Some True" and "request_read msg = Some rr"
    and "0 < L" and "L \<le> 999999" and "length (rq_pairs rr) \<le> 5 * 10 ^ 6"
    and "0 < cd" and "0 < cr" and "nchunks L (rq_pairs rr) \<le> W * (cd + 1 + cr)"
  shows "\<exists>batches. expand_to_batches fresh rr (int L) = Some (Inr batches) \<and>
    (\<exists>n s. dispatch_run pf cd cr (dispatch_start W batches) n s \<and> (\<nexists>s'. dispatch_step pf cd cr s s')) \<and>
    (\<forall>n s. dispatch_run pf cd cr (dispatch_start W batches) n s \<longrightarrow> n \<le> 4 * length batches \<and>
      ((\<nexists>s'. dispatch_step pf cd cr s s') \<longrightarrow> dispatch_done s \<and>
        (\<exists>D rows. dispatch_reply std_sort fresh (rq_hash rr) s = Some D \<and>
           root_read range_response_of D = Some (rq_hash rr, Some rows) \<and>
           mset rows = mset (round_rows pf e L rr) \<and> sorted_wrt (\<lambda>a b. pr_idx a \<le> pr_idx b) rows)))"
proof -
  from request_batches [OF assms(1-3,7-9)] obtain batches where
    b: "expand_to_batches fresh rr (int L) = Some (Inr batches)" "length batches = nchunks L (rq_pairs rr)" "workable pf batches"
    by blast
  have done_reply: "dispatch_done s \<and> (\<exists>D rows. dispatch_reply std_sort fresh (rq_hash rr) s = Some D \<and>
           root_read range_response_of D = Some (rq_hash rr, Some rows) \<and>
           mset rows = mset (round_rows pf e L rr) \<and> sorted_wrt (\<lambda>a b. pr_idx a \<le> pr_idx b) rows)"
    if "dispatch_run pf cd cr (dispatch_start W batches) n s" "\<nexists>s'. dispatch_step pf cd cr s s'" for n s
  proof -
    have "ds_shape W cd cr s" "ds_inv pf batches s"
      using dispatch_run_inv [OF that(1) ds_shape_start ds_inv_start] by simp_all
    from dispatch_progress [OF this b(3) assms(10,11) _ that(2)] assms(12) b(2) have "dispatch_done s"
      by (simp add: dispatch_capacity_def)
    with dispatch_reply_of [OF assms(1-9) b(1) that(1)] show ?thesis by blast
  qed
  from b(1) maximal_run [of pf cd cr W batches] dispatch_bounded done_reply show ?thesis by blast
qed

theorem dispatch_terminates_witness:
  "\<exists>batches n s D rows. expand_to_batches demo_fresh example_content (int 1) = Some (Inr batches) \<and>
     dispatch_run demo_platform 1 1 (dispatch_start 1 batches) n s \<and> n \<le> 4 * length batches \<and> dispatch_done s \<and>
     dispatch_reply demo_sort demo_fresh (rq_hash example_content) s = Some D \<and>
     root_read range_response_of D = Some (rq_hash example_content, Some rows) \<and>
     mset rows = mset (round_rows demo_platform demo_exp 1 example_content)"
proof -
  have l: "length (rq_pairs example_content) \<le> 5 * 10 ^ 6" by (simp add: example_content_pairs)
  have "(0::nat) < 1" "(1::nat) \<le> 999999" "nchunks 1 (rq_pairs example_content) \<le> 1 * (1 + 1 + 1)"
    by (simp_all add: nchunks_def example_content_pairs)
  from dispatch_terminates [OF demo_platform_ok demo_alloc_ok demo_fresh_ok demo_sort_ok example_request_check
      example_request_read this(1,2) l this(1,1,3)] show ?thesis by meson
qed

text \<open>
  C16. Invariant: in every reachable state each batch is in exactly one place - with the server, in a pipe,
  with a worker, in an answer pipe, or received - and every answer is what a worker makes of its batch;
  no pipe is over its limit.
\<close>

theorem dispatch_invariant:
  assumes "dispatch_run pf cd cr (dispatch_start W batches) n s"
  shows "image_mset fst (ds_items s + ds_answers s) = mset [0..<length batches] \<and>
    (\<forall>x\<in>#ds_items s. snd x = batches ! fst x) \<and>
    (\<forall>x\<in>#ds_answers s. \<exists>al. alloc_ok pf al \<and> worker_round pf al (batches ! fst x) = Some (snd x)) \<and>
    ds_expect s + length (ds_got s) = length batches \<and>
    (\<forall>i<W. length (ds_pipes s ! i) \<le> cd \<and> length (ds_outs s ! i) \<le> cr)"
  using dispatch_run_inv [OF assms ds_shape_start ds_inv_start] by (simp add: ds_inv_def ds_shape_def answered_def)

theorem dispatch_invariant_witness:
  "\<exists>batches n s. length batches = 2 \<and> dispatch_run demo_platform 1 1 (dispatch_start 1 batches) n s \<and> dispatch_done s \<and>
     image_mset fst (ds_items s + ds_answers s) = mset [0..<2]"
proof -
  obtain batches n s where r: "length batches = 2" "dispatch_run demo_platform 1 1 (dispatch_start 1 batches) n s" "dispatch_done s"
    by (rule demo_run)
  with dispatch_invariant [OF r(2)] show ?thesis by (metis (no_types))
qed

text \<open>
  C10. Progress: as long as the batches of a request fit into the pipes and the hands of the workers, no
  interleaving gets stuck before the server has its answers.
\<close>

theorem dispatch_gets_done:
  assumes "platform_ok pf e" and "alloc_ok pf al" and "fresh_ok fresh"
    and "0 < L" and "L \<le> 999999" and "length (rq_pairs rr) \<le> 5 * 10 ^ 6"
    and "0 < cd" and "0 < cr" and "nchunks L (rq_pairs rr) \<le> W * (cd + 1 + cr)"
  shows "\<exists>batches. expand_to_batches fresh rr (int L) = Some (Inr batches) \<and>
    (\<forall>n s. dispatch_run pf cd cr (dispatch_start W batches) n s \<longrightarrow> dispatch_done s \<or> (\<exists>s'. dispatch_step pf cd cr s s'))"
proof -
  from request_batches [OF assms(1-6)] obtain batches where
    b: "expand_to_batches fresh rr (int L) = Some (Inr batches)" "length batches = nchunks L (rq_pairs rr)" "workable pf batches"
    by blast
  have "dispatch_done s" if "dispatch_run pf cd cr (dispatch_start W batches) n s" "\<nexists>s'. dispatch_step pf cd cr s s'" for n s
  proof -
    have "ds_shape W cd cr s" "ds_inv pf batches s"
      using dispatch_run_inv [OF that(1) ds_shape_start ds_inv_start] by simp_all
    from dispatch_progress [OF this b(3) assms(7,8) _ that(2)] assms(9) b(2) show ?thesis by (simp add: dispatch_capacity_def)
  qed
  with b(1) show ?thesis by blast
qed

theorem dispatch_gets_done_witness:
  "\<exists>batches. expand_to_batches demo_fresh example_content (int 1) = Some (Inr batches) \<and>
     (\<forall>n s. dispatch_run demo_platform 1 1 (dispatch_start 1 batches) n s \<longrightarrow>
        dispatch_done s \<or> (\<exists>s'. dispatch_step demo_platform 1 1 s s'))"
proof -
  have l: "length (rq_pairs example_content) \<le> 5 * 10 ^ 6" by (simp add: example_content_pairs)
  show ?thesis
    by (rule dispatch_gets_done [OF demo_platform_ok demo_alloc_ok demo_fresh_ok _ _ l])
      (simp_all add: nchunks_def example_content_pairs)
qed

text \<open>
  C12. Deadlock: all batches are sent before any answer is received, so a request with more batches than
  the pipes and the hands of the workers hold is never answered; the server blocks in \<open>send\<close> for ever.
\<close>

theorem dispatch_deadlocks:
  assumes "dispatch_run pf cd cr (dispatch_start W batches) n s" and "W * (cd + 1 + cr) < length batches"
  shows "\<not> dispatch_done s \<and> ds_got s = [] \<and> n \<le> 3 * (W * (cd + 1 + cr)) \<and> ds_to_send s \<noteq> []"
proof -
  note i = dispatch_run_inv [OF assms(1) ds_shape_start ds_inv_start]
  have t: "ds_to_send s \<noteq> []" using dispatch_never_done [OF assms(1)] assms(2) by (simp add: dispatch_capacity_def)
  then have g: "ds_got s = []" using i by (simp add: ds_inv_def)
  note m = dispatch_run_bound [OF assms(1) ds_shape_start]
  have "length (ds_to_send s) + in_flight s = length batches"
    using ds_inv_sizes [of pf batches s] i g by (simp add: ds_items_def ds_answers_def in_flight_def)
  moreover have "in_flight s \<le> W * (cd + 1 + cr)" using in_flight_le [of W cd cr s] i by (simp add: dispatch_capacity_def)
  ultimately have "n \<le> 3 * (W * (cd + 1 + cr))" using m by (simp add: ds_measure_start) (simp add: ds_measure_def in_flight_def)
  with t g show ?thesis by (simp add: dispatch_done_def)
qed

theorem dispatch_deadlocks_witness:
  "\<exists>n s. dispatch_run demo_platform 1 1 (dispatch_start 1 (replicate 4 [])) n s \<and>
     (\<nexists>s'. dispatch_step demo_platform 1 1 s s') \<and> \<not> dispatch_done s"
proof -
  obtain n s where r: "dispatch_run demo_platform 1 1 (dispatch_start 1 (replicate 4 [])) n s"
    "\<nexists>s'. dispatch_step demo_platform 1 1 s s'" using maximal_run by blast
  with dispatch_deadlocks [OF r(1)] show ?thesis by auto
qed

end
