(* ===== verification/Server_Theorems.thy ===== *)
theory Server_Theorems
  imports Server_Loop Dispatch_Theorems
begin

text \<open>
  The server over its whole life: what it has replied to each message, and how it ends.
\<close>

lemma served_refused:
  assumes "served pf std_sort fresh lanes (msg, D)" and "request_check msg = Some False"
  shows "error_reply fresh = Some D"
proof -
  from assms(2) obtain v where "VerifyRangePricingRequestBuffer (mk_verifier msg default_options) = Some (False, v)"
    by (auto simp: request_check_def)
  then have "on_request fresh lanes msg = map_option (\<lambda>r. Inr (Reply r)) (error_reply fresh)"
    by (simp add: on_request_def map_option_case split: bind_splits option.splits)
  with assms(1) show ?thesis by (cases "error_reply fresh") (auto simp: served_def serve_def)
qed

lemma served_accepted:
  assumes "served pf std_sort fresh (int L) (msg, D)" and "platform_ok pf e" and "fresh_ok fresh" and "sort_ok std_sort"
    and "0 < L" and "L \<le> 999999"
    and "request_check msg = Some True" and "request_read msg = Some rr" and "length (rq_pairs rr) \<le> 5 * 10 ^ 6"
  shows "\<exists>rows. root_read range_response_of D = Some (rq_hash rr, Some rows) \<and>
     mset rows = mset (round_rows pf e L rr) \<and> sorted_wrt (\<lambda>a b. pr_idx a \<le> pr_idx b) rows"
proof -
  from assms(1) obtain als arrive where a: "\<forall>j. alloc_ok pf (als j)" "\<forall>xs. mset (arrive xs) = mset xs"
    "serve pf als arrive std_sort fresh (int L) msg = Some (Inr D)" by (auto simp: served_def)
  obtain t where t: "GetRangePricingRequest msg = Some t" "request_of msg t = Some rr"
    using assms(8) by (auto simp: request_read_def bind_eq_Some_conv)
  from serve_round [OF assms(2) a(1) assms(3,4) a(2) assms(7) [unfolded request_check_def] t assms(5,6,9)] a(3)
  show ?thesis by auto
qed

text \<open>
  C2. Requests do not interfere: in every reachable state of the server, whatever messages it received in
  whatever order and however its threads interleaved, each message that passed the check was answered
  with its own hash and exactly its own priced rows, sorted, and each that failed it with the error
  reply; no answer of one request ends up in the reply to another.
\<close>

theorem replies_isolated:
  assumes "platform_ok pf e" and "alloc_ok pf al" and "fresh_ok fresh" and "sort_ok std_sort" and "0 < L" and "L \<le> 999999"
    and "server_run pf std_sort fresh (int L) cd cr (server_start W bound) n s" and "(msg, D) \<in> set (sv_log s)"
  shows "(request_check msg = Some False \<longrightarrow> error_reply fresh = Some D) \<and>
    (\<forall>rr. request_check msg = Some True \<and> request_read msg = Some rr \<and> length (rq_pairs rr) \<le> 5 * 10 ^ 6 \<longrightarrow>
       (\<exists>rows. root_read range_response_of D = Some (rq_hash rr, Some rows) \<and>
          mset rows = mset (round_rows pf e L rr) \<and> sorted_wrt (\<lambda>a b. pr_idx a \<le> pr_idx b) rows))"
proof -
  have "server_inv pf std_sort fresh (int L) cd cr W s"
    by (rule server_run_inv [OF assms(7) server_start_inv assms(2)])
  with assms(8) have "served pf std_sort fresh (int L) (msg, D)" by (auto simp: server_inv_def)
  from served_refused [OF this] served_accepted [OF this assms(1,3-6)] show ?thesis by blast
qed


subsection \<open>A run\<close>

text \<open>One request served by one worker, then a signal.\<close>

lemma exchange_run:
  assumes "dispatch_run pf cd cr net n net'" and "sv_net s = net" and "sv_phase s \<noteq> Terminated" and "\<not> sv_down s"
  shows "server_run pf std_sort fresh lanes cd cr s n (s\<lparr>sv_net := net'\<rparr>)"
  using assms(1,2)
proof (induction rule: dispatch_run.induct)
  case (run_refl net)
  then have "s\<lparr>sv_net := net\<rparr> = s" by simp
  then show ?case by (metis server_refl)
next
  case (run_step net n net' net'')
  let ?s = "s\<lparr>sv_net := net'\<rparr>"
  have "server_step pf std_sort fresh lanes cd cr ?s (?s\<lparr>sv_net := net''\<rparr>)"
    by (rule traffic) (use assms(3,4) run_step.hyps(2) in simp_all)
  with run_step show ?case using server_snoc by fastforce
qed

lemma server_run_trans:
  "server_run pf std_sort fresh lanes cd cr s' m s'' \<Longrightarrow> server_run pf std_sort fresh lanes cd cr s n s' \<Longrightarrow>
   server_run pf std_sort fresh lanes cd cr s (n + m) s''"
  by (induction rule: server_run.induct) (auto intro: server_snoc)

lemma demo_served:
  obtains n D s where "server_run demo_platform demo_sort demo_fresh (int 1) 1 1 (server_start 1 True) n s"
    "sv_log s = [(example_request, D)]" "sv_phase s = Waiting" "\<not> sv_down s" "sv_monitor s"
proof -
  obtain batches n net where b: "expand_to_batches demo_fresh example_content (int 1) = Some (Inr batches)"
    "dispatch_run demo_platform 1 1 (dispatch_start 1 batches) n net" "dispatch_done net" by (rule demo_run)
  have o: "on_request demo_fresh (int 1) example_request = Some (Inr (Dispatch example_content batches))"
    by (rule request_dispatched [OF example_request_check example_request_read b(1)])
  define s0 where "s0 = server_start 1 True"
  define s1 where "s1 = s0\<lparr>sv_phase := Round example_request example_content, sv_net := start_round batches (sv_net s0)\<rparr>"
  define s2 where "s2 = s1\<lparr>sv_net := net\<rparr>"
  have s0: "sv_phase s0 = Waiting" "\<not> sv_down s0" "sv_monitor s0" "sv_log s0 = []" "sv_net s0 = idle_net 1"
    by (simp_all add: s0_def server_start_def)
  have st: "server_step demo_platform demo_sort demo_fresh (int 1) 1 1 s0 s1"
    unfolding s1_def by (rule accept [OF s0(1,2) o])
  have "sv_net s1 = dispatch_start 1 batches"
    unfolding s1_def using start_round_idle [of "idle_net 1" 1 batches] s0(5) by (simp add: idle_net_def)
  from exchange_run [OF b(2) this] s0(2) have ex: "server_run demo_platform demo_sort demo_fresh (int 1) 1 1 s1 n s2"
    unfolding s2_def by (simp add: s1_def)
  have i: "ds_inv demo_platform batches net" using dispatch_run_inv [OF b(2) ds_shape_start ds_inv_start] by simp
  from dispatch_serves_inv [OF i b(3) demo_alloc_ok o, of demo_sort] obtain als arrive where
    a: "\<forall>j. alloc_ok demo_platform (als j)" "\<forall>xs. mset (arrive xs) = mset xs"
    "serve demo_platform als arrive demo_sort demo_fresh (int 1) example_request =
      map_option Inr (dispatch_reply demo_sort demo_fresh (rq_hash example_content) net)"
    by (elim exE conjE) (rule that; assumption)
  obtain t where t: "GetRangePricingRequest example_request = Some t" "request_of example_request t = Some example_content"
    using example_request_read by (auto simp: request_read_def bind_eq_Some_conv)
  have l: "length (rq_pairs example_content) \<le> 5 * 10 ^ 6" "(0::nat) < 1" "(1::nat) \<le> 999999" by (simp_all add: example_content_pairs)
  from serve_round [OF demo_platform_ok a(1) demo_fresh_ok demo_sort_ok a(2) example_request_check [unfolded request_check_def] t l(2,3,1)] a(3)
  obtain D where D: "dispatch_reply demo_sort demo_fresh (rq_hash example_content) net = Some D" by auto
  define s3 where "s3 = s2\<lparr>sv_phase := Waiting, sv_log := sv_log s2 @ [(example_request, D)]\<rparr>"
  have "server_step demo_platform demo_sort demo_fresh (int 1) 1 1 s2 s3"
    unfolding s3_def by (rule finish) (use b(3) D s0(2) in \<open>simp_all add: s2_def s1_def\<close>)
  moreover have "server_run demo_platform demo_sort demo_fresh (int 1) 1 1 s0 (Suc 0 + n) s2"
    by (rule server_run_trans [OF ex server_snoc [OF server_refl st]])
  ultimately have "server_run demo_platform demo_sort demo_fresh (int 1) 1 1 s0 (Suc (Suc 0 + n)) s3" by (rule server_snoc [rotated])
  then show ?thesis
    by (rule that [unfolded s0_def [symmetric]]) (use s0 in \<open>simp_all add: s3_def s2_def s1_def\<close>)
qed

theorem replies_isolated_witness:
  "\<exists>n s D rows. server_run demo_platform demo_sort demo_fresh (int 1) 1 1 (server_start 1 True) n s \<and>
     sv_log s = [(example_request, D)] \<and> root_read range_response_of D = Some (rq_hash example_content, Some rows) \<and>
     mset rows = mset (round_rows demo_platform demo_exp 1 example_content)"
proof -
  obtain n D s where r: "server_run demo_platform demo_sort demo_fresh (int 1) 1 1 (server_start 1 True) n s"
    "sv_log s = [(example_request, D)]" by (rule demo_served)
  have l: "(0::nat) < 1" "(1::nat) \<le> 999999" "(example_request, D) \<in> set (sv_log s)" by (simp_all add: r(2))
  from replies_isolated [OF demo_platform_ok demo_alloc_ok demo_fresh_ok demo_sort_ok l(1,2) r(1) l(3)]
  have "length (rq_pairs example_content) \<le> 5 * 10 ^ 6 \<longrightarrow>
      (\<exists>rows. root_read range_response_of D = Some (rq_hash example_content, Some rows) \<and>
        mset rows = mset (round_rows demo_platform demo_exp 1 example_content))"
    using example_request_check example_request_read by blast
  with r show ?thesis by (auto simp: example_content_pairs)
qed


end
