(* ===== verification/Log_Msg.thy ===== *)
theory Log_Msg
  imports Fmt_Int
begin

text \<open>
  What the log formatters work on: \<open>spdlog/common.h\<close> (levels, source locations), \<open>details/log_msg.h\<close>,
  \<open>mdc.h\<close>, the calendar time of the C library, and the padder of \<open>pattern_formatter-inl.h\<close>.
  The functions of the operating system are the fields of \<open>os_env\<close>.
\<close>

section \<open>Levels\<close>

datatype level_enum = level_trace | level_debug | level_info | level_warn | level_err | level_critical
  | level_off | n_levels

fun level_num :: "level_enum \<Rightarrow> nat" where
  "level_num level_trace = 0"
| "level_num level_debug = 1"
| "level_num level_info = 2"
| "level_num level_warn = 3"
| "level_num level_err = 4"
| "level_num level_critical = 5"
| "level_num level_off = 6"
| "level_num n_levels = 7"

text \<open>The levels are compared as the integers of the enumeration.\<close>

lemma level_num_inject: "level_num l = level_num l' \<Longrightarrow> l = l'"
  by (cases l; cases l') simp_all

instantiation level_enum :: linorder
begin

definition less_eq_level_enum :: "level_enum \<Rightarrow> level_enum \<Rightarrow> bool" where
  "less_eq_level_enum l l' \<longleftrightarrow> level_num l \<le> level_num l'"

definition less_level_enum :: "level_enum \<Rightarrow> level_enum \<Rightarrow> bool" where
  "less_level_enum l l' \<longleftrightarrow> level_num l < level_num l'"

instance
  by standard (auto simp: less_eq_level_enum_def less_level_enum_def intro: level_num_inject)

end

definition level_of :: "nat \<Rightarrow> level_enum" where
  "level_of n = [level_trace, level_debug, level_info, level_warn, level_err, level_critical, level_off] ! n"

text \<open>An array access; out of range is undefined.\<close>

definition array_at :: "'a list \<Rightarrow> int \<Rightarrow> 'a option" where
  "array_at xs i = (if 0 \<le> i \<and> i < int (length xs) then Some (xs ! nat i) else None)"

definition level_string_views :: "string list" where
  "level_string_views = [''trace'', ''debug'', ''info'', ''warning'', ''error'', ''critical'', ''off'']"

definition short_level_names :: "string list" where
  "short_level_names = [''T'', ''D'', ''I'', ''W'', ''E'', ''C'', ''O'']"

definition to_string_view :: "level_enum \<Rightarrow> string option" where
  "to_string_view l = array_at level_string_views (int (level_num l))"

definition to_short_c_str :: "level_enum \<Rightarrow> string option" where
  "to_short_c_str l = array_at short_level_names (int (level_num l))"

text \<open>\<open>std::find\<close>: the position of the first equal element, or the end.\<close>

fun find_pos :: "'a \<Rightarrow> 'a list \<Rightarrow> nat" where
  "find_pos x [] = 0"
| "find_pos x (y # ys) = (if x = y then 0 else Suc (find_pos x ys))"

definition from_str :: "string \<Rightarrow> level_enum" where
  "from_str name =
     (let it = find_pos name level_string_views
      in if it \<noteq> length level_string_views then level_of it
         else if name = ''warn'' then level_warn
         else if name = ''err'' then level_err
         else level_off)"

lemma from_str_to_string_view: "to_string_view l = Some s \<Longrightarrow> from_str s = l"
  by (cases l) (auto simp: to_string_view_def from_str_def level_string_views_def array_at_def level_of_def)

section \<open>Messages\<close>

text \<open>A null \<open>const char*\<close> is None; reading it is undefined.\<close>

record source_loc =
  loc_filename :: "string option"
  loc_line :: int
  loc_funcname :: "string option"

definition loc_empty :: "source_loc \<Rightarrow> bool" where
  "loc_empty loc \<longleftrightarrow> loc_line loc \<le> 0"

text \<open>Times are nanoseconds since the epoch.\<close>

record log_msg =
  logger_name :: string
  msg_level :: level_enum
  msg_time :: int
  thread_id :: nat
  color_range_start :: nat
  color_range_end :: nat
  msg_source :: source_loc
  payload :: string

definition make_log_msg :: "int \<Rightarrow> nat \<Rightarrow> source_loc \<Rightarrow> string \<Rightarrow> level_enum \<Rightarrow> string \<Rightarrow> log_msg" where
  "make_log_msg log_time tid loc a_logger_name lvl msg =
     \<lparr>logger_name = a_logger_name, msg_level = lvl, msg_time = log_time, thread_id = tid,
      color_range_start = 0, color_range_end = 0, msg_source = loc, payload = msg\<rparr>"

section \<open>Time and system\<close>

record tm =
  tm_sec :: int
  tm_min :: int
  tm_hour :: int
  tm_mday :: int
  tm_mon :: int
  tm_year :: int
  tm_wday :: int
  tm_gmtoff :: int

text \<open>\<open>memset(&cached_tm_, 0, sizeof(cached_tm_))\<close>\<close>

definition zero_tm :: tm where
  "zero_tm = \<lparr>tm_sec = 0, tm_min = 0, tm_hour = 0, tm_mday = 0, tm_mon = 0, tm_year = 0, tm_wday = 0, tm_gmtoff = 0\<rparr>"

text \<open>The clock, the calendar, the process and the CPU at the time of a call, and the thread's context.\<close>

record os_env =
  os_localtime :: "int \<Rightarrow> tm"
  os_gmtime :: "int \<Rightarrow> tm"
  os_pid :: int
  os_cpu :: int
  mdc_context :: "(string \<times> string) list"

definition utc_minutes_offset :: "tm \<Rightarrow> int option" where
  "utc_minutes_offset t = int_op (tm_gmtoff t sdiv 60)"

section \<open>The mapped diagnostic context\<close>

text \<open>\<open>std::map<std::string, std::string>\<close>: the entries in the order of their keys, chars unsigned.\<close>

fun str_less :: "string \<Rightarrow> string \<Rightarrow> bool" where
  "str_less xs [] = False"
| "str_less [] (y # ys) = True"
| "str_less (x # xs) (y # ys) =
     ((of_char x :: nat) < of_char y \<or> x = y \<and> str_less xs ys)"

fun mdc_put :: "string \<Rightarrow> string \<Rightarrow> (string \<times> string) list \<Rightarrow> (string \<times> string) list" where
  "mdc_put k v [] = [(k, v)]"
| "mdc_put k v ((k', v') # m) =
     (if k = k' then (k, v) # m
      else if str_less k k' then (k, v) # (k', v') # m
      else (k', v') # mdc_put k v m)"

definition mdc_get :: "string \<Rightarrow> (string \<times> string) list \<Rightarrow> string" where
  "mdc_get k m = (case map_of m k of Some v \<Rightarrow> v | None \<Rightarrow> [])"

definition mdc_remove :: "string \<Rightarrow> (string \<times> string) list \<Rightarrow> (string \<times> string) list" where
  "mdc_remove k m = filter (\<lambda>(k', _). k' \<noteq> k) m"

definition mdc_clear :: "(string \<times> string) list" where
  "mdc_clear = []"

section \<open>Padding\<close>

datatype pad_side = side_left | side_right | side_center

record padding_info =
  pi_width :: nat
  pi_side :: pad_side
  pi_truncate :: bool
  pi_enabled :: bool

definition no_padding :: padding_info where
  "no_padding = \<lparr>pi_width = 0, pi_side = side_left, pi_truncate = False, pi_enabled = False\<rparr>"

definition make_padding :: "nat \<Rightarrow> pad_side \<Rightarrow> bool \<Rightarrow> padding_info" where
  "make_padding width side trunc = \<lparr>pi_width = width, pi_side = side, pi_truncate = trunc, pi_enabled = True\<rparr>"

text \<open>The template argument \<open>ScopedPadder\<close>.\<close>

datatype padder = scoped_padder | null_scoped_padder

text \<open>
  \<open>pad_spaces\<close> has 64 chars; a view of more reads past it.  Sizes of strings are below \<open>2 ^ 63\<close>, so that
  the casts to \<open>long\<close> keep them.
\<close>

definition pad_spaces :: string where
  "pad_spaces = replicate 64 (CHR '' '')"

definition pad_it :: "int \<Rightarrow> string \<Rightarrow> string option" where
  "pad_it n dest = (if 0 \<le> n \<and> n \<le> int (length pad_spaces) then Some (dest @ take (nat n) pad_spaces) else None)"

definition padder_ctor :: "nat \<Rightarrow> padding_info \<Rightarrow> string \<Rightarrow> (int \<times> string) option" where
  "padder_ctor wrapped_size padinfo dest =
     (let remaining_pad = int (pi_width padinfo) - int wrapped_size
      in if remaining_pad \<le> 0 then Some (remaining_pad, dest)
         else (case pi_side padinfo of
             side_left \<Rightarrow> do { dest' \<leftarrow> pad_it remaining_pad dest; Some (0, dest') }
           | side_center \<Rightarrow>
               (let half_pad = remaining_pad sdiv 2; reminder = remaining_pad AND 1
                in do { dest' \<leftarrow> pad_it half_pad dest; Some (half_pad + reminder, dest') })
           | side_right \<Rightarrow> Some (remaining_pad, dest)))"

definition padder_dtor :: "padding_info \<Rightarrow> int \<Rightarrow> string \<Rightarrow> string option" where
  "padder_dtor padinfo remaining_pad dest =
     (if 0 \<le> remaining_pad then pad_it remaining_pad dest
      else if pi_truncate padinfo then
        (let new_size = int (length dest) + remaining_pad
         in Some (take (nat (if new_size < 0 then 0 else new_size)) dest))
      else Some dest)"

text \<open>A scope with a padder: constructor, body, destructor.\<close>

definition with_padder ::
    "padder \<Rightarrow> nat \<Rightarrow> padding_info \<Rightarrow> (string \<Rightarrow> string option) \<Rightarrow> string \<Rightarrow> string option" where
  "with_padder P wrapped_size padinfo body dest =
     (case P of
        null_scoped_padder \<Rightarrow> body dest
      | scoped_padder \<Rightarrow> do {
          (remaining_pad, d1) \<leftarrow> padder_ctor wrapped_size padinfo dest;
          d2 \<leftarrow> body d1;
          padder_dtor padinfo remaining_pad d2
        })"

definition padder_count_digits :: "padder \<Rightarrow> nat \<Rightarrow> nat \<Rightarrow> nat" where
  "padder_count_digits P w n = (case P of scoped_padder \<Rightarrow> fh_count_digits w n | null_scoped_padder \<Rightarrow> 0)"

definition append_view :: "string \<Rightarrow> string \<Rightarrow> string option" where
  "append_view view dest = Some (dest @ view)"

subsection \<open>What a padded field is\<close>

text \<open>The text \<open>s\<close> in a field: padded to the width on its side, and cut at the width when truncating.\<close>

definition pad_field :: "padding_info \<Rightarrow> string \<Rightarrow> string" where
  "pad_field padinfo s =
     (let gap = pi_width padinfo - length s; sp = (\<lambda>n. replicate n (CHR '' ''))
      in if pi_width padinfo < length s then (if pi_truncate padinfo then take (pi_width padinfo) s else s)
         else (case pi_side padinfo of
             side_left \<Rightarrow> sp gap @ s
           | side_right \<Rightarrow> s @ sp gap
           | side_center \<Rightarrow> sp (gap div 2) @ s @ sp (gap - gap div 2)))"

lemma length_pad_field:
  "length (pad_field pi s) = (if pi_truncate pi then pi_width pi else max (pi_width pi) (length s))"
  by (auto simp: pad_field_def Let_def split: pad_side.split)

lemma pad_it_eq: "n \<le> 64 \<Longrightarrow> pad_it (int n) dest = Some (dest @ replicate n (CHR '' ''))"
  by (simp add: pad_it_def pad_spaces_def)

text \<open>
  The scoped padder builds that field when the declared size is the size of the text and the width
  is at most 64; it never touches what is before the field.
\<close>

lemma with_padder_scoped:
  assumes w: "pi_width pi \<le> 64" and b: "\<And>d. body d = Some (d @ s)"
  shows "with_padder scoped_padder (length s) pi body dest = Some (dest @ pad_field pi s)"
proof (cases "pi_width pi \<le> length s")
  case True
  then have "padder_ctor (length s) pi dest = Some (int (pi_width pi) - int (length s), dest)"
    by (simp add: padder_ctor_def)
  moreover have "padder_dtor pi (int (pi_width pi) - int (length s)) (dest @ s) = Some (dest @ pad_field pi s)"
    using True by (auto simp: padder_dtor_def pad_field_def pad_it_def Let_def nat_diff_distrib nat_add_distrib
        split: pad_side.split)
  ultimately show ?thesis by (simp add: with_padder_def b)
next
  case False
  define gap where "gap = pi_width pi - length s"
  have g: "int (pi_width pi) - int (length s) = int gap" "0 < gap" "gap \<le> 64"
    using False w by (simp_all add: gap_def)
  have h: "int gap sdiv 2 = int (gap div 2)" "int gap AND 1 = int (gap mod 2)"
    using g(2) by (simp_all add: signed_divide_int_def zdiv_int and_one_eq zmod_int)
  have "gap div 2 + gap mod 2 = gap - gap div 2" by presburger
  then have "int (gap div 2) + int (gap mod 2) = int (gap - gap div 2)" by (metis of_nat_add)
  moreover have "gap div 2 \<le> 64" "gap - gap div 2 \<le> 64" using g(3) by simp_all
  ultimately have r: "pad_it (int (gap div 2) + int (gap mod 2)) d = Some (d @ replicate (gap - gap div 2) (CHR '' ''))"
    "pad_it (int (gap div 2)) d = Some (d @ replicate (gap div 2) (CHR '' ''))" for d
    by (simp_all only: pad_it_eq)
  show ?thesis using g h False
    by (cases "pi_side pi")
      (simp_all add: with_padder_def padder_ctor_def padder_dtor_def b r pad_it_eq pad_field_def Let_def
        pad_it_eq [of 0, simplified] flip: gap_def)
qed

end
