(* ===== verification/Log_Formatters.thy ===== *)
theory Log_Formatters
  imports Log_Msg
begin

text \<open>
  The flag formatters of \<open>spdlog/pattern_formatter-inl.h\<close> and the two custom flags of
  \<open>src/logger.cpp\<close>: one definition per class, for its \<open>format\<close>.  A formatter is its class (with the
  members that \<open>format\<close> changes), its padder and its padding.  Undefined behaviour is None.
\<close>

section \<open>Writing to the destination\<close>

definition push_back :: "char \<Rightarrow> string \<Rightarrow> string option" where
  "push_back c dest = Some (dest @ [c])"

definition put2 :: "int \<Rightarrow> string \<Rightarrow> string option" where
  "put2 n dest = Some (pad2 n dest)"

text \<open>Statements that append, one after the other.\<close>

fun run_all :: "(string \<Rightarrow> string option) list \<Rightarrow> string \<Rightarrow> string option" where
  "run_all [] dest = Some dest"
| "run_all (f # fs) dest = do { dest' \<leftarrow> f dest; run_all fs dest' }"

section \<open>Name and level\<close>

definition name_formatter_format :: "padder \<Rightarrow> padding_info \<Rightarrow> log_msg \<Rightarrow> string \<Rightarrow> string option" where
  "name_formatter_format P pi msg = with_padder P (length (logger_name msg)) pi (append_view (logger_name msg))"

definition level_formatter_format :: "padder \<Rightarrow> padding_info \<Rightarrow> log_msg \<Rightarrow> string \<Rightarrow> string option" where
  "level_formatter_format P pi msg dest = do {
     level_name \<leftarrow> to_string_view (msg_level msg);
     with_padder P (length level_name) pi (append_view level_name) dest
   }"

definition short_level_formatter_format :: "padder \<Rightarrow> padding_info \<Rightarrow> log_msg \<Rightarrow> string \<Rightarrow> string option" where
  "short_level_formatter_format P pi msg dest = do {
     level_name \<leftarrow> to_short_c_str (msg_level msg);
     with_padder P (length level_name) pi (append_view level_name) dest
   }"

section \<open>Date and time\<close>

definition ampm :: "tm \<Rightarrow> string" where
  "ampm t = (if tm_hour t \<ge> 12 then ''PM'' else ''AM'')"

definition to12h :: "tm \<Rightarrow> int" where
  "to12h t = (if tm_hour t > 12 then tm_hour t - 12 else tm_hour t)"

definition days :: "string list" where
  "days = [''Sun'', ''Mon'', ''Tue'', ''Wed'', ''Thu'', ''Fri'', ''Sat'']"

definition a_formatter_format :: "padder \<Rightarrow> padding_info \<Rightarrow> tm \<Rightarrow> string \<Rightarrow> string option" where
  "a_formatter_format P pi t dest = do {
     field_value \<leftarrow> array_at days (tm_wday t);
     with_padder P (length field_value) pi (append_view field_value) dest
   }"

definition full_days :: "string list" where
  "full_days = [''Sunday'', ''Monday'', ''Tuesday'', ''Wednesday'', ''Thursday'', ''Friday'', ''Saturday'']"

definition A_formatter_format :: "padder \<Rightarrow> padding_info \<Rightarrow> tm \<Rightarrow> string \<Rightarrow> string option" where
  "A_formatter_format P pi t dest = do {
     field_value \<leftarrow> array_at full_days (tm_wday t);
     with_padder P (length field_value) pi (append_view field_value) dest
   }"

definition months :: "string list" where
  "months = [''Jan'', ''Feb'', ''Mar'', ''Apr'', ''May'', ''Jun'', ''Jul'', ''Aug'', ''Sep'', ''Oct'', ''Nov'', ''Dec'']"

definition b_formatter_format :: "padder \<Rightarrow> padding_info \<Rightarrow> tm \<Rightarrow> string \<Rightarrow> string option" where
  "b_formatter_format P pi t dest = do {
     field_value \<leftarrow> array_at months (tm_mon t);
     with_padder P (length field_value) pi (append_view field_value) dest
   }"

definition full_months :: "string list" where
  "full_months = [''January'', ''February'', ''March'', ''April'', ''May'', ''June'', ''July'', ''August'',
     ''September'', ''October'', ''November'', ''December'']"

definition B_formatter_format :: "padder \<Rightarrow> padding_info \<Rightarrow> tm \<Rightarrow> string \<Rightarrow> string option" where
  "B_formatter_format P pi t dest = do {
     field_value \<leftarrow> array_at full_months (tm_mon t);
     with_padder P (length field_value) pi (append_view field_value) dest
   }"

definition c_formatter_format :: "padder \<Rightarrow> padding_info \<Rightarrow> tm \<Rightarrow> string \<Rightarrow> string option" where
  "c_formatter_format P pi t dest = do {
     day \<leftarrow> array_at days (tm_wday t);
     month \<leftarrow> array_at months (tm_mon t);
     year \<leftarrow> int_op (tm_year t + 1900);
     with_padder P 24 pi (run_all
       [append_view day, push_back (CHR '' ''), append_view month, push_back (CHR '' ''),
        append_int 32 (tm_mday t), push_back (CHR '' ''),
        put2 (tm_hour t), push_back (CHR '':''), put2 (tm_min t), push_back (CHR '':''), put2 (tm_sec t),
        push_back (CHR '' ''), append_int 32 year]) dest
   }"

definition C_formatter_format :: "padder \<Rightarrow> padding_info \<Rightarrow> tm \<Rightarrow> string \<Rightarrow> string option" where
  "C_formatter_format P pi t = with_padder P 2 pi (put2 (tm_year t smod 100))"

definition D_formatter_format :: "padder \<Rightarrow> padding_info \<Rightarrow> tm \<Rightarrow> string \<Rightarrow> string option" where
  "D_formatter_format P pi t dest = do {
     mon \<leftarrow> int_op (tm_mon t + 1);
     with_padder P 8 pi (run_all
       [put2 mon, push_back (CHR ''/''), put2 (tm_mday t), push_back (CHR ''/''), put2 (tm_year t smod 100)]) dest
   }"

definition Y_formatter_format :: "padder \<Rightarrow> padding_info \<Rightarrow> tm \<Rightarrow> string \<Rightarrow> string option" where
  "Y_formatter_format P pi t dest = do {
     year \<leftarrow> int_op (tm_year t + 1900);
     with_padder P 4 pi (append_int 32 year) dest
   }"

definition m_formatter_format :: "padder \<Rightarrow> padding_info \<Rightarrow> tm \<Rightarrow> string \<Rightarrow> string option" where
  "m_formatter_format P pi t dest = do {
     mon \<leftarrow> int_op (tm_mon t + 1);
     with_padder P 2 pi (put2 mon) dest
   }"

definition d_formatter_format :: "padder \<Rightarrow> padding_info \<Rightarrow> tm \<Rightarrow> string \<Rightarrow> string option" where
  "d_formatter_format P pi t = with_padder P 2 pi (put2 (tm_mday t))"

definition H_formatter_format :: "padder \<Rightarrow> padding_info \<Rightarrow> tm \<Rightarrow> string \<Rightarrow> string option" where
  "H_formatter_format P pi t = with_padder P 2 pi (put2 (tm_hour t))"

definition I_formatter_format :: "padder \<Rightarrow> padding_info \<Rightarrow> tm \<Rightarrow> string \<Rightarrow> string option" where
  "I_formatter_format P pi t = with_padder P 2 pi (put2 (to12h t))"

definition M_formatter_format :: "padder \<Rightarrow> padding_info \<Rightarrow> tm \<Rightarrow> string \<Rightarrow> string option" where
  "M_formatter_format P pi t = with_padder P 2 pi (put2 (tm_min t))"

definition S_formatter_format :: "padder \<Rightarrow> padding_info \<Rightarrow> tm \<Rightarrow> string \<Rightarrow> string option" where
  "S_formatter_format P pi t = with_padder P 2 pi (put2 (tm_sec t))"

text \<open>The fractions of a second, after the casts to \<open>uint32_t\<close> and \<open>size_t\<close>.\<close>

definition e_formatter_format :: "padder \<Rightarrow> padding_info \<Rightarrow> log_msg \<Rightarrow> string \<Rightarrow> string option" where
  "e_formatter_format P pi msg =
     (let millis = time_fraction (10 ^ 6) (msg_time msg)
      in with_padder P 3 pi (pad3 (nat (millis mod 2 ^ 32))))"

definition f_formatter_format :: "padder \<Rightarrow> padding_info \<Rightarrow> log_msg \<Rightarrow> string \<Rightarrow> string option" where
  "f_formatter_format P pi msg =
     (let micros = time_fraction (10 ^ 3) (msg_time msg)
      in with_padder P 6 pi (pad6 64 (nat (micros mod 2 ^ 64))))"

definition F_formatter_format :: "padder \<Rightarrow> padding_info \<Rightarrow> log_msg \<Rightarrow> string \<Rightarrow> string option" where
  "F_formatter_format P pi msg =
     (let ns = time_fraction 1 (msg_time msg)
      in with_padder P 9 pi (pad9 64 (nat (ns mod 2 ^ 64))))"

definition E_formatter_format :: "padder \<Rightarrow> padding_info \<Rightarrow> log_msg \<Rightarrow> string \<Rightarrow> string option" where
  "E_formatter_format P pi msg = with_padder P 10 pi (append_int 64 (msg_time msg sdiv 10 ^ 9))"

definition p_formatter_format :: "padder \<Rightarrow> padding_info \<Rightarrow> tm \<Rightarrow> string \<Rightarrow> string option" where
  "p_formatter_format P pi t = with_padder P 2 pi (append_view (ampm t))"

definition r_formatter_format :: "padder \<Rightarrow> padding_info \<Rightarrow> tm \<Rightarrow> string \<Rightarrow> string option" where
  "r_formatter_format P pi t = with_padder P 11 pi (run_all
     [put2 (to12h t), push_back (CHR '':''), put2 (tm_min t), push_back (CHR '':''), put2 (tm_sec t),
      push_back (CHR '' ''), append_view (ampm t)])"

definition R_formatter_format :: "padder \<Rightarrow> padding_info \<Rightarrow> tm \<Rightarrow> string \<Rightarrow> string option" where
  "R_formatter_format P pi t =
     with_padder P 5 pi (run_all [put2 (tm_hour t), push_back (CHR '':''), put2 (tm_min t)])"

definition T_formatter_format :: "padder \<Rightarrow> padding_info \<Rightarrow> tm \<Rightarrow> string \<Rightarrow> string option" where
  "T_formatter_format P pi t = with_padder P 8 pi (run_all
     [put2 (tm_hour t), push_back (CHR '':''), put2 (tm_min t), push_back (CHR '':''), put2 (tm_sec t)])"

text \<open>The offset from UTC: the members are the time of the last refresh and the offset.\<close>

datatype pattern_time_type = time_local | time_utc

definition get_cached_offset :: "log_msg \<Rightarrow> tm \<Rightarrow> int \<times> int \<Rightarrow> (int \<times> int \<times> int) option" where
  "get_cached_offset msg t = (\<lambda>(last_update, offset_minutes). do {
     age \<leftarrow> long_op (msg_time msg - last_update);
     (if age \<ge> 10 * 10 ^ 9
      then do { m \<leftarrow> utc_minutes_offset t; Some (m, msg_time msg, m) }
      else Some (offset_minutes, last_update, offset_minutes))
   })"

definition z_formatter_format ::
    "padder \<Rightarrow> padding_info \<Rightarrow> pattern_time_type \<Rightarrow> int \<times> int \<Rightarrow> log_msg \<Rightarrow> tm \<Rightarrow> string \<Rightarrow>
     ((int \<times> int) \<times> string) option" where
  "z_formatter_format P pi time_type st msg t dest =
     (if time_type = time_utc
      then do { d \<leftarrow> with_padder P 6 pi (append_view ''+00:00'') dest; Some (st, d) }
      else do {
        (total_minutes, st') \<leftarrow> get_cached_offset msg t st;
        (let is_negative = total_minutes < 0
         in do {
           m \<leftarrow> (if is_negative then int_op (- total_minutes) else Some total_minutes);
           d \<leftarrow> with_padder P 6 pi (run_all
             [push_back (if is_negative then CHR ''-'' else CHR ''+''),
              put2 (m sdiv 60), push_back (CHR '':''), put2 (m smod 60)]) dest;
           Some (st', d)
         })
      })"

section \<open>Thread, process, text\<close>

definition t_formatter_format :: "padder \<Rightarrow> padding_info \<Rightarrow> log_msg \<Rightarrow> string \<Rightarrow> string option" where
  "t_formatter_format P pi msg =
     with_padder P (padder_count_digits P 64 (thread_id msg)) pi (append_uint (thread_id msg))"

definition pid_formatter_format :: "padder \<Rightarrow> padding_info \<Rightarrow> os_env \<Rightarrow> string \<Rightarrow> string option" where
  "pid_formatter_format P pi env =
     (let pid = nat (os_pid env mod 2 ^ 32)
      in with_padder P (padder_count_digits P 32 pid) pi (append_uint pid))"

definition v_formatter_format :: "padder \<Rightarrow> padding_info \<Rightarrow> log_msg \<Rightarrow> string \<Rightarrow> string option" where
  "v_formatter_format P pi msg = with_padder P (length (payload msg)) pi (append_view (payload msg))"

definition ch_formatter_format :: "char \<Rightarrow> string \<Rightarrow> string option" where
  "ch_formatter_format ch = push_back ch"

definition aggregate_formatter_format :: "string \<Rightarrow> string \<Rightarrow> string option" where
  "aggregate_formatter_format str = append_view str"

definition color_start_formatter_format :: "log_msg \<Rightarrow> string \<Rightarrow> log_msg" where
  "color_start_formatter_format msg dest = msg\<lparr>color_range_start := length dest\<rparr>"

definition color_stop_formatter_format :: "log_msg \<Rightarrow> string \<Rightarrow> log_msg" where
  "color_stop_formatter_format msg dest = msg\<lparr>color_range_end := length dest\<rparr>"

section \<open>Source location\<close>

text \<open>The digits of an \<open>int\<close> are counted after a cast to \<open>uint32_t\<close>.\<close>

definition line_digits :: "padder \<Rightarrow> int \<Rightarrow> nat" where
  "line_digits P line = padder_count_digits P 32 (nat (line mod 2 ^ 32))"

definition source_location_formatter_format ::
    "padder \<Rightarrow> padding_info \<Rightarrow> log_msg \<Rightarrow> string \<Rightarrow> string option" where
  "source_location_formatter_format P pi msg dest =
     (let source = msg_source msg
      in if loc_empty source then with_padder P 0 pi Some dest
         else do {
           filename \<leftarrow> loc_filename source;
           (let text_size = (if pi_enabled pi then length filename + line_digits P (loc_line source) + 1 else 0)
            in with_padder P text_size pi (run_all
                 [append_view filename, push_back (CHR '':''), append_int 32 (loc_line source)]) dest)
         })"

definition source_filename_formatter_format ::
    "padder \<Rightarrow> padding_info \<Rightarrow> log_msg \<Rightarrow> string \<Rightarrow> string option" where
  "source_filename_formatter_format P pi msg dest =
     (if loc_empty (msg_source msg) then with_padder P 0 pi Some dest
      else do {
        filename \<leftarrow> loc_filename (msg_source msg);
        with_padder P (if pi_enabled pi then length filename else 0) pi (append_view filename) dest
      })"

text \<open>What follows the last \<open>/\<close>.\<close>

definition basename :: "string \<Rightarrow> string" where
  "basename filename = rev (takeWhile (\<lambda>c. c \<noteq> CHR ''/'') (rev filename))"

definition short_filename_formatter_format ::
    "padder \<Rightarrow> padding_info \<Rightarrow> log_msg \<Rightarrow> string \<Rightarrow> string option" where
  "short_filename_formatter_format P pi msg dest =
     (if loc_empty (msg_source msg) then with_padder P 0 pi Some dest
      else do {
        f \<leftarrow> loc_filename (msg_source msg);
        (let filename = basename f
         in with_padder P (if pi_enabled pi then length filename else 0) pi (append_view filename) dest)
      })"

definition source_linenum_formatter_format ::
    "padder \<Rightarrow> padding_info \<Rightarrow> log_msg \<Rightarrow> string \<Rightarrow> string option" where
  "source_linenum_formatter_format P pi msg dest =
     (let line = loc_line (msg_source msg)
      in if loc_empty (msg_source msg) then with_padder P 0 pi Some dest
         else with_padder P (line_digits P line) pi (append_int 32 line) dest)"

definition source_funcname_formatter_format ::
    "padder \<Rightarrow> padding_info \<Rightarrow> log_msg \<Rightarrow> string \<Rightarrow> string option" where
  "source_funcname_formatter_format P pi msg dest =
     (if loc_empty (msg_source msg) then with_padder P 0 pi Some dest
      else do {
        funcname \<leftarrow> loc_funcname (msg_source msg);
        with_padder P (if pi_enabled pi then length funcname else 0) pi (append_view funcname) dest
      })"

section \<open>Elapsed time and context\<close>

text \<open>\<open>units\<close> is the length of the duration's unit in nanoseconds.\<close>

definition elapsed_formatter_format ::
    "padder \<Rightarrow> padding_info \<Rightarrow> int \<Rightarrow> int \<Rightarrow> log_msg \<Rightarrow> string \<Rightarrow> (int \<times> string) option" where
  "elapsed_formatter_format P pi units last_message_time msg dest = do {
     diff \<leftarrow> long_op (msg_time msg - last_message_time);
     (let delta = max diff 0; delta_count = nat ((delta sdiv units) mod 2 ^ 64)
      in do {
        d \<leftarrow> with_padder P (padder_count_digits P 64 delta_count) pi (append_uint delta_count) dest;
        Some (msg_time msg, d)
      })
   }"

fun format_mdc :: "padder \<Rightarrow> padding_info \<Rightarrow> (string \<times> string) list \<Rightarrow> string \<Rightarrow> string option" where
  "format_mdc P pi [] dest = Some dest"
| "format_mdc P pi ((key, value) # rest) dest = do {
     dest' \<leftarrow> with_padder P (length key + length value + 1 + (if rest \<noteq> [] then 1 else 0)) pi
       (run_all ([append_view key, append_view '':'', append_view value] @
          (if rest \<noteq> [] then [append_view '' ''] else []))) dest;
     format_mdc P pi rest dest'
   }"

definition mdc_formatter_format :: "padder \<Rightarrow> padding_info \<Rightarrow> os_env \<Rightarrow> string \<Rightarrow> string option" where
  "mdc_formatter_format P pi env =
     (if mdc_context env = [] then with_padder P 0 pi Some else format_mdc P pi (mdc_context env))"

end
