(* ===== verification/Log_Pattern.thy ===== *)
theory Log_Pattern
  imports Log_Formatters
begin

text \<open>
  \<open>pattern_formatter\<close> of \<open>spdlog/pattern_formatter-inl.h\<close>: the full formatter, the two custom flags of
  \<open>src/logger.cpp\<close>, the compilation of a pattern into flag formatters, and formatting a message with
  its cached calendar time.
\<close>

section \<open>The full formatter\<close>

text \<open>The text of the date and time that is cached for a second.\<close>

definition datetime_text :: "tm \<Rightarrow> string option" where
  "datetime_text t = do {
     year \<leftarrow> int_op (tm_year t + 1900);
     mon \<leftarrow> int_op (tm_mon t + 1);
     run_all [push_back (CHR ''[''), append_int 32 year, push_back (CHR ''-''), put2 mon, push_back (CHR ''-''),
       put2 (tm_mday t), push_back (CHR '' ''), put2 (tm_hour t), push_back (CHR '':''), put2 (tm_min t),
       push_back (CHR '':''), put2 (tm_sec t), push_back (CHR ''.'')] []
   }"

text \<open>The members are \<open>cache_timestamp_\<close>, in seconds, and \<open>cached_datetime_\<close>.\<close>

definition full_formatter_format ::
    "int \<times> string \<Rightarrow> os_env \<Rightarrow> log_msg \<Rightarrow> tm \<Rightarrow> string \<Rightarrow> ((int \<times> string) \<times> log_msg \<times> string) option" where
  "full_formatter_format = (\<lambda>(cache_timestamp, cached_datetime) env msg t dest. do {
     let secs = msg_time msg sdiv 10 ^ 9;
     (ts, cached) \<leftarrow>
       (if cache_timestamp \<noteq> secs \<or> cached_datetime = [] then do { c \<leftarrow> datetime_text t; Some (secs, c) }
        else Some (cache_timestamp, cached_datetime));
     let millis = time_fraction (10 ^ 6) (msg_time msg);
     d1 \<leftarrow> run_all ([append_view cached, pad3 (nat (millis mod 2 ^ 32)), append_view ''] ''] @
        (if logger_name msg \<noteq> [] then [append_view ''['', append_view (logger_name msg), append_view ''] ''] else []) @
        [push_back (CHR ''['')]) dest;
     level \<leftarrow> to_string_view (msg_level msg);
     let d2 = d1 @ level;
     let msg' = msg\<lparr>color_range_start := length d1, color_range_end := length d2\<rparr>;
     d3 \<leftarrow> append_view ''] '' d2;
     d4 \<leftarrow> (if loc_empty (msg_source msg) then Some d3
       else do {
         filename \<leftarrow> loc_filename (msg_source msg);
         run_all [push_back (CHR ''[''), append_view (basename filename), push_back (CHR '':''),
           append_int 32 (loc_line (msg_source msg)), append_view ''] ''] d3
       });
     d5 \<leftarrow> (if mdc_context env = [] then Some d4
       else run_all [push_back (CHR ''[''), format_mdc null_scoped_padder no_padding (mdc_context env), append_view ''] ''] d4);
     d6 \<leftarrow> append_view (payload msg) d5;
     Some ((ts, cached), msg', d6)
   })"

section \<open>The custom flags of the program\<close>

datatype custom_flag = utc_time_formatter | cpu_id_formatter

text \<open>\<open>snprintf\<close> into 24 chars with the terminator.\<close>

definition utc_time_formatter_format :: "log_msg \<Rightarrow> string \<Rightarrow> string option" where
  "utc_time_formatter_format msg dest =
     (let total_ms = msg_time msg sdiv 10 ^ 6;
          secs = total_ms sdiv 1000;
          ms = total_ms smod 1000;
          buf = take 23 (to_string secs @ ''.'' @ zero_fill 3 ms)
      in append_view buf dest)"

definition cpu_id_formatter_format :: "os_env \<Rightarrow> string \<Rightarrow> string option" where
  "cpu_id_formatter_format env dest = append_view (to_string (os_cpu env)) dest"

section \<open>Flag formatters\<close>

text \<open>The class of a formatter, with the members its \<open>format\<close> uses.\<close>

datatype flag_class =
    full_formatter int string
  | name_formatter | level_formatter | short_level_formatter
  | a_formatter | A_formatter | b_formatter | B_formatter | c_formatter | C_formatter | D_formatter
  | Y_formatter | m_formatter | d_formatter | H_formatter | I_formatter | M_formatter | S_formatter
  | e_formatter | f_formatter | F_formatter | E_formatter | p_formatter | r_formatter | R_formatter
  | T_formatter | z_formatter pattern_time_type int int
  | t_formatter | pid_formatter | v_formatter | ch_formatter char | aggregate_formatter string
  | color_start_formatter | color_stop_formatter
  | source_location_formatter | source_filename_formatter | short_filename_formatter
  | source_linenum_formatter | source_funcname_formatter
  | elapsed_formatter int int | mdc_formatter
  | custom_flag_formatter custom_flag

record flag_formatter =
  ff_class :: flag_class
  ff_padder :: padder
  ff_padinfo :: padding_info

definition plain :: "string option \<Rightarrow> flag_formatter \<Rightarrow> log_msg \<Rightarrow> (flag_formatter \<times> log_msg \<times> string) option" where
  "plain r f msg = do { d \<leftarrow> r; Some (f, msg, d) }"

text \<open>The virtual call \<open>f->format(msg, tm_time, dest)\<close>: the formatter, the message and the destination after it.\<close>

definition flag_format ::
    "os_env \<Rightarrow> flag_formatter \<Rightarrow> log_msg \<Rightarrow> tm \<Rightarrow> string \<Rightarrow> (flag_formatter \<times> log_msg \<times> string) option" where
  "flag_format env f msg t dest =
     (let P = ff_padder f; pi = ff_padinfo f in case ff_class f of
        full_formatter ts cached \<Rightarrow> do {
          ((ts', cached'), msg', d) \<leftarrow> full_formatter_format (ts, cached) env msg t dest;
          Some (f\<lparr>ff_class := full_formatter ts' cached'\<rparr>, msg', d)
        }
      | name_formatter \<Rightarrow> plain (name_formatter_format P pi msg dest) f msg
      | level_formatter \<Rightarrow> plain (level_formatter_format P pi msg dest) f msg
      | short_level_formatter \<Rightarrow> plain (short_level_formatter_format P pi msg dest) f msg
      | a_formatter \<Rightarrow> plain (a_formatter_format P pi t dest) f msg
      | A_formatter \<Rightarrow> plain (A_formatter_format P pi t dest) f msg
      | b_formatter \<Rightarrow> plain (b_formatter_format P pi t dest) f msg
      | B_formatter \<Rightarrow> plain (B_formatter_format P pi t dest) f msg
      | c_formatter \<Rightarrow> plain (c_formatter_format P pi t dest) f msg
      | C_formatter \<Rightarrow> plain (C_formatter_format P pi t dest) f msg
      | D_formatter \<Rightarrow> plain (D_formatter_format P pi t dest) f msg
      | Y_formatter \<Rightarrow> plain (Y_formatter_format P pi t dest) f msg
      | m_formatter \<Rightarrow> plain (m_formatter_format P pi t dest) f msg
      | d_formatter \<Rightarrow> plain (d_formatter_format P pi t dest) f msg
      | H_formatter \<Rightarrow> plain (H_formatter_format P pi t dest) f msg
      | I_formatter \<Rightarrow> plain (I_formatter_format P pi t dest) f msg
      | M_formatter \<Rightarrow> plain (M_formatter_format P pi t dest) f msg
      | S_formatter \<Rightarrow> plain (S_formatter_format P pi t dest) f msg
      | e_formatter \<Rightarrow> plain (e_formatter_format P pi msg dest) f msg
      | f_formatter \<Rightarrow> plain (f_formatter_format P pi msg dest) f msg
      | F_formatter \<Rightarrow> plain (F_formatter_format P pi msg dest) f msg
      | E_formatter \<Rightarrow> plain (E_formatter_format P pi msg dest) f msg
      | p_formatter \<Rightarrow> plain (p_formatter_format P pi t dest) f msg
      | r_formatter \<Rightarrow> plain (r_formatter_format P pi t dest) f msg
      | R_formatter \<Rightarrow> plain (R_formatter_format P pi t dest) f msg
      | T_formatter \<Rightarrow> plain (T_formatter_format P pi t dest) f msg
      | z_formatter time_type last_update offset_minutes \<Rightarrow> do {
          ((last', offset'), d) \<leftarrow> z_formatter_format P pi time_type (last_update, offset_minutes) msg t dest;
          Some (f\<lparr>ff_class := z_formatter time_type last' offset'\<rparr>, msg, d)
        }
      | t_formatter \<Rightarrow> plain (t_formatter_format P pi msg dest) f msg
      | pid_formatter \<Rightarrow> plain (pid_formatter_format P pi env dest) f msg
      | v_formatter \<Rightarrow> plain (v_formatter_format P pi msg dest) f msg
      | ch_formatter ch \<Rightarrow> plain (ch_formatter_format ch dest) f msg
      | aggregate_formatter str \<Rightarrow> plain (aggregate_formatter_format str dest) f msg
      | color_start_formatter \<Rightarrow> Some (f, color_start_formatter_format msg dest, dest)
      | color_stop_formatter \<Rightarrow> Some (f, color_stop_formatter_format msg dest, dest)
      | source_location_formatter \<Rightarrow> plain (source_location_formatter_format P pi msg dest) f msg
      | source_filename_formatter \<Rightarrow> plain (source_filename_formatter_format P pi msg dest) f msg
      | short_filename_formatter \<Rightarrow> plain (short_filename_formatter_format P pi msg dest) f msg
      | source_linenum_formatter \<Rightarrow> plain (source_linenum_formatter_format P pi msg dest) f msg
      | source_funcname_formatter \<Rightarrow> plain (source_funcname_formatter_format P pi msg dest) f msg
      | elapsed_formatter units last_time \<Rightarrow> do {
          (last', d) \<leftarrow> elapsed_formatter_format P pi units last_time msg dest;
          Some (f\<lparr>ff_class := elapsed_formatter units last'\<rparr>, msg, d)
        }
      | mdc_formatter \<Rightarrow> plain (mdc_formatter_format P pi env dest) f msg
      | custom_flag_formatter c \<Rightarrow> plain (case c of
            utc_time_formatter \<Rightarrow> utc_time_formatter_format msg dest
          | cpu_id_formatter \<Rightarrow> cpu_id_formatter_format env dest) f msg)"

section \<open>Compiling a pattern\<close>

record pattern_formatter =
  pf_pattern :: string
  pf_eol :: string
  pf_time_type :: pattern_time_type
  pf_need_localtime :: bool
  pf_cached_tm :: tm
  pf_last_log_secs :: int
  pf_formatters :: "flag_formatter list"
  pf_custom_handlers :: "char \<rightharpoonup> custom_flag"

text \<open>\<open>formatters_.push_back\<close>; setting \<open>need_localtime_\<close>.\<close>

definition push_formatter :: "flag_class \<Rightarrow> padder \<Rightarrow> padding_info \<Rightarrow> pattern_formatter \<Rightarrow> pattern_formatter" where
  "push_formatter c P pi p =
     p\<lparr>pf_formatters := pf_formatters p @ [\<lparr>ff_class = c, ff_padder = P, ff_padinfo = pi\<rparr>]\<rparr>"

definition need_time :: "pattern_formatter \<Rightarrow> pattern_formatter" where
  "need_time p = p\<lparr>pf_need_localtime := True\<rparr>"

text \<open>\<open>now\<close> is the clock when an elapsed formatter is made.\<close>

definition handle_flag :: "int \<Rightarrow> padder \<Rightarrow> char \<Rightarrow> padding_info \<Rightarrow> pattern_formatter \<Rightarrow> pattern_formatter" where
  "handle_flag now P flag padding p =
     (case pf_custom_handlers p flag of
        Some c \<Rightarrow> push_formatter (custom_flag_formatter c) P padding p
      | None \<Rightarrow>
          (let add = (\<lambda>c. push_formatter c P padding p); timed = (\<lambda>c. need_time (push_formatter c P padding p))
           in if flag = CHR ''+'' then timed (full_formatter 0 [])
              else if flag = CHR ''n'' then add name_formatter
              else if flag = CHR ''l'' then add level_formatter
              else if flag = CHR ''L'' then add short_level_formatter
              else if flag = CHR ''t'' then add t_formatter
              else if flag = CHR ''v'' then add v_formatter
              else if flag = CHR ''a'' then timed a_formatter
              else if flag = CHR ''A'' then timed A_formatter
              else if flag = CHR ''b'' \<or> flag = CHR ''h'' then timed b_formatter
              else if flag = CHR ''B'' then timed B_formatter
              else if flag = CHR ''c'' then timed c_formatter
              else if flag = CHR ''C'' then timed C_formatter
              else if flag = CHR ''Y'' then timed Y_formatter
              else if flag = CHR ''D'' \<or> flag = CHR ''x'' then timed D_formatter
              else if flag = CHR ''m'' then timed m_formatter
              else if flag = CHR ''d'' then timed d_formatter
              else if flag = CHR ''H'' then timed H_formatter
              else if flag = CHR ''I'' then timed I_formatter
              else if flag = CHR ''M'' then timed M_formatter
              else if flag = CHR ''S'' then timed S_formatter
              else if flag = CHR ''e'' then add e_formatter
              else if flag = CHR ''f'' then add f_formatter
              else if flag = CHR ''F'' then add F_formatter
              else if flag = CHR ''E'' then add E_formatter
              else if flag = CHR ''p'' then timed p_formatter
              else if flag = CHR ''r'' then timed r_formatter
              else if flag = CHR ''R'' then timed R_formatter
              else if flag = CHR ''T'' \<or> flag = CHR ''X'' then timed T_formatter
              else if flag = CHR ''z'' then timed (z_formatter (pf_time_type p) 0 0)
              else if flag = CHR ''P'' then add pid_formatter
              else if flag = CHR ''^'' then add color_start_formatter
              else if flag = CHR ''$'' then add color_stop_formatter
              else if flag = CHR ''@'' then add source_location_formatter
              else if flag = CHR ''s'' then add short_filename_formatter
              else if flag = CHR ''g'' then add source_filename_formatter
              else if flag = CHR ''#'' then add source_linenum_formatter
              else if flag = CHR ''!'' then add source_funcname_formatter
              else if flag = CHR ''%'' then push_formatter (ch_formatter (CHR ''%'')) null_scoped_padder no_padding p
              else if flag = CHR ''u'' then add (elapsed_formatter 1 now)
              else if flag = CHR ''i'' then add (elapsed_formatter (10 ^ 3) now)
              else if flag = CHR ''o'' then add (elapsed_formatter (10 ^ 6) now)
              else if flag = CHR ''O'' then add (elapsed_formatter (10 ^ 9) now)
              else if flag = CHR ''&'' then add mdc_formatter
              else if \<not> pi_truncate padding
                then push_formatter (aggregate_formatter [CHR ''%'', flag]) null_scoped_padder no_padding p
              else push_formatter (aggregate_formatter [flag]) null_scoped_padder no_padding
                (push_formatter source_funcname_formatter P (padding\<lparr>pi_truncate := False\<rparr>) p)))"

definition isdigit :: "char \<Rightarrow> bool" where
  "isdigit c \<longleftrightarrow> (48 :: nat) \<le> of_char c \<and> (of_char c :: nat) \<le> 57"

text \<open>The loop over the digits; \<open>size_t\<close> wraps.\<close>

fun padspec_digits :: "nat \<Rightarrow> string \<Rightarrow> nat \<times> string" where
  "padspec_digits width [] = (width, [])"
| "padspec_digits width (c # it) =
     (if isdigit c then padspec_digits ((width * 10 + (of_char c - 48)) mod 2 ^ 64) it else (width, c # it))"

text \<open>The rest of the pattern is the iterator.\<close>

definition handle_padspec :: "string \<Rightarrow> padding_info \<times> string" where
  "handle_padspec it =
     (let max_width = 64;
          (side, it1) = (case it of
              [] \<Rightarrow> (side_left, [])
            | c # r \<Rightarrow> if c = CHR ''-'' then (side_right, r) else if c = CHR ''='' then (side_center, r) else (side_left, it))
      in case it1 of
           [] \<Rightarrow> (no_padding, [])
         | c # r \<Rightarrow>
             if \<not> isdigit c then (no_padding, it1)
             else (let (width, it2) = padspec_digits (of_char c - 48) r;
                       (trunc, it3) = (case it2 of
                           [] \<Rightarrow> (False, [])
                         | c # r \<Rightarrow> if c = CHR ''!'' then (True, r) else (False, it2))
                   in (make_padding (min width max_width) side trunc, it3)))"

text \<open>Each step of the compilation consumes the pattern.\<close>

lemma padspec_digits_length: "length (snd (padspec_digits w it)) \<le> length it"
  by (induction w it rule: padspec_digits.induct) auto

lemma handle_padspec_length: "length (snd (handle_padspec it)) \<le> length it"
proof -
  obtain side it1 where s: "(case it of [] \<Rightarrow> (side_left, [])
      | c # r \<Rightarrow> if c = CHR ''-'' then (side_right, r) else if c = CHR ''='' then (side_center, r) else (side_left, it)) = (side, it1)"
    by (rule prod.exhaust)
  then have i1: "length it1 \<le> length it" by (auto split: list.splits if_splits)
  show ?thesis
  proof (cases it1)
    case Nil
    with s show ?thesis by (simp add: handle_padspec_def)
  next
    case (Cons c r)
    obtain w it2 where d: "padspec_digits (of_char c - 48) r = (w, it2)" by (rule prod.exhaust)
    then have "length it2 \<le> length r" using padspec_digits_length [of "of_char c - 48" r] by simp
    with i1 Cons s d show ?thesis
      by (auto simp: handle_padspec_def Let_def split: list.split)
  qed
qed

lemma handle_padspec_rest:
  assumes "(padding, flag # it2) = handle_padspec it"
  shows "length it2 < Suc (length it)"
proof -
  have "snd (handle_padspec it) = flag # it2" by (simp flip: assms)
  then show ?thesis using handle_padspec_length [of it] by simp
qed

text \<open>
  The loop of \<open>compile_pattern_\<close>: \<open>user_chars\<close> is the aggregate formatter under construction, if
  there is one; a pattern that ends within a specification ends the loop.
\<close>

definition push_user_chars :: "string option \<Rightarrow> pattern_formatter \<Rightarrow> pattern_formatter" where
  "push_user_chars user_chars p =
     (case user_chars of None \<Rightarrow> p
      | Some str \<Rightarrow> push_formatter (aggregate_formatter str) null_scoped_padder no_padding p)"

function compile_loop :: "int \<Rightarrow> string \<Rightarrow> string option \<Rightarrow> pattern_formatter \<Rightarrow> pattern_formatter" where
  "compile_loop now [] user_chars p = push_user_chars user_chars p"
| "compile_loop now (c # it) user_chars p =
     (if c = CHR ''%'' then
        (let p1 = push_user_chars user_chars p; (padding, it1) = handle_padspec it
         in case it1 of
              [] \<Rightarrow> p1
            | flag # it2 \<Rightarrow>
                compile_loop now it2 None
                  (handle_flag now (if pi_enabled padding then scoped_padder else null_scoped_padder) flag padding p1))
      else compile_loop now it (Some ((case user_chars of None \<Rightarrow> [] | Some s \<Rightarrow> s) @ [c])) p)"
  by pat_completeness auto
termination by (relation "measure (\<lambda>(_, it, _). length it)") (auto dest: handle_padspec_rest)

declare compile_loop.simps [simp del]

definition compile_pattern :: "int \<Rightarrow> string \<Rightarrow> pattern_formatter \<Rightarrow> pattern_formatter" where
  "compile_pattern now pattern p = compile_loop now pattern None (p\<lparr>pf_formatters := []\<rparr>)"

section \<open>The pattern formatter\<close>

definition mk_pattern_formatter ::
    "int \<Rightarrow> string \<Rightarrow> pattern_time_type \<Rightarrow> string \<Rightarrow> (char \<rightharpoonup> custom_flag) \<Rightarrow> pattern_formatter" where
  "mk_pattern_formatter now pattern time_type eol custom_user_flags =
     compile_pattern now pattern
       \<lparr>pf_pattern = pattern, pf_eol = eol, pf_time_type = time_type, pf_need_localtime = False,
        pf_cached_tm = zero_tm, pf_last_log_secs = 0, pf_formatters = [], pf_custom_handlers = custom_user_flags\<rparr>"

text \<open>The constructor without a pattern.\<close>

definition default_pattern_formatter :: "pattern_time_type \<Rightarrow> string \<Rightarrow> pattern_formatter" where
  "default_pattern_formatter time_type eol =
     push_formatter (full_formatter 0 []) null_scoped_padder no_padding
       \<lparr>pf_pattern = ''%+'', pf_eol = eol, pf_time_type = time_type, pf_need_localtime = True,
        pf_cached_tm = zero_tm, pf_last_log_secs = 0, pf_formatters = [], pf_custom_handlers = Map.empty\<rparr>"

definition pf_clone :: "int \<Rightarrow> pattern_formatter \<Rightarrow> pattern_formatter" where
  "pf_clone now p =
     (mk_pattern_formatter now (pf_pattern p) (pf_time_type p) (pf_eol p) (pf_custom_handlers p))
       \<lparr>pf_need_localtime := pf_need_localtime p\<rparr>"

definition add_flag :: "char \<Rightarrow> custom_flag \<Rightarrow> pattern_formatter \<Rightarrow> pattern_formatter" where
  "add_flag flag c p = p\<lparr>pf_custom_handlers := (pf_custom_handlers p)(flag \<mapsto> c)\<rparr>"

definition set_pattern :: "int \<Rightarrow> string \<Rightarrow> pattern_formatter \<Rightarrow> pattern_formatter" where
  "set_pattern now pattern p = compile_pattern now pattern (p\<lparr>pf_pattern := pattern, pf_need_localtime := False\<rparr>)"

text \<open>\<open>to_time_t\<close> truncates to seconds.\<close>

definition get_time :: "os_env \<Rightarrow> pattern_formatter \<Rightarrow> log_msg \<Rightarrow> tm" where
  "get_time env p msg =
     (if pf_time_type p = time_local then os_localtime env (msg_time msg sdiv 10 ^ 9)
      else os_gmtime env (msg_time msg sdiv 10 ^ 9))"

fun format_loop ::
    "os_env \<Rightarrow> tm \<Rightarrow> flag_formatter list \<Rightarrow> log_msg \<Rightarrow> string \<Rightarrow> (flag_formatter list \<times> log_msg \<times> string) option" where
  "format_loop env t [] msg dest = Some ([], msg, dest)"
| "format_loop env t (f # fs) msg dest = do {
     (f', msg1, d1) \<leftarrow> flag_format env f msg t dest;
     (fs', msg2, d2) \<leftarrow> format_loop env t fs msg1 d1;
     Some (f' # fs', msg2, d2)
   }"

definition refresh_tm :: "os_env \<Rightarrow> log_msg \<Rightarrow> pattern_formatter \<Rightarrow> pattern_formatter" where
  "refresh_tm env msg p =
     (let secs = msg_time msg sdiv 10 ^ 9
      in if pf_need_localtime p \<and> secs \<noteq> pf_last_log_secs p
         then p\<lparr>pf_cached_tm := get_time env p msg, pf_last_log_secs := secs\<rparr> else p)"

definition pattern_format ::
    "os_env \<Rightarrow> pattern_formatter \<Rightarrow> log_msg \<Rightarrow> string \<Rightarrow> (pattern_formatter \<times> log_msg \<times> string) option" where
  "pattern_format env p msg dest =
     (let p1 = refresh_tm env msg p
      in do {
        (fs, msg', d) \<leftarrow> format_loop env (pf_cached_tm p1) (pf_formatters p1) msg dest;
        d' \<leftarrow> append_view (pf_eol p1) d;
        Some (p1\<lparr>pf_formatters := fs\<rparr>, msg', d')
      })"

end
