(* ===== verification/Logger.thy ===== *)
theory Logger
  imports Log_Pattern
begin

text \<open>
  \<open>src/logger.cpp\<close>, \<open>src/config.cpp\<close> and the dispatch of \<open>spdlog/logger-inl.h\<close>: the pattern that
  the program builds, its sinks and levels, which messages reach which sink, and the configuration.
\<close>

section \<open>The program's logger\<close>

definition make_formatter :: "int \<Rightarrow> string \<Rightarrow> string \<Rightarrow> pattern_formatter" where
  "make_formatter now eol pattern =
     set_pattern now pattern
       (add_flag (CHR ''q'') cpu_id_formatter
         (add_flag (CHR ''*'') utc_time_formatter (default_pattern_formatter time_local eol)))"

datatype sink_target = stdout_color_sink | rotating_file_sink string nat nat

record sink =
  sk_target :: sink_target
  sk_level :: level_enum
  sk_formatter :: pattern_formatter

record logger =
  lg_name :: string
  lg_sinks :: "sink list"
  lg_level :: level_enum
  lg_flush_level :: level_enum

definition log_pattern :: "bool \<Rightarrow> bool \<Rightarrow> bool \<Rightarrow> string" where
  "log_pattern utc tid cpu_id =
     (let ts = (if utc then ''%*'' else ''%Y-%m-%d %H:%M:%S.%e'');
          pat = ''['' @ ts @ ''] [pid:%P]'';
          pat1 = (if tid then pat @ '' [tid:%t]'' else pat);
          pat2 = (if cpu_id then pat1 @ '' [cpu:%q]'' else pat1)
      in pat2 @ '' [%^%l%$] %v'')"

definition setup_logger :: "int \<Rightarrow> string \<Rightarrow> string \<Rightarrow> bool \<Rightarrow> bool \<Rightarrow> bool \<Rightarrow> logger" where
  "setup_logger now eol log_file utc tid cpu_id =
     (let pat = log_pattern utc tid cpu_id;
          console = \<lparr>sk_target = stdout_color_sink, sk_level = level_info, sk_formatter = make_formatter now eol pat\<rparr>;
          file = \<lparr>sk_target = rotating_file_sink log_file (10 * 1024 * 1024) 5, sk_level = level_debug,
                  sk_formatter = make_formatter now eol pat\<rparr>
      in \<lparr>lg_name = ''range_pricer'', lg_sinks = (if log_file = [] then [console] else [console, file]),
          lg_level = level_debug, lg_flush_level = level_warn\<rparr>)"

section \<open>Which messages are written where\<close>

definition sink_should_log :: "sink \<Rightarrow> level_enum \<Rightarrow> bool" where
  "sink_should_log s lvl \<longleftrightarrow> sk_level s \<le> lvl"

definition should_log :: "logger \<Rightarrow> level_enum \<Rightarrow> bool" where
  "should_log lg lvl \<longleftrightarrow> lg_level lg \<le> lvl"

definition should_flush :: "logger \<Rightarrow> log_msg \<Rightarrow> bool" where
  "should_flush lg msg \<longleftrightarrow>
     lg_flush_level lg \<le> msg_level msg \<and> msg_level msg \<noteq> level_off"

text \<open>The console sink flushes its stream after every line, the rotating file leaves that to the logger.\<close>

definition flushes_lines :: "sink_target \<Rightarrow> bool" where
  "flushes_lines target = (case target of stdout_color_sink \<Rightarrow> True | rotating_file_sink file max_size max_files \<Rightarrow> False)"

text \<open>
  \<open>sink_it_\<close> over the sinks: what each sink is given to write and whether it flushes it at once (None for a
  sink that is passed over), and the sinks with their formatters afterwards.
\<close>

fun sink_it_loop :: "os_env \<Rightarrow> sink list \<Rightarrow> log_msg \<Rightarrow> (sink list \<times> (string \<times> bool) option list \<times> log_msg) option" where
  "sink_it_loop env [] msg = Some ([], [], msg)"
| "sink_it_loop env (s # ss) msg =
     (if sink_should_log s (msg_level msg) then do {
        (p, msg1, line) \<leftarrow> pattern_format env (sk_formatter s) msg [];
        (ss', lines, msg2) \<leftarrow> sink_it_loop env ss msg1;
        Some (s\<lparr>sk_formatter := p\<rparr> # ss', Some (line, flushes_lines (sk_target s)) # lines, msg2)
      }
      else do {
        (ss', lines, msg2) \<leftarrow> sink_it_loop env ss msg;
        Some (s # ss', None # lines, msg2)
      })"

text \<open>\<open>logger::log\<close> without a backtrace: the lines of the sinks and whether the logger then flushes all of them.\<close>

definition log_it :: "os_env \<Rightarrow> logger \<Rightarrow> log_msg \<Rightarrow> (logger \<times> (string \<times> bool) option list \<times> bool) option" where
  "log_it env lg msg =
     (if \<not> should_log lg (msg_level msg) then Some (lg, map (\<lambda>_. None) (lg_sinks lg), False)
      else do {
        (ss, lines, msg') \<leftarrow> sink_it_loop env (lg_sinks lg) msg;
        Some (lg\<lparr>lg_sinks := ss\<rparr>, lines, should_flush lg msg')
      })"

section \<open>The console sink\<close>

text \<open>\<open>ansicolor_sink\<close>: the colours by level, and the bytes of a line.\<close>

definition esc :: string where
  "esc = [CHR 0x1B, CHR ''['']"

definition color_reset :: string where
  "color_reset = esc @ ''m''"

definition colors :: "string list" where
  "colors = [esc @ ''37m'', esc @ ''36m'', esc @ ''32m'', esc @ ''33m'' @ esc @ ''1m'',
     esc @ ''31m'' @ esc @ ''1m'', esc @ ''1m'' @ esc @ ''41m'', color_reset]"

datatype color_mode = mode_always | mode_automatic | mode_never

definition set_color_mode :: "bool \<Rightarrow> bool \<Rightarrow> color_mode \<Rightarrow> bool" where
  "set_color_mode in_terminal is_color_terminal mode =
     (case mode of mode_always \<Rightarrow> True | mode_automatic \<Rightarrow> in_terminal \<and> is_color_terminal | mode_never \<Rightarrow> False)"

text \<open>What is done to the stream of the console, in order.\<close>

datatype stream_op = Fwrite string | Fflush

text \<open>A range of the formatted line; reading beyond it, or a negative length, is undefined.\<close>

definition print_range :: "string \<Rightarrow> nat \<Rightarrow> nat \<Rightarrow> stream_op option" where
  "print_range formatted start stop =
     (if start \<le> stop \<and> stop \<le> length formatted then Some (Fwrite (take (stop - start) (drop start formatted))) else None)"

definition print_ccode :: "string \<Rightarrow> stream_op" where
  "print_ccode color_code = Fwrite color_code"

definition ansicolor_log ::
    "os_env \<Rightarrow> bool \<Rightarrow> pattern_formatter \<Rightarrow> log_msg \<Rightarrow> (pattern_formatter \<times> stream_op list) option" where
  "ansicolor_log env should_do_colors p msg = do {
     (p', msg', formatted) \<leftarrow> pattern_format env p (msg\<lparr>color_range_start := 0, color_range_end := 0\<rparr>) [];
     (if should_do_colors \<and> color_range_end msg' > color_range_start msg' then do {
        a \<leftarrow> print_range formatted 0 (color_range_start msg');
        color \<leftarrow> array_at colors (int (level_num (msg_level msg')));
        b \<leftarrow> print_range formatted (color_range_start msg') (color_range_end msg');
        c \<leftarrow> print_range formatted (color_range_end msg') (length formatted);
        Some (p', [a, print_ccode color, b, print_ccode color_reset, c, Fflush])
      }
      else do { a \<leftarrow> print_range formatted 0 (length formatted); Some (p', [a, Fflush]) })
   }"

section \<open>Configuration\<close>

record config =
  cfg_threads :: int
  cfg_simd_lanes :: int
  cfg_frontend :: string
  cfg_log_file :: string
  cfg_log_utc :: bool
  cfg_log_tid :: bool
  cfg_log_cpu :: bool

definition default_config :: config where
  "default_config = \<lparr>cfg_threads = 4, cfg_simd_lanes = 4, cfg_frontend = ''tcp://*:5555'',
     cfg_log_file = ''range_pricer.log'', cfg_log_utc = True, cfg_log_tid = True, cfg_log_cpu = True\<rparr>"

text \<open>The flags of the server, and the validator of \<open>--threads\<close>.\<close>

record server_flags =
  FLAGS_threads :: int
  FLAGS_simd_lanes :: int
  FLAGS_frontend :: string
  FLAGS_log_file :: string
  FLAGS_log_utc :: bool
  FLAGS_log_tid :: bool
  FLAGS_log_cpu :: bool

definition default_server_flags :: server_flags where
  "default_server_flags = \<lparr>FLAGS_threads = 4, FLAGS_simd_lanes = 4, FLAGS_frontend = ''tcp://*:5555'',
     FLAGS_log_file = ''range_pricer.log'', FLAGS_log_utc = True, FLAGS_log_tid = True, FLAGS_log_cpu = True\<rparr>"

definition validate_threads :: "int \<Rightarrow> bool" where
  "validate_threads val \<longleftrightarrow> 1 \<le> val"

definition config_from_flags :: "server_flags \<Rightarrow> config" where
  "config_from_flags f = \<lparr>cfg_threads = FLAGS_threads f, cfg_simd_lanes = FLAGS_simd_lanes f,
     cfg_frontend = FLAGS_frontend f, cfg_log_file = FLAGS_log_file f, cfg_log_utc = FLAGS_log_utc f,
     cfg_log_tid = FLAGS_log_tid f, cfg_log_cpu = FLAGS_log_cpu f\<rparr>"

text \<open>\<open>main\<close> up to \<open>run_server\<close>: the logger it installs last, and the configuration it runs with.\<close>

definition main_setup :: "int \<Rightarrow> string \<Rightarrow> server_flags \<Rightarrow> logger \<times> config" where
  "main_setup now eol f =
     (let cfg = config_from_flags f
      in (setup_logger now eol (cfg_log_file cfg) (cfg_log_utc cfg) (cfg_log_tid cfg) (cfg_log_cpu cfg), cfg))"

end
