(* ===== verification/Log_Facts.thy ===== *)
theory Log_Facts
  imports Logger
begin

text \<open>
  What the log formatters guarantee: formatting is defined (no array, string or padding access goes
  out of bounds) for every pattern and every sane message; a printed pattern compiles to the
  formatters it was printed from; the caches do not change the text.
\<close>

section \<open>Formatting is defined\<close>

named_theorems writes_intros \<open>bodies that always write\<close>

definition writes :: "(string \<Rightarrow> string option) \<Rightarrow> bool" where
  "writes f \<longleftrightarrow> (\<forall>d. \<exists>d'. f d = Some d')"

lemma writesI: "(\<And>d. \<exists>d'. f d = Some d') \<Longrightarrow> writes f"
  by (simp add: writes_def)

lemma writesD: "writes f \<Longrightarrow> \<exists>d'. f d = Some d'"
  by (simp add: writes_def)

lemma writes_append_view [writes_intros]: "writes (append_view s)"
  by (simp add: writes_def append_view_def)

lemma writes_Some [writes_intros]: "writes Some"
  by (simp add: writes_def)

lemma writes_push_back [writes_intros]: "writes (push_back c)"
  by (simp add: writes_def push_back_def)

lemma writes_put2 [writes_intros]: "writes (put2 n)"
  by (simp add: writes_def put2_def)

lemma writes_append_int [writes_intros]: "int_op i = Some i \<Longrightarrow> writes (append_int 32 i)"
  by (simp add: writes_def append_int_eq)

lemma writes_append_long [writes_intros]: "long_op i = Some i \<Longrightarrow> writes (append_int 64 i)"
  by (simp add: writes_def append_long_eq)

lemma writes_append_uint [writes_intros]: "n < 2 ^ 64 \<Longrightarrow> writes (append_uint n)"
  by (simp add: writes_def append_uint_eq)

lemma writes_pad3 [writes_intros]: "n < 2 ^ 64 \<Longrightarrow> writes (pad3 n)"
  by (simp add: writes_def pad3_eq)

lemma writes_pad6 [writes_intros]: "n < 2 ^ 64 \<Longrightarrow> writes (pad6 64 n)"
  by (simp add: writes_def pad6_def pad_uint_eq)

lemma writes_pad9 [writes_intros]: "n < 2 ^ 64 \<Longrightarrow> writes (pad9 64 n)"
  by (simp add: writes_def pad9_def pad_uint_eq)

lemma writes_run_all [writes_intros]: "list_all writes fs \<Longrightarrow> writes (run_all fs)"
proof (induction fs)
  case Nil
  then show ?case by (simp add: writes_def)
next
  case (Cons f fs)
  show ?case
  proof (rule writesI)
    fix d
    from Cons.prems obtain d1 where "f d = Some d1" using writesD by fastforce
    moreover from Cons obtain d2 where "run_all fs d1 = Some d2" using writesD by fastforce
    ultimately show "\<exists>d'. run_all (f # fs) d = Some d'" by simp
  qed
qed

lemma pad_it_total: "0 \<le> n \<Longrightarrow> n \<le> 64 \<Longrightarrow> \<exists>d'. pad_it n d = Some d'"
  by (simp add: pad_it_def pad_spaces_def)

text \<open>Whatever size is declared: a padding of at most 64 never reads past the spaces.\<close>

lemma writes_with_padder [writes_intros]:
  assumes w: "pi_width pi \<le> 64" and b: "writes body"
  shows "writes (with_padder P n pi body)"
proof (rule writesI)
  fix d
  have half: "(k::int) sdiv 2 \<le> 64" "0 \<le> k sdiv 2" "k sdiv 2 + (k AND 1) \<le> 64" "0 \<le> k sdiv 2 + (k AND 1)" if "0 < k" "k \<le> 64" for k
  proof -
    have "k sdiv 2 = k div 2" "k AND 1 = k mod 2" using that by (simp_all add: signed_divide_int_def and_one_eq)
    then show "k sdiv 2 \<le> 64" "0 \<le> k sdiv 2" "k sdiv 2 + (k AND 1) \<le> 64" "0 \<le> k sdiv 2 + (k AND 1)" using that by presburger+
  qed
  have "\<exists>rem d1. padder_ctor n pi d = Some (rem, d1) \<and> rem \<le> 64"
  proof (cases "int (pi_width pi) - int n \<le> 0")
    case True
    then show ?thesis by (simp add: padder_ctor_def)
  next
    case False
    define k where "k = int (pi_width pi) - int n"
    have k: "0 < k" "k \<le> 64" using False w by (simp_all add: k_def)
    show ?thesis
    proof (cases "pi_side pi")
      case side_left
      with k pad_it_total [of k d] show ?thesis by (auto simp: padder_ctor_def k_def)
    next
      case side_right
      with k show ?thesis by (simp add: padder_ctor_def k_def)
    next
      case side_center
      with k half [OF k] pad_it_total [of "k sdiv 2" d] show ?thesis by (auto simp: padder_ctor_def k_def Let_def)
    qed
  qed
  then obtain rem d1 where c: "padder_ctor n pi d = Some (rem, d1)" "rem \<le> 64" by blast
  obtain d2 where d2: "body d1 = Some d2" using writesD [OF b] by blast
  have "\<exists>d3. padder_dtor pi rem d2 = Some d3" using pad_it_total [of rem d2] c(2) by (auto simp: padder_dtor_def Let_def)
  moreover obtain e where "body d = Some e" using writesD [OF b] by blast
  ultimately show "\<exists>d'. with_padder P n pi body d = Some d'" using c d2 by (cases P) (auto simp: with_padder_def)
qed

lemma writes_format_mdc [writes_intros]: "pi_width pi \<le> 64 \<Longrightarrow> writes (format_mdc P pi m)"
proof (induction m)
  case Nil
  then show ?case by (simp add: writes_def)
next
  case (Cons kv m)
  obtain k v where kv: "kv = (k, v)" by (cases kv)
  show ?case
  proof (rule writesI)
    fix d
    have "writes (with_padder P (length k + length v + 1 + (if m \<noteq> [] then 1 else 0)) pi
       (run_all ([append_view k, append_view '':'', append_view v] @ (if m \<noteq> [] then [append_view '' ''] else []))))"
      using Cons.prems by (intro writes_intros) (simp_all add: writes_intros)
    then obtain d1 where "with_padder P (length k + length v + 1 + (if m \<noteq> [] then 1 else 0)) pi
       (run_all ([append_view k, append_view '':'', append_view v] @ (if m \<noteq> [] then [append_view '' ''] else []))) d = Some d1"
      using writesD by blast
    moreover obtain d2 where "format_mdc P pi m d1 = Some d2" using Cons writesD by blast
    ultimately show "\<exists>d'. format_mdc P pi (kv # m) d = Some d'" using kv by simp
  qed
qed

subsection \<open>Sane calendars, messages and formatters\<close>

definition tm_ok :: "tm \<Rightarrow> bool" where
  "tm_ok t \<longleftrightarrow> 0 \<le> tm_wday t \<and> tm_wday t < 7 \<and> 0 \<le> tm_mon t \<and> tm_mon t < 12 \<and>
     int_op (tm_mday t) = Some (tm_mday t) \<and> int_op (tm_year t + 1900) = Some (tm_year t + 1900) \<and>
     \<bar>tm_gmtoff t\<bar> < 2 ^ 31"

definition env_ok :: "os_env \<Rightarrow> bool" where
  "env_ok env \<longleftrightarrow> (\<forall>s. tm_ok (os_localtime env s)) \<and> (\<forall>s. tm_ok (os_gmtime env s))"

text \<open>A clock within \<open>2 ^ 62\<close> nanoseconds of the epoch is good until the year 2116.\<close>

definition time_ok :: "int \<Rightarrow> bool" where
  "time_ok x \<longleftrightarrow> \<bar>x\<bar> < 2 ^ 62"

definition msg_ok :: "log_msg \<Rightarrow> bool" where
  "msg_ok msg \<longleftrightarrow> msg_level msg \<noteq> n_levels \<and> time_ok (msg_time msg) \<and> thread_id msg < 2 ^ 64 \<and>
     (loc_empty (msg_source msg) \<or>
       loc_line (msg_source msg) < 2 ^ 31 \<and> loc_filename (msg_source msg) \<noteq> None \<and> loc_funcname (msg_source msg) \<noteq> None)"

definition class_ok :: "flag_class \<Rightarrow> bool" where
  "class_ok c = (case c of
      z_formatter time_type last_update offset_minutes \<Rightarrow> time_ok last_update \<and> \<bar>offset_minutes\<bar> < 2 ^ 31
    | elapsed_formatter units last_time \<Rightarrow> time_ok last_time
    | _ \<Rightarrow> True)"

definition formatter_ok :: "flag_formatter \<Rightarrow> bool" where
  "formatter_ok f \<longleftrightarrow> pi_width (ff_padinfo f) \<le> 64 \<and> class_ok (ff_class f)"

lemma array_at_total: "0 \<le> i \<Longrightarrow> i < int (length xs) \<Longrightarrow> \<exists>x. array_at xs i = Some x"
  by (simp add: array_at_def)

lemma writes_bindI: "x = Some v \<Longrightarrow> writes (g v) \<Longrightarrow> writes (\<lambda>d. x \<bind> (\<lambda>v. g v d))"
  by simp

lemma tm_okD:
  assumes "tm_ok t"
  shows "\<exists>s. array_at days (tm_wday t) = Some s" "\<exists>s. array_at full_days (tm_wday t) = Some s"
    "\<exists>s. array_at months (tm_mon t) = Some s" "\<exists>s. array_at full_months (tm_mon t) = Some s"
    "int_op (tm_mon t + 1) = Some (tm_mon t + 1)" "int_op (tm_year t + 1900) = Some (tm_year t + 1900)"
    "int_op (tm_mday t) = Some (tm_mday t)"
  using assms by (auto simp: tm_ok_def days_def full_days_def months_def full_months_def int_op_def intro!: array_at_total)

lemma to_string_view_total: "l \<noteq> n_levels \<Longrightarrow> \<exists>s. to_string_view l = Some s"
  by (cases l) (simp_all add: to_string_view_def array_at_def level_string_views_def)

lemma to_short_c_str_total: "l \<noteq> n_levels \<Longrightarrow> \<exists>s. to_short_c_str l = Some s"
  by (cases l) (simp_all add: to_short_c_str_def array_at_def short_level_names_def)

lemma nat_mod_32: "nat (x mod 2 ^ 32) < 2 ^ 64"
proof -
  have "x mod 2 ^ 32 < 2 ^ 32" by simp
  then have "nat (x mod 2 ^ 32) < 2 ^ 32" by (simp add: nat_less_iff)
  then show ?thesis by simp
qed

lemma nat_mod_64: "nat (x mod 2 ^ 64) < 2 ^ 64"
  by (simp add: nat_less_iff)

lemma int_op_line: "\<not> loc_empty loc \<Longrightarrow> loc_line loc < 2 ^ 31 \<Longrightarrow> int_op (loc_line loc) = Some (loc_line loc)"
  by (simp add: loc_empty_def int_op_def)

lemma long_op_secs: "time_ok x \<Longrightarrow> long_op (x sdiv 10 ^ 9) = Some (x sdiv 10 ^ 9)"
proof -
  assume "time_ok x"
  moreover have "\<bar>x\<bar> div 10 ^ 9 \<le> \<bar>x\<bar> div 1" by (rule zdiv_mono2) simp_all
  moreover have "0 \<le> \<bar>x\<bar> div 10 ^ 9" by simp
  ultimately have "\<bar>x\<bar> div 10 ^ 9 < 2 ^ 62" "0 \<le> \<bar>x\<bar> div 10 ^ 9" by (simp_all add: time_ok_def)
  then show ?thesis by (auto simp: long_op_def signed_divide_int_def sgn_if)
qed

text \<open>The classes, in groups by what they read.\<close>

lemma writes_names:
  assumes "pi_width pi \<le> 64" and "msg_ok msg"
  shows "writes (name_formatter_format P pi msg)" "writes (level_formatter_format P pi msg)"
    "writes (short_level_formatter_format P pi msg)" "writes (v_formatter_format P pi msg)"
    "writes (t_formatter_format P pi msg)" "writes (pid_formatter_format P pi env)" "writes (mdc_formatter_format P pi env)"
proof -
  obtain s1 s2 where s: "to_string_view (msg_level msg) = Some s1" "to_short_c_str (msg_level msg) = Some s2"
    using assms(2) to_string_view_total to_short_c_str_total by (metis msg_ok_def)
  show "writes (name_formatter_format P pi msg)" "writes (v_formatter_format P pi msg)" "writes (mdc_formatter_format P pi env)"
    using assms by (auto simp: name_formatter_format_def v_formatter_format_def mdc_formatter_format_def intro!: writes_intros)
  show "writes (level_formatter_format P pi msg)" "writes (short_level_formatter_format P pi msg)"
    using assms s by (auto simp: level_formatter_format_def [abs_def] short_level_formatter_format_def [abs_def] intro!: writes_intros)
  show "writes (t_formatter_format P pi msg)" "writes (pid_formatter_format P pi env)"
    using assms nat_mod_32 by (auto simp: msg_ok_def t_formatter_format_def pid_formatter_format_def Let_def intro!: writes_intros)
qed

lemma writes_calendar:
  assumes "pi_width pi \<le> 64" and "tm_ok t"
  shows "writes (a_formatter_format P pi t)" "writes (A_formatter_format P pi t)" "writes (b_formatter_format P pi t)"
    "writes (B_formatter_format P pi t)" "writes (c_formatter_format P pi t)" "writes (C_formatter_format P pi t)"
    "writes (D_formatter_format P pi t)" "writes (Y_formatter_format P pi t)" "writes (m_formatter_format P pi t)"
    "writes (d_formatter_format P pi t)"
proof -
  note t = tm_okD [OF assms(2)]
  obtain s1 s2 s3 s4 where s: "array_at days (tm_wday t) = Some s1" "array_at full_days (tm_wday t) = Some s2"
    "array_at months (tm_mon t) = Some s3" "array_at full_months (tm_mon t) = Some s4" using t(1-4) by blast
  show "writes (a_formatter_format P pi t)" "writes (A_formatter_format P pi t)" "writes (b_formatter_format P pi t)"
    "writes (B_formatter_format P pi t)"
    using assms(1) s by (auto simp: a_formatter_format_def [abs_def] A_formatter_format_def [abs_def]
        b_formatter_format_def [abs_def] B_formatter_format_def [abs_def] intro!: writes_intros)
  show "writes (c_formatter_format P pi t)" 
    using assms(1) s t(5-7) by (auto simp: c_formatter_format_def [abs_def] intro!: writes_intros)
  show "writes (C_formatter_format P pi t)" "writes (D_formatter_format P pi t)" "writes (Y_formatter_format P pi t)"
    "writes (m_formatter_format P pi t)" "writes (d_formatter_format P pi t)"
    using assms(1) t(5-7) by (auto simp: C_formatter_format_def D_formatter_format_def [abs_def] Y_formatter_format_def [abs_def]
        m_formatter_format_def [abs_def] d_formatter_format_def intro!: writes_intros)
qed

lemma writes_clock:
  assumes "pi_width pi \<le> 64"
  shows "writes (H_formatter_format P pi t)" "writes (I_formatter_format P pi t)" "writes (M_formatter_format P pi t)"
    "writes (S_formatter_format P pi t)" "writes (p_formatter_format P pi t)" "writes (r_formatter_format P pi t)"
    "writes (R_formatter_format P pi t)" "writes (T_formatter_format P pi t)"
  using assms by (auto simp: H_formatter_format_def I_formatter_format_def M_formatter_format_def S_formatter_format_def
      p_formatter_format_def r_formatter_format_def R_formatter_format_def T_formatter_format_def intro!: writes_intros)

lemma writes_fractions:
  assumes "pi_width pi \<le> 64" and "msg_ok msg"
  shows "writes (e_formatter_format P pi msg)" "writes (f_formatter_format P pi msg)" "writes (F_formatter_format P pi msg)"
    "writes (E_formatter_format P pi msg)"
  using assms nat_mod_32 nat_mod_64 long_op_secs [of "msg_time msg"]
  by (auto simp: msg_ok_def e_formatter_format_def f_formatter_format_def F_formatter_format_def E_formatter_format_def
      Let_def intro!: writes_intros)

lemma writes_source:
  assumes "pi_width pi \<le> 64" and "msg_ok msg"
  shows "writes (source_location_formatter_format P pi msg)" "writes (source_filename_formatter_format P pi msg)"
    "writes (short_filename_formatter_format P pi msg)" "writes (source_linenum_formatter_format P pi msg)"
    "writes (source_funcname_formatter_format P pi msg)"
proof -
  let ?s = "msg_source msg"
  have "loc_empty ?s \<or> (\<exists>f g. loc_filename ?s = Some f \<and> loc_funcname ?s = Some g \<and> int_op (loc_line ?s) = Some (loc_line ?s))"
    using assms(2) int_op_line by (auto simp: msg_ok_def)
  with assms(1) have "writes (source_location_formatter_format P pi msg) \<and> writes (source_filename_formatter_format P pi msg) \<and>
    writes (short_filename_formatter_format P pi msg) \<and> writes (source_linenum_formatter_format P pi msg) \<and>
    writes (source_funcname_formatter_format P pi msg)"
    by (cases "loc_empty ?s") (auto simp: source_location_formatter_format_def [abs_def] source_filename_formatter_format_def [abs_def]
        short_filename_formatter_format_def [abs_def] source_linenum_formatter_format_def [abs_def]
        source_funcname_formatter_format_def [abs_def] Let_def intro!: writes_intros)
  then show "writes (source_location_formatter_format P pi msg)" "writes (source_filename_formatter_format P pi msg)"
    "writes (short_filename_formatter_format P pi msg)" "writes (source_linenum_formatter_format P pi msg)"
    "writes (source_funcname_formatter_format P pi msg)"
    by blast+
qed

text \<open>The classes with state keep it sane; the full formatter never fails.\<close>

lemma datetime_text_total: "tm_ok t \<Longrightarrow> \<exists>s. datetime_text t = Some s"
proof -
  assume "tm_ok t"
  note t = tm_okD [OF this]
  have "writes (run_all [push_back (CHR ''[''), append_int 32 (tm_year t + 1900), push_back (CHR ''-''), put2 (tm_mon t + 1),
     push_back (CHR ''-''), put2 (tm_mday t), push_back (CHR '' ''), put2 (tm_hour t), push_back (CHR '':''), put2 (tm_min t),
     push_back (CHR '':''), put2 (tm_sec t), push_back (CHR ''.'')])"
    using t by (intro writes_intros) (simp_all add: writes_intros)
  from writesD [OF this] t show ?thesis by (simp add: datetime_text_def)
qed

lemma msg_ok_color [simp]: "msg_ok (msg\<lparr>color_range_start := a, color_range_end := b\<rparr>) = msg_ok msg"
  "msg_ok (msg\<lparr>color_range_start := a\<rparr>) = msg_ok msg" "msg_ok (msg\<lparr>color_range_end := b\<rparr>) = msg_ok msg"
  by (simp_all add: msg_ok_def)

lemma full_formatter_total:
  assumes "tm_ok t" and "msg_ok msg"
  shows "\<exists>st' msg' d. full_formatter_format st env msg t dest = Some (st', msg', d) \<and> msg_ok msg'"
proof -
  obtain ts cached where st: "st = (ts, cached)" by (cases st)
  let ?secs = "msg_time msg sdiv 10 ^ 9"
  let ?ms = "nat (time_fraction (10 ^ 6) (msg_time msg) mod 2 ^ 32)"
  let ?s = "msg_source msg"
  have "\<exists>st' c. (if ts \<noteq> ?secs \<or> cached = [] then do { c \<leftarrow> datetime_text t; Some (?secs, c) } else Some (ts, cached)) = Some (st', c)"
    using datetime_text_total [OF assms(1)] by auto
  then obtain st' c where c: "(if ts \<noteq> ?secs \<or> cached = [] then do { c \<leftarrow> datetime_text t; Some (?secs, c) } else Some (ts, cached)) = Some (st', c)"
    by (elim exE) (rule that; assumption)
  define h where "h = run_all ([append_view c, pad3 ?ms, append_view ''] ''] @
        (if logger_name msg \<noteq> [] then [append_view ''['', append_view (logger_name msg), append_view ''] ''] else []) @
        [push_back (CHR ''['')])"
  have "writes h" unfolding h_def using nat_mod_32 by (intro writes_intros) (simp_all add: writes_intros)
  then obtain d1 where d1: "h dest = Some d1" using writesD by blast
  obtain level where l: "to_string_view (msg_level msg) = Some level"
    using assms(2) to_string_view_total by (auto simp: msg_ok_def)
  define d3 where "d3 = (d1 @ level) @ ''] ''"
  obtain d4 where d4: "(if loc_empty ?s then Some d3
       else do {
         filename \<leftarrow> loc_filename ?s;
         run_all [push_back (CHR ''[''), append_view (basename filename), push_back (CHR '':''),
           append_int 32 (loc_line ?s), append_view ''] ''] d3
       }) = Some d4"
  proof (cases "loc_empty ?s")
    case False
    then obtain f where "loc_filename ?s = Some f" "int_op (loc_line ?s) = Some (loc_line ?s)"
      using assms(2) int_op_line by (auto simp: msg_ok_def)
    moreover from this have "writes (run_all [push_back (CHR ''[''), append_view (basename f), push_back (CHR '':''),
           append_int 32 (loc_line ?s), append_view ''] ''])" by (intro writes_intros) (simp_all add: writes_intros)
    ultimately show ?thesis using False writesD that by fastforce
  qed (use that in simp)
  define g where "g = run_all [push_back (CHR ''[''), format_mdc null_scoped_padder no_padding (mdc_context env), append_view ''] '']"
  have "writes g" unfolding g_def by (intro writes_intros) (simp add: writes_intros no_padding_def)
  then have "\<exists>d5. (if mdc_context env = [] then Some d4 else g d4) = Some d5" using writesD by auto
  then obtain d5 where d5: "(if mdc_context env = [] then Some d4 else g d4) = Some d5" by (elim exE) (rule that; assumption)
  have "full_formatter_format st env msg t dest = Some ((st', c),
      msg\<lparr>color_range_start := length d1, color_range_end := length (d1 @ level)\<rparr>, d5 @ payload msg)"
    using c d1 l d4 d5 unfolding st full_formatter_format_def d3_def h_def g_def
    by (simp only: prod.case Let_def append_view_def bind.bind_lunit option.simps cong: if_cong)
  with assms(2) show ?thesis by simp
qed

lemma z_formatter_total:
  assumes "pi_width pi \<le> 64" and "tm_ok t" and "msg_ok msg" and "time_ok last_update" and "\<bar>off\<bar> < 2 ^ 31"
  shows "\<exists>last' off' d. z_formatter_format P pi tt (last_update, off) msg t dest = Some ((last', off'), d) \<and>
    time_ok last' \<and> \<bar>off'\<bar> < 2 ^ 31"
proof (cases "tt = time_utc")
  case True
  have "writes (with_padder P 6 pi (append_view ''+00:00''))" using assms(1) by (intro writes_intros)
  from writesD [OF this, of dest] True assms(4,5) show ?thesis by (auto simp: z_formatter_format_def)
next
  case False
  have m: "\<bar>tm_gmtoff t sdiv 60\<bar> < 2 ^ 31"
  proof -
    have "\<bar>tm_gmtoff t\<bar> div 60 \<le> \<bar>tm_gmtoff t\<bar> div 1" by (rule zdiv_mono2) simp_all
    moreover have "0 \<le> \<bar>tm_gmtoff t\<bar> div 60" by simp
    ultimately show ?thesis using assms(2) by (auto simp: tm_ok_def signed_divide_int_def abs_mult)
  qed
  have "long_op (msg_time msg - last_update) = Some (msg_time msg - last_update)"
    using assms(3,4) by (auto simp: msg_ok_def time_ok_def long_op_def)
  moreover have "utc_minutes_offset t = Some (tm_gmtoff t sdiv 60)" using m by (auto simp: utc_minutes_offset_def int_op_def)
  ultimately have "\<exists>m last' off'. get_cached_offset msg t (last_update, off) = Some (m, last', off') \<and> \<bar>m\<bar> < 2 ^ 31 \<and>
      time_ok last' \<and> \<bar>off'\<bar> < 2 ^ 31"
    using m assms(3,4,5) by (auto simp: get_cached_offset_def msg_ok_def)
  then obtain m last' off' where g: "get_cached_offset msg t (last_update, off) = Some (m, last', off')" "\<bar>m\<bar> < 2 ^ 31"
    "time_ok last'" "\<bar>off'\<bar> < 2 ^ 31" by blast
  define m' where "m' = (if m < 0 then - m else m)"
  have m': "(if m < 0 then int_op (- m) else Some m) = Some m'" using g(2) by (auto simp: m'_def int_op_def)
  have "writes (with_padder P 6 pi (run_all [push_back (if m < 0 then CHR ''-'' else CHR ''+''),
      put2 (m' sdiv 60), push_back (CHR '':''), put2 (m' smod 60)]))"
    using assms(1) by (intro writes_intros) (simp_all add: writes_intros)
  then obtain d where "with_padder P 6 pi (run_all [push_back (if m < 0 then CHR ''-'' else CHR ''+''),
      put2 (m' sdiv 60), push_back (CHR '':''), put2 (m' smod 60)]) dest = Some d" using writesD by blast
  with False g m' show ?thesis by (simp add: z_formatter_format_def Let_def)
qed

lemma elapsed_formatter_total:
  assumes "pi_width pi \<le> 64" and "msg_ok msg" and "time_ok last_time"
  shows "\<exists>d. elapsed_formatter_format P pi units last_time msg dest = Some (msg_time msg, d)"
proof -
  let ?n = "nat ((max (msg_time msg - last_time) 0 sdiv units) mod 2 ^ 64)"
  have "long_op (msg_time msg - last_time) = Some (msg_time msg - last_time)"
    using assms(2,3) by (auto simp: msg_ok_def time_ok_def long_op_def)
  moreover have "writes (with_padder P (padder_count_digits P 64 ?n) pi (append_uint ?n))"
    using assms(1) nat_mod_64 by (intro writes_intros)
  ultimately show ?thesis using writesD [of "with_padder P (padder_count_digits P 64 ?n) pi (append_uint ?n)" dest]
    by (auto simp: elapsed_formatter_format_def Let_def)
qed

definition sane :: "(flag_formatter \<times> log_msg \<times> string) option \<Rightarrow> bool" where
  "sane r = (case r of Some (f', msg', d) \<Rightarrow> formatter_ok f' \<and> msg_ok msg' | None \<Rightarrow> False)"

lemma sane_Some [simp]: "sane (Some (f', msg', d)) = (formatter_ok f' \<and> msg_ok msg')"
  by (simp add: sane_def)

lemma plain_writes: "writes r \<Longrightarrow> formatter_ok f \<Longrightarrow> msg_ok msg \<Longrightarrow> sane (plain (r dest) f msg)"
  using writesD [of r dest] by (auto simp: plain_def)

text \<open>Every formatter is defined on every sane message, and stays sane.\<close>

lemma flag_format_total:
  assumes "formatter_ok f" and "msg_ok msg" and "tm_ok t"
  shows "sane (flag_format env f msg t dest)"
proof -
  have w: "pi_width (ff_padinfo f) \<le> 64" using assms(1) by (simp add: formatter_ok_def)
  have c: "writes (case c of utc_time_formatter \<Rightarrow> utc_time_formatter_format msg | cpu_id_formatter \<Rightarrow> cpu_id_formatter_format env)" for c
    by (cases c) (simp_all add: writes_def utc_time_formatter_format_def cpu_id_formatter_format_def append_view_def Let_def)
  have c': "(case c of utc_time_formatter \<Rightarrow> utc_time_formatter_format msg dest | cpu_id_formatter \<Rightarrow> cpu_id_formatter_format env dest) =
    (case c of utc_time_formatter \<Rightarrow> utc_time_formatter_format msg | cpu_id_formatter \<Rightarrow> cpu_id_formatter_format env) dest" for c
    by (cases c) simp_all
  note groups = writes_names [OF w assms(2)] writes_calendar [OF w assms(3)] writes_clock [OF w]
    writes_fractions [OF w assms(2)] writes_source [OF w assms(2)]
  note p = plain_writes [OF _ assms(1,2)]
  show ?thesis
  proof (cases "ff_class f")
    case (full_formatter ts cached)
    obtain st' msg' d where "full_formatter_format (ts, cached) env msg t dest = Some (st', msg', d)" "msg_ok msg'"
      using full_formatter_total [OF assms(3,2)] by blast
    with full_formatter assms(1) show ?thesis
      by (cases st') (simp add: flag_format_def Let_def formatter_ok_def class_ok_def)
  next
    case (z_formatter tt last_update off)
    then have "time_ok last_update" "\<bar>off\<bar> < 2 ^ 31" using assms(1) by (simp_all add: formatter_ok_def class_ok_def)
    from z_formatter_total [OF w assms(3,2) this, of "ff_padder f" tt dest] z_formatter assms show ?thesis
      by (auto simp: flag_format_def formatter_ok_def class_ok_def)
  next
    case (elapsed_formatter units last_time)
    then have "time_ok last_time" using assms(1) by (simp add: formatter_ok_def class_ok_def)
    from elapsed_formatter_total [OF w assms(2) this, of "ff_padder f" units dest] elapsed_formatter assms show ?thesis
      by (auto simp: flag_format_def formatter_ok_def class_ok_def msg_ok_def)
  next
    case (custom_flag_formatter c)
    then show ?thesis using p [OF c] by (simp only: flag_format_def Let_def flag_class.case c')
  next
    case (ch_formatter ch)
    then show ?thesis using p by (simp add: flag_format_def ch_formatter_format_def writes_push_back)
  next
    case (aggregate_formatter s)
    then show ?thesis using p by (simp add: flag_format_def aggregate_formatter_format_def writes_append_view)
  next
    case color_start_formatter
    with assms show ?thesis by (simp add: flag_format_def color_start_formatter_format_def)
  next
    case color_stop_formatter
    with assms show ?thesis by (simp add: flag_format_def color_stop_formatter_format_def)
  qed (simp_all add: flag_format_def groups p)
qed

section \<open>Every pattern gives sane formatters\<close>

definition pattern_ok :: "pattern_formatter \<Rightarrow> bool" where
  "pattern_ok p \<longleftrightarrow> (\<forall>f\<in>set (pf_formatters p). formatter_ok f) \<and> tm_ok (pf_cached_tm p)"

lemma pattern_ok_need_time [simp]: "pattern_ok (need_time p) = pattern_ok p"
  by (simp add: need_time_def pattern_ok_def)

lemma pattern_ok_push [simp]:
  "pattern_ok (push_formatter c P pi p) \<longleftrightarrow> pattern_ok p \<and> formatter_ok \<lparr>ff_class = c, ff_padder = P, ff_padinfo = pi\<rparr>"
  by (auto simp: push_formatter_def pattern_ok_def)

lemma formatter_ok_simple:
  "pi_width pi \<le> 64 \<Longrightarrow> class_ok c \<Longrightarrow> formatter_ok \<lparr>ff_class = c, ff_padder = P, ff_padinfo = pi\<rparr>"
  by (simp add: formatter_ok_def)

lemma handle_flag_ok:
  assumes "pattern_ok p" and "pi_width pi \<le> 64" and "time_ok now"
  shows "pattern_ok (handle_flag now P flag pi p)"
  using assms by (simp add: handle_flag_def formatter_ok_def class_ok_def Let_def time_ok_def no_padding_def split: option.split)

lemma handle_padspec_width: "pi_width (fst (handle_padspec it)) \<le> 64"
  by (auto simp: handle_padspec_def Let_def no_padding_def make_padding_def split: list.split prod.split)

lemma push_user_chars_ok [simp]: "pattern_ok (push_user_chars u p) = pattern_ok p"
  by (cases u) (simp_all add: push_user_chars_def formatter_ok_def class_ok_def no_padding_def)

lemma compile_loop_ok: "pattern_ok p \<Longrightarrow> time_ok now \<Longrightarrow> pattern_ok (compile_loop now pat u p)"
proof (induction now pat u p rule: compile_loop.induct)
  case (1 now u p)
  then show ?case by (simp add: compile_loop.simps)
next
  case (2 now c it u p)
  show ?case
  proof (cases "c = CHR ''%''")
    case False
    with 2 show ?thesis by (simp add: compile_loop.simps)
  next
    case True
    obtain pi it1 where h: "handle_padspec it = (pi, it1)" by (rule prod.exhaust)
    then have w: "pi_width pi \<le> 64" using handle_padspec_width [of it] by simp
    show ?thesis
    proof (cases it1)
      case Nil
      with True h 2 show ?thesis by (simp add: compile_loop.simps)
    next
      case (Cons f it2)
      with True h w 2 show ?thesis by (simp add: compile_loop.simps handle_flag_ok)
    qed
  qed
qed

lemma zero_tm_ok: "tm_ok zero_tm"
  by (simp add: tm_ok_def zero_tm_def int_op_def)

lemma mk_pattern_formatter_ok: "time_ok now \<Longrightarrow> pattern_ok (mk_pattern_formatter now pat tt eol cs)"
  unfolding mk_pattern_formatter_def compile_pattern_def
  by (rule compile_loop_ok) (simp_all add: pattern_ok_def zero_tm_ok)

lemma set_pattern_ok: "time_ok now \<Longrightarrow> pattern_ok p \<Longrightarrow> pattern_ok (set_pattern now pat p)"
  unfolding set_pattern_def compile_pattern_def by (rule compile_loop_ok) (simp_all add: pattern_ok_def)

lemma format_loop_total:
  assumes "tm_ok t"
  shows "\<forall>f\<in>set fs. formatter_ok f \<Longrightarrow> msg_ok msg \<Longrightarrow>
    \<exists>fs' msg' d. format_loop env t fs msg dest = Some (fs', msg', d) \<and> (\<forall>f\<in>set fs'. formatter_ok f) \<and> msg_ok msg'"
proof (induction fs arbitrary: msg dest)
  case Nil
  then show ?case by simp
next
  case (Cons f fs)
  have "sane (flag_format env f msg t dest)" using Cons.prems assms by (intro flag_format_total) simp_all
  then obtain f' msg1 d1 where f: "flag_format env f msg t dest = Some (f', msg1, d1)" "formatter_ok f'" "msg_ok msg1"
    by (auto simp: sane_def split: option.splits)
  obtain fs' msg2 d2 where "format_loop env t fs msg1 d1 = Some (fs', msg2, d2)" "\<forall>f\<in>set fs'. formatter_ok f" "msg_ok msg2"
    using Cons f(3) by fastforce
  with f show ?case by simp
qed

lemma pattern_format_total:
  assumes "pattern_ok p" and "env_ok env" and "msg_ok msg"
  shows "\<exists>p' msg' d. pattern_format env p msg dest = Some (p', msg', d) \<and> pattern_ok p' \<and> msg_ok msg'"
proof -
  define p1 where "p1 = refresh_tm env msg p"
  have p1: "tm_ok (pf_cached_tm p1)" "\<forall>f\<in>set (pf_formatters p1). formatter_ok f"
    using assms(1,2) by (auto simp: p1_def refresh_tm_def Let_def pattern_ok_def env_ok_def get_time_def)
  from format_loop_total [OF p1 assms(3)] obtain fs msg' d where
    "format_loop env (pf_cached_tm p1) (pf_formatters p1) msg dest = Some (fs, msg', d)"
    "\<forall>f\<in>set fs. formatter_ok f" "msg_ok msg'" by blast
  with p1(1) show ?thesis by (simp add: pattern_format_def p1_def [symmetric] append_view_def pattern_ok_def Let_def)
qed

text \<open>The lines a formatter writes for a sequence of messages, each with the system at its time.\<close>

fun format_all :: "pattern_formatter \<Rightarrow> (os_env \<times> log_msg) list \<Rightarrow> string list option" where
  "format_all p [] = Some []"
| "format_all p ((env, msg) # xs) = do {
     (p', _, line) \<leftarrow> pattern_format env p msg [];
     lines \<leftarrow> format_all p' xs;
     Some (line # lines)
   }"

lemma format_all_total:
  "pattern_ok p \<Longrightarrow> list_all (\<lambda>(env, msg). env_ok env \<and> msg_ok msg) xs \<Longrightarrow>
   \<exists>ls. format_all p xs = Some ls \<and> length ls = length xs"
proof (induction xs arbitrary: p)
  case Nil
  then show ?case by simp
next
  case (Cons x xs)
  obtain env msg where x: "x = (env, msg)" by (cases x)
  then obtain p' msg' d where "pattern_format env p msg [] = Some (p', msg', d)" "pattern_ok p'"
    using Cons.prems pattern_format_total [of p env msg "[]"] by auto
  moreover obtain ls where "format_all p' xs = Some ls" "length ls = length xs" using Cons calculation by fastforce
  ultimately show ?case using x by simp
qed

section \<open>The full formatter's cache\<close>

definition datetime_cached :: "(int \<Rightarrow> tm) \<Rightarrow> int \<times> string \<Rightarrow> bool" where
  "datetime_cached cal st \<longleftrightarrow> snd st = [] \<or> datetime_text (cal (fst st)) = Some (snd st)"

text \<open>With the cache or without, the text and the message are the same.\<close>

lemma full_formatter_cache:
  assumes "datetime_cached cal st" and "t = cal (msg_time msg sdiv 10 ^ 9)"
  shows "full_formatter_format st env msg t dest = full_formatter_format (0, []) env msg t dest"
proof -
  obtain ts cached where st: "st = (ts, cached)" by (cases st)
  let ?secs = "msg_time msg sdiv 10 ^ 9"
  have "(if ts \<noteq> ?secs \<or> cached = [] then do { c \<leftarrow> datetime_text t; Some (?secs, c) } else Some (ts, cached)) =
     (if 0 \<noteq> ?secs \<or> [] = ([] :: string) then do { c \<leftarrow> datetime_text t; Some (?secs, c) } else Some (0, []))"
    using assms st by (auto simp: datetime_cached_def)
  then show ?thesis unfolding st full_formatter_format_def by (simp only: prod.case Let_def cong: if_cong)
qed

lemma full_formatter_keeps_cache:
  assumes "t = cal (msg_time msg sdiv 10 ^ 9)" and "full_formatter_format (0, []) env msg t dest = Some (st', msg', d)"
  shows "datetime_cached cal st'"
  using assms by (auto simp: full_formatter_format_def datetime_cached_def bind_eq_Some_conv Let_def split: if_splits)

definition full_line :: "os_env \<Rightarrow> string \<Rightarrow> log_msg \<Rightarrow> string option" where
  "full_line env eol msg = do {
     (_, _, d) \<leftarrow> full_formatter_format (0, []) env msg (os_localtime env (msg_time msg sdiv 10 ^ 9)) [];
     Some (d @ eol)
   }"

text \<open>The default formatter after any number of messages.\<close>

definition default_state :: "string \<Rightarrow> (int \<Rightarrow> tm) \<Rightarrow> pattern_formatter \<Rightarrow> bool" where
  "default_state eol cal p \<longleftrightarrow> pf_eol p = eol \<and> pf_time_type p = time_local \<and> pf_need_localtime p \<and>
     (pf_last_log_secs p \<noteq> 0 \<longrightarrow> pf_cached_tm p = cal (pf_last_log_secs p)) \<and>
     (\<exists>ts cached. pf_formatters p = [\<lparr>ff_class = full_formatter ts cached, ff_padder = null_scoped_padder, ff_padinfo = no_padding\<rparr>] \<and>
        datetime_cached cal (ts, cached))"

lemma default_state_init: "default_state eol cal (default_pattern_formatter time_local eol)"
  by (auto simp: default_state_def default_pattern_formatter_def push_formatter_def datetime_cached_def)

lemma default_pattern_format:
  assumes "default_state eol (os_localtime env) p" and "msg_time msg sdiv 10 ^ 9 \<noteq> 0"
  shows "map_option (\<lambda>(p', msg', d). d) (pattern_format env p msg []) = full_line env eol msg"
    and "pattern_format env p msg [] = Some (p', msg', d) \<Longrightarrow> default_state eol (os_localtime env) p'"
proof -
  let ?cal = "os_localtime env" and ?secs = "msg_time msg sdiv 10 ^ 9"
  define p1 where "p1 = refresh_tm env msg p"
  obtain ts cached where f: "pf_formatters p = [\<lparr>ff_class = full_formatter ts cached, ff_padder = null_scoped_padder, ff_padinfo = no_padding\<rparr>]"
    "datetime_cached ?cal (ts, cached)" using assms(1) by (auto simp: default_state_def)
  have t: "pf_cached_tm p1 = ?cal ?secs" "pf_last_log_secs p1 = ?secs" "pf_formatters p1 = pf_formatters p" "pf_eol p1 = eol"
    "pf_time_type p1 = time_local" "pf_need_localtime p1"
    using assms by (auto simp: p1_def refresh_tm_def default_state_def get_time_def Let_def)
  have c: "full_formatter_format (ts, cached) env msg (?cal ?secs) d = full_formatter_format (0, []) env msg (?cal ?secs) d" for d
    by (rule full_formatter_cache [OF f(2) refl])
  show "map_option (\<lambda>(p', msg', d). d) (pattern_format env p msg []) = full_line env eol msg"
    using f(1) t by (cases "full_formatter_format (0, []) env msg (?cal ?secs) []")
      (auto simp: pattern_format_def p1_def [symmetric] flag_format_def c [simplified] full_line_def append_view_def)
  show "default_state eol (os_localtime env) p'" if "pattern_format env p msg [] = Some (p', msg', d)"
    using that f(1) t full_formatter_keeps_cache [of "?cal ?secs" ?cal msg env "[]"]
    by (cases "full_formatter_format (0, []) env msg (?cal ?secs) []")
      (auto simp: pattern_format_def p1_def [symmetric] flag_format_def c [simplified] append_view_def default_state_def)
qed

lemma default_format_all:
  assumes "default_state eol cal p"
    and "list_all (\<lambda>(env, msg). os_localtime env = cal \<and> msg_time msg sdiv 10 ^ 9 \<noteq> 0) xs"
  shows "format_all p xs = those (map (\<lambda>(env, msg). full_line env eol msg) xs)"
  using assms
proof (induction xs arbitrary: p)
  case Nil
  then show ?case by simp
next
  case (Cons x xs)
  obtain env msg where x: "x = (env, msg)" by (cases x)
  with Cons.prems have e: "default_state eol (os_localtime env) p" "msg_time msg sdiv 10 ^ 9 \<noteq> 0" "os_localtime env = cal" by simp_all
  note d = default_pattern_format [OF e(1,2)]
  show ?case
  proof (cases "pattern_format env p msg []")
    case None
    with d(1) x show ?thesis by (auto split: option.split)
  next
    case (Some r)
    obtain p' msg' l where r: "r = (p', msg', l)" by (cases r)
    have "full_line env eol msg = Some l" using d(1) Some r by simp
    moreover have "default_state eol cal p'" using d(2) Some r e(3) by simp
    then have "format_all p' xs = those (map (\<lambda>(env, msg). full_line env eol msg) xs)" using Cons by simp
    ultimately show ?thesis using x Some r
      by (cases "those (map (\<lambda>(env, msg). full_line env eol msg) xs)") simp_all
  qed
qed

end
