(* ===== verification/Pattern_Syntax.thy ===== *)
theory Pattern_Syntax
  imports Log_Facts
begin

text \<open>
  Patterns as lists of items, their text, and the compiler of \<open>pattern_formatter\<close> as its inverse;
  then the program's own pattern and the line it produces.
\<close>

section \<open>Items and their text\<close>

datatype pattern_item = Text string | Flag padding_info char

definition print_padding :: "padding_info \<Rightarrow> string" where
  "print_padding pi =
     (if \<not> pi_enabled pi then []
      else (case pi_side pi of side_left \<Rightarrow> [] | side_right \<Rightarrow> ''-'' | side_center \<Rightarrow> ''='') @
        digits (pi_width pi) @ (if pi_truncate pi then ''!'' else []))"

fun print_item :: "pattern_item \<Rightarrow> string" where
  "print_item (Text s) = s"
| "print_item (Flag pi c) = CHR ''%'' # print_padding pi @ [c]"

definition print_pattern :: "pattern_item list \<Rightarrow> string" where
  "print_pattern items = concat (map print_item items)"

definition flag_ok :: "padding_info \<Rightarrow> char \<Rightarrow> bool" where
  "flag_ok pi c \<longleftrightarrow> \<not> isdigit c \<and>
     (if pi_enabled pi then pi_width pi \<le> 64 \<and> (\<not> pi_truncate pi \<longrightarrow> c \<noteq> CHR ''!'')
      else pi = no_padding \<and> c \<noteq> CHR ''-'' \<and> c \<noteq> CHR ''='')"

fun items_ok :: "pattern_item list \<Rightarrow> bool" where
  "items_ok [] = True"
| "items_ok (Text s # items) =
     (s \<noteq> [] \<and> CHR ''%'' \<notin> set s \<and> (case items of Text _ # _ \<Rightarrow> False | _ \<Rightarrow> True) \<and> items_ok items)"
| "items_ok (Flag pi c # items) = (flag_ok pi c \<and> items_ok items)"

section \<open>Padding specifications\<close>

lemma of_digit_char_range: "d < 10 \<Longrightarrow> isdigit (digit_char d) \<and> (of_char (digit_char d) :: nat) - 48 = d"
  by (simp add: isdigit_def of_digit_char)

lemma isdigit_digits: "\<forall>c\<in>set (digits n). isdigit c"
proof (induction n rule: digits.induct)
  case (1 n)
  show ?case
  proof (cases "n < 10")
    case True
    then show ?thesis by (simp add: digits_1 of_digit_char_range)
  next
    case False
    with 1 show ?thesis by (subst digits.simps) (auto simp: of_digit_char_range)
  qed
qed

lemma digits_val_mono: "digits_val s \<le> digits_val (s @ t)"
proof (induction t rule: rev_induct)
  case Nil
  then show ?case by simp
next
  case (snoc c t)
  then show ?case using digits_val_snoc [of "s @ t" c] by simp
qed

text \<open>The loop reads a number without wrapping when the number fits.\<close>

lemma padspec_digits_read:
  assumes "\<forall>c\<in>set t. isdigit c" and "digits_val (s @ t) < 2 ^ 64" and "case r of [] \<Rightarrow> True | c # _ \<Rightarrow> \<not> isdigit c"
  shows "padspec_digits (digits_val s) (t @ r) = (digits_val (s @ t), r)"
  using assms(1,2)
proof (induction t arbitrary: s)
  case Nil
  with assms(3) show ?case by (cases r) simp_all
next
  case (Cons c t)
  have "digits_val (s @ [c]) \<le> digits_val ((s @ [c]) @ t)" by (rule digits_val_mono)
  then have "(digits_val s * 10 + (of_char c - 48)) mod 2 ^ 64 = digits_val (s @ [c])"
    using Cons.prems by (simp add: digits_val_snoc)
  with Cons.IH [of "s @ [c]"] Cons.prems show ?case by simp
qed

lemma padspec_number:
  assumes "n < 2 ^ 64" and "case r of [] \<Rightarrow> True | c # _ \<Rightarrow> \<not> isdigit c"
  obtains c t where "digits n = c # t" "isdigit c" "padspec_digits (of_char c - 48) (t @ r) = (n, r)"
proof -
  obtain c t where d: "digits n = c # t" by (cases "digits n") simp_all
  have "isdigit c" "\<forall>c\<in>set t. isdigit c" using isdigit_digits [of n] d by simp_all
  moreover have "digits_val [c] = of_char c - 48" by (simp add: digits_val_def)
  moreover have "digits_val ([c] @ t) = n" using digits_val_digits [of n] d by simp
  ultimately show ?thesis using that d padspec_digits_read [of t "[c]" r] assms by simp
qed

lemma isdigit_not: "isdigit c \<Longrightarrow> c \<noteq> CHR ''-'' \<and> c \<noteq> CHR ''='' \<and> c \<noteq> CHR ''!''"
  by (auto simp: isdigit_def)

text \<open>A printed specification is read back, up to the cut of the width at 64.\<close>

lemma handle_padspec_number:
  assumes "n < 2 ^ 64" and "\<not> isdigit c" and "\<not> trunc \<longrightarrow> c \<noteq> CHR ''!''"
  shows "handle_padspec (print_padding (make_padding n side trunc) @ c # r) =
    (make_padding (min n 64) side trunc, c # r)"
proof -
  define rest where "rest = (if trunc then ''!'' else []) @ c # r"
  have "case rest of [] \<Rightarrow> True | c # _ \<Rightarrow> \<not> isdigit c" using assms(2) by (simp add: rest_def isdigit_def)
  from padspec_number [OF assms(1) this] obtain d t where
    d: "digits n = d # t" "isdigit d" "padspec_digits (of_char d - 48) (t @ rest) = (n, rest)" by blast
  have e: "(case rest of [] \<Rightarrow> (False, []) | c # r \<Rightarrow> if c = CHR ''!'' then (True, r) else (False, rest)) = (trunc, c # r)"
    using assms(3) by (simp add: rest_def)
  have m: "isdigit (CHR ''-'') = False" "isdigit (CHR ''='') = False" by (simp_all add: isdigit_def)
  show ?thesis
    using d e isdigit_not [OF d(2)]
    by (cases side) (simp_all add: print_padding_def make_padding_def handle_padspec_def m flip: rest_def)
qed

lemma handle_padspec_print:
  assumes "flag_ok pi c"
  shows "handle_padspec (print_padding pi @ c # r) = (pi, c # r)"
proof (cases "pi_enabled pi")
  case True
  then have "pi = make_padding (pi_width pi) (pi_side pi) (pi_truncate pi)" by (simp add: make_padding_def)
  moreover have "min (pi_width pi) 64 = pi_width pi" "pi_width pi < 2 ^ 64" using assms True by (simp_all add: flag_ok_def)
  ultimately show ?thesis using handle_padspec_number [of "pi_width pi" c "pi_truncate pi" "pi_side pi" r] assms True
    by (simp add: flag_ok_def)
next
  case False
  with assms show ?thesis by (simp add: flag_ok_def print_padding_def handle_padspec_def)
qed

section \<open>Compiling the text of items\<close>

definition compile_item :: "int \<Rightarrow> pattern_item \<Rightarrow> pattern_formatter \<Rightarrow> pattern_formatter" where
  "compile_item now i p =
     (case i of Text s \<Rightarrow> push_formatter (aggregate_formatter s) null_scoped_padder no_padding p
      | Flag pi c \<Rightarrow> handle_flag now (if pi_enabled pi then scoped_padder else null_scoped_padder) c pi p)"

definition compile_items :: "int \<Rightarrow> pattern_item list \<Rightarrow> pattern_formatter \<Rightarrow> pattern_formatter" where
  "compile_items now items p = fold (compile_item now) items p"

lemma compile_text:
  "CHR ''%'' \<notin> set s \<Longrightarrow>
   compile_loop now (s @ r) u p = compile_loop now r (if s = [] then u else Some ((case u of None \<Rightarrow> [] | Some x \<Rightarrow> x) @ s)) p"
proof (induction s arbitrary: u)
  case Nil
  then show ?case by simp
next
  case (Cons c s)
  then have "c \<noteq> CHR ''%''" by auto
  with Cons show ?case by (simp add: compile_loop.simps)
qed

lemma compile_flag:
  "flag_ok pi c \<Longrightarrow> compile_loop now (print_item (Flag pi c) @ r) u p =
     compile_loop now r None (compile_item now (Flag pi c) (push_user_chars u p))"
  using handle_padspec_print [of pi c r] by (simp add: compile_loop.simps compile_item_def)

lemma compile_loop_items: "items_ok items \<Longrightarrow> compile_loop now (print_pattern items) None p = compile_items now items p"
proof (induction items arbitrary: p rule: items_ok.induct)
  case 1
  then show ?case by (simp add: print_pattern_def compile_loop.simps compile_items_def push_user_chars_def)
next
  case (2 s items)
  have "compile_loop now (print_pattern (Text s # items)) None p = compile_loop now (print_pattern items) (Some s) p"
    using 2 compile_text [of s now "print_pattern items" None p] by (simp add: print_pattern_def)
  also have "\<dots> = compile_loop now (print_pattern items) None (push_user_chars (Some s) p)"
  proof (cases items)
    case Nil
    then show ?thesis by (simp add: print_pattern_def compile_loop.simps push_user_chars_def)
  next
    case (Cons i is')
    with 2 obtain pi c where "i = Flag pi c" by (cases i) simp_all
    with Cons show ?thesis by (simp add: print_pattern_def compile_loop.simps push_user_chars_def)
  qed
  also have "\<dots> = compile_items now items (push_user_chars (Some s) p)" using 2 by simp
  finally show ?case by (simp add: compile_items_def compile_item_def push_user_chars_def)
next
  case (3 pi c items)
  then show ?case using compile_flag [of pi c now "print_pattern items" None p]
    by (simp add: print_pattern_def compile_items_def push_user_chars_def)
qed

lemma compile_print_pattern:
  "items_ok items \<Longrightarrow> compile_pattern now (print_pattern items) p = compile_items now items (p\<lparr>pf_formatters := []\<rparr>)"
  by (simp add: compile_pattern_def compile_loop_items)

section \<open>The program's pattern\<close>

definition bare :: "char \<Rightarrow> pattern_item" where
  "bare c = Flag no_padding c"

definition log_items :: "bool \<Rightarrow> bool \<Rightarrow> bool \<Rightarrow> pattern_item list" where
  "log_items utc tid cpu_id =
     (let tail1 = [bare (CHR ''^''), bare (CHR ''l''), bare (CHR ''$''), Text ''] '', bare (CHR ''v'')];
          tail2 = (if cpu_id then [Text ''] [cpu:'', bare (CHR ''q'')] else []) @ Text ''] ['' # tail1;
          tail3 = (if tid then [Text ''] [tid:'', bare (CHR ''t'')] else []) @ tail2;
          ts = (if utc then [bare (CHR ''*'')]
            else [bare (CHR ''Y''), Text ''-'', bare (CHR ''m''), Text ''-'', bare (CHR ''d''), Text '' '', bare (CHR ''H''),
                  Text '':'', bare (CHR ''M''), Text '':'', bare (CHR ''S''), Text ''.'', bare (CHR ''e'')])
      in Text ''['' # ts @ [Text ''] [pid:'', bare (CHR ''P'')] @ tail3)"

lemma log_pattern_items: "log_pattern utc tid cpu_id = print_pattern (log_items utc tid cpu_id)"
  by (cases utc; cases tid; cases cpu_id) (simp_all add: log_pattern_def log_items_def print_pattern_def bare_def
      print_padding_def no_padding_def)

lemma log_items_ok: "items_ok (log_items utc tid cpu_id)"
  by (cases utc; cases tid; cases cpu_id) (simp_all add: log_items_def bare_def flag_ok_def no_padding_def isdigit_def)

text \<open>The formatters of an item and whether it needs the calendar, for the flags of the program.\<close>

definition item_class :: "pattern_item \<Rightarrow> flag_class option" where
  "item_class i = (case i of Text s \<Rightarrow> Some (aggregate_formatter s)
     | Flag pi c \<Rightarrow> map_of
        [(CHR ''*'', custom_flag_formatter utc_time_formatter), (CHR ''q'', custom_flag_formatter cpu_id_formatter),
         (CHR ''Y'', Y_formatter), (CHR ''m'', m_formatter), (CHR ''d'', d_formatter), (CHR ''H'', H_formatter),
         (CHR ''M'', M_formatter), (CHR ''S'', S_formatter), (CHR ''e'', e_formatter), (CHR ''P'', pid_formatter),
         (CHR ''t'', t_formatter), (CHR ''^'', color_start_formatter), (CHR ''l'', level_formatter),
         (CHR ''$'', color_stop_formatter), (CHR ''v'', v_formatter)] c)"

definition item_formatter :: "flag_class \<Rightarrow> flag_formatter" where
  "item_formatter c = \<lparr>ff_class = c, ff_padder = null_scoped_padder, ff_padinfo = no_padding\<rparr>"

definition program_flags :: "char \<rightharpoonup> custom_flag" where
  "program_flags = [CHR ''*'' \<mapsto> utc_time_formatter, CHR ''q'' \<mapsto> cpu_id_formatter]"

definition timed :: "flag_class \<Rightarrow> bool" where
  "timed c \<longleftrightarrow> c \<in> {Y_formatter, m_formatter, d_formatter, H_formatter, M_formatter, S_formatter}"

lemma push_formatter_need:
  "push_formatter c P pi p = p\<lparr>pf_formatters := pf_formatters p @ [\<lparr>ff_class = c, ff_padder = P, ff_padinfo = pi\<rparr>],
     pf_need_localtime := pf_need_localtime p\<rparr>"
  by (auto simp: push_formatter_def)

lemma need_time_push:
  "need_time (push_formatter c P pi p) = p\<lparr>pf_formatters := pf_formatters p @ [\<lparr>ff_class = c, ff_padder = P, ff_padinfo = pi\<rparr>],
     pf_need_localtime := True\<rparr>"
  by (simp add: push_formatter_def need_time_def)

lemma handle_flag_program:
  assumes "item_class (bare ch) = Some c" and "pf_custom_handlers p = program_flags"
  shows "handle_flag now null_scoped_padder ch no_padding p =
    (if timed c then need_time (push_formatter c null_scoped_padder no_padding p)
     else push_formatter c null_scoped_padder no_padding p)"
proof -
  have "ch \<in> set ''*qYmdHMSePt^l$v''" using assms(1) by (auto simp: item_class_def bare_def split: if_splits)
  then show ?thesis using assms
    by simp (elim disjE; simp add: item_class_def bare_def handle_flag_def program_flags_def timed_def; blast)
qed

lemma compile_item_program:
  assumes "item_class i = Some c" and "pf_custom_handlers p = program_flags" and "case i of Text _ \<Rightarrow> True | Flag pi _ \<Rightarrow> pi = no_padding"
  shows "compile_item now i p =
    p\<lparr>pf_formatters := pf_formatters p @ [item_formatter c], pf_need_localtime := pf_need_localtime p \<or> timed c\<rparr>"
proof (cases i)
  case (Text s)
  with assms have "c = aggregate_formatter s" "\<not> timed c" by (auto simp: item_class_def timed_def)
  with Text show ?thesis by (simp add: compile_item_def push_formatter_need item_formatter_def)
next
  case (Flag pi ch)
  with assms(3) have i: "i = bare ch" by (simp add: bare_def)
  have "compile_item now i p = handle_flag now null_scoped_padder ch no_padding p"
    by (simp add: i compile_item_def bare_def no_padding_def)
  with handle_flag_program [of ch c p now] assms(1,2) i show ?thesis
    by (cases "timed c") (simp_all add: push_formatter_need need_time_def item_formatter_def)
qed

lemma compile_items_program:
  assumes "map item_class items = map Some cs" and "pf_custom_handlers p = program_flags"
    and "list_all (\<lambda>i. case i of Text _ \<Rightarrow> True | Flag pi _ \<Rightarrow> pi = no_padding) items"
  shows "compile_items now items p =
    p\<lparr>pf_formatters := pf_formatters p @ map item_formatter cs, pf_need_localtime := pf_need_localtime p \<or> list_ex timed cs\<rparr>"
  using assms
proof (induction items arbitrary: p cs)
  case Nil
  then show ?case by (simp add: compile_items_def)
next
  case (Cons i items)
  then obtain c cs' where cs: "cs = c # cs'" "item_class i = Some c" "map item_class items = map Some cs'" by (cases cs) auto
  have "compile_items now (i # items) p = compile_items now items (compile_item now i p)" by (simp add: compile_items_def)
  also have "compile_item now i p =
    p\<lparr>pf_formatters := pf_formatters p @ [item_formatter c], pf_need_localtime := pf_need_localtime p \<or> timed c\<rparr>"
    using Cons.prems by (intro compile_item_program cs(2)) simp_all
  finally show ?case using Cons.IH [OF cs(3)] Cons.prems cs by (simp add: disj_ac)
qed

definition log_classes :: "bool \<Rightarrow> bool \<Rightarrow> bool \<Rightarrow> flag_class list" where
  "log_classes utc tid cpu_id =
     aggregate_formatter ''['' #
     (if utc then [custom_flag_formatter utc_time_formatter]
      else [Y_formatter, aggregate_formatter ''-'', m_formatter, aggregate_formatter ''-'', d_formatter, aggregate_formatter '' '',
            H_formatter, aggregate_formatter '':'', M_formatter, aggregate_formatter '':'', S_formatter, aggregate_formatter ''.'',
            e_formatter]) @
     [aggregate_formatter ''] [pid:'', pid_formatter] @
     (if tid then [aggregate_formatter ''] [tid:'', t_formatter] else []) @
     (if cpu_id then [aggregate_formatter ''] [cpu:'', custom_flag_formatter cpu_id_formatter] else []) @
     [aggregate_formatter ''] ['', color_start_formatter, level_formatter, color_stop_formatter, aggregate_formatter ''] '', v_formatter]"

text \<open>What the program's pattern compiles to.\<close>

lemma make_formatter_eq:
  "make_formatter now eol (log_pattern utc tid cpu_id) =
    \<lparr>pf_pattern = log_pattern utc tid cpu_id, pf_eol = eol, pf_time_type = time_local, pf_need_localtime = \<not> utc,
     pf_cached_tm = zero_tm, pf_last_log_secs = 0, pf_formatters = map item_formatter (log_classes utc tid cpu_id),
     pf_custom_handlers = program_flags\<rparr>"
proof -
  let ?items = "log_items utc tid cpu_id" and ?cs = "log_classes utc tid cpu_id"
  have c: "map item_class ?items = map Some ?cs"
    by (cases utc; cases tid; cases cpu_id) (simp_all add: log_items_def log_classes_def item_class_def bare_def)
  have n: "list_all (\<lambda>i. case i of Text _ \<Rightarrow> True | Flag pi _ \<Rightarrow> pi = no_padding) ?items"
    by (cases utc; cases tid; cases cpu_id) (simp_all add: log_items_def bare_def)
  have t: "list_ex timed ?cs = (\<not> utc)"
    by (cases utc; cases tid; cases cpu_id) (simp_all add: log_classes_def timed_def)
  show ?thesis
    unfolding make_formatter_def set_pattern_def log_pattern_items compile_print_pattern [OF log_items_ok]
    by (subst compile_items_program [OF c _ n])
      (simp_all add: t add_flag_def default_pattern_formatter_def push_formatter_def program_flags_def fun_upd_twist)
qed

section \<open>The program's lines\<close>

text \<open>The text of an unpadded class, for the classes the program uses.\<close>

definition class_text :: "os_env \<Rightarrow> tm \<Rightarrow> log_msg \<Rightarrow> flag_class \<Rightarrow> string" where
  "class_text env t msg c = (case c of
      aggregate_formatter s \<Rightarrow> s
    | custom_flag_formatter utc_time_formatter \<Rightarrow>
        digits (nat (msg_time msg div 10 ^ 9)) @ ''.'' @ zero_padded 3 (nat (msg_time msg div 10 ^ 6 mod 1000))
    | custom_flag_formatter cpu_id_formatter \<Rightarrow> to_string (os_cpu env)
    | Y_formatter \<Rightarrow> to_string (tm_year t + 1900)
    | m_formatter \<Rightarrow> zero_padded 2 (nat (tm_mon t + 1))
    | d_formatter \<Rightarrow> zero_padded 2 (nat (tm_mday t))
    | H_formatter \<Rightarrow> zero_padded 2 (nat (tm_hour t))
    | M_formatter \<Rightarrow> zero_padded 2 (nat (tm_min t))
    | S_formatter \<Rightarrow> zero_padded 2 (nat (tm_sec t))
    | e_formatter \<Rightarrow> zero_padded 3 (nat (msg_time msg div 10 ^ 6 mod 1000))
    | pid_formatter \<Rightarrow> digits (nat (os_pid env mod 2 ^ 32))
    | t_formatter \<Rightarrow> digits (thread_id msg)
    | level_formatter \<Rightarrow> the (to_string_view (msg_level msg))
    | v_formatter \<Rightarrow> payload msg
    | _ \<Rightarrow> [])"

definition clock_ok :: "tm \<Rightarrow> bool" where
  "clock_ok t \<longleftrightarrow> tm_ok t \<and> 0 \<le> tm_mday t \<and> 0 \<le> tm_hour t \<and> 0 \<le> tm_min t \<and> 0 \<le> tm_sec t"

definition with_text :: "flag_class \<Rightarrow> bool" where
  "with_text c = (case c of aggregate_formatter _ \<Rightarrow> True | custom_flag_formatter _ \<Rightarrow> True
    | Y_formatter \<Rightarrow> True | m_formatter \<Rightarrow> True | d_formatter \<Rightarrow> True | H_formatter \<Rightarrow> True | M_formatter \<Rightarrow> True
    | S_formatter \<Rightarrow> True | e_formatter \<Rightarrow> True | pid_formatter \<Rightarrow> True | t_formatter \<Rightarrow> True | level_formatter \<Rightarrow> True
    | v_formatter \<Rightarrow> True | _ \<Rightarrow> False)"

lemma millis_eq: "0 \<le> x \<Longrightarrow> nat (time_fraction (10 ^ 6) x mod 2 ^ 32) = nat (x div 10 ^ 6 mod 1000)"
proof -
  assume "0 \<le> x"
  then have "time_fraction (10 ^ 6) x = x div 10 ^ 6 mod 1000" using time_fraction_eq [of "10 ^ 6" 1000 x] by simp
  moreover have "0 \<le> x div 10 ^ 6 mod 1000" "x div 10 ^ 6 mod 1000 < 2 ^ 32"
    using pos_mod_bound [of 1000 "x div 10 ^ 6"] by simp_all
  ultimately show ?thesis by (simp only: mod_pos_pos_trivial)
qed

lemma utc_time_eq:
  assumes "0 \<le> msg_time msg" and "time_ok (msg_time msg)"
  shows "utc_time_formatter_format msg dest =
    Some (dest @ digits (nat (msg_time msg div 10 ^ 9)) @ ''.'' @ zero_padded 3 (nat (msg_time msg div 10 ^ 6 mod 1000)))"
proof -
  let ?x = "msg_time msg"
  have sd: "y sdiv k = y div k" "y smod k = y mod k" if "0 \<le> y" "0 < k" for y k :: int
    using that by (cases "y = 0"; simp add: signed_divide_int_def signed_modulo_int_def minus_div_mult_eq_mod)+
  have y: "0 \<le> ?x div 1000000" using assms(1) by (simp add: pos_imp_zdiv_nonneg_iff)
  have q: "?x sdiv 1000000 = ?x div 1000000" "(?x div 1000000) sdiv 1000 = ?x div 1000000 div 1000"
    "(?x div 1000000) smod 1000 = ?x div 1000000 mod 1000"
    using sd assms(1) y by simp_all
  have d: "?x div 1000000 div 1000 = ?x div 1000000000" using zdiv_zmult2_eq [of 1000 ?x "1000000"] by simp
  have n: "0 \<le> ?x div 1000000000" "0 \<le> ?x div 1000000 mod 1000" "?x div 1000000 mod 1000 < 1000"
    using assms(1) by (simp_all add: pos_imp_zdiv_nonneg_iff)
  have s: "to_string (?x div 1000000000) = digits (nat (?x div 1000000000))"
    "zero_fill 3 (?x div 1000000 mod 1000) = zero_padded 3 (nat (?x div 1000000 mod 1000))"
    by (rule to_string_nonneg [OF n(1)], rule zero_fill_nonneg [OF n(2)])
  have "?x div 1000000000 \<le> ?x div 1" by (rule zdiv_mono2) (use assms(1) in simp_all)
  then have "?x div 1000000000 < 10 ^ 19" using assms by (simp add: time_ok_def)
  then have "nat (?x div 1000000000) < 10 ^ 19" using n(1) by (simp add: nat_less_iff)
  then have "length (digits (nat (?x div 1000000000))) \<le> 19" by (subst length_digits_le) simp_all
  moreover have "nat (?x div 1000000 mod 1000) < 10 ^ 3" using n by (simp add: nat_less_iff)
  then have "length (digits (nat (?x div 1000000 mod 1000))) \<le> 3" by (subst length_digits_le) simp_all
  ultimately show ?thesis
    by (simp add: utc_time_formatter_format_def Let_def q d s append_view_def zero_padded_def)
qed

lemma flag_format_text:
  assumes "with_text c" and "clock_ok t" and "msg_ok msg" and "0 \<le> msg_time msg"
  shows "flag_format env (item_formatter c) msg t dest = Some (item_formatter c, msg, dest @ class_text env t msg c)"
proof -
  note n = flag_format_def Let_def with_padder_def item_formatter_def class_text_def plain_def put2_def pad2_eq append_view_def
  have t: "tm_ok t" "0 \<le> tm_mday t" "0 \<le> tm_hour t" "0 \<le> tm_min t" "0 \<le> tm_sec t" "0 \<le> tm_mon t + 1"
    using assms(2) by (simp_all add: clock_ok_def tm_ok_def)
  note tok = tm_okD [OF t(1)]
  have m: "thread_id msg < 2 ^ 64" "time_ok (msg_time msg)" using assms(3) by (simp_all add: msg_ok_def)
  show ?thesis
  proof (cases c)
    case (custom_flag_formatter cf)
    then show ?thesis using utc_time_eq [OF assms(4) m(2)]
      by (cases cf) (simp_all add: n cpu_id_formatter_format_def)
  next
    case Y_formatter
    then show ?thesis using tok by (simp add: n Y_formatter_format_def append_int_eq)
  next
    case m_formatter
    then show ?thesis using tok t by (simp add: n m_formatter_format_def)
  next
    case e_formatter
    have "nat (msg_time msg div 10 ^ 6 mod 1000) < 1000" by (simp add: nat_less_iff)
    then have "nat (msg_time msg div 10 ^ 6 mod 1000) < 2 ^ 64" by simp
    from pad3_eq [OF this] millis_eq [OF assms(4)] e_formatter show ?thesis by (simp add: n e_formatter_format_def)
  next
    case pid_formatter
    then show ?thesis using append_uint_eq [OF nat_mod_32] by (simp add: n pid_formatter_format_def)
  next
    case t_formatter
    then show ?thesis using append_uint_eq [OF m(1)] by (simp add: n t_formatter_format_def)
  next
    case level_formatter
    obtain lv where "to_string_view (msg_level msg) = Some lv" using assms(3) to_string_view_total by (auto simp: msg_ok_def)
    with level_formatter show ?thesis by (simp add: n level_formatter_format_def)
  next
    case (aggregate_formatter s)
    then show ?thesis by (simp add: n aggregate_formatter_format_def)
  next
    case v_formatter
    then show ?thesis by (simp add: n v_formatter_format_def)
  next
    case d_formatter
    then show ?thesis using t by (simp add: n d_formatter_format_def)
  next
    case H_formatter
    then show ?thesis using t by (simp add: n H_formatter_format_def)
  next
    case M_formatter
    then show ?thesis using t by (simp add: n M_formatter_format_def)
  next
    case S_formatter
    then show ?thesis using t by (simp add: n S_formatter_format_def)
  qed (use assms(1) in \<open>simp_all add: with_text_def\<close>)
qed

text \<open>A line is the texts of its classes; the coloured range is the level.\<close>

definition line_prefix :: "os_env \<Rightarrow> tm \<Rightarrow> log_msg \<Rightarrow> bool \<Rightarrow> bool \<Rightarrow> bool \<Rightarrow> string" where
  "line_prefix env t msg utc tid cpu_id =
     ''['' @
     (if utc then digits (nat (msg_time msg div 10 ^ 9)) @ ''.''
      else to_string (tm_year t + 1900) @ ''-'' @ zero_padded 2 (nat (tm_mon t + 1)) @ ''-'' @ zero_padded 2 (nat (tm_mday t)) @
        '' '' @ zero_padded 2 (nat (tm_hour t)) @ '':'' @ zero_padded 2 (nat (tm_min t)) @ '':'' @
        zero_padded 2 (nat (tm_sec t)) @ ''.'') @
     zero_padded 3 (nat (msg_time msg div 10 ^ 6 mod 1000)) @
     ''] [pid:'' @ digits (nat (os_pid env mod 2 ^ 32)) @
     (if tid then ''] [tid:'' @ digits (thread_id msg) else []) @
     (if cpu_id then ''] [cpu:'' @ to_string (os_cpu env) else []) @
     ''] [''"

definition log_line :: "os_env \<Rightarrow> tm \<Rightarrow> log_msg \<Rightarrow> string \<Rightarrow> bool \<Rightarrow> bool \<Rightarrow> bool \<Rightarrow> string" where
  "log_line env t msg eol utc tid cpu_id =
     line_prefix env t msg utc tid cpu_id @ the (to_string_view (msg_level msg)) @ ''] '' @ payload msg @ eol"

lemma format_loop_texts:
  assumes "list_all with_text cs" and "clock_ok t" and "msg_ok msg" and "0 \<le> msg_time msg"
  shows "format_loop env t (map item_formatter cs @ fs) msg dest = do {
     (fs', msg', d) \<leftarrow> format_loop env t fs msg (dest @ concat (map (class_text env t msg) cs));
     Some (map item_formatter cs @ fs', msg', d)
   }"
  using assms(1)
proof (induction cs arbitrary: dest)
  case Nil
  then show ?case by (cases "format_loop env t fs msg dest") auto
next
  case (Cons c cs)
  then show ?case using flag_format_text [OF _ assms(2-4), of c env dest]
    by (cases "format_loop env t fs msg (dest @ class_text env t msg c @ concat (map (class_text env t msg) cs))") auto
qed

definition prefix_classes :: "bool \<Rightarrow> bool \<Rightarrow> bool \<Rightarrow> flag_class list" where
  "prefix_classes utc tid cpu_id = take (length (log_classes utc tid cpu_id) - 5) (log_classes utc tid cpu_id)"

lemma log_classes_split:
  "log_classes utc tid cpu_id = prefix_classes utc tid cpu_id @
     [color_start_formatter, level_formatter, color_stop_formatter, aggregate_formatter ''] '', v_formatter]"
  "list_all with_text (prefix_classes utc tid cpu_id)"
  "concat (map (class_text env t msg) (prefix_classes utc tid cpu_id)) = line_prefix env t msg utc tid cpu_id"
  by (cases utc; cases tid; cases cpu_id;
      simp add: log_classes_def prefix_classes_def with_text_def class_text_def line_prefix_def)+

lemma program_format_loop:
  assumes "clock_ok t" and "msg_ok msg" and "0 \<le> msg_time msg"
  shows "format_loop env t (map item_formatter (log_classes utc tid cpu_id)) msg [] =
    Some (map item_formatter (log_classes utc tid cpu_id),
      msg\<lparr>color_range_start := length (line_prefix env t msg utc tid cpu_id),
          color_range_end := length (line_prefix env t msg utc tid cpu_id) + length (the (to_string_view (msg_level msg)))\<rparr>,
      log_line env t msg [] utc tid cpu_id)"
proof -
  let ?p = "line_prefix env t msg utc tid cpu_id" and ?l = "the (to_string_view (msg_level msg))"
  let ?m1 = "msg\<lparr>color_range_start := length ?p\<rparr>"
  let ?m2 = "?m1\<lparr>color_range_end := length ?p + length ?l\<rparr>"
  have st: "flag_format env (item_formatter color_start_formatter) msg t ?p = Some (item_formatter color_start_formatter, ?m1, ?p)"
    by (simp add: flag_format_def item_formatter_def color_start_formatter_format_def)
  have sp: "flag_format env (item_formatter color_stop_formatter) ?m1 t (?p @ ?l) = Some (item_formatter color_stop_formatter, ?m2, ?p @ ?l)"
    by (simp add: flag_format_def item_formatter_def color_stop_formatter_format_def)
  have l: "flag_format env (item_formatter level_formatter) ?m1 t ?p = Some (item_formatter level_formatter, ?m1, ?p @ ?l)"
    using flag_format_text [of level_formatter t ?m1 env ?p] assms by (simp add: with_text_def class_text_def)
  have r: "flag_format env (item_formatter (aggregate_formatter s)) ?m2 t d = Some (item_formatter (aggregate_formatter s), ?m2, d @ s)" for s d
    using flag_format_text [of "aggregate_formatter s" t ?m2 env d] assms by (simp add: with_text_def class_text_def)
  have v: "flag_format env (item_formatter v_formatter) ?m2 t d = Some (item_formatter v_formatter, ?m2, d @ payload msg)" for d
    using flag_format_text [of v_formatter t ?m2 env d] assms by (simp add: with_text_def class_text_def)
  show ?thesis
    by (simp add: log_classes_split(1) format_loop_texts [OF log_classes_split(2) assms] log_classes_split(3) st l sp r v log_line_def)
qed

subsection \<open>The cached calendar time\<close>

text \<open>The cache holds the calendar of the second it is for; second 0 is the mark of an empty cache.\<close>

definition tm_cached :: "(int \<Rightarrow> tm) \<Rightarrow> pattern_formatter \<Rightarrow> bool" where
  "tm_cached cal p \<longleftrightarrow> (pf_last_log_secs p \<noteq> 0 \<longrightarrow> pf_cached_tm p = cal (pf_last_log_secs p))"

lemma refresh_tm_cached:
  assumes "tm_cached (os_localtime env) p" and "pf_time_type p = time_local" and "msg_time msg sdiv 10 ^ 9 \<noteq> 0"
  shows "tm_cached (os_localtime env) (refresh_tm env msg p)"
    and "pf_need_localtime p \<Longrightarrow> pf_cached_tm (refresh_tm env msg p) = os_localtime env (msg_time msg sdiv 10 ^ 9)"
  using assms by (auto simp: tm_cached_def refresh_tm_def Let_def get_time_def)

definition program_formatter :: "string \<Rightarrow> bool \<Rightarrow> bool \<Rightarrow> bool \<Rightarrow> (int \<Rightarrow> tm) \<Rightarrow> pattern_formatter \<Rightarrow> bool" where
  "program_formatter eol utc tid cpu_id cal p \<longleftrightarrow>
     pf_eol p = eol \<and> pf_time_type p = time_local \<and> pf_need_localtime p = (\<not> utc) \<and>
     pf_formatters p = map item_formatter (log_classes utc tid cpu_id) \<and> tm_cached cal p \<and>
     clock_ok (pf_cached_tm p)"

lemma make_formatter_program: "program_formatter eol utc tid cpu_id cal (make_formatter now eol (log_pattern utc tid cpu_id))"
  by (simp add: program_formatter_def make_formatter_eq tm_cached_def clock_ok_def zero_tm_ok) (simp add: zero_tm_def)

lemma program_pattern_format:
  assumes p: "program_formatter eol utc tid cpu_id (os_localtime env) p" and e: "\<forall>s. clock_ok (os_localtime env s)"
    and m: "msg_ok msg" "10 ^ 9 \<le> msg_time msg"
  shows "\<exists>p'. pattern_format env p msg [] =
      Some (p', msg\<lparr>color_range_start := length (line_prefix env (os_localtime env (msg_time msg div 10 ^ 9)) msg utc tid cpu_id),
          color_range_end := length (line_prefix env (os_localtime env (msg_time msg div 10 ^ 9)) msg utc tid cpu_id) +
            length (the (to_string_view (msg_level msg)))\<rparr>,
        log_line env (os_localtime env (msg_time msg div 10 ^ 9)) msg eol utc tid cpu_id) \<and>
    program_formatter eol utc tid cpu_id (os_localtime env) p'"
proof -
  have s: "msg_time msg sdiv 10 ^ 9 = msg_time msg div 10 ^ 9" "msg_time msg sdiv 10 ^ 9 \<noteq> 0" "0 \<le> msg_time msg"
    using m(2) zdiv_mono1 [OF m(2), of "10 ^ 9"] by (simp_all add: signed_divide_int_def)
  define p1 where "p1 = refresh_tm env msg p"
  define t where "t = pf_cached_tm p1"
  have c: "tm_cached (os_localtime env) p1" "\<not> utc \<Longrightarrow> t = os_localtime env (msg_time msg div 10 ^ 9)"
    using refresh_tm_cached [of env p msg] p s unfolding program_formatter_def p1_def t_def by auto
  have f: "pf_formatters p1 = map item_formatter (log_classes utc tid cpu_id)" "pf_eol p1 = eol" "clock_ok t"
    "pf_time_type p1 = time_local" "pf_need_localtime p1 = (\<not> utc)"
    using p e unfolding program_formatter_def p1_def t_def refresh_tm_def by (auto simp: Let_def get_time_def)
  have u: "line_prefix env t msg utc tid cpu_id = line_prefix env (os_localtime env (msg_time msg div 10 ^ 9)) msg utc tid cpu_id"
    using c(2) by (cases utc) (simp_all add: line_prefix_def)
  note r = program_format_loop [OF f(3) m(1) s(3), of env utc tid cpu_id]
  show ?thesis
    using c(1) f r by (simp add: pattern_format_def p1_def [symmetric] t_def [symmetric] append_view_def program_formatter_def
        log_line_def u tm_cached_def)
qed

lemma program_format_all:
  assumes "program_formatter eol utc tid cpu_id cal p" and "\<forall>s. clock_ok (cal s)"
    and "list_all (\<lambda>(env, msg). os_localtime env = cal \<and> msg_ok msg \<and> 10 ^ 9 \<le> msg_time msg) xs"
  shows "format_all p xs =
    Some (map (\<lambda>(env, msg). log_line env (cal (msg_time msg div 10 ^ 9)) msg eol utc tid cpu_id) xs)"
  using assms(1,3)
proof (induction xs arbitrary: p)
  case Nil
  then show ?case by simp
next
  case (Cons x xs)
  obtain env msg where x: "x = (env, msg)" by (cases x)
  with Cons.prems have e: "os_localtime env = cal" "msg_ok msg" "10 ^ 9 \<le> msg_time msg" by simp_all
  obtain p' msg' where "pattern_format env p msg [] =
      Some (p', msg', log_line env (cal (msg_time msg div 10 ^ 9)) msg eol utc tid cpu_id)"
    "program_formatter eol utc tid cpu_id cal p'"
    using program_pattern_format [of eol utc tid cpu_id env p msg] e assms(2) Cons.prems(1) by blast
  with Cons x show ?case by simp
qed

end
