(* ===== verification/Logger_Facts.thy ===== *)
theory Logger_Facts
  imports Pattern_Syntax
begin

text \<open>
  The program's logger as \<open>setup_logger\<close> builds it: its sinks stay as they are while messages are
  logged, and each message gives the same line to every sink whose level it reaches.
\<close>

section \<open>The state of the logger\<close>

definition program_sinks :: "string \<Rightarrow> (sink_target \<times> level_enum) list" where
  "program_sinks log_file = (stdout_color_sink, level_info) #
     (if log_file = [] then [] else [(rotating_file_sink log_file (10 * 1024 * 1024) 5, level_debug)])"

definition sink_ready ::
    "string \<Rightarrow> bool \<Rightarrow> bool \<Rightarrow> bool \<Rightarrow> (int \<Rightarrow> tm) \<Rightarrow> sink_target \<times> level_enum \<Rightarrow> sink \<Rightarrow> bool" where
  "sink_ready eol utc tid cpu_id cal tg s \<longleftrightarrow>
     (sk_target s, sk_level s) = tg \<and> program_formatter eol utc tid cpu_id cal (sk_formatter s)"

definition logger_ready :: "string \<Rightarrow> string \<Rightarrow> bool \<Rightarrow> bool \<Rightarrow> bool \<Rightarrow> (int \<Rightarrow> tm) \<Rightarrow> logger \<Rightarrow> bool" where
  "logger_ready eol log_file utc tid cpu_id cal lg \<longleftrightarrow> lg_level lg = level_debug \<and> lg_flush_level lg = level_warn \<and>
     list_all2 (sink_ready eol utc tid cpu_id cal) (program_sinks log_file) (lg_sinks lg)"

lemma setup_logger_ready: "logger_ready eol log_file utc tid cpu_id cal (setup_logger now eol log_file utc tid cpu_id)"
  by (simp add: logger_ready_def setup_logger_def program_sinks_def sink_ready_def make_formatter_program Let_def)

section \<open>One message\<close>

text \<open>What a sink of a level is given.\<close>

definition routed :: "string \<Rightarrow> log_msg \<Rightarrow> sink_target \<times> level_enum \<Rightarrow> (string \<times> bool) option" where
  "routed line msg tg = (if snd tg \<le> msg_level msg then Some (line, flushes_lines (fst tg)) else None)"

lemma routed_console [simp]:
  "routed line msg (stdout_color_sink, lvl) = (if lvl \<le> msg_level msg then Some (line, True) else None)"
  by (simp add: routed_def flushes_lines_def)

lemma routed_file [simp]:
  "routed line msg (rotating_file_sink file max_size max_files, lvl) = (if lvl \<le> msg_level msg then Some (line, False) else None)"
  by (simp add: routed_def flushes_lines_def)

lemma log_line_color [simp]: "log_line env t (msg\<lparr>color_range_start := a, color_range_end := b\<rparr>) eol utc tid cpu_id =
    log_line env t msg eol utc tid cpu_id"
  by (simp add: log_line_def line_prefix_def)

lemma sink_it_loop_ready:
  assumes "list_all2 (sink_ready eol utc tid cpu_id (os_localtime env)) tgs ss" and "\<forall>s. clock_ok (os_localtime env s)"
    and "msg_ok msg" and "10 ^ 9 \<le> msg_time msg"
  shows "\<exists>ss' a b. sink_it_loop env ss msg = Some (ss',
      map (routed (log_line env (os_localtime env (msg_time msg div 10 ^ 9)) msg eol utc tid cpu_id) msg) tgs,
      msg\<lparr>color_range_start := a, color_range_end := b\<rparr>) \<and>
    list_all2 (sink_ready eol utc tid cpu_id (os_localtime env)) tgs ss'"
  using assms(1,3,4)
proof (induction tgs ss arbitrary: msg rule: list_all2_induct)
  case Nil
  have "msg = msg\<lparr>color_range_start := color_range_start msg, color_range_end := color_range_end msg\<rparr>" by simp
  then show ?case by (metis list.map_disc_iff list_all2_Nil sink_it_loop.simps(1))
next
  case (Cons tg tgs s ss)
  let ?line = "log_line env (os_localtime env (msg_time msg div 10 ^ 9)) msg eol utc tid cpu_id"
  have lv: "sk_level s = snd tg" "sk_target s = fst tg" and pf: "program_formatter eol utc tid cpu_id (os_localtime env) (sk_formatter s)"
    using Cons.hyps(1) by (auto simp: sink_ready_def)
  show ?case
  proof (cases "snd tg \<le> msg_level msg")
    case False
    from Cons.IH [OF Cons.prems] obtain ss' a b where "sink_it_loop env ss msg =
        Some (ss', map (routed ?line msg) tgs, msg\<lparr>color_range_start := a, color_range_end := b\<rparr>)"
      "list_all2 (sink_ready eol utc tid cpu_id (os_localtime env)) tgs ss'" by blast
    with False lv Cons.hyps(1) show ?thesis by (simp add: sink_should_log_def routed_def) blast
  next
    case True
    from program_pattern_format [OF pf assms(2) Cons.prems] obtain p' a b where
      p: "pattern_format env (sk_formatter s) msg [] = Some (p', msg\<lparr>color_range_start := a, color_range_end := b\<rparr>, ?line)"
      "program_formatter eol utc tid cpu_id (os_localtime env) p'" by blast
    have r: "routed l (msg\<lparr>color_range_start := a, color_range_end := b\<rparr>) = routed l msg" for l
      by (rule ext) (simp add: routed_def)
    from Cons.IH [of "msg\<lparr>color_range_start := a, color_range_end := b\<rparr>"] Cons.prems obtain ss' a' b' where
      "sink_it_loop env ss (msg\<lparr>color_range_start := a, color_range_end := b\<rparr>) =
        Some (ss', map (routed ?line msg) tgs, msg\<lparr>color_range_start := a', color_range_end := b'\<rparr>)"
      "list_all2 (sink_ready eol utc tid cpu_id (os_localtime env)) tgs ss'" by (auto simp: r)
    moreover have "sink_ready eol utc tid cpu_id (os_localtime env) tg (s\<lparr>sk_formatter := p'\<rparr>)"
      using Cons.hyps(1) p(2) by (auto simp: sink_ready_def)
    ultimately show ?thesis using True lv p(1) by (simp add: sink_should_log_def routed_def) blast
  qed
qed

definition routes :: "string \<Rightarrow> string \<Rightarrow> log_msg \<Rightarrow> (string \<times> bool) option list \<times> bool" where
  "routes log_file line msg =
     (map (routed line msg) (program_sinks log_file),
      level_warn \<le> msg_level msg \<and> msg_level msg \<noteq> level_off)"

lemma log_it_ready:
  assumes "logger_ready eol log_file utc tid cpu_id (os_localtime env) lg" and "\<forall>s. clock_ok (os_localtime env s)"
    and "msg_ok msg" and "10 ^ 9 \<le> msg_time msg"
  shows "\<exists>lg'. log_it env lg msg = Some (lg',
      routes log_file (log_line env (os_localtime env (msg_time msg div 10 ^ 9)) msg eol utc tid cpu_id) msg) \<and>
    logger_ready eol log_file utc tid cpu_id (os_localtime env) lg'"
proof (cases "level_debug \<le> msg_level msg")
  case True
  from sink_it_loop_ready [OF _ assms(2-4)] assms(1) obtain ss' a b where "sink_it_loop env (lg_sinks lg) msg = Some (ss',
      map (routed (log_line env (os_localtime env (msg_time msg div 10 ^ 9)) msg eol utc tid cpu_id) msg) (program_sinks log_file),
      msg\<lparr>color_range_start := a, color_range_end := b\<rparr>)"
    "list_all2 (sink_ready eol utc tid cpu_id (os_localtime env)) (program_sinks log_file) ss'"
    unfolding logger_ready_def by blast
  with True assms(1) show ?thesis by (simp add: log_it_def should_log_def logger_ready_def should_flush_def routes_def)
next
  case False
  have "length (lg_sinks lg) = length (program_sinks log_file)"
    using assms(1) by (auto simp: logger_ready_def dest: list_all2_lengthD)
  moreover have "map (\<lambda>_. None) (lg_sinks lg) = map (routed line msg) (program_sinks log_file)" for line
    using False calculation by (auto simp: less_eq_level_enum_def program_sinks_def routed_def length_Suc_conv split: if_splits)
  ultimately show ?thesis using False assms(1)
    by (simp add: less_eq_level_enum_def log_it_def should_log_def logger_ready_def routes_def)
qed

section \<open>A sequence of messages\<close>

text \<open>Each message with the system at its time; the lines of the sinks and whether the logger flushes.\<close>

fun log_run :: "logger \<Rightarrow> (os_env \<times> log_msg) list \<Rightarrow> ((string \<times> bool) option list \<times> bool) list option" where
  "log_run lg [] = Some []"
| "log_run lg ((env, msg) # xs) = do {
     (lg', out) \<leftarrow> log_it env lg msg;
     outs \<leftarrow> log_run lg' xs;
     Some (out # outs)
   }"

lemma log_run_ready:
  assumes "logger_ready eol log_file utc tid cpu_id cal lg" and "\<forall>s. clock_ok (cal s)"
    and "list_all (\<lambda>(env, msg). os_localtime env = cal \<and> msg_ok msg \<and> 10 ^ 9 \<le> msg_time msg) xs"
  shows "log_run lg xs =
    Some (map (\<lambda>(env, msg). routes log_file (log_line env (cal (msg_time msg div 10 ^ 9)) msg eol utc tid cpu_id) msg) xs)"
  using assms(1,3)
proof (induction xs arbitrary: lg)
  case Nil
  then show ?case by simp
next
  case (Cons x xs)
  obtain env msg where x: "x = (env, msg)" by (cases x)
  with Cons.prems have e: "os_localtime env = cal" "msg_ok msg" "10 ^ 9 \<le> msg_time msg" by simp_all
  from log_it_ready [of eol log_file utc tid cpu_id env lg msg] e assms(2) Cons.prems(1) obtain lg' where
    "log_it env lg msg = Some (lg', routes log_file (log_line env (cal (msg_time msg div 10 ^ 9)) msg eol utc tid cpu_id) msg)"
    "logger_ready eol log_file utc tid cpu_id cal lg'" by blast
  with Cons x show ?case by simp
qed

section \<open>The coloured line\<close>

lemma print_range_parts:
  "print_range (a @ b @ c) 0 (length a) = Some (Fwrite a)"
  "print_range (a @ b @ c) (length a) (length a + length b) = Some (Fwrite b)"
  "print_range (a @ b @ c) (length a + length b) (length (a @ b @ c)) = Some (Fwrite c)"
  by (simp_all add: print_range_def)

lemma level_view:
  "l \<noteq> n_levels \<Longrightarrow> to_string_view l = Some (level_string_views ! level_num l) \<and> level_string_views ! level_num l \<noteq> [] \<and>
    level_num l < 7"
  by (cases l) (simp_all add: to_string_view_def array_at_def level_string_views_def)

lemma ansicolor_log_program:
  assumes "program_formatter eol utc tid cpu_id (os_localtime env) p" and "\<forall>s. clock_ok (os_localtime env s)"
    and "msg_ok msg" and "10 ^ 9 \<le> msg_time msg"
  shows "map_option snd (ansicolor_log env True p msg) =
    Some [Fwrite (line_prefix env (os_localtime env (msg_time msg div 10 ^ 9)) msg utc tid cpu_id),
      Fwrite (colors ! level_num (msg_level msg)), Fwrite (the (to_string_view (msg_level msg))), Fwrite color_reset,
      Fwrite (''] '' @ payload msg @ eol), Fflush]"
proof -
  define m where "m = msg\<lparr>color_range_start := 0, color_range_end := 0\<rparr>"
  define t where "t = os_localtime env (msg_time msg div 10 ^ 9)"
  define a where "a = line_prefix env t msg utc tid cpu_id"
  define b where "b = level_string_views ! level_num (msg_level msg)"
  define c where "c = ''] '' @ payload msg @ eol"
  have m: "msg_ok m" "10 ^ 9 \<le> msg_time m" "msg_time m = msg_time msg" "msg_level m = msg_level msg" "payload m = payload msg"
    "line_prefix env t m utc tid cpu_id = a" using assms(3,4) by (simp_all add: m_def line_prefix_def a_def)
  have v: "to_string_view (msg_level msg) = Some b" "b \<noteq> []" "level_num (msg_level msg) < 7"
    using level_view [of "msg_level msg"] assms(3) by (simp_all add: b_def msg_ok_def)
  obtain p' where "pattern_format env p m [] =
      Some (p', m\<lparr>color_range_start := length a, color_range_end := length a + length b\<rparr>, a @ b @ c)"
    using program_pattern_format [OF assms(1,2) m(1,2)]
    unfolding m(3) t_def [symmetric] log_line_def m(4,5,6) v(1) option.sel c_def [symmetric] by blast
  then have "ansicolor_log env True p msg = Some (p', [Fwrite a, Fwrite (colors ! level_num (msg_level msg)), Fwrite b, Fwrite color_reset, Fwrite c, Fflush])"
    using v(2,3) m(4) print_range_parts [of a b c]
    by (simp add: ansicolor_log_def m_def [symmetric] array_at_def print_ccode_def) (simp add: colors_def)
  then show ?thesis by (simp add: v(1) a_def t_def c_def)
qed

end
