(* ===== verification/Log_Fields.thy ===== *)
theory Log_Fields
  imports Pattern_Syntax
begin

text \<open>
  Fields of fixed width: for the flags whose declared size is the size of their text, a padded field is
  that text in \<open>pad_field\<close>, whatever is before it; and the flag of the full date, whose declared size is
  wrong on the first nine days of a month.
\<close>

section \<open>Texts of fields\<close>

text \<open>A calendar time as the operating system gives it.\<close>

definition calendar_ok :: "tm \<Rightarrow> bool" where
  "calendar_ok t \<longleftrightarrow> tm_ok t \<and> 0 < tm_mday t \<and> tm_mday t \<le> 31 \<and> 0 \<le> tm_hour t \<and> tm_hour t < 24 \<and>
     0 \<le> tm_min t \<and> tm_min t < 60 \<and> 0 \<le> tm_sec t \<and> tm_sec t \<le> 61"

definition two :: "int \<Rightarrow> string" where
  "two i = zero_padded 2 (nat i)"

definition field_text :: "os_env \<Rightarrow> tm \<Rightarrow> log_msg \<Rightarrow> flag_class \<Rightarrow> string option" where
  "field_text env t msg c = (case c of
      name_formatter \<Rightarrow> Some (logger_name msg)
    | level_formatter \<Rightarrow> to_string_view (msg_level msg)
    | short_level_formatter \<Rightarrow> to_short_c_str (msg_level msg)
    | a_formatter \<Rightarrow> Some (days ! nat (tm_wday t))
    | A_formatter \<Rightarrow> Some (full_days ! nat (tm_wday t))
    | b_formatter \<Rightarrow> Some (months ! nat (tm_mon t))
    | B_formatter \<Rightarrow> Some (full_months ! nat (tm_mon t))
    | m_formatter \<Rightarrow> Some (two (tm_mon t + 1))
    | d_formatter \<Rightarrow> Some (two (tm_mday t))
    | H_formatter \<Rightarrow> Some (two (tm_hour t))
    | I_formatter \<Rightarrow> Some (two (to12h t))
    | M_formatter \<Rightarrow> Some (two (tm_min t))
    | S_formatter \<Rightarrow> Some (two (tm_sec t))
    | e_formatter \<Rightarrow> Some (zero_padded 3 (nat (msg_time msg div 10 ^ 6 mod 1000)))
    | f_formatter \<Rightarrow> Some (zero_padded 6 (nat (msg_time msg div 10 ^ 3 mod 10 ^ 6)))
    | F_formatter \<Rightarrow> Some (zero_padded 9 (nat (msg_time msg mod 10 ^ 9)))
    | p_formatter \<Rightarrow> Some (ampm t)
    | r_formatter \<Rightarrow> Some (two (to12h t) @ '':'' @ two (tm_min t) @ '':'' @ two (tm_sec t) @ '' '' @ ampm t)
    | R_formatter \<Rightarrow> Some (two (tm_hour t) @ '':'' @ two (tm_min t))
    | T_formatter \<Rightarrow> Some (two (tm_hour t) @ '':'' @ two (tm_min t) @ '':'' @ two (tm_sec t))
    | t_formatter \<Rightarrow> Some (digits (thread_id msg))
    | pid_formatter \<Rightarrow> Some (digits (nat (os_pid env mod 2 ^ 32)))
    | v_formatter \<Rightarrow> Some (payload msg)
    | _ \<Rightarrow> None)"

lemma length_zero_padded: "0 < w \<Longrightarrow> n < 10 ^ w \<Longrightarrow> length (zero_padded w n) = w"
  using length_digits_le [of w n] by (simp add: zero_padded_def)

lemma length_two: "0 \<le> i \<Longrightarrow> i < 100 \<Longrightarrow> length (two i) = 2"
  by (simp add: two_def length_zero_padded nat_less_iff)

lemma put2_eq: "0 \<le> i \<Longrightarrow> put2 i d = Some (d @ two i)"
  by (simp add: put2_def pad2_eq two_def)

text \<open>The padder around a body that writes a text of the declared size.\<close>

lemma scoped_field:
  "pi_width pi \<le> 64 \<Longrightarrow> (\<And>d. body d = Some (d @ s)) \<Longrightarrow> n = length s \<Longrightarrow>
   with_padder scoped_padder n pi body dest = Some (dest @ pad_field pi s)"
  using with_padder_scoped by blast

lemma fraction_eq:
  assumes "0 \<le> x" and "0 < u" and "u * q = 10 ^ 9" and "10 ^ 9 \<le> (M :: int)"
  shows "nat (time_fraction u x mod M) = nat (x div u mod q)" and "nat (x div u mod q) < nat q"
proof -
  have q: "0 < q" using assms(2,3) zero_less_mult_iff [of u q] by simp
  moreover have "1 * q \<le> u * q" using assms(2) q by (intro mult_right_mono) simp_all
  then have "q \<le> M" using assms(3,4) by simp
  moreover have "0 \<le> x div u mod q" "x div u mod q < q" using q by simp_all
  ultimately show "nat (time_fraction u x mod M) = nat (x div u mod q)" "nat (x div u mod q) < nat q"
    using time_fraction_eq [OF assms(2,3,1)] by simp_all
qed

lemma array_at_nth: "0 \<le> i \<Longrightarrow> i < int (length xs) \<Longrightarrow> array_at xs i = Some (xs ! nat i)"
  by (simp add: array_at_def)

lemma field_format:
  assumes "field_text env t msg c = Some s" and "calendar_ok t" and "msg_ok msg" and "0 \<le> msg_time msg" and "pi_width pi \<le> 64"
  shows "flag_format env \<lparr>ff_class = c, ff_padder = scoped_padder, ff_padinfo = pi\<rparr> msg t dest =
    Some (\<lparr>ff_class = c, ff_padder = scoped_padder, ff_padinfo = pi\<rparr>, msg, dest @ pad_field pi s)"
proof -
  let ?f = "\<lparr>ff_class = c, ff_padder = scoped_padder, ff_padinfo = pi\<rparr>"
  note n = flag_format_def Let_def plain_def append_view_def push_back_def
  have t: "tm_ok t" "0 \<le> tm_mday t" "tm_mday t < 100" "0 \<le> tm_hour t" "tm_hour t < 100" "0 \<le> tm_min t" "tm_min t < 100"
    "0 \<le> tm_sec t" "tm_sec t < 100" "0 \<le> to12h t" "to12h t < 100" "0 \<le> tm_mon t + 1" "tm_mon t + 1 < 100"
    "0 \<le> tm_mon t" "tm_mon t < 12" "0 \<le> tm_wday t" "tm_wday t < 7"
    using assms(2) by (auto simp: calendar_ok_def tm_ok_def to12h_def)
  have l: "length (two (tm_mday t)) = 2" "length (two (tm_hour t)) = 2" "length (two (tm_min t)) = 2"
    "length (two (tm_sec t)) = 2" "length (two (to12h t)) = 2" "length (two (tm_mon t + 1)) = 2" "length (ampm t) = 2"
    using t by (simp_all add: length_two ampm_def)
  note tok = tm_okD [OF t(1)]
  have i: "thread_id msg < 2 ^ 64" using assms(3) by (simp_all add: msg_ok_def)
  note sf = scoped_field [OF assms(5)]
  note fr = fraction_eq [OF assms(4)]
  show ?thesis
  proof (cases c)
    case e_formatter
    have q: "nat (msg_time msg div 10 ^ 6 mod 1000) < 10 ^ 3" using fr(2) [of "10 ^ 6" 1000] by simp
    then have "nat (msg_time msg div 10 ^ 6 mod 1000) < 2 ^ 64" by simp
    from pad3_eq [OF this] have "e_formatter_format scoped_padder pi msg dest = Some (dest @ pad_field pi s)"
      using assms(1) e_formatter length_zero_padded [OF _ q] fr(1) [of "10 ^ 6" 1000 "2 ^ 32"] unfolding e_formatter_format_def Let_def
      by (intro sf) (simp_all add: field_text_def length_zero_padded)
    with e_formatter show ?thesis by (simp add: n)
  next
    case f_formatter
    have q: "nat (msg_time msg div 10 ^ 3 mod 10 ^ 6) < 10 ^ 6" using fr(2) [of "10 ^ 3" "10 ^ 6"] by simp
    then have "nat (msg_time msg div 10 ^ 3 mod 10 ^ 6) < 2 ^ 64" by simp
    from pad_uint_eq [OF this] have "f_formatter_format scoped_padder pi msg dest = Some (dest @ pad_field pi s)"
      using assms(1) f_formatter length_zero_padded [OF _ q] fr(1) [of "10 ^ 3" "10 ^ 6" "2 ^ 64"] unfolding f_formatter_format_def Let_def
      by (intro sf) (simp_all add: field_text_def length_zero_padded pad6_def)
    with f_formatter show ?thesis by (simp add: n)
  next
    case F_formatter
    have q: "nat (msg_time msg mod 10 ^ 9) < 10 ^ 9" using fr(2) [of 1 "10 ^ 9"] by simp
    then have "nat (msg_time msg mod 10 ^ 9) < 2 ^ 64" by simp
    from pad_uint_eq [OF this] have "F_formatter_format scoped_padder pi msg dest = Some (dest @ pad_field pi s)"
      using assms(1) F_formatter length_zero_padded [OF _ q] fr(1) [of 1 "10 ^ 9" "2 ^ 64"] unfolding F_formatter_format_def Let_def
      by (intro sf) (simp_all add: field_text_def length_zero_padded pad9_def)
    with F_formatter show ?thesis by (simp add: n)
  next
    case t_formatter
    have "t_formatter_format scoped_padder pi msg dest = Some (dest @ pad_field pi s)"
      using assms(1) t_formatter i unfolding t_formatter_format_def
      by (intro sf) (simp_all add: field_text_def append_uint_eq padder_count_digits_def fh_count_digits_eq)
    with t_formatter show ?thesis by (simp add: n)
  next
    case pid_formatter
    have p: "nat (os_pid env mod 2 ^ 32) < 2 ^ 32" by (simp add: nat_less_iff)
    then have "pid_formatter_format scoped_padder pi env dest = Some (dest @ pad_field pi s)"
      using assms(1) pid_formatter append_uint_eq [OF nat_mod_32] unfolding pid_formatter_format_def Let_def
      by (intro sf) (simp_all add: field_text_def padder_count_digits_def fh_count_digits_eq)
    with pid_formatter show ?thesis by (simp add: n)
  next
    case name_formatter
    with assms(1) sf [of "append_view s" s] show ?thesis by (simp add: field_text_def n name_formatter_format_def)
  next
    case level_formatter
    with assms(1) sf [of "append_view s" s] show ?thesis by (simp add: field_text_def n level_formatter_format_def)
  next
    case short_level_formatter
    with assms(1) sf [of "append_view s" s] show ?thesis by (simp add: field_text_def n short_level_formatter_format_def)
  next
    case v_formatter
    with assms(1) sf [of "append_view s" s] show ?thesis by (simp add: field_text_def n v_formatter_format_def)
  next
    case a_formatter
    with assms(1) sf [of "append_view s" s] t show ?thesis by (simp add: field_text_def n a_formatter_format_def array_at_nth days_def)
  next
    case A_formatter
    with assms(1) sf [of "append_view s" s] t show ?thesis by (simp add: field_text_def n A_formatter_format_def array_at_nth full_days_def)
  next
    case b_formatter
    with assms(1) sf [of "append_view s" s] t show ?thesis by (simp add: field_text_def n b_formatter_format_def array_at_nth months_def)
  next
    case B_formatter
    with assms(1) sf [of "append_view s" s] t show ?thesis by (simp add: field_text_def n B_formatter_format_def array_at_nth full_months_def)
  next
    case p_formatter
    with assms(1) sf [of "append_view s" s 2] l show ?thesis by (simp add: field_text_def n p_formatter_format_def)
  next
    case m_formatter
    with assms(1) sf [of "put2 (tm_mon t + 1)" s 2] l t tok show ?thesis by (simp add: field_text_def n put2_eq m_formatter_format_def)
  next
    case d_formatter
    with assms(1) sf [of "put2 (tm_mday t)" s 2] l t show ?thesis by (simp add: field_text_def n put2_eq d_formatter_format_def)
  next
    case H_formatter
    with assms(1) sf [of "put2 (tm_hour t)" s 2] l t show ?thesis by (simp add: field_text_def n put2_eq H_formatter_format_def)
  next
    case I_formatter
    with assms(1) sf [of "put2 (to12h t)" s 2] l t show ?thesis by (simp add: field_text_def n put2_eq I_formatter_format_def)
  next
    case M_formatter
    with assms(1) sf [of "put2 (tm_min t)" s 2] l t show ?thesis by (simp add: field_text_def n put2_eq M_formatter_format_def)
  next
    case S_formatter
    with assms(1) sf [of "put2 (tm_sec t)" s 2] l t show ?thesis by (simp add: field_text_def n put2_eq S_formatter_format_def)
  next
    case r_formatter
    have "r_formatter_format scoped_padder pi t dest = Some (dest @ pad_field pi s)"
      using assms(1) r_formatter l t unfolding r_formatter_format_def
      by (intro sf) (auto simp: field_text_def n put2_eq)
    with r_formatter show ?thesis by (simp add: n)
  next
    case R_formatter
    have "R_formatter_format scoped_padder pi t dest = Some (dest @ pad_field pi s)"
      using assms(1) R_formatter l t unfolding R_formatter_format_def
      by (intro sf) (auto simp: field_text_def n put2_eq)
    with R_formatter show ?thesis by (simp add: n)
  next
    case T_formatter
    have "T_formatter_format scoped_padder pi t dest = Some (dest @ pad_field pi s)"
      using assms(1) T_formatter l t unfolding T_formatter_format_def
      by (intro sf) (auto simp: field_text_def n put2_eq)
    with T_formatter show ?thesis by (simp add: n)
  qed (use assms(1) in \<open>simp_all add: field_text_def\<close>)
qed

section \<open>The full date\<close>

text \<open>\<open>c_formatter\<close> declares 24 chars; its day of the month is not padded.\<close>

definition c_text :: "tm \<Rightarrow> string" where
  "c_text t = days ! nat (tm_wday t) @ '' '' @ months ! nat (tm_mon t) @ '' '' @ to_string (tm_mday t) @ '' '' @
     two (tm_hour t) @ '':'' @ two (tm_min t) @ '':'' @ two (tm_sec t) @ '' '' @ to_string (tm_year t + 1900)"

lemma length_nth_names: "0 \<le> i \<Longrightarrow> i < 7 \<Longrightarrow> length (days ! nat i) = 3" "0 \<le> i \<Longrightarrow> i < 12 \<Longrightarrow> length (months ! nat i) = 3"
proof -
  have d: "list_all (\<lambda>s. length s = 3) days" "length days = 7" by (simp_all add: days_def)
  have m: "list_all (\<lambda>s. length s = 3) months" "length months = 12" by (simp_all add: months_def)
  have "nat i < 7" if "0 \<le> i" "i < 7" using that by linarith
  with d show "length (days ! nat i) = 3" if "0 \<le> i" "i < 7" using that by (auto simp only: list_all_length)
  have "nat i < 12" if "0 \<le> i" "i < 12" using that by linarith
  with m show "length (months ! nat i) = 3" if "0 \<le> i" "i < 12" using that by (auto simp only: list_all_length)
qed

lemma length_to_string:
  assumes "0 \<le> i" and "0 < k" and "nat i < 10 ^ k" and "k = 1 \<or> 10 ^ (k - 1) \<le> nat i"
  shows "length (to_string i) = k"
proof -
  have "length (digits (nat i)) \<le> k" using length_digits_le [OF assms(2)] assms(3) by (rule iffD2)
  moreover have "\<not> length (digits (nat i)) \<le> k - 1" if "1 < k"
    using assms(4) that length_digits_le [of "k - 1" "nat i"] by simp
  moreover have "0 < length (digits (nat i))" by simp
  ultimately have "length (digits (nat i)) = k" using assms(2) by (cases "k = 1") linarith+
  then show ?thesis using assms(1) by (simp add: to_string_nonneg)
qed

lemma c_text_length:
  assumes "calendar_ok t" and "0 \<le> tm_year t + 1900 - 1000" and "tm_year t + 1900 < 10000"
  shows "length (c_text t) = (if tm_mday t < 10 then 23 else 24)"
proof -
  have t: "0 \<le> tm_mday t" "tm_mday t < 100" "0 \<le> tm_hour t" "tm_hour t < 100" "0 \<le> tm_min t" "tm_min t < 100"
    "0 \<le> tm_sec t" "tm_sec t < 100" "0 \<le> tm_mon t" "tm_mon t < 12" "0 \<le> tm_wday t" "tm_wday t < 7"
    using assms(1) by (auto simp: calendar_ok_def tm_ok_def)
  have "length (to_string (tm_year t + 1900)) = 4"
    using assms(2,3) by (intro length_to_string) auto
  moreover have "length (to_string (tm_mday t)) = (if tm_mday t < 10 then 1 else 2)"
    using t length_to_string [of "tm_mday t" 1] length_to_string [of "tm_mday t" 2] by auto
  ultimately show ?thesis using t length_nth_names by (simp add: c_text_def length_two)
qed

lemma c_format:
  assumes "calendar_ok t"
  shows "c_formatter_format scoped_padder pi t dest = with_padder scoped_padder 24 pi (append_view (c_text t)) dest"
proof -
  have t: "tm_ok t" "0 \<le> tm_hour t" "0 \<le> tm_min t" "0 \<le> tm_sec t" "0 \<le> tm_mon t" "tm_mon t < 12" "0 \<le> tm_wday t" "tm_wday t < 7"
    using assms by (auto simp: calendar_ok_def tm_ok_def)
  note tok = tm_okD [OF t(1)]
  have "run_all [append_view (days ! nat (tm_wday t)), push_back (CHR '' ''), append_view (months ! nat (tm_mon t)), push_back (CHR '' ''),
        append_int 32 (tm_mday t), push_back (CHR '' ''),
        put2 (tm_hour t), push_back (CHR '':''), put2 (tm_min t), push_back (CHR '':''), put2 (tm_sec t),
        push_back (CHR '' ''), append_int 32 (tm_year t + 1900)] = append_view (c_text t)"
    using t tok by (intro ext) (simp add: append_view_def push_back_def append_int_eq put2_eq c_text_def)
  then show ?thesis
    using t tok by (simp add: c_formatter_format_def array_at_nth days_def months_def)
qed

text \<open>On the first nine days of a month a field of 24 stays one char short, and a field of 0 eats a char before it.\<close>

lemma c_field_short:
  assumes "calendar_ok t" and "1000 \<le> tm_year t + 1900" and "tm_year t + 1900 < 10000" and "tm_mday t < 10"
  shows "length (c_text t) = 23"
    and "c_formatter_format scoped_padder (make_padding 24 side trunc) t dest = Some (dest @ c_text t)"
    and "c_formatter_format scoped_padder (make_padding 0 side True) t (dest @ [x]) = Some dest"
proof -
  show l: "length (c_text t) = 23" using c_text_length [of t] assms by simp
  show "c_formatter_format scoped_padder (make_padding 24 side trunc) t dest = Some (dest @ c_text t)"
    unfolding c_format [OF assms(1)]
    by (simp add: with_padder_def padder_ctor_def padder_dtor_def make_padding_def append_view_def pad_it_def)
  show "c_formatter_format scoped_padder (make_padding 0 side True) t (dest @ [x]) = Some dest"
    unfolding c_format [OF assms(1)] using l
    by (simp add: with_padder_def padder_ctor_def padder_dtor_def make_padding_def append_view_def Let_def)
qed

end
