(* ===== verification/Logging_Theorems.thy ===== *)
theory Logging_Theorems
  imports Logger_Facts Log_Fields
begin

text \<open>
  What the server's logging does: which lines go where, formatting without undefined behaviour, patterns
  and their text, fields and digits.
\<close>

section \<open>A calendar, a process and messages for the examples\<close>

definition demo_tm :: tm where
  "demo_tm = \<lparr>tm_sec = 1, tm_min = 42, tm_hour = 12, tm_mday = 4, tm_mon = 3, tm_year = 124, tm_wday = 4, tm_gmtoff = 0\<rparr>"

definition demo_env :: os_env where
  "demo_env = \<lparr>os_localtime = (\<lambda>_. demo_tm), os_gmtime = (\<lambda>_. demo_tm), os_pid = 42, os_cpu = 3, mdc_context = []\<rparr>"

definition demo_msg :: "level_enum \<Rightarrow> log_msg" where
  "demo_msg lvl = make_log_msg 1712234521042000000 7 \<lparr>loc_filename = None, loc_line = 0, loc_funcname = None\<rparr>
     ''range_pricer'' lvl ''ready''"

lemma demo_tm_ok: "clock_ok demo_tm" "calendar_ok demo_tm" "tm_ok demo_tm"
  by (simp_all add: demo_tm_def clock_ok_def calendar_ok_def tm_ok_def int_op_def)

lemma demo_env_ok: "env_ok demo_env"
  by (simp add: env_ok_def demo_env_def demo_tm_ok)

lemma demo_msg_ok: "lvl \<noteq> n_levels \<Longrightarrow> msg_ok (demo_msg lvl)"
  by (simp add: msg_ok_def demo_msg_def make_log_msg_def time_ok_def loc_empty_def)

section \<open>Which lines go where\<close>

text \<open>
  C13. For every sequence of messages after the first second of the epoch, whatever the flags of the
  program: a message from \<open>debug\<close> on gives one and the same line to the log file, if there is one, and to
  the console from \<open>info\<close> on, and the logger flushes both from \<open>warn\<close> on; the line is the time, process, thread
  and CPU as the flags say, the level and the text, with no stale time from an earlier message.  The console
  flushes its stream after each line it writes, whatever the level, the log file only from \<open>warn\<close> on.
\<close>

theorem program_logs:
  assumes "\<forall>s. clock_ok (cal s)"
    and "list_all (\<lambda>(env, msg). os_localtime env = cal \<and> msg_ok msg \<and> 10 ^ 9 \<le> msg_time msg) xs"
  shows "log_run (setup_logger now eol log_file utc tid cpu_id) xs =
    Some (map (\<lambda>(env, msg). let line = log_line env (cal (msg_time msg div 10 ^ 9)) msg eol utc tid cpu_id;
        to = (\<lambda>lvl at_once. if lvl \<le> msg_level msg then Some (line, at_once) else None)
      in ((if log_file = [] then [to level_info True] else [to level_info True, to level_debug False]),
          level_warn \<le> msg_level msg \<and> msg_level msg \<noteq> level_off)) xs)"
  using log_run_ready [where eol = eol and log_file = log_file and utc = utc and tid = tid and cpu_id = cpu_id,
      OF setup_logger_ready assms]
  by (cases "log_file = []") (simp_all add: routes_def program_sinks_def Let_def)

theorem program_logs_witness:
  "log_run (setup_logger 0 [CHR 0x0A] ''pricer.log'' False True False)
     [(demo_env, demo_msg level_debug), (demo_env, demo_msg level_err)] =
   Some [([None, Some (''[2024-04-04 12:42:01.042] [pid:42] [tid:7] [debug] ready'' @ [CHR 0x0A], False)], False),
         ([Some (''[2024-04-04 12:42:01.042] [pid:42] [tid:7] [error] ready'' @ [CHR 0x0A], True),
           Some (''[2024-04-04 12:42:01.042] [pid:42] [tid:7] [error] ready'' @ [CHR 0x0A], False)], True)]"
proof -
  have l: "log_line demo_env demo_tm (demo_msg level_debug) [CHR 0x0A] False True False =
        ''[2024-04-04 12:42:01.042] [pid:42] [tid:7] [debug] ready'' @ [CHR 0x0A]"
    "log_line demo_env demo_tm (demo_msg level_err) [CHR 0x0A] False True False =
        ''[2024-04-04 12:42:01.042] [pid:42] [tid:7] [error] ready'' @ [CHR 0x0A]"
    by code_simp+
  have m: "msg_level (demo_msg lvl) = lvl" "1000000000 \<le> msg_time (demo_msg lvl)" for lvl
    by (simp_all add: demo_msg_def make_log_msg_def)
  have c: "os_localtime demo_env = (\<lambda>_. demo_tm)" by (simp add: demo_env_def)
  show ?thesis
    by (subst program_logs [of "\<lambda>_. demo_tm"]) (simp_all add: less_eq_level_enum_def m c l demo_tm_ok demo_msg_ok Let_def)
qed

text \<open>
  On a terminal the level of a line, and nothing else, is wrapped in the colour of the level, and the stream is
  flushed after the line.
\<close>

theorem console_colours_level:
  assumes "\<forall>s. clock_ok (os_localtime env s)" and "msg_ok msg" and "10 ^ 9 \<le> msg_time msg"
  shows "map_option snd (ansicolor_log env True (make_formatter now eol (log_pattern utc tid cpu_id)) msg) =
    Some [Fwrite (line_prefix env (os_localtime env (msg_time msg div 10 ^ 9)) msg utc tid cpu_id),
      Fwrite (colors ! level_num (msg_level msg)), Fwrite (the (to_string_view (msg_level msg))), Fwrite color_reset,
      Fwrite (''] '' @ payload msg @ eol), Fflush]"
  by (rule ansicolor_log_program [OF make_formatter_program assms])

theorem console_colours_level_witness:
  "map_option snd (ansicolor_log demo_env True (make_formatter 0 [CHR 0x0A] (log_pattern True False False)) (demo_msg level_info)) =
   Some [Fwrite ''[1712234521.042] [pid:42] ['', Fwrite ([CHR 0x1B] @ ''[32m''), Fwrite ''info'', Fwrite ([CHR 0x1B] @ ''[m''),
     Fwrite (''] ready'' @ [CHR 0x0A]), Fflush]"
proof -
  have l: "line_prefix demo_env t (demo_msg level_info) True False False = ''[1712234521.042] [pid:42] [''" for t
    by (simp add: line_prefix_def demo_env_def demo_msg_def make_log_msg_def digits.simps digit_chars zero_padded_def)
  have m: "10 ^ 9 \<le> msg_time (demo_msg level_info)" "msg_level (demo_msg level_info) = level_info" "payload (demo_msg level_info) = ''ready''"
    by (simp_all add: demo_msg_def make_log_msg_def)
  have e: "\<forall>s. clock_ok (os_localtime demo_env s)" by (simp add: demo_env_def demo_tm_ok)
  show ?thesis
    by (subst console_colours_level [OF e demo_msg_ok m(1)])
      (simp_all add: l m colors_def esc_def color_reset_def to_string_view_def array_at_def level_string_views_def)
qed

section \<open>Formatting\<close>

text \<open>
  C15. Whatever the pattern and the custom flags, formatting any sequence of messages is defined: no name
  table, padding or buffer is read or written out of bounds and no integer overflows, for calendar times
  of the operating system and times within \<open>2 ^ 62\<close> nanoseconds of the epoch.
\<close>

theorem formatting_is_defined:
  assumes "time_ok now" and "list_all (\<lambda>(env, msg). env_ok env \<and> msg_ok msg) xs"
  shows "\<exists>lines. format_all (mk_pattern_formatter now pattern time_type eol flags) xs = Some lines \<and> length lines = length xs"
  by (rule format_all_total [OF mk_pattern_formatter_ok [OF assms(1)] assms(2)])

theorem formatting_is_defined_witness:
  "\<exists>lines. format_all (mk_pattern_formatter 0 ''%20!c %z %-8@ %o %+'' time_utc [] (\<lambda>_. None))
     [(demo_env, demo_msg level_info), (demo_env, demo_msg level_off)] = Some lines \<and> length lines = 2"
proof -
  have "list_all (\<lambda>(env, msg). env_ok env \<and> msg_ok msg) [(demo_env, demo_msg level_info), (demo_env, demo_msg level_off)]"
    by (simp add: demo_env_ok demo_msg_ok)
  from formatting_is_defined [OF _ this, of 0 "''%20!c %z %-8@ %o %+''" time_utc "[]" "\<lambda>_. None"] show ?thesis
    by (simp add: time_ok_def numeral_2_eq_2 del: format_all.simps)
qed

text \<open>
  C38. Well-formedness: the formatters of a pattern formatter never pad to more than 64 chars, the size of
  the padder's block of spaces, and keep times within range; its constructor, a new pattern, a copy and
  formatting a message all keep this.
\<close>

theorem pattern_formatter_well_formed:
  assumes "time_ok now"
  shows "pattern_ok (mk_pattern_formatter now pattern time_type eol flags) \<and>
    (\<forall>p pattern'. pattern_ok p \<longrightarrow> pattern_ok (set_pattern now pattern' p)) \<and> (\<forall>p. pattern_ok (pf_clone now p)) \<and>
    (\<forall>env p msg dest p' msg' d. pattern_ok p \<and> env_ok env \<and> msg_ok msg \<and>
       pattern_format env p msg dest = Some (p', msg', d) \<longrightarrow> pattern_ok p' \<and> msg_ok msg')"
proof (intro conjI allI impI)
  show "pattern_ok (pf_clone now p)" for p
    using mk_pattern_formatter_ok [OF assms, of "pf_pattern p" "pf_time_type p" "pf_eol p" "pf_custom_handlers p"]
    by (simp add: pf_clone_def pattern_ok_def)
  fix env p msg dest p' msg' d
  assume "pattern_ok p \<and> env_ok env \<and> msg_ok msg \<and> pattern_format env p msg dest = Some (p', msg', d)"
  with pattern_format_total [of p env msg dest] show "pattern_ok p'" "msg_ok msg'" by auto
qed (use assms in \<open>simp_all add: mk_pattern_formatter_ok set_pattern_ok\<close>)

theorem pattern_formatter_well_formed_witness:
  "pattern_ok (mk_pattern_formatter 0 ''%99999v'' time_local [] (\<lambda>_. None)) \<and>
   pattern_ok (set_pattern 0 ''%=70!l'' (mk_pattern_formatter 0 ''%99999v'' time_local [] (\<lambda>_. None)))"
proof -
  have "time_ok 0" by (simp add: time_ok_def)
  note w = pattern_formatter_well_formed [OF this]
  have "pattern_ok (mk_pattern_formatter 0 ''%99999v'' time_local [] (\<lambda>_. None))" using w by blast
  moreover from this have "pattern_ok (set_pattern 0 ''%=70!l'' (mk_pattern_formatter 0 ''%99999v'' time_local [] (\<lambda>_. None)))"
    using w by blast
  ultimately show ?thesis ..
qed

text \<open>
  C37. Round trip: compiling the text of a list of text pieces and flags, each flag with any padding of at
  most 64, gives the formatters of exactly these pieces and flags.
\<close>

theorem pattern_roundtrip:
  assumes "items_ok items"
  shows "compile_pattern now (print_pattern items) p = compile_items now items (p\<lparr>pf_formatters := []\<rparr>)"
  by (rule compile_print_pattern [OF assms])

theorem pattern_roundtrip_witness:
  "print_pattern [Text ''a '', Flag (make_padding 12 side_center True) (CHR ''n''), Flag no_padding (CHR ''v'')] = ''a %=12!n%v'' \<and>
   compile_pattern 0 ''a %=12!n%v'' (default_pattern_formatter time_local []) =
     compile_items 0 [Text ''a '', Flag (make_padding 12 side_center True) (CHR ''n''), Flag no_padding (CHR ''v'')]
       ((default_pattern_formatter time_local [])\<lparr>pf_formatters := []\<rparr>)"
proof -
  let ?items = "[Text ''a '', Flag (make_padding 12 side_center True) (CHR ''n''), Flag no_padding (CHR ''v'')]"
  have i: "items_ok ?items" by (simp add: flag_ok_def make_padding_def no_padding_def isdigit_def)
  have p: "print_pattern ?items = ''a %=12!n%v''"
    by (simp add: print_pattern_def print_padding_def make_padding_def no_padding_def digits.simps digit_chars)
  from pattern_roundtrip [OF i, of 0 "default_pattern_formatter time_local []"] show ?thesis
    unfolding p by (intro conjI refl)
qed

text \<open>
  The width of a flag is read as a \<open>size_t\<close> and cut at 64; a number of more than 64 bits wraps
  before it is cut, so that \<open>%18446744073709551626v\<close> is a field of width 10.
\<close>

theorem padding_width_read:
  "(n < 2 ^ 64 \<and> \<not> isdigit c \<and> c \<noteq> CHR ''!'' \<longrightarrow>
      handle_padspec (digits n @ [c]) = (make_padding (min n 64) side_left False, [c])) \<and>
   handle_padspec ''18446744073709551626v'' = (make_padding 10 side_left False, ''v'')"
proof
  show "n < 2 ^ 64 \<and> \<not> isdigit c \<and> c \<noteq> CHR ''!'' \<longrightarrow>
      handle_padspec (digits n @ [c]) = (make_padding (min n 64) side_left False, [c])"
    using handle_padspec_number [of n c False side_left "[]"] by (simp add: print_padding_def make_padding_def)
  show "handle_padspec ''18446744073709551626v'' = (make_padding 10 side_left False, ''v'')"
    by (simp add: handle_padspec_def padspec_digits.simps isdigit_def make_padding_def)
qed

theorem padding_width_read_witness:
  "handle_padspec (digits 300 @ ''v'') = (make_padding 64 side_left False, ''v'')"
proof -
  have "\<not> isdigit (CHR ''v'')" by (simp add: isdigit_def)
  then show ?thesis using padding_width_read [of 300 "CHR ''v''"] by simp
qed

text \<open>
  The default formatter keeps the calendar time and the text of the date from message to message; its
  lines are those it would give without any cache, for all times outside the first second of the epoch.
\<close>

theorem default_cache_transparent:
  assumes "list_all (\<lambda>(env, msg). os_localtime env = cal \<and> msg_time msg sdiv 10 ^ 9 \<noteq> 0) xs"
  shows "format_all (default_pattern_formatter time_local eol) xs = those (map (\<lambda>(env, msg). full_line env eol msg) xs)"
  by (rule default_format_all [OF default_state_init assms])

theorem default_cache_transparent_witness:
  "format_all (default_pattern_formatter time_local []) [(demo_env, demo_msg level_info), (demo_env, demo_msg level_warn)] =
   those [full_line demo_env [] (demo_msg level_info), full_line demo_env [] (demo_msg level_warn)] \<and>
   full_line demo_env [] (demo_msg level_warn) = Some ''[2024-04-04 12:42:01.042] [range_pricer] [warning] ready''"
proof
  have "msg_time (demo_msg lvl) sdiv 10 ^ 9 \<noteq> 0" for lvl by (cases lvl; code_simp)
  then show "format_all (default_pattern_formatter time_local []) [(demo_env, demo_msg level_info), (demo_env, demo_msg level_warn)] =
      those [full_line demo_env [] (demo_msg level_info), full_line demo_env [] (demo_msg level_warn)]"
    by (subst default_cache_transparent [of "\<lambda>_. demo_tm"]) (simp_all add: demo_env_def)
  show "full_line demo_env [] (demo_msg level_warn) = Some ''[2024-04-04 12:42:01.042] [range_pricer] [warning] ready''"
    by code_simp
qed

section \<open>Fields and numbers\<close>

text \<open>
  A padded flag of known size gives its text in a field of the width: blanks on the left, on the right
  or on both sides, and the text is cut at the width when truncation is asked for; what was written before
  the field stays as it was.
\<close>

theorem padded_flag_is_a_field:
  assumes "field_text env t msg c = Some s" and "calendar_ok t" and "msg_ok msg" and "0 \<le> msg_time msg" and "pi_width pi \<le> 64"
  shows "flag_format env \<lparr>ff_class = c, ff_padder = scoped_padder, ff_padinfo = pi\<rparr> msg t dest =
      Some (\<lparr>ff_class = c, ff_padder = scoped_padder, ff_padinfo = pi\<rparr>, msg, dest @ pad_field pi s) \<and>
    length (pad_field pi s) = (if pi_truncate pi then pi_width pi else max (pi_width pi) (length s))"
  by (rule conjI [OF field_format [OF assms] length_pad_field])

theorem padded_flag_is_a_field_witness:
  "map_option (snd \<circ> snd) (flag_format demo_env \<lparr>ff_class = level_formatter, ff_padder = scoped_padder,
     ff_padinfo = make_padding 10 side_center False\<rparr> (demo_msg level_info) demo_tm ''>'') = Some ''>   info   ''"
proof -
  have f: "field_text demo_env demo_tm (demo_msg level_info) level_formatter = Some ''info''" by code_simp
  have p: "pad_field (make_padding 10 side_center False) ''info'' = ''   info   ''" by code_simp
  have "0 \<le> msg_time (demo_msg level_info)" "pi_width (make_padding 10 side_center False) \<le> 64"
    by (simp_all add: demo_msg_def make_log_msg_def make_padding_def)
  from padded_flag_is_a_field [OF f demo_tm_ok(2) demo_msg_ok this, of "''>''"] show ?thesis by (simp add: p)
qed

text \<open>
  The flag of the full date declares 24 chars but writes the day of the month unpadded: on the first
  nine days of a month its text has 23, a field of 24 stays one short, and a truncated field of width 0
  removes a char that was written before it.
\<close>

theorem date_field_short:
  assumes "calendar_ok t" and "1000 \<le> tm_year t + 1900" and "tm_year t + 1900 < 10000" and "tm_mday t < 10"
  shows "length (c_text t) = 23 \<and>
    c_formatter_format scoped_padder (make_padding 24 side trunc) t dest = Some (dest @ c_text t) \<and>
    c_formatter_format scoped_padder (make_padding 0 side True) t (dest @ [x]) = Some dest"
  using c_field_short [OF assms] by blast

theorem date_field_short_witness:
  "c_formatter_format scoped_padder (make_padding 24 side_left False) demo_tm ''['' = Some ''[Thu Apr 4 12:42:01 2024'' \<and>
   c_formatter_format scoped_padder (make_padding 0 side_left True) demo_tm ''level['' = Some ''level''"
proof -
  have c: "c_text demo_tm = ''Thu Apr 4 12:42:01 2024''" by code_simp
  have t: "1000 \<le> tm_year demo_tm + 1900" "tm_year demo_tm + 1900 < 10000" "tm_mday demo_tm < 10"
    by (simp_all add: demo_tm_def)
  note d = date_field_short [OF demo_tm_ok(2) t]
  from d [of side_left False "''[''" "CHR ''x''"] d [of side_left False "''level''" "CHR ''[''"] c show ?thesis by simp
qed

text \<open>
  The table-driven counts of decimal digits, of 64 and of 32 bits, agree with the loop of divisions, and
  all give the length of the decimal text.
\<close>

theorem digit_counts_agree:
  "(n < 2 ^ 64 \<longrightarrow> do_count_digits_64 n = count_digits_fallback n 1) \<and>
   (n < 2 ^ 32 \<longrightarrow> do_count_digits_32 n = count_digits_fallback n 1) \<and> count_digits_fallback n 1 = length (digits n)"
  using do_count_digits_64_eq [of n] do_count_digits_32_eq [of n] count_digits_fallback_eq [of n 1] by simp

theorem digit_counts_agree_witness:
  "do_count_digits_64 18446744073709551615 = 20 \<and> do_count_digits_32 4294967295 = 10"
proof -
  have c: "count_digits_fallback 18446744073709551615 1 = 20" "count_digits_fallback 4294967295 1 = 10"
    by (simp_all add: count_digits_fallback.simps)
  have "do_count_digits_64 18446744073709551615 = count_digits_fallback 18446744073709551615 1"
    using digit_counts_agree [of 18446744073709551615] by simp
  moreover have "do_count_digits_32 4294967295 = count_digits_fallback 4294967295 1"
    using digit_counts_agree [of 4294967295] by simp
  ultimately show ?thesis by (simp only: c)
qed

text \<open>
  Round trip of decimal text: \<open>format_int\<close>, which fills its buffer backwards two digits at a time, never
  leaves the buffer, and its text of a 64-bit number reads back as the number; a signed number gets a minus
  sign and the digits of its absolute value, the smallest one included.
\<close>

theorem decimal_text_roundtrip:
  assumes "length buffer = fmt_buffer_size"
  shows "(n < 2 ^ 64 \<longrightarrow> map_option (digits_val \<circ> format_int_text) (format_unsigned buffer n) = Some n) \<and>
    (- (2 ^ 63) \<le> i \<and> i < 2 ^ 63 \<longrightarrow>
       map_option format_int_text (format_signed 64 buffer i) = Some ((if i < 0 then ''-'' else []) @ digits (nat \<bar>i\<bar>)))"
proof (intro conjI impI)
  assume "n < 2 ^ 64"
  from arg_cong [OF format_unsigned_text [OF this assms], of "map_option digits_val"]
  show "map_option (digits_val \<circ> format_int_text) (format_unsigned buffer n) = Some n"
    by (simp add: option.map_comp digits_val_digits)
next
  assume "- (2 ^ 63) \<le> i \<and> i < 2 ^ 63"
  with format_signed_text [of 64 i buffer] assms
  show "map_option format_int_text (format_signed 64 buffer i) = Some ((if i < 0 then ''-'' else []) @ digits (nat \<bar>i\<bar>))"
    by (cases "i < 0") (simp_all add: to_string_def)
qed

theorem decimal_text_roundtrip_witness:
  "map_option format_int_text (format_signed 64 int_buffer (- 9223372036854775808)) = Some ''-9223372036854775808''"
proof -
  have d: "digits 9223372036854775808 = ''9223372036854775808''" by (simp add: digits.simps digit_chars)
  from decimal_text_roundtrip [OF int_buffer_length, of 0 "- 9223372036854775808"] d show ?thesis by simp
qed

end
