(* ===== verification/Circular_Q.thy ===== *)
theory Circular_Q
  imports Prelude
begin

text \<open>
  \<open>spdlog/details/circular_q.h\<close>, the queues built on it in \<open>mpmc_blocking_q.h\<close>, and the messages kept
  by \<open>backtracer-inl.h\<close>.  A ring of \<open>max_items_\<close> slots, one of them free, implements a bounded queue
  that drops its oldest element when it is full; the interface is the locale \<open>bounded_queue\<close>.
\<close>

section \<open>The ring\<close>

record 'a circular_q =
  cq_max_items :: nat
  cq_head :: nat
  cq_tail :: nat
  cq_overrun :: nat
  cq_v :: "'a list"

definition disabled_q :: "'a circular_q" where
  "disabled_q = \<lparr>cq_max_items = 0, cq_head = 0, cq_tail = 0, cq_overrun = 0, cq_v = []\<rparr>"

text \<open>The slots start as default elements; the size wraps.\<close>

definition mk_circular_q :: "'a \<Rightarrow> nat \<Rightarrow> 'a circular_q" where
  "mk_circular_q dflt max_items =
     (let n = (max_items + 1) mod 2 ^ 64
      in \<lparr>cq_max_items = n, cq_head = 0, cq_tail = 0, cq_overrun = 0, cq_v = replicate n dflt\<rparr>)"

definition cq_push_back :: "'a \<Rightarrow> 'a circular_q \<Rightarrow> 'a circular_q option" where
  "cq_push_back item q =
     (if cq_max_items q > 0 then
        (if cq_tail q < length (cq_v q) then
           (let v = (cq_v q)[cq_tail q := item]; tail = (cq_tail q + 1) mod cq_max_items q
            in Some (if tail = cq_head q
                     then q\<lparr>cq_v := v, cq_tail := tail, cq_head := (cq_head q + 1) mod cq_max_items q,
                            cq_overrun := (cq_overrun q + 1) mod 2 ^ 64\<rparr>
                     else q\<lparr>cq_v := v, cq_tail := tail\<rparr>))
         else None)
      else Some q)"

definition cq_front :: "'a circular_q \<Rightarrow> 'a option" where
  "cq_front q = (if cq_head q < length (cq_v q) then Some (cq_v q ! cq_head q) else None)"

definition cq_size :: "'a circular_q \<Rightarrow> nat" where
  "cq_size q = (if cq_tail q \<ge> cq_head q then cq_tail q - cq_head q else cq_max_items q - (cq_head q - cq_tail q))"

text \<open>Outside the range, and with no slots at all, the access is undefined.\<close>

definition cq_at :: "nat \<Rightarrow> 'a circular_q \<Rightarrow> 'a option" where
  "cq_at i q =
     (if i < cq_size q \<and> cq_max_items q \<noteq> 0 \<and> (cq_head q + i) mod cq_max_items q < length (cq_v q)
      then Some (cq_v q ! ((cq_head q + i) mod cq_max_items q)) else None)"

definition cq_pop_front :: "'a circular_q \<Rightarrow> 'a circular_q option" where
  "cq_pop_front q =
     (if cq_max_items q = 0 then None else Some (q\<lparr>cq_head := (cq_head q + 1) mod cq_max_items q\<rparr>))"

definition cq_empty :: "'a circular_q \<Rightarrow> bool" where
  "cq_empty q \<longleftrightarrow> cq_tail q = cq_head q"

definition cq_full :: "'a circular_q \<Rightarrow> bool" where
  "cq_full q \<longleftrightarrow> (if cq_max_items q > 0 then (cq_tail q + 1) mod cq_max_items q = cq_head q else False)"

definition cq_reset_overrun :: "'a circular_q \<Rightarrow> 'a circular_q" where
  "cq_reset_overrun q = q\<lparr>cq_overrun := 0\<rparr>"

text \<open>\<open>copy_moveable\<close>: the new queue and the disabled one that it was moved from.\<close>

definition cq_copy_moveable :: "'a circular_q \<Rightarrow> 'a circular_q \<times> 'a circular_q" where
  "cq_copy_moveable other =
     (other, other\<lparr>cq_max_items := 0, cq_head := 0, cq_tail := 0, cq_overrun := 0, cq_v := []\<rparr>)"

section \<open>The interface\<close>

text \<open>
  The loop of \<open>foreach_pop\<close> over a queue: the elements it visits and the queue after it.  Fuel beyond
  the number of elements changes nothing.
\<close>

fun drain_with :: "('q \<Rightarrow> bool) \<Rightarrow> ('q \<Rightarrow> 'a option) \<Rightarrow> ('q \<Rightarrow> 'q option) \<Rightarrow> nat \<Rightarrow> 'q \<Rightarrow> ('a list \<times> 'q) option" where
  "drain_with is_empty front pop 0 q = None"
| "drain_with is_empty front pop (Suc fuel) q =
     (if is_empty q then Some ([], q)
      else do { x \<leftarrow> front q; q' \<leftarrow> pop q; (xs, q'') \<leftarrow> drain_with is_empty front pop fuel q'; Some (x # xs, q'') })"

text \<open>A queue of at most \<open>cap\<close> elements; a push into a full one drops the oldest element.\<close>

definition overwrite :: "nat \<Rightarrow> 'a list \<Rightarrow> 'a \<Rightarrow> 'a list" where
  "overwrite cap xs x = drop (length xs + 1 - cap) (xs @ [x])"

text \<open>Keeping the last elements of a list that was cut in the same way is keeping those of the whole.\<close>

lemma last_of_last:
  "drop (length (drop (length ys - n) ys @ zs) - n) (drop (length ys - n) ys @ zs) = drop (length (ys @ zs) - n) (ys @ zs)"
proof -
  let ?k = "length ys - n"
  have "drop ?k ys @ zs = drop ?k (ys @ zs)" by simp
  moreover have "length (drop ?k (ys @ zs)) - n + ?k = length (ys @ zs) - n" by auto
  ultimately show ?thesis by (simp only: drop_drop)
qed

locale bounded_queue =
  fixes inv :: "'q \<Rightarrow> bool" and contents :: "'q \<Rightarrow> 'a list" and cap :: "'q \<Rightarrow> nat"
    and push :: "'a \<Rightarrow> 'q \<Rightarrow> 'q option" and pop :: "'q \<Rightarrow> 'q option" and front :: "'q \<Rightarrow> 'a option"
    and is_empty :: "'q \<Rightarrow> bool" and is_full :: "'q \<Rightarrow> bool"
  assumes bound: "inv q \<Longrightarrow> length (contents q) \<le> cap q"
    and push_ok: "inv q \<Longrightarrow> \<exists>q'. push x q = Some q' \<and> inv q' \<and> cap q' = cap q \<and> contents q' = overwrite (cap q) (contents q) x"
    and pop_ok: "inv q \<Longrightarrow> contents q \<noteq> [] \<Longrightarrow> \<exists>q'. pop q = Some q' \<and> inv q' \<and> cap q' = cap q \<and> contents q' = tl (contents q)"
    and front_ok: "inv q \<Longrightarrow> contents q \<noteq> [] \<Longrightarrow> front q = Some (hd (contents q))"
    and empty_ok: "inv q \<Longrightarrow> is_empty q \<longleftrightarrow> contents q = []"
    and full_ok: "inv q \<Longrightarrow> 0 < cap q \<Longrightarrow> is_full q \<longleftrightarrow> length (contents q) = cap q"
begin

text \<open>Pushing a list keeps its last \<open>cap\<close> elements.\<close>

fun push_all :: "'a list \<Rightarrow> 'q \<Rightarrow> 'q option" where
  "push_all [] q = Some q"
| "push_all (x # xs) q = do { q' \<leftarrow> push x q; push_all xs q' }"

lemma push_all_ok:
  "inv q \<Longrightarrow> \<exists>q'. push_all xs q = Some q' \<and> inv q' \<and> cap q' = cap q \<and>
     contents q' = drop (length (contents q @ xs) - cap q) (contents q @ xs)"
proof (induction xs arbitrary: q)
  case Nil
  then show ?case using bound [of q] by simp
next
  case (Cons x xs)
  from push_ok [OF Cons.prems, of x] obtain q1 where
    q1: "push x q = Some q1" "inv q1" "cap q1 = cap q" "contents q1 = overwrite (cap q) (contents q) x" by blast
  from Cons.IH [OF q1(2)] obtain q' where
    q': "push_all xs q1 = Some q'" "inv q'" "cap q' = cap q1"
      "contents q' = drop (length (contents q1 @ xs) - cap q1) (contents q1 @ xs)" by blast
  from q1 q' last_of_last [of "contents q @ [x]" "cap q" xs] show ?case by (simp add: overwrite_def)
qed

text \<open>Taking elements until it is empty gives the contents in order.\<close>

lemma drain_ok:
  "inv q \<Longrightarrow> length (contents q) < fuel \<Longrightarrow> \<exists>q'. drain_with is_empty front pop fuel q = Some (contents q, q') \<and> inv q' \<and> cap q' = cap q \<and> contents q' = []"
proof (induction fuel arbitrary: q)
  case 0
  then show ?case by simp
next
  case (Suc fuel)
  show ?case
  proof (cases "contents q")
    case Nil
    with Suc.prems empty_ok show ?thesis by simp
  next
    case (Cons x xs)
    then have ne: "contents q \<noteq> []" by simp
    obtain q1 where q1: "pop q = Some q1" "inv q1" "cap q1 = cap q" "contents q1 = xs"
      using pop_ok [OF Suc.prems(1) ne] Cons by auto
    obtain q' where "drain_with is_empty front pop fuel q1 = Some (contents q1, q')" "inv q'" "cap q' = cap q1" "contents q' = []"
      using Suc.IH [OF q1(2)] Suc.prems(2) q1(4) Cons by auto
    with q1 ne Cons front_ok [OF Suc.prems(1) ne] empty_ok [OF Suc.prems(1)] show ?thesis by simp
  qed
qed

end

section \<open>The ring implements it\<close>

definition cq_inv :: "'a circular_q \<Rightarrow> bool" where
  "cq_inv q \<longleftrightarrow>
     (if cq_max_items q = 0 then cq_head q = 0 \<and> cq_tail q = 0
      else cq_head q < cq_max_items q \<and> cq_tail q < cq_max_items q \<and> length (cq_v q) = cq_max_items q)"

definition cq_contents :: "'a circular_q \<Rightarrow> 'a list" where
  "cq_contents q = map (\<lambda>i. cq_v q ! ((cq_head q + i) mod cq_max_items q)) [0..<cq_size q]"

definition cq_cap :: "'a circular_q \<Rightarrow> nat" where
  "cq_cap q = cq_max_items q - 1"

lemma length_cq_contents [simp]: "length (cq_contents q) = cq_size q"
  by (simp add: cq_contents_def)

lemma cq_contents_Nil: "cq_contents q = [] \<longleftrightarrow> cq_size q = 0"
  by (simp add: cq_contents_def)

lemma cq_size_disabled: "cq_inv q \<Longrightarrow> cq_max_items q = 0 \<Longrightarrow> cq_size q = 0"
  by (simp add: cq_inv_def cq_size_def)

lemma cq_size_mod:
  assumes "cq_inv q" and "cq_max_items q \<noteq> 0"
  shows "cq_size q < cq_max_items q" and "(cq_head q + cq_size q) mod cq_max_items q = cq_tail q"
  using assms by (auto simp: cq_inv_def cq_size_def)

lemma mk_circular_q_inv: "cq_inv (mk_circular_q dflt n)"
  by (simp add: cq_inv_def mk_circular_q_def Let_def)

lemma mk_circular_q_contents: "cq_contents (mk_circular_q dflt n) = []"
  by (simp add: cq_contents_def mk_circular_q_def cq_size_def Let_def)

lemma mk_circular_q_cap: "n + 1 < 2 ^ 64 \<Longrightarrow> cq_cap (mk_circular_q dflt n) = n"
  by (simp add: cq_cap_def mk_circular_q_def Let_def)

lemma mod_step: "x < (m :: nat) \<Longrightarrow> (x + 1) mod m = (if x + 1 = m then 0 else x + 1)"
  by auto

text \<open>A window of a ring.\<close>

definition ring :: "'a list \<Rightarrow> nat \<Rightarrow> nat \<Rightarrow> 'a list" where
  "ring v h n = map (\<lambda>i. v ! ((h + i) mod length v)) [0..<n]"

lemma ring_Suc: "ring v h (Suc n) = ring v h n @ [v ! ((h + n) mod length v)]"
  by (simp add: ring_def)

lemma length_ring [simp]: "length (ring v h n) = n"
  by (simp add: ring_def)

lemma ring_tl: "ring v (Suc h mod length v) n = tl (ring v h (Suc n))"
proof (intro nth_equalityI)
  fix i
  assume "i < length (ring v (Suc h mod length v) n)"
  then show "ring v (Suc h mod length v) n ! i = tl (ring v h (Suc n)) ! i"
    by (simp add: ring_def nth_tl mod_simps del: upt_Suc)
qed simp

lemma ring_hd: "0 < n \<Longrightarrow> h < length v \<Longrightarrow> hd (ring v h n) = v ! h"
  by (simp add: ring_def hd_map upt_conv_Cons)

lemma mod_add_inj:
  assumes "(h + i) mod m = (h + j) mod m" and "i < m" and "j < (m :: nat)"
  shows "i = j"
proof -
  have *: "i = j" if "i \<le> j" "j < m" "(h + j) mod m = (h + i) mod m" for i j
  proof -
    have "m dvd (h + j) - (h + i)" using that by (subst mod_eq_dvd_iff_nat [symmetric]) simp_all
    with that(1,2) show ?thesis by (cases "j - i = 0") (auto dest: dvd_imp_le)
  qed
  from assms *[of i j] *[of j i] show ?thesis by (cases "i \<le> j") simp_all
qed

lemma ring_update:
  assumes "n < length v"
  shows "ring (v[(h + n) mod length v := x]) h (Suc n) = ring v h n @ [x]"
proof (intro nth_equalityI)
  fix i
  assume i: "i < length (ring (v[(h + n) mod length v := x]) h (Suc n))"
  have l: "0 < length v" "v \<noteq> []" using assms by auto
  show "ring (v[(h + n) mod length v := x]) h (Suc n) ! i = (ring v h n @ [x]) ! i"
  proof (cases "i = n")
    case True
    with l show ?thesis by (simp add: ring_def nth_append del: upt_Suc)
  next
    case False
    with i have "i < n" by simp
    with assms have "(h + n) mod length v \<noteq> (h + i) mod length v" using mod_add_inj [of h n "length v" i] by auto
    with \<open>i < n\<close> show ?thesis by (simp add: ring_def nth_append del: upt_Suc)
  qed
qed simp

lemma cq_contents_ring: "cq_inv q \<Longrightarrow> cq_max_items q \<noteq> 0 \<Longrightarrow> cq_contents q = ring (cq_v q) (cq_head q) (cq_size q)"
  by (simp add: cq_contents_def ring_def cq_inv_def)

lemma cq_size_unique:
  assumes "cq_inv q" and "k < cq_max_items q" and "(cq_head q + k) mod cq_max_items q = cq_tail q"
  shows "cq_size q = k"
  using assms cq_size_mod [of q] mod_add_inj [of "cq_head q" "cq_size q" "cq_max_items q" k] by simp

lemma cq_push_back_ok:
  assumes "cq_inv q"
  shows "\<exists>q'. cq_push_back x q = Some q' \<and> cq_inv q' \<and> cq_cap q' = cq_cap q \<and>
    cq_contents q' = overwrite (cq_cap q) (cq_contents q) x"
proof (cases "cq_max_items q = 0")
  case True
  then show ?thesis using assms
    by (simp add: cq_push_back_def cq_cap_def overwrite_def cq_contents_def cq_size_def cq_inv_def)
next
  case False
  let ?m = "cq_max_items q" and ?h = "cq_head q" and ?t = "cq_tail q" and ?v = "cq_v q" and ?n = "cq_size q"
  have inv: "?h < ?m" "?t < ?m" "length ?v = ?m" using assms False by (simp_all add: cq_inv_def)
  note sz = cq_size_mod [OF assms False]
  have t': "(?t + 1) mod ?m = (?h + Suc ?n) mod ?m" using sz(2) by (metis Suc_eq_plus1 add_Suc_right mod_Suc_eq)
  have up: "ring (?v[?t := x]) ?h (Suc ?n) = cq_contents q @ [x]"
    using ring_update [of ?n ?v ?h x] sz inv cq_contents_ring [OF assms False] by simp
  show ?thesis
  proof (cases "(?t + 1) mod ?m = ?h")
    case True
    define q' where "q' = q\<lparr>cq_v := ?v[?t := x], cq_tail := (?t + 1) mod ?m, cq_head := (?h + 1) mod ?m,
      cq_overrun := (cq_overrun q + 1) mod 2 ^ 64\<rparr>"
    have p: "cq_push_back x q = Some q'" using inv False True by (simp add: cq_push_back_def q'_def Let_def)
    have i: "cq_inv q'" using inv False by (simp add: cq_inv_def q'_def)
    have n: "Suc ?n = ?m"
    proof (rule ccontr)
      assume "Suc ?n \<noteq> ?m"
      with sz(1) have "Suc ?n < ?m" by simp
      moreover have "(?h + Suc ?n) mod ?m = (?h + 0) mod ?m" using t' True inv by simp
      ultimately show False using mod_add_inj [of ?h "Suc ?n" ?m 0] by simp
    qed
    have "(Suc ?h mod ?m + ?n) mod ?m = (?h + Suc ?n) mod ?m" by (simp add: mod_simps)
    then have "cq_size q' = ?n" using i sz(1) t' by (intro cq_size_unique) (simp_all add: q'_def)
    then have "cq_contents q' = tl (cq_contents q @ [x])"
      using cq_contents_ring [OF i] False inv ring_tl [of "?v[?t := x]" ?h ?n] up by (simp add: q'_def)
    moreover have "length (cq_contents q) + 1 - cq_cap q = Suc 0" using n by (simp add: cq_cap_def flip: n)
    then have "overwrite (cq_cap q) (cq_contents q) x = tl (cq_contents q @ [x])"
      unfolding overwrite_def by (simp only: drop_0 drop_Suc)
    ultimately have "cq_contents q' = overwrite (cq_cap q) (cq_contents q) x" by simp
    moreover have "cq_cap q' = cq_cap q" by (simp add: cq_cap_def q'_def)
    ultimately show ?thesis using p i by blast
  next
    case False': False
    define q' where "q' = q\<lparr>cq_v := ?v[?t := x], cq_tail := (?t + 1) mod ?m\<rparr>"
    have p: "cq_push_back x q = Some q'" using inv False False' by (simp add: cq_push_back_def q'_def Let_def)
    have i: "cq_inv q'" using inv False by (simp add: cq_inv_def q'_def)
    have n: "Suc ?n < ?m"
    proof (rule ccontr)
      assume "\<not> Suc ?n < ?m"
      with sz(1) have "Suc ?n = ?m" by simp
      with t' inv False' show False by simp
    qed
    then have "cq_size q' = Suc ?n" using i t' by (intro cq_size_unique) (simp_all add: q'_def)
    then have "cq_contents q' = cq_contents q @ [x]" using cq_contents_ring [OF i] False up by (simp add: q'_def)
    with p i n show ?thesis by (auto simp: cq_cap_def overwrite_def q'_def)
  qed
qed

lemma cq_pop_front_ok:
  assumes "cq_inv q" and "cq_contents q \<noteq> []"
  shows "\<exists>q'. cq_pop_front q = Some q' \<and> cq_inv q' \<and> cq_cap q' = cq_cap q \<and> cq_contents q' = tl (cq_contents q)"
proof -
  have s: "cq_size q \<noteq> 0" using assms(2) by (simp add: cq_contents_Nil)
  then have m: "cq_max_items q \<noteq> 0" using assms(1) cq_size_disabled by metis
  then obtain n where n: "cq_size q = Suc n" using s by (cases "cq_size q") auto
  note sz = cq_size_mod [OF assms(1) m]
  define q' where "q' = q\<lparr>cq_head := (cq_head q + 1) mod cq_max_items q\<rparr>"
  have i: "cq_inv q'" using assms(1) m by (simp add: cq_inv_def q'_def)
  have "(Suc (cq_head q) mod cq_max_items q + n) mod cq_max_items q = cq_tail q" using sz(2) n by (simp add: mod_simps)
  then have "cq_size q' = n" using i sz(1) n by (intro cq_size_unique) (simp_all add: q'_def)
  then have "cq_contents q' = tl (cq_contents q)"
    using cq_contents_ring [OF i] cq_contents_ring [OF assms(1) m] m n assms(1) ring_tl [of "cq_v q" "cq_head q" n]
    by (simp add: q'_def cq_inv_def)
  with i m show ?thesis by (simp add: cq_pop_front_def q'_def cq_cap_def)
qed

interpretation ring_q: bounded_queue cq_inv cq_contents cq_cap cq_push_back cq_pop_front cq_front cq_empty cq_full
proof unfold_locales
  fix q :: "'a circular_q"
  assume q: "cq_inv q"
  show "length (cq_contents q) \<le> cq_cap q"
    using q cq_size_mod [OF q] by (cases "cq_max_items q = 0") (auto simp: cq_cap_def cq_inv_def cq_size_def)
  show "\<exists>q'. cq_push_back x q = Some q' \<and> cq_inv q' \<and> cq_cap q' = cq_cap q \<and> cq_contents q' = overwrite (cq_cap q) (cq_contents q) x" for x
    by (rule cq_push_back_ok [OF q])
  show "cq_empty q = (cq_contents q = [])"
    using q by (auto simp: cq_contents_Nil cq_empty_def cq_inv_def cq_size_def split: if_splits)
  show "cq_contents q \<noteq> [] \<Longrightarrow> \<exists>q'. cq_pop_front q = Some q' \<and> cq_inv q' \<and> cq_cap q' = cq_cap q \<and> cq_contents q' = tl (cq_contents q)"
    by (rule cq_pop_front_ok [OF q])
  show "cq_front q = Some (hd (cq_contents q))" if "cq_contents q \<noteq> []"
  proof -
    have s: "0 < cq_size q" using that by (simp add: cq_contents_Nil)
    then have "cq_max_items q \<noteq> 0" using q cq_size_disabled by (metis less_numeral_extra(3))
    with q s cq_contents_ring [OF q this] ring_hd [of "cq_size q" "cq_head q" "cq_v q"] show ?thesis
      by (simp add: cq_front_def cq_inv_def)
  qed
  show "cq_full q = (length (cq_contents q) = cq_cap q)" if "0 < cq_cap q"
  proof -
    have m: "cq_max_items q \<noteq> 0" "1 < cq_max_items q" using that by (auto simp: cq_cap_def)
    note sz = cq_size_mod [OF q m(1)]
    have "(cq_tail q + 1) mod cq_max_items q = (cq_head q + Suc (cq_size q)) mod cq_max_items q"
      using sz(2) by (metis Suc_eq_plus1 add_Suc_right mod_Suc_eq)
    moreover have "(cq_head q + Suc (cq_size q)) mod cq_max_items q = cq_head q \<longleftrightarrow> Suc (cq_size q) = cq_max_items q"
    proof
      assume a: "(cq_head q + Suc (cq_size q)) mod cq_max_items q = cq_head q"
      show "Suc (cq_size q) = cq_max_items q"
      proof (rule ccontr)
        assume "Suc (cq_size q) \<noteq> cq_max_items q"
        with sz(1) have "Suc (cq_size q) < cq_max_items q" by simp
        moreover have "(cq_head q + Suc (cq_size q)) mod cq_max_items q = (cq_head q + 0) mod cq_max_items q"
          using a q m by (simp add: cq_inv_def)
        ultimately show False using mod_add_inj [of "cq_head q" "Suc (cq_size q)" "cq_max_items q" 0] by simp
      qed
    next
      assume "Suc (cq_size q) = cq_max_items q"
      then show "(cq_head q + Suc (cq_size q)) mod cq_max_items q = cq_head q" using q m by (simp add: cq_inv_def)
    qed
    ultimately show ?thesis using m by (auto simp: cq_full_def cq_cap_def)
  qed
qed

lemma cq_at_ok: "cq_inv q \<Longrightarrow> i < length (cq_contents q) \<Longrightarrow> cq_at i q = Some (cq_contents q ! i)"
  using cq_size_disabled [of q] by (auto simp: cq_at_def cq_contents_def cq_inv_def split: if_splits)

section \<open>The blocking queue\<close>

text \<open>
  \<open>mpmc_blocking_queue\<close>: each operation holds the mutex, so that the operations of all threads are a
  sequence; one whose condition does not hold waits, which is no step.  A dequeue reports its element,
  or that it timed out.
\<close>

record 'a mpmc_queue =
  mq_q :: "'a circular_q"
  mq_discard :: nat

datatype 'a mq_event = Enqueue 'a | Enqueue_nowait 'a | Enqueue_if_have_room 'a | Dequeue 'a | Dequeue_for_timeout

inductive mq_step :: "'a mpmc_queue \<Rightarrow> 'a mq_event \<Rightarrow> 'a mpmc_queue \<Rightarrow> bool" where
  enqueue: "\<not> cq_full (mq_q s) \<Longrightarrow> cq_push_back x (mq_q s) = Some q \<Longrightarrow> mq_step s (Enqueue x) (s\<lparr>mq_q := q\<rparr>)"
| enqueue_nowait: "cq_push_back x (mq_q s) = Some q \<Longrightarrow> mq_step s (Enqueue_nowait x) (s\<lparr>mq_q := q\<rparr>)"
| enqueue_room: "\<not> cq_full (mq_q s) \<Longrightarrow> cq_push_back x (mq_q s) = Some q \<Longrightarrow>
    mq_step s (Enqueue_if_have_room x) (s\<lparr>mq_q := q\<rparr>)"
| enqueue_no_room: "cq_full (mq_q s) \<Longrightarrow> mq_step s (Enqueue_if_have_room x) (s\<lparr>mq_discard := (mq_discard s + 1) mod 2 ^ 64\<rparr>)"
| dequeue: "\<not> cq_empty (mq_q s) \<Longrightarrow> cq_front (mq_q s) = Some x \<Longrightarrow> cq_pop_front (mq_q s) = Some q \<Longrightarrow>
    mq_step s (Dequeue x) (s\<lparr>mq_q := q\<rparr>)"
| dequeue_timeout: "cq_empty (mq_q s) \<Longrightarrow> mq_step s Dequeue_for_timeout s"

inductive_cases mq_stepE: "mq_step s e s'"

inductive mq_run :: "'a mpmc_queue \<Rightarrow> 'a mq_event list \<Rightarrow> 'a mpmc_queue \<Rightarrow> bool" where
  mq_refl: "mq_run s [] s"
| mq_snoc: "mq_run s es s' \<Longrightarrow> mq_step s' e s'' \<Longrightarrow> mq_run s (es @ [e]) s''"

definition mk_mpmc_queue :: "'a \<Rightarrow> nat \<Rightarrow> 'a mpmc_queue" where
  "mk_mpmc_queue dflt max_items = \<lparr>mq_q = mk_circular_q dflt max_items, mq_discard = 0\<rparr>"

text \<open>What a run has put in with \<open>enqueue\<close>, and what it has taken out.\<close>

definition enqueued :: "'a mq_event list \<Rightarrow> 'a list" where
  "enqueued es = concat (map (\<lambda>e. case e of Enqueue x \<Rightarrow> [x] | _ \<Rightarrow> []) es)"

definition dequeued :: "'a mq_event list \<Rightarrow> 'a list" where
  "dequeued es = concat (map (\<lambda>e. case e of Dequeue x \<Rightarrow> [x] | _ \<Rightarrow> []) es)"

definition blocking :: "'a mq_event \<Rightarrow> bool" where
  "blocking e \<longleftrightarrow> (case e of Enqueue x \<Rightarrow> True | Dequeue x \<Rightarrow> True | Dequeue_for_timeout \<Rightarrow> True | _ \<Rightarrow> False)"

lemma overwrite_room: "length xs < cap \<Longrightarrow> overwrite cap xs x = xs @ [x]"
  by (simp add: overwrite_def)

text \<open>With the blocking operations nothing is lost or reordered, and the bound holds.\<close>

lemma mq_run_fifo:
  assumes "mq_run s es s'" and "cq_inv (mq_q s)" and "0 < cq_cap (mq_q s)" and "cq_contents (mq_q s) = []" and "list_all blocking es"
  shows "cq_inv (mq_q s') \<and> cq_cap (mq_q s') = cq_cap (mq_q s) \<and> enqueued es = dequeued es @ cq_contents (mq_q s')"
  using assms
proof (induction rule: mq_run.induct)
  case (mq_refl s)
  then show ?case by (simp add: enqueued_def dequeued_def)
next
  case (mq_snoc s es s' e s'')
  then have IH: "cq_inv (mq_q s')" "cq_cap (mq_q s') = cq_cap (mq_q s)" "enqueued es = dequeued es @ cq_contents (mq_q s')"
    and b: "blocking e" by simp_all
  from mq_snoc.hyps(2) b show ?case
  proof cases
    case (enqueue x q)
    have "length (cq_contents (mq_q s')) < cq_cap (mq_q s')"
      using ring_q.full_ok [OF IH(1)] ring_q.bound [OF IH(1)] enqueue(3) IH(2) mq_snoc.prems(2) by simp
    then have "cq_contents q = cq_contents (mq_q s') @ [x]" "cq_inv q" "cq_cap q = cq_cap (mq_q s')"
      using ring_q.push_ok [OF IH(1), of x] enqueue(4) by (auto simp: overwrite_room simp del: length_cq_contents)
    with IH enqueue show ?thesis by (simp add: enqueued_def dequeued_def)
  next
    case (dequeue x q)
    have ne: "cq_contents (mq_q s') \<noteq> []" using ring_q.empty_ok [OF IH(1)] dequeue(3) by simp
    then have "cq_contents (mq_q s') = x # cq_contents q" "cq_inv q" "cq_cap q = cq_cap (mq_q s')"
      using ring_q.front_ok [OF IH(1) ne] ring_q.pop_ok [OF IH(1) ne] dequeue(4,5) by auto
    with IH dequeue show ?thesis by (simp add: enqueued_def dequeued_def)
  next
    case dequeue_timeout
    with IH show ?thesis by (simp add: enqueued_def dequeued_def)
  qed (simp_all add: blocking_def)
qed

section \<open>The backtrace\<close>

record 'a backtracer =
  bt_enabled :: bool
  bt_messages :: "'a circular_q"

definition bt_init :: "'a backtracer" where
  "bt_init = \<lparr>bt_enabled = False, bt_messages = disabled_q\<rparr>"

definition bt_enable :: "'a \<Rightarrow> nat \<Rightarrow> 'a backtracer \<Rightarrow> 'a backtracer" where
  "bt_enable dflt max_messages b = b\<lparr>bt_enabled := True, bt_messages := mk_circular_q dflt max_messages\<rparr>"

definition bt_disable :: "'a backtracer \<Rightarrow> 'a backtracer" where
  "bt_disable b = b\<lparr>bt_enabled := False\<rparr>"

definition bt_push_back :: "'a \<Rightarrow> 'a backtracer \<Rightarrow> 'a backtracer option" where
  "bt_push_back msg b = do { q \<leftarrow> cq_push_back msg (bt_messages b); Some (b\<lparr>bt_messages := q\<rparr>) }"

text \<open>The messages that \<open>fun\<close> is called on.\<close>

definition bt_foreach_pop :: "'a backtracer \<Rightarrow> ('a list \<times> 'a backtracer) option" where
  "bt_foreach_pop b = do {
     (msgs, q) \<leftarrow> drain_with cq_empty cq_front cq_pop_front (Suc (cq_max_items (bt_messages b))) (bt_messages b);
     Some (msgs, b\<lparr>bt_messages := q\<rparr>)
   }"

fun bt_push_all :: "'a list \<Rightarrow> 'a backtracer \<Rightarrow> 'a backtracer option" where
  "bt_push_all [] b = Some b"
| "bt_push_all (x # xs) b = do { b' \<leftarrow> bt_push_back x b; bt_push_all xs b' }"

lemma bt_push_all_ring:
  "bt_push_all xs b = do { q \<leftarrow> ring_q.push_all xs (bt_messages b); Some (b\<lparr>bt_messages := q\<rparr>) }"
proof (induction xs arbitrary: b)
  case Nil
  then show ?case by (cases b) simp
next
  case (Cons x xs)
  then show ?case by (cases "cq_push_back x (bt_messages b)") (simp_all add: bt_push_back_def)
qed

text \<open>A dump shows the last \<open>n\<close> messages in order, and leaves the backtrace empty.\<close>

lemma bt_dump_ok:
  assumes "n + 1 < 2 ^ 64"
  shows "\<exists>b1 b2. bt_push_all xs (bt_enable dflt n b) = Some b1 \<and> bt_foreach_pop b1 = Some (drop (length xs - n) xs, b2) \<and>
    bt_enabled b2 \<and> cq_contents (bt_messages b2) = []"
proof -
  let ?q = "mk_circular_q dflt n"
  obtain q1 where q1: "ring_q.push_all xs ?q = Some q1" "cq_inv q1" "cq_cap q1 = n" "cq_contents q1 = drop (length xs - n) xs"
    using ring_q.push_all_ok [OF mk_circular_q_inv, of xs dflt n] mk_circular_q_cap [OF assms, of dflt] mk_circular_q_contents [of dflt n]
    by auto
  have "length (cq_contents q1) < Suc (cq_max_items q1)" using ring_q.bound [OF q1(2)] by (simp add: cq_cap_def)
  from ring_q.drain_ok [OF q1(2) this] obtain q2 where
    "drain_with cq_empty cq_front cq_pop_front (Suc (cq_max_items q1)) q1 = Some (cq_contents q1, q2)" "cq_contents q2 = []" by auto
  with q1 show ?thesis by (auto simp: bt_push_all_ring bt_enable_def bt_foreach_pop_def simp del: drain_with.simps)
qed

end
