(* ===== verification/Rotating_File.thy ===== *)
theory Rotating_File
  imports Fmt_Int
begin

text \<open>
  \<open>spdlog/sinks/rotating_file_sink-inl.h\<close> and \<open>details/file_helper-inl.h\<close>, the log file of the server:
  names, opening, rotation and writing over a map of files.  Opening, renaming, flushing and writing may fail at
  any time: \<open>fs_oracle\<close> says for each call whether it succeeds.  Creating the directory, the event
  handlers (none are set) and the delays between two tries are left out.  An exception is the first component
  of a result, next to the state at that point.
\<close>

section \<open>Files\<close>

record fs_oracle =
  can_open :: "nat \<Rightarrow> bool"
  can_rename :: "nat \<Rightarrow> bool"
  can_write :: "nat \<Rightarrow> bool"
  can_flush :: "nat \<Rightarrow> bool"

text \<open>The contents of the files, and the number of calls so far.\<close>

record fs =
  fs_files :: "string \<rightharpoonup> string"
  fs_tick :: nat

datatype spdlog_ex = open_failed | reopen_unopened | flush_failed | write_failed | size_on_closed | rename_failed
  | max_size_zero | max_files_exceeded

definition tick :: "fs \<Rightarrow> fs" where
  "tick f = f\<lparr>fs_tick := fs_tick f + 1\<rparr>"

text \<open>\<open>fopen\<close> for appending, or truncating: the file exists afterwards.\<close>

definition fopen_s :: "fs_oracle \<Rightarrow> string \<Rightarrow> bool \<Rightarrow> fs \<Rightarrow> bool \<times> fs" where
  "fopen_s os fname trunc f =
     (if can_open os (fs_tick f)
      then (True, (tick f)\<lparr>fs_files := (fs_files f)(fname \<mapsto> (case fs_files f fname of Some s \<Rightarrow> if trunc then [] else s | None \<Rightarrow> []))\<rparr>)
      else (False, tick f))"

definition os_rename :: "fs_oracle \<Rightarrow> string \<Rightarrow> string \<Rightarrow> fs \<Rightarrow> bool \<times> fs" where
  "os_rename os src target f =
     (case fs_files f src of
        Some s \<Rightarrow> if can_rename os (fs_tick f) then (True, (tick f)\<lparr>fs_files := (fs_files f)(src := None, target \<mapsto> s)\<rparr>) else (False, tick f)
      | None \<Rightarrow> (False, tick f))"

definition os_remove :: "string \<Rightarrow> fs \<Rightarrow> fs" where
  "os_remove fname f = f\<lparr>fs_files := (fs_files f)(fname := None)\<rparr>"

section \<open>The file helper\<close>

text \<open>The name, and the stream with the text that is not flushed yet.\<close>

record file_helper =
  fh_filename :: string
  fh_fd :: "string option"

definition open_tries :: nat where
  "open_tries = 5"

text \<open>
  Flushing a stream appends its text to the file.  Closing flushes too, but its result is ignored: the
  text of a stream that cannot be flushed is lost.
\<close>

definition fh_flush :: "fs_oracle \<Rightarrow> file_helper \<Rightarrow> fs \<Rightarrow> spdlog_ex option \<times> file_helper \<times> fs" where
  "fh_flush os h f =
     (case fh_fd h of
        None \<Rightarrow> (None, h, f)
      | Some pending \<Rightarrow>
          if can_flush os (fs_tick f) then
            (None, h\<lparr>fh_fd := Some []\<rparr>,
             (tick f)\<lparr>fs_files := (fs_files f)(fh_filename h \<mapsto> (case fs_files f (fh_filename h) of Some s \<Rightarrow> s @ pending | None \<Rightarrow> pending))\<rparr>)
          else (Some flush_failed, h, tick f))"

definition fh_close :: "fs_oracle \<Rightarrow> file_helper \<Rightarrow> fs \<Rightarrow> file_helper \<times> fs" where
  "fh_close os h f =
     (if fh_fd h = None then (h, f) else (let (e, h', f') = fh_flush os h f in (h'\<lparr>fh_fd := None\<rparr>, f')))"

fun fh_open_loop :: "fs_oracle \<Rightarrow> bool \<Rightarrow> nat \<Rightarrow> file_helper \<Rightarrow> fs \<Rightarrow> spdlog_ex option \<times> file_helper \<times> fs" where
  "fh_open_loop os trunc 0 h f = (Some open_failed, h, f)"
| "fh_open_loop os trunc (Suc tries) h f =
     (let (ok1, f1) = (if trunc then fopen_s os (fh_filename h) True f else (True, f))
      in if \<not> ok1 then fh_open_loop os trunc tries h f1
         else (let (ok2, f2) = fopen_s os (fh_filename h) False f1
               in if ok2 then (None, h\<lparr>fh_fd := Some []\<rparr>, f2) else fh_open_loop os trunc tries h f2))"

definition fh_open :: "fs_oracle \<Rightarrow> string \<Rightarrow> bool \<Rightarrow> file_helper \<Rightarrow> fs \<Rightarrow> spdlog_ex option \<times> file_helper \<times> fs" where
  "fh_open os fname trunc h f =
     (let (h1, f1) = fh_close os h f in fh_open_loop os trunc open_tries (h1\<lparr>fh_filename := fname\<rparr>) f1)"

definition fh_reopen :: "fs_oracle \<Rightarrow> bool \<Rightarrow> file_helper \<Rightarrow> fs \<Rightarrow> spdlog_ex option \<times> file_helper \<times> fs" where
  "fh_reopen os trunc h f =
     (if fh_filename h = [] then (Some reopen_unopened, h, f) else fh_open os (fh_filename h) trunc h f)"

definition fh_write :: "fs_oracle \<Rightarrow> string \<Rightarrow> file_helper \<Rightarrow> fs \<Rightarrow> spdlog_ex option \<times> file_helper \<times> fs" where
  "fh_write os buf h f =
     (case fh_fd h of
        None \<Rightarrow> (None, h, f)
      | Some pending \<Rightarrow>
          if can_write os (fs_tick f) then (None, h\<lparr>fh_fd := Some (pending @ buf)\<rparr>, tick f) else (Some write_failed, h, tick f))"

text \<open>The size on disk, as \<open>fstat\<close> reports it.\<close>

definition fh_size :: "file_helper \<Rightarrow> fs \<Rightarrow> spdlog_ex + nat" where
  "fh_size h f =
     (if fh_fd h = None then Inl size_on_closed
      else Inr (case fs_files f (fh_filename h) of Some s \<Rightarrow> length s | None \<Rightarrow> 0))"

section \<open>Names\<close>

text \<open>The last position of a char.\<close>

definition rfind :: "char \<Rightarrow> string \<Rightarrow> nat option" where
  "rfind c s = (if c \<in> set s then Some (length s - 1 - length (takeWhile (\<lambda>x. x \<noteq> c) (rev s))) else None)"

definition split_by_extension :: "string \<Rightarrow> string \<times> string" where
  "split_by_extension fname =
     (case rfind (CHR ''.'') fname of
        None \<Rightarrow> (fname, [])
      | Some ext_index \<Rightarrow>
          if ext_index = 0 \<or> ext_index = length fname - 1 then (fname, [])
          else (case rfind (CHR ''/'') fname of
                  Some folder_index \<Rightarrow>
                    if folder_index \<ge> ext_index - 1 then (fname, []) else (take ext_index fname, drop ext_index fname)
                | None \<Rightarrow> (take ext_index fname, drop ext_index fname)))"

definition calc_filename :: "string \<Rightarrow> nat \<Rightarrow> string" where
  "calc_filename filename index =
     (if index = 0 then filename
      else (let (basename, ext) = split_by_extension filename in basename @ ''.'' @ digits index @ ext))"

lemma split_by_extension_append: "split_by_extension f = (b, e) \<Longrightarrow> f = b @ e"
  by (auto simp: split_by_extension_def split: option.splits if_splits)

lemma calc_filename_inj: "calc_filename f i = calc_filename f j \<Longrightarrow> i = j"
proof -
  assume e: "calc_filename f i = calc_filename f j"
  obtain b x where s: "split_by_extension f = (b, x)" by (rule prod.exhaust)
  have l: "length (calc_filename f k) = length f + (if k = 0 then 0 else Suc (length (digits k)))" for k
    using arg_cong [OF split_by_extension_append [OF s], of length] by (simp add: calc_filename_def s)
  show ?thesis
  proof (cases "i = 0 \<or> j = 0")
    case True
    with arg_cong [OF e, of length] show ?thesis by (auto simp: l split: if_splits)
  next
    case False
    with e have "digits i = digits j" by (simp add: calc_filename_def s)
    then show ?thesis using digits_val_digits by metis
  qed
qed

section \<open>The sink\<close>

record rotating_sink =
  rf_base_filename :: string
  rf_max_size :: nat
  rf_max_files :: nat
  rf_current_size :: nat
  rf_file :: file_helper

definition MaxFiles :: nat where
  "MaxFiles = 200000"

definition rename_file :: "fs_oracle \<Rightarrow> string \<Rightarrow> string \<Rightarrow> fs \<Rightarrow> bool \<times> fs" where
  "rename_file os src target f = os_rename os src target (os_remove target f)"

text \<open>The loop of \<open>rotate_\<close> for \<open>i\<close> down to 1: whether it ran to its end.  A failed rename is tried once more.\<close>

fun rotate_loop :: "fs_oracle \<Rightarrow> string \<Rightarrow> nat \<Rightarrow> fs \<Rightarrow> bool \<times> fs" where
  "rotate_loop os base 0 f = (True, f)"
| "rotate_loop os base (Suc i) f =
     (let src = calc_filename base i; target = calc_filename base (Suc i)
      in if fs_files f src = None then rotate_loop os base i f
         else (let (ok, f1) = rename_file os src target f
               in if ok then rotate_loop os base i f1
                  else (let (ok2, f2) = rename_file os src target f1
                        in if ok2 then rotate_loop os base i f2 else (False, f2))))"

definition rotate_sink :: "fs_oracle \<Rightarrow> rotating_sink \<Rightarrow> fs \<Rightarrow> spdlog_ex option \<times> rotating_sink \<times> fs" where
  "rotate_sink os r f =
     (let (h1, f1) = fh_close os (rf_file r) f;
          (ok, f2) = rotate_loop os (rf_base_filename r) (rf_max_files r) f1;
          (e, h3, f3) = fh_reopen os True h1 f2
      in if ok then (e, r\<lparr>rf_file := h3\<rparr>, f3)
         else (case e of
                 Some x \<Rightarrow> (Some x, r\<lparr>rf_file := h3\<rparr>, f3)
               | None \<Rightarrow> (Some rename_failed, r\<lparr>rf_file := h3, rf_current_size := 0\<rparr>, f3)))"

definition mk_rotating_sink ::
    "fs_oracle \<Rightarrow> string \<Rightarrow> nat \<Rightarrow> nat \<Rightarrow> bool \<Rightarrow> fs \<Rightarrow> spdlog_ex option \<times> rotating_sink \<times> fs" where
  "mk_rotating_sink os base max_size max_files rotate_on_open f =
     (let r0 = \<lparr>rf_base_filename = base, rf_max_size = max_size, rf_max_files = max_files, rf_current_size = 0,
                rf_file = \<lparr>fh_filename = [], fh_fd = None\<rparr>\<rparr>
      in if max_size = 0 then (Some max_size_zero, r0, f)
         else if max_files > MaxFiles then (Some max_files_exceeded, r0, f)
         else (let (e, h, f1) = fh_open os (calc_filename base 0) False (rf_file r0) f
               in case e of
                    Some x \<Rightarrow> (Some x, r0\<lparr>rf_file := h\<rparr>, f1)
                  | None \<Rightarrow>
                      (case fh_size h f1 of
                         Inl x \<Rightarrow> (Some x, r0\<lparr>rf_file := h\<rparr>, f1)
                       | Inr n \<Rightarrow>
                           (let r1 = r0\<lparr>rf_file := h, rf_current_size := n\<rparr>
                            in if rotate_on_open \<and> n > 0 then
                                 (let (e2, r2, f2) = rotate_sink os r1 f1
                                  in case e2 of Some x \<Rightarrow> (Some x, r2, f2) | None \<Rightarrow> (None, r2\<lparr>rf_current_size := 0\<rparr>, f2))
                               else (None, r1, f1)))))"

definition rf_sink_it :: "fs_oracle \<Rightarrow> string \<Rightarrow> rotating_sink \<Rightarrow> fs \<Rightarrow> spdlog_ex option \<times> rotating_sink \<times> fs" where
  "rf_sink_it os formatted r f =
     (let new_size = rf_current_size r + length formatted;
          finish = (\<lambda>n r f. let (e, h, f') = fh_write os formatted (rf_file r) f
                            in case e of Some x \<Rightarrow> (Some x, r\<lparr>rf_file := h\<rparr>, f')
                               | None \<Rightarrow> (None, r\<lparr>rf_file := h, rf_current_size := n\<rparr>, f'))
      in if new_size > rf_max_size r then
           (let (e, h1, f1) = fh_flush os (rf_file r) f; r1 = r\<lparr>rf_file := h1\<rparr>
            in case e of
                 Some x \<Rightarrow> (Some x, r1, f1)
               | None \<Rightarrow>
                   (case fh_size h1 f1 of
                      Inl x \<Rightarrow> (Some x, r1, f1)
                    | Inr n \<Rightarrow>
                        if n > 0 then
                          (let (e, r2, f2) = rotate_sink os r1 f1
                           in case e of Some x \<Rightarrow> (Some x, r2, f2) | None \<Rightarrow> finish (length formatted) r2 f2)
                        else finish new_size r1 f1))
         else finish new_size r f)"

definition rf_flush :: "fs_oracle \<Rightarrow> rotating_sink \<Rightarrow> fs \<Rightarrow> spdlog_ex option \<times> rotating_sink \<times> fs" where
  "rf_flush os r f = (let (e, h, f') = fh_flush os (rf_file r) f in (e, r\<lparr>rf_file := h\<rparr>, f'))"

definition set_max_size :: "nat \<Rightarrow> rotating_sink \<Rightarrow> spdlog_ex + rotating_sink" where
  "set_max_size n r = (if n = 0 then Inl max_size_zero else Inr (r\<lparr>rf_max_size := n\<rparr>))"

definition set_max_files :: "nat \<Rightarrow> rotating_sink \<Rightarrow> spdlog_ex + rotating_sink" where
  "set_max_files n r = (if n > MaxFiles then Inl max_files_exceeded else Inr (r\<lparr>rf_max_files := n\<rparr>))"

section \<open>What rotation does\<close>

definition reliable :: "fs_oracle \<Rightarrow> bool" where
  "reliable os \<longleftrightarrow> (\<forall>t. can_open os t \<and> can_rename os t \<and> can_write os t \<and> can_flush os t)"

lemma calc_filename_eq [simp]: "calc_filename f i = calc_filename f j \<longleftrightarrow> i = j"
  using calc_filename_inj by blast

lemma calc_filename_0 [simp]: "calc_filename f 0 = f"
  by (simp add: calc_filename_def)

text \<open>Every file moves up by one; the last one is replaced when there is one to replace it.\<close>

lemma rotate_loop_shift:
  assumes "reliable os"
  shows "\<exists>f'. rotate_loop os base n f = (True, f') \<and>
    (\<forall>i. 0 < i \<and> i \<le> n \<longrightarrow> fs_files f' (calc_filename base i) =
       (if fs_files f (calc_filename base (i - 1)) \<noteq> None then fs_files f (calc_filename base (i - 1))
        else if i = n then fs_files f (calc_filename base n) else None)) \<and>
    (0 < n \<longrightarrow> fs_files f' base = None) \<and>
    (\<forall>name. (\<forall>i\<le>n. name \<noteq> calc_filename base i) \<longrightarrow> fs_files f' name = fs_files f name) \<and>
    (n = 0 \<longrightarrow> fs_files f' = fs_files f)"
proof (induction n arbitrary: f)
  case 0
  then show ?case by simp
next
  case (Suc n)
  let ?c = "calc_filename base"
  define f1 where "f1 = (if fs_files f (?c n) = None then f else snd (rename_file os (?c n) (?c (Suc n)) f))"
  have step: "rotate_loop os base (Suc n) f = rotate_loop os base n f1"
    using assms by (auto simp: f1_def Let_def rename_file_def os_rename_def os_remove_def reliable_def split: option.split)
  have F1: "fs_files f1 = (if fs_files f (?c n) = None then fs_files f
      else (fs_files f)(?c n := None, ?c (Suc n) := fs_files f (?c n)))"
    using assms by (auto simp: f1_def rename_file_def os_rename_def os_remove_def reliable_def tick_def split: option.split)
  from Suc.IH [of f1] obtain f' where f': "rotate_loop os base n f1 = (True, f')"
    "\<And>i. 0 < i \<Longrightarrow> i \<le> n \<Longrightarrow> fs_files f' (?c i) = (if fs_files f1 (?c (i - 1)) \<noteq> None then fs_files f1 (?c (i - 1))
        else if i = n then fs_files f1 (?c n) else None)"
    "0 < n \<Longrightarrow> fs_files f' base = None"
    "\<And>name. \<forall>i\<le>n. name \<noteq> ?c i \<Longrightarrow> fs_files f' name = fs_files f1 name" "n = 0 \<Longrightarrow> fs_files f' = fs_files f1" by blast
  have n1: "fs_files f1 (?c n) = None" by (simp add: F1)
  have up: "fs_files f' (?c (Suc n)) = (if fs_files f (?c n) \<noteq> None then fs_files f (?c n) else fs_files f (?c (Suc n)))"
    using f'(4) [of "?c (Suc n)"] by (simp add: F1)
  have lo: "fs_files f' (?c i) = (if fs_files f (?c (i - 1)) \<noteq> None then fs_files f (?c (i - 1)) else None)"
    if "0 < i" "i \<le> n" for i
    using f'(2) [OF that] n1 that by (auto simp: F1)
  have "fs_files f' base = None"
    using f'(3,5) n1 by (cases "n = 0") simp_all
  moreover have "fs_files f' name = fs_files f name" if "\<forall>i\<le>Suc n. name \<noteq> ?c i" for name
  proof -
    have "fs_files f' name = fs_files f1 name" using that by (intro f'(4)) simp
    also have "\<dots> = fs_files f name" using that by (simp add: F1)
    finally show ?thesis .
  qed
  ultimately show ?case using step f'(1) up lo by (auto simp: le_Suc_eq)
qed

text \<open>The sink's state: its stream is open on the base file, and the size counts all of its text.\<close>

definition file_text :: "rotating_sink \<Rightarrow> fs \<Rightarrow> nat \<Rightarrow> string" where
  "file_text r f i = (case fs_files f (calc_filename (rf_base_filename r) i) of Some s \<Rightarrow> s | None \<Rightarrow> [])"

definition pending_text :: "rotating_sink \<Rightarrow> string" where
  "pending_text r = (case fh_fd (rf_file r) of Some s \<Rightarrow> s | None \<Rightarrow> [])"

definition rf_inv :: "rotating_sink \<Rightarrow> fs \<Rightarrow> bool" where
  "rf_inv r f \<longleftrightarrow> rf_base_filename r \<noteq> [] \<and> fh_filename (rf_file r) = rf_base_filename r \<and> fh_fd (rf_file r) \<noteq> None \<and>
     fs_files f (rf_base_filename r) \<noteq> None \<and>
     rf_current_size r = length (file_text r f 0) + length (pending_text r) \<and>
     (\<forall>i. 0 < i \<and> i \<le> rf_max_files r \<and> fs_files f (calc_filename (rf_base_filename r) i) \<noteq> None \<longrightarrow>
        fs_files f (calc_filename (rf_base_filename r) (i - 1)) \<noteq> None)"

text \<open>All the text that is kept, the oldest first.\<close>

definition kept_text :: "rotating_sink \<Rightarrow> fs \<Rightarrow> string" where
  "kept_text r f = concat (map (file_text r f) (rev [0..<Suc (rf_max_files r)])) @ pending_text r"

lemma kept_text_split: "kept_text r f = concat (map (file_text r f) (rev [1..<Suc (rf_max_files r)])) @ file_text r f 0 @ pending_text r"
  by (simp add: kept_text_def upt_conv_Cons del: upt_Suc)

lemma fh_flush_inv:
  assumes "reliable os" and "rf_inv r f"
  shows "\<exists>h f'. fh_flush os (rf_file r) f = (None, h, f') \<and> rf_inv (r\<lparr>rf_file := h\<rparr>) f' \<and> fh_fd h = Some [] \<and>
    kept_text (r\<lparr>rf_file := h\<rparr>) f' = kept_text r f \<and> fh_size h f' = Inr (rf_current_size r) \<and>
    file_text (r\<lparr>rf_file := h\<rparr>) f' 0 = file_text r f 0 @ pending_text r"
proof -
  obtain p d where p: "fh_fd (rf_file r) = Some p" "fs_files f (rf_base_filename r) = Some d" "fh_filename (rf_file r) = rf_base_filename r"
    using assms by (auto simp: rf_inv_def)
  let ?c = "calc_filename (rf_base_filename r)"
  define h where "h = (rf_file r)\<lparr>fh_fd := Some []\<rparr>"
  define f' where "f' = (tick f)\<lparr>fs_files := (fs_files f)(rf_base_filename r \<mapsto> d @ p)\<rparr>"
  have fl: "fh_flush os (rf_file r) f = (None, h, f')"
    using p assms(1) by (simp add: fh_flush_def reliable_def h_def f'_def)
  have ne: "?c i \<noteq> rf_base_filename r" if "0 < i" for i using that calc_filename_eq [of "rf_base_filename r" i 0] by simp
  have t: "file_text (r\<lparr>rf_file := h\<rparr>) f' i = (if i = 0 then d @ p else file_text r f i)" for i
    using ne [of i] by (simp add: file_text_def f'_def)
  have o: "file_text r f 0 = d" "pending_text r = p" using p by (simp_all add: file_text_def pending_text_def)
  have "concat (map (file_text (r\<lparr>rf_file := h\<rparr>) f') (rev [1..<Suc (rf_max_files r)])) =
      concat (map (file_text r f) (rev [1..<Suc (rf_max_files r)]))"
    by (intro arg_cong [where f = concat] map_cong) (auto simp add: t)
  then have k: "kept_text (r\<lparr>rf_file := h\<rparr>) f' = kept_text r f"
    using o t [of 0] by (simp add: kept_text_split pending_text_def h_def del: upt_Suc)
  have sz: "fh_size h f' = Inr (rf_current_size r)" using assms o p by (simp add: fh_size_def h_def f'_def rf_inv_def)
  have "rf_inv (r\<lparr>rf_file := h\<rparr>) f'"
    using assms o p t [of 0] ne by (auto simp: rf_inv_def pending_text_def h_def f'_def)
  with fl k sz t [of 0] o show ?thesis by (auto simp: h_def)
qed

lemma fopen_reliable:
  "reliable os \<Longrightarrow> fopen_s os n trunc f =
     (True, (tick f)\<lparr>fs_files := (fs_files f)(n \<mapsto> (case fs_files f n of Some s \<Rightarrow> if trunc then [] else s | None \<Rightarrow> []))\<rparr>)"
  by (simp add: fopen_s_def reliable_def)

lemma fh_reopen_reliable:
  assumes "reliable os" and "fh_filename h \<noteq> []" and "fh_fd h = None"
  shows "\<exists>f'. fh_reopen os True h f = (None, h\<lparr>fh_fd := Some []\<rparr>, f') \<and> fs_files f' = (fs_files f)(fh_filename h \<mapsto> [])"
  using assms by (cases "fs_files f (fh_filename h)")
    (simp_all add: fh_reopen_def fh_open_def fh_close_def open_tries_def numeral_eq_Suc fopen_reliable tick_def)

lemma rotate_sink_ok:
  assumes "reliable os" and "rf_inv r f" and "fh_fd (rf_file r) = Some []"
  shows "\<exists>r' f'. rotate_sink os r f = (None, r', f') \<and> rf_base_filename r' = rf_base_filename r \<and> rf_max_size r' = rf_max_size r \<and>
    rf_max_files r' = rf_max_files r \<and> rf_current_size r' = rf_current_size r \<and> rf_inv (r'\<lparr>rf_current_size := 0\<rparr>) f' \<and>
    file_text r' f' 0 = [] \<and> pending_text r' = [] \<and>
    (\<forall>i. 0 < i \<and> i \<le> rf_max_files r \<longrightarrow> file_text r' f' i = file_text r f (i - 1))"
proof -
  let ?base = "rf_base_filename r" and ?n = "rf_max_files r"
  let ?c = "calc_filename ?base"
  obtain d where d: "fs_files f ?base = Some d" "fh_filename (rf_file r) = ?base" "?base \<noteq> []" using assms(2) by (auto simp: rf_inv_def)
  define h1 where "h1 = (rf_file r)\<lparr>fh_fd := None\<rparr>"
  define f1 where "f1 = (tick f)\<lparr>fs_files := (fs_files f)(?base \<mapsto> d)\<rparr>"
  have c: "fh_close os (rf_file r) f = (h1, f1)"
    using d assms(1,3) by (simp add: fh_close_def fh_flush_def reliable_def h1_def f1_def)
  have F1: "fs_files f1 = fs_files f" using d(1) by (auto simp: f1_def)
  from rotate_loop_shift [OF assms(1), of ?base ?n f1] obtain f2 where f2: "rotate_loop os ?base ?n f1 = (True, f2)"
    "\<forall>i. 0 < i \<and> i \<le> ?n \<longrightarrow> fs_files f2 (?c i) = (if fs_files f (?c (i - 1)) \<noteq> None then fs_files f (?c (i - 1))
        else if i = ?n then fs_files f (?c ?n) else None)" unfolding F1 by (elim exE conjE) (rule that; assumption)
  have sh: "fs_files f2 (?c i) = fs_files f (?c (i - 1))" if "0 < i" "i \<le> ?n" for i
    using f2(2) [rule_format, of i] assms(2) that unfolding rf_inv_def by (cases "fs_files f (?c (i - 1))") auto
  obtain f3 where f3: "fh_reopen os True h1 f2 = (None, h1\<lparr>fh_fd := Some []\<rparr>, f3)" "fs_files f3 = (fs_files f2)(?base \<mapsto> [])"
    using fh_reopen_reliable [OF assms(1), of h1 f2] d by (auto simp: h1_def)
  define r' where "r' = r\<lparr>rf_file := h1\<lparr>fh_fd := Some []\<rparr>\<rparr>"
  have ro: "rotate_sink os r f = (None, r', f3)" by (simp add: rotate_sink_def c f2(1) f3(1) r'_def)
  have ne: "?c i \<noteq> ?base" if "0 < i" for i using that calc_filename_eq [of ?base i 0] by simp
  have t0: "file_text r' f3 0 = []" "pending_text r' = []" by (simp_all add: file_text_def pending_text_def f3(2) r'_def)
  have ti: "file_text r' f3 i = file_text r f (i - 1)" "fs_files f3 (?c i) = fs_files f (?c (i - 1))" if "0 < i" "i \<le> ?n" for i
    using sh [OF that] ne [OF that(1)] by (simp_all add: file_text_def f3(2) r'_def)
  have "rf_inv (r'\<lparr>rf_current_size := 0\<rparr>) f3"
  proof -
    have "fs_files f3 (?c (i - 1)) \<noteq> None" if "0 < i" "i \<le> ?n" "fs_files f3 (?c i) \<noteq> None" for i
    proof (cases "i = 1")
      case True
      then show ?thesis by (simp add: f3(2))
    next
      case False
      with that have "0 < i - 1" "i - 1 \<le> ?n" by simp_all
      moreover have "fs_files f (?c (i - 1)) \<noteq> None" using ti(2) [of i] that by simp
      with assms(2) \<open>0 < i - 1\<close> \<open>i - 1 \<le> ?n\<close> have "fs_files f (?c (i - 1 - 1)) \<noteq> None" unfolding rf_inv_def by blast
      ultimately show ?thesis using ti(2) [of "i - 1"] by simp
    qed
    with d t0 show ?thesis by (simp add: rf_inv_def r'_def h1_def f3(2) file_text_def pending_text_def)
  qed
  with ro t0 ti(1) show ?thesis by (auto simp: r'_def)
qed

lemma kept_text_shift:
  assumes "\<And>i. 0 < i \<Longrightarrow> i \<le> n \<Longrightarrow> g' i = g (i - 1)"
  shows "concat (map g (rev [0..<Suc n])) = g n @ concat (map g' (rev [1..<Suc n]))"
proof -
  have "map g' (rev [1..<Suc n]) = map g (rev [0..<n])"
  proof (rule nth_equalityI)
    fix i assume "i < length (map g' (rev [1..<Suc n]))"
    then have "i < n" by (simp del: upt_Suc)
    then show "map g' (rev [1..<Suc n]) ! i = map g (rev [0..<n]) ! i"
      using assms [of "n - i"] by (simp add: rev_nth Suc_diff_Suc del: upt_Suc)
  qed simp
  then show ?thesis by simp
qed

lemma file_text_cong:
  "rf_base_filename r = rf_base_filename r' \<Longrightarrow> fs_files f = fs_files f' \<Longrightarrow> file_text r f = file_text r' f'"
  by (rule ext) (simp add: file_text_def)

text \<open>Writing to an open stream of a state whose size is counted.\<close>

lemma fh_write_inv:
  assumes "reliable os" and "rf_inv (r\<lparr>rf_current_size := c\<rparr>) f"
  shows "\<exists>h. fh_write os msg (rf_file r) f = (None, h, tick f) \<and>
    rf_inv (r\<lparr>rf_file := h, rf_current_size := c + length msg\<rparr>) (tick f) \<and>
    kept_text (r\<lparr>rf_file := h, rf_current_size := c + length msg\<rparr>) (tick f) = kept_text r f @ msg"
proof -
  obtain p where p: "fh_fd (rf_file r) = Some p" using assms(2) by (auto simp: rf_inv_def)
  define h where "h = (rf_file r)\<lparr>fh_fd := Some (p @ msg)\<rparr>"
  let ?r = "r\<lparr>rf_file := h, rf_current_size := c + length msg\<rparr>"
  have t: "file_text ?r (tick f) = file_text r f" by (rule file_text_cong) (simp_all add: tick_def)
  have pt: "pending_text ?r = pending_text r @ msg" using p by (simp add: pending_text_def h_def)
  have "kept_text ?r (tick f) = kept_text r f @ msg"
    using pt by (simp add: kept_text_def t)
  moreover have "fh_write os msg (rf_file r) f = (None, h, tick f)"
    using assms(1) p by (simp add: fh_write_def reliable_def h_def)
  moreover have "rf_inv ?r (tick f)"
    using assms(2) p by (auto simp: rf_inv_def file_text_def pending_text_def tick_def h_def)
  ultimately show ?thesis by blast
qed

text \<open>
  Writing a message never fails, keeps the state, bounds the current file by the limit or by the message,
  and loses the oldest text only.
\<close>

lemma rf_sink_it_ok:
  assumes "reliable os" and "rf_inv r f"
  shows "\<exists>r' f' old. rf_sink_it os msg r f = (None, r', f') \<and> rf_inv r' f' \<and>
    rf_base_filename r' = rf_base_filename r \<and> rf_max_size r' = rf_max_size r \<and> rf_max_files r' = rf_max_files r \<and>
    rf_current_size r' \<le> max (rf_max_size r) (length msg) \<and> old @ kept_text r' f' = kept_text r f @ msg"
proof (cases "rf_current_size r + length msg > rf_max_size r")
  case False
  from fh_write_inv [where r = r and c = "rf_current_size r" and f = f and msg = msg, OF assms(1)] assms(2)
  obtain h where "fh_write os msg (rf_file r) f = (None, h, tick f)"
    "rf_inv (r\<lparr>rf_file := h, rf_current_size := rf_current_size r + length msg\<rparr>) (tick f)"
    "kept_text (r\<lparr>rf_file := h, rf_current_size := rf_current_size r + length msg\<rparr>) (tick f) = kept_text r f @ msg" by auto
  with False show ?thesis
    by (intro exI [of _ "r\<lparr>rf_file := h, rf_current_size := rf_current_size r + length msg\<rparr>"] exI [of _ "tick f"] exI [of _ "[]"])
      (simp add: rf_sink_it_def)
next
  case True
  from fh_flush_inv [OF assms] obtain h1 f1 where fl: "fh_flush os (rf_file r) f = (None, h1, f1)"
    "rf_inv (r\<lparr>rf_file := h1\<rparr>) f1" "fh_fd h1 = Some []" "kept_text (r\<lparr>rf_file := h1\<rparr>) f1 = kept_text r f"
    "fh_size h1 f1 = Inr (rf_current_size r)" by (elim exE conjE) (rule that; assumption)
  define r1 where "r1 = r\<lparr>rf_file := h1\<rparr>"
  have r1: "rf_file r1 = h1" "rf_current_size r1 = rf_current_size r" "rf_base_filename r1 = rf_base_filename r"
    "rf_max_size r1 = rf_max_size r" "rf_max_files r1 = rf_max_files r" by (simp_all add: r1_def)
  show ?thesis
  proof (cases "rf_current_size r > 0")
    case False
    from fh_write_inv [where r = r1 and c = "rf_current_size r" and f = f1 and msg = msg, OF assms(1)] fl(2)
    obtain h where "fh_write os msg (rf_file r1) f1 = (None, h, tick f1)"
      "rf_inv (r1\<lparr>rf_file := h, rf_current_size := rf_current_size r + length msg\<rparr>) (tick f1)"
      "kept_text (r1\<lparr>rf_file := h, rf_current_size := rf_current_size r + length msg\<rparr>) (tick f1) = kept_text r1 f1 @ msg"
      by (auto simp: r1_def)
    with False True fl show ?thesis
      by (intro exI [of _ "r1\<lparr>rf_file := h, rf_current_size := rf_current_size r + length msg\<rparr>"] exI [of _ "tick f1"] exI [of _ "[]"])
        (simp add: rf_sink_it_def r1_def)
  next
    case pos: True
    from rotate_sink_ok [OF assms(1), of r1 f1] fl(2,3) obtain r2 f2 where ro: "rotate_sink os r1 f1 = (None, r2, f2)"
      "rf_base_filename r2 = rf_base_filename r" "rf_max_size r2 = rf_max_size r" "rf_max_files r2 = rf_max_files r"
      "rf_inv (r2\<lparr>rf_current_size := 0\<rparr>) f2" "file_text r2 f2 0 = []" "pending_text r2 = []"
      "\<forall>i. 0 < i \<and> i \<le> rf_max_files r1 \<longrightarrow> file_text r2 f2 i = file_text r1 f1 (i - 1)"
      unfolding r1_def [symmetric] r1 by blast
    from fh_write_inv [where msg = msg, OF assms(1) ro(5)] obtain h where w: "fh_write os msg (rf_file r2) f2 = (None, h, tick f2)"
      "rf_inv (r2\<lparr>rf_file := h, rf_current_size := 0 + length msg\<rparr>) (tick f2)"
      "kept_text (r2\<lparr>rf_file := h, rf_current_size := 0 + length msg\<rparr>) (tick f2) = kept_text r2 f2 @ msg"
      by (elim exE conjE) (rule that; assumption)
    have p1: "pending_text r1 = []" using fl(3) by (simp add: pending_text_def r1)
    have "kept_text r1 f1 = file_text r1 f1 (rf_max_files r) @ kept_text r2 f2"
      unfolding kept_text_split [of r2] using kept_text_shift [of "rf_max_files r" "file_text r2 f2" "file_text r1 f1"] ro
      by (simp add: kept_text_def p1 r1 del: upt_Suc)
    with fl(4) w(3) have "file_text r1 f1 (rf_max_files r) @
        kept_text (r2\<lparr>rf_file := h, rf_current_size := 0 + length msg\<rparr>) (tick f2) = kept_text r f @ msg"
      by (simp add: r1_def)
    moreover have "rf_sink_it os msg r f = (None, r2\<lparr>rf_file := h, rf_current_size := 0 + length msg\<rparr>, tick f2)"
      using True pos fl(1,5) ro(1) w(1) by (simp add: rf_sink_it_def r1_def)
    ultimately show ?thesis using w(2) ro(2-4)
      by (intro exI [of _ "r2\<lparr>rf_file := h, rf_current_size := 0 + length msg\<rparr>"] exI [of _ "tick f2"]
          exI [of _ "file_text r1 f1 (rf_max_files r)"]) simp
  qed
qed

section \<open>A run of the sink\<close>

text \<open>The messages of a run, in order, until one throws.\<close>

fun rf_run :: "fs_oracle \<Rightarrow> string list \<Rightarrow> rotating_sink \<Rightarrow> fs \<Rightarrow> spdlog_ex option \<times> rotating_sink \<times> fs" where
  "rf_run os [] r f = (None, r, f)"
| "rf_run os (m # ms) r f =
     (let (e, r1, f1) = rf_sink_it os m r f in case e of Some x \<Rightarrow> (Some x, r1, f1) | None \<Rightarrow> rf_run os ms r1 f1)"

lemma rf_run_ok:
  assumes "reliable os" and "rf_inv r f"
  shows "\<exists>r' f' old. rf_run os ms r f = (None, r', f') \<and> rf_inv r' f' \<and>
    rf_base_filename r' = rf_base_filename r \<and> rf_max_size r' = rf_max_size r \<and> rf_max_files r' = rf_max_files r \<and>
    rf_current_size r' \<le> Max (set (rf_current_size r # rf_max_size r # map length ms)) \<and>
    old @ kept_text r' f' = kept_text r f @ concat ms"
  using assms(2)
proof (induction ms arbitrary: r f)
  case Nil
  then show ?case by simp
next
  case (Cons m ms)
  from rf_sink_it_ok [OF assms(1) Cons.prems, of m] obtain r1 f1 o1 where s: "rf_sink_it os m r f = (None, r1, f1)" "rf_inv r1 f1"
    "rf_base_filename r1 = rf_base_filename r" "rf_max_size r1 = rf_max_size r" "rf_max_files r1 = rf_max_files r"
    "rf_current_size r1 \<le> max (rf_max_size r) (length m)" "o1 @ kept_text r1 f1 = kept_text r f @ m"
    by (elim exE conjE) (rule that; assumption)
  from Cons.IH [OF s(2)] obtain r' f' o2 where t: "rf_run os ms r1 f1 = (None, r', f')" "rf_inv r' f'"
    "rf_base_filename r' = rf_base_filename r1" "rf_max_size r' = rf_max_size r1" "rf_max_files r' = rf_max_files r1"
    "rf_current_size r' \<le> Max (set (rf_current_size r1 # rf_max_size r1 # map length ms))"
    "o2 @ kept_text r' f' = kept_text r1 f1 @ concat ms"
    by (elim exE conjE) (rule that; assumption)
  have "(o1 @ o2) @ kept_text r' f' = kept_text r f @ concat (m # ms)"
    using t(7) s(7) by (metis append.assoc concat.simps(2))
  moreover have "rf_current_size r' \<le> Max (set (rf_current_size r # rf_max_size r # map length (m # ms)))"
    using t(6) s(4,6) by (cases ms) (auto simp: le_max_iff_disj)
  ultimately show ?case using s t by (intro exI [of _ r'] exI [of _ f'] exI [of _ "o1 @ o2"]) simp
qed

text \<open>Opening: a reliable file system gives a sink in a good state, with the size of the file.\<close>

lemma fh_open_reliable:
  assumes "reliable os" and "fname \<noteq> []" and "fh_fd h = None"
  shows "\<exists>f'. fh_open os fname False h f = (None, h\<lparr>fh_filename := fname, fh_fd := Some []\<rparr>, f') \<and>
    fs_files f' = (fs_files f)(fname \<mapsto> (case fs_files f fname of Some s \<Rightarrow> s | None \<Rightarrow> []))"
  using assms by (cases "fs_files f fname")
    (simp_all add: fh_open_def fh_close_def open_tries_def numeral_eq_Suc fopen_reliable tick_def)

lemma mk_rotating_sink_ok:
  assumes "reliable os" and "base \<noteq> []" and "0 < max_size" and "max_files \<le> MaxFiles"
    and "\<forall>i. 0 < i \<and> i < max_files \<and> fs_files f (calc_filename base (Suc i)) \<noteq> None \<longrightarrow> fs_files f (calc_filename base i) \<noteq> None"
  shows "\<exists>r f'. mk_rotating_sink os base max_size max_files False f = (None, r, f') \<and> rf_inv r f' \<and>
    rf_base_filename r = base \<and> rf_max_size r = max_size \<and> rf_max_files r = max_files \<and>
    kept_text r f' = kept_text r f"
proof -
  let ?h = "\<lparr>fh_filename = [], fh_fd = None\<rparr>"
  let ?s = "case fs_files f base of Some s \<Rightarrow> s | None \<Rightarrow> []"
  from fh_open_reliable [OF assms(1,2), of ?h f] obtain f' where
    o: "fh_open os base False ?h f = (None, \<lparr>fh_filename = base, fh_fd = Some []\<rparr>, f')" "fs_files f' = (fs_files f)(base \<mapsto> ?s)"
    by auto
  define r where "r = \<lparr>rf_base_filename = base, rf_max_size = max_size, rf_max_files = max_files, rf_current_size = length ?s,
    rf_file = \<lparr>fh_filename = base, fh_fd = Some []\<rparr>\<rparr>"
  have m: "mk_rotating_sink os base max_size max_files False f = (None, r, f')"
    using assms(3,4) o by (simp add: mk_rotating_sink_def fh_size_def r_def)
  have ne: "calc_filename base i \<noteq> base" if "0 < i" for i using that calc_filename_eq [of base i 0] by simp
  have t: "file_text r f' = file_text r f"
  proof
    fix i show "file_text r f' i = file_text r f i"
      using ne [of i] by (cases "i = 0") (simp_all add: file_text_def r_def o(2))
  qed
  have k: "kept_text r f' = kept_text r f" by (simp add: kept_text_def t)
  have "fs_files f' (calc_filename base (i - 1)) \<noteq> None" if "0 < i" "i \<le> max_files" "fs_files f' (calc_filename base i) \<noteq> None" for i
  proof (cases "i = 1")
    case True
    then show ?thesis by (simp add: o(2))
  next
    case False
    with that assms(5) [rule_format, of "i - 1"] ne show ?thesis by (auto simp: o(2))
  qed
  then have "rf_inv r f'"
    using assms(2) by (auto simp: rf_inv_def r_def o(2) file_text_def pending_text_def split: option.splits)
  then show ?thesis using m k by (intro exI [of _ r] exI [of _ f']) (simp add: r_def)
qed

section \<open>When files cannot be renamed\<close>

definition only_renames_fail :: "fs_oracle \<Rightarrow> bool" where
  "only_renames_fail os \<longleftrightarrow> (\<forall>t. can_open os t \<and> \<not> can_rename os t \<and> can_write os t \<and> can_flush os t)"

lemma rename_file_fails:
  "only_renames_fail os \<Longrightarrow> rename_file os src target f = (False, tick (os_remove target f))"
  by (auto simp: rename_file_def os_rename_def only_renames_fail_def split: option.split)

lemma rotate_loop_fails:
  assumes "only_renames_fail os" and "fs_files f base \<noteq> None"
  shows "0 < n \<Longrightarrow> \<exists>f'. rotate_loop os base n f = (False, f') \<and>
    (\<forall>i<n. fs_files f' (calc_filename base i) = fs_files f (calc_filename base i)) \<and>
    (fs_files f (calc_filename base n) = None \<longrightarrow> fs_files f' (calc_filename base n) = None) \<and>
    (\<forall>i>n. fs_files f' (calc_filename base i) = fs_files f (calc_filename base i))"
proof (induction n)
  case 0
  then show ?case by simp
next
  case (Suc n)
  show ?case
  proof (cases "fs_files f (calc_filename base n) = None")
    case True
    with assms(2) have "0 < n" by (cases n) simp_all
    from Suc.IH [OF this] True show ?thesis by (auto simp: less_Suc_eq)
  next
    case False
    then show ?thesis
      using assms(1) by (auto simp: Let_def rename_file_fails os_remove_def tick_def)
  qed
qed

lemma fopen_only_renames_fail:
  "only_renames_fail os \<Longrightarrow> fopen_s os n trunc f =
     (True, (tick f)\<lparr>fs_files := (fs_files f)(n \<mapsto> (case fs_files f n of Some s \<Rightarrow> if trunc then [] else s | None \<Rightarrow> []))\<rparr>)"
  by (simp add: fopen_s_def only_renames_fail_def)

text \<open>The log file is truncated all the same: its text is lost, and the message that asked for the rotation too.\<close>

lemma rotate_sink_fails:
  assumes "only_renames_fail os" and "rf_inv r f" and "0 < rf_max_files r"
  shows "\<exists>r' f'. rotate_sink os r f = (Some rename_failed, r', f') \<and> rf_current_size r' = 0 \<and> file_text r' f' 0 = [] \<and>
    pending_text r' = [] \<and> (\<forall>i. 0 < i \<and> i < rf_max_files r \<longrightarrow> file_text r' f' i = file_text r f i)"
proof -
  let ?base = "rf_base_filename r" and ?n = "rf_max_files r"
  obtain p d where p: "fh_fd (rf_file r) = Some p" "fs_files f ?base = Some d" "fh_filename (rf_file r) = ?base" "?base \<noteq> []"
    using assms(2) by (auto simp: rf_inv_def)
  define h1 where "h1 = (rf_file r)\<lparr>fh_fd := None\<rparr>"
  define f1 where "f1 = (tick f)\<lparr>fs_files := (fs_files f)(?base \<mapsto> d @ p)\<rparr>"
  have c: "fh_close os (rf_file r) f = (h1, f1)"
    using p assms(1) by (simp add: fh_close_def fh_flush_def only_renames_fail_def h1_def f1_def)
  have ne: "calc_filename ?base i \<noteq> ?base" if "0 < i" for i using that calc_filename_eq [of ?base i 0] by simp
  have "fs_files f1 ?base \<noteq> None" by (simp add: f1_def)
  with rotate_loop_fails [OF assms(1) _ assms(3), of f1 ?base] obtain f2 where f2: "rotate_loop os ?base ?n f1 = (False, f2)"
    "\<forall>i<?n. fs_files f2 (calc_filename ?base i) = fs_files f1 (calc_filename ?base i)" by blast
  define f3 where "f3 = (tick (tick f2))\<lparr>fs_files := (fs_files f2)(?base \<mapsto> [])\<rparr>"
  have o: "fh_reopen os True h1 f2 = (None, h1\<lparr>fh_fd := Some []\<rparr>, f3)"
    using p assms(1) by (cases "fs_files f2 ?base")
      (simp_all add: fh_reopen_def fh_open_def fh_close_def open_tries_def numeral_eq_Suc fopen_only_renames_fail h1_def f3_def tick_def)
  define r' where "r' = r\<lparr>rf_file := h1\<lparr>fh_fd := Some []\<rparr>, rf_current_size := 0\<rparr>"
  have "rotate_sink os r f = (Some rename_failed, r', f3)"
    by (simp add: rotate_sink_def c f2(1) o r'_def)
  moreover have "file_text r' f3 i = file_text r f i" if "0 < i" "i < ?n" for i
    using f2(2) that ne [OF that(1)] by (simp add: file_text_def r'_def f3_def f1_def)
  moreover have "file_text r' f3 0 = []" by (simp add: file_text_def r'_def f3_def)
  ultimately show ?thesis by (intro exI [of _ r'] exI [of _ f3]) (simp add: r'_def pending_text_def)
qed

end
