(* ===== verification/Storage_Theorems.thy ===== *)
theory Storage_Theorems
  imports Circular_Q Rotating_File
begin

text \<open>
  Where log messages are kept: the rotating file, the ring of the backtrace, and the bounded queue.
\<close>

section \<open>The rotating file\<close>

definition demo_files :: fs where
  "demo_files = \<lparr>fs_files = [''a.log'' \<mapsto> ''old''], fs_tick = 0\<rparr>"

definition working_os :: fs_oracle where
  "working_os = \<lparr>can_open = (\<lambda>_. True), can_rename = (\<lambda>_. True), can_write = (\<lambda>_. True), can_flush = (\<lambda>_. True)\<rparr>"

text \<open>
  C22. Opening the log file and writing any messages never throws while the file system works; afterwards
  the rotated files are without a gap, the size that the sink counts is that of the file with what is not
  flushed yet, at most the limit or the longest message or what was there; and the files together hold
  the end of all the text, in order: only the oldest text is lost.
\<close>

theorem rotating_log_kept:
  assumes "reliable os" and "base \<noteq> []" and "0 < max_size" and "max_files \<le> MaxFiles"
    and "\<forall>i. 0 < i \<and> i < max_files \<and> fs_files f (calc_filename base (Suc i)) \<noteq> None \<longrightarrow> fs_files f (calc_filename base i) \<noteq> None"
  shows "\<exists>r0 f0 r f' lost. mk_rotating_sink os base max_size max_files False f = (None, r0, f0) \<and>
    rf_run os msgs r0 f0 = (None, r, f') \<and> rf_inv r f' \<and>
    rf_current_size r \<le> Max (set (rf_current_size r0 # max_size # map length msgs)) \<and>
    lost @ kept_text r f' = kept_text r0 f @ concat msgs"
proof -
  from mk_rotating_sink_ok [OF assms] obtain r0 f0 where m: "mk_rotating_sink os base max_size max_files False f = (None, r0, f0)"
    "rf_inv r0 f0" "rf_max_size r0 = max_size" "kept_text r0 f0 = kept_text r0 f"
    by (elim exE conjE) (rule that; assumption)
  from rf_run_ok [OF assms(1) m(2), of msgs] m show ?thesis by metis
qed

lemma demo_names: "calc_filename ''a.log'' 1 = ''a.1.log''" "calc_filename ''a.log'' 2 = ''a.2.log''"
  by code_simp+

theorem rotating_log_kept_witness:
  "\<exists>r0 f0 r f' lost. mk_rotating_sink working_os ''a.log'' 4 1 False demo_files = (None, r0, f0) \<and>
    rf_run working_os [''one'', ''two''] r0 f0 = (None, r, f') \<and> rf_current_size r \<le> 4 \<and>
    lost @ kept_text r f' = kept_text r0 demo_files @ ''onetwo''"
proof -
  have o: "reliable working_os" "MaxFiles = 200000" by (simp_all add: reliable_def working_os_def MaxFiles_def)
  have "\<forall>i. 0 < i \<and> i < (1::nat) \<and> fs_files demo_files (calc_filename ''a.log'' (Suc i)) \<noteq> None \<longrightarrow>
      fs_files demo_files (calc_filename ''a.log'' i) \<noteq> None" by simp
  moreover have "''a.log'' \<noteq> []" "0 < (4::nat)" "1 \<le> MaxFiles" by (simp_all add: o(2))
  ultimately obtain r0 f0 r f' lost where r: "mk_rotating_sink working_os ''a.log'' 4 1 False demo_files = (None, r0, f0)"
    "rf_run working_os [''one'', ''two''] r0 f0 = (None, r, f')" 
    "rf_current_size r \<le> Max (set (rf_current_size r0 # 4 # map length [''one'', ''two'']))" 
    "lost @ kept_text r f' = kept_text r0 demo_files @ concat [''one'', ''two'']"
    using rotating_log_kept [OF o(1), of "''a.log''" 4 1 demo_files "[''one'', ''two'']"] by metis
  from fh_open_reliable [OF o(1), of "''a.log''" "\<lparr>fh_filename = [], fh_fd = None\<rparr>" demo_files] obtain f1 where
    "fh_open working_os ''a.log'' False \<lparr>fh_filename = [], fh_fd = None\<rparr> demo_files =
      (None, \<lparr>fh_filename = ''a.log'', fh_fd = Some []\<rparr>, f1)" "fs_files f1 ''a.log'' = Some ''old''"
    by (auto simp: demo_files_def)
  then have "rf_current_size r0 = 3"
    using arg_cong [OF r(1), of "\<lambda>x. rf_current_size (fst (snd x))"]
    by (simp add: mk_rotating_sink_def fh_size_def MaxFiles_def)
  with r show ?thesis by auto
qed

text \<open>
  When files can be opened and written but not renamed, a rotation throws and leaves the log file
  truncated and counted as empty: all of its text is lost, as is the message that asked for the rotation;
  the rotated files keep theirs.
\<close>

theorem failed_rotation_truncates:
  assumes "only_renames_fail os" and "rf_inv r f" and "0 < rf_max_files r"
  shows "\<exists>r' f'. rotate_sink os r f = (Some rename_failed, r', f') \<and> rf_current_size r' = 0 \<and> file_text r' f' 0 = [] \<and>
    pending_text r' = [] \<and> (\<forall>i. 0 < i \<and> i < rf_max_files r \<longrightarrow> file_text r' f' i = file_text r f i)"
  by (rule rotate_sink_fails [OF assms])

theorem failed_rotation_truncates_witness:
  "\<exists>os r f r' f'. file_text r f 0 = ''old'' \<and> rotate_sink os r f = (Some rename_failed, r', f') \<and> file_text r' f' 0 = []"
proof -
  define os where "os = working_os\<lparr>can_rename := (\<lambda>_. False)\<rparr>"
  define r where "r = \<lparr>rf_base_filename = ''a.log'', rf_max_size = 4, rf_max_files = 1, rf_current_size = 3,
    rf_file = \<lparr>fh_filename = ''a.log'', fh_fd = Some []\<rparr>\<rparr>"
  have "only_renames_fail os" by (simp add: only_renames_fail_def os_def working_os_def)
  moreover have i: "rf_inv r demo_files" "file_text r demo_files 0 = ''old''"
    using demo_names by (auto simp: rf_inv_def r_def demo_files_def file_text_def pending_text_def le_Suc_eq)
  moreover have "0 < rf_max_files r" by (simp add: r_def)
  ultimately show ?thesis using failed_rotation_truncates [of os r demo_files] by blast
qed

section \<open>The queues\<close>

text \<open>
  C23. Refinement: the ring of slots behaves like a list of at most \<open>cq_cap\<close> elements; a push into a full
  one drops the oldest, a pop takes the front, and no operation touches a slot outside the array.
\<close>

theorem ring_refines_list:
  assumes "cq_inv q"
  shows "(\<exists>q'. cq_push_back x q = Some q' \<and> cq_inv q' \<and> cq_cap q' = cq_cap q \<and>
      cq_contents q' = (let xs = cq_contents q @ [x] in drop (length xs - cq_cap q) xs)) \<and>
    (cq_contents q \<noteq> [] \<longrightarrow> cq_front q = Some (hd (cq_contents q)) \<and>
      (\<exists>q'. cq_pop_front q = Some q' \<and> cq_inv q' \<and> cq_cap q' = cq_cap q \<and> cq_contents q' = tl (cq_contents q))) \<and>
    (\<forall>i<length (cq_contents q). cq_at i q = Some (cq_contents q ! i)) \<and>
    (cq_empty q \<longleftrightarrow> cq_contents q = []) \<and> cq_size q = length (cq_contents q) \<and> length (cq_contents q) \<le> cq_cap q"
  using ring_q.push_ok [OF assms, of x] ring_q.front_ok [OF assms] ring_q.pop_ok [OF assms] ring_q.empty_ok [OF assms]
    ring_q.bound [OF assms] cq_at_ok [OF assms]
  by (simp add: overwrite_def Let_def del: length_cq_contents) simp

theorem ring_refines_list_witness:
  "\<exists>q' :: nat circular_q. cq_push_back 3 \<lparr>cq_max_items = 3, cq_head = 1, cq_tail = 0, cq_overrun = 0, cq_v = [9, 1, 2]\<rparr> = Some q' \<and>
     cq_contents q' = [2, 3]"
proof -
  let ?q = "\<lparr>cq_max_items = 3, cq_head = 1, cq_tail = 0, cq_overrun = 0, cq_v = [9, 1, 2]\<rparr> :: nat circular_q"
  have i: "cq_inv ?q" by (simp add: cq_inv_def)
  have c: "cq_contents ?q = [1, 2]" "cq_cap ?q = 2" "cq_size ?q = 2" by (code_simp, simp_all add: cq_cap_def cq_size_def)
  from ring_refines_list [OF i, of 3] c show ?thesis by (auto simp: Let_def)
qed

text \<open>
  C24. Invariant of the blocking queue: in every reachable state of any number of threads that use the
  blocking operations, what was put in is, in order, what was taken out followed by what is in the queue;
  nothing is lost, repeated or reordered, and the bound holds.
\<close>

theorem blocking_queue_fifo:
  assumes "mq_run (mk_mpmc_queue dflt n) es s" and "0 < n" and "n + 1 < 2 ^ 64" and "list_all blocking es"
  shows "enqueued es = dequeued es @ cq_contents (mq_q s) \<and> length (cq_contents (mq_q s)) \<le> n"
proof -
  let ?s = "mk_mpmc_queue dflt n"
  have i: "cq_inv (mq_q ?s)" "cq_cap (mq_q ?s) = n" "cq_contents (mq_q ?s) = []"
    by (simp_all add: mk_mpmc_queue_def mk_circular_q_inv mk_circular_q_contents mk_circular_q_cap [OF assms(3)])
  from mq_run_fifo [OF assms(1) i(1) _ i(3) assms(4)] assms(2) i(2)
  have f: "cq_inv (mq_q s)" "cq_cap (mq_q s) = n" "enqueued es = dequeued es @ cq_contents (mq_q s)" by simp_all
  with ring_q.bound [OF f(1)] show ?thesis by simp
qed

theorem blocking_queue_fifo_witness:
  "\<exists>s. mq_run (mk_mpmc_queue (0::nat) 1) [Enqueue 5, Dequeue 5, Enqueue 6] s \<and> cq_contents (mq_q s) = [6]"
proof -
  let ?q0 = "mk_circular_q (0::nat) 1"
  have replicate_two: "replicate 2 x = [x, x]" for x :: nat by (simp add: numeral_2_eq_2)
  have q0: "?q0 = \<lparr>cq_max_items = 2, cq_head = 0, cq_tail = 0, cq_overrun = 0, cq_v = [0, 0]\<rparr>"
    using replicate_two [of "0::nat"] by (simp add: mk_circular_q_def)
  define s1 where "s1 = \<lparr>mq_q = \<lparr>cq_max_items = 2, cq_head = 0, cq_tail = 1, cq_overrun = 0, cq_v = [5, 0 :: nat]\<rparr>, mq_discard = 0\<rparr>"
  define s2 where "s2 = \<lparr>mq_q = \<lparr>cq_max_items = 2, cq_head = 1, cq_tail = 1, cq_overrun = 0, cq_v = [5, 0 :: nat]\<rparr>, mq_discard = 0\<rparr>"
  define s3 where "s3 = \<lparr>mq_q = \<lparr>cq_max_items = 2, cq_head = 1, cq_tail = 0, cq_overrun = 0, cq_v = [5, 6 :: nat]\<rparr>, mq_discard = 0\<rparr>"
  define s0 where "s0 = mk_mpmc_queue (0::nat) 1"
  have s0: "s0 = \<lparr>mq_q = \<lparr>cq_max_items = 2, cq_head = 0, cq_tail = 0, cq_overrun = 0, cq_v = [0, 0]\<rparr>, mq_discard = 0\<rparr>"
    unfolding s0_def mk_mpmc_queue_def q0 ..
  have "mq_step s0 (Enqueue 5) s1"
    using mq_step.enqueue [of s0 5 "mq_q s1"] by (simp add: s0 s1_def cq_full_def cq_push_back_def)
  moreover have "mq_step s1 (Dequeue 5) s2"
    using mq_step.dequeue [of s1 5 "mq_q s2"] by (simp add: s1_def s2_def cq_empty_def cq_front_def cq_pop_front_def)
  moreover have "mq_step s2 (Enqueue 6) s3"
    using mq_step.enqueue [of s2 6 "mq_q s3"] by (simp add: s2_def s3_def cq_full_def cq_push_back_def)
  ultimately have "mq_run s0 ((([] @ [Enqueue 5]) @ [Dequeue 5]) @ [Enqueue 6]) s3"
    by (blast intro: mq_refl mq_snoc)
  then have r: "mq_run (mk_mpmc_queue (0::nat) 1) [Enqueue 5, Dequeue 5, Enqueue 6] s3" by (simp add: s0_def)
  have "enqueued [Enqueue 5, Dequeue 5, Enqueue (6::nat)] = [5, 6]" "dequeued [Enqueue 5, Dequeue 5, Enqueue (6::nat)] = [5]"
    by (simp_all add: enqueued_def dequeued_def)
  with blocking_queue_fifo [OF r] have "cq_contents (mq_q s3) = [6]" by (simp add: blocking_def)
  with r show ?thesis by blast
qed

text \<open>
  The backtrace: after it is enabled for \<open>n\<close> messages, a dump shows the last \<open>n\<close> of the messages logged
  since, in order, ends, and leaves it empty and enabled.
\<close>

theorem backtrace_keeps_last:
  assumes "n + 1 < 2 ^ 64"
  shows "\<exists>b1 b2. bt_push_all xs (bt_enable dflt n b) = Some b1 \<and> bt_foreach_pop b1 = Some (drop (length xs - n) xs, b2) \<and>
    bt_enabled b2 \<and> cq_contents (bt_messages b2) = []"
  by (rule bt_dump_ok [OF assms])

theorem backtrace_keeps_last_witness:
  "\<exists>b1 b2. bt_push_all [1, 2, 3] (bt_enable (0::nat) 2 bt_init) = Some b1 \<and> bt_foreach_pop b1 = Some ([2, 3], b2)"
  using backtrace_keeps_last [of 2 "[1, 2, 3]" "0::nat" bt_init] by auto

end
