(* ===== verification/Log_Context.thy ===== *)
theory Log_Context
  imports Log_Formatters "HOL-Library.List_Lexorder" "HOL-Library.Char_ord"
begin

text \<open>
  The mapped diagnostic context (\<open>spdlog/mdc.h\<close>) as an ordered map: the interface \<open>string_map\<close>, its
  interpretation on the sorted entries, and the text that the \<open>%&\<close> flag makes of them.
\<close>

section \<open>The order of the keys\<close>

text \<open>\<open>std::less<std::string>\<close> is the lexicographic order of the library.\<close>

lemma str_less_less: "str_less xs ys \<longleftrightarrow> xs < ys"
  by (induction xs ys rule: str_less.induct) (auto simp: less_char_def)

section \<open>The interface of a map of strings\<close>

locale string_map =
  fixes inv :: "'m \<Rightarrow> bool" and contents :: "'m \<Rightarrow> string \<rightharpoonup> string" and cleared :: 'm
    and put :: "string \<Rightarrow> string \<Rightarrow> 'm \<Rightarrow> 'm" and remove :: "string \<Rightarrow> 'm \<Rightarrow> 'm" and get :: "string \<Rightarrow> 'm \<Rightarrow> string"
  assumes cleared_ok: "inv cleared \<and> contents cleared = Map.empty"
    and put_ok: "inv m \<Longrightarrow> inv (put k v m) \<and> contents (put k v m) = (contents m)(k \<mapsto> v)"
    and remove_ok: "inv m \<Longrightarrow> inv (remove k m) \<and> contents (remove k m) = (contents m)(k := None)"
    and get_ok: "inv m \<Longrightarrow> get k m = (case contents m k of Some v \<Rightarrow> v | None \<Rightarrow> [])"
begin

lemma get_put: "inv m \<Longrightarrow> get k' (put k v m) = (if k' = k then v else get k' m)"
  using put_ok [of m k v] by (simp add: get_ok)

lemma get_remove: "inv m \<Longrightarrow> get k' (remove k m) = (if k' = k then [] else get k' m)"
  using remove_ok [of m k] by (simp add: get_ok)

end

section \<open>The context\<close>

definition mdc_inv :: "(string \<times> string) list \<Rightarrow> bool" where
  "mdc_inv m \<longleftrightarrow> sorted_wrt (<) (map fst m)"

lemma set_mdc_put: "fst ` set (mdc_put k v m) = insert k (fst ` set m)"
  by (induction k v m rule: mdc_put.induct) auto

lemma mdc_put_inv: "mdc_inv m \<Longrightarrow> mdc_inv (mdc_put k v m)"
proof (induction k v m rule: mdc_put.induct)
  case (1 k v)
  then show ?case by (simp add: mdc_inv_def)
next
  case (2 k v k' v' m)
  show ?case
  proof (cases "k = k' \<or> k < k'")
    case True
    with 2(2) show ?thesis by (auto simp: mdc_inv_def str_less_less intro: less_trans)
  next
    case False
    then have k: "k' < k" by (metis linorder_less_linear)
    with False 2 have i: "mdc_inv (mdc_put k v m)" by (simp add: mdc_inv_def str_less_less)
    have "\<forall>x\<in>fst ` set (mdc_put k v m). k' < x" unfolding set_mdc_put using k 2(2) by (auto simp: mdc_inv_def)
    with i k show ?thesis by (auto simp: mdc_inv_def str_less_less)
  qed
qed

lemma map_of_mdc_put: "map_of (mdc_put k v m) = (map_of m)(k \<mapsto> v)"
  by (induction k v m rule: mdc_put.induct) (auto simp: fun_eq_iff)

lemma map_of_mdc_remove: "map_of (mdc_remove k m) = (map_of m)(k := None)"
  by (induction m) (auto simp: mdc_remove_def fun_eq_iff)

lemma mdc_remove_inv: "mdc_inv m \<Longrightarrow> mdc_inv (mdc_remove k m)"
  by (induction m) (auto simp: mdc_inv_def mdc_remove_def)

interpretation context_map: string_map mdc_inv map_of mdc_clear mdc_put mdc_remove mdc_get
proof unfold_locales
  fix m k v
  assume m: "mdc_inv m"
  show "mdc_inv (mdc_put k v m) \<and> map_of (mdc_put k v m) = (map_of m)(k \<mapsto> v)" using m by (simp add: mdc_put_inv map_of_mdc_put)
  show "mdc_inv (mdc_remove k m) \<and> map_of (mdc_remove k m) = (map_of m)(k := None)"
    using m by (simp add: mdc_remove_inv map_of_mdc_remove)
  show "mdc_get k m = (case map_of m k of Some v \<Rightarrow> v | None \<Rightarrow> [])" by (simp add: mdc_get_def)
qed (simp add: mdc_inv_def mdc_clear_def)

text \<open>Calls of a thread on its context, and what they do to a map.\<close>

datatype mdc_call = Put string string | Remove string | Clear

definition mdc_apply :: "mdc_call \<Rightarrow> (string \<times> string) list \<Rightarrow> (string \<times> string) list" where
  "mdc_apply c m = (case c of Put k v \<Rightarrow> mdc_put k v m | Remove k \<Rightarrow> mdc_remove k m | Clear \<Rightarrow> mdc_clear)"

definition map_apply :: "mdc_call \<Rightarrow> (string \<rightharpoonup> string) \<Rightarrow> (string \<rightharpoonup> string)" where
  "map_apply c m = (case c of Put k v \<Rightarrow> m(k \<mapsto> v) | Remove k \<Rightarrow> m(k := None) | Clear \<Rightarrow> Map.empty)"

lemma mdc_calls_ok: "mdc_inv m \<Longrightarrow> mdc_inv (fold mdc_apply cs m) \<and> map_of (fold mdc_apply cs m) = fold map_apply cs (map_of m)"
proof (induction cs arbitrary: m)
  case Nil
  then show ?case by simp
next
  case (Cons c cs)
  have "mdc_inv (mdc_apply c m) \<and> map_of (mdc_apply c m) = map_apply c (map_of m)"
    using context_map.put_ok [OF Cons.prems] context_map.remove_ok [OF Cons.prems] context_map.cleared_ok
    by (cases c) (auto simp: mdc_apply_def map_apply_def mdc_clear_def)
  with Cons.IH [of "mdc_apply c m"] show ?case by simp
qed

section \<open>Its text\<close>

fun mdc_text :: "(string \<times> string) list \<Rightarrow> string" where
  "mdc_text [] = []"
| "mdc_text [(k, v)] = k @ '':'' @ v"
| "mdc_text ((k, v) # m) = k @ '':'' @ v @ '' '' @ mdc_text m"

lemma format_mdc_text: "format_mdc null_scoped_padder pi m dest = Some (dest @ mdc_text m)"
  by (induction m arbitrary: dest rule: mdc_text.induct) (simp_all add: with_padder_def append_view_def)

section \<open>The property\<close>

text \<open>
  C35. However a thread puts, removes and clears entries of its diagnostic context, the context is a
  map from keys to values in strictly increasing order of the keys: a lookup gives the value last
  put under the key and not removed since, or the empty string, and the \<open>%&\<close> flag appends the
  entries as \<open>key:value\<close> in that order, with one space between two of them.
\<close>

theorem context_is_a_map:
  "let m = fold mdc_apply cs mdc_clear; spec = fold map_apply cs Map.empty in
     sorted_wrt (<) (map fst m) \<and> map_of m = spec \<and>
     (\<forall>k. mdc_get k m = (case spec k of Some v \<Rightarrow> v | None \<Rightarrow> [])) \<and>
     mdc_formatter_format null_scoped_padder pi (env\<lparr>mdc_context := m\<rparr>) dest = Some (dest @ mdc_text m)"
proof -
  have i: "mdc_inv mdc_clear" "map_of mdc_clear = Map.empty" using context_map.cleared_ok by auto
  note ok = mdc_calls_ok [OF i(1), of cs, unfolded i(2)]
  have f: "mdc_formatter_format null_scoped_padder pi (env\<lparr>mdc_context := m\<rparr>) dest = Some (dest @ mdc_text m)" for m
    by (simp add: mdc_formatter_format_def format_mdc_text with_padder_def)
  show ?thesis using ok f context_map.get_ok by (auto simp: Let_def mdc_inv_def [symmetric])
qed

end
