(* ===== verification/Fmt_Utf8.thy ===== *)
theory Fmt_Utf8
  imports Prelude
begin

text \<open>
  UTF-8 in \<open>spdlog/fmt/bundled/format.h\<close>: the branchless decoder and the iteration over the code points
  of a string, the encoder \<open>to_utf8\<close> for UTF-16 and UTF-32, and the display width of a code point.
  Chars are the bytes of a string; code points are natural numbers, which stay below \<open>2 ^ 22\<close>.
\<close>

section \<open>The encoder\<close>

text \<open>One code point of \<open>to_utf8::convert\<close>; None where it returns false.\<close>

definition utf8_of_cp :: "nat \<Rightarrow> string option" where
  "utf8_of_cp c =
     (if c < 0x80 then Some [char_of c]
      else if c < 0x800 then Some [char_of (0xc0 OR drop_bit 6 c), char_of (0x80 OR (c AND 0x3f))]
      else if (c \<ge> 0x800 \<and> c \<le> 0xd7ff) \<or> (c \<ge> 0xe000 \<and> c \<le> 0xffff) then
        Some [char_of (0xe0 OR drop_bit 12 c), char_of (0x80 OR drop_bit 6 (c AND 0xfff)), char_of (0x80 OR (c AND 0x3f))]
      else if c \<ge> 0x10000 \<and> c \<le> 0x10ffff then
        Some [char_of (0xf0 OR drop_bit 18 c), char_of (0x80 OR drop_bit 12 (c AND 0x3ffff)),
          char_of (0x80 OR drop_bit 6 (c AND 0xfff)), char_of (0x80 OR (c AND 0x3f))]
      else None)"

text \<open>
  \<open>to_utf8::convert\<close> for code units of \<open>wsize\<close> 2 or 4 bytes.  A lone surrogate of UTF-16 ends the
  conversion or is replaced, by the policy.
\<close>

datatype to_utf8_error_policy = policy_abort | policy_replace

fun convert :: "nat \<Rightarrow> to_utf8_error_policy \<Rightarrow> nat list \<Rightarrow> string option" where
  "convert wsize policy [] = Some []"
| "convert wsize policy (c # p) =
     (if wsize = 2 \<and> c \<ge> 0xd800 \<and> c \<le> 0xdfff then
        (case p of
           c2 # q \<Rightarrow>
             (if c AND 0xfc00 \<noteq> 0xd800 \<or> c2 AND 0xfc00 \<noteq> 0xdc00 then
                (if policy = policy_abort then None
                 else do { t \<leftarrow> convert wsize policy p; Some ([CHR 0xEF, CHR 0xBF, CHR 0xBD] @ t) })
              else do {
                b \<leftarrow> utf8_of_cp (push_bit 10 c + c2 - 0x35fdc00);
                t \<leftarrow> convert wsize policy q;
                Some (b @ t)
              })
         | [] \<Rightarrow>
             (if policy = policy_abort then None
              else do { t \<leftarrow> convert wsize policy p; Some ([CHR 0xEF, CHR 0xBF, CHR 0xBD] @ t) }))
      else do { b \<leftarrow> utf8_of_cp c; t \<leftarrow> convert wsize policy p; Some (b @ t) })"

section \<open>The decoder\<close>

definition utf8_lengths :: "nat list" where
  "utf8_lengths = [1, 1, 1, 1, 1, 1, 1, 1, 1, 1, 1, 1, 1, 1, 1, 1, 0, 0, 0, 0, 0, 0, 0, 0, 2, 2, 2, 2, 3, 3, 4, 0]"

text \<open>
  The code point of four bytes as if there were four, shifted by the length, and the error bits: a
  non-canonical encoding, a surrogate, a value out of range, tail bytes that are none.
\<close>

definition utf8_value :: "nat \<Rightarrow> nat \<Rightarrow> nat \<Rightarrow> nat \<Rightarrow> nat \<Rightarrow> nat" where
  "utf8_value len s0 s1 s2 s3 =
     (let masks = [0x00, 0x7f, 0x1f, 0x0f, 0x07 :: nat]; shiftc = [0, 18, 12, 6, 0 :: nat]
      in drop_bit (shiftc ! len)
           (push_bit 18 (s0 AND masks ! len) OR push_bit 12 (s1 AND 0x3f) OR push_bit 6 (s2 AND 0x3f) OR (s3 AND 0x3f)))"

definition utf8_errors :: "nat \<Rightarrow> nat \<Rightarrow> nat \<Rightarrow> nat \<Rightarrow> nat \<Rightarrow> nat" where
  "utf8_errors len c s1 s2 s3 =
     (let mins = [4194304, 0, 128, 2048, 65536 :: nat]; shifte = [0, 6, 4, 2, 0 :: nat];
          e = push_bit 6 (of_bool (c < mins ! len)) OR push_bit 7 (of_bool (drop_bit 11 c = 0x1b)) OR
            push_bit 8 (of_bool (c > 0x10FFFF)) OR drop_bit 2 (s1 AND 0xc0) OR drop_bit 4 (s2 AND 0xc0) OR drop_bit 6 s3
      in drop_bit (shifte ! len) (e XOR 0x2a))"

text \<open>
  \<open>utf8_decode\<close> at a position: the next position, the code point and the error bits.  It reads four bytes.
\<close>

definition utf8_decode :: "string \<Rightarrow> nat \<Rightarrow> (nat \<times> nat \<times> nat) option" where
  "utf8_decode s i =
     (if i + 3 < length s then
        (let s0 = of_char (s ! i); s1 = of_char (s ! (i + 1)); s2 = of_char (s ! (i + 2)); s3 = of_char (s ! (i + 3));
             len = utf8_lengths ! drop_bit 3 s0;
             nxt = i + len + of_bool (len = 0);
             c = utf8_value len s0 s1 s2 s3
         in Some (nxt, c, utf8_errors len c s1 s2 s3))
      else None)"

definition invalid_code_point :: nat where
  "invalid_code_point = 2 ^ 32 - 1"

text \<open>
  \<open>for_each_codepoint\<close> with a function over a state: the lambda \<open>decode\<close>, which calls the function with
  the code point and the place of its bytes in the string and gives the next place, or None to stop; the
  loop over the string while four bytes are left, and the one over the zero-padded rest.
\<close>

type_synonym 'a cp_fun = "nat \<Rightarrow> nat \<Rightarrow> nat \<Rightarrow> 'a \<Rightarrow> 'a \<times> bool"

definition cp_decode :: "'a cp_fun \<Rightarrow> string \<Rightarrow> nat \<Rightarrow> nat \<Rightarrow> 'a \<Rightarrow> ('a \<times> nat option) option" where
  "cp_decode f buf buf_ptr ptr a = do {
     (end, cp, error) \<leftarrow> utf8_decode buf buf_ptr;
     let (a', result) = f (if error \<noteq> 0 then invalid_code_point else cp) ptr (if error \<noteq> 0 then 1 else end - buf_ptr) a;
     Some (a', if result then Some (if error \<noteq> 0 then buf_ptr + 1 else end) else None)
   }"

lemma cp_decode_greater: "cp_decode f buf p q a = Some (a', Some n) \<Longrightarrow> p < n"
  by (auto simp: cp_decode_def utf8_decode_def Let_def split: option.splits prod.splits if_splits)

lemma cp_decode_inside: "cp_decode f buf p q a = Some r \<Longrightarrow> p + 3 < length buf"
  by (auto simp: cp_decode_def utf8_decode_def Let_def split: if_splits)

lemma cp_decode_progress: "cp_decode f buf p q a = Some (a', Some n) \<Longrightarrow> length buf - n < length buf - p"
  using cp_decode_greater cp_decode_inside by (metis add_lessD1 diff_less_mono2)

function cp_blocks :: "'a cp_fun \<Rightarrow> string \<Rightarrow> nat \<Rightarrow> 'a \<Rightarrow> ('a \<times> nat option) option" where
  "cp_blocks f s p a =
     (if p < length s - 4 + 1 then
        (case cp_decode f s p p a of
           None \<Rightarrow> None
         | Some (a', None) \<Rightarrow> Some (a', None)
         | Some (a', Some p') \<Rightarrow> cp_blocks f s p' a')
      else Some (a, Some p))"
  by pat_completeness auto
termination
  by (relation "measure (\<lambda>(f, s, p, a). length s - p)") (auto dest!: cp_decode_progress)

function cp_rest :: "'a cp_fun \<Rightarrow> string \<Rightarrow> nat \<Rightarrow> nat \<Rightarrow> nat \<Rightarrow> 'a \<Rightarrow> 'a option" where
  "cp_rest f buf left buf_ptr p a =
     (case cp_decode f buf buf_ptr p a of
        None \<Rightarrow> None
      | Some (a', None) \<Rightarrow> Some a'
      | Some (a', Some end) \<Rightarrow>
          (if end < left then cp_rest f buf left end (p + (end - buf_ptr)) a' else Some a'))"
  by pat_completeness auto
termination
  by (relation "measure (\<lambda>(f, buf, left, b, p, a). length buf - b)") (auto dest!: cp_decode_progress)

declare cp_blocks.simps [simp del] cp_rest.simps [simp del]

definition for_each_codepoint :: "'a cp_fun \<Rightarrow> string \<Rightarrow> 'a \<Rightarrow> 'a option" where
  "for_each_codepoint f s a = do {
     (a', p) \<leftarrow> (if length s \<ge> 4 then cp_blocks f s 0 a else Some (a, Some 0));
     (case p of
        None \<Rightarrow> Some a'
      | Some p \<Rightarrow>
          (let num_chars_left = length s - p
           in if num_chars_left = 0 then Some a'
              else (let left = num_chars_left AND 3;
                        buf = take left (drop p s) @ replicate (7 - left) (CHR 0x00)
                    in cp_rest f buf left 0 p a')))
   }"

definition display_width_of :: "nat \<Rightarrow> nat" where
  "display_width_of cp =
     1 + of_bool (cp \<ge> 0x1100 \<and>
       (cp \<le> 0x115f \<or> cp = 0x2329 \<or> cp = 0x232a \<or> (cp \<ge> 0x2e80 \<and> cp \<le> 0xa4cf \<and> cp \<noteq> 0x303f) \<or>
        (cp \<ge> 0xac00 \<and> cp \<le> 0xd7a3) \<or> (cp \<ge> 0xf900 \<and> cp \<le> 0xfaff) \<or> (cp \<ge> 0xfe10 \<and> cp \<le> 0xfe19) \<or>
        (cp \<ge> 0xfe30 \<and> cp \<le> 0xfe6f) \<or> (cp \<ge> 0xff00 \<and> cp \<le> 0xff60) \<or> (cp \<ge> 0xffe0 \<and> cp \<le> 0xffe6) \<or>
        (cp \<ge> 0x20000 \<and> cp \<le> 0x2fffd) \<or> (cp \<ge> 0x30000 \<and> cp \<le> 0x3fffd) \<or>
        (cp \<ge> 0x1f300 \<and> cp \<le> 0x1f64f) \<or> (cp \<ge> 0x1f900 \<and> cp \<le> 0x1f9ff)))"


text \<open>\<open>utf8_to_utf16\<close>: the code units without the final zero; None in the state when it has thrown.\<close>

definition utf16_units :: "nat \<Rightarrow> nat list" where
  "utf16_units cp =
     (if cp \<le> 0xFFFF then [cp] else (let cp = cp - 0x10000 in [0xD800 + drop_bit 10 cp, 0xDC00 + (cp AND 0x3FF)]))"

definition utf8_to_utf16 :: "string \<Rightarrow> nat list option option" where
  "utf8_to_utf16 s =
     for_each_codepoint (\<lambda>cp p n buffer.
       if cp = invalid_code_point then (None, False)
       else (map_option (\<lambda>b. b @ utf16_units cp) buffer, True)) s (Some [])"

end
