(* ===== verification/Fmt_Utf8_Facts.thy ===== *)
theory Fmt_Utf8_Facts
  imports Fmt_Utf8
begin

text \<open>
  The decoder and the encoder of \<open>Fmt_Utf8\<close> in arithmetic: \<open>slice4\<close> is sound and complete for the
  encoder, the iteration visits the slices of the string (\<open>for_each_codepoint_eq\<close>), and the two
  conversions between UTF-8 and UTF-16 are inverse.
\<close>

section \<open>Bits and numbers\<close>

lemma or_add: "b < 2 ^ k \<Longrightarrow> push_bit k a OR b = a * 2 ^ k + (b :: nat)"
proof -
  assume b: "b < 2 ^ k"
  have "push_bit k a OR b = push_bit k a + b"
  proof (rule disjunctive_add [symmetric])
    fix n
    have "take_bit k b = b" using b by (simp add: take_bit_nat_eq_self)
    then have "\<not> bit b n" if "k \<le> n" using that by (metis bit_take_bit_iff not_less)
    then show "\<not> bit (push_bit k a) n \<or> \<not> bit b n" by (auto simp: bit_push_bit_iff)
  qed
  then show ?thesis by (simp add: push_bit_eq_mult)
qed

lemma and_mask_mod: "(x :: nat) AND mask n = x mod 2 ^ n"
  by (simp add: take_bit_eq_mod flip: take_bit_eq_mask)

lemma and_pow: "m = 2 ^ n - 1 \<Longrightarrow> k = 2 ^ n \<Longrightarrow> (x :: nat) AND m = x mod k"
  by (simp only: and_mask_mod flip: mask_eq_exp_minus_1)

lemma and_low: "(x :: nat) AND 0x3f = x mod 64" "(x :: nat) AND 0xfff = x mod 4096" "(x :: nat) AND 0x3ffff = x mod 262144"
  "(x :: nat) AND 0x7f = x mod 128" "(x :: nat) AND 0x1f = x mod 32" "(x :: nat) AND 0x0f = x mod 16"
  "(x :: nat) AND 0x07 = x mod 8" "(x :: nat) AND 0x3ff = x mod 1024"
  by (rule and_pow [of _ 6] and_pow [of _ 12] and_pow [of _ 18] and_pow [of _ 7] and_pow [of _ 5] and_pow [of _ 4]
      and_pow [of _ 3] and_pow [of _ 10]; simp; fail)+

lemma and_shifted_mask: "(x :: nat) AND push_bit k (mask n) = push_bit k (take_bit n (drop_bit k x))"
  by (rule bit_eqI) (auto simp: bit_simps)

lemma and_c0: "(x :: nat) < 256 \<Longrightarrow> x AND 0xc0 = x div 64 * 64"
  using and_shifted_mask [of x 6 2]
  by (simp add: mask_eq_exp_minus_1 push_bit_eq_mult drop_bit_eq_div take_bit_eq_mod)

lemma base_4:
  assumes "y < 4" and "z < (4 :: nat)"
  shows "x * 4 + y = w * 4 + z \<longleftrightarrow> x = w \<and> y = z"
proof
  assume e: "x * 4 + y = w * 4 + z"
  then have "(x * 4 + y) div 4 = (w * 4 + z) div 4" by simp
  with assms have "x = w" by simp
  with e show "x = w \<and> y = z" by simp
qed simp

lemma xor_zero: "(x :: nat) XOR y = 0 \<longleftrightarrow> x = y"
  by (metis (no_types) xor.left_neutral xor.assoc xor_self_eq xor.right_neutral)

text \<open>The error bits of \<open>utf8_decode\<close>: the six low ones are those of the tail bytes.\<close>

lemma error_bits:
  assumes "s1 < 256" and "s2 < 256" and "s3 < (256 :: nat)" and "k \<in> {0, 2, 4, 6}"
  shows "drop_bit k ((push_bit 6 (of_bool P) OR push_bit 7 (of_bool Q) OR push_bit 8 (of_bool R) OR
      drop_bit 2 (s1 AND 0xc0) OR drop_bit 4 (s2 AND 0xc0) OR drop_bit 6 s3) XOR 0x2a) = 0 \<longleftrightarrow>
    \<not> P \<and> \<not> Q \<and> \<not> R \<and> (k \<le> 4 \<longrightarrow> s1 div 64 = 2) \<and> (k \<le> 2 \<longrightarrow> s2 div 64 = 2) \<and> (k = 0 \<longrightarrow> s3 div 64 = 2)"
    (is "drop_bit k (?e XOR _) = 0 \<longleftrightarrow> _")
proof -
  define a b c h where "a = s1 div 64" and "b = s2 div 64" and "c = s3 div 64"
    and "h = of_bool P OR push_bit 1 (of_bool Q) OR (push_bit 2 (of_bool R) :: nat)"
  have l: "a < 4" "b < 4" "c < 4" using assms by (simp_all add: a_def b_def c_def)
  have "push_bit 6 h = push_bit 6 (of_bool P) OR push_bit 7 (of_bool Q) OR push_bit 8 (of_bool R)"
    by (simp add: h_def push_bit_or push_bit_push_bit)
  moreover have "drop_bit 2 (s1 AND 0xc0) = push_bit 4 a" "drop_bit 4 (s2 AND 0xc0) = push_bit 2 b" "drop_bit 6 s3 = c"
    by (simp_all add: and_c0 [OF assms(1)] and_c0 [OF assms(2)] a_def b_def c_def drop_bit_eq_div push_bit_eq_mult)
  moreover have "push_bit 6 h OR push_bit 4 a OR push_bit 2 b OR c = h * 64 + (a * 16 + (b * 4 + c))"
    using or_add [of c 2 b] or_add [of "b * 4 + c" 4 a] or_add [of "a * 16 + (b * 4 + c)" 6 h] l by simp
  ultimately have e: "?e = h * 64 + (a * 16 + (b * 4 + c))" by (simp only: or.assoc)
  have h0: "h = 0 \<longleftrightarrow> \<not> P \<and> \<not> Q \<and> \<not> R" by (auto simp: h_def)
  have "(h * 64 + (a * 16 + (b * 4 + c))) div 2 ^ k = 42 div 2 ^ k \<longleftrightarrow>
      h = 0 \<and> (k \<le> 4 \<longrightarrow> a = 2) \<and> (k \<le> 2 \<longrightarrow> b = 2) \<and> (k = 0 \<longrightarrow> c = 2)"
  proof (cases "h = 0")
    case True
    define n where "n = a * 16 + (b * 4 + c)"
    have n: "n = (a * 4 + b) * 4 + c" "n div 16 = a" "n div 4 = a * 4 + b" using l by (simp_all add: n_def)
    have f: "n = 42 \<longleftrightarrow> a = 2 \<and> b = 2 \<and> c = 2" "n div 4 = 10 \<longleftrightarrow> a = 2 \<and> b = 2" "n div 64 = 0"
      using base_4 [of c 2 "a * 4 + b" 10] base_4 [of b 2 a 2] l n by simp_all
    have "n div 2 ^ k = 42 div 2 ^ k \<longleftrightarrow> (k \<le> 4 \<longrightarrow> a = 2) \<and> (k \<le> 2 \<longrightarrow> b = 2) \<and> (k = 0 \<longrightarrow> c = 2)"
    proof -
      from assms(4) consider "k = 0" | "k = 2" | "k = 4" | "k = 6" by blast
      then show ?thesis by cases (simp_all add: f n(2))
    qed
    with True show ?thesis by (simp add: n_def)
  next
    case False
    then have "64 \<le> h * 64 + (a * 16 + (b * 4 + c))" by simp
    then have "64 div 2 ^ k \<le> (h * 64 + (a * 16 + (b * 4 + c))) div 2 ^ k" by (rule div_le_mono)
    moreover have "(42 :: nat) div 2 ^ k < 64 div 2 ^ k" using assms(4) by auto
    ultimately show ?thesis using False by simp
  qed
  moreover have "drop_bit k (?e XOR 0x2a) = 0 \<longleftrightarrow> (h * 64 + (a * 16 + (b * 4 + c))) div 2 ^ k = 42 div 2 ^ k"
    unfolding e by (simp only: drop_bit_xor xor_zero flip: drop_bit_eq_div)
  ultimately show ?thesis unfolding h0 a_def b_def c_def by blast
qed

lemma utf8_length_nth:
  "k < 16 \<Longrightarrow> utf8_lengths ! k = 1"
  "16 \<le> k \<Longrightarrow> k < 24 \<Longrightarrow> utf8_lengths ! k = 0"
  "24 \<le> k \<Longrightarrow> k < 28 \<Longrightarrow> utf8_lengths ! k = 2"
  "28 \<le> k \<Longrightarrow> k < 30 \<Longrightarrow> utf8_lengths ! k = 3"
  "utf8_lengths ! 30 = 4" "utf8_lengths ! 31 = 0"
proof -
  have l: "list_all (\<lambda>k. utf8_lengths ! k = (if k < 16 then 1 else if k < 24 then 0 else if k < 28 then 2
      else if k < 30 then 3 else if k = 30 then 4 else 0)) [0..<32]" by code_simp
  have "k < 32 \<Longrightarrow> utf8_lengths ! k = (if k < 16 then 1 else if k < 24 then 0 else if k < 28 then 2
      else if k < 30 then 3 else if k = 30 then 4 else 0)" for k using l unfolding list_all_iff by simp
  then show "k < 16 \<Longrightarrow> utf8_lengths ! k = 1" "16 \<le> k \<Longrightarrow> k < 24 \<Longrightarrow> utf8_lengths ! k = 0"
    "24 \<le> k \<Longrightarrow> k < 28 \<Longrightarrow> utf8_lengths ! k = 2" "28 \<le> k \<Longrightarrow> k < 30 \<Longrightarrow> utf8_lengths ! k = 3"
    "utf8_lengths ! 30 = 4" "utf8_lengths ! 31 = 0" by simp_all
qed

text \<open>The value of the four bytes.\<close>

lemma joined_bits:
  assumes "x1 < 64" and "x2 < 64" and "x3 < (64 :: nat)"
  shows "push_bit 18 x0 OR push_bit 12 x1 OR push_bit 6 x2 OR x3 = ((x0 * 64 + x1) * 64 + x2) * 64 + x3"
proof -
  have "push_bit 6 x2 OR x3 = x2 * 64 + x3" using or_add [of x3 6 x2] assms by simp
  moreover have "push_bit 12 x1 OR (x2 * 64 + x3) = x1 * 4096 + (x2 * 64 + x3)"
    using or_add [of "x2 * 64 + x3" 12 x1] assms by simp
  moreover have "push_bit 18 x0 OR (x1 * 4096 + (x2 * 64 + x3)) = x0 * 262144 + (x1 * 4096 + (x2 * 64 + x3))"
    using or_add [of "x1 * 4096 + (x2 * 64 + x3)" 18 x0] assms by simp
  ultimately show ?thesis by (simp add: or.assoc)
qed

lemma utf8_value_eq:
  "utf8_value 0 s0 s1 s2 s3 = ((s1 mod 64) * 64 + s2 mod 64) * 64 + s3 mod 64"
  "utf8_value 1 s0 s1 s2 s3 = s0 mod 128"
  "utf8_value 2 s0 s1 s2 s3 = s0 mod 32 * 64 + s1 mod 64"
  "utf8_value 3 s0 s1 s2 s3 = (s0 mod 16 * 64 + s1 mod 64) * 64 + s2 mod 64"
  "utf8_value 4 s0 s1 s2 s3 = ((s0 mod 8 * 64 + s1 mod 64) * 64 + s2 mod 64) * 64 + s3 mod 64"
  unfolding utf8_value_def Let_def and_low
  by (subst joined_bits; simp add: and_low drop_bit_eq_div)+

lemma utf8_errors_eq:
  assumes "s1 < 256" and "s2 < 256" and "s3 < 256"
  shows "c < 4194304 \<Longrightarrow> utf8_errors 0 c s1 s2 s3 \<noteq> 0"
    "c < 128 \<Longrightarrow> utf8_errors 1 c s1 s2 s3 = 0"
    "c < 2048 \<Longrightarrow> utf8_errors 2 c s1 s2 s3 = 0 \<longleftrightarrow> 128 \<le> c \<and> s1 div 64 = 2"
    "c < 65536 \<Longrightarrow> utf8_errors 3 c s1 s2 s3 = 0 \<longleftrightarrow> 2048 \<le> c \<and> c div 2048 \<noteq> 27 \<and> s1 div 64 = 2 \<and> s2 div 64 = 2"
    "utf8_errors 4 c s1 s2 s3 = 0 \<longleftrightarrow>
      65536 \<le> c \<and> c \<le> 0x10FFFF \<and> s1 div 64 = 2 \<and> s2 div 64 = 2 \<and> s3 div 64 = 2"
proof -
  have e: "utf8_errors len c s1 s2 s3 = 0 \<longleftrightarrow> [4194304, 0, 128, 2048, 65536] ! len \<le> c \<and> c div 2048 \<noteq> 27 \<and> c \<le> 0x10FFFF \<and>
      (k \<le> 4 \<longrightarrow> s1 div 64 = 2) \<and> (k \<le> 2 \<longrightarrow> s2 div 64 = 2) \<and> (k = 0 \<longrightarrow> s3 div 64 = 2)"
    if "k = ([0, 6, 4, 2, 0] :: nat list) ! len" "k \<in> {0, 2, 4, 6}" for len k c
    unfolding utf8_errors_def Let_def that(1) [symmetric] error_bits [OF assms that(2)]
    by (simp add: drop_bit_eq_div not_less)
  show "c < 4194304 \<Longrightarrow> utf8_errors 0 c s1 s2 s3 \<noteq> 0" by (subst e [of 0]) simp_all
  show "c < 128 \<Longrightarrow> utf8_errors 1 c s1 s2 s3 = 0" by (subst e [of 6]) simp_all
  show "c < 2048 \<Longrightarrow> utf8_errors 2 c s1 s2 s3 = 0 \<longleftrightarrow> 128 \<le> c \<and> s1 div 64 = 2" by (subst e [of 4]) auto
  show "c < 65536 \<Longrightarrow> utf8_errors 3 c s1 s2 s3 = 0 \<longleftrightarrow> 2048 \<le> c \<and> c div 2048 \<noteq> 27 \<and> s1 div 64 = 2 \<and> s2 div 64 = 2"
    by (subst e [of 2]) auto
  have "c div 2048 \<noteq> 27" if "65536 \<le> c"
    using div_le_mono [OF that, of 2048] by simp
  then show "utf8_errors 4 c s1 s2 s3 = 0 \<longleftrightarrow>
      65536 \<le> c \<and> c \<le> 0x10FFFF \<and> s1 div 64 = 2 \<and> s2 div 64 = 2 \<and> s3 div 64 = 2"
    by (subst e [of 0]) auto
qed

section \<open>The encoder in arithmetic\<close>

lemma or_lead: "x < 32 \<Longrightarrow> 0xc0 OR x = 192 + (x :: nat)" "x < 16 \<Longrightarrow> 0xe0 OR x = 224 + (x :: nat)"
  "x < 8 \<Longrightarrow> 0xf0 OR x = 240 + (x :: nat)" "x < 64 \<Longrightarrow> 0x80 OR x = 128 + (x :: nat)"
  using or_add [of x 5 6] or_add [of x 4 14] or_add [of x 3 30] or_add [of x 6 2] by (simp_all add: push_bit_eq_mult)

lemma utf8_of_cp_eq:
  "utf8_of_cp c =
     (if c < 128 then Some [char_of c]
      else if c < 2048 then Some [char_of (192 + c div 64), char_of (128 + c mod 64)]
      else if c < 65536 then (if c div 2048 = 27 then None
        else Some [char_of (224 + c div 4096), char_of (128 + c div 64 mod 64), char_of (128 + c mod 64)])
      else if c < 1114112 then
        Some [char_of (240 + c div 262144), char_of (128 + c div 4096 mod 64), char_of (128 + c div 64 mod 64), char_of (128 + c mod 64)]
      else None)"
proof -
  have d: "c mod 4096 div 64 = c div 64 mod 64" "c mod 262144 div 4096 = c div 4096 mod 64"
    using drop_bit_take_bit [of 6 12 c] drop_bit_take_bit [of 12 18 c] by (simp_all add: drop_bit_eq_div take_bit_eq_mod)
  have b: "c < 2048 \<Longrightarrow> c div 64 < 32" "c < 65536 \<Longrightarrow> c div 4096 < 16" "c < 1114112 \<Longrightarrow> c div 262144 < 8"
    by (simp_all add: div_less_iff_less_mult)
  have "c div 2048 = 27 \<longleftrightarrow> 27 \<le> c div 2048 \<and> c div 2048 < 28" by auto
  then have t: "c div 2048 = 27 \<longleftrightarrow> \<not> c \<le> 0xd7ff \<and> c < 0xe000"
    by (simp add: less_eq_div_iff_mult_less_eq div_less_iff_less_mult) auto
  show ?thesis unfolding utf8_of_cp_def and_low drop_bit_eq_div
    using b by (simp add: d t or_lead)
qed

lemma utf8_of_cp_by_size:
  "c < 128 \<Longrightarrow> utf8_of_cp c = Some [char_of c]"
  "128 \<le> c \<Longrightarrow> c < 2048 \<Longrightarrow> utf8_of_cp c = Some [char_of (192 + c div 64), char_of (128 + c mod 64)]"
  "2048 \<le> c \<Longrightarrow> c < 65536 \<Longrightarrow> c div 2048 \<noteq> 27 \<Longrightarrow>
    utf8_of_cp c = Some [char_of (224 + c div 4096), char_of (128 + c div 64 mod 64), char_of (128 + c mod 64)]"
  "65536 \<le> c \<Longrightarrow> c < 1114112 \<Longrightarrow> utf8_of_cp c =
    Some [char_of (240 + c div 262144), char_of (128 + c div 4096 mod 64), char_of (128 + c div 64 mod 64), char_of (128 + c mod 64)]"
  unfolding utf8_of_cp_eq by simp_all

section \<open>Slices\<close>

text \<open>The code point at the start of four chars and the number of its bytes, invalid and 1 if there is none.\<close>

definition slice4 :: "char \<Rightarrow> char \<Rightarrow> char \<Rightarrow> char \<Rightarrow> nat \<times> nat" where
  "slice4 a b c d =
     (let s0 = of_char a; s1 = of_char b; s2 = of_char c; s3 = of_char d; len = utf8_lengths ! drop_bit 3 s0;
          v = utf8_value len s0 s1 s2 s3
      in if utf8_errors len v s1 s2 s3 \<noteq> 0 then (invalid_code_point, 1) else (v, len + of_bool (len = 0)))"

lemma cp_decode_slice4:
  "i + 3 < length s \<Longrightarrow> cp_decode f s i q a =
    (let (cp, n) = slice4 (s ! i) (s ! (i + 1)) (s ! (i + 2)) (s ! (i + 3)); (a', r) = f cp q n a
     in Some (a', if r then Some (i + n) else None))"
  by (auto simp: cp_decode_def utf8_decode_def slice4_def Let_def split: prod.split)

lemma lead_div:
  fixes s0 :: nat
  assumes "s0 < 256"
  obtains "s0 < 128" "utf8_lengths ! drop_bit 3 s0 = 1" | "128 \<le> s0" "s0 < 192" "utf8_lengths ! drop_bit 3 s0 = 0"
    | "192 \<le> s0" "s0 < 224" "utf8_lengths ! drop_bit 3 s0 = 2" | "224 \<le> s0" "s0 < 240" "utf8_lengths ! drop_bit 3 s0 = 3"
    | "240 \<le> s0" "s0 < 248" "utf8_lengths ! drop_bit 3 s0 = 4" | "248 \<le> s0" "utf8_lengths ! drop_bit 3 s0 = 0"
proof -
  have "s0 div 8 < 32" using assms by simp
  consider "s0 < 128" | "128 \<le> s0" "s0 < 192" | "192 \<le> s0" "s0 < 224" | "224 \<le> s0" "s0 < 240" | "240 \<le> s0" "s0 < 248" | "248 \<le> s0"
    by linarith
  then show ?thesis
  proof cases
    case 5
    then have "s0 div 8 = 30" by simp
    with 5 that(5) show ?thesis by (simp add: drop_bit_eq_div utf8_length_nth)
  next
    case 6
    with assms have "s0 div 8 = 31" by simp
    with 6 that(6) show ?thesis by (simp add: drop_bit_eq_div utf8_length_nth)
  qed (rule that; simp add: drop_bit_eq_div utf8_length_nth; fail)+
qed

lemma lead_mod:
  "192 \<le> s \<Longrightarrow> s < 224 \<Longrightarrow> 192 + s mod 32 = (s :: nat)" "224 \<le> s \<Longrightarrow> s < 240 \<Longrightarrow> 224 + s mod 16 = s"
  "240 \<le> s \<Longrightarrow> s < 248 \<Longrightarrow> 240 + s mod 8 = s" "s div 64 = 2 \<Longrightarrow> 128 + s mod 64 = s"
proof -
  have "s div 32 = 6" if "192 \<le> s" "s < 224" using that by simp
  then show "192 \<le> s \<Longrightarrow> s < 224 \<Longrightarrow> 192 + s mod 32 = s" using mult_div_mod_eq [of 32 s] by simp
  have "s div 16 = 14" if "224 \<le> s" "s < 240" using that by simp
  then show "224 \<le> s \<Longrightarrow> s < 240 \<Longrightarrow> 224 + s mod 16 = s" using mult_div_mod_eq [of 16 s] by simp
  have "s div 8 = 30" if "240 \<le> s" "s < 248" using that by simp
  then show "240 \<le> s \<Longrightarrow> s < 248 \<Longrightarrow> 240 + s mod 8 = s" using mult_div_mod_eq [of 8 s] by simp
  show "s div 64 = 2 \<Longrightarrow> 128 + s mod 64 = s" using mult_div_mod_eq [of 64 s] by simp
qed

lemma join_div: "x3 < 64 \<Longrightarrow> (y * 64 + x3) div 64 = (y :: nat)" "x3 < 64 \<Longrightarrow> (y * 64 + x3) mod 64 = (x3 :: nat)"
  by simp_all

lemma div_64: "(v :: nat) div 4096 = v div 64 div 64" "(v :: nat) div 262144 = v div 64 div 64 div 64"
  by (simp_all flip: div_mult2_eq)

lemma slice4_sound:
  assumes "slice4 a b c d = (cp, n)"
  shows "cp = invalid_code_point \<and> n = 1 \<or> utf8_of_cp cp = Some (take n [a, b, c, d]) \<and> 1 \<le> n \<and> n \<le> 4"
proof -
  define s0 s1 s2 s3 :: nat where "s0 = of_char a" and "s1 = of_char b" and "s2 = of_char c" and "s3 = of_char d"
  have bytes: "s0 < 256" "s1 < 256" "s2 < 256" "s3 < 256" by (simp_all add: s0_def s1_def s2_def s3_def)
  have ch: "char_of s0 = a" "char_of s1 = b" "char_of s2 = c" "char_of s3 = d" by (simp_all add: s0_def s1_def s2_def s3_def)
  note errs = utf8_errors_eq [OF bytes(2-4)]
  note sl = assms [unfolded slice4_def Let_def, folded s0_def s1_def s2_def s3_def]
  from bytes(1) show ?thesis
  proof (cases rule: lead_div)
    case 1
    then have "slice4 a b c d = (s0, 1)"
      using errs(2) [of s0] utf8_value_eq(2) [of s0 s1 s2 s3] sl assms by simp
    with assms have "cp = s0" "n = 1" by simp_all
    with 1 ch show ?thesis by (simp add: utf8_of_cp_eq)
  next
    case 2
    with sl errs(1) show ?thesis by (simp add: utf8_value_eq)
  next
    case 6
    with sl errs(1) show ?thesis by (simp add: utf8_value_eq)
  next
    case 3
    define v where "v = s0 mod 32 * 64 + s1 mod 64"
    have v: "v div 64 = s0 mod 32" "v mod 64 = s1 mod 64" "v < 2048" by (simp_all add: v_def)
    show ?thesis using sl 3 errs(3) [OF v(3)] ch v lead_mod(1) [OF 3(1,2)] lead_mod(4) [of s1]
      by (auto simp: utf8_value_eq utf8_of_cp_eq v_def [symmetric] div_64 join_div split: if_splits)
  next
    case 4
    define v where "v = (s0 mod 16 * 64 + s1 mod 64) * 64 + s2 mod 64"
    have v: "v div 64 = s0 mod 16 * 64 + s1 mod 64" "v mod 64 = s2 mod 64" "v < 65536"
      by (simp_all only: v_def join_div mod_less_divisor) simp
    show ?thesis
    proof (cases "utf8_errors 3 v s1 s2 s3 = 0")
      case True
      then have e: "2048 \<le> v" "v div 2048 \<noteq> 27" "s1 div 64 = 2" "s2 div 64 = 2" using errs(4) [OF v(3)] by simp_all
      have "cp = v" "n = 3" using sl 4 True by (simp_all add: utf8_value_eq v_def)
      moreover have "v div 4096 = s0 mod 16" "v div 64 mod 64 = s1 mod 64"
        by (simp_all only: div_64 v(1) join_div mod_less_divisor zero_less_numeral)
      ultimately show ?thesis
        using utf8_of_cp_by_size(3) [OF e(1) v(3) e(2)]
        by (simp add: ch v(2) lead_mod(2) [OF 4(1,2)] lead_mod(4) [OF e(3)] lead_mod(4) [OF e(4)])
    next
      case False
      with sl 4 show ?thesis by (simp add: utf8_value_eq v_def)
    qed
  next
    case 5
    define v where "v = ((s0 mod 8 * 64 + s1 mod 64) * 64 + s2 mod 64) * 64 + s3 mod 64"
    have v: "v div 64 = (s0 mod 8 * 64 + s1 mod 64) * 64 + s2 mod 64" "v mod 64 = s3 mod 64"
      by (simp_all only: v_def join_div mod_less_divisor)
    show ?thesis
    proof (cases "utf8_errors 4 v s1 s2 s3 = 0")
      case True
      then have e: "65536 \<le> v" "v \<le> 0x10FFFF" "s1 div 64 = 2" "s2 div 64 = 2" "s3 div 64 = 2" using errs(5) by simp_all
      have "cp = v" "n = 4" using sl 5 True by (simp_all add: utf8_value_eq v_def)
      moreover have "v div 262144 = s0 mod 8" "v div 4096 mod 64 = s1 mod 64" "v div 64 mod 64 = s2 mod 64"
        by (simp_all only: div_64 v(1) join_div mod_less_divisor zero_less_numeral)
      ultimately show ?thesis
        using utf8_of_cp_by_size(4) [OF e(1)] e(2)
        by (simp add: ch v(2) lead_mod(3) [OF 5(1,2)] lead_mod(4) [OF e(3)] lead_mod(4) [OF e(4)] lead_mod(4) [OF e(5)])
    next
      case False
      with sl 5 show ?thesis by (simp add: utf8_value_eq v_def)
    qed
  qed
qed

lemma of_char_of_add: "x < (64 :: nat) \<Longrightarrow> of_char (char_of (128 + x)) = 128 + x"
  "x < 32 \<Longrightarrow> of_char (char_of (192 + x)) = 192 + x" "x < 16 \<Longrightarrow> of_char (char_of (224 + x)) = 224 + x"
  "x < 8 \<Longrightarrow> of_char (char_of (240 + x)) = 240 + x"
  by simp_all

lemma utf8_length_lead:
  "s < 128 \<Longrightarrow> utf8_lengths ! drop_bit 3 s = 1" "192 \<le> s \<Longrightarrow> s < 224 \<Longrightarrow> utf8_lengths ! drop_bit 3 s = 2"
  "224 \<le> s \<Longrightarrow> s < 240 \<Longrightarrow> utf8_lengths ! drop_bit 3 s = 3" "240 \<le> s \<Longrightarrow> s < 248 \<Longrightarrow> utf8_lengths ! drop_bit 3 s = 4"
  using lead_div [of s] by auto

lemma lead_add_mod: "x < 64 \<Longrightarrow> (128 + x) mod 64 = (x :: nat)" "x < 32 \<Longrightarrow> (192 + x) mod 32 = (x :: nat)"
  "x < 16 \<Longrightarrow> (224 + x) mod 16 = (x :: nat)" "x < 8 \<Longrightarrow> (240 + x) mod 8 = (x :: nat)"
  using mod_mult_self3 [of 2 64 x] mod_mult_self3 [of 6 32 x] mod_mult_self3 [of 14 16 x] mod_mult_self3 [of 30 8 x]
  by simp_all

lemma tail_div: "x < 64 \<Longrightarrow> (128 + x) div 64 = (2 :: nat)"
  using div_mult_self3 [of 64 x 2] by simp

lemma slice4_complete:
  assumes "utf8_of_cp cp = Some bs" and "take (length bs) [a, b, c, d] = bs"
  shows "slice4 a b c d = (cp, length bs)"
proof -
  define s0 s1 s2 s3 :: nat where "s0 = of_char a" and "s1 = of_char b" and "s2 = of_char c" and "s3 = of_char d"
  have bytes: "s0 < 256" "s1 < 256" "s2 < 256" "s3 < 256" by (simp_all add: s0_def s1_def s2_def s3_def)
  note errs = utf8_errors_eq [OF bytes(2-4)]
  have sl: "slice4 a b c d = (cp, length bs)"
    if "utf8_lengths ! drop_bit 3 s0 = length bs" "bs \<noteq> []" "utf8_value (length bs) s0 s1 s2 s3 = cp" "utf8_errors (length bs) cp s1 s2 s3 = 0"
    using that by (simp add: slice4_def Let_def flip: s0_def s1_def s2_def s3_def)
  consider "cp < 128" | "128 \<le> cp" "cp < 2048" | "2048 \<le> cp" "cp < 65536" "cp div 2048 \<noteq> 27" | "65536 \<le> cp" "cp < 1114112"
    using assms(1) by (auto simp: utf8_of_cp_eq split: if_splits)
  then show ?thesis
  proof cases
    case 1
    with assms have "bs = [char_of cp]" "s0 = cp" by (auto simp: utf8_of_cp_eq s0_def)
    with 1 show ?thesis using errs(2) [of cp] utf8_value_eq(2) [of s0 s1 s2 s3] utf8_length_lead(1) [of s0] by (intro sl) simp_all
  next
    case 2
    then have l: "cp div 64 < 32" by simp
    from 2 assms have bs: "bs = [char_of (192 + cp div 64), char_of (128 + cp mod 64)]" by (simp add: utf8_of_cp_eq)
    then have s: "s0 = 192 + cp div 64" "s1 = 128 + cp mod 64" using assms(2) l by (auto simp: s0_def s1_def of_char_of_add)
    have n: "length bs = 2" using bs by simp
    show ?thesis unfolding n
      by (rule sl [unfolded n]) (use 2 l bs s errs(3) [of cp] utf8_length_lead(2) [of s0] in \<open>simp_all add: utf8_value_eq lead_add_mod tail_div\<close>)
  next
    case 3
    then have l: "cp div 4096 < 16" by simp
    from 3 assms have bs: "bs = [char_of (224 + cp div 4096), char_of (128 + cp div 64 mod 64), char_of (128 + cp mod 64)]"
      by (simp add: utf8_of_cp_eq)
    then have s: "s0 = 224 + cp div 4096" "s1 = 128 + cp div 64 mod 64" "s2 = 128 + cp mod 64"
      using assms(2) l by (auto simp: s0_def s1_def s2_def of_char_of_add)
    have n: "length bs = 3" using bs by simp
    have "utf8_value 3 s0 s1 s2 s3 = cp" using l by (simp add: utf8_value_eq s lead_add_mod div_64)
    then show ?thesis unfolding n
      by (intro sl [unfolded n]) (use 3 l bs s errs(4) [of cp] utf8_length_lead(3) [of s0] in \<open>simp_all add: tail_div\<close>)
  next
    case 4
    then have l: "cp div 262144 < 8" by simp
    from 4 assms have bs: "bs = [char_of (240 + cp div 262144), char_of (128 + cp div 4096 mod 64),
        char_of (128 + cp div 64 mod 64), char_of (128 + cp mod 64)]" by (simp add: utf8_of_cp_eq)
    then have s: "s0 = 240 + cp div 262144" "s1 = 128 + cp div 4096 mod 64" "s2 = 128 + cp div 64 mod 64" "s3 = 128 + cp mod 64"
      using assms(2) l by (auto simp: s0_def s1_def s2_def s3_def of_char_of_add)
    have n: "length bs = 4" using bs by simp
    have "utf8_value 4 s0 s1 s2 s3 = cp" using l by (simp add: utf8_value_eq s lead_add_mod div_64)
    moreover have "utf8_lengths ! drop_bit 3 s0 = 4" using l s(1) by (intro utf8_length_lead) simp_all
    moreover have "utf8_errors 4 cp s1 s2 s3 = 0" unfolding errs(5) unfolding s(2-4) using 4 by (simp add: tail_div)
    moreover have "bs \<noteq> []" by (simp add: bs)
    ultimately show ?thesis unfolding n by (intro sl [unfolded n])
  qed
qed

section \<open>The code points of a string\<close>

text \<open>What the iteration is measured against: the slices of a string, one after the other.\<close>

definition four :: "string \<Rightarrow> string" where
  "four s = take 4 (s @ replicate 4 (CHR 0x00))"

definition head_slice :: "string \<Rightarrow> nat \<times> nat" where
  "head_slice s = slice4 (four s ! 0) (four s ! 1) (four s ! 2) (four s ! 3)"

lemma four_list: "[four s ! 0, four s ! 1, four s ! 2, four s ! 3] = four s"
  by (intro nth_equalityI) (auto simp: four_def less_Suc_eq numeral_eq_Suc)

lemma utf8_of_cp_tail: "utf8_of_cp cp = Some bs \<Longrightarrow> 0 < i \<Longrightarrow> i < length bs \<Longrightarrow> bs ! i \<noteq> CHR 0x00"
proof -
  assume a: "utf8_of_cp cp = Some bs" "0 < i" "i < length bs"
  have c: "char_of (128 + x mod 64) \<noteq> CHR 0x00" for x :: nat
  proof
    assume "char_of (128 + x mod 64) = CHR 0x00"
    then have "of_char (char_of (128 + x mod 64)) = (of_char (CHR 0x00) :: nat)" by simp
    then show False by (simp add: of_char_of_add)
  qed
  from a show ?thesis by (auto simp: utf8_of_cp_eq nth_Cons' c split: if_splits)
qed

lemma head_slice_sound:
  assumes "head_slice s = (cp, n)" and "s \<noteq> []"
  shows "1 \<le> n \<and> n \<le> length s \<and> n \<le> 4 \<and> (cp = invalid_code_point \<and> n = 1 \<or> utf8_of_cp cp = Some (take n s))"
proof -
  have s: "cp = invalid_code_point \<and> n = 1 \<or> utf8_of_cp cp = Some (take n (four s)) \<and> 1 \<le> n \<and> n \<le> 4"
    using slice4_sound [of "four s ! 0" "four s ! 1" "four s ! 2" "four s ! 3" cp n] assms(1)
    unfolding head_slice_def four_list by simp
  show ?thesis
  proof (cases "cp = invalid_code_point \<and> n = 1")
    case True
    with assms(2) show ?thesis by (simp add: Suc_leI)
  next
    case False
    with s have u: "utf8_of_cp cp = Some (take n (four s))" "1 \<le> n" "n \<le> 4" by auto
    have "n \<le> length s"
    proof (rule ccontr)
      assume n: "\<not> n \<le> length s"
      have "take n (four s) ! length s \<noteq> CHR 0x00"
        using u n assms(2) by (intro utf8_of_cp_tail [OF u(1)]) (simp_all add: four_def)
      with n u(3) show False by (simp add: four_def nth_append)
    qed
    then have "take n (four s) = take n s" using u(3) by (simp add: four_def min_def)
    with u \<open>n \<le> length s\<close> show ?thesis by simp
  qed
qed

lemma head_slice_complete:
  assumes "utf8_of_cp cp = Some bs"
  shows "head_slice (bs @ s) = (cp, length bs)"
proof -
  have "length bs \<le> 4" using assms by (auto simp: utf8_of_cp_eq split: if_splits)
  then have "take (length bs) (four (bs @ s)) = bs" by (simp add: four_def)
  then show ?thesis unfolding head_slice_def by (intro slice4_complete assms) (simp only: four_list)
qed

function slices :: "nat \<Rightarrow> string \<Rightarrow> (nat \<times> nat \<times> nat) list" where
  "slices p s = (if s = [] then [] else (let (cp, n) = head_slice s in (cp, p, n) # slices (p + n) (drop n s)))"
  by pat_completeness auto
termination
proof (relation "measure (length \<circ> snd)", goal_cases)
  case (2 p s x cp n)
  then have "1 \<le> n" using head_slice_sound [of s cp n] by simp
  with 2 show ?case by (cases s) simp_all
qed simp

declare slices.simps [simp del]

fun fold_slices :: "'a cp_fun \<Rightarrow> (nat \<times> nat \<times> nat) list \<Rightarrow> 'a \<Rightarrow> 'a" where
  "fold_slices f [] a = a"
| "fold_slices f ((cp, p, n) # xs) a = (let (a', r) = f cp p n a in if r then fold_slices f xs a' else a')"

lemma cp_decode_head:
  assumes "i + 3 < length s"
  shows "cp_decode f s i q a =
    (let (cp, n) = head_slice (drop i s); (a', r) = f cp q n a in Some (a', if r then Some (i + n) else None))"
proof -
  have "four (drop i s) ! k = s ! (i + k)" if "k < 4" for k using that assms by (simp add: four_def nth_append)
  then show ?thesis using assms by (simp add: cp_decode_slice4 head_slice_def)
qed

lemma slices_step:
  "s \<noteq> [] \<Longrightarrow> head_slice s = (cp, n) \<Longrightarrow> slices p s = (cp, p, n) # slices (p + n) (drop n s)"
  by (subst slices.simps) simp

lemma cp_blocks_fold:
  "4 \<le> length s \<Longrightarrow> p \<le> length s \<Longrightarrow> \<exists>a' r. cp_blocks f s p a = Some (a', r) \<and>
    (case r of None \<Rightarrow> fold_slices f (slices p (drop p s)) a = a'
     | Some p' \<Rightarrow> p' \<le> length s \<and> length s - p' < 4 \<and>
         fold_slices f (slices p (drop p s)) a = fold_slices f (slices p' (drop p' s)) a')"
proof (induction f s p a rule: cp_blocks.induct)
  case (1 f s p a)
  show ?case
  proof (cases "p < length s - 4 + 1")
    case False
    with 1 show ?thesis by (subst cp_blocks.simps) simp
  next
    case True
    then have i: "p + 3 < length s" using 1 by simp
    obtain cp n where h: "head_slice (drop p s) = (cp, n)" by fastforce
    have n: "1 \<le> n" "n \<le> length s - p" using head_slice_sound [OF h] i by simp_all
    have sl: "slices p (drop p s) = (cp, p, n) # slices (p + n) (drop (p + n) s)"
      using slices_step [of "drop p s" cp n p] h i by (simp add: add.commute)
    obtain a1 r where f: "f cp p n a = (a1, r)" by fastforce
    have d: "cp_decode f s p p a = Some (a1, if r then Some (p + n) else None)"
      using cp_decode_head [OF i, of f p a] h f by simp
    show ?thesis
    proof (cases r)
      case False
      with d f sl True show ?thesis by (subst cp_blocks.simps) simp
    next
      case r: True
      have "p + n \<le> length s" using n i by simp
      have d': "cp_decode f s p p a = Some (a1, Some (p + n))" using d r by simp
      have "cp_blocks f s p a = cp_blocks f s (p + n) a1" using True d' by (subst cp_blocks.simps) simp
      moreover have "fold_slices f (slices p (drop p s)) a = fold_slices f (slices (p + n) (drop (p + n) s)) a1"
        by (simp add: sl f r)
      ultimately show ?thesis using "1.IH" [OF True d' refl refl "1.prems"(1) \<open>p + n \<le> length s\<close>] by (simp only:)
    qed
  qed
qed

lemma cp_rest_fold:
  fixes t :: string
  assumes "length t < 4"
  shows "b < length t \<Longrightarrow>
    cp_rest f (t @ replicate (7 - length t) (CHR 0x00)) (length t) b p a = Some (fold_slices f (slices p (drop b t)) a)"
proof (induction "length t - b" arbitrary: b p a rule: less_induct)
  case less
  let ?buf = "t @ replicate (7 - length t) (CHR 0x00)"
  have i: "b + 3 < length ?buf" using less.prems assms by simp
  have "four (drop b ?buf) = four (drop b t)" using assms less.prems by (simp add: four_def)
  then have hd: "head_slice (drop b ?buf) = head_slice (drop b t)" by (simp add: head_slice_def)
  obtain cp n where h: "head_slice (drop b t) = (cp, n)" by fastforce
  have n: "1 \<le> n" "b + n \<le> length t" using head_slice_sound [OF h] less.prems by auto
  have sl: "slices p (drop b t) = (cp, p, n) # slices (p + n) (drop (b + n) t)"
    using slices_step [of "drop b t" cp n p] h less.prems by (simp add: add.commute)
  obtain a1 r where f: "f cp p n a = (a1, r)" by fastforce
  have d: "cp_decode f ?buf b p a = Some (a1, if r then Some (b + n) else None)"
    using cp_decode_head [OF i, of f p a] hd h f by simp
  show ?case
  proof (cases "r \<and> b + n < length t")
    case True
    then have "cp_rest f ?buf (length t) (b + n) (p + n) a1 = Some (fold_slices f (slices (p + n) (drop (b + n) t)) a1)"
      using n less.prems by (intro less.hyps) auto
    with d f sl True show ?thesis by (subst cp_rest.simps) simp
  next
    case False
    show ?thesis
    proof (cases r)
      case r: True
      with False n have "drop (b + n) t = []" by simp
      then have "slices (p + n) (drop (b + n) t) = []" by (simp add: slices.simps)
      with d f sl r False show ?thesis by (subst cp_rest.simps) simp
    next
      case False
      with d f sl show ?thesis by (subst cp_rest.simps) simp
    qed
  qed
qed

lemma and_3_small: "n < 4 \<Longrightarrow> n AND 3 = (n :: nat)"
  by (subst and_pow [of 3 2 4]) simp_all

lemma for_each_codepoint_eq: "for_each_codepoint f s a = Some (fold_slices f (slices 0 s) a)"
proof -
  have rest: "(case Some p of None \<Rightarrow> Some a' | Some p \<Rightarrow>
      (let num_chars_left = length s - p in if num_chars_left = 0 then Some a'
        else (let left = num_chars_left AND 3; buf = take left (drop p s) @ replicate (7 - left) (CHR 0x00)
              in cp_rest f buf left 0 p a'))) = Some (fold_slices f (slices p (drop p s)) a')"
    if "p \<le> length s" "length s - p < 4" for p a'
    using cp_rest_fold [of "drop p s" 0 f p a'] that by (simp add: Let_def and_3_small slices.simps)
  show ?thesis
  proof (cases "4 \<le> length s")
    case True
    from cp_blocks_fold [OF True, of 0 f a, unfolded drop0] obtain a' r where b: "cp_blocks f s 0 a = Some (a', r)"
      "case r of None \<Rightarrow> fold_slices f (slices 0 s) a = a'
       | Some p' \<Rightarrow> p' \<le> length s \<and> length s - p' < 4 \<and> fold_slices f (slices 0 s) a = fold_slices f (slices p' (drop p' s)) a'"
      by auto
    show ?thesis
    proof (cases r)
      case None
      with b True show ?thesis by (simp add: for_each_codepoint_def)
    next
      case (Some p')
      with b True rest [of p' a'] show ?thesis by (simp add: for_each_codepoint_def)
    qed
  next
    case False
    with rest [of 0 a] show ?thesis by (simp add: for_each_codepoint_def Let_def cong: if_cong)
  qed
qed

text \<open>The slices are the string, and each is a code point or one invalid byte.\<close>

definition slice_ok :: "string \<Rightarrow> nat \<times> nat \<times> nat \<Rightarrow> bool" where
  "slice_ok s = (\<lambda>(cp, p, n). 1 \<le> n \<and> n \<le> 4 \<and> p + n \<le> length s \<and>
     (cp = invalid_code_point \<and> n = 1 \<or> utf8_of_cp cp = Some (take n (drop p s))))"

lemma slices_ok:
  "p \<le> length s \<Longrightarrow> concat (map (\<lambda>(cp, p, n). take n (drop p s)) (slices p (drop p s))) = drop p s \<and>
    list_all (slice_ok s) (slices p (drop p s))"
proof (induction "length s - p" arbitrary: p rule: less_induct)
  case less
  show ?case
  proof (cases "p = length s")
    case True
    then show ?thesis by (simp add: slices.simps)
  next
    case False
    obtain cp n where h: "head_slice (drop p s) = (cp, n)" by fastforce
    have n: "1 \<le> n" "p + n \<le> length s" "n \<le> 4" "cp = invalid_code_point \<and> n = 1 \<or> utf8_of_cp cp = Some (take n (drop p s))"
      using head_slice_sound [OF h] False less.prems by auto
    have sl: "slices p (drop p s) = (cp, p, n) # slices (p + n) (drop (p + n) s)"
      using slices_step [of "drop p s" cp n p] h False less.prems by (simp add: add.commute)
    have "take n (drop p s) @ drop (p + n) s = drop p s" by (metis append_take_drop_id drop_drop add.commute)
    with less.hyps [of "p + n"] n sl show ?thesis by (simp add: slice_ok_def)
  qed
qed

lemma utf8_of_cp_size: "utf8_of_cp cp = Some bs \<Longrightarrow> bs \<noteq> [] \<and> cp < 1114112 \<and> cp div 2048 \<noteq> 27"
  by (auto simp: utf8_of_cp_eq split: if_splits)

lemma slices_encoded:
  "utf8_of_cp cp = Some bs \<Longrightarrow> slices p (bs @ s) = (cp, p, length bs) # slices (p + length bs) s"
  using slices_step [of "bs @ s" cp "length bs" p] head_slice_complete [of cp bs s] utf8_of_cp_size [of cp bs] by simp

text \<open>The code points of a string, each with its bytes.\<close>

function codepoints :: "string \<Rightarrow> (nat \<times> string) list" where
  "codepoints s = (if s = [] then [] else (let (cp, n) = head_slice s in (cp, take n s) # codepoints (drop n s)))"
  by pat_completeness auto
termination
proof (relation "measure length", goal_cases)
  case (2 s x cp n)
  then have "1 \<le> n" using head_slice_sound [of s cp n] by simp
  with 2 show ?case by (cases s) simp_all
qed simp

declare codepoints.simps [simp del]

lemma codepoints_Nil [simp]: "codepoints [] = []"
  by (simp add: codepoints.simps)

lemma codepoints_step: "s \<noteq> [] \<Longrightarrow> head_slice s = (cp, n) \<Longrightarrow> codepoints s = (cp, take n s) # codepoints (drop n s)"
  by (subst codepoints.simps) simp

lemma codepoints_slices: "map (\<lambda>(cp, p, n). (cp, take n (drop p s))) (slices p (drop p s)) = codepoints (drop p s)"
proof (induction "length s - p" arbitrary: p rule: less_induct)
  case less
  show ?case
  proof (cases "drop p s = []")
    case True
    then show ?thesis by (simp add: slices.simps)
  next
    case False
    obtain cp n where h: "head_slice (drop p s) = (cp, n)" by fastforce
    have n: "1 \<le> n" "n \<le> length s - p" using head_slice_sound [OF h False] by auto
    have "length s - (p + n) < length s - p" using n False by simp
    from less.hyps [OF this] n show ?thesis
      by (simp add: slices_step [OF False h] codepoints_step [OF False h] add.commute)
  qed
qed

lemma concat_codepoints: "concat (map snd (codepoints s)) = s"
proof (induction s rule: codepoints.induct)
  case (1 s)
  obtain cp n where h: "head_slice s = (cp, n)" by fastforce
  with 1 show ?case by (cases "s = []") (simp_all add: codepoints_step [OF _ h])
qed

section \<open>UTF-16\<close>

lemma surrogate_bits:
  assumes "c < (65536 :: nat)"
  shows "c AND 0xfc00 = 0xd800 \<longleftrightarrow> 0xd800 \<le> c \<and> c < 0xdc00" "c AND 0xfc00 = 0xdc00 \<longleftrightarrow> 0xdc00 \<le> c \<and> c < 0xe000"
proof -
  have e: "c AND 0xfc00 = c div 1024 * 1024" using assms and_shifted_mask [of c 10 6]
    by (simp add: mask_eq_exp_minus_1 push_bit_eq_mult drop_bit_eq_div take_bit_eq_mod)
  have "c div 1024 = 54 \<longleftrightarrow> 54 \<le> c div 1024 \<and> c div 1024 < 55" "c div 1024 = 55 \<longleftrightarrow> 55 \<le> c div 1024 \<and> c div 1024 < 56" by auto
  then show "c AND 0xfc00 = 0xd800 \<longleftrightarrow> 0xd800 \<le> c \<and> c < 0xdc00" "c AND 0xfc00 = 0xdc00 \<longleftrightarrow> 0xdc00 \<le> c \<and> c < 0xe000"
    unfolding e by (simp_all add: less_eq_div_iff_mult_less_eq div_less_iff_less_mult)
qed

lemma utf16_pair:
  assumes "0x10000 \<le> cp" and "cp < 0x110000"
  obtains c d where "utf16_units cp = [c, d]" "0xd800 \<le> c" "c < 0xdc00" "0xdc00 \<le> d" "d < 0xe000"
    "push_bit 10 c + d - 0x35fdc00 = cp"
proof
  define x where "x = cp - 0x10000"
  have x: "cp = x + 0x10000" "x < 0x100000" using assms by (simp_all add: x_def)
  have d: "x div 1024 < 1024" using x by simp
  show "utf16_units cp = [0xd800 + x div 1024, 0xdc00 + x mod 1024]"
    using assms by (simp add: utf16_units_def Let_def and_low drop_bit_eq_div x_def)
  show "0xd800 \<le> 0xd800 + x div 1024" "0xd800 + x div 1024 < 0xdc00" using d by simp_all
  show "0xdc00 \<le> 0xdc00 + x mod 1024" "0xdc00 + x mod 1024 < 0xe000" by simp_all
  have "push_bit 10 (0xd800 + x div 1024) + (0xdc00 + x mod 1024) = 0x3600000 + 0xdc00 + (x div 1024 * 1024 + x mod 1024)"
    by (simp add: push_bit_eq_mult)
  then show "push_bit 10 (0xd800 + x div 1024) + (0xdc00 + x mod 1024) - 0x35fdc00 = cp" by (simp add: x(1))
qed

lemma convert_utf16_units:
  assumes "utf8_of_cp cp = Some b"
  shows "convert 2 policy (utf16_units cp @ us) = map_option ((@) b) (convert 2 policy us)"
proof (cases "cp < 0x10000")
  case True
  have "\<not> (0xd800 \<le> cp \<and> cp \<le> 0xdfff)"
  proof
    assume a: "0xd800 \<le> cp \<and> cp \<le> 0xdfff"
    then have "27 \<le> cp div 2048 \<and> cp div 2048 < 28" by (simp add: less_eq_div_iff_mult_less_eq div_less_iff_less_mult)
    then show False using utf8_of_cp_size [OF assms] by simp
  qed
  then have "cp < 0xd800 \<or> 0xdfff < cp" by auto
  then have "convert 2 policy (cp # us) = do { b \<leftarrow> utf8_of_cp cp; t \<leftarrow> convert 2 policy us; Some (b @ t) }" by auto
  with True assms show ?thesis by (cases "convert 2 policy us") (simp_all add: utf16_units_def)
next
  case False
  then have "0x10000 \<le> cp" "cp < 0x110000" using utf8_of_cp_size [OF assms] by simp_all
  then obtain c d where u: "utf16_units cp = [c, d]" "0xd800 \<le> c" "c < 0xdc00" "0xdc00 \<le> d" "d < 0xe000"
    "push_bit 10 c + d - 0x35fdc00 = cp" by (rule utf16_pair)
  then have "c AND 0xfc00 = 0xd800" "d AND 0xfc00 = 0xdc00" by (simp_all add: surrogate_bits)
  with u assms show ?thesis by (cases "convert 2 policy us") simp_all
qed

lemma convert_units:
  assumes "convert 2 policy_abort us = Some s" and "list_all (\<lambda>u. u < 65536) us" and "us \<noteq> []"
  obtains cp b vs t where "us = utf16_units cp @ vs" "utf8_of_cp cp = Some b" "convert 2 policy_abort vs = Some t" "s = b @ t"
    "list_all (\<lambda>u. u < 65536) vs" "length vs < length us"
proof (cases us)
  case Nil
  with assms(3) show ?thesis by simp
next
  case (Cons c p)
  show ?thesis
  proof (cases "0xd800 \<le> c \<and> c \<le> 0xdfff")
    case False
    then have "convert 2 policy_abort us = do { b \<leftarrow> utf8_of_cp c; t \<leftarrow> convert 2 policy_abort p; Some (b @ t) }"
      using Cons by auto
    with assms(1) obtain b t where "utf8_of_cp c = Some b" "convert 2 policy_abort p = Some t" "s = b @ t"
      by (auto simp: bind_eq_Some_conv)
    with that [of c p b t] assms(2) Cons show ?thesis by (simp add: utf16_units_def)
  next
    case True
    with assms(1) Cons obtain d q where p: "p = d # q" "c AND 0xfc00 = 0xd800" "d AND 0xfc00 = 0xdc00"
      by (cases p) (auto split: if_splits)
    define cp where "cp = push_bit 10 c + d - 0x35fdc00"
    from True assms(1) Cons p obtain b t where bt: "utf8_of_cp cp = Some b" "convert 2 policy_abort q = Some t" "s = b @ t"
      by (auto simp: bind_eq_Some_conv cp_def)
    have l: "c < 65536" "d < 65536" using assms(2) Cons p by simp_all
    then have r: "0xd800 \<le> c" "c < 0xdc00" "0xdc00 \<le> d" "d < 0xe000" using p(2,3) surrogate_bits by auto
    define x y where "x = c - 0xd800" and "y = d - 0xdc00"
    have "c = x + 0xd800" "d = y + 0xdc00" "x < 1024" "y < 1024" using r by (simp_all add: x_def y_def)
    moreover from this have "cp = 0x10000 + (x * 1024 + y)" by (simp add: cp_def push_bit_eq_mult)
    ultimately have "utf16_units cp = [c, d]" by (simp add: utf16_units_def Let_def and_low drop_bit_eq_div)
    with that [of cp q b t] bt assms(2) Cons p show ?thesis by simp
  qed
qed

definition utf16_fold :: "string \<Rightarrow> nat list option" where
  "utf16_fold s = (if list_all (\<lambda>(cp, p, n). cp \<noteq> invalid_code_point) (slices 0 s)
     then Some (concat (map (utf16_units \<circ> fst) (slices 0 s))) else None)"

lemma slices_shift: "map fst (slices p s) = map fst (slices 0 s)"
proof (induction "length s" arbitrary: p s rule: less_induct)
  case less
  have *: "map fst (slices p s) = (if s = [] then [] else fst (head_slice s) # map fst (slices 0 (drop (snd (head_slice s)) s)))" for p
  proof (cases "s = []")
    case True
    then show ?thesis by (simp add: slices.simps)
  next
    case False
    obtain cp n where h: "head_slice s = (cp, n)" by fastforce
    have "length (drop n s) < length s" using head_slice_sound [OF h False] False by simp
    from less.hyps [OF this] False h show ?thesis by (simp add: slices_step [OF False h])
  qed
  show ?case by (simp only: *)
qed

lemma utf8_to_utf16_eq: "utf8_to_utf16 s = Some (utf16_fold s)"
proof -
  have "fold_slices (\<lambda>cp p n buffer. if cp = invalid_code_point then (None, False) else (map_option (\<lambda>b. b @ utf16_units cp) buffer, True))
      xs (Some us) = (if list_all (\<lambda>(cp, p, n). cp \<noteq> invalid_code_point) xs then Some (us @ concat (map (utf16_units \<circ> fst) xs)) else None)"
    for xs us
    by (induction xs arbitrary: us) auto
  from this [of "slices 0 s" "[]"] show ?thesis
    by (simp add: utf8_to_utf16_def utf16_fold_def for_each_codepoint_eq)
qed

lemma utf16_fold_Nil: "utf16_fold [] = Some []"
  by (simp add: utf16_fold_def slices.simps)

lemma utf16_fold_encoded: "utf8_of_cp cp = Some b \<Longrightarrow> utf16_fold (b @ s) = map_option ((@) (utf16_units cp)) (utf16_fold s)"
proof -
  assume b: "utf8_of_cp cp = Some b"
  have "list_all (\<lambda>(cp, p, n). cp \<noteq> invalid_code_point) xs = list_all (\<lambda>cp. cp \<noteq> invalid_code_point) (map fst xs)" for xs :: "(nat \<times> nat \<times> nat) list"
    by (induction xs) auto
  then have "utf16_fold s = (if list_all (\<lambda>cp. cp \<noteq> invalid_code_point) (map fst (slices 0 s))
     then Some (concat (map utf16_units (map fst (slices 0 s)))) else None)" for s by (simp add: utf16_fold_def)
  moreover have "map fst (slices 0 (b @ s)) = cp # map fst (slices 0 s)"
    using slices_encoded [OF b, of 0 s] slices_shift [of "length b" s] by simp
  moreover have "cp \<noteq> invalid_code_point" using utf8_of_cp_size [OF b] by (simp add: invalid_code_point_def)
  ultimately show ?thesis by simp
qed

lemma convert_decode: "convert 2 policy_abort us = Some s \<Longrightarrow> list_all (\<lambda>u. u < 65536) us \<Longrightarrow> utf16_fold s = Some us"
proof (induction "length us" arbitrary: us s rule: less_induct)
  case less
  show ?case
  proof (cases "us = []")
    case True
    with less.prems show ?thesis by (simp add: utf16_fold_Nil)
  next
    case False
    from less.prems False obtain cp b vs t where "us = utf16_units cp @ vs" "utf8_of_cp cp = Some b"
      "convert 2 policy_abort vs = Some t" "s = b @ t" "list_all (\<lambda>u. u < 65536) vs" "length vs < length us" by (rule convert_units)
    with less.hyps [of vs t] show ?thesis by (simp add: utf16_fold_encoded)
  qed
qed

lemma decode_convert: "utf16_fold s = Some us \<Longrightarrow> convert 2 policy_abort us = Some s"
proof (induction "length s" arbitrary: us s rule: less_induct)
  case less
  show ?case
  proof (cases "s = []")
    case True
    with less.prems show ?thesis by (simp add: utf16_fold_Nil)
  next
    case False
    obtain cp n where h: "head_slice s = (cp, n)" by fastforce
    have "cp \<noteq> invalid_code_point" using less.prems slices_step [OF False h, of 0] by (auto simp: utf16_fold_def split: if_splits)
    with head_slice_sound [OF h False] have b: "utf8_of_cp cp = Some (take n s)" "1 \<le> n" "n \<le> length s" by auto
    with less.prems utf16_fold_encoded [OF b(1), of "drop n s"] obtain vs where
      "us = utf16_units cp @ vs" "utf16_fold (drop n s) = Some vs" by (cases "utf16_fold (drop n s)") auto
    with less.hyps [of "drop n s" vs] b False convert_utf16_units [OF b(1)] show ?thesis by simp
  qed
qed

end
