(* ===== verification/Fmt_Escape.thy ===== *)
theory Fmt_Escape
  imports Fmt_Utf8_Facts Fmt_Int
begin

text \<open>
  Which code points are printable (\<open>fmt/bundled/format-inl.h\<close>) and the escaping of strings and chars by
  the debug presentation \<open>?\<close> (\<open>fmt/bundled/format.h\<close>).
\<close>

section \<open>The tables\<close>

definition singletons0 :: "(nat \<times> nat) list" where
  "singletons0 = [
    (0, 1), (3, 5), (5, 6), (6, 3), (7, 6), (8, 8), (9, 17), (10, 28), (11, 25), (12, 20), (13, 16),
    (14, 13), (15, 4), (16, 3), (18, 18), (19, 9), (22, 1), (23, 5), (24, 2), (25, 3), (26, 7), (28, 2),
    (29, 1), (31, 22), (32, 3), (43, 3), (44, 2), (45, 11), (46, 1), (48, 3), (49, 2), (50, 1),
    (167, 2), (169, 2), (170, 4), (171, 8), (250, 2), (251, 5), (253, 4), (254, 3), (255, 9)]"

definition singletons0_lower :: "nat list" where
  "singletons0_lower = [
    173, 120, 121, 139, 141, 162, 48, 87, 88, 139, 140, 144, 28, 29, 221, 14, 15, 75, 76, 251, 252, 46,
    47, 63, 92, 93, 95, 181, 226, 132, 141, 142, 145, 146, 169, 177, 186, 187, 197, 198, 201, 202, 222,
    228, 229, 255, 0, 4, 17, 18, 41, 49, 52, 55, 58, 59, 61, 73, 74, 93, 132, 142, 146, 169, 177, 180,
    186, 187, 198, 202, 206, 207, 228, 229, 0, 4, 13, 14, 17, 18, 41, 49, 52, 58, 59, 69, 70, 73, 74,
    94, 100, 101, 132, 145, 155, 157, 201, 206, 207, 13, 17, 41, 69, 73, 87, 100, 101, 141, 145, 169,
    180, 186, 187, 197, 201, 223, 228, 229, 240, 13, 17, 69, 73, 100, 101, 128, 132, 178, 188, 190, 191,
    213, 215, 240, 241, 131, 133, 139, 164, 166, 190, 191, 197, 199, 206, 207, 218, 219, 72, 152, 189,
    205, 198, 206, 207, 73, 78, 79, 87, 89, 94, 95, 137, 142, 143, 177, 182, 183, 191, 193, 198, 199,
    215, 17, 22, 23, 91, 92, 246, 247, 254, 255, 128, 13, 109, 113, 222, 223, 14, 15, 31, 110, 111, 28,
    29, 95, 125, 126, 174, 175, 187, 188, 250, 22, 23, 30, 31, 70, 71, 78, 79, 88, 90, 92, 94, 126, 127,
    181, 197, 212, 213, 220, 240, 241, 245, 114, 115, 143, 116, 117, 150, 47, 95, 38, 46, 47, 167, 175,
    183, 191, 199, 207, 215, 223, 154, 64, 151, 152, 48, 143, 31, 192, 193, 206, 255, 78, 79, 90, 91, 7,
    8, 15, 16, 39, 47, 238, 239, 110, 111, 55, 61, 63, 66, 69, 144, 145, 254, 255, 83, 103, 117, 200,
    201, 208, 209, 216, 217, 231, 254, 255]"

definition singletons1 :: "(nat \<times> nat) list" where
  "singletons1 = [
    (0, 6), (1, 1), (3, 1), (4, 2), (8, 8), (9, 2), (10, 5), (11, 2), (14, 4), (16, 1), (17, 2),
    (18, 5), (19, 17), (20, 1), (21, 2), (23, 2), (25, 13), (28, 5), (29, 8), (36, 1), (106, 3),
    (107, 2), (188, 2), (209, 2), (212, 12), (213, 9), (214, 2), (215, 2), (218, 1), (224, 5), (225, 2),
    (232, 2), (238, 32), (240, 4), (248, 2), (249, 2), (250, 2), (251, 1)]"

definition singletons1_lower :: "nat list" where
  "singletons1_lower = [
    12, 39, 59, 62, 78, 79, 143, 158, 158, 159, 6, 7, 9, 54, 61, 62, 86, 243, 208, 209, 4, 20, 24, 54,
    55, 86, 87, 127, 170, 174, 175, 189, 53, 224, 18, 135, 137, 142, 158, 4, 13, 14, 17, 18, 41, 49, 52,
    58, 69, 70, 73, 74, 78, 79, 100, 101, 92, 182, 183, 27, 28, 7, 8, 10, 11, 20, 23, 54, 57, 58, 168,
    169, 216, 217, 9, 55, 144, 145, 168, 7, 10, 59, 62, 102, 105, 143, 146, 111, 95, 238, 239, 90, 98,
    154, 155, 39, 40, 85, 157, 160, 161, 163, 164, 167, 168, 173, 186, 188, 196, 6, 11, 12, 21, 29, 58,
    63, 69, 81, 166, 167, 204, 205, 160, 7, 25, 26, 34, 37, 62, 63, 197, 198, 4, 32, 35, 37, 38, 40, 51,
    56, 58, 72, 74, 76, 80, 83, 85, 86, 88, 90, 92, 94, 96, 99, 101, 102, 107, 115, 120, 125, 127, 138,
    164, 170, 175, 176, 192, 208, 174, 175, 121, 204, 110, 111, 147]"

definition normal0 :: "nat list" where
  "normal0 = [
    0, 32, 95, 34, 130, 223, 4, 130, 68, 8, 27, 4, 6, 17, 129, 172, 14, 128, 171, 53, 40, 11, 128, 224,
    3, 25, 8, 1, 4, 47, 4, 52, 4, 7, 3, 1, 7, 6, 7, 17, 10, 80, 15, 18, 7, 85, 7, 3, 4, 28, 10, 9, 3, 8,
    3, 7, 3, 2, 3, 3, 3, 12, 4, 5, 3, 11, 6, 1, 14, 21, 5, 58, 3, 17, 7, 6, 5, 16, 7, 87, 7, 2, 7, 21,
    13, 80, 4, 67, 3, 45, 3, 1, 4, 17, 6, 15, 12, 58, 4, 29, 37, 95, 32, 109, 4, 106, 37, 128, 200, 5,
    130, 176, 3, 26, 6, 130, 253, 3, 89, 7, 21, 11, 23, 9, 20, 12, 20, 12, 106, 6, 10, 6, 26, 6, 89, 7,
    43, 5, 70, 10, 44, 4, 12, 4, 1, 3, 49, 11, 44, 4, 26, 6, 11, 3, 128, 172, 6, 10, 6, 33, 63, 76, 4,
    45, 3, 116, 8, 60, 3, 15, 3, 60, 7, 56, 8, 43, 5, 130, 255, 17, 24, 8, 47, 17, 45, 3, 32, 16, 33,
    15, 128, 140, 4, 130, 151, 25, 11, 21, 136, 148, 5, 47, 5, 59, 7, 2, 14, 24, 9, 128, 179, 45, 116,
    12, 128, 214, 26, 12, 5, 128, 255, 5, 128, 223, 12, 238, 13, 3, 132, 141, 3, 55, 9, 129, 92, 20,
    128, 184, 8, 128, 203, 42, 56, 3, 10, 6, 56, 8, 70, 8, 12, 6, 116, 11, 30, 3, 90, 4, 89, 9, 128,
    131, 24, 28, 10, 22, 9, 76, 4, 128, 138, 6, 171, 164, 12, 23, 4, 49, 161, 4, 129, 218, 38, 7, 12, 5,
    5, 128, 165, 17, 129, 109, 16, 120, 40, 42, 6, 76, 4, 128, 141, 4, 128, 190, 3, 27, 3, 15, 13]"

definition normal1 :: "nat list" where
  "normal1 = [
    94, 34, 123, 5, 3, 4, 45, 3, 102, 3, 1, 47, 46, 128, 130, 29, 3, 49, 15, 28, 4, 36, 9, 30, 5, 43, 5,
    68, 4, 14, 42, 128, 170, 6, 36, 4, 36, 4, 40, 8, 52, 11, 1, 128, 144, 129, 55, 9, 22, 10, 8, 128,
    152, 57, 3, 99, 8, 9, 48, 22, 5, 33, 3, 27, 5, 1, 64, 56, 4, 75, 5, 47, 4, 10, 7, 9, 7, 64, 32, 39,
    4, 12, 9, 54, 3, 58, 5, 26, 7, 4, 12, 7, 80, 73, 55, 51, 13, 51, 7, 46, 8, 10, 129, 38, 82, 78, 40,
    8, 42, 86, 28, 20, 23, 9, 78, 4, 30, 15, 67, 14, 25, 7, 10, 6, 72, 8, 39, 9, 117, 11, 63, 65, 42, 6,
    59, 5, 10, 6, 81, 6, 1, 5, 16, 3, 5, 128, 139, 98, 30, 72, 8, 10, 128, 166, 94, 34, 69, 11, 10, 6,
    13, 19, 57, 7, 10, 54, 44, 4, 16, 128, 192, 60, 100, 83, 12, 72, 9, 10, 70, 69, 27, 72, 8, 83, 29,
    57, 129, 7, 70, 10, 29, 3, 71, 73, 55, 3, 14, 8, 10, 6, 57, 7, 10, 129, 54, 25, 128, 183, 1, 15, 50,
    13, 131, 155, 102, 117, 11, 128, 196, 138, 188, 132, 47, 143, 209, 130, 71, 161, 185, 130, 57, 7,
    42, 4, 2, 96, 38, 10, 70, 10, 40, 5, 19, 130, 176, 91, 101, 75, 4, 57, 7, 17, 64, 5, 11, 2, 14, 151,
    248, 8, 132, 214, 42, 9, 162, 247, 129, 31, 49, 3, 17, 4, 8, 129, 140, 137, 4, 107, 5, 13, 3, 9, 7,
    16, 147, 96, 128, 246, 10, 115, 8, 110, 23, 70, 128, 154, 20, 12, 87, 9, 25, 128, 135, 129, 71, 3,
    133, 66, 15, 21, 133, 80, 43, 128, 213, 45, 3, 26, 4, 2, 129, 112, 58, 5, 1, 133, 0, 128, 215, 41,
    76, 4, 10, 4, 2, 131, 17, 68, 76, 61, 128, 194, 60, 6, 1, 4, 85, 5, 27, 52, 2, 129, 14, 44, 4, 100,
    12, 86, 10, 128, 174, 56, 29, 13, 44, 4, 9, 7, 2, 14, 6, 128, 154, 131, 216, 8, 13, 3, 13, 3, 116,
    12, 89, 7, 12, 20, 12, 4, 56, 8, 10, 6, 40, 8, 34, 78, 129, 84, 12, 21, 3, 3, 5, 7, 9, 25, 7, 7, 9,
    3, 13, 7, 41, 128, 203, 37, 10, 132, 6]"

section \<open>Printable code points\<close>

text \<open>
  The scan of the singletons, whose low bytes start at \<open>lower_start\<close>: Some True when \<open>x\<close> is one of them.
  An access beyond the array is undefined.
\<close>

fun lowers_scan :: "nat list \<Rightarrow> nat \<Rightarrow> nat \<Rightarrow> nat \<Rightarrow> bool option" where
  "lowers_scan lowers low j 0 = Some False"
| "lowers_scan lowers low j (Suc n) =
     (if j < length lowers then (if lowers ! j = low then Some True else lowers_scan lowers low (j + 1) n) else None)"

fun singletons_scan :: "(nat \<times> nat) list \<Rightarrow> nat list \<Rightarrow> nat \<Rightarrow> nat \<Rightarrow> bool option" where
  "singletons_scan [] lowers x lower_start = Some False"
| "singletons_scan ((s_upper, lower_count) # ss) lowers x lower_start =
     (let upper = drop_bit 8 x; lower_end = lower_start + lower_count
      in if upper < s_upper then Some False
         else if upper = s_upper then
           (case lowers_scan lowers (x AND 0xff) lower_start lower_count of
              Some False \<Rightarrow> singletons_scan ss lowers x lower_end
            | r \<Rightarrow> r)
         else singletons_scan ss lowers x lower_end)"

text \<open>The runs of printable and other code points; a run of 128 or more takes two bytes.\<close>

fun runs_scan :: "nat list \<Rightarrow> int \<Rightarrow> bool \<Rightarrow> bool option" where
  "runs_scan [] xsigned current = Some current"
| "runs_scan (v # vs) xsigned current =
     (if v AND 0x80 \<noteq> 0 then
        (case vs of
           [] \<Rightarrow> None
         | w # ws \<Rightarrow>
             (let xsigned' = xsigned - int (push_bit 8 (v AND 0x7f) OR w)
              in if xsigned' < 0 then Some current else runs_scan ws xsigned' (\<not> current)))
      else
        (let xsigned' = xsigned - int v
         in if xsigned' < 0 then Some current else runs_scan vs xsigned' (\<not> current)))"

definition is_printable_in :: "nat \<Rightarrow> (nat \<times> nat) list \<Rightarrow> nat list \<Rightarrow> nat list \<Rightarrow> bool option" where
  "is_printable_in x singletons singleton_lowers normal =
     (case singletons_scan singletons singleton_lowers x 0 of
        None \<Rightarrow> None
      | Some True \<Rightarrow> Some False
      | Some False \<Rightarrow> runs_scan normal (int x) True)"

definition is_printable :: "nat \<Rightarrow> bool option" where
  "is_printable cp =
     (let lower = take_bit 16 cp
      in if cp < 0x10000 then is_printable_in lower singletons0 singletons0_lower normal0
         else if cp < 0x20000 then is_printable_in lower singletons1 singletons1_lower normal1
         else Some (\<not> (0x2a6de \<le> cp \<and> cp < 0x2a700 \<or> 0x2b735 \<le> cp \<and> cp < 0x2b740 \<or> 0x2b81e \<le> cp \<and> cp < 0x2b820 \<or>
           0x2cea2 \<le> cp \<and> cp < 0x2ceb0 \<or> 0x2ebe1 \<le> cp \<and> cp < 0x2f800 \<or> 0x2fa1e \<le> cp \<and> cp < 0x30000 \<or>
           0x3134b \<le> cp \<and> cp < 0xe0100 \<or> 0xe01f0 \<le> cp \<and> cp < 0x110000) \<and> cp < 0x110000))"

definition needs_escape :: "nat \<Rightarrow> bool option" where
  "needs_escape cp =
     (if cp < 0x20 \<or> cp = 0x7f \<or> cp = of_char (CHR 0x22) \<or> cp = of_char (CHR 0x5C) then Some True
      else map_option Not (is_printable cp))"

section \<open>The tables are never left\<close>

lemma lowers_scan_total: "j + n \<le> length lowers \<Longrightarrow> lowers_scan lowers low j n \<noteq> None"
  by (induction lowers low j n rule: lowers_scan.induct) auto

lemma singletons_scan_total:
  "start + sum_list (map snd ss) \<le> length lowers \<Longrightarrow> singletons_scan ss lowers x start \<noteq> None"
proof (induction ss lowers x start rule: singletons_scan.induct)
  case (1 lowers x start)
  then show ?case by simp
next
  case (2 u n ss lowers x start)
  have "lowers_scan lowers (x AND 255) start n \<noteq> None" using 2(3) by (intro lowers_scan_total) simp
  then obtain r where r: "lowers_scan lowers (x AND 255) start n = Some r" by blast
  with 2 show ?case by (cases r) (auto simp: Let_def)
qed

text \<open>No two-byte run is cut off at the end.\<close>

fun runs_closed :: "nat list \<Rightarrow> bool" where
  "runs_closed [] \<longleftrightarrow> True"
| "runs_closed (v # vs) \<longleftrightarrow> (if v AND 0x80 \<noteq> 0 then (case vs of [] \<Rightarrow> False | w # ws \<Rightarrow> runs_closed ws) else runs_closed vs)"

lemma runs_scan_total: "runs_closed vs \<Longrightarrow> runs_scan vs x c \<noteq> None"
proof (induction vs arbitrary: x c rule: runs_closed.induct)
  case 1
  then show ?case by simp
next
  case (2 v vs)
  then show ?case by (cases "v AND 0x80 = 0") (auto simp: Let_def split: list.splits)
qed

lemma singletons_lengths:
  "sum_list (map snd singletons0) = length singletons0_lower" "sum_list (map snd singletons1) = length singletons1_lower"
  by (simp_all add: singletons0_def singletons0_lower_def singletons1_def singletons1_lower_def)

lemma normal_closed: "runs_closed normal0" "runs_closed normal1"
  by (simp_all add: normal0_def normal1_def)

lemma is_printable_total: "is_printable cp \<noteq> None"
proof -
  have "is_printable_in x ss ls vs \<noteq> None" if "sum_list (map snd ss) = length ls" "runs_closed vs" for x ss ls vs
    using singletons_scan_total [of 0 ss ls x] runs_scan_total [OF that(2), of "int x" True] that(1)
    by (auto simp: is_printable_in_def split: bool.split)
  then show ?thesis using singletons_lengths normal_closed by (simp add: is_printable_def Let_def)
qed

lemma needs_escape_total: "needs_escape cp \<noteq> None"
  using is_printable_total [of cp] by (auto simp: needs_escape_def)

section \<open>Digits in a base that is a power of two\<close>

definition digit_of_base :: "bool \<Rightarrow> nat \<Rightarrow> char" where
  "digit_of_base upper d = (if upper then ''0123456789ABCDEF'' else ''0123456789abcdef'') ! d"

text \<open>\<open>do_format_base2e\<close> writes downwards from \<open>n\<close>; a write before the buffer is undefined.\<close>

fun do_format_base2e :: "nat \<Rightarrow> string \<Rightarrow> nat \<Rightarrow> nat \<Rightarrow> bool \<Rightarrow> (nat \<times> string) option" where
  "do_format_base2e base_bits out value 0 upper = None"
| "do_format_base2e base_bits out value (Suc n) upper =
     (let digit = value AND (2 ^ base_bits - 1);
          c = (if base_bits < 4 then char_of (of_char (CHR ''0'') + digit) else digit_of_base upper digit);
          value' = drop_bit base_bits value
      in do {
        out' \<leftarrow> write1 out n c;
        (if value' \<noteq> 0 then do_format_base2e base_bits out' value' n upper else Some (n, out'))
      })"

text \<open>The text of a number in such a base, which the routine is measured against.\<close>

definition base_char :: "nat \<Rightarrow> bool \<Rightarrow> nat \<Rightarrow> char" where
  "base_char b upper d = (if b < 4 then char_of (of_char (CHR ''0'') + d) else digit_of_base upper d)"

function base_text :: "nat \<Rightarrow> bool \<Rightarrow> nat \<Rightarrow> string" where
  "base_text b upper v =
     (if b = 0 \<or> v < 2 ^ b then [base_char b upper v] else base_text b upper (v div 2 ^ b) @ [base_char b upper (v mod 2 ^ b)])"
  by pat_completeness auto
termination
proof (relation "measure (\<lambda>(b, upper, v). v)", goal_cases)
  case (2 b upper v)
  then have "1 < (2 :: nat) ^ b" using one_less_power [of "2 :: nat" b] by simp
  moreover have "0 < v" using 2 by (auto intro: gr0I)
  ultimately show ?case by simp
qed simp

declare base_text.simps [simp del]

lemma length_base_text_le: "0 < b \<Longrightarrow> v < 2 ^ (b * Suc k) \<Longrightarrow> length (base_text b upper v) \<le> Suc k"
proof (induction k arbitrary: v)
  case 0
  then show ?case by (subst base_text.simps) simp
next
  case (Suc k)
  show ?case
  proof (cases "v < 2 ^ b")
    case True
    then show ?thesis by (subst base_text.simps) simp
  next
    case False
    have "v div 2 ^ b < 2 ^ (b * Suc k)"
      using Suc.prems(2) by (simp add: div_less_iff_less_mult power_add mult.commute mult.left_commute algebra_simps)
    with Suc.IH [of "v div 2 ^ b"] Suc.prems(1) False show ?thesis by (subst base_text.simps) simp
  qed
qed

lemma base_text_not_Nil [simp]: "base_text b upper v \<noteq> []"
  by (subst base_text.simps) simp

lemma do_format_base2e_eq:
  assumes "0 < b"
  shows "length (base_text b upper v) \<le> n \<Longrightarrow> n \<le> length out \<Longrightarrow>
    do_format_base2e b out v n upper =
      Some (n - length (base_text b upper v), take (n - length (base_text b upper v)) out @ base_text b upper v @ drop n out)"
proof (induction n arbitrary: v out)
  case 0
  then show ?case by simp
next
  case (Suc n)
  define out' where "out' = out[n := base_char b upper (v mod 2 ^ b)]"
  have d: "v AND (2 ^ b - 1) = v mod 2 ^ b" "drop_bit b v = v div 2 ^ b"
    using and_pow [of "2 ^ b - 1" b "2 ^ b" v] by (simp_all add: drop_bit_eq_div)
  have w: "write1 out n (base_char b upper (v mod 2 ^ b)) = Some out'" using Suc.prems(2) by (simp add: write1_def out'_def)
  have "do_format_base2e b out v (Suc n) upper =
      (if v div 2 ^ b \<noteq> 0 then do_format_base2e b out' (v div 2 ^ b) n upper else Some (n, out'))"
    unfolding do_format_base2e.simps Let_def d using w by (simp add: base_char_def)
  note step = this
  have o: "out' = take n out @ base_char b upper (v mod 2 ^ b) # drop (Suc n) out"
    using Suc.prems(2) by (simp add: out'_def upd_conv_take_nth_drop)
  show ?case
  proof (cases "v < 2 ^ b")
    case True
    with step o show ?thesis by (simp add: base_text.simps [of b upper v])
  next
    case False
    then have t: "base_text b upper v = base_text b upper (v div 2 ^ b) @ [base_char b upper (v mod 2 ^ b)]"
      using assms by (simp add: base_text.simps [of b upper v])
    have "v div 2 ^ b \<noteq> 0" using False by (simp add: div_eq_0_iff)
    moreover have "length (base_text b upper (v div 2 ^ b)) \<le> n" "n \<le> length out'" using Suc.prems t by (simp_all add: out'_def)
    ultimately show ?thesis using step Suc.IH [of "v div 2 ^ b" out'] t o Suc.prems(2) by simp
  qed
qed

section \<open>Escaping\<close>

text \<open>
  \<open>find_escape\<close>: the place of the first code point to escape, its end and the code point, or the end of
  the string and None.
\<close>

definition find_escape :: "string \<Rightarrow> (nat \<times> nat option \<times> nat) option" where
  "find_escape s = do {
     r \<leftarrow> for_each_codepoint (\<lambda>cp p n r.
       case needs_escape cp of
         None \<Rightarrow> (None, False)
       | Some True \<Rightarrow> (Some (p, Some (p + n), cp), False)
       | Some False \<Rightarrow> (r, True)) s (Some (length s, None, 0));
     r
   }"

definition write_codepoint :: "nat \<Rightarrow> char \<Rightarrow> nat \<Rightarrow> string option" where
  "write_codepoint width prefix cp = do {
     (_, buf) \<leftarrow> do_format_base2e 4 (replicate width (CHR ''0'')) cp width False;
     Some (CHR 0x5C # prefix # buf)
   }"

fun write_codepoints :: "string \<Rightarrow> string option" where
  "write_codepoints [] = Some []"
| "write_codepoints (c # cs) = do {
     x \<leftarrow> write_codepoint 2 (CHR ''x'') (of_char c);
     xs \<leftarrow> write_codepoints cs;
     Some (x @ xs)
   }"

text \<open>\<open>write_escaped_cp\<close> with the bytes of the code point.\<close>

definition write_escaped_cp :: "string \<Rightarrow> nat \<Rightarrow> string option" where
  "write_escaped_cp bytes cp =
     (if cp = 0x0A then Some (CHR 0x5C # ''n'')
      else if cp = 0x0D then Some (CHR 0x5C # ''r'')
      else if cp = 0x09 then Some (CHR 0x5C # ''t'')
      else if cp = 0x22 \<or> cp = 0x27 \<or> cp = 0x5C then Some [CHR 0x5C, char_of cp]
      else if cp < 0x100 then write_codepoint 2 (CHR ''x'') cp
      else if cp < 0x10000 then write_codepoint 4 (CHR ''u'') cp
      else if cp < 0x110000 then write_codepoint 8 (CHR ''U'') cp
      else write_codepoints bytes)"

lemma find_escape_progress: "find_escape s = Some (b, Some e, cp) \<Longrightarrow> b < e \<and> e \<le> length s"
proof -
  assume f: "find_escape s = Some (b, Some e, cp)"
  define g where "g = (\<lambda>(cp :: nat) p n (r :: (nat \<times> nat option \<times> nat) option). case needs_escape cp of None \<Rightarrow> (None, False)
       | Some True \<Rightarrow> (Some (p, Some (p + n), cp), False) | Some False \<Rightarrow> (r, True))"
  have "list_all (slice_ok s) xs \<Longrightarrow> fold_slices g xs (Some (length s, None, 0)) = Some (b, Some e, cp) \<Longrightarrow> b < e \<and> e \<le> length s" for xs
    by (induction xs) (auto simp: g_def slice_ok_def split: option.splits bool.splits)
  moreover have "fold_slices g (slices 0 s) (Some (length s, None, 0)) = Some (b, Some e, cp)"
    using f by (simp add: find_escape_def for_each_codepoint_eq g_def)
  ultimately show ?thesis using slices_ok [of 0 s, unfolded drop0] by blast
qed

function escape_loop :: "string \<Rightarrow> string option" where
  "escape_loop s =
     (case find_escape s of
        None \<Rightarrow> None
      | Some (b, None, cp) \<Rightarrow> Some (take b s)
      | Some (b, Some e, cp) \<Rightarrow> do {
          x \<leftarrow> write_escaped_cp (take (e - b) (drop b s)) cp;
          (if e = length s then Some (take b s @ x)
           else do { y \<leftarrow> escape_loop (drop e s); Some (take b s @ x @ y) })
        })"
  by pat_completeness auto
termination
proof (relation "measure length", goal_cases)
  case (2 s)
  then show ?case by (auto dest!: find_escape_progress)
qed simp

declare escape_loop.simps [simp del]

definition write_escaped_string :: "string \<Rightarrow> string option" where
  "write_escaped_string s = do { x \<leftarrow> escape_loop s; Some (CHR 0x22 # x @ [CHR 0x22]) }"

text \<open>A char converted to 32 bits; chars are signed.\<close>

definition char_u32 :: "char \<Rightarrow> nat" where
  "char_u32 c = (let n = of_char c in if n < 128 then n else 2 ^ 32 - 256 + n)"

definition write_escaped_char :: "char \<Rightarrow> string option" where
  "write_escaped_char v = do {
     esc \<leftarrow> needs_escape (char_u32 v);
     x \<leftarrow> (if esc \<and> v \<noteq> CHR 0x22 \<or> v = CHR 0x27 then write_escaped_cp [v] (char_u32 v) else Some [v]);
     Some (CHR 0x27 # x @ [CHR 0x27])
   }"

section \<open>What escaping writes\<close>

text \<open>The text of a code point under the debug presentation.\<close>

definition debug_cp :: "nat \<times> string \<Rightarrow> string option" where
  "debug_cp = (\<lambda>(cp, bs). do { e \<leftarrow> needs_escape cp; (if e then write_escaped_cp bs cp else Some bs) })"

fun concat_opt :: "('a \<Rightarrow> string option) \<Rightarrow> 'a list \<Rightarrow> string option" where
  "concat_opt f [] = Some []"
| "concat_opt f (x # xs) = do { y \<leftarrow> f x; ys \<leftarrow> concat_opt f xs; Some (y @ ys) }"

lemma concat_opt_append:
  "concat_opt f (xs @ ys) = do { x \<leftarrow> concat_opt f xs; y \<leftarrow> concat_opt f ys; Some (x @ y) }"
  by (induction xs) (auto simp: Option.bind_map_option bind_eq_Some_conv intro!: option.expand split: option.splits)

lemma concat_opt_plain: "\<forall>(cp, bs)\<in>set xs. needs_escape cp = Some False \<Longrightarrow> concat_opt debug_cp xs = Some (concat (map snd xs))"
  by (induction xs) (auto simp: debug_cp_def)

lemma concat_opt_total: "\<forall>x\<in>set xs. f x \<noteq> None \<Longrightarrow> concat_opt f xs \<noteq> None"
  by (induction xs) auto

text \<open>The search stops at the first code point to escape.\<close>

lemma find_escape_parts:
  "(find_escape s = Some (length s, None, 0) \<and> (\<forall>(cp, bs)\<in>set (codepoints s). needs_escape cp = Some False)) \<or>
   (\<exists>pre cp bs. codepoints s = pre @ (cp, bs) # codepoints (drop (length (concat (map snd pre)) + length bs) s) \<and>
      (\<forall>(cp, bs)\<in>set pre. needs_escape cp = Some False) \<and> needs_escape cp = Some True \<and>
      s = concat (map snd pre) @ bs @ drop (length (concat (map snd pre)) + length bs) s \<and> bs \<noteq> [] \<and>
      find_escape s = Some (length (concat (map snd pre)), Some (length (concat (map snd pre)) + length bs), cp))"
proof -
  define g where "g = (\<lambda>(cp :: nat) p n (r :: (nat \<times> nat option \<times> nat) option). case needs_escape cp of None \<Rightarrow> (None, False)
       | Some True \<Rightarrow> (Some (p, Some (p + n), cp), False) | Some False \<Rightarrow> (r, True))"
  have "p \<le> length s \<Longrightarrow>
    (fold_slices g (slices p (drop p s)) r = r \<and> (\<forall>(cp, bs)\<in>set (codepoints (drop p s)). needs_escape cp = Some False)) \<or>
    (\<exists>pre cp bs. codepoints (drop p s) = pre @ (cp, bs) # codepoints (drop (p + length (concat (map snd pre)) + length bs) s) \<and>
      (\<forall>(cp, bs)\<in>set pre. needs_escape cp = Some False) \<and> needs_escape cp = Some True \<and>
      drop p s = concat (map snd pre) @ bs @ drop (p + length (concat (map snd pre)) + length bs) s \<and> bs \<noteq> [] \<and>
      fold_slices g (slices p (drop p s)) r =
        Some (p + length (concat (map snd pre)), Some (p + length (concat (map snd pre)) + length bs), cp))" (is "_ \<Longrightarrow> ?P p") for p r
  proof (induction "length s - p" arbitrary: p rule: less_induct)
    case less
    show ?case
    proof (cases "drop p s = []")
      case True
      then show ?thesis by (simp add: slices.simps)
    next
      case False
      obtain cp n where h: "head_slice (drop p s) = (cp, n)" by fastforce
      have n: "1 \<le> n" "n \<le> length s - p" using head_slice_sound [OF h False] by auto
      have sl: "slices p (drop p s) = (cp, p, n) # slices (p + n) (drop (p + n) s)"
        using slices_step [OF False h, of p] by (simp add: add.commute)
      have cs: "codepoints (drop p s) = (cp, take n (drop p s)) # codepoints (drop (p + n) s)"
        using codepoints_step [OF False h] by (simp add: add.commute)
      have tk: "length (take n (drop p s)) = n" "take n (drop p s) \<noteq> []" "drop p s = take n (drop p s) @ drop (p + n) s"
        using n False by (auto simp: append_take_drop_id add.commute) (metis append_take_drop_id drop_drop add.commute)
      show ?thesis
      proof (cases "needs_escape cp = Some True")
        case True
        with sl cs tk show ?thesis
          by (intro disjI2 exI [of _ "[]"] exI [of _ cp] exI [of _ "take n (drop p s)"]) (simp add: g_def)
      next
        case False
        then have e: "needs_escape cp = Some False" using needs_escape_total [of cp] by auto
        then have f: "fold_slices g (slices p (drop p s)) r = fold_slices g (slices (p + n) (drop (p + n) s)) r"
          by (simp add: sl g_def)
        have "length s - (p + n) < length s - p" "p + n \<le> length s" using n less.prems by auto
        from less.hyps [OF this] show ?thesis
        proof (elim disjE exE conjE, goal_cases)
          case 1
          with e f cs show ?case by simp
        next
          case (2 pre c bs)
          have l: "p + (n + length (concat (map snd pre))) + length bs = p + n + length (concat (map snd pre)) + length bs" by simp
          from 2 e f cs tk show ?case
            by (intro disjI2 exI [of _ "(cp, take n (drop p s)) # pre"] exI [of _ c] exI [of _ bs])
              (simp add: add.assoc)
        qed
      qed
    qed
  qed
  from this [of 0 "Some (length s, None, 0)"] show ?thesis
    by (simp add: find_escape_def for_each_codepoint_eq flip: g_def)
qed

lemma escape_loop_eq: "escape_loop s = concat_opt debug_cp (codepoints s)"
proof (induction "length s" arbitrary: s rule: less_induct)
  case less
  from find_escape_parts [of s] show ?case
  proof (elim disjE exE conjE, goal_cases)
    case 1
    then show ?case by (subst escape_loop.simps) (simp add: concat_opt_plain concat_codepoints)
  next
    case (2 pre cp bs)
    define b e where "b = length (concat (map snd pre))" and "e = b + length bs"
    obtain u where u: "s = concat (map snd pre) @ bs @ u" using 2(4) by (rule that)
    then have t: "take b s = concat (map snd pre)" "take (e - b) (drop b s) = bs" by (simp_all add: b_def e_def)
    have l: "e \<le> length s" "0 < e" using u 2(5) by (simp_all add: e_def b_def)
    have f: "find_escape s = Some (b, Some e, cp)" using 2(6) by (simp add: b_def e_def)
    have c: "codepoints s = pre @ (cp, bs) # codepoints (drop e s)" using 2(1) by (simp add: e_def b_def)
    have i: "escape_loop (drop e s) = concat_opt debug_cp (codepoints (drop e s))" using l by (intro less.hyps) simp
    have p: "concat_opt debug_cp pre = Some (concat (map snd pre))" using 2(2) by (rule concat_opt_plain)
    have d: "debug_cp (cp, bs) = write_escaped_cp bs cp" using 2(3) by (simp add: debug_cp_def)
    have "escape_loop s = do { x \<leftarrow> write_escaped_cp bs cp;
        (if e = length s then Some (take b s @ x) else do { y \<leftarrow> escape_loop (drop e s); Some (take b s @ x @ y) }) }"
      using t by (subst escape_loop.simps) (simp add: f)
    also have "\<dots> = do { x \<leftarrow> write_escaped_cp bs cp; y \<leftarrow> concat_opt debug_cp (codepoints (drop e s)); Some (take b s @ x @ y) }"
      by (cases "e = length s") (simp_all add: i)
    also have "\<dots> = concat_opt debug_cp (codepoints s)"
      unfolding c concat_opt_append concat_opt.simps p d t(1)
      by (cases "write_escaped_cp bs cp"; cases "concat_opt debug_cp (codepoints (drop e s))") simp_all
    finally show ?case .
  qed
qed

section \<open>Escaping is total\<close>

lemma write_codepoint_eq:
  assumes "cp < 2 ^ (4 * width)" and "0 < width"
  shows "write_codepoint width prefix cp = Some (CHR 0x5C # prefix #
    replicate (width - length (base_text 4 False cp)) (CHR ''0'') @ base_text 4 False cp)"
proof -
  obtain k where "width = Suc k" using assms(2) by (cases width) auto
  with assms(1) have "length (base_text 4 False cp) \<le> width" using length_base_text_le [of 4 cp k False] by simp
  then show ?thesis by (simp add: write_codepoint_def do_format_base2e_eq min_def)
qed

lemma write_codepoints_total: "write_codepoints bs \<noteq> None"
proof (induction bs)
  case (Cons c bs)
  have "(of_char c :: nat) < 2 ^ (4 * 2)" by simp
  from write_codepoint_eq [OF this] Cons show ?case by auto
qed simp

lemma write_escaped_cp_total: "write_escaped_cp bs cp \<noteq> None"
  using write_codepoint_eq [of cp 2] write_codepoint_eq [of cp 4] write_codepoint_eq [of cp 8] write_codepoints_total [of bs]
  by (simp add: write_escaped_cp_def)

lemma debug_cp_total: "debug_cp c \<noteq> None"
  using needs_escape_total [of "fst c"] write_escaped_cp_total by (auto simp: debug_cp_def split: prod.split)

lemma write_escaped_string_total: "write_escaped_string s \<noteq> None"
  using concat_opt_total [of "codepoints s" debug_cp] debug_cp_total
  by (auto simp: write_escaped_string_def escape_loop_eq)

lemma write_escaped_char_total: "write_escaped_char c \<noteq> None"
  using needs_escape_total [of "char_u32 c"] write_escaped_cp_total [of "[c]" "char_u32 c"]
  by (auto simp: write_escaped_char_def)

end
