(* ===== verification/Fmt_Specs.thy ===== *)
theory Fmt_Specs
  imports Prelude
begin

text \<open>
  Format specifications of \<open>spdlog/fmt/bundled/base.h\<close>: the types of arguments, the packed specifiers,
  and the parser of argument ids and specifiers.  A pointer into the format string is the part of the
  string from there to the end.  \<open>report_error\<close> throws: a result is None when the behaviour is
  undefined, and otherwise the message of the exception or a value.
\<close>

section \<open>Results\<close>

type_synonym 'a fres = "(string + 'a) option"

definition report_error :: "string \<Rightarrow> 'a fres" where
  "report_error message = Some (Inl message)"

definition ok :: "'a \<Rightarrow> 'a fres" where
  "ok x = Some (Inr x)"

definition andthen :: "'a fres \<Rightarrow> ('a \<Rightarrow> 'b fres) \<Rightarrow> 'b fres" where
  "andthen r f = (case r of None \<Rightarrow> None | Some (Inl e) \<Rightarrow> Some (Inl e) | Some (Inr x) \<Rightarrow> f x)"

text \<open>A computation that does not throw.\<close>

definition nothrow :: "'a option \<Rightarrow> 'a fres" where
  "nothrow = map_option Inr"

lemma andthen_cong [fundef_cong]:
  "r = r' \<Longrightarrow> (\<And>x. r' = Some (Inr x) \<Longrightarrow> f x = g x) \<Longrightarrow> andthen r f = andthen r' g"
  by (simp add: andthen_def split: option.split sum.split)

lemma andthen_simps [simp]:
  "andthen (ok x) f = f x" "andthen (report_error e) f = report_error e" "andthen None f = None"
  "andthen (Some (Inr x)) f = f x" "andthen (Some (Inl e)) f = Some (Inl e)"
  by (simp_all add: andthen_def ok_def report_error_def)

lemma andthen_Inr: "andthen r f = Some (Inr y) \<longleftrightarrow> (\<exists>x. r = Some (Inr x) \<and> f x = Some (Inr y))"
  by (auto simp: andthen_def split: option.splits sum.splits)

lemma andthen_None: "andthen r f = None \<longleftrightarrow> r = None \<or> (\<exists>x. r = Some (Inr x) \<and> f x = None)"
  by (auto simp: andthen_def split: option.splits sum.splits)

lemma ok_Some [simp]: "ok x = Some (Inr y) \<longleftrightarrow> x = y" "ok x \<noteq> None" "report_error e \<noteq> None" "report_error e \<noteq> Some (Inr y)"
  by (simp_all add: ok_def report_error_def)

section \<open>Types of arguments\<close>

datatype fmt_type = none_type | int_type | uint_type | long_long_type | ulong_long_type | int128_type | uint128_type
  | bool_type | char_type | float_type | double_type | long_double_type | cstring_type | string_type | pointer_type
  | custom_type

fun type_num :: "fmt_type \<Rightarrow> nat" where
  "type_num none_type = 0"
| "type_num int_type = 1"
| "type_num uint_type = 2"
| "type_num long_long_type = 3"
| "type_num ulong_long_type = 4"
| "type_num int128_type = 5"
| "type_num uint128_type = 6"
| "type_num bool_type = 7"
| "type_num char_type = 8"
| "type_num float_type = 9"
| "type_num double_type = 10"
| "type_num long_double_type = 11"
| "type_num cstring_type = 12"
| "type_num string_type = 13"
| "type_num pointer_type = 14"
| "type_num custom_type = 15"

definition is_integral_type :: "fmt_type \<Rightarrow> bool" where
  "is_integral_type t \<longleftrightarrow> type_num t > 0 \<and> type_num t \<le> type_num char_type"

definition is_arithmetic_type :: "fmt_type \<Rightarrow> bool" where
  "is_arithmetic_type t \<longleftrightarrow> type_num t > 0 \<and> type_num t \<le> type_num long_double_type"

text \<open>Sets of types as bits.\<close>

definition type_set :: "fmt_type \<Rightarrow> nat" where
  "type_set rhs = push_bit (type_num rhs) 1"

definition in_set :: "fmt_type \<Rightarrow> nat \<Rightarrow> bool" where
  "in_set t types \<longleftrightarrow> drop_bit (type_num t) types AND 1 \<noteq> 0"

definition sint_set :: nat where
  "sint_set = type_set int_type OR type_set long_long_type OR type_set int128_type"

definition uint_set :: nat where
  "uint_set = type_set uint_type OR type_set ulong_long_type OR type_set uint128_type"

definition bool_set :: nat where
  "bool_set = type_set bool_type"

definition char_set :: nat where
  "char_set = type_set char_type"

definition float_set :: nat where
  "float_set = type_set float_type OR type_set double_type OR type_set long_double_type"

definition string_set :: nat where
  "string_set = type_set string_type"

definition cstring_set :: nat where
  "cstring_set = type_set cstring_type"

definition pointer_set :: nat where
  "pointer_set = type_set pointer_type"

definition integral_set :: nat where
  "integral_set = sint_set OR uint_set OR bool_set OR char_set"

lemma in_set_list [simp]:
  "in_set t sint_set \<longleftrightarrow> t \<in> {int_type, long_long_type, int128_type}"
  "in_set t float_set \<longleftrightarrow> t \<in> {float_type, double_type, long_double_type}"
  "in_set t (sint_set OR float_set) \<longleftrightarrow> t \<in> {int_type, long_long_type, int128_type, float_type, double_type, long_double_type}"
  "in_set t integral_set \<longleftrightarrow> t \<in> {int_type, uint_type, long_long_type, ulong_long_type, int128_type, uint128_type, bool_type, char_type}"
  "in_set t (float_set OR string_set OR cstring_set) \<longleftrightarrow> t \<in> {float_type, double_type, long_double_type, string_type, cstring_type}"
  "in_set t (bool_set OR string_set OR cstring_set) \<longleftrightarrow> t \<in> {bool_type, string_type, cstring_type}"
  "in_set t (char_set OR string_set OR cstring_set) \<longleftrightarrow> t \<in> {char_type, string_type, cstring_type}"
  "in_set t (pointer_set OR cstring_set) \<longleftrightarrow> t \<in> {pointer_type, cstring_type}"
  by (cases t; simp add: in_set_def type_set_def sint_set_def float_set_def integral_set_def uint_set_def bool_set_def
      char_set_def string_set_def cstring_set_def pointer_set_def push_bit_eq_mult drop_bit_eq_div)+

section \<open>Specifiers\<close>

text \<open>The enumerations as the numbers they are stored as; some presentation types share a number.\<close>

definition pres_none :: nat where "pres_none = 0"
definition pres_debug :: nat where "pres_debug = 1"
definition pres_string :: nat where "pres_string = 2"
definition pres_dec :: nat where "pres_dec = 3"
definition pres_hex :: nat where "pres_hex = 4"
definition pres_oct :: nat where "pres_oct = 5"
definition pres_bin :: nat where "pres_bin = 6"
definition pres_chr :: nat where "pres_chr = 7"
definition pres_pointer :: nat where "pres_pointer = 3"
definition pres_exp :: nat where "pres_exp = 1"
definition pres_fixed :: nat where "pres_fixed = 2"
definition pres_general :: nat where "pres_general = 3"
definition pres_hexfloat :: nat where "pres_hexfloat = 4"

lemmas pres_defs [simp] = pres_none_def pres_debug_def pres_string_def pres_dec_def pres_hex_def pres_oct_def pres_bin_def
  pres_chr_def pres_pointer_def pres_exp_def pres_fixed_def pres_general_def pres_hexfloat_def

datatype align = align_none | align_left | align_right | align_center | align_numeric
datatype sign = sign_none | sign_minus | sign_plus | sign_space
datatype arg_id_kind = kind_none | kind_index | kind_name

definition aligns :: "align list" where
  "aligns = [align_none, align_left, align_right, align_center, align_numeric]"

definition signs :: "sign list" where
  "signs = [sign_none, sign_minus, sign_plus, sign_space]"

definition kinds :: "arg_id_kind list" where
  "kinds = [kind_none, kind_index, kind_name]"

fun align_num :: "align \<Rightarrow> u32" where
  "align_num align_none = 0"
| "align_num align_left = 1"
| "align_num align_right = 2"
| "align_num align_center = 3"
| "align_num align_numeric = 4"

fun sign_num :: "sign \<Rightarrow> u32" where
  "sign_num sign_none = 0"
| "sign_num sign_minus = 1"
| "sign_num sign_plus = 2"
| "sign_num sign_space = 3"

fun kind_num :: "arg_id_kind \<Rightarrow> u32" where
  "kind_num kind_none = 0"
| "kind_num kind_index = 1"
| "kind_num kind_name = 2"

datatype arg_ref = Arg_index int | Arg_name string

record format_specs =
  sp_data :: u32
  sp_fill_data :: string
  sp_width :: int
  sp_precision :: int

record dynamic_format_specs = format_specs +
  sp_width_ref :: arg_ref
  sp_precision_ref :: arg_ref

definition default_specs :: format_specs where
  "default_specs = \<lparr>sp_data = push_bit 15 1, sp_fill_data = [CHR '' '', CHR 0x00, CHR 0x00, CHR 0x00], sp_width = 0, sp_precision = - 1\<rparr>"

definition default_dynamic_specs :: dynamic_format_specs where
  "default_dynamic_specs = format_specs.extend default_specs
     (dynamic_format_specs.fields (Arg_index 0) (Arg_index 0))"

text \<open>The fields of the packed word.\<close>

definition sp_type :: "'a format_specs_scheme \<Rightarrow> nat" where
  "sp_type s = unat (sp_data s AND 0x7)"

definition set_type :: "nat \<Rightarrow> 'a format_specs_scheme \<Rightarrow> 'a format_specs_scheme" where
  "set_type t s = s\<lparr>sp_data := (sp_data s AND NOT 0x7) OR of_nat t\<rparr>"

definition sp_align :: "'a format_specs_scheme \<Rightarrow> align" where
  "sp_align s = aligns ! unat (drop_bit 3 (sp_data s AND 0x38))"

definition set_align :: "align \<Rightarrow> 'a format_specs_scheme \<Rightarrow> 'a format_specs_scheme" where
  "set_align a s = s\<lparr>sp_data := (sp_data s AND NOT 0x38) OR push_bit 3 (align_num a)\<rparr>"

definition dynamic_width :: "'a format_specs_scheme \<Rightarrow> arg_id_kind" where
  "dynamic_width s = kinds ! unat (drop_bit 6 (sp_data s AND 0xC0))"

definition set_dynamic_width :: "arg_id_kind \<Rightarrow> 'a format_specs_scheme \<Rightarrow> 'a format_specs_scheme" where
  "set_dynamic_width w s = s\<lparr>sp_data := (sp_data s AND NOT 0xC0) OR push_bit 6 (kind_num w)\<rparr>"

definition dynamic_precision :: "'a format_specs_scheme \<Rightarrow> arg_id_kind" where
  "dynamic_precision s = kinds ! unat (drop_bit 8 (sp_data s AND 0x300))"

definition set_dynamic_precision :: "arg_id_kind \<Rightarrow> 'a format_specs_scheme \<Rightarrow> 'a format_specs_scheme" where
  "set_dynamic_precision p s = s\<lparr>sp_data := (sp_data s AND NOT 0x300) OR push_bit 8 (kind_num p)\<rparr>"

definition sp_dynamic :: "'a format_specs_scheme \<Rightarrow> bool" where
  "sp_dynamic s \<longleftrightarrow> sp_data s AND (0xC0 OR 0x300) \<noteq> 0"

definition sp_sign :: "'a format_specs_scheme \<Rightarrow> sign" where
  "sp_sign s = signs ! unat (drop_bit 10 (sp_data s AND 0xC00))"

definition set_sign :: "sign \<Rightarrow> 'a format_specs_scheme \<Rightarrow> 'a format_specs_scheme" where
  "set_sign x s = s\<lparr>sp_data := (sp_data s AND NOT 0xC00) OR push_bit 10 (sign_num x)\<rparr>"

definition sp_upper :: "'a format_specs_scheme \<Rightarrow> bool" where
  "sp_upper s \<longleftrightarrow> sp_data s AND 0x1000 \<noteq> 0"

definition set_upper :: "'a format_specs_scheme \<Rightarrow> 'a format_specs_scheme" where
  "set_upper s = s\<lparr>sp_data := sp_data s OR 0x1000\<rparr>"

definition sp_alt :: "'a format_specs_scheme \<Rightarrow> bool" where
  "sp_alt s \<longleftrightarrow> sp_data s AND 0x2000 \<noteq> 0"

definition set_alt :: "'a format_specs_scheme \<Rightarrow> 'a format_specs_scheme" where
  "set_alt s = s\<lparr>sp_data := sp_data s OR 0x2000\<rparr>"

definition clear_alt :: "'a format_specs_scheme \<Rightarrow> 'a format_specs_scheme" where
  "clear_alt s = s\<lparr>sp_data := sp_data s AND NOT 0x2000\<rparr>"

definition sp_localized :: "'a format_specs_scheme \<Rightarrow> bool" where
  "sp_localized s \<longleftrightarrow> sp_data s AND 0x4000 \<noteq> 0"

definition set_localized :: "'a format_specs_scheme \<Rightarrow> 'a format_specs_scheme" where
  "set_localized s = s\<lparr>sp_data := sp_data s OR 0x4000\<rparr>"

definition fill_size :: "'a format_specs_scheme \<Rightarrow> nat" where
  "fill_size s = unat (drop_bit 15 (sp_data s AND 0x38000))"

definition set_fill_size :: "nat \<Rightarrow> 'a format_specs_scheme \<Rightarrow> 'a format_specs_scheme" where
  "set_fill_size n s = s\<lparr>sp_data := (sp_data s AND NOT 0x38000) OR push_bit 15 (of_nat n)\<rparr>"

definition set_fill_char :: "char \<Rightarrow> 'a format_specs_scheme \<Rightarrow> 'a format_specs_scheme" where
  "set_fill_char c s = set_fill_size 1 (s\<lparr>sp_fill_data := (sp_fill_data s)[0 := c]\<rparr>)"

text \<open>A fill of more than four chars fails an assertion; a single char clears the next two.\<close>

definition set_fill :: "string \<Rightarrow> 'a format_specs_scheme \<Rightarrow> 'a format_specs_scheme option" where
  "set_fill f s =
     (let s1 = set_fill_size (length f) s
      in if length f = 1 then Some (s1\<lparr>sp_fill_data := (sp_fill_data s1)[0 := f ! 0, 1 := CHR 0x00, 2 := CHR 0x00]\<rparr>)
         else if length f \<le> 4 then Some (s1\<lparr>sp_fill_data := f @ drop (length f) (sp_fill_data s1)\<rparr>)
         else None)"

definition sp_fill :: "'a format_specs_scheme \<Rightarrow> string" where
  "sp_fill s = take (fill_size s) (sp_fill_data s)"

section \<open>The packed fields are independent\<close>

named_theorems specs_simps \<open>reading a specifier after writing one\<close>

lemma keep_field:
  fixes d v m m' :: u32
  assumes "v AND m = v" and "m AND m' = 0"
  shows "((d AND NOT m) OR v) AND m' = d AND m'" "(d OR m) AND m' = d AND m'" "(d AND NOT m) AND m' = d AND m'"
proof -
  have d: "\<not> (bit m i \<and> bit m' i)" for i using assms(2) by (metis bit_and_iff bit_0_eq bot_fun_def bot_bool_def)
  have v: "bit v i \<Longrightarrow> bit m i" for i using assms(1) by (metis bit_and_iff)
  show "((d AND NOT m) OR v) AND m' = d AND m'" "(d OR m) AND m' = d AND m'" "(d AND NOT m) AND m' = d AND m'"
    using d v by (auto intro!: bit_eqI simp: bit_simps dest: bit_imp_le_length)
qed

lemma read_field:
  fixes d v m :: u32
  assumes "v AND m = v"
  shows "((d AND NOT m) OR v) AND m = v" "(d OR m) AND m = m" "(d AND NOT m) AND m = 0"
proof -
  have v: "bit v i \<Longrightarrow> bit m i" for i using assms by (metis bit_and_iff)
  show "((d AND NOT m) OR v) AND m = v" "(d OR m) AND m = m" "(d AND NOT m) AND m = 0"
    using v by (auto intro!: bit_eqI simp: bit_simps dest: bit_imp_le_length)
qed

lemma field_values:
  "push_bit 3 (align_num a) AND 0x38 = push_bit 3 (align_num a)" "push_bit 6 (kind_num k) AND 0xC0 = push_bit 6 (kind_num k)"
  "push_bit 8 (kind_num k) AND 0x300 = push_bit 8 (kind_num k)" "push_bit 10 (sign_num x) AND 0xC00 = push_bit 10 (sign_num x)"
  by ((cases a; simp), (cases k; simp), (cases k; simp), (cases x; simp))

lemma small_field: "n < 8 \<Longrightarrow> (of_nat n :: u32) AND 0x7 = of_nat n" "n < 8 \<Longrightarrow> push_bit 15 (of_nat n :: u32) AND 0x38000 = push_bit 15 (of_nat n)"
proof -
  assume "n < 8"
  then have "n \<in> {0, 1, 2, 3, 4, 5, 6, 7}" by auto
  then show "(of_nat n :: u32) AND 0x7 = of_nat n" "push_bit 15 (of_nat n :: u32) AND 0x38000 = push_bit 15 (of_nat n)"
    by auto
qed

lemma sp_data_upd: "sp_data (s\<lparr>sp_data := d\<rparr>) = d"
  by simp

text \<open>What a setter leaves alone, for a mask that does not meet its own.\<close>

lemma keep_masks:
  "t < 8 \<Longrightarrow> 0x7 AND m = 0 \<Longrightarrow> sp_data (set_type t s) AND m = sp_data s AND m"
  "0x38 AND m = 0 \<Longrightarrow> sp_data (set_align a s) AND m = sp_data s AND m"
  "0xC0 AND m = 0 \<Longrightarrow> sp_data (set_dynamic_width k s) AND m = sp_data s AND m"
  "0x300 AND m = 0 \<Longrightarrow> sp_data (set_dynamic_precision k s) AND m = sp_data s AND m"
  "0xC00 AND m = 0 \<Longrightarrow> sp_data (set_sign x s) AND m = sp_data s AND m"
  "0x1000 AND m = 0 \<Longrightarrow> sp_data (set_upper s) AND m = sp_data s AND m"
  "0x2000 AND m = 0 \<Longrightarrow> sp_data (set_alt s) AND m = sp_data s AND m"
  "0x2000 AND m = 0 \<Longrightarrow> sp_data (clear_alt s) AND m = sp_data s AND m"
  "0x4000 AND m = 0 \<Longrightarrow> sp_data (set_localized s) AND m = sp_data s AND m"
  "n < 8 \<Longrightarrow> 0x38000 AND m = 0 \<Longrightarrow> sp_data (set_fill_size n s) AND m = sp_data s AND m"
  unfolding set_type_def set_align_def set_dynamic_width_def set_dynamic_precision_def set_sign_def set_upper_def set_alt_def
    clear_alt_def set_localized_def set_fill_size_def sp_data_upd
  by - (rule keep_field, (rule small_field field_values and.idem)+, assumption+)+

lemma read_masks:
  "t < 8 \<Longrightarrow> sp_data (set_type t s) AND 0x7 = of_nat t"
  "sp_data (set_align a s) AND 0x38 = push_bit 3 (align_num a)"
  "sp_data (set_dynamic_width k s) AND 0xC0 = push_bit 6 (kind_num k)"
  "sp_data (set_dynamic_precision k s) AND 0x300 = push_bit 8 (kind_num k)"
  "sp_data (set_sign x s) AND 0xC00 = push_bit 10 (sign_num x)"
  "sp_data (set_upper s) AND 0x1000 = 0x1000"
  "sp_data (set_alt s) AND 0x2000 = 0x2000"
  "sp_data (clear_alt s) AND 0x2000 = 0"
  "sp_data (set_localized s) AND 0x4000 = 0x4000"
  "n < 8 \<Longrightarrow> sp_data (set_fill_size n s) AND 0x38000 = push_bit 15 (of_nat n)"
  unfolding set_type_def set_align_def set_dynamic_width_def set_dynamic_precision_def set_sign_def set_upper_def set_alt_def
    clear_alt_def set_localized_def set_fill_size_def sp_data_upd
  by - (rule read_field, (rule small_field field_values and.idem)+, assumption?)+

lemmas getter_defs = sp_type_def sp_align_def dynamic_width_def dynamic_precision_def sp_sign_def sp_upper_def sp_alt_def
  sp_localized_def fill_size_def

lemma align_read: "aligns ! unat (drop_bit 3 (push_bit 3 (align_num a))) = a"
  by (cases a) (simp_all add: aligns_def)

lemma kind_read: "kinds ! unat (drop_bit 6 (push_bit 6 (kind_num k))) = k" "kinds ! unat (drop_bit 8 (push_bit 8 (kind_num k))) = k"
  by (cases k; simp add: kinds_def)+

lemma sign_read: "signs ! unat (drop_bit 10 (push_bit 10 (sign_num x))) = x"
  by (cases x) (simp_all add: signs_def)

lemma small_read: "n < 8 \<Longrightarrow> unat (of_nat n :: u32) = n" "n < 8 \<Longrightarrow> unat (drop_bit 15 (push_bit 15 (of_nat n :: u32))) = n"
proof -
  assume "n < 8"
  then have "n \<in> {0, 1, 2, 3, 4, 5, 6, 7}" by auto
  then show "unat (of_nat n :: u32) = n" "unat (drop_bit 15 (push_bit 15 (of_nat n :: u32))) = n" by auto
qed

lemma after_set_type [specs_simps]:
  "t < 8 \<Longrightarrow> sp_type (set_type t s) = t"
  "t < 8 \<Longrightarrow> sp_align (set_type t s) = sp_align s"
  "t < 8 \<Longrightarrow> dynamic_width (set_type t s) = dynamic_width s"
  "t < 8 \<Longrightarrow> dynamic_precision (set_type t s) = dynamic_precision s"
  "t < 8 \<Longrightarrow> sp_sign (set_type t s) = sp_sign s"
  "t < 8 \<Longrightarrow> sp_upper (set_type t s) = sp_upper s"
  "t < 8 \<Longrightarrow> sp_alt (set_type t s) = sp_alt s"
  "t < 8 \<Longrightarrow> sp_localized (set_type t s) = sp_localized s"
  "t < 8 \<Longrightarrow> fill_size (set_type t s) = fill_size s" "sp_width (set_type t s) = sp_width s"
  "sp_precision (set_type t s) = sp_precision s" "sp_fill_data (set_type t s) = sp_fill_data s"
  by (simp_all add: getter_defs keep_masks read_masks small_read) (simp_all add: set_type_def)

lemma after_set_align [specs_simps]:
  "sp_type (set_align a s) = sp_type s" "sp_align (set_align a s) = a"
  "dynamic_width (set_align a s) = dynamic_width s" "dynamic_precision (set_align a s) = dynamic_precision s"
  "sp_sign (set_align a s) = sp_sign s" "sp_upper (set_align a s) = sp_upper s"
  "sp_alt (set_align a s) = sp_alt s" "sp_localized (set_align a s) = sp_localized s"
  "fill_size (set_align a s) = fill_size s" "sp_width (set_align a s) = sp_width s"
  "sp_precision (set_align a s) = sp_precision s" "sp_fill_data (set_align a s) = sp_fill_data s"
  by (simp_all add: getter_defs keep_masks read_masks align_read) (simp_all add: set_align_def)

lemma after_set_dynamic_width [specs_simps]:
  "sp_type (set_dynamic_width k s) = sp_type s" "sp_align (set_dynamic_width k s) = sp_align s"
  "dynamic_width (set_dynamic_width k s) = k" "dynamic_precision (set_dynamic_width k s) = dynamic_precision s"
  "sp_sign (set_dynamic_width k s) = sp_sign s" "sp_upper (set_dynamic_width k s) = sp_upper s"
  "sp_alt (set_dynamic_width k s) = sp_alt s" "sp_localized (set_dynamic_width k s) = sp_localized s"
  "fill_size (set_dynamic_width k s) = fill_size s" "sp_width (set_dynamic_width k s) = sp_width s"
  "sp_precision (set_dynamic_width k s) = sp_precision s"
  "sp_fill_data (set_dynamic_width k s) = sp_fill_data s"
  by (simp_all add: getter_defs keep_masks read_masks kind_read) (simp_all add: set_dynamic_width_def)

lemma after_set_dynamic_precision [specs_simps]:
  "sp_type (set_dynamic_precision k s) = sp_type s" "sp_align (set_dynamic_precision k s) = sp_align s"
  "dynamic_width (set_dynamic_precision k s) = dynamic_width s"
  "dynamic_precision (set_dynamic_precision k s) = k" "sp_sign (set_dynamic_precision k s) = sp_sign s"
  "sp_upper (set_dynamic_precision k s) = sp_upper s" "sp_alt (set_dynamic_precision k s) = sp_alt s"
  "sp_localized (set_dynamic_precision k s) = sp_localized s"
  "fill_size (set_dynamic_precision k s) = fill_size s" "sp_width (set_dynamic_precision k s) = sp_width s"
  "sp_precision (set_dynamic_precision k s) = sp_precision s"
  "sp_fill_data (set_dynamic_precision k s) = sp_fill_data s"
  by (simp_all add: getter_defs keep_masks read_masks kind_read) (simp_all add: set_dynamic_precision_def)

lemma after_set_sign [specs_simps]:
  "sp_type (set_sign x s) = sp_type s" "sp_align (set_sign x s) = sp_align s"
  "dynamic_width (set_sign x s) = dynamic_width s" "dynamic_precision (set_sign x s) = dynamic_precision s"
  "sp_sign (set_sign x s) = x" "sp_upper (set_sign x s) = sp_upper s" "sp_alt (set_sign x s) = sp_alt s"
  "sp_localized (set_sign x s) = sp_localized s" "fill_size (set_sign x s) = fill_size s"
  "sp_width (set_sign x s) = sp_width s" "sp_precision (set_sign x s) = sp_precision s"
  "sp_fill_data (set_sign x s) = sp_fill_data s"
  by (simp_all add: getter_defs keep_masks read_masks sign_read) (simp_all add: set_sign_def)

lemma after_set_upper [specs_simps]:
  "sp_type (set_upper s) = sp_type s" "sp_align (set_upper s) = sp_align s"
  "dynamic_width (set_upper s) = dynamic_width s" "dynamic_precision (set_upper s) = dynamic_precision s"
  "sp_sign (set_upper s) = sp_sign s" "sp_upper (set_upper s)" "sp_alt (set_upper s) = sp_alt s"
  "sp_localized (set_upper s) = sp_localized s" "fill_size (set_upper s) = fill_size s"
  "sp_width (set_upper s) = sp_width s" "sp_precision (set_upper s) = sp_precision s"
  "sp_fill_data (set_upper s) = sp_fill_data s"
  by (simp_all add: getter_defs keep_masks read_masks) (simp_all add: set_upper_def)

lemma after_set_alt [specs_simps]:
  "sp_type (set_alt s) = sp_type s" "sp_align (set_alt s) = sp_align s"
  "dynamic_width (set_alt s) = dynamic_width s" "dynamic_precision (set_alt s) = dynamic_precision s"
  "sp_sign (set_alt s) = sp_sign s" "sp_upper (set_alt s) = sp_upper s" "sp_alt (set_alt s)"
  "sp_localized (set_alt s) = sp_localized s" "fill_size (set_alt s) = fill_size s"
  "sp_width (set_alt s) = sp_width s" "sp_precision (set_alt s) = sp_precision s"
  "sp_fill_data (set_alt s) = sp_fill_data s"
  by (simp_all add: getter_defs keep_masks read_masks) (simp_all add: set_alt_def)

lemma after_clear_alt [specs_simps]:
  "sp_type (clear_alt s) = sp_type s" "sp_align (clear_alt s) = sp_align s"
  "dynamic_width (clear_alt s) = dynamic_width s" "dynamic_precision (clear_alt s) = dynamic_precision s"
  "sp_sign (clear_alt s) = sp_sign s" "sp_upper (clear_alt s) = sp_upper s" "\<not> sp_alt (clear_alt s)"
  "sp_localized (clear_alt s) = sp_localized s" "fill_size (clear_alt s) = fill_size s"
  "sp_width (clear_alt s) = sp_width s" "sp_precision (clear_alt s) = sp_precision s"
  "sp_fill_data (clear_alt s) = sp_fill_data s"
  by (simp_all add: getter_defs keep_masks read_masks) (simp_all add: clear_alt_def)

lemma after_set_localized [specs_simps]:
  "sp_type (set_localized s) = sp_type s" "sp_align (set_localized s) = sp_align s"
  "dynamic_width (set_localized s) = dynamic_width s"
  "dynamic_precision (set_localized s) = dynamic_precision s" "sp_sign (set_localized s) = sp_sign s"
  "sp_upper (set_localized s) = sp_upper s" "sp_alt (set_localized s) = sp_alt s"
  "sp_localized (set_localized s)" "fill_size (set_localized s) = fill_size s"
  "sp_width (set_localized s) = sp_width s" "sp_precision (set_localized s) = sp_precision s"
  "sp_fill_data (set_localized s) = sp_fill_data s"
  by (simp_all add: getter_defs keep_masks read_masks) (simp_all add: set_localized_def)

lemma after_set_fill_size [specs_simps]:
  "n < 8 \<Longrightarrow> sp_type (set_fill_size n s) = sp_type s"
  "n < 8 \<Longrightarrow> sp_align (set_fill_size n s) = sp_align s"
  "n < 8 \<Longrightarrow> dynamic_width (set_fill_size n s) = dynamic_width s"
  "n < 8 \<Longrightarrow> dynamic_precision (set_fill_size n s) = dynamic_precision s"
  "n < 8 \<Longrightarrow> sp_sign (set_fill_size n s) = sp_sign s"
  "n < 8 \<Longrightarrow> sp_upper (set_fill_size n s) = sp_upper s"
  "n < 8 \<Longrightarrow> sp_alt (set_fill_size n s) = sp_alt s"
  "n < 8 \<Longrightarrow> sp_localized (set_fill_size n s) = sp_localized s"
  "n < 8 \<Longrightarrow> fill_size (set_fill_size n s) = n" "sp_width (set_fill_size n s) = sp_width s"
  "sp_precision (set_fill_size n s) = sp_precision s" "sp_fill_data (set_fill_size n s) = sp_fill_data s"
  by (simp_all add: getter_defs keep_masks read_masks small_read) (simp_all add: set_fill_size_def)

lemma not_dynamic: "\<not> sp_dynamic s \<Longrightarrow> dynamic_width s = kind_none \<and> dynamic_precision s = kind_none"
proof -
  assume "\<not> sp_dynamic s"
  then have d: "sp_data s AND 0x3C0 = 0" by (simp add: sp_dynamic_def)
  have "sp_data s AND 0xC0 = (sp_data s AND 0x3C0) AND 0xC0" "sp_data s AND 0x300 = (sp_data s AND 0x3C0) AND 0x300"
    by (simp_all add: and.assoc)
  with d show ?thesis by (simp add: dynamic_width_def dynamic_precision_def kinds_def)
qed

lemma default_specs_fields [specs_simps]:
  "sp_type default_dynamic_specs = 0" "sp_align default_dynamic_specs = align_none" "dynamic_width default_dynamic_specs = kind_none"
  "dynamic_precision default_dynamic_specs = kind_none" "sp_sign default_dynamic_specs = sign_none" "\<not> sp_upper default_dynamic_specs"
  "\<not> sp_alt default_dynamic_specs" "\<not> sp_localized default_dynamic_specs" "fill_size default_dynamic_specs = 1"
  "sp_width default_dynamic_specs = 0" "sp_precision default_dynamic_specs = - 1"
  "sp_fill_data default_dynamic_specs = [CHR '' '', CHR 0x00, CHR 0x00, CHR 0x00]"
  by (simp_all add: default_dynamic_specs_def default_specs_def format_specs.defs dynamic_format_specs.defs getter_defs
      aligns_def kinds_def signs_def)

lemma getter_upd [simp]:
  "fill_size (s\<lparr>sp_fill_data := f\<rparr>) = fill_size s" "fill_size (s\<lparr>sp_width := w\<rparr>) = fill_size s"
  "fill_size (s\<lparr>sp_precision := p\<rparr>) = fill_size s" "sp_align (s\<lparr>sp_fill_data := f\<rparr>) = sp_align s"
  "sp_align (s\<lparr>sp_width := w\<rparr>) = sp_align s" "sp_align (s\<lparr>sp_precision := p\<rparr>) = sp_align s"
  "sp_type (s\<lparr>sp_fill_data := f\<rparr>) = sp_type s" "sp_type (s\<lparr>sp_width := w\<rparr>) = sp_type s"
  "sp_type (s\<lparr>sp_precision := p\<rparr>) = sp_type s" "sp_sign (s\<lparr>sp_fill_data := f\<rparr>) = sp_sign s"
  "sp_sign (s\<lparr>sp_width := w\<rparr>) = sp_sign s" "sp_sign (s\<lparr>sp_precision := p\<rparr>) = sp_sign s"
  "sp_alt (s\<lparr>sp_fill_data := f\<rparr>) = sp_alt s" "sp_alt (s\<lparr>sp_width := w\<rparr>) = sp_alt s"
  "sp_alt (s\<lparr>sp_precision := p\<rparr>) = sp_alt s" "sp_upper (s\<lparr>sp_fill_data := f\<rparr>) = sp_upper s"
  "sp_upper (s\<lparr>sp_width := w\<rparr>) = sp_upper s" "sp_upper (s\<lparr>sp_precision := p\<rparr>) = sp_upper s"
  "sp_localized (s\<lparr>sp_fill_data := f\<rparr>) = sp_localized s" "sp_localized (s\<lparr>sp_width := w\<rparr>) = sp_localized s"
  "sp_localized (s\<lparr>sp_precision := p\<rparr>) = sp_localized s"
  "dynamic_width (s\<lparr>sp_fill_data := f\<rparr>) = dynamic_width s" "dynamic_width (s\<lparr>sp_width := w\<rparr>) = dynamic_width s"
  "dynamic_width (s\<lparr>sp_precision := p\<rparr>) = dynamic_width s" "dynamic_precision (s\<lparr>sp_fill_data := f\<rparr>) = dynamic_precision s"
  "dynamic_precision (s\<lparr>sp_width := w\<rparr>) = dynamic_precision s" "dynamic_precision (s\<lparr>sp_precision := p\<rparr>) = dynamic_precision s"
  by (simp_all add: getter_defs)

lemma ref_upd [simp]:
  "fill_size (d\<lparr>sp_width_ref := r\<rparr>) = fill_size d" "fill_size (d\<lparr>sp_precision_ref := r\<rparr>) = fill_size d"
  "dynamic_width (d\<lparr>sp_width_ref := r\<rparr>) = dynamic_width d" "dynamic_width (d\<lparr>sp_precision_ref := r\<rparr>) = dynamic_width d"
  "dynamic_precision (d\<lparr>sp_width_ref := r\<rparr>) = dynamic_precision d"
  "dynamic_precision (d\<lparr>sp_precision_ref := r\<rparr>) = dynamic_precision d"
  by (simp_all add: getter_defs)

lemma ref_set [simp]:
  "sp_width_ref (set_type t d) = sp_width_ref d" "sp_precision_ref (set_type t d) = sp_precision_ref d"
  "sp_width_ref (set_align a d) = sp_width_ref d" "sp_precision_ref (set_align a d) = sp_precision_ref d"
  "sp_width_ref (set_dynamic_width k d) = sp_width_ref d" "sp_precision_ref (set_dynamic_width k d) = sp_precision_ref d"
  "sp_width_ref (set_dynamic_precision k d) = sp_width_ref d" "sp_precision_ref (set_dynamic_precision k d) = sp_precision_ref d"
  "sp_width_ref (set_sign x d) = sp_width_ref d" "sp_precision_ref (set_sign x d) = sp_precision_ref d"
  "sp_width_ref (set_upper d) = sp_width_ref d" "sp_precision_ref (set_upper d) = sp_precision_ref d"
  "sp_width_ref (set_alt d) = sp_width_ref d" "sp_precision_ref (set_alt d) = sp_precision_ref d"
  "sp_width_ref (set_localized d) = sp_width_ref d" "sp_precision_ref (set_localized d) = sp_precision_ref d"
  "sp_width_ref (set_fill_size n d) = sp_width_ref d" "sp_precision_ref (set_fill_size n d) = sp_precision_ref d"
  by (simp_all add: set_type_def set_align_def set_dynamic_width_def set_dynamic_precision_def set_sign_def set_upper_def
      set_alt_def set_localized_def set_fill_size_def)

end
