(* ===== verification/Fmt_Write.thy ===== *)
theory Fmt_Write
  imports Fmt_Escape Fmt_Specs
begin

text \<open>
  Writing arguments in \<open>spdlog/fmt/bundled/format.h\<close>: padding, integers in every base with their
  prefixes, digit grouping, chars, booleans, strings cut to a display width, and pointers.  A function
  returns the text that is appended; it is None where the code is undefined or fails an assertion.
\<close>

section \<open>Padding\<close>

definition to_unsigned :: "int \<Rightarrow> nat option" where
  "to_unsigned value = (if value < 0 then None else Some (nat value))"

text \<open>\<open>n\<close> times the fill.\<close>

definition fill :: "nat \<Rightarrow> 'a format_specs_scheme \<Rightarrow> string" where
  "fill n specs =
     (if fill_size specs = 1 then replicate n (sp_fill_data specs ! 0) else concat (replicate n (sp_fill specs)))"

text \<open>The shifts of the left padding by alignment, with the terminator of the literal at the end.\<close>

definition shifts :: "align \<Rightarrow> nat list" where
  "shifts default_align = (if default_align = align_left then [0x1f, 0x1f, 0x00, 0x01, 0x00] else [0x00, 0x1f, 0x00, 0x01, 0x00])"

definition write_padded :: "align \<Rightarrow> 'a format_specs_scheme \<Rightarrow> nat \<Rightarrow> string \<Rightarrow> string option" where
  "write_padded default_align specs width text = do {
     spec_width \<leftarrow> to_unsigned (sp_width specs);
     let padding = (if spec_width > width then spec_width - width else 0);
     let left_padding = drop_bit (shifts default_align ! unat (align_num (sp_align specs))) padding;
     let right_padding = padding - left_padding;
     Some ((if left_padding \<noteq> 0 then fill left_padding specs else []) @ text @
       (if right_padding \<noteq> 0 then fill right_padding specs else []))
   }"

definition write_bytes :: "align \<Rightarrow> string \<Rightarrow> 'a format_specs_scheme \<Rightarrow> string option" where
  "write_bytes default_align bytes specs = write_padded default_align specs (length bytes) bytes"

section \<open>Counting digits and digits in a buffer\<close>

text \<open>\<open>count_digits\<close> of a number of \<open>w\<close> bits, and the loop and the shortcut of its version for a base.\<close>

definition count_digits :: "nat \<Rightarrow> nat \<Rightarrow> nat" where
  "count_digits w n =
     (if w = 32 then do_count_digits_32 n else if w = 64 then do_count_digits_64 n else count_digits_fallback n 1)"

function count_base_loop :: "nat \<Rightarrow> nat \<Rightarrow> nat \<Rightarrow> nat" where
  "count_base_loop bits m num_digits =
     (if bits = 0 then num_digits
      else if drop_bit bits m \<noteq> 0 then count_base_loop bits (drop_bit bits m) (num_digits + 1) else num_digits + 1)"
  by pat_completeness auto
termination
proof (relation "measure (\<lambda>(b, m, n). m)", goal_cases)
  case (2 bits m n)
  then have "drop_bit bits m < m" by (simp add: drop_bit_eq_div div_greater_zero_iff) (auto intro!: div_less_dividend gr0I one_less_power)
  then show ?case by simp
qed simp

declare count_base_loop.simps [simp del]

definition count_digits_base :: "nat \<Rightarrow> nat \<Rightarrow> nat \<Rightarrow> nat" where
  "count_digits_base bits w n =
     (if w = 32 then (builtin_clz 32 (n OR 1) XOR 31) div bits + 1 else count_base_loop bits n 0)"

text \<open>Formatting into a buffer of exactly \<open>num_digits\<close> chars.\<close>

definition format_decimal :: "nat \<Rightarrow> nat \<Rightarrow> string option" where
  "format_decimal v num_digits = map_option snd (do_format_decimal (replicate num_digits (CHR 0x00)) v num_digits)"

definition format_base2e :: "nat \<Rightarrow> nat \<Rightarrow> nat \<Rightarrow> bool \<Rightarrow> string option" where
  "format_base2e base_bits v num_digits upper =
     map_option snd (do_format_base2e base_bits (replicate num_digits (CHR 0x00)) v num_digits upper)"

section \<open>Pointers and chars\<close>

definition write_ptr :: "nat \<Rightarrow> 'a format_specs_scheme \<Rightarrow> string option" where
  "write_ptr v specs = do {
     let num_digits = count_digits_base 4 64 v;
     ds \<leftarrow> format_base2e 4 v num_digits False;
     write_padded align_right specs (num_digits + 2) (''0x'' @ ds)
   }"

definition write_char :: "char \<Rightarrow> 'a format_specs_scheme \<Rightarrow> string option" where
  "write_char v specs = do {
     text \<leftarrow> (if sp_type specs = pres_debug then write_escaped_char v else Some [v]);
     write_padded align_left specs 1 text
   }"

section \<open>Integers\<close>

text \<open>The prefix: up to three chars in the low bytes, their number in the high byte.\<close>

definition prefix_append :: "u32 \<Rightarrow> u32 \<Rightarrow> u32" where
  "prefix_append prefix value =
     (let prefix = prefix OR (if prefix \<noteq> 0 then push_bit 8 value else value)
      in prefix + push_bit 24 (1 + (if value > 0xff then 1 else 0)))"

function prefix_loop :: "u32 \<Rightarrow> string" where
  "prefix_loop p = (if p \<noteq> 0 then char_of (unat (p AND 0xff)) # prefix_loop (drop_bit 8 p) else [])"
  by pat_completeness auto
termination
proof (relation "measure unat", goal_cases)
  case (2 p)
  then have "0 < unat p" by (simp add: unat_gt_0)
  moreover have "unat (drop_bit 8 p) = unat p div 256" by (simp only: unat_drop_bit_eq) (simp add: drop_bit_eq_div)
  ultimately show ?case by simp
qed simp

declare prefix_loop.simps [simp del]

definition prefix_text :: "u32 \<Rightarrow> string" where
  "prefix_text prefix = prefix_loop (prefix AND 0xffffff)"

definition prefix_size :: "u32 \<Rightarrow> nat" where
  "prefix_size prefix = unat (drop_bit 24 prefix)"

record write_int_arg =
  wi_abs_value :: nat
  wi_prefix :: u32

definition sign_prefixes :: "u32 list" where
  "sign_prefixes = [0, 0, 0x1000000 OR of_nat (of_char (CHR ''+'')), 0x1000000 OR of_nat (of_char (CHR '' ''))]"

definition make_write_int_arg :: "nat \<Rightarrow> int \<Rightarrow> sign \<Rightarrow> write_int_arg" where
  "make_write_int_arg w value s =
     (let abs_value = nat (value mod 2 ^ w)
      in if value < 0 then \<lparr>wi_abs_value = nat ((0 - int abs_value) mod 2 ^ w), wi_prefix = 0x01000000 OR of_nat (of_char (CHR ''-''))\<rparr>
         else \<lparr>wi_abs_value = abs_value, wi_prefix = sign_prefixes ! unat (sign_num s)\<rparr>)"

text \<open>The size with the numeric padding, and the padding.\<close>

definition size_padding :: "nat \<Rightarrow> u32 \<Rightarrow> 'a format_specs_scheme \<Rightarrow> (nat \<times> nat) option" where
  "size_padding num_digits prefix specs =
     (let sz = prefix_size prefix + num_digits
      in if sp_align specs = align_numeric then do {
           width \<leftarrow> to_unsigned (sp_width specs);
           Some (if width > sz then (width, width - sz) else (sz, 0))
         }
         else if sp_precision specs > int num_digits then do {
           p \<leftarrow> to_unsigned (sp_precision specs);
           q \<leftarrow> to_unsigned (sp_precision specs - int num_digits);
           Some (prefix_size prefix + p, q)
         }
         else Some (sz, 0))"

definition base_prefix :: "char \<Rightarrow> u32" where
  "base_prefix c = push_bit 8 (of_nat (of_char c)) OR of_nat (of_char (CHR ''0''))"

text \<open>The digits of an integer of \<open>w\<close> bits by the presentation, in a buffer of \<open>w\<close> chars, and its prefix.\<close>

definition int_digits :: "nat \<Rightarrow> nat \<Rightarrow> u32 \<Rightarrow> 'a format_specs_scheme \<Rightarrow> (string \<times> u32) option" where
  "int_digits w abs_value prefix specs =
     (let buffer = replicate w (CHR 0x00)
      in if sp_type specs = pres_none \<or> sp_type specs = pres_dec then do {
           (begin, buf) \<leftarrow> do_format_decimal buffer abs_value w;
           Some (drop begin buf, prefix)
         }
         else if sp_type specs = pres_hex then do {
           (begin, buf) \<leftarrow> do_format_base2e 4 buffer abs_value w (sp_upper specs);
           Some (drop begin buf, if sp_alt specs then prefix_append prefix (base_prefix (if sp_upper specs then CHR ''X'' else CHR ''x'')) else prefix)
         }
         else if sp_type specs = pres_oct then do {
           (begin, buf) \<leftarrow> do_format_base2e 3 buffer abs_value w False;
           let num_digits = w - begin;
           Some (drop begin buf, if sp_alt specs \<and> sp_precision specs \<le> int num_digits \<and> abs_value \<noteq> 0
             then prefix_append prefix (of_nat (of_char (CHR ''0''))) else prefix)
         }
         else if sp_type specs = pres_bin then do {
           (begin, buf) \<leftarrow> do_format_base2e 1 buffer abs_value w False;
           Some (drop begin buf, if sp_alt specs then prefix_append prefix (base_prefix (if sp_upper specs then CHR ''B'' else CHR ''b'')) else prefix)
         }
         else None)"

definition write_int :: "nat \<Rightarrow> write_int_arg \<Rightarrow> 'a format_specs_scheme \<Rightarrow> string option" where
  "write_int w arg specs =
     (if sp_type specs = pres_chr then write_char (char_of (wi_abs_value arg)) specs
      else do {
        (ds, prefix) \<leftarrow> int_digits w (wi_abs_value arg) (wi_prefix arg) specs;
        (if sp_width specs = 0 \<and> sp_precision specs = - 1 then Some (prefix_text prefix @ ds)
         else do {
           (sz, padding) \<leftarrow> size_padding (length ds) prefix specs;
           write_padded align_right specs sz (prefix_text prefix @ replicate padding (CHR ''0'') @ ds)
         })
      })"

text \<open>The default format of an integer.\<close>

definition write_default_int :: "nat \<Rightarrow> int \<Rightarrow> string option" where
  "write_default_int w value = do {
     let abs_value = nat (value mod 2 ^ w);
     let abs_value = (if value < 0 then nat ((- 1 - int abs_value) mod 2 ^ w + 1) mod 2 ^ w else abs_value);
     ds \<leftarrow> format_decimal abs_value (count_digits w abs_value);
     Some ((if value < 0 then ''-'' else []) @ ds)
   }"

section \<open>Digit grouping\<close>

text \<open>
  The separator and the groups of a locale: \<open>format_facet\<close>.  \<open>numpunct\<close> of the C++ library gives the
  groups and the char of the separator.
\<close>

record format_facet =
  ff_separator :: string
  ff_grouping :: string

definition make_format_facet :: "string \<Rightarrow> char \<Rightarrow> format_facet" where
  "make_format_facet grouping thousands_sep =
     \<lparr>ff_separator = (if grouping \<noteq> [] then [thousands_sep] else []), ff_grouping = grouping\<rparr>"

definition schar :: "char \<Rightarrow> int" where
  "schar c = (let n = of_char c in if n < 128 then int n else int n - 256)"

text \<open>The next separator position and the state: the index into the groups and the position.\<close>

definition grouping_next :: "format_facet \<Rightarrow> nat \<times> int \<Rightarrow> (int \<times> (nat \<times> int)) option" where
  "grouping_next f st =
     (let (group, pos) = st; gs = ff_grouping f
      in if ff_separator f = [] then Some (2 ^ 31 - 1, st)
         else if group \<ge> length gs then
           (if gs = [] then None else do { p \<leftarrow> int_op (pos + schar (List.last gs)); Some (p, (group, p)) })
         else if schar (gs ! group) \<le> 0 \<or> schar (gs ! group) = 127 then Some (2 ^ 31 - 1, st)
         else do { p \<leftarrow> int_op (pos + schar (gs ! group)); Some (p, (group + 1, p)) })"

text \<open>The loops with fuel; \<open>num_digits + 1\<close> is enough, since positions grow.\<close>

fun count_separators_loop :: "nat \<Rightarrow> format_facet \<Rightarrow> int \<Rightarrow> nat \<times> int \<Rightarrow> nat option" where
  "count_separators_loop 0 f num_digits st = None"
| "count_separators_loop (Suc k) f num_digits st = do {
     (i, st') \<leftarrow> grouping_next f st;
     (if num_digits > i then map_option Suc (count_separators_loop k f num_digits st') else Some 0)
   }"

definition count_separators :: "format_facet \<Rightarrow> nat \<Rightarrow> nat option" where
  "count_separators f num_digits = count_separators_loop (num_digits + 1) f (int num_digits) (0, 0)"

fun separators_loop :: "nat \<Rightarrow> format_facet \<Rightarrow> int \<Rightarrow> nat \<times> int \<Rightarrow> int list option" where
  "separators_loop 0 f num_digits st = None"
| "separators_loop (Suc k) f num_digits st = do {
     (i, st') \<leftarrow> grouping_next f st;
     (if i = 0 \<or> i \<ge> num_digits then Some [] else map_option (Cons i) (separators_loop k f num_digits st'))
   }"

text \<open>The digits with the separators; the positions are read from the last one.\<close>

fun grouping_loop :: "string \<Rightarrow> int list \<Rightarrow> string \<Rightarrow> string option" where
  "grouping_loop sep separators [] = Some []"
| "grouping_loop sep [] (d # ds) = None"
| "grouping_loop sep (p # ps) (d # ds) =
     (if int (length (d # ds)) = p then map_option (\<lambda>t. sep @ d # t) (grouping_loop sep ps ds)
      else map_option (Cons d) (grouping_loop sep (p # ps) ds))"

definition grouping_apply :: "format_facet \<Rightarrow> string \<Rightarrow> string option" where
  "grouping_apply f ds = do {
     separators \<leftarrow> separators_loop (length ds + 1) f (int (length ds)) (0, 0);
     grouping_loop (ff_separator f) (rev (0 # separators)) ds
   }"

text \<open>The digits of an integer for the locale, and its prefix.\<close>

definition loc_digits :: "nat \<Rightarrow> nat \<Rightarrow> u32 \<Rightarrow> 'a format_specs_scheme \<Rightarrow> (string \<times> u32) option" where
  "loc_digits w v prefix specs =
     (if sp_type specs = pres_none \<or> sp_type specs = pres_dec then do {
        d \<leftarrow> format_decimal v (count_digits w v);
        Some (d, prefix)
      }
      else if sp_type specs = pres_hex then do {
        d \<leftarrow> format_base2e 4 v (count_digits_base 4 w v) (sp_upper specs);
        Some (d, if sp_alt specs then prefix_append prefix (base_prefix (if sp_upper specs then CHR ''X'' else CHR ''x'')) else prefix)
      }
      else if sp_type specs = pres_oct then do {
        let num_digits = count_digits_base 3 w v;
        d \<leftarrow> format_base2e 3 v num_digits False;
        Some (d, if sp_alt specs \<and> sp_precision specs \<le> int num_digits \<and> v \<noteq> 0
          then prefix_append prefix (of_nat (of_char (CHR ''0''))) else prefix)
      }
      else if sp_type specs = pres_bin then do {
        d \<leftarrow> format_base2e 1 v (count_digits_base 1 w v) False;
        Some (d, if sp_alt specs then prefix_append prefix (base_prefix (if sp_upper specs then CHR ''B'' else CHR ''b'')) else prefix)
      }
      else None)"

definition write_int_grouped :: "nat \<Rightarrow> nat \<Rightarrow> u32 \<Rightarrow> 'a format_specs_scheme \<Rightarrow> format_facet \<Rightarrow> string option" where
  "write_int_grouped w v prefix specs f =
     (if sp_type specs = pres_chr then write_char (char_of v) specs
      else do {
        (ds, prefix) \<leftarrow> loc_digits w v prefix specs;
        n \<leftarrow> count_separators f (length ds);
        text \<leftarrow> grouping_apply f ds;
        write_padded align_right specs (prefix_size prefix + length ds + n) (prefix_text prefix @ text)
      })"

text \<open>
  An integer of \<open>w\<close> bits under the specifications: \<open>loc_writer\<close> at 64 bits at least when the format is
  localized, \<open>write_int\<close> otherwise.
\<close>

definition write_integer :: "nat \<Rightarrow> int \<Rightarrow> 'a format_specs_scheme \<Rightarrow> format_facet \<Rightarrow> string option" where
  "write_integer w value specs f =
     (let arg = make_write_int_arg w value (sp_sign specs)
      in if sp_localized specs then write_int_grouped (max 64 w) (wi_abs_value arg) (wi_prefix arg) specs f
         else write_int w arg specs)"

section \<open>Booleans and chars\<close>

definition write_bool :: "bool \<Rightarrow> 'a format_specs_scheme \<Rightarrow> format_facet \<Rightarrow> string option" where
  "write_bool value specs f =
     (if sp_type specs \<noteq> pres_none \<and> sp_type specs \<noteq> pres_string then write_integer 32 (if value then 1 else 0) specs f
      else write_bytes align_left (if value then ''true'' else ''false'') specs)"

definition check_char_specs :: "'a format_specs_scheme \<Rightarrow> bool fres" where
  "check_char_specs specs =
     (if sp_type specs \<noteq> pres_none \<and> sp_type specs \<noteq> pres_chr \<and> sp_type specs \<noteq> pres_debug then ok False
      else if sp_align specs = align_numeric \<or> sp_sign specs \<noteq> sign_none \<or> sp_alt specs
      then report_error ''invalid format specifier for char'' else ok True)"

definition write_char_value :: "char \<Rightarrow> 'a format_specs_scheme \<Rightarrow> format_facet \<Rightarrow> string fres" where
  "write_char_value c specs f =
     andthen (check_char_specs specs) (\<lambda>as_char.
       nothrow (if as_char then write_char c specs else write_integer 32 (of_char c) specs f))"

section \<open>Strings\<close>

text \<open>The display width and the size of what fits; the function of \<open>for_each_codepoint\<close>.\<close>

definition measure_cp :: "string \<Rightarrow> bool \<Rightarrow> nat \<Rightarrow> (nat \<times> nat) option cp_fun" where
  "measure_cp s is_debug limit cp p n st =
     (case st of
        None \<Rightarrow> (None, False)
      | Some (width, sz) \<Rightarrow>
          (let at_end = (p + n = length s)
           in case (if is_debug then needs_escape cp else Some False) of
                None \<Rightarrow> (None, False)
              | Some True \<Rightarrow>
                  (case write_escaped_cp (take n (drop p s)) cp of
                     None \<Rightarrow> (None, False)
                   | Some buf \<Rightarrow>
                       (let cp_width = length buf
                        in if width + cp_width \<le> limit then
                             (let width = width + cp_width; sz = sz + cp_width
                              in (if width < limit \<and> at_end then Some (width + 1, sz + 1) else Some (width, sz), True))
                           else (Some (limit, sz + (limit - width)), False)))
              | Some False \<Rightarrow>
                  (let cp_width = display_width_of cp
                   in if cp_width + width \<le> limit then
                        (let width = width + cp_width; sz = sz + n
                         in (if is_debug \<and> width < limit \<and> at_end then Some (width + 1, sz + 1) else Some (width, sz), True))
                      else (Some (width, sz), False))))"

definition write_string :: "string \<Rightarrow> 'a format_specs_scheme \<Rightarrow> string option" where
  "write_string s specs =
     (let is_debug = (sp_type specs = pres_debug)
      in if sp_precision specs < 0 \<and> sp_width specs = 0 then (if is_debug then write_escaped_string s else Some s)
         else do {
           limit \<leftarrow> (if sp_precision specs < 0 then Some (2 ^ 64 - 1) else to_unsigned (sp_precision specs));
           let start = (if \<not> is_debug \<or> sp_precision specs = 0 then 0 else 1);
           measured \<leftarrow> for_each_codepoint (measure_cp s is_debug limit) s (Some (start, start));
           (width, sz) \<leftarrow> measured;
           text \<leftarrow> (if is_debug then map_option (take sz) (write_escaped_string s) else Some (take sz s));
           write_padded align_left specs width text
         })"

text \<open>A C string is an address, null or not, and the text up to its terminator.\<close>

definition write_cstring :: "nat \<Rightarrow> string \<Rightarrow> 'a format_specs_scheme \<Rightarrow> string fres" where
  "write_cstring addr s specs =
     (if sp_type specs = pres_pointer then nothrow (write_ptr addr specs)
      else if addr = 0 then report_error ''string pointer is null''
      else nothrow (write_string s specs))"

end
