(* ===== verification/Fmt_Args.thy ===== *)
theory Fmt_Args
  imports Fmt_Write
begin

text \<open>
  The arguments of a formatting call: \<open>basic_format_arg\<close> and \<open>basic_format_args\<close> of
  \<open>spdlog/fmt/bundled/base.h\<close> with the types packed into a descriptor, and the visitors of
  \<open>format.h\<close>.  Arguments of floating-point and user-defined types are not modelled.
\<close>

section \<open>Arguments\<close>

datatype fmt_arg = No_arg
  | Int_arg u32
  | Uint_arg u32
  | Long_long_arg u64
  | Ulong_long_arg u64
  | Int128_arg "128 word"
  | Uint128_arg "128 word"
  | Bool_arg bool
  | Char_arg char
  | Cstring_arg u64 string
  | String_arg string
  | Pointer_arg u64

fun arg_type :: "fmt_arg \<Rightarrow> fmt_type" where
  "arg_type No_arg = none_type"
| "arg_type (Int_arg v) = int_type"
| "arg_type (Uint_arg v) = uint_type"
| "arg_type (Long_long_arg v) = long_long_type"
| "arg_type (Ulong_long_arg v) = ulong_long_type"
| "arg_type (Int128_arg v) = int128_type"
| "arg_type (Uint128_arg v) = uint128_type"
| "arg_type (Bool_arg v) = bool_type"
| "arg_type (Char_arg v) = char_type"
| "arg_type (Cstring_arg a v) = cstring_type"
| "arg_type (String_arg v) = string_type"
| "arg_type (Pointer_arg v) = pointer_type"

text \<open>The descriptor holds the types of at most fifteen arguments, or their number; and whether there are names.\<close>

definition packed_arg_bits :: nat where
  "packed_arg_bits = 4"

definition max_packed_args :: nat where
  "max_packed_args = 62 div packed_arg_bits"

definition is_unpacked_bit :: u64 where
  "is_unpacked_bit = push_bit 63 1"

definition has_named_args_bit :: u64 where
  "has_named_args_bit = push_bit 62 1"

fun encode_types :: "fmt_arg list \<Rightarrow> u64" where
  "encode_types [] = 0"
| "encode_types (a # rest) = of_nat (type_num (arg_type a)) OR push_bit packed_arg_bits (encode_types rest)"

definition make_descriptor :: "fmt_arg list \<Rightarrow> u64" where
  "make_descriptor args =
     (if length args \<le> max_packed_args then encode_types args else is_unpacked_bit OR of_nat (length args))"

record format_args =
  fa_desc :: u64
  fa_args :: "fmt_arg list"
  fa_named :: "(string \<times> int) list"

definition make_format_args :: "fmt_arg list \<Rightarrow> (string \<times> int) list \<Rightarrow> format_args" where
  "make_format_args args named =
     \<lparr>fa_desc = make_descriptor args OR (if named \<noteq> [] then has_named_args_bit else 0), fa_args = args, fa_named = named\<rparr>"

definition is_packed :: "format_args \<Rightarrow> bool" where
  "is_packed fa \<longleftrightarrow> fa_desc fa AND is_unpacked_bit = 0"

definition has_named_args :: "format_args \<Rightarrow> bool" where
  "has_named_args fa \<longleftrightarrow> fa_desc fa AND has_named_args_bit \<noteq> 0"

definition packed_type :: "format_args \<Rightarrow> nat \<Rightarrow> nat" where
  "packed_type fa index = unat (drop_bit (index * packed_arg_bits) (fa_desc fa) AND (push_bit packed_arg_bits 1 - 1))"

definition args_max_size :: "format_args \<Rightarrow> int" where
  "args_max_size fa =
     sint (ucast (if is_packed fa then of_nat max_packed_args else fa_desc fa AND NOT is_unpacked_bit :: u64) :: u32)"

text \<open>
  An argument by its id.  Reading outside the array is undefined; of a packed argument the type comes from
  the descriptor and the value from the array.
\<close>

definition arg_at :: "format_args \<Rightarrow> int \<Rightarrow> fmt_arg option" where
  "arg_at fa i = (if 0 \<le> i \<and> nat i < length (fa_args fa) then Some (fa_args fa ! nat i) else None)"

definition get_arg :: "format_args \<Rightarrow> int \<Rightarrow> fmt_arg option" where
  "get_arg fa i =
     (if \<not> is_packed fa then (if i < args_max_size fa then arg_at fa i else Some No_arg)
      else if (word_of_int i :: u32) \<ge> of_nat max_packed_args then Some No_arg
      else if packed_type fa (nat i) = type_num none_type then Some No_arg
      else do {
        a \<leftarrow> arg_at fa i;
        (if packed_type fa (nat i) = type_num (arg_type a) then Some a else None)
      })"

definition get_id :: "format_args \<Rightarrow> string \<Rightarrow> int" where
  "get_id fa name =
     (if \<not> has_named_args fa then - 1
      else (case map_of (fa_named fa) name of None \<Rightarrow> - 1 | Some i \<Rightarrow> i))"

definition get_named :: "format_args \<Rightarrow> string \<Rightarrow> fmt_arg option" where
  "get_named fa name = (let i = get_id fa name in if i \<ge> 0 then get_arg fa i else Some No_arg)"

section \<open>Visitors\<close>

text \<open>\<open>default_arg_formatter\<close>, for a replacement field without specifications.\<close>

fun default_arg_formatter :: "fmt_arg \<Rightarrow> string fres" where
  "default_arg_formatter No_arg = report_error ''argument not found''"
| "default_arg_formatter (Int_arg v) = nothrow (write_default_int 32 (sint v))"
| "default_arg_formatter (Uint_arg v) = nothrow (write_default_int 32 (uint v))"
| "default_arg_formatter (Long_long_arg v) = nothrow (write_default_int 64 (sint v))"
| "default_arg_formatter (Ulong_long_arg v) = nothrow (write_default_int 64 (uint v))"
| "default_arg_formatter (Int128_arg v) = nothrow (write_default_int 128 (sint v))"
| "default_arg_formatter (Uint128_arg v) = nothrow (write_default_int 128 (uint v))"
| "default_arg_formatter (Bool_arg v) = nothrow (write_bool v default_specs \<lparr>ff_separator = [], ff_grouping = []\<rparr>)"
| "default_arg_formatter (Char_arg v) = ok [v]"
| "default_arg_formatter (Cstring_arg a v) = (if a \<noteq> 0 then ok v else report_error ''string pointer is null'')"
| "default_arg_formatter (String_arg v) = ok v"
| "default_arg_formatter (Pointer_arg v) = nothrow (write_ptr (unat v) default_specs)"

text \<open>
  \<open>arg_formatter\<close>, with the facet of the global locale of C++, which is used when no locale is passed.
\<close>

fun arg_formatter :: "fmt_arg \<Rightarrow> 'a format_specs_scheme \<Rightarrow> format_facet \<Rightarrow> string fres" where
  "arg_formatter No_arg specs f = None"
| "arg_formatter (Int_arg v) specs f = nothrow (write_integer 32 (sint v) specs f)"
| "arg_formatter (Uint_arg v) specs f = nothrow (write_integer 32 (uint v) specs f)"
| "arg_formatter (Long_long_arg v) specs f = nothrow (write_integer 64 (sint v) specs f)"
| "arg_formatter (Ulong_long_arg v) specs f = nothrow (write_integer 64 (uint v) specs f)"
| "arg_formatter (Int128_arg v) specs f = nothrow (write_integer 128 (sint v) specs f)"
| "arg_formatter (Uint128_arg v) specs f = nothrow (write_integer 128 (uint v) specs f)"
| "arg_formatter (Bool_arg v) specs f = nothrow (write_bool v specs f)"
| "arg_formatter (Char_arg v) specs f = write_char_value v specs f"
| "arg_formatter (Cstring_arg a v) specs f = write_cstring (unat a) v specs"
| "arg_formatter (String_arg v) specs f = nothrow (write_string v specs)"
| "arg_formatter (Pointer_arg v) specs f = nothrow (write_ptr (unat v) specs)"

text \<open>\<open>dynamic_spec_getter\<close>: an unsigned long long, all ones for a negative number; 128 bits are cut to 64.\<close>

definition spec_of_int :: "int \<Rightarrow> u64" where
  "spec_of_int value = (if value < 0 then - 1 else word_of_int value)"

fun dynamic_spec_getter :: "fmt_arg \<Rightarrow> u64 fres" where
  "dynamic_spec_getter (Int_arg v) = ok (spec_of_int (sint v))"
| "dynamic_spec_getter (Uint_arg v) = ok (spec_of_int (uint v))"
| "dynamic_spec_getter (Long_long_arg v) = ok (spec_of_int (sint v))"
| "dynamic_spec_getter (Ulong_long_arg v) = ok (spec_of_int (uint v))"
| "dynamic_spec_getter (Int128_arg v) = ok (spec_of_int (sint v))"
| "dynamic_spec_getter (Uint128_arg v) = ok (spec_of_int (uint v))"
| "dynamic_spec_getter _ = report_error ''width/precision is not integer''"

text \<open>The new value of a width or precision.\<close>

definition handle_dynamic_spec :: "arg_id_kind \<Rightarrow> int \<Rightarrow> arg_ref \<Rightarrow> format_args \<Rightarrow> int fres" where
  "handle_dynamic_spec kind value ref fa =
     (if kind = kind_none then ok value
      else andthen (nothrow (case (kind, ref) of
          (kind_index, Arg_index i) \<Rightarrow> get_arg fa i
        | (kind_name, Arg_name n) \<Rightarrow> get_named fa n
        | _ \<Rightarrow> None)) (\<lambda>arg.
        if arg = No_arg then report_error ''argument not found''
        else andthen (dynamic_spec_getter arg) (\<lambda>result.
          if result > 2 ^ 31 - 1 then report_error ''width/precision is out of range''
          else ok (uint result))))"

end
