(* ===== verification/Fmt_Parse.thy ===== *)
theory Fmt_Parse
  imports Fmt_Specs
begin

text \<open>
  The parser of \<open>spdlog/fmt/bundled/base.h\<close>: numbers, argument ids, and the specifications of one
  replacement field, with the counter of automatic argument ids.
\<close>

section \<open>The parse context\<close>

text \<open>
  The next automatic id, negative after a manual one; and for the checks of a constant evaluation the
  number of arguments and their types.
\<close>

record parse_context =
  pc_next_arg_id :: int
  pc_check :: "(int \<times> fmt_type list) option"

definition do_check_arg_id :: "parse_context \<Rightarrow> int \<Rightarrow> unit fres" where
  "do_check_arg_id ctx arg_id =
     (case pc_check ctx of
        None \<Rightarrow> ok ()
      | Some (num_args, types) \<Rightarrow> if arg_id \<ge> num_args then report_error ''argument not found'' else ok ())"

definition next_arg_id :: "parse_context \<Rightarrow> (int \<times> parse_context) fres" where
  "next_arg_id ctx =
     (if pc_next_arg_id ctx < 0 then report_error ''cannot switch from manual to automatic argument indexing''
      else (let id = pc_next_arg_id ctx
        in andthen (nothrow (int_op (id + 1))) (\<lambda>next.
           andthen (do_check_arg_id ctx id) (\<lambda>_. ok (id, ctx\<lparr>pc_next_arg_id := next\<rparr>)))))"

definition check_arg_id :: "int \<Rightarrow> parse_context \<Rightarrow> parse_context fres" where
  "check_arg_id arg_id ctx =
     (if pc_next_arg_id ctx > 0 then report_error ''cannot switch from automatic to manual argument indexing''
      else andthen (do_check_arg_id ctx arg_id) (\<lambda>_. ok (ctx\<lparr>pc_next_arg_id := - 1\<rparr>)))"

definition check_arg_id_name :: "parse_context \<Rightarrow> parse_context" where
  "check_arg_id_name ctx = ctx\<lparr>pc_next_arg_id := - 1\<rparr>"

definition check_dynamic_spec :: "int \<Rightarrow> parse_context \<Rightarrow> unit fres" where
  "check_dynamic_spec arg_id ctx =
     (case pc_check ctx of
        None \<Rightarrow> ok ()
      | Some (num_args, types) \<Rightarrow>
          if arg_id < num_args \<and> \<not> is_integral_type (types ! nat arg_id)
          then report_error ''width/precision is not integer'' else ok ())"

section \<open>Numbers and ids\<close>

definition is_digit :: "char \<Rightarrow> bool" where
  "is_digit c \<longleftrightarrow> c \<in> set ''0123456789''"

definition is_name_start :: "char \<Rightarrow> bool" where
  "is_name_start c \<longleftrightarrow> (let n = of_char c :: nat in 97 \<le> n \<and> n \<le> 122 \<or> 65 \<le> n \<and> n \<le> 90 \<or> c = CHR ''_'')"

definition digit_u32 :: "char \<Rightarrow> u32" where
  "digit_u32 c = of_nat (of_char c) - of_nat (of_char (CHR ''0''))"

text \<open>The loop of \<open>parse_nonnegative_int\<close>: \<open>prev\<close>, \<open>value\<close>, the char before \<open>p\<close> and \<open>p\<close>, with the chars read.\<close>

fun int_loop :: "u32 \<Rightarrow> u32 \<Rightarrow> char \<Rightarrow> string \<Rightarrow> nat \<Rightarrow> (u32 \<times> u32 \<times> char \<times> string \<times> nat)" where
  "int_loop prev value c [] n = (prev, value, c, [], n)"
| "int_loop prev value c (d # p) n =
     (if is_digit d then int_loop value (value * 10 + digit_u32 d) d p (n + 1) else (prev, value, c, d # p, n))"

definition parse_nonnegative_int :: "string \<Rightarrow> int \<Rightarrow> (int \<times> string) option" where
  "parse_nonnegative_int begin error_value =
     (case begin of
        [] \<Rightarrow> None
      | c # p \<Rightarrow>
          if is_digit c then
            (let (prev, value, last, rest, num_digits) = int_loop 0 (digit_u32 c) c p 1;
                 digits10 = 32 * 3 div 10
             in Some (if num_digits \<le> digits10 then sint value
                      else if num_digits = digits10 + 1 \<and> (ucast prev * 10 + ucast (digit_u32 last) :: u64) \<le> 2 ^ 31 - 1
                      then sint value else error_value, rest))
          else None)"

definition parse_align :: "char \<Rightarrow> align" where
  "parse_align c =
     (if c = CHR ''<'' then align_left else if c = CHR ''>'' then align_right
      else if c = CHR ''^'' then align_center else align_none)"

text \<open>\<open>parse_arg_id\<close>: the id that the handler is called with, and the rest.\<close>

definition parse_arg_id :: "string \<Rightarrow> (arg_ref \<times> string) fres" where
  "parse_arg_id begin =
     (case begin of
        [] \<Rightarrow> None
      | c # p \<Rightarrow>
          if is_digit c then
            andthen (nothrow (if c \<noteq> CHR ''0'' then parse_nonnegative_int begin (2 ^ 31 - 1) else Some (0, p)))
              (\<lambda>(index, rest).
                 if rest = [] \<or> hd rest \<noteq> CHR ''}'' \<and> hd rest \<noteq> CHR '':'' then report_error ''invalid format string''
                 else ok (Arg_index index, rest))
          else if \<not> is_name_start c then report_error ''invalid format string''
          else (let f = (\<lambda>c. is_name_start c \<or> is_digit c) in ok (Arg_name (c # takeWhile f p), dropWhile f p)))"

section \<open>Width and precision\<close>

text \<open>\<open>dynamic_spec_handler\<close>: the reference, its kind and the checks.\<close>

definition on_dynamic_id :: "arg_ref \<Rightarrow> parse_context \<Rightarrow> (arg_id_kind \<times> parse_context) fres" where
  "on_dynamic_id ref ctx =
     (case ref of
        Arg_index i \<Rightarrow> andthen (check_arg_id i ctx) (\<lambda>ctx'.
          andthen (check_dynamic_spec i ctx') (\<lambda>_. ok (kind_index, ctx')))
      | Arg_name n \<Rightarrow> ok (kind_name, check_arg_id_name ctx))"

text \<open>\<open>parse_dynamic_spec\<close>: the rest, the kind, the value, the reference and the context.\<close>

definition parse_dynamic_spec ::
    "string \<Rightarrow> int \<Rightarrow> arg_ref \<Rightarrow> parse_context \<Rightarrow> (string \<times> arg_id_kind \<times> int \<times> arg_ref \<times> parse_context) fres" where
  "parse_dynamic_spec begin value ref ctx =
     (case begin of
        [] \<Rightarrow> None
      | c # p \<Rightarrow>
          if is_digit c then
            andthen (nothrow (parse_nonnegative_int begin (- 1))) (\<lambda>(val, rest).
              if val = - 1 then report_error ''number is too big'' else ok (rest, kind_none, val, ref, ctx))
          else if c = CHR ''{'' then
            andthen
              (case p of
                 [] \<Rightarrow> ok (p, kind_none, ref, ctx)
               | d # q \<Rightarrow>
                   if d = CHR ''}'' \<or> d = CHR '':'' then
                     andthen (next_arg_id ctx) (\<lambda>(id, ctx').
                     andthen (check_dynamic_spec id ctx') (\<lambda>_. ok (p, kind_index, Arg_index id, ctx')))
                   else
                     andthen (parse_arg_id p) (\<lambda>(id, rest).
                     andthen (on_dynamic_id id ctx) (\<lambda>(kind, ctx'). ok (rest, kind, id, ctx'))))
              (\<lambda>(rest, kind, ref', ctx').
                 if rest \<noteq> [] \<and> hd rest = CHR ''}'' then ok (tl rest, kind, value, ref', ctx')
                 else report_error ''invalid format string'')
          else report_error ''invalid format string'')"

definition parse_width ::
    "string \<Rightarrow> dynamic_format_specs \<Rightarrow> parse_context \<Rightarrow> (string \<times> dynamic_format_specs \<times> parse_context) fres" where
  "parse_width begin specs ctx =
     andthen (parse_dynamic_spec begin (sp_width specs) (sp_width_ref specs) ctx) (\<lambda>(rest, kind, value, ref, ctx').
       ok (rest, set_dynamic_width kind (specs\<lparr>sp_width := value, sp_width_ref := ref\<rparr>), ctx'))"

definition parse_precision ::
    "string \<Rightarrow> dynamic_format_specs \<Rightarrow> parse_context \<Rightarrow> (string \<times> dynamic_format_specs \<times> parse_context) fres" where
  "parse_precision begin specs ctx =
     (if tl begin = [] then report_error ''invalid precision''
      else andthen (parse_dynamic_spec (tl begin) (sp_precision specs) (sp_precision_ref specs) ctx)
        (\<lambda>(rest, kind, value, ref, ctx').
          ok (rest, set_dynamic_precision kind (specs\<lparr>sp_precision := value, sp_precision_ref := ref\<rparr>), ctx')))"

section \<open>Format specifications\<close>

datatype spec_state = st_start | st_align | st_sign | st_hash | st_zero | st_width | st_precision | st_locale

fun state_num :: "spec_state \<Rightarrow> nat" where
  "state_num st_start = 0"
| "state_num st_align = 1"
| "state_num st_sign = 2"
| "state_num st_hash = 3"
| "state_num st_zero = 4"
| "state_num st_width = 5"
| "state_num st_precision = 6"
| "state_num st_locale = 7"

definition enter_state :: "spec_state \<Rightarrow> spec_state \<Rightarrow> bool \<Rightarrow> spec_state fres" where
  "enter_state current s valid =
     (if state_num current \<ge> state_num s \<or> \<not> valid then report_error ''invalid format specifier'' else ok s)"

definition code_point_length :: "char \<Rightarrow> nat" where
  "code_point_length c = unat (drop_bit (2 * drop_bit 3 (of_char c)) (0x3a55000000000000 :: u64) AND 3) + 1"

text \<open>One pass of the loop of \<open>parse_format_specs\<close>: it returns, or goes on.\<close>

datatype spec_outcome = Spec_done string dynamic_format_specs parse_context
  | Spec_next spec_state string dynamic_format_specs parse_context

definition parse_presentation_type ::
    "fmt_type \<Rightarrow> nat \<Rightarrow> nat \<Rightarrow> string \<Rightarrow> dynamic_format_specs \<Rightarrow> parse_context \<Rightarrow> spec_outcome fres" where
  "parse_presentation_type arg_type pres types begin specs ctx =
     (if \<not> in_set arg_type types then report_error ''invalid format specifier''
      else ok (Spec_done (tl begin) (set_type pres specs) ctx))"

text \<open>The default case: the end of the field, or a fill of one code point before an alignment.\<close>

definition parse_fill ::
    "spec_state \<Rightarrow> string \<Rightarrow> dynamic_format_specs \<Rightarrow> parse_context \<Rightarrow> spec_outcome fres" where
  "parse_fill st begin specs ctx =
     (case begin of
        [] \<Rightarrow> None
      | b # _ \<Rightarrow>
          if b = CHR ''}'' then ok (Spec_done begin specs ctx)
          else (let n = code_point_length b
            in if length begin \<le> n then report_error ''invalid format specifier''
               else if b = CHR ''{'' then report_error (''invalid fill character '' @ [CHR 0x27, CHR ''{'', CHR 0x27])
               else (let alignment = parse_align (begin ! n)
                 in andthen (enter_state st st_align (alignment \<noteq> align_none)) (\<lambda>st'.
                    andthen (nothrow (set_fill (take n begin) specs)) (\<lambda>specs'.
                    ok (Spec_next st' (drop (n + 1) begin) (set_align alignment specs') ctx))))))"

definition specs_step ::
    "fmt_type \<Rightarrow> char \<Rightarrow> spec_state \<Rightarrow> string \<Rightarrow> dynamic_format_specs \<Rightarrow> parse_context \<Rightarrow> spec_outcome fres" where
  "specs_step arg_type c st begin specs ctx =
     (let presentation = (\<lambda>pres types specs. parse_presentation_type arg_type pres types begin specs ctx)
      in if c \<in> set ''<>^'' then
        andthen (enter_state st st_align True) (\<lambda>st'.
          ok (Spec_next st' (tl begin) (set_align (parse_align c) specs) ctx))
      else if c = CHR ''+'' \<or> c = CHR '' '' then
        (let specs' = set_sign (if c = CHR '' '' then sign_space else sign_plus) specs
         in andthen (enter_state st st_sign (in_set arg_type (sint_set OR float_set))) (\<lambda>st'.
              ok (Spec_next st' (tl begin) specs' ctx)))
      else if c = CHR ''-'' then
        andthen (enter_state st st_sign (in_set arg_type (sint_set OR float_set))) (\<lambda>st'.
          ok (Spec_next st' (tl begin) specs ctx))
      else if c = CHR ''#'' then
        andthen (enter_state st st_hash (is_arithmetic_type arg_type)) (\<lambda>st'.
          ok (Spec_next st' (tl begin) (set_alt specs) ctx))
      else if c = CHR ''0'' then
        andthen (enter_state st st_zero True) (\<lambda>st'.
          if \<not> is_arithmetic_type arg_type then report_error ''format specifier requires numeric argument''
          else (let specs' = (if sp_align specs = align_none then set_fill_char (CHR ''0'') (set_align align_numeric specs) else specs)
            in ok (Spec_next st' (tl begin) specs' ctx)))
      else if c \<in> set ''123456789{'' then
        andthen (enter_state st st_width True) (\<lambda>st'.
        andthen (parse_width begin specs ctx) (\<lambda>(rest, specs', ctx'). ok (Spec_next st' rest specs' ctx')))
      else if c = CHR ''.'' then
        andthen (enter_state st st_precision (in_set arg_type (float_set OR string_set OR cstring_set))) (\<lambda>st'.
        andthen (parse_precision begin specs ctx) (\<lambda>(rest, specs', ctx'). ok (Spec_next st' rest specs' ctx')))
      else if c = CHR ''L'' then
        andthen (enter_state st st_locale (is_arithmetic_type arg_type)) (\<lambda>st'.
          ok (Spec_next st' (tl begin) (set_localized specs) ctx))
      else if c = CHR ''d'' then presentation pres_dec integral_set specs
      else if c = CHR ''X'' then presentation pres_hex integral_set (set_upper specs)
      else if c = CHR ''x'' then presentation pres_hex integral_set specs
      else if c = CHR ''o'' then presentation pres_oct integral_set specs
      else if c = CHR ''B'' then presentation pres_bin integral_set (set_upper specs)
      else if c = CHR ''b'' then presentation pres_bin integral_set specs
      else if c = CHR ''E'' then presentation pres_exp float_set (set_upper specs)
      else if c = CHR ''e'' then presentation pres_exp float_set specs
      else if c = CHR ''F'' then presentation pres_fixed float_set (set_upper specs)
      else if c = CHR ''f'' then presentation pres_fixed float_set specs
      else if c = CHR ''G'' then presentation pres_general float_set (set_upper specs)
      else if c = CHR ''g'' then presentation pres_general float_set specs
      else if c = CHR ''A'' then presentation pres_hexfloat float_set (set_upper specs)
      else if c = CHR ''a'' then presentation pres_hexfloat float_set specs
      else if c = CHR ''c'' then
        (if arg_type = bool_type then report_error ''invalid format specifier'' else presentation pres_chr integral_set specs)
      else if c = CHR ''s'' then presentation pres_string (bool_set OR string_set OR cstring_set) specs
      else if c = CHR ''p'' then presentation pres_pointer (pointer_set OR cstring_set) specs
      else if c = CHR ''?'' then presentation pres_debug (char_set OR string_set OR cstring_set) specs
      else if c = CHR ''}'' then ok (Spec_done begin specs ctx)
      else parse_fill st begin specs ctx)"

text \<open>
  The loop of \<open>parse_format_specs\<close>: it ends since every pass that goes on enters a later state.
\<close>

lemma enter_state_num: "enter_state st s valid = Some (Inr st') \<longleftrightarrow> state_num st < state_num s \<and> valid \<and> st' = s"
  by (auto simp: enter_state_def)

lemma specs_step_forward:
  "specs_step arg_type c st begin specs ctx = Some (Inr (Spec_next st' b s x)) \<Longrightarrow> state_num st < state_num st'"
  by (auto simp: specs_step_def parse_presentation_type_def parse_fill_def Let_def andthen_Inr enter_state_num
      split: if_splits list.splits)

lemma state_num_le: "state_num st \<le> 7"
  by (cases st) simp_all

function specs_loop ::
    "fmt_type \<Rightarrow> char \<Rightarrow> spec_state \<Rightarrow> string \<Rightarrow> dynamic_format_specs \<Rightarrow> parse_context \<Rightarrow> (string \<times> dynamic_format_specs \<times> parse_context) fres" where
  "specs_loop arg_type c st begin specs ctx =
     andthen (specs_step arg_type c st begin specs ctx) (\<lambda>out.
       case out of
         Spec_done rest specs' ctx' \<Rightarrow> ok (rest, specs', ctx')
       | Spec_next st' rest specs' ctx' \<Rightarrow>
           if rest = [] then ok (rest, specs', ctx') else specs_loop arg_type (hd rest) st' rest specs' ctx')"
  by pat_completeness auto
termination
  by (relation "measure (\<lambda>(t, c, st, b, s, x). 8 - state_num st)")
    (auto dest!: specs_step_forward intro!: diff_less_mono2 intro: le_less_trans [OF state_num_le])

declare specs_loop.simps [simp del]

definition parse_format_specs ::
    "string \<Rightarrow> dynamic_format_specs \<Rightarrow> parse_context \<Rightarrow> fmt_type \<Rightarrow> (string \<times> dynamic_format_specs \<times> parse_context) fres" where
  "parse_format_specs begin specs ctx arg_type =
     (case begin of
        [] \<Rightarrow> ok (begin, specs, ctx)
      | b # next \<Rightarrow>
          (let c = (case next of [] \<Rightarrow> b | n # _ \<Rightarrow> if parse_align n = align_none then b else CHR 0x00)
           in specs_loop arg_type c st_start begin specs ctx))"

end
