(* ===== verification/Fmt_Format.thy ===== *)
theory Fmt_Format
  imports Fmt_Args Fmt_Parse
begin

text \<open>
  Format strings: the parser of replacement fields in \<open>spdlog/fmt/bundled/base.h\<close> with its handler, the
  handler that writes (\<open>format_handler\<close> of \<open>format.h\<close>), the one that checks a format string against the
  types of the arguments (\<open>format_string_checker\<close>), and \<open>vformat_to\<close>.
\<close>

section \<open>The parser\<close>

text \<open>
  A handler over a state: text, the three ways to name an argument, a field without specifications and one
  with them.  \<open>on_error\<close> throws in both handlers.
\<close>

record 'h handler =
  on_text :: "string \<Rightarrow> 'h \<Rightarrow> 'h fres"
  on_arg_id :: "'h \<Rightarrow> (int \<times> 'h) fres"
  on_arg_index :: "int \<Rightarrow> 'h \<Rightarrow> (int \<times> 'h) fres"
  on_arg_name :: "string \<Rightarrow> 'h \<Rightarrow> (int \<times> 'h) fres"
  on_replacement_field :: "int \<Rightarrow> string \<Rightarrow> 'h \<Rightarrow> 'h fres"
  on_format_specs :: "int \<Rightarrow> string \<Rightarrow> 'h \<Rightarrow> (string \<times> 'h) fres"

text \<open>A field from the colon on.\<close>

definition field_specs :: "'h handler \<Rightarrow> int \<Rightarrow> string \<Rightarrow> 'h \<Rightarrow> (string \<times> 'h) fres" where
  "field_specs H arg_id begin h =
     andthen (on_format_specs H arg_id (tl begin) h) (\<lambda>(rest, h).
       if rest = [] \<or> hd rest \<noteq> CHR ''}'' then report_error ''unknown format specifier''
       else ok (tl rest, h))"

definition parse_replacement_field :: "'h handler \<Rightarrow> string \<Rightarrow> 'h \<Rightarrow> (string \<times> 'h) fres" where
  "parse_replacement_field H begin h =
     (case tl begin of
        [] \<Rightarrow> report_error ''invalid format string''
      | c # b \<Rightarrow>
          if c = CHR ''}'' then
            andthen (on_arg_id H h) (\<lambda>(i, h).
            andthen (on_replacement_field H i (c # b) h) (\<lambda>h. ok (b, h)))
          else if c = CHR ''{'' then andthen (on_text H [c] h) (\<lambda>h. ok (b, h))
          else if c = CHR '':'' then andthen (on_arg_id H h) (\<lambda>(i, h). field_specs H i (c # b) h)
          else
            andthen (parse_arg_id (c # b)) (\<lambda>(ref, rest).
            andthen (case ref of Arg_index i \<Rightarrow> on_arg_index H i h | Arg_name n \<Rightarrow> on_arg_name H n h) (\<lambda>(i, h).
              if rest \<noteq> [] \<and> hd rest = CHR ''}'' then
                andthen (on_replacement_field H i rest h) (\<lambda>h. ok (tl rest, h))
              else if rest = [] \<or> hd rest \<noteq> CHR '':'' then report_error (''missing '' @ [CHR 0x27, CHR ''}'', CHR 0x27] @ '' in format string'')
              else field_specs H i rest h)))"

text \<open>The loop, with the start of the pending text and the place \<open>p\<close>; every pass takes a char at least.\<close>

fun parse_loop :: "nat \<Rightarrow> 'h handler \<Rightarrow> string \<Rightarrow> string \<Rightarrow> 'h \<Rightarrow> 'h fres" where
  "parse_loop 0 H begin p h = None"
| "parse_loop (Suc k) H begin [] h = on_text H begin h"
| "parse_loop (Suc k) H begin (c # p) h =
     (if c = CHR ''{'' then
        andthen (on_text H (take (length begin - length (c # p)) begin) h) (\<lambda>h.
        andthen (parse_replacement_field H (c # p) h) (\<lambda>(rest, h). parse_loop k H rest rest h))
      else if c = CHR ''}'' then
        (if p = [] \<or> hd p \<noteq> CHR ''}'' then report_error (''unmatched '' @ [CHR 0x27, CHR ''}'', CHR 0x27] @ '' in format string'')
         else andthen (on_text H (take (length begin - length p) begin) h) (\<lambda>h. parse_loop k H (tl p) (tl p) h))
      else parse_loop k H begin p h)"

definition parse_format_string :: "'h handler \<Rightarrow> string \<Rightarrow> 'h \<Rightarrow> 'h fres" where
  "parse_format_string H fmt h = parse_loop (length fmt + 1) H fmt fmt h"

section \<open>Writing\<close>

record run_state =
  rs_ctx :: parse_context
  rs_out :: string

definition append_out :: "run_state \<Rightarrow> string \<Rightarrow> run_state" where
  "append_out h t = h\<lparr>rs_out := rs_out h @ t\<rparr>"

text \<open>The specifications with the width and the precision read from arguments.\<close>

definition resolve_specs :: "dynamic_format_specs \<Rightarrow> format_args \<Rightarrow> dynamic_format_specs fres" where
  "resolve_specs specs fa =
     (if sp_dynamic specs then
        andthen (handle_dynamic_spec (dynamic_width specs) (sp_width specs) (sp_width_ref specs) fa) (\<lambda>w.
        andthen (handle_dynamic_spec (dynamic_precision specs) (sp_precision specs) (sp_precision_ref specs) fa) (\<lambda>p.
          ok (specs\<lparr>sp_width := w, sp_precision := p\<rparr>)))
      else ok specs)"

definition run_field :: "format_args \<Rightarrow> int \<Rightarrow> string \<Rightarrow> run_state \<Rightarrow> run_state fres" where
  "run_field fa i begin h =
     andthen (nothrow (get_arg fa i)) (\<lambda>arg.
     andthen (default_arg_formatter arg) (\<lambda>t. ok (append_out h t)))"

definition run_specs :: "format_args \<Rightarrow> format_facet \<Rightarrow> int \<Rightarrow> string \<Rightarrow> run_state \<Rightarrow> (string \<times> run_state) fres" where
  "run_specs fa f i begin h =
     andthen (nothrow (get_arg fa i)) (\<lambda>arg.
       if arg = No_arg then report_error ''argument not found''
       else
         andthen (parse_format_specs begin default_dynamic_specs (rs_ctx h) (arg_type arg)) (\<lambda>(rest, specs, ctx).
         andthen (resolve_specs specs fa) (\<lambda>specs.
         andthen (arg_formatter arg specs f) (\<lambda>t. ok (rest, append_out (h\<lparr>rs_ctx := ctx\<rparr>) t)))))"

definition format_handler :: "format_args \<Rightarrow> format_facet \<Rightarrow> run_state handler" where
  "format_handler fa f =
     \<lparr>on_text = (\<lambda>t h. ok (append_out h t)),
      on_arg_id = (\<lambda>h. andthen (next_arg_id (rs_ctx h)) (\<lambda>(i, ctx). ok (i, h\<lparr>rs_ctx := ctx\<rparr>))),
      on_arg_index = (\<lambda>i h. andthen (check_arg_id i (rs_ctx h)) (\<lambda>ctx. ok (i, h\<lparr>rs_ctx := ctx\<rparr>))),
      on_arg_name = (\<lambda>n h.
        let arg_id = get_id fa n
        in if arg_id < 0 then report_error ''argument not found''
           else ok (arg_id, h\<lparr>rs_ctx := check_arg_id_name (rs_ctx h)\<rparr>)),
      on_replacement_field = run_field fa,
      on_format_specs = run_specs fa f\<rparr>"

definition run_start :: run_state where
  "run_start = \<lparr>rs_ctx = \<lparr>pc_next_arg_id = 0, pc_check = None\<rparr>, rs_out = []\<rparr>"

definition vformat_to :: "string \<Rightarrow> format_args \<Rightarrow> format_facet \<Rightarrow> string fres" where
  "vformat_to fmt fa f =
     (if fmt = ''{}'' then andthen (nothrow (get_arg fa 0)) default_arg_formatter
      else andthen (parse_format_string (format_handler fa f) fmt run_start) (\<lambda>h. ok (rs_out h)))"

section \<open>Checking\<close>

text \<open>\<open>native_formatter::parse\<close> of an argument of type \<open>t\<close>.\<close>

definition native_parse :: "fmt_type \<Rightarrow> string \<Rightarrow> parse_context \<Rightarrow> (string \<times> parse_context) fres" where
  "native_parse t begin ctx =
     (if begin = [] \<or> hd begin = CHR ''}'' then ok (begin, ctx)
      else andthen (parse_format_specs begin default_dynamic_specs ctx t) (\<lambda>(rest, specs, ctx).
        andthen (if t = char_type then check_char_specs specs else ok True) (\<lambda>_. ok (rest, ctx))))"

text \<open>The end of a field of an argument whose type is not known.\<close>

fun skip_field :: "int \<Rightarrow> string \<Rightarrow> string" where
  "skip_field bracket_count [] = []"
| "skip_field bracket_count (c # s) =
     (if bracket_count > 0 \<or> c \<noteq> CHR ''}'' then
        skip_field (if c = CHR ''{'' then bracket_count + 1 else if c = CHR ''}'' then bracket_count - 1 else bracket_count) s
      else c # s)"

definition check_name :: "(string \<times> int) list \<Rightarrow> bool \<Rightarrow> string \<Rightarrow> parse_context \<Rightarrow> (int \<times> parse_context) fres" where
  "check_name named dynamic_names n ctx =
     (case map_of named n of
        Some i \<Rightarrow> ok (i, ctx)
      | None \<Rightarrow> if \<not> dynamic_names then report_error ''argument not found'' else ok (- 1, ctx))"

definition check_specs :: "fmt_type list \<Rightarrow> int \<Rightarrow> string \<Rightarrow> parse_context \<Rightarrow> (string \<times> parse_context) fres" where
  "check_specs types i begin ctx =
     (if i \<ge> 0 \<and> nat i < length types then native_parse (types ! nat i) begin ctx
      else ok (skip_field 0 begin, ctx))"

definition check_field :: "fmt_type list \<Rightarrow> int \<Rightarrow> string \<Rightarrow> parse_context \<Rightarrow> parse_context fres" where
  "check_field types i begin ctx =
     (if i \<ge> 0 \<and> nat i < length types
      then andthen (native_parse (types ! nat i) begin ctx) (\<lambda>(rest, ctx). ok ctx) else ok ctx)"

definition format_string_checker :: "fmt_type list \<Rightarrow> (string \<times> int) list \<Rightarrow> bool \<Rightarrow> parse_context handler" where
  "format_string_checker types named dynamic_names =
     \<lparr>on_text = (\<lambda>t ctx. ok ctx),
      on_arg_id = next_arg_id,
      on_arg_index = (\<lambda>i ctx. andthen (check_arg_id i ctx) (\<lambda>ctx. ok (i, ctx))),
      on_arg_name = check_name named dynamic_names,
      on_replacement_field = check_field types,
      on_format_specs = check_specs types\<rparr>"

definition check_format_string :: "string \<Rightarrow> fmt_type list \<Rightarrow> (string \<times> int) list \<Rightarrow> bool \<Rightarrow> parse_context fres" where
  "check_format_string fmt types named dynamic_names =
     parse_format_string (format_string_checker types named dynamic_names) fmt
       \<lparr>pc_next_arg_id = 0, pc_check = Some (int (length types), types)\<rparr>"

end
