(* ===== verification/Fmt_Parse_Facts.thy ===== *)
theory Fmt_Parse_Facts
  imports Fmt_Parse Fmt_Int
begin

text \<open>
  Facts about the parser of format specifications: it is defined on every string, goes forward, and keeps
  the counter of automatic argument ids in range.
\<close>

section \<open>Parsing goes forward\<close>

text \<open>
  A result that is defined and, when nothing is thrown, satisfies \<open>P\<close>; the rules follow the structure of
  a computation.
\<close>

definition yields :: "('a \<Rightarrow> bool) \<Rightarrow> 'a fres \<Rightarrow> bool" where
  "yields P r \<longleftrightarrow> r \<noteq> None \<and> (\<forall>x. r = Some (Inr x) \<longrightarrow> P x)"

named_theorems yields_rules \<open>results that are defined\<close>

lemma yields_ok [yields_rules]: "P x \<Longrightarrow> yields P (ok x)"
  by (simp add: yields_def)

lemma yields_error [yields_rules]: "yields P (report_error e)"
  by (simp add: yields_def)

lemma yields_nothrow: "r = Some x \<Longrightarrow> P x \<Longrightarrow> yields P (nothrow r)"
  by (simp add: yields_def nothrow_def)

lemma yields_andthen: "yields Q r \<Longrightarrow> (\<And>x. Q x \<Longrightarrow> yields P (f x)) \<Longrightarrow> yields P (andthen r f)"
  by (auto simp: yields_def andthen_def split: option.splits sum.splits)

lemma yields_bind:
  "yields Q r \<Longrightarrow> (\<And>x. r = Some (Inr x) \<Longrightarrow> Q x \<Longrightarrow> yields P (f x)) \<Longrightarrow> yields P (andthen r f)"
  by (auto simp: yields_def andthen_def split: option.splits sum.splits)

lemma yields_mono: "yields Q r \<Longrightarrow> (\<And>x. Q x \<Longrightarrow> P x) \<Longrightarrow> yields P r"
  by (auto simp: yields_def)

lemma yields_if [yields_rules]: "(b \<Longrightarrow> yields P x) \<Longrightarrow> (\<not> b \<Longrightarrow> yields P y) \<Longrightarrow> yields P (if b then x else y)"
  by simp

lemma yieldsD: "yields P r \<Longrightarrow> r = Some (Inr x) \<Longrightarrow> P x" "yields P r \<Longrightarrow> r \<noteq> None"
  by (auto simp: yields_def)

text \<open>The counter of automatic ids stays in range, since each id takes a char; the types are those of the arguments.\<close>

definition ctx_fits :: "parse_context \<Rightarrow> string \<Rightarrow> bool" where
  "ctx_fits ctx s \<longleftrightarrow> pc_next_arg_id ctx + int (length s) < 2 ^ 31 \<and> length s < 2 ^ 31 \<and>
     (case pc_check ctx of None \<Rightarrow> True | Some (n, types) \<Rightarrow> n = int (length types))"

definition advances :: "parse_context \<Rightarrow> string \<Rightarrow> parse_context \<Rightarrow> string \<Rightarrow> bool" where
  "advances ctx s ctx' s' \<longleftrightarrow> pc_check ctx' = pc_check ctx \<and> length s' < length s \<and> ctx_fits ctx' s'"

lemma ctx_fits_less: "ctx_fits ctx s \<Longrightarrow> length s' \<le> length s \<Longrightarrow> ctx_fits ctx s'"
  by (auto simp: ctx_fits_def)

text \<open>A reference to an argument by its index is not negative.\<close>

definition ref_wf :: "arg_ref \<Rightarrow> bool" where
  "ref_wf r \<longleftrightarrow> (case r of Arg_index i \<Rightarrow> 0 \<le> i \<and> i < 2 ^ 31 | Arg_name n \<Rightarrow> True)"

definition kind_ref :: "arg_id_kind \<Rightarrow> arg_ref \<Rightarrow> bool" where
  "kind_ref k r \<longleftrightarrow>
     (case k of kind_none \<Rightarrow> True | kind_index \<Rightarrow> \<exists>i. r = Arg_index i | kind_name \<Rightarrow> \<exists>n. r = Arg_name n)"

lemma kind_ref_simps [simp]: "kind_ref kind_none r" "kind_ref kind_index (Arg_index i)" "kind_ref kind_name (Arg_name n)"
  by (simp_all add: kind_ref_def)

lemma do_check_arg_id_yields: "yields (\<lambda>_. True) (do_check_arg_id ctx i)"
  by (auto simp: do_check_arg_id_def intro!: yields_rules split: option.split)

lemma check_dynamic_spec_yields: "yields (\<lambda>_. True) (check_dynamic_spec i ctx)"
  by (auto simp: check_dynamic_spec_def intro!: yields_rules split: option.split)

lemma next_arg_id_yields:
  assumes "ctx_fits ctx s" and "length s' < length s"
  shows "yields (\<lambda>(i, ctx'). ref_wf (Arg_index i) \<and> pc_check ctx' = pc_check ctx \<and> ctx_fits ctx' s') (next_arg_id ctx)"
proof (cases "pc_next_arg_id ctx < 0")
  case True
  then show ?thesis by (simp add: next_arg_id_def yields_error)
next
  case False
  then have "int_op (pc_next_arg_id ctx + 1) = Some (pc_next_arg_id ctx + 1)"
    using assms by (simp add: ctx_fits_def int_op_def)
  moreover have "ctx_fits (ctx\<lparr>pc_next_arg_id := pc_next_arg_id ctx + 1\<rparr>) s'" using assms by (simp add: ctx_fits_def)
  moreover have "yields (\<lambda>(i, ctx'). ref_wf (Arg_index i) \<and> pc_check ctx' = pc_check ctx \<and> ctx_fits ctx' s')
      (andthen (do_check_arg_id ctx (pc_next_arg_id ctx)) (\<lambda>_. ok (pc_next_arg_id ctx, ctx\<lparr>pc_next_arg_id := pc_next_arg_id ctx + 1\<rparr>)))"
    using calculation(2) False assms(1)
    by (intro yields_andthen [OF do_check_arg_id_yields] yields_ok) (simp add: ref_wf_def ctx_fits_def)
  ultimately show ?thesis using False by (simp add: next_arg_id_def Let_def nothrow_def)
qed

lemma check_arg_id_yields:
  "ctx_fits ctx s \<Longrightarrow> length s' \<le> length s \<Longrightarrow> yields (\<lambda>ctx'. pc_check ctx' = pc_check ctx \<and> ctx_fits ctx' s') (check_arg_id i ctx)"
  by (auto simp: check_arg_id_def ctx_fits_def intro!: yields_andthen [OF do_check_arg_id_yields] yields_rules split: option.splits)

lemma is_digit_range: "is_digit c \<Longrightarrow> 48 \<le> (of_char c :: nat)" "is_digit c \<Longrightarrow> (of_char c :: nat) < 58"
  by (auto simp: is_digit_def)

lemma int_loop_eq:
  assumes "s \<noteq> []" and "v = of_nat (digits_val s)" and "prev = of_nat (digits_val (butlast s))"
    and "c = List.last s" and "n = length s" and "t = s @ takeWhile is_digit p"
  shows "int_loop prev v c p n = (of_nat (digits_val (butlast t)), of_nat (digits_val t), List.last t, dropWhile is_digit p, length t)"
  using assms
proof (induction p arbitrary: prev v c n s)
  case Nil
  then show ?case by simp
next
  case (Cons d p)
  show ?case
  proof (cases "is_digit d")
    case True
    have "v * 10 + digit_u32 d = of_nat (digits_val (s @ [d]))"
      using Cons.prems is_digit_range [OF True] by (simp add: digits_val_snoc digit_u32_def of_nat_diff)
    with True Cons.prems Cons.IH [of "s @ [d]" "v * 10 + digit_u32 d" v d "n + 1"] show ?thesis by simp
  next
    case False
    with Cons.prems show ?thesis by simp
  qed
qed

lemma digits_val_less: "\<forall>c \<in> set s. is_digit c \<Longrightarrow> digits_val s < 10 ^ length s"
proof (induction s rule: rev_induct)
  case Nil
  then show ?case by (simp add: digits_val_def)
next
  case (snoc c s)
  have "(of_char c :: nat) < 58" using snoc.prems by (simp add: is_digit_range)
  with snoc show ?case by (simp add: digits_val_snoc)
qed

lemma u32_value: "n < 2 ^ 31 \<Longrightarrow> sint (of_nat n :: u32) = int n"
  by (simp add: sint_uint unat_of_nat uint_nat signed_take_bit_int_eq_self)

text \<open>The number is read exactly when it has at most ten digits and fits an int.\<close>

lemma parse_nonnegative_int_value:
  assumes "is_digit c" and "ds = takeWhile is_digit (c # p)"
  shows "parse_nonnegative_int (c # p) e =
    Some (if length ds \<le> 10 \<and> digits_val ds < 2 ^ 31 then int (digits_val ds) else e, dropWhile is_digit p)"
proof -
  define b where "b = butlast ds"
  define l where "l = List.last ds"
  have ds: "ds = [c] @ takeWhile is_digit p" using assms by simp
  then have snoc: "ds = b @ [l]" by (simp add: b_def l_def del: append_Cons)
  have "digit_u32 c = of_nat (digits_val [c])"
    using is_digit_range [OF assms(1)] by (simp add: digit_u32_def digits_val_def of_nat_diff)
  then have loop: "int_loop 0 (digit_u32 c) c p 1 = (of_nat (digits_val b), of_nat (digits_val ds), l, dropWhile is_digit p, length ds)"
    unfolding b_def l_def by (intro int_loop_eq [of "[c]", OF _ _ _ _ _ ds]) (simp_all add: digits_val_def)
  have all: "\<forall>x \<in> set ds. is_digit x" using assms by (auto dest: set_takeWhileD)
  then have l: "is_digit l" and b: "digits_val b < 10 ^ length b" using snoc by (auto intro: digits_val_less)
  have val: "digits_val ds = digits_val b * 10 + (of_char l - 48)" using snoc by (simp add: digits_val_snoc)
  have eq: "parse_nonnegative_int (c # p) e =
      Some (if length ds \<le> 9 then sint (of_nat (digits_val ds) :: u32)
            else if length ds = 10 \<and> (ucast (of_nat (digits_val b) :: u32) * 10 + ucast (digit_u32 l) :: u64) \<le> 2 ^ 31 - 1
            then sint (of_nat (digits_val ds) :: u32) else e, dropWhile is_digit p)"
    unfolding parse_nonnegative_int_def list.case if_P [OF assms(1)] Let_def loop prod.case by simp
  consider "length ds \<le> 9" | "length ds = 10" | "10 < length ds" by linarith
  then show ?thesis
  proof cases
    case 1
    have "digits_val ds < 10 ^ 9" using digits_val_less [OF all] power_increasing [OF 1, of "10 :: nat"] by linarith
    then have "digits_val ds < 2 ^ 31" by simp
    then show ?thesis using 1 u32_value [of "digits_val ds"] by (simp add: eq)
  next
    case 2
    then have "digits_val b < 10 ^ 9" using b snoc by simp
    then have small: "digits_val ds < 10 ^ 10" "digits_val b < 2 ^ 32" using digits_val_less [OF all] 2 by simp_all
    define d where "d = of_char l - (48 :: nat)"
    have "digit_u32 l = of_nat d" "d < 10" using is_digit_range [OF l] by (simp_all add: d_def digit_u32_def of_nat_diff)
    then have "unat (digit_u32 l) = of_char l - 48" by (simp add: unat_of_nat flip: d_def)
    then have "(ucast (of_nat (digits_val b) :: u32) * 10 + ucast (digit_u32 l) :: u64) = of_nat (digits_val ds)"
    proof -
      have "(ucast x :: u64) = of_nat (unat x)" for x :: u32 by (simp only: of_nat_unat)
      moreover have "unat (of_nat (digits_val b) :: u32) = digits_val b" using small(2) by (simp add: unat_of_nat)
      ultimately have "(ucast (of_nat (digits_val b) :: u32) * 10 + ucast (digit_u32 l) :: u64)
          = of_nat (digits_val b) * 10 + of_nat (of_char l - 48)" using \<open>unat (digit_u32 l) = _\<close> by (simp only:)
      then show ?thesis unfolding val by (simp only: of_nat_add of_nat_mult of_nat_numeral)
    qed
    moreover have "(of_nat (digits_val ds) :: u64) \<le> 2 ^ 31 - 1 \<longleftrightarrow> digits_val ds < 2 ^ 31"
      using small(1) by (simp add: word_le_nat_alt unat_of_nat) arith
    ultimately show ?thesis using 2 u32_value [of "digits_val ds"] unfolding eq by (simp only: if_P if_not_P) simp
  next
    case 3
    then show ?thesis by (simp add: eq)
  qed
qed

lemma parse_nonnegative_int_length:
  assumes "is_digit c"
  shows "\<exists>v rest. parse_nonnegative_int (c # p) e = Some (v, rest) \<and> length rest \<le> length p \<and> (v = e \<or> v \<in> {0..<2 ^ 31})"
  using parse_nonnegative_int_value [OF assms refl, of p e] length_dropWhile_le [of is_digit p] by auto

lemma parse_arg_id_yields:
  assumes "s \<noteq> []"
  shows "yields (\<lambda>(r, rest). ref_wf r \<and> length rest < length s) (parse_arg_id s)"
proof -
  obtain c p where s: "s = c # p" using assms by (cases s) auto
  show ?thesis
  proof (cases "is_digit c")
    case True
    obtain v rest where "parse_nonnegative_int (c # p) (2 ^ 31 - 1) = Some (v, rest)" "length rest \<le> length p" "v \<in> {0..<2 ^ 31}"
      using parse_nonnegative_int_length [OF True, of p "2 ^ 31 - 1"] by auto
    then have "yields (\<lambda>(v, rest). v \<in> {0..<2 ^ 31} \<and> length rest \<le> length p)
        (nothrow (if c \<noteq> CHR ''0'' then parse_nonnegative_int (c # p) (2 ^ 31 - 1) else Some (0, p)))"
      by (cases "c = CHR ''0''") (auto intro: yields_nothrow)
    then show ?thesis unfolding parse_arg_id_def s list.case if_P [OF True]
      by (rule yields_andthen) (auto intro!: yields_rules simp: ref_wf_def)
  next
    case False
    have "length (dropWhile f p) < Suc (length p)" for f :: "char \<Rightarrow> bool" by (simp add: length_dropWhile_le less_Suc_eq_le)
    with False s show ?thesis by (auto simp: parse_arg_id_def Let_def ref_wf_def intro!: yields_rules)
  qed
qed

lemma on_dynamic_id_yields:
  "ctx_fits ctx s \<Longrightarrow> length s' \<le> length s \<Longrightarrow>
    yields (\<lambda>(k, ctx'). kind_ref k r \<and> pc_check ctx' = pc_check ctx \<and> ctx_fits ctx' s') (on_dynamic_id r ctx)"
proof (cases r)
  case (Arg_index i)
  assume "ctx_fits ctx s" "length s' \<le> length s"
  with Arg_index show ?thesis
    by (auto simp: on_dynamic_id_def intro!: yields_rules yields_andthen [OF check_arg_id_yields] yields_andthen [OF check_dynamic_spec_yields])
next
  case (Arg_name n)
  assume "ctx_fits ctx s" "length s' \<le> length s"
  with Arg_name show ?thesis
    by (auto simp: on_dynamic_id_def check_arg_id_name_def ctx_fits_def intro!: yields_rules split: option.splits)
qed

lemma parse_dynamic_spec_yields:
  assumes "ctx_fits ctx s" and "s \<noteq> []"
  shows "yields (\<lambda>(rest, k, v, r, ctx'). advances ctx s ctx' rest \<and> (v = value \<or> v \<in> {0..<2 ^ 31}) \<and> (r = ref \<or> ref_wf r) \<and> kind_ref k r)
    (parse_dynamic_spec s value ref ctx)"
proof -
  obtain c p where s: "s = c # p" using assms by (cases s) auto
  show ?thesis
  proof (cases "is_digit c")
    case True
    obtain v rest where "parse_nonnegative_int s (- 1) = Some (v, rest)" "length rest \<le> length p" "v = - 1 \<or> v \<in> {0..<2 ^ 31}"
      using parse_nonnegative_int_length [OF True] s by blast
    then have "yields (\<lambda>(v, rest). length rest < length s \<and> (v = - 1 \<or> v \<in> {0..<2 ^ 31})) (nothrow (parse_nonnegative_int s (- 1)))"
      using s by (auto intro: yields_nothrow)
    then show ?thesis using True assms(1)
      by (auto simp: parse_dynamic_spec_def s advances_def intro!: yields_rules elim!: yields_andthen elim: ctx_fits_less)
  next
    case False
    have inner: "yields (\<lambda>(rest, k, r, ctx'). (r = ref \<or> ref_wf r) \<and> kind_ref k r \<and> length rest \<le> length p \<and> pc_check ctx' = pc_check ctx \<and> ctx_fits ctx' rest)
        (case p of [] \<Rightarrow> ok (p, kind_none, ref, ctx)
         | d # q \<Rightarrow>
             if d = CHR ''}'' \<or> d = CHR '':'' then
               andthen (next_arg_id ctx) (\<lambda>(id, ctx').
               andthen (check_dynamic_spec id ctx') (\<lambda>_. ok (p, kind_index, Arg_index id, ctx')))
             else
               andthen (parse_arg_id p) (\<lambda>(id, rest).
               andthen (on_dynamic_id id ctx) (\<lambda>(kind, ctx'). ok (rest, kind, id, ctx'))))"
    proof (cases p)
      case Nil
      with assms s show ?thesis by (auto intro!: yields_rules elim: ctx_fits_less)
    next
      case (Cons d q)
      have p: "p \<noteq> []" "length p < length s" using Cons s by simp_all
      have id: "yields (\<lambda>(rest, k, r, ctx'). (r = ref \<or> ref_wf r) \<and> kind_ref k r \<and> length rest \<le> length p \<and> pc_check ctx' = pc_check ctx \<and> ctx_fits ctx' rest)
          (andthen (on_dynamic_id i ctx) (\<lambda>(kind, ctx'). ok (rest, kind, i, ctx')))" if "length rest < length p" "ref_wf i" for i rest
        using that p assms(1)
        by (intro yields_andthen [OF on_dynamic_id_yields [of ctx s rest]]) (auto intro!: yields_rules)
      have "yields (\<lambda>(rest, k, r, ctx'). (r = ref \<or> ref_wf r) \<and> kind_ref k r \<and> length rest \<le> length p \<and> pc_check ctx' = pc_check ctx \<and> ctx_fits ctx' rest)
          (andthen (next_arg_id ctx) (\<lambda>(id, ctx'). andthen (check_dynamic_spec id ctx') (\<lambda>_. ok (p, kind_index, Arg_index id, ctx'))))"
        using next_arg_id_yields [OF assms(1) p(2)]
        by (rule yields_andthen) (auto intro!: yields_andthen [OF check_dynamic_spec_yields] yields_rules)
      moreover have "yields (\<lambda>(rest, k, r, ctx'). (r = ref \<or> ref_wf r) \<and> kind_ref k r \<and> length rest \<le> length p \<and> pc_check ctx' = pc_check ctx \<and> ctx_fits ctx' rest)
          (andthen (parse_arg_id p) (\<lambda>(id, rest). andthen (on_dynamic_id id ctx) (\<lambda>(kind, ctx'). ok (rest, kind, id, ctx'))))"
        using parse_arg_id_yields [OF p(1)] by (rule yields_andthen) (auto intro: id [simplified])
      ultimately show ?thesis using Cons by auto
    qed
    show ?thesis unfolding parse_dynamic_spec_def s list.case
      using False inner assms(1)
      by (auto simp: s advances_def intro!: yields_rules elim!: yields_andthen elim: ctx_fits_less)
  qed
qed

section \<open>Well-formed specifications\<close>

definition specs_wf :: "'a format_specs_scheme \<Rightarrow> bool" where
  "specs_wf s \<longleftrightarrow> length (sp_fill_data s) = 4 \<and> fill_size s \<in> {1..4} \<and>
     sp_width s \<in> {0..<2 ^ 31} \<and> sp_precision s \<in> {- 1..<2 ^ 31}"

definition dynamic_wf :: "dynamic_format_specs \<Rightarrow> bool" where
  "dynamic_wf s \<longleftrightarrow> specs_wf s \<and> ref_wf (sp_width_ref s) \<and> ref_wf (sp_precision_ref s) \<and>
     kind_ref (dynamic_width s) (sp_width_ref s) \<and> kind_ref (dynamic_precision s) (sp_precision_ref s)"

lemma dynamic_wf_default: "dynamic_wf default_dynamic_specs"
  by (simp add: dynamic_wf_def specs_wf_def specs_simps)
    (simp add: default_dynamic_specs_def default_specs_def format_specs.defs dynamic_format_specs.defs ref_wf_def)

lemma specs_wf_set [simp]:
  "t < 8 \<Longrightarrow> specs_wf (set_type t s) = specs_wf s" "specs_wf (set_align a s) = specs_wf s"
  "specs_wf (set_dynamic_width k s) = specs_wf s" "specs_wf (set_dynamic_precision k s) = specs_wf s"
  "specs_wf (set_sign x s) = specs_wf s" "specs_wf (set_upper s) = specs_wf s" "specs_wf (set_alt s) = specs_wf s"
  "specs_wf (set_localized s) = specs_wf s"
  by (simp_all add: specs_wf_def specs_simps)

lemma dynamic_wf_set [simp]:
  "t < 8 \<Longrightarrow> dynamic_wf (set_type t s) = dynamic_wf s" "dynamic_wf (set_align a s) = dynamic_wf s"
  "dynamic_wf (set_sign x s) = dynamic_wf s" "dynamic_wf (set_upper s) = dynamic_wf s" "dynamic_wf (set_alt s) = dynamic_wf s"
  "dynamic_wf (set_localized s) = dynamic_wf s"
  by (simp_all add: dynamic_wf_def specs_simps)

lemma set_fill_char_wf: "dynamic_wf s \<Longrightarrow> dynamic_wf (set_fill_char c s)"
  by (simp add: dynamic_wf_def specs_wf_def set_fill_char_def specs_simps)

lemma set_fill_wf:
  assumes "f \<noteq> []" and "length f \<le> 4" and "dynamic_wf s"
  shows "\<exists>s'. set_fill f s = Some s' \<and> dynamic_wf s'"
proof (cases "length f = 1")
  case True
  with assms(3) show ?thesis by (simp add: set_fill_def Let_def dynamic_wf_def specs_wf_def specs_simps)
next
  case False
  moreover have "1 \<le> length f" using assms(1) by (cases f) simp_all
  ultimately show ?thesis using assms(2,3) by (simp add: set_fill_def Let_def dynamic_wf_def specs_wf_def specs_simps)
qed

lemma code_point_length_range: "1 \<le> code_point_length c" "code_point_length c \<le> 4"
proof -
  have "(x AND 3 :: u64) \<le> 3" for x by (rule word_and_le1)
  then have "unat (x AND 3 :: u64) \<le> 3" for x unfolding word_le_nat_alt by simp
  then show "1 \<le> code_point_length c" "code_point_length c \<le> 4" by (simp_all add: code_point_length_def)
qed

lemma parse_width_yields:
  assumes "ctx_fits ctx s" and "s \<noteq> []" and "dynamic_wf specs"
  shows "yields (\<lambda>(rest, specs', ctx'). advances ctx s ctx' rest \<and> dynamic_wf specs') (parse_width s specs ctx)"
  unfolding parse_width_def
  by (rule yields_andthen [OF parse_dynamic_spec_yields [OF assms(1,2)]])
    (use assms(3) in \<open>auto intro!: yields_rules simp: dynamic_wf_def specs_wf_def specs_simps\<close>)

lemma parse_precision_yields:
  assumes "ctx_fits ctx s" and "s \<noteq> []" and "dynamic_wf specs"
  shows "yields (\<lambda>(rest, specs', ctx'). advances ctx s ctx' rest \<and> dynamic_wf specs') (parse_precision s specs ctx)"
proof (cases "tl s = []")
  case False
  have fits: "ctx_fits ctx (tl s)" and less: "length (tl s) < length s" using assms(1,2) by (auto elim: ctx_fits_less)
  have "yields (\<lambda>(rest, specs', ctx'). advances ctx (tl s) ctx' rest \<and> dynamic_wf specs') (parse_precision s specs ctx)"
    unfolding parse_precision_def if_not_P [OF False]
    by (rule yields_andthen [OF parse_dynamic_spec_yields [OF fits False]])
      (use assms(3) in \<open>auto intro!: yields_rules simp: dynamic_wf_def specs_wf_def specs_simps\<close>)
  then show ?thesis by (rule yields_mono) (use less in \<open>auto simp: advances_def\<close>)
qed (simp add: parse_precision_def yields_error)

text \<open>One pass keeps the specifications well-formed and goes forward.\<close>

definition spec_ok :: "parse_context \<Rightarrow> string \<Rightarrow> spec_outcome \<Rightarrow> bool" where
  "spec_ok ctx s out \<longleftrightarrow>
     (case out of
        Spec_done b specs x \<Rightarrow> pc_check x = pc_check ctx \<and> length b \<le> length s \<and> ctx_fits x b \<and> dynamic_wf specs
      | Spec_next st b specs x \<Rightarrow> advances ctx s x b \<and> dynamic_wf specs)"

lemma spec_ok_simps [simp]:
  "spec_ok ctx s (Spec_done b specs x) \<longleftrightarrow> pc_check x = pc_check ctx \<and> length b \<le> length s \<and> ctx_fits x b \<and> dynamic_wf specs"
  "spec_ok ctx s (Spec_next st b specs x) \<longleftrightarrow> advances ctx s x b \<and> dynamic_wf specs"
  by (simp_all add: spec_ok_def)

lemma advances_drop: "ctx_fits ctx s \<Longrightarrow> s \<noteq> [] \<Longrightarrow> 0 < n \<Longrightarrow> advances ctx s ctx (drop n s)"
  by (auto simp: advances_def intro: ctx_fits_less)

lemma advances_tl: "ctx_fits ctx s \<Longrightarrow> s \<noteq> [] \<Longrightarrow> advances ctx s ctx (tl s)"
  using advances_drop [of ctx s 1] by (simp add: drop_Suc)

lemma enter_state_yields: "yields (\<lambda>_. True) (enter_state st s valid)"
  by (auto simp: enter_state_def intro!: yields_rules)

lemma parse_presentation_type_yields:
  "ctx_fits ctx s \<Longrightarrow> s \<noteq> [] \<Longrightarrow> dynamic_wf specs \<Longrightarrow> pres < 8 \<Longrightarrow>
    yields (spec_ok ctx s) (parse_presentation_type arg_type pres types s specs ctx)"
  using ctx_fits_less [of ctx s "tl s"] by (auto simp: parse_presentation_type_def intro!: yields_rules)

lemma parse_fill_yields:
  assumes "ctx_fits ctx s" and "s \<noteq> []" and "dynamic_wf specs"
  shows "yields (spec_ok ctx s) (parse_fill st s specs ctx)"
proof -
  obtain b p where s: "s = b # p" using assms(2) by (cases s) auto
  let ?n = "code_point_length b"
  note n = code_point_length_range [of b]
  have "length (take ?n s) \<le> 4" "take ?n s \<noteq> []" using n s by auto
  then obtain f where f: "set_fill (take ?n s) specs = Some f" "dynamic_wf f" using set_fill_wf assms(3) by blast
  have adv: "advances ctx s ctx (drop (?n + 1) s)" using advances_drop [OF assms(1,2), of "?n + 1"] by simp
  have go: "yields (spec_ok ctx s) (andthen (nothrow (set_fill (take ?n s) specs)) (\<lambda>specs'.
      ok (Spec_next st' (drop (?n + 1) s) (set_align a specs') ctx)))" for st' a
    unfolding f(1) using f(2) adv by (intro yields_andthen [OF yields_nothrow [OF refl, of dynamic_wf]]) (auto intro!: yields_ok)
  show ?thesis using assms(1,3) go unfolding parse_fill_def s list.case Let_def
    by (intro yields_if yields_error yields_andthen [OF enter_state_yields] yields_ok) simp_all
qed

lemma yields_enter: "(\<And>st'. yields P (f st')) \<Longrightarrow> yields P (andthen (enter_state st s valid) f)"
  by (rule yields_andthen [OF enter_state_yields])

lemma parse_numbers_yields:
  assumes "ctx_fits ctx s" and "s \<noteq> []" and "dynamic_wf specs"
  shows "yields (spec_ok ctx s) (andthen (parse_width s specs ctx) (\<lambda>(rest, specs', ctx'). ok (Spec_next st rest specs' ctx')))"
    and "yields (spec_ok ctx s) (andthen (parse_precision s specs ctx) (\<lambda>(rest, specs', ctx'). ok (Spec_next st rest specs' ctx')))"
  by (rule yields_andthen [OF parse_width_yields [OF assms]], force intro: yields_ok)
    (rule yields_andthen [OF parse_precision_yields [OF assms]], force intro: yields_ok)

lemma specs_step_yields:
  assumes "ctx_fits ctx s" and "s \<noteq> []" and "dynamic_wf specs"
  shows "yields (spec_ok ctx s) (specs_step arg_type c st s specs ctx)"
  unfolding specs_step_def Let_def
  by (intro yields_if yields_error yields_enter parse_presentation_type_yields [OF assms(1,2)] parse_fill_yields
      parse_numbers_yields assms yields_ok)
    (simp_all add: assms set_fill_char_wf advances_tl ctx_fits_less [of ctx s])

lemma specs_loop_yields:
  assumes "ctx_fits ctx s" and "s \<noteq> []" and "dynamic_wf specs"
  shows "yields (\<lambda>(rest, specs', ctx'). pc_check ctx' = pc_check ctx \<and> length rest \<le> length s \<and> ctx_fits ctx' rest \<and>
      dynamic_wf specs') (specs_loop arg_type c st s specs ctx)"
  using assms
proof (induction arg_type c st s specs ctx rule: specs_loop.induct)
  case (1 arg_type c st s specs ctx)
  note IH = "1.IH"
  show ?case unfolding specs_loop.simps [of arg_type c st s]
  proof (rule yields_bind [OF specs_step_yields [OF "1.prems"]], goal_cases)
    case (1 out)
    show ?case
    proof (cases out)
      case (Spec_done b specs' x)
      with 1 show ?thesis by (simp add: yields_ok)
    next
      case (Spec_next st' b specs' x)
      have ok: "pc_check x = pc_check ctx" "length b < length s" "ctx_fits x b" "dynamic_wf specs'"
        using 1 Spec_next by (simp_all add: advances_def)
      show ?thesis
      proof (cases "b = []")
        case True
        with ok Spec_next show ?thesis by (simp add: yields_ok)
      next
        case False
        show ?thesis using False
          by (simp add: Spec_next) (rule yields_mono [OF IH [OF 1(1) Spec_next False ok(3) False ok(4)]], use ok in auto)
      qed
    qed
  qed
qed

text \<open>Parsing a specification never reads outside the string, and leaves it well-formed.\<close>

lemma parse_format_specs_yields:
  assumes "ctx_fits ctx s"
  shows "yields (\<lambda>(rest, specs, ctx'). pc_check ctx' = pc_check ctx \<and> length rest \<le> length s \<and> ctx_fits ctx' rest \<and>
      dynamic_wf specs) (parse_format_specs s default_dynamic_specs ctx arg_type)"
proof (cases s)
  case Nil
  with assms show ?thesis by (auto simp: parse_format_specs_def dynamic_wf_default intro!: yields_rules)
next
  case (Cons b n)
  then show ?thesis using specs_loop_yields [OF assms _ dynamic_wf_default] by (simp add: parse_format_specs_def)
qed

end
