(* ===== verification/Fmt_Write_Facts.thy ===== *)
theory Fmt_Write_Facts
  imports Fmt_Write Fmt_Parse_Facts
begin

text \<open>
  What the writers write: the closed form of padding, the text of integers with sign, prefix and zeros, and
  that every writer is defined on the specifications that the parser accepts.
\<close>

section \<open>Padding\<close>

definition pad :: "align \<Rightarrow> 'a format_specs_scheme \<Rightarrow> nat \<Rightarrow> string \<Rightarrow> string" where
  "pad default_align specs width text =
     (let p = nat (sp_width specs) - width;
          l = (case sp_align specs of
                 align_none \<Rightarrow> if default_align = align_left then 0 else p
               | align_left \<Rightarrow> 0
               | align_center \<Rightarrow> p div 2
               | _ \<Rightarrow> p)
      in fill l specs @ text @ fill (p - l) specs)"

lemma fill_0 [simp]: "fill 0 specs = []"
  by (simp add: fill_def)

lemma drop_31: "p < 2 ^ 31 \<Longrightarrow> drop_bit 31 (p :: nat) = 0"
  by (simp add: drop_bit_eq_div)

lemma write_padded_eq:
  assumes "sp_width specs \<in> {0..<2 ^ 31}"
  shows "write_padded default_align specs width text = Some (pad default_align specs width text)"
proof -
  have "nat (sp_width specs) - width < 2 ^ 31" using assms by auto
  then show ?thesis using assms
    by (cases "sp_align specs"; cases "nat (sp_width specs) > width"; cases "default_align = align_left")
      (simp_all add: write_padded_def to_unsigned_def pad_def shifts_def Let_def drop_31 drop_bit_eq_div)
qed

lemma length_fill:
  assumes "fill_size specs = 1 \<or> length (sp_fill specs) = fill_size specs"
  shows "length (fill n specs) = n * fill_size specs"
  using assms by (auto simp: fill_def length_concat sum_list_replicate)

text \<open>The text stays whole, and the columns of fill and text are the width, or those of the text.\<close>

lemma pad_columns: "\<exists>l r. pad d specs n text = fill l specs @ text @ fill r specs \<and> l + n + r = max n (nat (sp_width specs))"
proof -
  let ?p = "nat (sp_width specs) - n"
  have "\<exists>l\<le>?p. pad d specs n text = fill l specs @ text @ fill (?p - l) specs"
    by (cases "sp_align specs"; cases "d = align_left")
      (auto simp: pad_def Let_def intro: exI [of _ 0] exI [of _ ?p] exI [of _ "?p div 2"])
  then obtain l where "l \<le> ?p" "pad d specs n text = fill l specs @ text @ fill (?p - l) specs" by blast
  moreover from this(1) have "l + n + (?p - l) = max n (nat (sp_width specs))" by linarith
  ultimately show ?thesis by blast
qed

lemma pad_0: "nat (sp_width specs) \<le> n \<Longrightarrow> pad d specs n text = text"
  by (cases "sp_align specs") (simp_all add: pad_def Let_def)

section \<open>Digits\<close>

lemma count_digits_eq: "n < 2 ^ w \<Longrightarrow> w \<in> {32, 64, 128} \<Longrightarrow> count_digits w n = length (digits n)"
  using count_digits_fallback_eq [of n 1] by (auto simp: count_digits_def do_count_digits_32_eq do_count_digits_64_eq)

lemma count_base_loop_eq: "0 < b \<Longrightarrow> count_base_loop b m k = k + length (base_text b upper m)"
proof (induction b m k rule: count_base_loop.induct)
  case (1 b m k)
  show ?case
  proof (cases "m < 2 ^ b")
    case True
    then show ?thesis using 1 by (subst count_base_loop.simps) (simp add: drop_bit_eq_div base_text.simps [of b upper m])
  next
    case False
    then have "drop_bit b m \<noteq> 0" by (simp add: drop_bit_eq_div div_eq_0_iff)
    with 1 False show ?thesis
      by (subst count_base_loop.simps) (simp add: drop_bit_eq_div base_text.simps [of b upper m])
  qed
qed

lemma count_digits_base_eq: "0 < b \<Longrightarrow> w \<noteq> 32 \<Longrightarrow> count_digits_base b w n = length (base_text b upper n)"
  using count_base_loop_eq [of b n 0 upper] by (simp add: count_digits_base_def)

lemma format_decimal_eq: "format_decimal v (length (digits v)) = Some (digits v)"
  by (simp add: format_decimal_def do_format_decimal_eq)

lemma format_base2e_eq: "0 < b \<Longrightarrow> format_base2e b v (length (base_text b upper v)) upper = Some (base_text b upper v)"
  by (simp add: format_base2e_def do_format_base2e_eq)

lemma length_digits_bits: "0 < w \<Longrightarrow> v < 2 ^ w \<Longrightarrow> length (digits v) \<le> w"
  using power_mono [of 2 10 w] by (simp add: length_digits_le less_le_trans)

lemma length_base_bits: "0 < b \<Longrightarrow> 0 < w \<Longrightarrow> v < 2 ^ w \<Longrightarrow> length (base_text b upper v) \<le> w"
proof -
  assume a: "0 < b" "0 < w" "v < 2 ^ w"
  obtain k where k: "w = Suc k" using a(2) by (cases w) auto
  have "w \<le> b * w" using a(1) by simp
  then have "(2 :: nat) ^ w \<le> 2 ^ (b * Suc k)" using k by (intro power_increasing) simp_all
  then show ?thesis using length_base_text_le [of b v k upper] a k by simp
qed

section \<open>Integers\<close>

text \<open>The digits in the base of the presentation, the sign and the prefix of the alternate form.\<close>

definition int_text :: "'a format_specs_scheme \<Rightarrow> nat \<Rightarrow> string" where
  "int_text specs n =
     (if sp_type specs = pres_hex then base_text 4 (sp_upper specs) n
      else if sp_type specs = pres_oct then base_text 3 False n
      else if sp_type specs = pres_bin then base_text 1 False n
      else digits n)"

definition sign_text :: "int \<Rightarrow> sign \<Rightarrow> string" where
  "sign_text v s = (if v < 0 then ''-'' else if s = sign_plus then ''+'' else if s = sign_space then '' '' else [])"

definition alt_text :: "'a format_specs_scheme \<Rightarrow> nat \<Rightarrow> string" where
  "alt_text specs n =
     (if \<not> sp_alt specs then []
      else if sp_type specs = pres_hex then (if sp_upper specs then ''0X'' else ''0x'')
      else if sp_type specs = pres_bin then (if sp_upper specs then ''0B'' else ''0b'')
      else if sp_type specs = pres_oct \<and> n \<noteq> 0 \<and> sp_precision specs \<le> int (length (base_text 3 False n)) then ''0''
      else [])"

definition sign_prefix :: "int \<Rightarrow> sign \<Rightarrow> u32" where
  "sign_prefix v s = (if v < 0 then 0x01000000 OR of_nat (of_char (CHR ''-'')) else sign_prefixes ! unat (sign_num s))"

definition prefix_is :: "u32 \<Rightarrow> string \<Rightarrow> bool" where
  "prefix_is p t \<longleftrightarrow> prefix_text p = t \<and> prefix_size p = length t"

lemma prefix_chars:
  "char_of (43 :: nat) = CHR ''+''" "char_of (45 :: nat) = CHR ''-''" "char_of (32 :: nat) = CHR '' ''" "char_of (48 :: nat) = CHR ''0''"
  "char_of (120 :: nat) = CHR ''x''" "char_of (88 :: nat) = CHR ''X''" "char_of (98 :: nat) = CHR ''b''" "char_of (66 :: nat) = CHR ''B''"
  by (simp_all add: char_of_eq_iff)

lemma sign_prefix_is: "prefix_is (sign_prefix v s) (sign_text v s)"
  by (cases s) (simp_all add: prefix_is_def sign_prefix_def sign_text_def sign_prefixes_def prefix_text_def prefix_size_def
      prefix_loop.simps prefix_chars)

lemma base_prefix_is:
  "c \<in> {CHR ''x'', CHR ''X'', CHR ''b'', CHR ''B''} \<Longrightarrow>
    prefix_is (prefix_append (sign_prefix v s) (base_prefix c)) (sign_text v s @ [CHR ''0'', c])"
  by (cases s; elim insertE; simp add: prefix_is_def sign_prefix_def sign_text_def sign_prefixes_def prefix_text_def prefix_size_def
      prefix_append_def base_prefix_def prefix_loop.simps prefix_chars)

lemma zero_prefix_is: "prefix_is (prefix_append (sign_prefix v s) (of_nat (of_char (CHR ''0'')))) (sign_text v s @ ''0'')"
  by (cases s; simp add: prefix_is_def sign_prefix_def sign_text_def sign_prefixes_def prefix_text_def prefix_size_def
      prefix_append_def prefix_loop.simps prefix_chars)

lemma make_write_int_arg_eq:
  assumes "- (2 ^ (w - 1)) \<le> v" and "v < 2 ^ w" and "0 < w"
  shows "make_write_int_arg w v s = \<lparr>wi_abs_value = nat \<bar>v\<bar>, wi_prefix = sign_prefix v s\<rparr>" and "nat \<bar>v\<bar> < 2 ^ w"
proof -
  have half: "(2 :: int) ^ w = 2 * 2 ^ (w - 1)" using assms(3) by (cases w) simp_all
  show "make_write_int_arg w v s = \<lparr>wi_abs_value = nat \<bar>v\<bar>, wi_prefix = sign_prefix v s\<rparr>"
  proof (cases "v < 0")
    case True
    have "(0 - v mod 2 ^ w) mod 2 ^ w = (- v) mod 2 ^ w" by (simp add: mod_minus_eq)
    also have "\<dots> = - v" using True assms(1) half by (intro mod_pos_pos_trivial) auto
    finally show ?thesis using True by (simp add: make_write_int_arg_def sign_prefix_def Let_def)
  next
    case False
    then show ?thesis using assms(2) by (simp add: make_write_int_arg_def sign_prefix_def Let_def)
  qed
  have "\<bar>v\<bar> < 2 ^ w" using assms half by (auto simp: abs_if)
  then show "nat \<bar>v\<bar> < 2 ^ w" by (simp add: nat_less_iff)
qed

text \<open>The digits and the prefix that \<open>write_int\<close> computes.\<close>

definition int_pres :: "'a format_specs_scheme \<Rightarrow> bool" where
  "int_pres specs \<longleftrightarrow> sp_type specs \<in> {0, 3, 4, 5, 6}"

lemma int_digits_eq:
  assumes "n < 2 ^ w" and "0 < w" and "int_pres specs"
  shows "\<exists>p. int_digits w n (sign_prefix v s) specs = Some (int_text specs n, p) \<and> prefix_is p (sign_text v s @ alt_text specs n)"
proof -
  note d = do_format_decimal_eq [of n w "replicate w (CHR 0x00)"] length_digits_bits [OF assms(2,1)]
  note b = do_format_base2e_eq [of _ _ n w "replicate w (CHR 0x00)"] length_base_bits [OF _ assms(2,1)]
  have le: "length (base_text 3 False n) \<le> w" using b(2) by simp
  from assms(3) consider "sp_type specs \<in> {0, 3}" | "sp_type specs = 4" | "sp_type specs = 5" | "sp_type specs = 6"
    by (auto simp: int_pres_def)
  then show ?thesis
  proof cases
    case 1
    with d show ?thesis by (auto simp: int_digits_def int_text_def alt_text_def sign_prefix_is)
  next
    case 2
    with b show ?thesis by (auto simp: int_digits_def int_text_def alt_text_def sign_prefix_is base_prefix_is)
  next
    case 3
    with b le show ?thesis by (auto simp: int_digits_def int_text_def alt_text_def sign_prefix_is zero_prefix_is [simplified])
  next
    case 4
    with b show ?thesis by (auto simp: int_digits_def int_text_def alt_text_def sign_prefix_is base_prefix_is)
  qed
qed

text \<open>What an integer is written as.\<close>

definition integer_text :: "int \<Rightarrow> 'a format_specs_scheme \<Rightarrow> string" where
  "integer_text v specs =
     (let ds = int_text specs (nat \<bar>v\<bar>);
          prefix = sign_text v (sp_sign specs) @ alt_text specs (nat \<bar>v\<bar>);
          zeros = (if sp_align specs = align_numeric then nat (sp_width specs) - (length prefix + length ds)
                   else nat (sp_precision specs) - length ds)
      in pad align_right specs (length prefix + zeros + length ds) (prefix @ replicate zeros (CHR ''0'') @ ds))"

lemma write_int_eq:
  assumes "- (2 ^ (w - 1)) \<le> v" and "v < 2 ^ w" and "0 < w" and "int_pres specs" and "specs_wf specs"
  shows "write_int w (make_write_int_arg w v (sp_sign specs)) specs = Some (integer_text v specs)"
proof -
  note arg = make_write_int_arg_eq [OF assms(1-3)]
  obtain p where p: "int_digits w (nat \<bar>v\<bar>) (sign_prefix v (sp_sign specs)) specs = Some (int_text specs (nat \<bar>v\<bar>), p)"
    and pre: "prefix_text p = sign_text v (sp_sign specs) @ alt_text specs (nat \<bar>v\<bar>)"
      "prefix_size p = length (sign_text v (sp_sign specs) @ alt_text specs (nat \<bar>v\<bar>))"
    using int_digits_eq [OF arg(2) assms(3,4), of v "sp_sign specs"] by (auto simp: prefix_is_def)
  have wd: "sp_width specs \<in> {0..<2 ^ 31}" "- 1 \<le> sp_precision specs" using assms(5) by (simp_all add: specs_wf_def)
  have c: "sp_type specs \<noteq> pres_chr" using assms(4) by (auto simp: int_pres_def)
  let ?ds = "int_text specs (nat \<bar>v\<bar>)"
  let ?pre = "sign_text v (sp_sign specs) @ alt_text specs (nat \<bar>v\<bar>)"
  show ?thesis
  proof (cases "sp_width specs = 0 \<and> sp_precision specs = - 1")
    case True
    then show ?thesis using c by (simp add: write_int_def arg p pre integer_text_def Let_def pad_0)
  next
    case False
    define z where "z = (if sp_align specs = align_numeric then nat (sp_width specs) - (length ?pre + length ?ds)
        else nat (sp_precision specs) - length ?ds)"
    have "\<exists>sz. size_padding (length ?ds) p specs = Some (sz, z) \<and> sz = length ?pre + z + length ?ds"
      using wd by (auto simp: size_padding_def Let_def to_unsigned_def pre(2) z_def)
    moreover have "(sp_width specs = 0 \<and> sp_precision specs = - 1) = False" using False by blast
    ultimately show ?thesis using c
      by (auto simp: write_int_def arg p pre write_padded_eq [OF wd(1)] integer_text_def Let_def simp flip: z_def)
  qed
qed

section \<open>Digit grouping\<close>

text \<open>A facet whose groups the loops can read, and their state.\<close>

definition facet_ok :: "format_facet \<Rightarrow> bool" where
  "facet_ok f \<longleftrightarrow> ff_separator f = [] \<or> ff_grouping f \<noteq> []"

definition group_state_ok :: "format_facet \<Rightarrow> nat \<times> int \<Rightarrow> bool" where
  "group_state_ok f st \<longleftrightarrow>
     (let gs = ff_grouping f
      in 0 \<le> snd st \<and> (gs \<noteq> [] \<and> length gs \<le> fst st \<longrightarrow> 0 < schar (List.last gs) \<and> schar (List.last gs) < 127))"

lemma schar_range: "- 128 \<le> schar c" "schar c \<le> 127"
proof -
  obtain n :: nat where "of_char c = n" "n < 256" by (meson nat_of_char_less_256)
  then show "- 128 \<le> schar c" "schar c \<le> 127" by (auto simp: schar_def Let_def)
qed

lemma grouping_next_ok:
  assumes "facet_ok f" and "group_state_ok f st" and "snd st < 2 ^ 30"
  shows "\<exists>i st'. grouping_next f st = Some (i, st') \<and> snd st < i \<and>
    (i = 2 ^ 31 - 1 \<or> i < 2 ^ 31 - 1 \<and> snd st' = i \<and> group_state_ok f st')"
proof -
  obtain g p where st: "st = (g, p)" by fastforce
  let ?gs = "ff_grouping f"
  consider "ff_separator f = []" | "ff_separator f \<noteq> []" "length ?gs \<le> g"
    | "ff_separator f \<noteq> []" "g < length ?gs" "schar (?gs ! g) \<le> 0 \<or> schar (?gs ! g) = 127"
    | "ff_separator f \<noteq> []" "g < length ?gs" "0 < schar (?gs ! g)" "schar (?gs ! g) < 127"
    using schar_range [of "?gs ! g"] by linarith
  then show ?thesis
  proof cases
    case 2
    then have "?gs \<noteq> []" "0 < schar (List.last ?gs)" "schar (List.last ?gs) < 127"
      using assms(1,2) st by (auto simp: facet_ok_def group_state_ok_def Let_def)
    then show ?thesis using 2 assms(2,3) st by (auto simp: grouping_next_def Let_def int_op_def group_state_ok_def)
  next
    case 4
    moreover have "List.last ?gs = ?gs ! g" if "length ?gs \<le> Suc g"
    proof -
      have "length ?gs = Suc g" "?gs \<noteq> []" using that 4(2) by auto
      then show ?thesis by (simp add: last_conv_nth)
    qed
    ultimately show ?thesis using assms(2,3) st by (auto simp: grouping_next_def Let_def int_op_def group_state_ok_def)
  qed (use assms(3) st in \<open>auto simp: grouping_next_def Let_def\<close>)
qed

text \<open>Enough fuel: the positions grow, and both loops see the same ones.\<close>

lemma separators_ok:
  assumes "facet_ok f" and "n < 2 ^ 30" and "group_state_ok f st" and "n - snd st < int k" and "snd st < 2 ^ 30" and "0 < k"
  shows "\<exists>xs. separators_loop k f n st = Some xs \<and> count_separators_loop k f n st = Some (length xs) \<and>
    sorted_wrt (<) xs \<and> (\<forall>x \<in> set xs. snd st < x \<and> x < n)"
  using assms(3-6)
proof (induction k arbitrary: st)
  case (Suc k)
  obtain i st' where next_eq: "grouping_next f st = Some (i, st')" and i: "snd st < i"
    "i = 2 ^ 31 - 1 \<or> i < 2 ^ 31 - 1 \<and> snd st' = i \<and> group_state_ok f st'"
    using grouping_next_ok [OF assms(1) Suc.prems(1,3)] by blast
  have pos: "0 < i" using i(1) Suc.prems(1) by (simp add: group_state_ok_def Let_def)
  show ?case
  proof (cases "i < n")
    case False
    with next_eq pos show ?thesis by simp
  next
    case True
    with i(2) assms(2) have st': "snd st' = i" "group_state_ok f st'" by auto
    have "n - snd st' < int k" "snd st' < 2 ^ 30" "0 < k" using Suc.prems(2) i(1) True st'(1) assms(2) by auto
    from Suc.IH [OF st'(2) this] obtain xs where "separators_loop k f n st' = Some xs"
      "count_separators_loop k f n st' = Some (length xs)" "sorted_wrt (<) xs" "\<forall>x \<in> set xs. snd st' < x \<and> x < n" by blast
    with next_eq pos True st'(1) i(1) show ?thesis by (intro exI [of _ "i # xs"]) auto
  qed
qed simp

text \<open>The digits in parts, with a separator before each part but the first.\<close>

lemma grouping_loop_parts:
  assumes "sorted_wrt (>) ps" and "ps \<noteq> []" and "List.last ps = 0" and "hd ps \<le> int (length ds)"
  shows "\<exists>a parts. grouping_loop sep ps ds = Some (a @ concat (map ((@) sep) parts)) \<and> a @ concat parts = ds \<and>
    length ps = Suc (length parts)"
  using assms
proof (induction ds arbitrary: ps)
  case Nil
  obtain p qs where ps: "ps = p # qs" using Nil.prems(2) by (cases ps) auto
  have "qs = []"
  proof (rule ccontr)
    assume "qs \<noteq> []"
    then have "List.last qs \<in> set qs" by simp
    then have "List.last qs < p" using Nil.prems(1) ps by simp
    then show False using Nil.prems(3,4) ps \<open>qs \<noteq> []\<close> by simp
  qed
  with ps show ?case by auto
next
  case (Cons d ds)
  obtain p qs where ps: "ps = p # qs" using Cons.prems(2) by (cases ps) auto
  show ?case
  proof (cases "int (length (d # ds)) = p")
    case True
    then have "qs \<noteq> []" using Cons.prems(3) ps by auto
    moreover from this have "hd qs < p" using Cons.prems(1) ps by (cases qs) auto
    then have "hd qs \<le> int (length ds)" using True by simp
    ultimately obtain a parts where "grouping_loop sep qs ds = Some (a @ concat (map ((@) sep) parts))" "a @ concat parts = ds"
      "length qs = Suc (length parts)" using Cons.IH [of qs] Cons.prems(1,3) ps True by auto
    with True ps show ?thesis by (intro exI [of _ "[]"] exI [of _ "(d # a) # parts"]) auto
  next
    case False
    then obtain a parts where "grouping_loop sep ps ds = Some (a @ concat (map ((@) sep) parts))" "a @ concat parts = ds"
      "length ps = Suc (length parts)" using Cons.IH [of ps] Cons.prems ps by auto
    with False ps show ?thesis by (intro exI [of _ "d # a"] exI [of _ parts]) auto
  qed
qed

lemma grouping_apply_ok:
  assumes "facet_ok f" and "length ds < 2 ^ 30"
  shows "\<exists>a parts. grouping_apply f ds = Some (a @ concat (map ((@) (ff_separator f)) parts)) \<and> a @ concat parts = ds \<and>
    count_separators f (length ds) = Some (length parts)"
proof -
  have "group_state_ok f (0, 0)" by (cases "ff_grouping f") (auto simp: group_state_ok_def)
  then obtain xs where xs: "separators_loop (length ds + 1) f (int (length ds)) (0, 0) = Some xs"
    "count_separators_loop (length ds + 1) f (int (length ds)) (0, 0) = Some (length xs)" "sorted_wrt (<) xs"
    "\<forall>x \<in> set xs. 0 < x \<and> x < int (length ds)"
    using separators_ok [OF assms(1), of "int (length ds)" "(0, 0)" "length ds + 1"] assms(2) by auto
  have "sorted_wrt (>) (rev xs @ [0])" using xs(3,4) by (simp add: sorted_wrt_append sorted_wrt_rev)
  moreover have "hd (rev xs @ [0]) \<le> int (length ds)"
  proof (cases "rev xs")
    case (Cons a list)
    then have "a \<in> set xs" by (metis list.set_intros(1) set_rev)
    with Cons xs(4) show ?thesis by auto
  qed simp
  ultimately obtain a parts where "grouping_loop (ff_separator f) (rev xs @ [0]) ds = Some (a @ concat (map ((@) (ff_separator f)) parts))"
    "a @ concat parts = ds" "length (rev xs @ [0]) = Suc (length parts)"
    using grouping_loop_parts [of "rev xs @ [0]" ds "ff_separator f"] by auto
  with xs(1,2) show ?thesis by (auto simp: grouping_apply_def count_separators_def)
qed


text \<open>The text of an integer for a locale: the digits in groups, after the prefix, and padded.\<close>

lemma loc_digits_eq:
  assumes "n < 2 ^ w" and "w \<in> {64, 128}" and "int_pres specs"
  shows "\<exists>p. loc_digits w n (sign_prefix v s) specs = Some (int_text specs n, p) \<and> prefix_is p (sign_text v s @ alt_text specs n)"
proof -
  have d: "count_digits w n = length (digits n)" using assms(1,2) by (intro count_digits_eq) auto
  have b: "0 < b \<Longrightarrow> count_digits_base b w n = length (base_text b upper n)" for b upper
    using assms(2) by (intro count_digits_base_eq) auto
  from assms(3) consider "sp_type specs \<in> {0, 3}" | "sp_type specs = 4" | "sp_type specs = 5" | "sp_type specs = 6"
    by (auto simp: int_pres_def)
  then show ?thesis
  proof cases
    case 1
    then show ?thesis by (auto simp: loc_digits_def int_text_def alt_text_def sign_prefix_is d format_decimal_eq)
  next
    case 2
    then show ?thesis
      by (auto simp: loc_digits_def int_text_def alt_text_def sign_prefix_is base_prefix_is b [where upper = "sp_upper specs"] format_base2e_eq)
  next
    case 3
    then show ?thesis
      by (auto simp: loc_digits_def int_text_def alt_text_def sign_prefix_is zero_prefix_is [simplified] Let_def
          b [where upper = False] format_base2e_eq)
  next
    case 4
    then show ?thesis
      by (auto simp: loc_digits_def int_text_def alt_text_def sign_prefix_is base_prefix_is b [where upper = False] format_base2e_eq)
  qed
qed

lemma length_int_text: "n < 2 ^ w \<Longrightarrow> 0 < w \<Longrightarrow> length (int_text specs n) \<le> w"
  by (auto simp: int_text_def intro: length_base_bits length_digits_bits)

lemma write_int_grouped_ok:
  assumes "n < 2 ^ w" and "w \<in> {64, 128}" and "int_pres specs" and "specs_wf specs" and "facet_ok f"
  shows "\<exists>a parts. a @ concat parts = int_text specs n \<and>
    write_int_grouped w n (sign_prefix v s) specs f =
      Some (pad align_right specs (length (sign_text v s @ alt_text specs n) + length (int_text specs n) + length parts)
        (sign_text v s @ alt_text specs n @ a @ concat (map ((@) (ff_separator f)) parts)))"
proof -
  obtain p where p: "loc_digits w n (sign_prefix v s) specs = Some (int_text specs n, p)"
    "prefix_text p = sign_text v s @ alt_text specs n" "prefix_size p = length (sign_text v s @ alt_text specs n)"
    using loc_digits_eq [OF assms(1-3)] by (auto simp: prefix_is_def)
  have "length (int_text specs n) \<le> w" using assms(1,2) by (intro length_int_text) auto
  then have "length (int_text specs n) < 2 ^ 30" using assms(2) by auto
  then obtain a parts where g: "grouping_apply f (int_text specs n) = Some (a @ concat (map ((@) (ff_separator f)) parts))"
    "a @ concat parts = int_text specs n" "count_separators f (length (int_text specs n)) = Some (length parts)"
    using grouping_apply_ok [OF assms(5)] by blast
  have "sp_type specs \<noteq> pres_chr" "sp_width specs \<in> {0..<2 ^ 31}" using assms(3,4) by (auto simp: int_pres_def specs_wf_def)
  with p g show ?thesis by (intro exI [of _ a] exI [of _ parts]) (simp add: write_int_grouped_def write_padded_eq)
qed

section \<open>Every writer is defined\<close>

lemma write_char_ok: "specs_wf specs \<Longrightarrow> write_char c specs \<noteq> None"
  using write_escaped_char_total [of c] by (auto simp: write_char_def specs_wf_def write_padded_eq)

lemma write_integer_ok:
  assumes "- (2 ^ (w - 1)) \<le> v" and "v < 2 ^ w" and "w \<in> {32, 64, 128}" and "int_pres specs \<or> sp_type specs = pres_chr"
    and "specs_wf specs" and "facet_ok f"
  shows "write_integer w v specs f \<noteq> None"
proof -
  have w: "0 < w" "max 64 w \<in> {64, 128}" "w \<le> max 64 w" using assms(3) by auto
  note arg = make_write_int_arg_eq [OF assms(1,2) w(1)]
  have "nat \<bar>v\<bar> < 2 ^ max 64 w" by (rule less_le_trans [OF arg(2) power_increasing [OF w(3)]]) simp
  note g = write_int_grouped_ok [OF this w(2) _ assms(5,6), of v "sp_sign specs"]
  show ?thesis
  proof (cases "sp_type specs = pres_chr")
    case True
    then show ?thesis using write_char_ok [OF assms(5)] by (simp add: write_integer_def Let_def write_int_def write_int_grouped_def)
  next
    case False
    then have "int_pres specs" using assms(4) by simp
    with g write_int_eq [OF assms(1,2) w(1) this assms(5)] show ?thesis by (auto simp: write_integer_def Let_def arg)
  qed
qed

lemma write_ptr_ok: "specs_wf specs \<Longrightarrow> write_ptr a specs \<noteq> None"
  by (simp add: write_ptr_def count_digits_base_eq [where upper = False] format_base2e_eq write_padded_eq specs_wf_def Let_def)

lemma write_bool_ok:
  assumes "int_pres specs \<or> sp_type specs \<in> {pres_string, pres_chr}" and "specs_wf specs" and "facet_ok f"
  shows "write_bool b specs f \<noteq> None"
  using assms write_integer_ok [of 32 "if b then 1 else 0" specs f]
  by (auto simp: write_bool_def write_bytes_def write_padded_eq specs_wf_def int_pres_def)


section \<open>Strings\<close>

text \<open>The columns and the bytes of the code points of a string that fit.\<close>

fun fit :: "nat \<Rightarrow> nat \<Rightarrow> (nat \<times> string) list \<Rightarrow> nat \<times> string" where
  "fit limit width [] = (width, [])"
| "fit limit width ((cp, bs) # cps) =
     (if width + display_width_of cp \<le> limit
      then (let (w, t) = fit limit (width + display_width_of cp) cps in (w, bs @ t)) else (width, []))"

lemma fit_prefix: "\<exists>k. snd (fit limit w cps) = concat (map snd (take k cps)) \<and>
    fst (fit limit w cps) = w + sum_list (map (\<lambda>x. display_width_of (fst x)) (take k cps)) \<and>
    (w \<le> limit \<longrightarrow> fst (fit limit w cps) \<le> limit) \<and>
    (k < length cps \<longrightarrow> limit < fst (fit limit w cps) + display_width_of (fst (cps ! k)))"
proof (induction limit w cps rule: fit.induct)
  case (1 limit w)
  show ?case by simp
next
  case (2 limit w cp bs cps)
  show ?case
  proof (cases "w + display_width_of cp \<le> limit")
    case True
    then obtain k where "snd (fit limit (w + display_width_of cp) cps) = concat (map snd (take k cps))"
      "fst (fit limit (w + display_width_of cp) cps) = w + display_width_of cp + sum_list (map (\<lambda>x. display_width_of (fst x)) (take k cps))"
      "fst (fit limit (w + display_width_of cp) cps) \<le> limit"
      "k < length cps \<longrightarrow> limit < fst (fit limit (w + display_width_of cp) cps) + display_width_of (fst (cps ! k))"
      using "2.IH" [OF True] True by blast
    with True show ?thesis by (intro exI [of _ "Suc k"]) (auto split: prod.split)
  qed (auto intro: exI [of _ 0])
qed

lemma measure_plain:
  "fold_slices (measure_cp s False limit) xs (Some (w, n)) =
    (let (w', t) = fit limit w (map (\<lambda>(cp, p, n). (cp, take n (drop p s))) xs) in Some (w', n + length t))"
  if "list_all (slice_ok s) xs"
  using that
proof (induction xs arbitrary: w n)
  case (Cons x xs)
  obtain cp p m where x: "x = (cp, p, m)" by (cases x)
  have "length (take m (drop p s)) = m" using Cons.prems x by (auto simp: slice_ok_def)
  with Cons x show ?case by (auto simp: measure_cp_def Let_def add.commute [of "display_width_of cp" w] split: prod.splits)
qed simp

text \<open>A string under a precision is cut before the first code point that does not fit.\<close>

lemma write_string_eq:
  assumes "specs_wf specs" and "sp_type specs \<noteq> pres_debug" and "0 \<le> sp_precision specs"
  shows "write_string s specs =
    (let (w, t) = fit (nat (sp_precision specs)) 0 (codepoints s) in Some (pad align_left specs w t))"
proof -
  obtain w t where f: "fit (nat (sp_precision specs)) 0 (codepoints s) = (w, t)" by fastforce
  have sl: "map (\<lambda>(cp, p, n). (cp, take n (drop p s))) (slices 0 s) = codepoints s"
    using codepoints_slices [of s 0] by simp
  have "list_all (slice_ok s) (slices 0 s)" using slices_ok [of 0 s] by simp
  from measure_plain [OF this, of "nat (sp_precision specs)" 0 0]
  have m: "for_each_codepoint (measure_cp s False (nat (sp_precision specs))) s (Some (0, 0)) = Some (Some (w, length t))"
    by (simp add: for_each_codepoint_eq sl f)
  obtain k where "t = concat (map snd (take k (codepoints s)))"
    using fit_prefix [of "nat (sp_precision specs)" 0 "codepoints s"] f by auto
  then have "\<exists>u. concat (map snd (codepoints s)) = t @ u"
    by (metis append_take_drop_id concat_append map_append)
  then have "take (length t) s = t" by (auto simp: concat_codepoints)
  with m f assms show ?thesis by (simp add: write_string_def Let_def to_unsigned_def write_padded_eq specs_wf_def)
qed

lemma measure_defined:
  "fold_slices (measure_cp s d limit) xs (Some st) \<noteq> None"
proof (induction xs arbitrary: st)
  case (Cons x xs)
  obtain cp p m where x: "x = (cp, p, m)" by (cases x)
  obtain w n where st: "st = (w, n)" by fastforce
  obtain e where e: "(if d then needs_escape cp else Some False) = Some e" using needs_escape_total [of cp] by (cases d) auto
  obtain buf where buf: "write_escaped_cp (take m (drop p s)) cp = Some buf" using write_escaped_cp_total by blast
  have "\<exists>st' r. measure_cp s d limit cp p m (Some st) = (Some st', r)"
    unfolding st measure_cp_def option.case prod.case e buf Let_def by (cases e) auto
  with Cons.IH show ?case unfolding x by (auto split: prod.split)
qed simp

lemma write_string_ok: "specs_wf specs \<Longrightarrow> write_string s specs \<noteq> None"
proof -
  assume wf: "specs_wf specs"
  obtain esc where t: "write_escaped_string s = Some esc" using write_escaped_string_total by blast
  have "\<exists>limit. (if sp_precision specs < 0 then Some (2 ^ 64 - 1) else to_unsigned (sp_precision specs)) = Some limit"
    by (simp add: to_unsigned_def)
  then obtain limit where l: "(if sp_precision specs < 0 then Some (2 ^ 64 - 1) else to_unsigned (sp_precision specs)) = Some limit" by blast
  define d where "d = (sp_type specs = pres_debug)"
  define st :: nat where "st = (if \<not> d \<or> sp_precision specs = 0 then 0 else 1)"
  obtain w n where "for_each_codepoint (measure_cp s d limit) s (Some (st, st)) = Some (Some (w, n))"
    using measure_defined [of s d limit "slices 0 s" "(st, st)"] by (auto simp: for_each_codepoint_eq)
  then have "for_each_codepoint (measure_cp s (sp_type specs = pres_debug) limit) s
      (Some (if \<not> sp_type specs = pres_debug \<or> sp_precision specs = 0 then 0 else 1,
        if \<not> sp_type specs = pres_debug \<or> sp_precision specs = 0 then 0 else 1)) = Some (Some (w, n))"
    by (simp only: st_def d_def)
  note m = this
  show ?thesis using wf unfolding write_string_def Let_def l bind.bind_lunit m t
    by (simp add: write_padded_eq specs_wf_def)
qed

lemma write_cstring_ok: "specs_wf specs \<Longrightarrow> write_cstring a s specs \<noteq> None"
  using write_string_ok [of specs s] write_ptr_ok [of specs a] by (auto simp: write_cstring_def nothrow_def report_error_def)

end
