(* ===== verification/Fmt_Format_Facts.thy ===== *)
theory Fmt_Format_Facts
  imports Fmt_Format Fmt_Write_Facts
begin

text \<open>
  Facts about format strings: the presentation fits the type of the argument, arguments are found by their
  id, formatting is defined on every string, and a format string that the checker accepts is formatted.
\<close>

section \<open>Presentations\<close>

definition pres_ok :: "fmt_type \<Rightarrow> nat \<Rightarrow> bool" where
  "pres_ok t n \<longleftrightarrow> n = 0 \<or> in_set t float_set \<or>
     (n \<in> {3, 4, 5, 6} \<and> in_set t integral_set) \<or> (n = 7 \<and> in_set t integral_set \<and> t \<noteq> bool_type) \<or>
     (n = 2 \<and> in_set t (bool_set OR string_set OR cstring_set)) \<or> (n = 3 \<and> in_set t (pointer_set OR cstring_set)) \<or>
     (n = 1 \<and> in_set t (char_set OR string_set OR cstring_set))"

lemma pres_ok_0 [simp]: "pres_ok t 0"
  by (simp add: pres_ok_def)

definition spec_pres :: "fmt_type \<Rightarrow> spec_outcome \<Rightarrow> bool" where
  "spec_pres t out \<longleftrightarrow>
     (case out of Spec_done b specs x \<Rightarrow> pres_ok t (sp_type specs) | Spec_next st b specs x \<Rightarrow> sp_type specs = 0)"

lemma spec_pres_simps [simp]:
  "spec_pres t (Spec_done b specs x) \<longleftrightarrow> pres_ok t (sp_type specs)" "spec_pres t (Spec_next st b specs x) \<longleftrightarrow> sp_type specs = 0"
  by (simp_all add: spec_pres_def)

text \<open>Partial correctness of a result, with rules by structure.\<close>

definition only :: "('a \<Rightarrow> bool) \<Rightarrow> 'a fres \<Rightarrow> bool" where
  "only P r \<longleftrightarrow> (\<forall>x. r = Some (Inr x) \<longrightarrow> P x)"

lemma onlyD: "only P r \<Longrightarrow> r = Some (Inr x) \<Longrightarrow> P x"
  by (simp add: only_def)

lemma only_rules:
  "P x \<Longrightarrow> only P (ok x)" "only P (report_error e)" "only P None"
  "(b \<Longrightarrow> only P r) \<Longrightarrow> (\<not> b \<Longrightarrow> only P r') \<Longrightarrow> only P (if b then r else r')"
  by (simp_all add: only_def)

lemma only_andthen: "(\<And>x. r = Some (Inr x) \<Longrightarrow> only P (f x)) \<Longrightarrow> only P (andthen r f)"
  by (auto simp: only_def andthen_def split: option.splits sum.splits)

lemma only_yields: "yields P r \<Longrightarrow> only Q r \<Longrightarrow> yields (\<lambda>x. P x \<and> Q x) r"
  by (simp add: yields_def only_def)

lemma parse_width_type: "parse_width s specs ctx = Some (Inr (r, specs', x)) \<Longrightarrow> sp_type specs' = sp_type specs"
  by (auto simp: parse_width_def andthen_Inr specs_simps) (simp add: sp_type_def)

lemma parse_precision_type: "parse_precision s specs ctx = Some (Inr (r, specs', x)) \<Longrightarrow> sp_type specs' = sp_type specs"
  by (auto simp: parse_precision_def andthen_Inr specs_simps split: if_splits) (simp add: sp_type_def)

lemma set_fill_type: "length f \<le> 4 \<Longrightarrow> set_fill f specs = Some specs' \<Longrightarrow> sp_type specs' = sp_type specs"
  by (auto simp: set_fill_def Let_def specs_simps split: if_splits)

lemma only_numbers:
  assumes "sp_type specs = 0"
  shows "only (spec_pres t) (andthen (parse_width s specs ctx) (\<lambda>(rest, specs', ctx'). ok (Spec_next st rest specs' ctx')))"
    and "only (spec_pres t) (andthen (parse_precision s specs ctx) (\<lambda>(rest, specs', ctx'). ok (Spec_next st rest specs' ctx')))"
  using assms by (auto simp: only_def andthen_Inr dest: parse_width_type parse_precision_type)

lemma specs_step_pres:
  assumes "sp_type specs = 0"
  shows "only (spec_pres t) (specs_step t c st s specs ctx)"
proof -
  have "only (spec_pres t) (parse_presentation_type t p ts s specs' ctx)"
    if "p < 8" "in_set t ts \<Longrightarrow> pres_ok t p" for p ts specs'
    using that by (auto simp: parse_presentation_type_def spec_pres_def specs_simps intro!: only_rules)
  note pres = this
  have fill: "only (spec_pres t) (parse_fill st s specs ctx)"
  proof (cases s)
    case (Cons b q)
    have "length (take (code_point_length b) s) \<le> 4" using code_point_length_range(2) [of b] by simp
    note keep = set_fill_type [OF this]
    show ?thesis unfolding parse_fill_def Cons list.case Let_def
      by (intro only_rules only_andthen)
        (auto simp: spec_pres_def nothrow_def specs_simps Cons assms dest: keep [unfolded Cons] intro!: only_rules)
  qed (simp add: parse_fill_def only_rules)
  show ?thesis unfolding specs_step_def Let_def
    by (intro only_rules only_numbers [OF assms] only_andthen pres fill)
      (simp_all add: assms set_fill_char_def specs_simps pres_ok_def del: in_set_list)
qed

lemma specs_loop_pres:
  "sp_type specs = 0 \<Longrightarrow> only (\<lambda>(rest, specs', ctx'). pres_ok t (sp_type specs')) (specs_loop t c st s specs ctx)"
proof (induction t c st s specs ctx rule: specs_loop.induct)
  case (1 t c st s specs ctx)
  note IH = "1.IH"
  show ?case unfolding specs_loop.simps [of t c st s]
  proof (rule only_andthen, goal_cases)
    case (1 out)
    from onlyD [OF specs_step_pres this] \<open>sp_type specs = 0\<close> have "spec_pres t out" by blast
    then show ?case using IH [OF 1] by (cases out) (auto simp: spec_pres_def intro!: only_rules)
  qed
qed

lemma parse_format_specs_pres:
  "only (\<lambda>(rest, specs, ctx'). pres_ok t (sp_type specs)) (parse_format_specs s default_dynamic_specs ctx t)"
  using specs_loop_pres [of default_dynamic_specs t]
  by (auto simp: parse_format_specs_def specs_simps Let_def split: list.split intro!: only_rules)

section \<open>Arguments\<close>

text \<open>An array of at least one argument, none of them the empty one, and names that refer to arguments.\<close>

definition args_ok :: "fmt_arg list \<Rightarrow> (string \<times> int) list \<Rightarrow> bool" where
  "args_ok args named \<longleftrightarrow> length args < 2 ^ 31 \<and> No_arg \<notin> set args \<and> (\<forall>(n, i) \<in> set named. 0 \<le> i \<and> i < int (length args))"

lemma type_num_less: "type_num t < 16"
  by (cases t) simp_all

lemma type_num_pos: "a \<noteq> No_arg \<Longrightarrow> 0 < type_num (arg_type a)"
  by (cases a) simp_all

lemma bit_small: "bit (k :: nat) n \<Longrightarrow> k < 2 ^ m \<Longrightarrow> n < m"
  by (metis bit_take_bit_iff take_bit_nat_eq_self)

lemma bit_encode_types:
  "n < 64 \<Longrightarrow> bit (encode_types args) n \<longleftrightarrow> n div 4 < length args \<and> bit (type_num (arg_type (args ! (n div 4)))) (n mod 4)"
proof (induction args arbitrary: n)
  case (Cons a args)
  let ?k = "type_num (arg_type a)"
  have k: "bit ?k n \<Longrightarrow> n < 4" using bit_small [of ?k n 4] type_num_less [of "arg_type a"] by simp
  have step: "bit (encode_types (a # args)) n \<longleftrightarrow> bit ?k n \<or> 4 \<le> n \<and> bit (encode_types args) (n - 4)"
    using Cons.prems by (auto simp: bit_or_iff bit_push_bit_iff bit_of_nat_iff packed_arg_bits_def)
  show ?case
  proof (cases "n < 4")
    case True
    then show ?thesis unfolding step by simp
  next
    case False
    then have d: "n div 4 = Suc ((n - 4) div 4)" "(n - 4) mod 4 = n mod 4" by (simp_all add: le_div_geq le_mod_geq)
    have "n - 4 < 64" using Cons.prems by simp
    from Cons.IH [OF this] show ?thesis unfolding step using False k d by auto
  qed
qed simp

definition named_bit :: "(string \<times> int) list \<Rightarrow> u64" where
  "named_bit named = (if named \<noteq> [] then has_named_args_bit else 0)"

lemma desc_eq: "fa_desc (make_format_args args named) = make_descriptor args OR named_bit named"
  by (simp add: make_format_args_def named_bit_def)

lemma bit_push_1: "bit (push_bit k 1 :: u64) n \<longleftrightarrow> n = k \<and> k < 64"
  by (auto simp: bit_exp_iff)

lemma bit_flags: "bit has_named_args_bit n \<longleftrightarrow> n = 62" "bit is_unpacked_bit n \<longleftrightarrow> n = 63"
  unfolding has_named_args_bit_def is_unpacked_bit_def bit_push_1 by simp_all

lemma and_push_1: "k < 64 \<Longrightarrow> (w :: u64) AND push_bit k 1 = 0 \<longleftrightarrow> \<not> bit w k"
  using bit_eq_iff [of "w AND push_bit k 1" 0] unfolding bit_and_iff bit_push_1 possible_bit_word by fastforce

lemma and_flags: "w AND has_named_args_bit = 0 \<longleftrightarrow> \<not> bit w 62" "w AND is_unpacked_bit = 0 \<longleftrightarrow> \<not> bit w 63"
  unfolding has_named_args_bit_def is_unpacked_bit_def by (rule and_push_1, simp)+

lemma bit_15: "bit (15 :: u64) n \<longleftrightarrow> n < 4"
proof -
  have "(15 :: u64) = mask 4" by (simp add: mask_eq_exp_minus_1)
  then show ?thesis by (simp only: bit_mask_iff) auto
qed

lemma bit_named: "bit (named_bit named) n \<longleftrightarrow> named \<noteq> [] \<and> n = 62"
  by (simp add: named_bit_def bit_flags)

lemma bit_descriptor_unpacked:
  "n < 64 \<Longrightarrow> \<not> length args \<le> max_packed_args \<Longrightarrow> bit (make_descriptor args) n \<longleftrightarrow> n = 63 \<or> bit (length args) n"
  by (auto simp: make_descriptor_def bit_flags bit_or_iff bit_of_nat_iff)

lemma bit_descriptor_packed:
  "n < 64 \<Longrightarrow> length args \<le> max_packed_args \<Longrightarrow>
    bit (make_descriptor args) n \<longleftrightarrow> n div 4 < length args \<and> bit (type_num (arg_type (args ! (n div 4)))) (n mod 4)"
  by (simp add: make_descriptor_def bit_encode_types)

lemma is_packed_eq:
  assumes "args_ok args named"
  shows "is_packed (make_format_args args named) \<longleftrightarrow> length args \<le> max_packed_args"
proof -
  have "\<not> 15 < length args" if "length args \<le> max_packed_args" using that by (simp add: max_packed_args_def packed_arg_bits_def)
  then show ?thesis unfolding is_packed_def
    by (cases "length args \<le> max_packed_args")
      (simp_all add: and_flags desc_eq bit_or_iff bit_named bit_descriptor_packed bit_descriptor_unpacked)
qed

lemma has_named_args_eq:
  assumes "args_ok args named"
  shows "has_named_args (make_format_args args named) \<longleftrightarrow> named \<noteq> []"
proof -
  have "\<not> 15 < length args" if "length args \<le> max_packed_args" using that by (simp add: max_packed_args_def packed_arg_bits_def)
  moreover have "\<not> bit (length args) 62" using bit_small [of "length args" 62 31] assms by (auto simp: args_ok_def)
  ultimately show ?thesis unfolding has_named_args_def
    by (cases "length args \<le> max_packed_args")
      (simp_all add: and_flags desc_eq bit_or_iff bit_named bit_descriptor_packed bit_descriptor_unpacked)
qed

lemma packed_type_eq:
  assumes "i < max_packed_args" and "length args \<le> max_packed_args"
  shows "packed_type (make_format_args args named) i = (if i < length args then type_num (arg_type (args ! i)) else 0)"
proof -
  have i: "i < 15" using assms(1) by (simp add: max_packed_args_def packed_arg_bits_def)
  define d where "d = fa_desc (make_format_args args named)"
  have "bit (drop_bit (i * 4) d AND 15) n \<longleftrightarrow>
      bit (of_nat (if i < length args then type_num (arg_type (args ! i)) else 0) :: u64) n" for n
  proof (cases "n < 4")
    case True
    then have "i * 4 + n < 62" "(i * 4 + n) div 4 = i" "(i * 4 + n) mod 4 = n" using i by auto
    moreover have "bit (drop_bit (i * 4) d AND 15) n \<longleftrightarrow> bit d (i * 4 + n)"
      using True by (simp only: bit_and_iff bit_15 bit_drop_bit_eq o_def simp_thms)
    ultimately show ?thesis using True assms(2)
      by (simp add: d_def desc_eq bit_or_iff bit_named bit_descriptor_packed bit_of_nat_iff)
  next
    case False
    have "\<not> bit (type_num t) n" for t using bit_small [of "type_num t" n 4] type_num_less [of t] False by auto
    then show ?thesis using False by (simp only: bit_15 bit_and_iff bit_of_nat_iff) simp
  qed
  then have "drop_bit (i * 4) d AND 15 = of_nat (if i < length args then type_num (arg_type (args ! i)) else 0)"
    by (intro bit_eqI) blast
  then show ?thesis using type_num_less [of "arg_type (args ! i)"]
    by (simp add: packed_type_def packed_arg_bits_def unat_of_nat flip: d_def)
qed

lemma args_max_size_unpacked:
  assumes "args_ok args named" and "\<not> length args \<le> max_packed_args"
  shows "args_max_size (make_format_args args named) = int (length args)"
proof -
  let ?d = "fa_desc (make_format_args args named)"
  have len: "length args < 2 ^ 31" using assms(1) by (simp add: args_ok_def)
  have "(ucast (?d AND NOT is_unpacked_bit) :: u32) = of_nat (length args)"
  proof (rule bit_word_eqI)
    fix n
    assume "n < LENGTH(32)"
    then have "n < 32" by simp
    then show "bit (ucast (?d AND NOT is_unpacked_bit) :: u32) n = bit (of_nat (length args) :: u32) n"
      using assms(2) by (simp add: bit_unsigned_iff bit_and_iff bit_not_iff bit_flags desc_eq bit_or_iff bit_named
          bit_descriptor_unpacked bit_of_nat_iff)
  qed
  then show ?thesis using assms u32_value [OF len] by (simp add: args_max_size_def is_packed_eq)
qed

text \<open>An id finds the argument of its place, and none past the end.\<close>

lemma get_arg_eq:
  assumes "args_ok args named" and "0 \<le> i" and "i < 2 ^ 31"
  shows "get_arg (make_format_args args named) i = Some (if nat i < length args then args ! nat i else No_arg)"
proof -
  have at: "arg_at (make_format_args args named) i = (if nat i < length args then Some (args ! nat i) else None)"
    using assms(2) by (simp add: arg_at_def make_format_args_def)
  show ?thesis
  proof (cases "length args \<le> max_packed_args")
    case False
    then show ?thesis using assms at by (auto simp: get_arg_def is_packed_eq args_max_size_unpacked)
  next
    case True
    have w: "(word_of_int i :: u32) \<ge> of_nat max_packed_args \<longleftrightarrow> max_packed_args \<le> nat i"
      using assms(2,3) by (simp add: word_le_nat_alt max_packed_args_def packed_arg_bits_def unat_eq_nat_uint uint_word_of_int)
    show ?thesis
    proof (cases "max_packed_args \<le> nat i")
      case True
      then show ?thesis using \<open>length args \<le> max_packed_args\<close> assms(1) w by (simp add: get_arg_def is_packed_eq)
    next
      case False
      then have ty: "packed_type (make_format_args args named) (nat i)
          = (if nat i < length args then type_num (arg_type (args ! nat i)) else 0)"
        using True by (intro packed_type_eq) simp_all
      have pos: "0 < type_num (arg_type (args ! nat i))" if "nat i < length args"
        using nth_mem [OF that] assms(1) by (intro type_num_pos) (auto simp: args_ok_def)
      show ?thesis using True False assms(1) w at ty pos by (auto simp: get_arg_def is_packed_eq)
    qed
  qed
qed

lemma get_id_eq:
  "args_ok args named \<Longrightarrow> get_id (make_format_args args named) n = (case map_of named n of None \<Rightarrow> - 1 | Some i \<Rightarrow> i)"
  by (simp add: get_id_def has_named_args_eq) (simp add: make_format_args_def)

lemma get_id_range:
  "args_ok args named \<Longrightarrow> get_id (make_format_args args named) n = - 1 \<or>
    (0 \<le> get_id (make_format_args args named) n \<and> get_id (make_format_args args named) n < int (length args))"
  by (auto simp: get_id_eq args_ok_def split: option.split dest!: map_of_SomeD)

lemma get_named_ok: "args_ok args named \<Longrightarrow> get_named (make_format_args args named) n \<noteq> None"
  using get_id_range [of args named n] get_arg_eq [of args named "get_id (make_format_args args named) n"]
  by (auto simp: get_named_def Let_def args_ok_def)

section \<open>Writing an argument is defined\<close>

lemma resolved_yields:
  assumes "args_ok args named" and "ref_wf r" and "kind_ref k r"
    and "v \<in> {a..<2 ^ 31}" and "a \<le> 0"
  shows "yields (\<lambda>w. w \<in> {a..<2 ^ 31}) (handle_dynamic_spec k v r (make_format_args args named))"
proof (cases "k = kind_none")
  case True
  with assms(4) show ?thesis by (simp add: handle_dynamic_spec_def yields_ok)
next
  case False
  have arg: "(case (k, r) of (kind_index, Arg_index i) \<Rightarrow> get_arg (make_format_args args named) i
        | (kind_name, Arg_name n) \<Rightarrow> get_named (make_format_args args named) n | _ \<Rightarrow> None) \<noteq> None"
    using assms(1-3) False get_arg_eq [OF assms(1)] get_named_ok [OF assms(1)] by (cases k) (auto simp: ref_wf_def kind_ref_def)
  have num: "yields (\<lambda>_. True) (dynamic_spec_getter x)" for x by (cases x) (simp_all add: yields_ok yields_error)
  have fin: "yields (\<lambda>w. w \<in> {a..<2 ^ 31}) (if n > 2 ^ 31 - 1 then report_error e else ok (uint n))" for n :: u64 and e
  proof (rule yields_if)
    assume "\<not> n > 2 ^ 31 - 1"
    then have "uint n < 2 ^ 31" by (simp add: word_less_alt)
    moreover have "a \<le> uint n" using assms(5) by (meson order_trans uint_ge_0)
    ultimately show "yields (\<lambda>w. w \<in> {a..<2 ^ 31}) (ok (uint n))" by (simp add: yields_ok)
  qed (rule yields_error)
  obtain x where x: "(case (k, r) of (kind_index, Arg_index i) \<Rightarrow> get_arg (make_format_args args named) i
        | (kind_name, Arg_name n) \<Rightarrow> get_named (make_format_args args named) n | _ \<Rightarrow> None) = Some x" using arg by blast
  show ?thesis unfolding handle_dynamic_spec_def if_not_P [OF False] x
    by (intro yields_andthen [OF yields_nothrow [where P = "\<lambda>_. True", OF refl TrueI]] yields_if yields_error yields_andthen [OF num] fin)
qed


text \<open>The range of the values of an argument.\<close>

lemma signed_range: "- (2 ^ (LENGTH('a) - 1)) \<le> sint (v :: 'a::len word)" "sint v < 2 ^ LENGTH('a)"
proof -
  show "- (2 ^ (LENGTH('a) - 1)) \<le> sint v" using sint_greater_eq [of v] by simp
  have "sint v < 2 ^ (LENGTH('a) - 1)" using sint_lt [of v] by simp
  also have "\<dots> \<le> 2 ^ LENGTH('a)" by (rule power_increasing) simp_all
  finally show "sint v < 2 ^ LENGTH('a)" .
qed

lemma unsigned_range: "- (2 ^ (w - 1)) \<le> uint (v :: 'a::len word)"
  by (rule order_trans [of _ 0]) simp_all

lemma pres_ok_int: "pres_ok t n \<Longrightarrow> t \<in> {int_type, uint_type, long_long_type, ulong_long_type, int128_type, uint128_type} \<Longrightarrow>
    n \<in> {0, 3, 4, 5, 6, 7}"
  by (auto simp: pres_ok_def)

lemma pres_ok_char: "pres_ok char_type n \<Longrightarrow> n \<in> {0, 1, 3, 4, 5, 6, 7}"
  by (auto simp: pres_ok_def)

lemma of_char_range: "- (2 ^ (32 - 1)) \<le> (of_char c :: int)" "(of_char c :: int) < 2 ^ 32"
proof -
  have "int (of_char c) < 256" using nat_of_char_less_256 [of c] by linarith
  moreover have "(of_char c :: int) = int (of_char c)" by (rule of_nat_of_char [symmetric])
  ultimately have "0 \<le> (of_char c :: int)" "(of_char c :: int) < 256" by linarith+
  then show "- (2 ^ (32 - 1)) \<le> (of_char c :: int)" "(of_char c :: int) < 2 ^ 32" by simp_all
qed

lemma write_char_value_ok:
  assumes "pres_ok char_type (sp_type specs)" and "specs_wf specs" and "facet_ok f"
  shows "write_char_value c specs f \<noteq> None"
proof -
  have num: "write_integer 32 (of_char c) specs f \<noteq> None" if "int_pres specs \<or> sp_type specs = pres_chr"
    using that by (intro write_integer_ok [OF of_char_range] assms(2,3)) simp_all
  show ?thesis
  proof (cases "int_pres specs \<and> sp_type specs \<noteq> 0")
    case True
    then have "check_char_specs specs = ok False" by (auto simp: check_char_specs_def int_pres_def)
    with True num show ?thesis by (simp add: write_char_value_def nothrow_def)
  next
    case False
    then have "check_char_specs specs = ok True \<or> (\<exists>e. check_char_specs specs = report_error e)"
      using pres_ok_char [OF assms(1)] by (auto simp: check_char_specs_def int_pres_def)
    then show ?thesis using write_char_ok [OF assms(2), of c]
      by (auto simp: write_char_value_def nothrow_def report_error_def)
  qed
qed

lemma arg_formatter_ok:
  assumes "a \<noteq> No_arg" and "pres_ok (arg_type a) (sp_type specs)" and "specs_wf specs" and "facet_ok f"
  shows "arg_formatter a specs f \<noteq> None"
proof -
  have int: "arg_type a \<in> {int_type, uint_type, long_long_type, ulong_long_type, int128_type, uint128_type} \<Longrightarrow>
      int_pres specs \<or> sp_type specs = pres_chr"
    using pres_ok_int [OF assms(2)] by (auto simp: int_pres_def)
  note wi = write_integer_ok [OF _ _ _ int assms(3,4)]
  show ?thesis
  proof (cases a)
    case (Int_arg v)
    with wi [OF _ _ _] signed_range [of v] show ?thesis by (simp add: nothrow_def)
  next
    case (Uint_arg v)
    with wi unsigned_range [of 32 v] uint_lt2p [of v] show ?thesis by (simp add: nothrow_def)
  next
    case (Long_long_arg v)
    with wi signed_range [of v] show ?thesis by (simp add: nothrow_def)
  next
    case (Ulong_long_arg v)
    with wi unsigned_range [of 64 v] uint_lt2p [of v] show ?thesis by (simp add: nothrow_def)
  next
    case (Int128_arg v)
    with wi signed_range [of v] show ?thesis by (simp add: nothrow_def)
  next
    case (Uint128_arg v)
    with wi unsigned_range [of 128 v] uint_lt2p [of v] show ?thesis by (simp add: nothrow_def)
  next
    case (Bool_arg b)
    then have "int_pres specs \<or> sp_type specs \<in> {pres_string, pres_chr}" using assms(2) by (auto simp: pres_ok_def int_pres_def)
    then show ?thesis using Bool_arg write_bool_ok [OF _ assms(3,4)] by (simp add: nothrow_def)
  next
    case (Char_arg c)
    with write_char_value_ok [OF _ assms(3,4)] assms(2) show ?thesis by simp
  next
    case (Cstring_arg x s)
    with write_cstring_ok [OF assms(3)] show ?thesis by simp
  next
    case (String_arg s)
    with write_string_ok [OF assms(3)] show ?thesis by (simp add: nothrow_def)
  next
    case (Pointer_arg x)
    with write_ptr_ok [OF assms(3)] show ?thesis by (simp add: nothrow_def)
  qed (simp add: assms(1))
qed

section \<open>The parser over a handler\<close>

text \<open>
  What the parser relies on: an operation of the handler is defined, keeps the state consistent with the
  string that is left, and the parser of specifications does not go back.
\<close>

locale handler_contract =
  fixes H :: "'h handler" and inv :: "'h \<Rightarrow> string \<Rightarrow> bool" and id_ok :: "int \<Rightarrow> bool"
  assumes shrink: "inv h s \<Longrightarrow> length s' \<le> length s \<Longrightarrow> inv h s'"
    and text_law: "inv h s \<Longrightarrow> yields (\<lambda>h'. inv h' s) (on_text H t h)"
    and arg_id_law: "inv h s \<Longrightarrow> length s' < length s \<Longrightarrow> yields (\<lambda>(i, h'). id_ok i \<and> inv h' s') (on_arg_id H h)"
    and index_law: "inv h s \<Longrightarrow> ref_wf (Arg_index i) \<Longrightarrow> yields (\<lambda>(i', h'). id_ok i' \<and> inv h' s) (on_arg_index H i h)"
    and name_law: "inv h s \<Longrightarrow> yields (\<lambda>(i', h'). id_ok i' \<and> inv h' s) (on_arg_name H n h)"
    and field_law: "inv h s \<Longrightarrow> id_ok i \<Longrightarrow> s \<noteq> [] \<Longrightarrow> hd s = CHR ''}'' \<Longrightarrow>
      yields (\<lambda>h'. inv h' s) (on_replacement_field H i s h)"
    and specs_law: "inv h s \<Longrightarrow> id_ok i \<Longrightarrow>
      yields (\<lambda>(rest, h'). length rest \<le> length s \<and> inv h' rest) (on_format_specs H i s h)"
begin

lemma field_specs_yields:
  assumes "inv h s" and "id_ok i" and "s \<noteq> []"
  shows "yields (\<lambda>(rest, h'). length rest < length s \<and> inv h' rest) (field_specs H i s h)"
proof -
  have "inv h (tl s)" using shrink [OF assms(1)] by simp
  from specs_law [OF this assms(2)] show ?thesis unfolding field_specs_def
  proof (rule yields_andthen)
    fix x :: "string \<times> 'h"
    assume x: "case x of (rest, h') \<Rightarrow> length rest \<le> length (tl s) \<and> inv h' rest"
    obtain r h' where r: "x = (r, h')" by (cases x)
    then have "length r \<le> length (tl s)" "inv h' r" using x by simp_all
    moreover from this have "inv h' (tl r)" using shrink by simp
    moreover have "length (tl r) < length s" using calculation(1) assms(3) by (cases s) auto
    ultimately show "yields (\<lambda>(rest, h'). length rest < length s \<and> inv h' rest) (case x of (rest, h) \<Rightarrow>
        if rest = [] \<or> hd rest \<noteq> CHR ''}'' then report_error ''unknown format specifier'' else ok (tl rest, h))"
      unfolding r prod.case by (intro yields_if yields_error yields_ok) simp
  qed
qed

lemma after_id:
  assumes "inv h s" and "id_ok i" and "length s < length p"
  shows "yields (\<lambda>(rest, h'). length rest < length p \<and> inv h' rest)
    (if s \<noteq> [] \<and> hd s = CHR ''}'' then andthen (on_replacement_field H i s h) (\<lambda>h. ok (tl s, h))
     else if s = [] \<or> hd s \<noteq> CHR '':'' then report_error e else field_specs H i s h)"
proof (intro yields_if yields_error)
  assume s: "s \<noteq> [] \<and> hd s = CHR ''}''"
  show "yields (\<lambda>(rest, h'). length rest < length p \<and> inv h' rest) (andthen (on_replacement_field H i s h) (\<lambda>h. ok (tl s, h)))"
    using field_law [OF assms(1,2)] s shrink assms(3) by (intro yields_andthen [of "\<lambda>h'. inv h' s"]) (auto intro!: yields_ok)
next
  assume "\<not> (s = [] \<or> hd s \<noteq> CHR '':'')"
  then show "yields (\<lambda>(rest, h'). length rest < length p \<and> inv h' rest) (field_specs H i s h)"
    using field_specs_yields [OF assms(1,2)] assms(3) by (auto elim: yields_mono)
qed

lemma replacement_yields:
  assumes "inv h s" and "s \<noteq> []"
  shows "yields (\<lambda>(rest, h'). length rest < length s \<and> inv h' rest) (parse_replacement_field H s h)"
proof (cases "tl s")
  case Nil
  then show ?thesis by (simp add: parse_replacement_field_def yields_error)
next
  case (Cons c b)
  have less: "length (c # b) < length s" using Cons assms(2) by (cases s) auto
  have i: "inv h (c # b)" using shrink [OF assms(1)] less by simp
  have lit: "yields (\<lambda>(rest, h'). length rest < length s \<and> inv h' rest) (andthen (on_text H [c] h) (\<lambda>h. ok (b, h)))"
    using text_law [OF i] shrink less by (intro yields_andthen [OF text_law [OF i]] yields_ok) auto
  have auto_field: "yields (\<lambda>(rest, h'). length rest < length s \<and> inv h' rest)
      (andthen (on_arg_id H h) (\<lambda>(i, h). andthen (on_replacement_field H i (c # b) h) (\<lambda>h. ok (b, h))))" if "c = CHR ''}''"
    by (rule yields_andthen [OF arg_id_law [OF assms(1) less]])
      (use that shrink less in \<open>auto intro!: yields_andthen [OF field_law] yields_ok\<close>)
  have auto_specs: "yields (\<lambda>(rest, h'). length rest < length s \<and> inv h' rest)
      (andthen (on_arg_id H h) (\<lambda>(i, h). field_specs H i (c # b) h))"
    by (rule yields_andthen [OF arg_id_law [OF assms(1) less]])
      (use less in \<open>auto intro!: yields_mono [OF field_specs_yields]\<close>)
  have manual: "yields (\<lambda>(rest, h'). length rest < length s \<and> inv h' rest)
      (andthen (case r of Arg_index i \<Rightarrow> on_arg_index H i h | Arg_name n \<Rightarrow> on_arg_name H n h) (\<lambda>(i, h).
        if rest \<noteq> [] \<and> hd rest = CHR ''}'' then andthen (on_replacement_field H i rest h) (\<lambda>h. ok (tl rest, h))
        else if rest = [] \<or> hd rest \<noteq> CHR '':'' then report_error e else field_specs H i rest h))"
    if "ref_wf r" "length rest < length (c # b)" for r rest e
  proof (rule yields_andthen [of "\<lambda>(i, h'). id_ok i \<and> inv h' rest"])
    have "inv h rest" using shrink [OF i] that(2) by simp
    then show "yields (\<lambda>(i, h'). id_ok i \<and> inv h' rest) (case r of Arg_index i \<Rightarrow> on_arg_index H i h | Arg_name n \<Rightarrow> on_arg_name H n h)"
      using index_law name_law that(1) by (cases r) simp_all
  next
    fix x :: "int \<times> 'h"
    assume x: "case x of (i, h') \<Rightarrow> id_ok i \<and> inv h' rest"
    obtain i' h' where eq: "x = (i', h')" by (cases x)
    have "length rest < length s" using that(2) less by simp
    with x after_id [of h' rest i' s e] show "yields (\<lambda>(rest, h'). length rest < length s \<and> inv h' rest)
        (case x of (i, h) \<Rightarrow>
          if rest \<noteq> [] \<and> hd rest = CHR ''}'' then andthen (on_replacement_field H i rest h) (\<lambda>h. ok (tl rest, h))
          else if rest = [] \<or> hd rest \<noteq> CHR '':'' then report_error e else field_specs H i rest h)"
      unfolding eq prod.case by blast
  qed
  show ?thesis unfolding parse_replacement_field_def Cons list.case
    using parse_arg_id_yields [of "c # b"] lit auto_field auto_specs manual
    by (intro yields_if yields_andthen [of "\<lambda>(r, rest). ref_wf r \<and> length rest < length (c # b)"]) auto
qed

lemma loop_yields: "inv h p \<Longrightarrow> length p < k \<Longrightarrow> yields (\<lambda>h'. inv h' []) (parse_loop k H begin p h)"
proof (induction k arbitrary: "begin" p h)
  case (Suc k)
  show ?case
  proof (cases p)
    case Nil
    with text_law Suc.prems(1) show ?thesis by simp
  next
    case (Cons c q)
    have q: "length q < k" "inv h q" using Suc.prems Cons shrink [OF Suc.prems(1), of q] by simp_all
    have open_brace: "yields (\<lambda>h'. inv h' []) (andthen (on_text H t h) (\<lambda>h.
        andthen (parse_replacement_field H (c # q) h) (\<lambda>(rest, h). parse_loop k H rest rest h)))" for t
      by (rule yields_andthen [OF text_law [OF Suc.prems(1)]], rule yields_andthen [OF replacement_yields])
        (use Cons Suc.prems(2) in \<open>auto intro!: Suc.IH\<close>)
    have close_brace: "yields (\<lambda>h'. inv h' []) (andthen (on_text H t h) (\<lambda>h. parse_loop k H (tl q) (tl q) h))" for t
      by (rule yields_andthen [OF text_law [OF q(2)]]) (use q(1) shrink in \<open>auto intro!: Suc.IH\<close>)
    show ?thesis unfolding Cons parse_loop.simps
      by (intro yields_if yields_error open_brace close_brace Suc.IH q)
  qed
qed simp

lemma format_yields: "inv h fmt \<Longrightarrow> yields (\<lambda>h'. inv h' []) (parse_format_string H fmt h)"
  unfolding parse_format_string_def by (rule loop_yields) simp_all

end

section \<open>The handler that writes\<close>

text \<open>The default format of an integer is its decimal text.\<close>

lemma write_default_int_eq:
  assumes "- (2 ^ (w - 1)) \<le> v" and "v < 2 ^ w" and "w \<in> {32, 64, 128}"
  shows "write_default_int w v = Some (to_string v)"
proof -
  have half: "(2 :: int) ^ w = 2 * 2 ^ (w - 1)" using assms(3) by (cases w) auto
  define a where "a = nat (v mod 2 ^ w)"
  define b where "b = (if v < 0 then nat ((- 1 - int a) mod 2 ^ w + 1) mod 2 ^ w else a)"
  have b: "b = nat \<bar>v\<bar>" "nat \<bar>v\<bar> < 2 ^ w"
  proof -
    show abs: "nat \<bar>v\<bar> < 2 ^ w" using assms(1,2) half by (auto simp: nat_less_iff abs_if)
    show "b = nat \<bar>v\<bar>"
    proof (cases "v < 0")
      case True
      have "(- 1 - int a) mod 2 ^ w = (- 1 - v) mod 2 ^ w" by (simp add: a_def mod_diff_right_eq)
      also have "\<dots> = - 1 - v" using True assms(1) half by (intro mod_pos_pos_trivial) auto
      finally show ?thesis using True abs by (simp add: b_def)
    next
      case False
      then show ?thesis using assms(2) by (simp add: b_def a_def)
    qed
  qed
  have "write_default_int w v = Option.bind (format_decimal b (count_digits w b)) (\<lambda>ds. Some ((if v < 0 then ''-'' else []) @ ds))"
    by (simp only: write_default_int_def Let_def a_def b_def)
  then show ?thesis using b(1) count_digits_eq [OF b(2) assms(3)]
    by (simp add: format_decimal_eq to_string_def)
qed

lemma default_specs_simps [specs_simps]:
  "sp_type default_specs = 0" "specs_wf default_specs" "sp_width default_specs = 0"
  by (simp_all add: specs_wf_def default_specs_def getter_defs)

lemma pad_default: "pad d default_specs n t = t"
  by (rule pad_0) (simp add: specs_simps)

lemma write_bool_default: "write_bool b default_specs f = Some (if b then ''true'' else ''false'')"
  using write_padded_eq [of default_specs] by (simp add: write_bool_def write_bytes_def specs_simps pad_default)

text \<open>The text of an argument in an empty replacement field.\<close>

fun plain_text :: "fmt_arg \<Rightarrow> string" where
  "plain_text No_arg = []"
| "plain_text (Int_arg v) = to_string (sint v)"
| "plain_text (Uint_arg v) = to_string (uint v)"
| "plain_text (Long_long_arg v) = to_string (sint v)"
| "plain_text (Ulong_long_arg v) = to_string (uint v)"
| "plain_text (Int128_arg v) = to_string (sint v)"
| "plain_text (Uint128_arg v) = to_string (uint v)"
| "plain_text (Bool_arg b) = (if b then ''true'' else ''false'')"
| "plain_text (Char_arg c) = [c]"
| "plain_text (Cstring_arg a s) = s"
| "plain_text (String_arg s) = s"
| "plain_text (Pointer_arg a) = ''0x'' @ base_text 4 False (unat a)"

lemma write_ptr_default: "write_ptr a default_specs = Some (''0x'' @ base_text 4 False a)"
  using write_padded_eq [of default_specs]
  by (simp add: write_ptr_def count_digits_base_eq [where upper = False] format_base2e_eq Let_def specs_simps pad_default)

lemma default_words:
  "write_default_int 32 (sint (a :: u32)) = Some (to_string (sint a))" "write_default_int 32 (uint a) = Some (to_string (uint a))"
  "write_default_int 64 (sint (b :: u64)) = Some (to_string (sint b))" "write_default_int 64 (uint b) = Some (to_string (uint b))"
  "write_default_int 128 (sint (c :: 128 word)) = Some (to_string (sint c))" "write_default_int 128 (uint c) = Some (to_string (uint c))"
  using signed_range [of a] signed_range [of b] signed_range [of c] unsigned_range [of 32 a] unsigned_range [of 64 b]
    unsigned_range [of 128 c] uint_lt2p [of a] uint_lt2p [of b] uint_lt2p [of c]
  by (simp_all add: write_default_int_eq)

lemma default_arg_formatter_eq:
  "a \<noteq> No_arg \<Longrightarrow> default_arg_formatter a =
    (case a of Cstring_arg x s \<Rightarrow> if x = 0 then report_error ''string pointer is null'' else ok s | _ \<Rightarrow> ok (plain_text a))"
  by (cases a) (simp_all add: nothrow_def ok_def default_words write_bool_default write_ptr_default)

text \<open>The state of the handler that writes, for good arguments and a good locale.\<close>

definition run_inv :: "fmt_arg list \<Rightarrow> (string \<times> int) list \<Rightarrow> format_facet \<Rightarrow> run_state \<Rightarrow> string \<Rightarrow> bool" where
  "run_inv args named f h s \<longleftrightarrow> args_ok args named \<and> facet_ok f \<and> pc_check (rs_ctx h) = None \<and> ctx_fits (rs_ctx h) s"

definition arg_id_ok :: "int \<Rightarrow> bool" where
  "arg_id_ok i \<longleftrightarrow> 0 \<le> i \<and> i < 2 ^ 31"

lemma run_inv_upd:
  "run_inv args named f h s \<Longrightarrow> pc_check ctx = pc_check (rs_ctx h) \<Longrightarrow> ctx_fits ctx s' \<Longrightarrow>
    run_inv args named f (h\<lparr>rs_ctx := ctx\<rparr>) s'"
  "run_inv args named f (append_out h t) s = run_inv args named f h s"
  by (simp_all add: run_inv_def append_out_def)

lemma found_arg:
  assumes "args_ok args named" and "arg_id_ok i"
  shows "\<exists>a. get_arg (make_format_args args named) i = Some a"
  using get_arg_eq [OF assms(1)] assms(2) by (auto simp: arg_id_ok_def)

lemma default_arg_formatter_yields: "yields (\<lambda>_. True) (default_arg_formatter a)"
proof (cases "a = No_arg")
  case False
  then show ?thesis unfolding default_arg_formatter_eq [OF False] by (cases a) (auto intro!: yields_rules)
qed (simp add: yields_error)

lemma run_field_yields:
  assumes "run_inv args named f h s" and "arg_id_ok i"
  shows "yields (\<lambda>h'. run_inv args named f h' s) (run_field (make_format_args args named) i b h)"
proof -
  have "args_ok args named" using assms(1) by (simp add: run_inv_def)
  from found_arg [OF this assms(2)] obtain a where a: "get_arg (make_format_args args named) i = Some a" by blast
  show ?thesis unfolding run_field_def a
    by (rule yields_andthen [OF yields_nothrow [where P = "\<lambda>_. True", OF refl TrueI]], rule yields_andthen [OF default_arg_formatter_yields])
      (simp add: yields_ok run_inv_upd assms(1))
qed

lemma resolve_specs_yields:
  assumes "args_ok args named" and "dynamic_wf specs"
  shows "yields (\<lambda>specs'. specs_wf specs' \<and> sp_type specs' = sp_type specs) (resolve_specs specs (make_format_args args named))"
proof -
  have wf: "specs_wf specs" "ref_wf (sp_width_ref specs)" "ref_wf (sp_precision_ref specs)"
    "kind_ref (dynamic_width specs) (sp_width_ref specs)" "kind_ref (dynamic_precision specs) (sp_precision_ref specs)"
    using assms(2) by (simp_all add: dynamic_wf_def)
  have range: "sp_width specs \<in> {0..<2 ^ 31}" "sp_precision specs \<in> {- 1..<2 ^ 31}" using wf(1) by (simp_all add: specs_wf_def)
  have "yields (\<lambda>specs'. specs_wf specs' \<and> sp_type specs' = sp_type specs)
      (ok (specs\<lparr>sp_width := w, sp_precision := p\<rparr>))" if "w \<in> {0..<2 ^ 31}" "p \<in> {- 1..<2 ^ 31}" for w p
    using that wf(1) by (intro yields_ok) (simp add: specs_wf_def)
  note final = this
  show ?thesis
  proof (cases "sp_dynamic specs")
    case True
    show ?thesis unfolding resolve_specs_def if_P [OF True]
      by (rule yields_andthen [OF resolved_yields [OF assms(1) wf(2,4) range(1)]], simp,
          rule yields_andthen [OF resolved_yields [OF assms(1) wf(3,5) range(2)]], simp, rule final)
  next
    case False
    then show ?thesis using wf(1) by (simp add: resolve_specs_def yields_ok)
  qed
qed

lemma run_specs_yields:
  assumes "run_inv args named f h s" and "arg_id_ok i"
  shows "yields (\<lambda>(rest, h'). length rest \<le> length s \<and> run_inv args named f h' rest)
    (run_specs (make_format_args args named) f i s h)"
proof -
  have ok: "args_ok args named" "facet_ok f" "ctx_fits (rs_ctx h) s" using assms(1) by (simp_all add: run_inv_def)
  from found_arg [OF ok(1) assms(2)] obtain a where a: "get_arg (make_format_args args named) i = Some a" by blast
  show ?thesis
  proof (cases "a = No_arg")
    case True
    then show ?thesis by (simp add: run_specs_def a nothrow_def yields_error)
  next
    case False
    note parsed = only_yields [OF parse_format_specs_yields [OF ok(3)] parse_format_specs_pres]
    have last: "yields (\<lambda>(rest, h'). length rest \<le> length s \<and> run_inv args named f h' rest)
        (andthen (resolve_specs specs (make_format_args args named)) (\<lambda>specs.
          andthen (arg_formatter a specs f) (\<lambda>t. ok (rest, append_out (h\<lparr>rs_ctx := ctx\<rparr>) t))))"
      if "dynamic_wf specs" "pres_ok (arg_type a) (sp_type specs)" "pc_check ctx = pc_check (rs_ctx h)" "length rest \<le> length s"
        "ctx_fits ctx rest" for rest specs ctx
    proof (rule yields_andthen [OF resolve_specs_yields [OF ok(1) that(1)]])
      fix specs' assume s: "specs_wf specs' \<and> sp_type specs' = sp_type specs"
      then have "arg_formatter a specs' f \<noteq> None" using that(2) by (intro arg_formatter_ok False ok(2)) simp_all
      then have "yields (\<lambda>_. True) (arg_formatter a specs' f)" by (simp add: yields_def)
      then show "yields (\<lambda>(rest, h'). length rest \<le> length s \<and> run_inv args named f h' rest)
          (andthen (arg_formatter a specs' f) (\<lambda>t. ok (rest, append_out (h\<lparr>rs_ctx := ctx\<rparr>) t)))"
        by (rule yields_andthen) (use that(3-5) run_inv_upd(1) [OF assms(1)] in \<open>auto intro!: yields_ok simp: run_inv_upd(2)\<close>)
    qed
    show ?thesis unfolding run_specs_def a nothrow_def option.map andthen_simps if_not_P [OF False]
      by (rule yields_andthen [OF parsed]) (use last in auto)
  qed
qed

text \<open>The writer keeps the contract of the parser.\<close>

interpretation writer: handler_contract "format_handler (make_format_args args named) f" "run_inv args named f" arg_id_ok
  for args named f
proof (unfold_locales, goal_cases)
  case (1 h s s')
  then show ?case by (auto simp: run_inv_def intro: ctx_fits_less)
next
  case (2 h s t)
  then show ?case by (simp add: format_handler_def yields_ok run_inv_upd)
next
  case (3 h s s')
  then have "ctx_fits (rs_ctx h) s" by (simp add: run_inv_def)
  from next_arg_id_yields [OF this 3(2)] show ?case unfolding format_handler_def handler.simps
    by (rule yields_andthen) (use run_inv_upd(1) [OF 3(1)] in \<open>auto intro!: yields_ok simp: arg_id_ok_def ref_wf_def\<close>)
next
  case (4 h s i)
  then have "ctx_fits (rs_ctx h) s" by (simp add: run_inv_def)
  from check_arg_id_yields [OF this order_refl] show ?case unfolding format_handler_def handler.simps
    by (rule yields_andthen) (use run_inv_upd(1) [OF 4(1)] 4(2) in \<open>auto intro!: yields_ok simp: arg_id_ok_def ref_wf_def\<close>)
next
  case (5 h s n)
  then have "args_ok args named" "ctx_fits (check_arg_id_name (rs_ctx h)) s"
    by (auto simp: run_inv_def check_arg_id_name_def ctx_fits_def split: option.splits)
  moreover from this have "get_id (make_format_args args named) n < 2 ^ 31"
    using get_id_range [of args named n] by (auto simp: args_ok_def)
  ultimately show ?case using run_inv_upd(1) [OF 5]
    by (auto simp: format_handler_def Let_def arg_id_ok_def check_arg_id_name_def intro!: yields_rules)
next
  case (6 h s i)
  then show ?case using run_field_yields by (simp add: format_handler_def)
next
  case (7 h s i)
  then show ?case using run_specs_yields by (simp add: format_handler_def)
qed

text \<open>Formatting has a result: the text, or an error.\<close>

lemma vformat_to_defined:
  assumes "args_ok args named" and "facet_ok f" and "length fmt < 2 ^ 31"
  shows "vformat_to fmt (make_format_args args named) f \<noteq> None"
proof (cases "fmt = ''{}''")
  case True
  from found_arg [OF assms(1), of 0] obtain a where "get_arg (make_format_args args named) 0 = Some a" by (auto simp: arg_id_ok_def)
  then show ?thesis using True default_arg_formatter_yields [of a] by (simp add: vformat_to_def nothrow_def yields_def)
next
  case False
  have "run_inv args named f run_start fmt" using assms by (simp add: run_inv_def run_start_def ctx_fits_def)
  from yieldsD(2) [OF writer.format_yields [OF this]] show ?thesis using False by (auto simp: vformat_to_def andthen_None)
qed

end
