(* ===== verification/Fmt_Checker.thy ===== *)
theory Fmt_Checker
  imports Fmt_Format_Facts
begin

text \<open>
  The checker of format strings against the writer: a run of the writer follows the run of the checker, so
  that a format string that is accepted for the types of the arguments is formatted, or fails for a reason
  that lies in the value of an argument or in a width or precision that is read from one.
\<close>

section \<open>Following a run\<close>

text \<open>Where \<open>k\<close> succeeds, \<open>r\<close> gives only related values and only errors of \<open>E\<close>.\<close>

definition follows :: "('a \<Rightarrow> 'b \<Rightarrow> bool) \<Rightarrow> string set \<Rightarrow> 'a fres \<Rightarrow> 'b fres \<Rightarrow> bool" where
  "follows R E r k \<longleftrightarrow>
     (\<forall>y. k = Some (Inr y) \<longrightarrow> (\<forall>x. r = Some (Inr x) \<longrightarrow> R x y) \<and> (\<forall>e. r = Some (Inl e) \<longrightarrow> e \<in> E))"

lemma follows_ok: "R x y \<Longrightarrow> follows R E (ok x) (ok y)"
  by (simp add: follows_def ok_def)

lemma follows_error: "follows R E r (report_error e)" "follows R E r None"
  by (simp_all add: follows_def)

lemma follows_late: "e \<in> E \<Longrightarrow> follows R E (report_error e) k"
  by (simp add: follows_def report_error_def)

lemma andthen_Inl: "andthen r f = Some (Inl e) \<longleftrightarrow> r = Some (Inl e) \<or> (\<exists>x. r = Some (Inr x) \<and> f x = Some (Inl e))"
  by (auto simp: andthen_def split: option.splits sum.splits)

lemma follows_bind:
  assumes "follows R E r k" and "\<And>x y. R x y \<Longrightarrow> r = Some (Inr x) \<Longrightarrow> k = Some (Inr y) \<Longrightarrow> follows R' E (f x) (g y)"
  shows "follows R' E (andthen r f) (andthen k g)"
  using assms by (fastforce simp: follows_def andthen_Inr andthen_Inl)

lemma follows_andthen:
  "follows R E r k \<Longrightarrow> (\<And>x y. R x y \<Longrightarrow> follows R' E (f x) (g y)) \<Longrightarrow> follows R' E (andthen r f) (andthen k g)"
  by (rule follows_bind)

lemma follows_same:
  "(\<And>x. r = Some (Inr x) \<Longrightarrow> follows R E (f x) (g x)) \<Longrightarrow> follows R E (andthen r f) (andthen r g)"
  by (rule follows_bind [of "(=)"]) (auto simp: follows_def)

lemma follows_if: "(b \<Longrightarrow> follows R E r k) \<Longrightarrow> (\<not> b \<Longrightarrow> follows R E r' k') \<Longrightarrow> follows R E (if b then r else r') (if b then k else k')"
  by simp

lemma follows_refl: "follows (=) E r r"
  by (simp add: follows_def)

lemma follows_mono: "follows R E r k \<Longrightarrow> (\<And>x y. R x y \<Longrightarrow> R' x y) \<Longrightarrow> follows R' E r k"
  by (auto simp: follows_def)

section \<open>The parser follows\<close>

text \<open>Two handlers whose operations follow each other.\<close>

locale handler_follows =
  fixes H :: "'h handler" and K :: "'k handler" and R :: "'h \<Rightarrow> 'k \<Rightarrow> bool" and id_ok :: "int \<Rightarrow> bool" and E :: "string set"
  assumes text_follows: "R h k \<Longrightarrow> follows R E (on_text H t h) (on_text K t k)"
    and arg_id_follows: "R h k \<Longrightarrow> follows (\<lambda>(i, h) (j, k). i = j \<and> id_ok i \<and> R h k) E (on_arg_id H h) (on_arg_id K k)"
    and index_follows: "R h k \<Longrightarrow> 0 \<le> n \<Longrightarrow>
      follows (\<lambda>(i, h) (j, k). i = j \<and> id_ok i \<and> R h k) E (on_arg_index H n h) (on_arg_index K n k)"
    and name_follows: "R h k \<Longrightarrow>
      follows (\<lambda>(i, h) (j, k). i = j \<and> id_ok i \<and> R h k) E (on_arg_name H m h) (on_arg_name K m k)"
    and field_follows: "R h k \<Longrightarrow> id_ok i \<Longrightarrow> s \<noteq> [] \<Longrightarrow> hd s = CHR ''}'' \<Longrightarrow>
      follows R E (on_replacement_field H i s h) (on_replacement_field K i s k)"
    and specs_follows: "R h k \<Longrightarrow> id_ok i \<Longrightarrow>
      follows (\<lambda>(r, h) (s, k). r = s \<and> R h k) E (on_format_specs H i s h) (on_format_specs K i s k)"
begin

lemma field_specs_follows:
  assumes "R h k" and "id_ok i"
  shows "follows (\<lambda>(r, h) (s, k). r = s \<and> R h k) E (field_specs H i s h) (field_specs K i s k)"
  unfolding field_specs_def
  by (rule follows_andthen [OF specs_follows [OF assms]]) (auto intro!: follows_ok follows_error)

lemma replacement_follows:
  assumes "R h k"
  shows "follows (\<lambda>(r, h) (s, k). r = s \<and> R h k) E (parse_replacement_field H s h) (parse_replacement_field K s k)"
proof (cases "tl s")
  case Nil
  then show ?thesis by (simp add: parse_replacement_field_def follows_error)
next
  case (Cons c b)
  have field: "follows (\<lambda>(r, h) (s, k). r = s \<and> R h k) E (andthen (on_replacement_field H i p h) (\<lambda>h. ok (u, h)))
      (andthen (on_replacement_field K i p k) (\<lambda>k. ok (u, k)))" if "R h k" "id_ok i" "p \<noteq> []" "hd p = CHR ''}''" for i p u h k
    by (rule follows_andthen [OF field_follows [OF that]]) (simp add: follows_ok)
  have manual: "follows (\<lambda>(r, h) (s, k). r = s \<and> R h k) E
      (if rest \<noteq> [] \<and> hd rest = CHR ''}'' then andthen (on_replacement_field H i rest h) (\<lambda>h. ok (tl rest, h))
       else if rest = [] \<or> hd rest \<noteq> CHR '':'' then report_error e else field_specs H i rest h)
      (if rest \<noteq> [] \<and> hd rest = CHR ''}'' then andthen (on_replacement_field K i rest k) (\<lambda>h. ok (tl rest, h))
       else if rest = [] \<or> hd rest \<noteq> CHR '':'' then report_error e else field_specs K i rest k)"
    if "R h k" "id_ok i" for h k i rest e
    by (intro follows_if follows_error field field_specs_follows that) simp_all
  have ids: "follows (\<lambda>(i, h) (j, k). i = j \<and> id_ok i \<and> R h k) E
      (case r of Arg_index i \<Rightarrow> on_arg_index H i h | Arg_name n \<Rightarrow> on_arg_name H n h)
      (case r of Arg_index i \<Rightarrow> on_arg_index K i k | Arg_name n \<Rightarrow> on_arg_name K n k)" if "ref_wf r" for r
    using that index_follows [OF assms] name_follows [OF assms] by (cases r) (auto simp: ref_wf_def)
  have wf: "ref_wf r" if "parse_arg_id (c # b) = Some (Inr (r, rest))" for r rest
    using yieldsD(1) [OF parse_arg_id_yields that] by simp
  show ?thesis unfolding parse_replacement_field_def Cons list.case
  proof (intro follows_if, goal_cases)
    case 1
    then show ?case by (intro follows_andthen [OF arg_id_follows [OF assms]]) (auto intro!: field)
  next
    case 2
    show ?case by (intro follows_andthen [OF text_follows [OF assms]]) (simp add: follows_ok)
  next
    case 3
    show ?case by (intro follows_andthen [OF arg_id_follows [OF assms]]) (auto intro!: field_specs_follows)
  next
    case 4
    show ?case
      by (rule follows_same, clarify, rule follows_andthen [OF ids]) (use wf manual in auto)
  qed
qed

lemma loop_follows: "R h k \<Longrightarrow> follows R E (parse_loop n H begin p h) (parse_loop n K begin p k)"
proof (induction n arbitrary: "begin" p h k)
  case (Suc n)
  show ?case
  proof (cases p)
    case Nil
    with text_follows Suc.prems show ?thesis by simp
  next
    case (Cons c q)
    show ?thesis unfolding Cons parse_loop.simps
    proof (intro follows_if follows_error, goal_cases)
      case 1
      show ?case
        by (rule follows_andthen [OF text_follows [OF Suc.prems]], rule follows_andthen [OF replacement_follows])
          (auto intro!: Suc.IH)
    next
      case 2
      show ?case by (rule follows_andthen [OF text_follows [OF Suc.prems]]) (rule Suc.IH)
    next
      case 3
      show ?case by (rule Suc.IH) (rule Suc.prems)
    qed
  qed
qed (simp add: follows_error)

lemma format_follows: "R h k \<Longrightarrow> follows R E (parse_format_string H fmt h) (parse_format_string K fmt k)"
  unfolding parse_format_string_def by (rule loop_follows)

end

section \<open>The context of a check\<close>

text \<open>
  The context of a run has no types.  Its counter is that of the check, or says that ids are manual where
  there are named arguments: the check does not see that a field is named.
\<close>

definition ctx_sim :: "fmt_type list \<Rightarrow> bool \<Rightarrow> parse_context \<Rightarrow> parse_context \<Rightarrow> bool" where
  "ctx_sim types named x k \<longleftrightarrow> pc_check x = None \<and> pc_check k = Some (int (length types), types) \<and>
     (pc_next_arg_id x = pc_next_arg_id k \<or> named \<and> pc_next_arg_id x = - 1)"

definition switch_error :: string where
  "switch_error = ''cannot switch from manual to automatic argument indexing''"

text \<open>What can still fail at run time.\<close>

definition late_errors :: "bool \<Rightarrow> string set" where
  "late_errors named = {''width/precision is not integer'', ''width/precision is out of range'', ''string pointer is null'',
     ''argument not found''} \<union> (if named then {switch_error} else {})"

lemma next_arg_id_follows:
  "ctx_sim ts b x k \<Longrightarrow>
    follows (\<lambda>(i, x) (j, k). i = j \<and> 0 \<le> i \<and> i < int (length ts) \<and> ctx_sim ts b x k) (late_errors b) (next_arg_id x) (next_arg_id k)"
  by (auto simp: follows_def ctx_sim_def next_arg_id_def do_check_arg_id_def andthen_Inr andthen_Inl late_errors_def
      switch_error_def report_error_def ok_def nothrow_def Let_def split: if_splits)

lemma check_arg_id_follows:
  "ctx_sim ts b x k \<Longrightarrow>
    follows (\<lambda>x k. i < int (length ts) \<and> ctx_sim ts b x k) (late_errors b) (check_arg_id i x) (check_arg_id i k)"
  by (auto simp: follows_def ctx_sim_def check_arg_id_def do_check_arg_id_def report_error_def ok_def split: if_splits)

lemma check_dynamic_spec_follows:
  "ctx_sim ts b x k \<Longrightarrow> follows (\<lambda>_ _. True) (late_errors b) (check_dynamic_spec i x) (check_dynamic_spec i k)"
  by (auto simp: follows_def ctx_sim_def check_dynamic_spec_def ok_def)

lemma on_dynamic_id_follows:
  assumes "ctx_sim ts b x k"
  shows "follows (\<lambda>(i, x) (j, k). i = j \<and> ctx_sim ts b x k) (late_errors b) (on_dynamic_id r x) (on_dynamic_id r k)"
proof (cases r)
  case (Arg_index i)
  show ?thesis unfolding on_dynamic_id_def Arg_index arg_ref.case
    by (rule follows_andthen [OF check_arg_id_follows [OF assms]], rule follows_andthen [OF check_dynamic_spec_follows], blast)
      (simp add: follows_ok)
next
  case (Arg_name n)
  with assms show ?thesis by (simp add: on_dynamic_id_def follows_def ok_def check_arg_id_name_def ctx_sim_def)
qed

lemma parse_dynamic_spec_follows:
  assumes "ctx_sim ts b x k"
  shows "follows (\<lambda>(s, d, v, r, x) (s', d', v', r', k). s = s' \<and> d = d' \<and> v = v' \<and> r = r' \<and> ctx_sim ts b x k) (late_errors b)
    (parse_dynamic_spec s v r x) (parse_dynamic_spec s v r k)"
proof (cases s)
  case (Cons c p)
  have inner: "follows (\<lambda>(s, d, r, x) (s', d', r', k). s = s' \<and> d = d' \<and> r = r' \<and> ctx_sim ts b x k) (late_errors b)
      (case p of [] \<Rightarrow> ok (p, kind_none, r, x)
         | d # q \<Rightarrow>
             if d = CHR ''}'' \<or> d = CHR '':'' then
               andthen (next_arg_id x) (\<lambda>(id, ctx').
               andthen (check_dynamic_spec id ctx') (\<lambda>_. ok (p, kind_index, Arg_index id, ctx')))
             else
               andthen (parse_arg_id p) (\<lambda>(id, rest).
               andthen (on_dynamic_id id x) (\<lambda>(kind, ctx'). ok (rest, kind, id, ctx'))))
      (case p of [] \<Rightarrow> ok (p, kind_none, r, k)
         | d # q \<Rightarrow>
             if d = CHR ''}'' \<or> d = CHR '':'' then
               andthen (next_arg_id k) (\<lambda>(id, ctx').
               andthen (check_dynamic_spec id ctx') (\<lambda>_. ok (p, kind_index, Arg_index id, ctx')))
             else
               andthen (parse_arg_id p) (\<lambda>(id, rest).
               andthen (on_dynamic_id id k) (\<lambda>(kind, ctx'). ok (rest, kind, id, ctx'))))"
  proof (cases p)
    case (Cons d q)
    show ?thesis unfolding Cons list.case
    proof (rule follows_if, goal_cases)
      case 1
      show ?case
        by (rule follows_andthen [OF next_arg_id_follows [OF assms]], clarify)
          (rule follows_andthen [OF check_dynamic_spec_follows], assumption, simp add: follows_ok)
    next
      case 2
      show ?case
        by (rule follows_same, clarify, rule follows_andthen [OF on_dynamic_id_follows [OF assms]]) (auto intro!: follows_ok)
    qed
  qed (simp add: follows_ok assms)
  show ?thesis unfolding parse_dynamic_spec_def Cons list.case
  proof (intro follows_if follows_error, goal_cases)
    case 1
    show ?case by (rule follows_same) (auto intro!: follows_error follows_ok simp: assms)
  next
    case 2
    show ?case by (rule follows_andthen [OF inner]) (auto intro!: follows_error follows_ok)
  qed
qed (simp add: parse_dynamic_spec_def follows_error)

lemma parse_width_follows:
  "ctx_sim ts b x k \<Longrightarrow> follows (\<lambda>(s, d, x) (s', d', k). s = s' \<and> d = d' \<and> ctx_sim ts b x k) (late_errors b)
    (parse_width s specs x) (parse_width s specs k)"
  unfolding parse_width_def by (rule follows_andthen [OF parse_dynamic_spec_follows]) (auto intro!: follows_ok)

lemma parse_precision_follows:
  "ctx_sim ts b x k \<Longrightarrow> follows (\<lambda>(s, d, x) (s', d', k). s = s' \<and> d = d' \<and> ctx_sim ts b x k) (late_errors b)
    (parse_precision s specs x) (parse_precision s specs k)"
  unfolding parse_precision_def
  by (intro follows_if follows_error, rule follows_andthen [OF parse_dynamic_spec_follows]) (auto intro!: follows_ok)

text \<open>One pass over the specifications, and the loop.\<close>

fun outcome_sim :: "fmt_type list \<Rightarrow> bool \<Rightarrow> spec_outcome \<Rightarrow> spec_outcome \<Rightarrow> bool" where
  "outcome_sim ts b (Spec_done s d x) (Spec_done s' d' k) = (s = s' \<and> d = d' \<and> ctx_sim ts b x k)"
| "outcome_sim ts b (Spec_next st s d x) (Spec_next st' s' d' k) = (st = st' \<and> s = s' \<and> d = d' \<and> ctx_sim ts b x k)"
| "outcome_sim ts b out out' = False"

lemma specs_step_follows:
  assumes "ctx_sim ts b x k"
  shows "follows (outcome_sim ts b) (late_errors b) (specs_step t c st s specs x) (specs_step t c st s specs k)"
proof -
  have width: "follows (outcome_sim ts b) (late_errors b)
      (andthen (parse_width s specs x) (\<lambda>(rest, specs', ctx'). ok (Spec_next st' rest specs' ctx')))
      (andthen (parse_width s specs k) (\<lambda>(rest, specs', ctx'). ok (Spec_next st' rest specs' ctx')))" for st'
    by (rule follows_andthen [OF parse_width_follows [OF assms]]) (auto intro!: follows_ok)
  have precision: "follows (outcome_sim ts b) (late_errors b)
      (andthen (parse_precision s specs x) (\<lambda>(rest, specs', ctx'). ok (Spec_next st' rest specs' ctx')))
      (andthen (parse_precision s specs k) (\<lambda>(rest, specs', ctx'). ok (Spec_next st' rest specs' ctx')))" for st'
    by (rule follows_andthen [OF parse_precision_follows [OF assms]]) (auto intro!: follows_ok)
  have pres: "follows (outcome_sim ts b) (late_errors b) (parse_presentation_type t p types s d x) (parse_presentation_type t p types s d k)"
    for p types d
    unfolding parse_presentation_type_def by (intro follows_if follows_error follows_ok) (simp add: assms)
  have fill: "follows (outcome_sim ts b) (late_errors b) (parse_fill st s specs x) (parse_fill st s specs k)"
    unfolding parse_fill_def Let_def
    by (cases s) (auto intro!: follows_if follows_error follows_same follows_ok simp: assms)
  show ?thesis unfolding specs_step_def Let_def
    by (intro follows_if follows_error follows_same width precision pres fill follows_ok) (simp_all add: assms)
qed

lemma specs_loop_follows:
  "ctx_sim ts b x k \<Longrightarrow> follows (\<lambda>(s, d, x) (s', d', k). s = s' \<and> d = d' \<and> ctx_sim ts b x k) (late_errors b)
    (specs_loop t c st s specs x) (specs_loop t c st s specs k)"
proof (induction t c st s specs k arbitrary: x rule: specs_loop.induct)
  case (1 t c st s specs k)
  note IH = "1.IH"
  show ?case unfolding specs_loop.simps [of t c st s]
  proof (rule follows_bind [OF specs_step_follows [OF "1.prems"]], goal_cases)
    case (1 out out')
    then show ?case using IH [OF 1(3)]
      by (cases "(ts, b, out, out')" rule: outcome_sim.cases) (auto intro!: follows_ok)
  qed
qed

lemma parse_format_specs_follows:
  "ctx_sim ts b x k \<Longrightarrow> follows (\<lambda>(s, d, x) (s', d', k). s = s' \<and> d = d' \<and> ctx_sim ts b x k) (late_errors b)
    (parse_format_specs s specs x t) (parse_format_specs s specs k t)"
  unfolding parse_format_specs_def Let_def
  by (cases s; simp only: list.case) (rule follows_ok, simp, rule specs_loop_follows)

lemma andthen_right: "andthen r (\<lambda>(i, k). ok (i, k)) = r"
  by (auto simp: andthen_def ok_def split: option.split sum.split)

section \<open>The writer follows the checker\<close>

text \<open>At the end of a field nothing is parsed.\<close>

lemma parse_format_specs_close:
  assumes "s = [] \<or> hd s = CHR ''}''"
  shows "parse_format_specs s specs ctx t = ok (s, specs, ctx)"
proof (cases s)
  case (Cons c p)
  with assms have c: "c = CHR ''}''" by simp
  have "parse_fill st_start s specs ctx = ok (Spec_done s specs ctx)"
    unfolding parse_fill_def Cons c list.case by (simp only: if_True refl)
  then have "specs_step t (CHR ''}'') st_start s specs ctx = ok (Spec_done s specs ctx)"
      "specs_step t (CHR 0x00) st_start s specs ctx = ok (Spec_done s specs ctx)"
    by (simp_all add: specs_step_def)
  then have "specs_loop t (CHR ''}'') st_start s specs ctx = ok (s, specs, ctx)"
      "specs_loop t (CHR 0x00) st_start s specs ctx = ok (s, specs, ctx)"
    by (simp_all only: specs_loop.simps [of t _ st_start] andthen_simps spec_outcome.case)
  then show ?thesis by (cases p) (simp_all only: parse_format_specs_def Let_def Cons c list.case if_cancel split: if_split, blast)
qed (simp add: parse_format_specs_def)

lemma handle_dynamic_spec_errors:
  "handle_dynamic_spec kind v r fa = Some (Inl e) \<Longrightarrow> e \<in> late_errors b"
proof -
  have get: "dynamic_spec_getter x = Some (Inl e) \<Longrightarrow> e = ''width/precision is not integer''" for x
    by (cases x) (simp_all add: ok_def report_error_def)
  assume "handle_dynamic_spec kind v r fa = Some (Inl e)"
  then show ?thesis
    by (auto simp: handle_dynamic_spec_def andthen_Inl nothrow_def late_errors_def ok_def report_error_def dest!: get
        split: if_splits)
qed

lemma resolve_specs_errors: "resolve_specs specs fa = Some (Inl e) \<Longrightarrow> e \<in> late_errors b"
  by (auto simp: resolve_specs_def andthen_Inl ok_def dest: handle_dynamic_spec_errors split: if_splits)

lemma resolve_specs_char:
  "resolve_specs specs fa = Some (Inr specs') \<Longrightarrow> check_char_specs specs' = check_char_specs specs"
  by (auto simp: resolve_specs_def andthen_Inr check_char_specs_def split: if_splits)

lemma arg_formatter_errors:
  assumes "arg_formatter a specs f = Some (Inl e)" and "arg_type a = char_type \<Longrightarrow> \<exists>c. check_char_specs specs = Some (Inr c)"
  shows "e \<in> late_errors b"
  using assms
  by (cases a) (auto simp: nothrow_def write_char_value_def write_cstring_def late_errors_def report_error_def split: if_splits)

lemma default_arg_formatter_errors: "default_arg_formatter a = Some (Inl e) \<Longrightarrow> e \<in> late_errors b"
  by (cases a) (auto simp: nothrow_def late_errors_def report_error_def ok_def split: if_splits)

definition check_sim :: "fmt_arg list \<Rightarrow> (string \<times> int) list \<Rightarrow> run_state \<Rightarrow> parse_context \<Rightarrow> bool" where
  "check_sim args named h k \<longleftrightarrow> args_ok args named \<and> ctx_sim (map arg_type args) (named \<noteq> []) (rs_ctx h) k"

lemma check_sim_upd [simp]:
  "check_sim args named (append_out h t) k = check_sim args named h k"
  "check_sim args named (h\<lparr>rs_ctx := x\<rparr>) k \<longleftrightarrow> args_ok args named \<and> ctx_sim (map arg_type args) (named \<noteq> []) x k"
  by (simp_all add: check_sim_def append_out_def)

definition arg_in :: "fmt_arg list \<Rightarrow> int \<Rightarrow> bool" where
  "arg_in args i \<longleftrightarrow> 0 \<le> i \<and> i < int (length args)"

lemma found_in:
  "args_ok args named \<Longrightarrow> arg_in args i \<Longrightarrow> get_arg (make_format_args args named) i = Some (args ! nat i)"
  "args_ok args named \<Longrightarrow> arg_in args i \<Longrightarrow> args ! nat i \<noteq> No_arg"
  by (auto simp: get_arg_eq arg_in_def args_ok_def nat_less_iff) (metis nat_less_iff nth_mem)

lemma run_field_follows:
  assumes "check_sim args named h k" and "arg_in args i" and "s \<noteq> []" and "hd s = CHR ''}''"
  shows "follows (check_sim args named) (late_errors (named \<noteq> [])) (run_field (make_format_args args named) i s h)
    (check_field (map arg_type args) i s k)"
proof -
  have "args_ok args named" using assms(1) by (simp add: check_sim_def)
  note arg = found_in(1) [OF this assms(2)]
  have "check_field (map arg_type args) i s k = ok k"
    using assms(2-4) by (simp add: check_field_def native_parse_def arg_in_def)
  then show ?thesis using assms(1)
    by (auto simp: follows_def run_field_def arg nothrow_def andthen_Inr andthen_Inl ok_def dest: default_arg_formatter_errors)
qed

lemma write_arg_follows:
  assumes "args_ok args named" and "ctx_sim (map arg_type args) (named \<noteq> []) x k"
    and "arg_type a = char_type \<Longrightarrow> \<exists>c. check_char_specs specs = Some (Inr c)"
  shows "follows (\<lambda>(r, h) (s, k). r = s \<and> check_sim args named h k) (late_errors (named \<noteq> []))
    (andthen (resolve_specs specs fa) (\<lambda>specs. andthen (arg_formatter a specs f) (\<lambda>t. ok (s, append_out (h\<lparr>rs_ctx := x\<rparr>) t))))
    (ok (s, k))"
proof -
  have "e \<in> late_errors (named \<noteq> [])" if "resolve_specs specs fa = Some (Inr specs')" "arg_formatter a specs' f = Some (Inl e)" for specs' e
    using that(2) by (rule arg_formatter_errors) (use resolve_specs_char [OF that(1)] assms(3) in simp)
  then show ?thesis using assms(1,2)
    by (auto simp: follows_def andthen_Inr andthen_Inl ok_def dest: resolve_specs_errors)
qed

lemma run_specs_follows:
  assumes "check_sim args named h k" and "arg_in args i"
  shows "follows (\<lambda>(r, h) (s, k). r = s \<and> check_sim args named h k) (late_errors (named \<noteq> []))
    (run_specs (make_format_args args named) f i s h) (check_specs (map arg_type args) i s k)"
proof -
  have ok: "args_ok args named" "ctx_sim (map arg_type args) (named \<noteq> []) (rs_ctx h) k" using assms(1) by (simp_all add: check_sim_def)
  define a where "a = args ! nat i"
  have arg: "get_arg (make_format_args args named) i = Some a" "a \<noteq> No_arg" using found_in [OF ok(1) assms(2)] by (simp_all add: a_def)
  have check: "check_specs (map arg_type args) i s k = native_parse (arg_type a) s k"
    using assms(2) by (simp add: check_specs_def arg_in_def a_def nat_less_iff)
  have run: "run_specs (make_format_args args named) f i s h =
      andthen (parse_format_specs s default_dynamic_specs (rs_ctx h) (arg_type a)) (\<lambda>(rest, specs, ctx).
        andthen (resolve_specs specs (make_format_args args named)) (\<lambda>specs.
        andthen (arg_formatter a specs f) (\<lambda>t. ok (rest, append_out (h\<lparr>rs_ctx := ctx\<rparr>) t))))"
    using arg by (simp add: run_specs_def nothrow_def)
  show ?thesis
  proof (cases "s = [] \<or> hd s = CHR ''}''")
    case True
    have "check_char_specs default_dynamic_specs = Some (Inr True)"
      by (simp add: check_char_specs_def specs_simps ok_def)
    then have "\<exists>c. check_char_specs default_dynamic_specs = Some (Inr c)" by blast
    then show ?thesis
      unfolding run check native_parse_def parse_format_specs_close [OF True] if_P [OF True] andthen_simps prod.case
      by (intro write_arg_follows ok)
  next
    case False
    show ?thesis unfolding run check native_parse_def if_not_P [OF False]
    proof (rule follows_andthen [OF parse_format_specs_follows [OF ok(2)]], clarify)
      fix r specs x k'
      assume x: "ctx_sim (map arg_type args) (named \<noteq> []) x k'"
      show "follows (\<lambda>(r, h) (s, k). r = s \<and> check_sim args named h k) (late_errors (named \<noteq> []))
          (andthen (resolve_specs specs (make_format_args args named)) (\<lambda>specs.
            andthen (arg_formatter a specs f) (\<lambda>t. ok (r, append_out (h\<lparr>rs_ctx := x\<rparr>) t))))
          (andthen (if arg_type a = char_type then check_char_specs specs else ok True) (\<lambda>_. ok (r, k')))"
      proof (cases "arg_type a = char_type \<longrightarrow> (\<exists>c. check_char_specs specs = Some (Inr c))")
        case True
        then have "andthen (if arg_type a = char_type then check_char_specs specs else ok True) (\<lambda>_. ok (r, k')) = ok (r, k')"
          by auto
        then show ?thesis by (simp only:) (intro write_arg_follows ok(1) x, use True in blast)
      next
        case False
        then show ?thesis by (auto simp: follows_def andthen_Inr)
      qed
    qed
  qed
qed

interpretation checked: handler_follows "format_handler (make_format_args args named) f"
  "format_string_checker (map arg_type args) named False" "check_sim args named" "arg_in args" "late_errors (named \<noteq> [])"
  for args named f
proof (unfold_locales, goal_cases)
  case (1 h k t)
  then show ?case by (simp add: format_handler_def format_string_checker_def follows_ok)
next
  case (2 h k)
  then show ?case unfolding format_handler_def format_string_checker_def handler.simps check_sim_def
    by (subst andthen_right [symmetric], intro follows_andthen [OF next_arg_id_follows])
      (auto intro!: follows_ok simp: check_sim_def arg_in_def)
next
  case (3 h k n)
  then show ?case unfolding format_handler_def format_string_checker_def handler.simps
    by (intro follows_andthen [OF check_arg_id_follows [of "map arg_type args" "named \<noteq> []"]])
      (auto intro!: follows_ok simp: check_sim_def arg_in_def)
next
  case (4 h k n)
  then have ok: "args_ok args named" by (simp add: check_sim_def)
  have "0 \<le> i \<and> i < int (length args)" if "map_of named n = Some i" for i
    using ok map_of_SomeD [OF that] by (auto simp: args_ok_def)
  with 4 get_id_eq [OF ok, of n] show ?case
    by (auto simp: format_handler_def format_string_checker_def check_name_def Let_def check_sim_def arg_in_def ctx_sim_def
        check_arg_id_name_def intro!: follows_error follows_ok split: option.split)
next
  case (5 h k i s)
  then show ?case using run_field_follows by (simp add: format_handler_def format_string_checker_def)
next
  case (6 h k i s)
  then show ?case using run_specs_follows by (simp add: format_handler_def format_string_checker_def)
qed

text \<open>
  A format string that is accepted for the types of the arguments gives a text, or fails for the value of an
  argument, for a width or precision that is read from one, or for an automatic id after a name.
\<close>

lemma accepted_format:
  assumes "check_format_string fmt (map arg_type args) named False = Some (Inr k)"
    and "args_ok args named" and "facet_ok f" and "length fmt < 2 ^ 31"
  shows "(\<exists>t. vformat_to fmt (make_format_args args named) f = Some (Inr t)) \<or>
    (\<exists>e \<in> late_errors (named \<noteq> []). vformat_to fmt (make_format_args args named) f = Some (Inl e))"
proof -
  have sim: "check_sim args named run_start \<lparr>pc_next_arg_id = 0, pc_check = Some (int (length (map arg_type args)), map arg_type args)\<rparr>"
    using assms(2) by (simp add: check_sim_def run_start_def ctx_sim_def)
  have "e \<in> late_errors (named \<noteq> [])" if "vformat_to fmt (make_format_args args named) f = Some (Inl e)" for e
  proof (cases "fmt = ''{}''")
    case True
    with that show ?thesis by (auto simp: vformat_to_def andthen_Inl nothrow_def dest: default_arg_formatter_errors)
  next
    case False
    with that checked.format_follows [OF sim, of f fmt] assms(1) show ?thesis
      by (auto simp: vformat_to_def andthen_Inl follows_def check_format_string_def ok_def)
  qed
  then show ?thesis using vformat_to_defined [OF assms(2-4)]
    by (cases "vformat_to fmt (make_format_args args named) f") (auto split: sum.split, metis sum.exhaust)
qed

end
