(* ===== verification/Fmt_Text.thy ===== *)
theory Fmt_Text
  imports Fmt_Checker
begin

text \<open>
  What a format string with text and empty fields writes, and two shapes of it: the shortcut of \<open>vformat_to\<close>
  agrees with the parser, and any text can be written by doubling its braces.
\<close>

section \<open>The shortcut\<close>

lemma next_arg_id_run: "0 \<le> i \<Longrightarrow> i + 1 < 2 ^ 31 \<Longrightarrow>
    next_arg_id \<lparr>pc_next_arg_id = i, pc_check = None\<rparr> = ok (i, \<lparr>pc_next_arg_id = i + 1, pc_check = None\<rparr>)"
  by (simp add: next_arg_id_def do_check_arg_id_def int_op_def nothrow_def Let_def ok_def)

lemma writer_simps:
  "on_text (format_handler fa f) t h = ok (append_out h t)"
  "on_arg_id (format_handler fa f) h = andthen (next_arg_id (rs_ctx h)) (\<lambda>(i, ctx). ok (i, h\<lparr>rs_ctx := ctx\<rparr>))"
  "on_replacement_field (format_handler fa f) i s h = run_field fa i s h"
  by (simp_all add: format_handler_def)

text \<open>An empty field, with the text before it.\<close>

lemma empty_field:
  "parse_loop (Suc k) (format_handler fa f) (pre @ ''{}'' @ r) (''{}'' @ r) h =
    andthen (next_arg_id (rs_ctx h)) (\<lambda>(i, ctx).
    andthen (nothrow (get_arg fa i)) (\<lambda>arg.
    andthen (default_arg_formatter arg) (\<lambda>t.
      parse_loop k (format_handler fa f) r r \<lparr>rs_ctx = ctx, rs_out = rs_out h @ pre @ t\<rparr>)))"
  by (simp add: parse_replacement_field_def writer_simps)
    (cases h, simp add: run_field_def append_out_def andthen_def ok_def split: option.split sum.split)

lemma vformat_to_parse:
  "vformat_to fmt fa f = andthen (parse_format_string (format_handler fa f) fmt run_start) (\<lambda>h. ok (rs_out h))"
proof (cases "fmt = ''{}''")
  case True
  have "next_arg_id (rs_ctx run_start) = ok (0, \<lparr>pc_next_arg_id = 1, pc_check = None\<rparr>)"
    using next_arg_id_run [of 0] by (simp add: run_start_def)
  then have "parse_format_string (format_handler fa f) fmt run_start =
      andthen (nothrow (get_arg fa 0)) (\<lambda>arg. andthen (default_arg_formatter arg) (\<lambda>t.
        ok \<lparr>rs_ctx = \<lparr>pc_next_arg_id = 1, pc_check = None\<rparr>, rs_out = t\<rparr>))"
    using empty_field [of 2 fa f "[]" "[]" run_start] unfolding True parse_format_string_def
    by (simp add: numeral_2_eq_2 run_start_def writer_simps append_out_def)
  then show ?thesis unfolding True vformat_to_def
    by (simp add: andthen_def ok_def split: option.split sum.split)
qed (simp add: vformat_to_def)

section \<open>Text and empty fields\<close>

definition escape_braces :: "string \<Rightarrow> string" where
  "escape_braces t = concat (map (\<lambda>c. if c = CHR ''{'' \<or> c = CHR ''}'' then [c, c] else [c]) t)"

lemma escape_braces_simps [simp]:
  "escape_braces [] = []" "escape_braces (c # t) = (if c = CHR ''{'' \<or> c = CHR ''}'' then [c, c] else [c]) @ escape_braces t"
  by (simp_all add: escape_braces_def)

lemma escaped_text:
  "length (escape_braces t @ rest) < n \<Longrightarrow> \<exists>n' pre' h'. length rest < n' \<and>
    parse_loop n (format_handler fa f) (pre @ escape_braces t @ rest) (escape_braces t @ rest) h =
      parse_loop n' (format_handler fa f) (pre' @ rest) rest h' \<and>
    rs_out h' @ pre' = rs_out h @ pre @ t \<and> rs_ctx h' = rs_ctx h"
proof (induction t arbitrary: n pre h)
  case Nil
  then show ?case by auto
next
  case (Cons c t)
  then obtain k where n: "n = Suc k" by (cases n) auto
  let ?s = "escape_braces t @ rest"
  have "\<exists>pre' h'. length ?s < k \<and> parse_loop n (format_handler fa f) (pre @ escape_braces (c # t) @ rest) (escape_braces (c # t) @ rest) h =
      parse_loop k (format_handler fa f) (pre' @ ?s) ?s h' \<and> rs_out h' @ pre' = rs_out h @ pre @ [c] \<and> rs_ctx h' = rs_ctx h"
  proof (cases "c = CHR ''{''")
    case True
    then show ?thesis using Cons.prems
      by (intro exI [of _ "[]"] exI [of _ "append_out h (pre @ [c])"])
        (simp add: n parse_replacement_field_def writer_simps, simp add: append_out_def)
  next
    case brace: False
    show ?thesis
    proof (cases "c = CHR ''}''")
      case True
      then show ?thesis using Cons.prems 
        by (intro exI [of _ "[]"] exI [of _ "append_out h (pre @ [c])"]) (simp add: n writer_simps, simp add: append_out_def)
    next
      case False
      then show ?thesis using Cons.prems brace by (intro exI [of _ "pre @ [c]"] exI [of _ h]) (simp add: n)
    qed
  qed
  then obtain pre1 h1 where 1: "length ?s < k" "parse_loop n (format_handler fa f) (pre @ escape_braces (c # t) @ rest) (escape_braces (c # t) @ rest) h =
      parse_loop k (format_handler fa f) (pre1 @ ?s) ?s h1" "rs_out h1 @ pre1 = rs_out h @ pre @ [c]" "rs_ctx h1 = rs_ctx h" by blast
  from Cons.IH [OF 1(1), of pre1 h1] obtain n' pre' h' where "length rest < n'"
    "parse_loop k (format_handler fa f) (pre1 @ ?s) ?s h1 = parse_loop n' (format_handler fa f) (pre' @ rest) rest h'"
    "rs_out h' @ pre' = rs_out h1 @ pre1 @ t" "rs_ctx h' = rs_ctx h1" by blast
  with 1 show ?case by (intro exI [of _ n'] exI [of _ pre'] exI [of _ h']) simp
qed

text \<open>The format string of texts, each before an empty field, and a tail.\<close>

definition fields_format :: "string list \<Rightarrow> string \<Rightarrow> string" where
  "fields_format ts tail = concat (map (\<lambda>t. escape_braces t @ ''{}'') ts) @ escape_braces tail"

definition printable_arg :: "fmt_arg \<Rightarrow> bool" where
  "printable_arg a \<longleftrightarrow> (case a of No_arg \<Rightarrow> False | Cstring_arg x s \<Rightarrow> x \<noteq> 0 | _ \<Rightarrow> True)"

lemma printable_text: "printable_arg a \<Longrightarrow> default_arg_formatter a = ok (plain_text a)"
  using default_arg_formatter_eq [of a] by (cases a) (auto simp: printable_arg_def)

lemma fields_loop:
  assumes "args_ok args []" and "\<forall>a \<in> set args. printable_arg a"
  shows "rs_ctx h = \<lparr>pc_next_arg_id = int j, pc_check = None\<rparr> \<Longrightarrow> j + length ts = length args \<Longrightarrow>
    length (fields_format ts tail) < n \<Longrightarrow>
    \<exists>h'. parse_loop n (format_handler (make_format_args args []) f) (fields_format ts tail) (fields_format ts tail) h = ok h' \<and>
      rs_out h' = rs_out h @ concat (map2 (\<lambda>t a. t @ plain_text a) ts (drop j args)) @ tail"
proof (induction ts arbitrary: j n h)
  case Nil
  from escaped_text [of tail "[]" n "make_format_args args []" f "[]" h] Nil.prems(3) obtain n' pre' h' where
    n': "0 < n'" "parse_loop n (format_handler (make_format_args args []) f) (escape_braces tail) (escape_braces tail) h =
      parse_loop n' (format_handler (make_format_args args []) f) pre' [] h'" "rs_out h' @ pre' = rs_out h @ tail"
    by (auto simp: fields_format_def)
  then obtain k where "n' = Suc k" by (cases n') auto
  with n' show ?case by (auto simp: fields_format_def writer_simps append_out_def intro!: exI [of _ "append_out h' pre'"])
next
  case (Cons t ts)
  let ?H = "format_handler (make_format_args args []) f"
  let ?r = "fields_format ts tail"
  have split: "fields_format (t # ts) tail = escape_braces t @ ''{}'' @ ?r" by (simp add: fields_format_def)
  from escaped_text [of t "''{}'' @ ?r" n "make_format_args args []" f "[]" h] Cons.prems(3) obtain n' pre' h' where
    written: "length (''{}'' @ ?r) < n'" "parse_loop n ?H (fields_format (t # ts) tail) (fields_format (t # ts) tail) h =
      parse_loop n' ?H (pre' @ ''{}'' @ ?r) (''{}'' @ ?r) h'" "rs_out h' @ pre' = rs_out h @ t" "rs_ctx h' = rs_ctx h"
    unfolding split by auto
  then obtain k where k: "n' = Suc k" "length ?r < k" by (cases n') auto
  have len: "length args < 2 ^ 31" "j < length args" using assms(1) Cons.prems(2) by (auto simp: args_ok_def)
  have arg: "get_arg (make_format_args args []) (int j) = Some (args ! j)" using get_arg_eq [OF assms(1), of "int j"] len by simp
  have val: "default_arg_formatter (args ! j) = ok (plain_text (args ! j))" using assms(2) len(2) by (simp add: printable_text)
  have next_id: "next_arg_id (rs_ctx h') = ok (int j, \<lparr>pc_next_arg_id = int (Suc j), pc_check = None\<rparr>)"
    using next_arg_id_run [of "int j"] len written(4) Cons.prems(1) by (simp add: add.commute)
  have step: "parse_loop n' ?H (pre' @ ''{}'' @ ?r) (''{}'' @ ?r) h' =
      parse_loop k ?H ?r ?r \<lparr>rs_ctx = \<lparr>pc_next_arg_id = int (Suc j), pc_check = None\<rparr>, rs_out = rs_out h' @ pre' @ plain_text (args ! j)\<rparr>"
    unfolding k(1) empty_field next_id andthen_simps prod.case arg nothrow_def option.map val ..
  have "drop j args = args ! j # drop (Suc j) args" using len(2) by (simp add: Cons_nth_drop_Suc)
  then show ?case using Cons.IH [OF _ _ k(2), of "\<lparr>rs_ctx = \<lparr>pc_next_arg_id = int (Suc j), pc_check = None\<rparr>, rs_out = rs_out h' @ pre' @ plain_text (args ! j)\<rparr>" "Suc j"]
    Cons.prems(2) written(3) unfolding written(2) step by (auto simp flip: append_assoc)
qed

lemma fields_written:
  assumes "args_ok args []" and "\<forall>a \<in> set args. printable_arg a" and "length ts = length args"
  shows "vformat_to (fields_format ts tail) (make_format_args args []) f =
    Some (Inr (concat (map2 (\<lambda>t a. t @ plain_text a) ts args) @ tail))"
proof -
  have "rs_ctx run_start = \<lparr>pc_next_arg_id = int 0, pc_check = None\<rparr>" by (simp add: run_start_def)
  from fields_loop [OF assms(1,2) this, of ts tail "length (fields_format ts tail) + 1" f] assms(3)
  show ?thesis unfolding vformat_to_parse parse_format_string_def by (auto simp: ok_def run_start_def)
qed

end
