(* ===== verification/Fmt_Theorems.thy ===== *)
theory Fmt_Theorems
  imports Fmt_Text
begin

text \<open>
  The properties of the formatting library that the log messages rest on: what format strings, integers and
  strings are written as, what the check of a format string promises, how arguments are found, and the
  round trips of text.
\<close>

section \<open>Format strings\<close>

text \<open>
  C28. A format string made of texts, whose braces are doubled, and of empty fields writes the texts as they
  are and, in order, the plain text of the arguments: decimal numbers, true or false, chars, strings and
  hexadecimal addresses.  This holds with any number of arguments, packed or not.
\<close>

theorem format_writes_fields:
  assumes "args_ok args []" and "\<forall>a \<in> set args. printable_arg a" and "length ts = length args"
  shows "vformat_to (fields_format ts tail) (make_format_args args []) f =
    Some (Inr (concat (map2 (\<lambda>t a. t @ plain_text a) ts args) @ tail))"
  using fields_written [OF assms] .

definition plain_facet :: format_facet where
  "plain_facet = \<lparr>ff_separator = [], ff_grouping = []\<rparr>"

lemma plain_facet_ok: "facet_ok plain_facet"
  by (simp add: plain_facet_def facet_ok_def)

lemma log_args_ok: "args_ok [Ulong_long_arg 907, Ulong_long_arg 12] []"
  by (simp add: args_ok_def)

theorem format_writes_fields_witness:
  "vformat_to ''hash={} pairs={}'' (make_format_args [Ulong_long_arg 907, Ulong_long_arg 12] []) plain_facet = Some (Inr ''hash=907 pairs=12'')"
proof -
  have d: "digits 907 = ''907''" "digits 12 = ''12''" by (simp_all add: digits.simps digit_chars)
  from format_writes_fields [OF log_args_ok, of "[''hash='', '' pairs='']" "[]" plain_facet]
  show ?thesis by (simp add: fields_format_def printable_arg_def to_string_def d)
qed

text \<open>
  C29. Formatting is defined for every format string below two gigabytes, whatever it holds: nothing outside
  the string, the arguments or a buffer is read, no assertion fails and no counter overflows; there is a text
  or an error, and the parser ends.
\<close>

theorem formatting_has_a_result:
  assumes "args_ok args named" and "facet_ok f" and "length fmt < 2 ^ 31"
  shows "\<exists>r. vformat_to fmt (make_format_args args named) f = Some r"
  using vformat_to_defined [OF assms] by blast

theorem formatting_has_a_result_witness:
  "\<exists>r. vformat_to ''{:{}} {'' (make_format_args [Ulong_long_arg 907, Ulong_long_arg 12] []) plain_facet = Some r"
  by (rule formatting_has_a_result [OF log_args_ok plain_facet_ok]) simp

text \<open>
  C30. A format string that the check of constant format strings accepts for the types of the arguments is
  written, or fails for one of four reasons that lie in the values: a width or precision that is not an
  integer or out of range, a null string, an argument that is not there; with named arguments also for an
  automatic id after a name.
\<close>

theorem checked_format_is_written:
  assumes "check_format_string fmt (map arg_type args) named False = Some (Inr k)"
    and "args_ok args named" and "facet_ok f" and "length fmt < 2 ^ 31"
  shows "(\<exists>t. vformat_to fmt (make_format_args args named) f = Some (Inr t)) \<or>
    (\<exists>e \<in> late_errors (named \<noteq> []). vformat_to fmt (make_format_args args named) f = Some (Inl e))"
  using accepted_format [OF assms] .

lemma log_format_checked:
  "check_format_string ''hash={} pairs={}'' [ulong_long_type, ulong_long_type] [] False =
    Some (Inr \<lparr>pc_next_arg_id = 2, pc_check = Some (2, [ulong_long_type, ulong_long_type])\<rparr>)"
  by (simp add: check_format_string_def parse_format_string_def format_string_checker_def parse_replacement_field_def
      next_arg_id_def do_check_arg_id_def int_op_def nothrow_def check_field_def native_parse_def ok_def)

theorem checked_format_is_written_witness:
  "(\<exists>t. vformat_to ''hash={} pairs={}'' (make_format_args [Ulong_long_arg 907, Ulong_long_arg 12] []) plain_facet = Some (Inr t)) \<or>
    (\<exists>e \<in> late_errors False. vformat_to ''hash={} pairs={}'' (make_format_args [Ulong_long_arg 907, Ulong_long_arg 12] []) plain_facet = Some (Inl e))"
  using checked_format_is_written [OF _ log_args_ok plain_facet_ok, of "''hash={} pairs={}''"] log_format_checked by simp

text \<open>
  C32. Arguments are stored by a descriptor of four bits each for at most fifteen of them and by tagged values
  otherwise; either way an id finds the argument of its place in the list and none past its end, and a name
  finds the id of the first argument of that name.
\<close>

theorem arguments_found_by_id:
  assumes "args_ok args named" and "0 \<le> i" and "i < 2 ^ 31"
  shows "get_arg (make_format_args args named) i = Some (if nat i < length args then args ! nat i else No_arg) \<and>
    get_id (make_format_args args named) n = (case map_of named n of None \<Rightarrow> - 1 | Some j \<Rightarrow> j)"
  using get_arg_eq [OF assms] get_id_eq [OF assms(1)] by simp

theorem arguments_found_by_id_witness:
  "get_arg (make_format_args (replicate 16 (Bool_arg True)) [(''n'', 3)]) 15 = Some (Bool_arg True) \<and>
    get_id (make_format_args (replicate 16 (Bool_arg True)) [(''n'', 3)]) ''n'' = 3"
proof -
  have "args_ok (replicate 16 (Bool_arg True)) [(''n'', 3)]" by (simp add: args_ok_def)
  from arguments_found_by_id [OF this, of 15 "''n''"] show ?thesis by simp
qed

section \<open>Integers and strings\<close>

text \<open>
  C31. An integer of 32, 64 or 128 bits, signed or not, is written as sign, prefix of the alternate form, zeros
  up to the width or the precision and digits in its base, padded to the width; the smallest signed number
  included.
\<close>

theorem integer_is_written:
  assumes "- (2 ^ (w - 1)) \<le> v" and "v < 2 ^ w" and "0 < w" and "int_pres specs" and "specs_wf specs"
    and "\<not> sp_localized specs"
  shows "write_integer w v specs f = Some (integer_text v specs)"
  using write_int_eq [OF assms(1-5)] assms(6) by (simp add: write_integer_def)

text \<open>The specifications of \<open>{:#06x}\<close>.\<close>

definition demo_hex_specs :: dynamic_format_specs where
  "demo_hex_specs = (set_type pres_hex (set_alt (set_align align_numeric default_dynamic_specs)))\<lparr>sp_width := 6\<rparr>"

theorem integer_is_written_witness:
  "write_integer 32 (- 255) demo_hex_specs plain_facet = Some ''-0x0ff''"
proof -
  have wf: "specs_wf demo_hex_specs" using dynamic_wf_default by (simp add: demo_hex_specs_def specs_wf_def specs_simps)
  have t: "sp_type demo_hex_specs = 4" "sp_align demo_hex_specs = align_numeric" "sp_alt demo_hex_specs" "\<not> sp_upper demo_hex_specs"
      "sp_sign demo_hex_specs = sign_none" "\<not> sp_localized demo_hex_specs" "sp_width demo_hex_specs = 6"
    by (simp_all add: demo_hex_specs_def specs_simps)
  have d: "base_text 4 False 255 = ''ff''" by code_simp
  from integer_is_written [OF _ _ _ _ wf, of 32 "- 255" plain_facet] t d show ?thesis
    by (simp add: int_pres_def integer_text_def int_text_def sign_text_def alt_text_def pad_0)
qed

text \<open>
  C33. With a precision a string is cut between code points: what is written is the longest prefix whose
  display width is at most the precision, and the padding counts display columns, not bytes.
\<close>

theorem precision_cuts_string:
  assumes "specs_wf specs" and "sp_type specs \<noteq> pres_debug" and "0 \<le> sp_precision specs"
  shows "\<exists>k. let cps = codepoints s; cols = sum_list (map (display_width_of \<circ> fst) (take k cps))
    in write_string s specs = Some (pad align_left specs cols (concat (map snd (take k cps)))) \<and>
       cols \<le> nat (sp_precision specs) \<and>
       (k < length cps \<longrightarrow> nat (sp_precision specs) < cols + display_width_of (fst (cps ! k)))"
proof -
  obtain k where k: "snd (fit (nat (sp_precision specs)) 0 (codepoints s)) = concat (map snd (take k (codepoints s)))"
      "fst (fit (nat (sp_precision specs)) 0 (codepoints s)) = sum_list (map (display_width_of \<circ> fst) (take k (codepoints s)))"
      "fst (fit (nat (sp_precision specs)) 0 (codepoints s)) \<le> nat (sp_precision specs)"
      "k < length (codepoints s) \<longrightarrow>
        nat (sp_precision specs) < fst (fit (nat (sp_precision specs)) 0 (codepoints s)) + display_width_of (fst (codepoints s ! k))"
    using fit_prefix [of "nat (sp_precision specs)" 0 "codepoints s"] unfolding comp_def by (metis add_0 le0)
  from write_string_eq [OF assms, of s] k show ?thesis
    by (intro exI [of _ k]) (simp add: Let_def case_prod_unfold)
qed

definition demo_cut_specs :: dynamic_format_specs where
  "demo_cut_specs = default_dynamic_specs\<lparr>sp_precision := 3\<rparr>"

theorem precision_cuts_string_witness:
  "\<exists>k. let cps = codepoints ''pricer''; cols = sum_list (map (display_width_of \<circ> fst) (take k cps))
    in write_string ''pricer'' demo_cut_specs = Some (pad align_left demo_cut_specs cols (concat (map snd (take k cps)))) \<and>
       cols \<le> 3 \<and> (k < length cps \<longrightarrow> 3 < cols + display_width_of (fst (cps ! k)))"
proof -
  have "specs_wf demo_cut_specs" "sp_type demo_cut_specs \<noteq> pres_debug" "sp_precision demo_cut_specs = 3"
    using dynamic_wf_default by (simp_all add: demo_cut_specs_def specs_wf_def specs_simps)
  from precision_cuts_string [OF this(1,2), of "''pricer''"] this(3) show ?thesis by (simp add: Let_def)
qed

section \<open>Round trips of text\<close>

text \<open>
  Round trip between UTF-8 and UTF-16: text that decodes is encoded back to the same bytes, surrogate
  pairs included, and 16-bit units that encode without an error decode to the same units.
\<close>

theorem utf16_roundtrip:
  assumes "list_all (\<lambda>u. u < 65536) us"
  shows "utf8_to_utf16 s = Some (Some us) \<longleftrightarrow> convert 2 policy_abort us = Some s"
  using decode_convert [of s us] convert_decode [OF _ assms, of s] by (auto simp: utf8_to_utf16_eq)

theorem utf16_roundtrip_witness:
  "utf8_to_utf16 [CHR 0xF0, CHR 0x9F, CHR 0x98, CHR 0x80] = Some (Some [0xD83D, 0xDE00])"
proof -
  have cp: "utf8_of_cp 0x1F600 = Some [CHR 0xF0, CHR 0x9F, CHR 0x98, CHR 0x80]"
    by (simp add: utf8_of_cp_eq char_of_eq_iff)
  have "convert 2 policy_abort [] = Some []" by (simp add: convert.simps)
  moreover have "utf16_units 0x1F600 = [0xD83D, 0xDE00]" by (simp add: utf16_units_def Let_def and_low drop_bit_eq_div)
  ultimately have "convert 2 policy_abort [0xD83D, 0xDE00] = Some [CHR 0xF0, CHR 0x9F, CHR 0x98, CHR 0x80]"
    using convert_utf16_units [OF cp, of policy_abort "[]"] by simp
  then show ?thesis using utf16_roundtrip [of "[0xD83D, 0xDE00]"] by simp
qed

text \<open>
  C34. The debug presentation of a string is, between quotes, the text of each of its code points: itself when
  it is printable, an escape otherwise; bytes that are no code point are escaped one by one.  The search for
  the next code point to escape is a matter of speed only.
\<close>

theorem debug_text_per_code_point:
  "write_escaped_string s =
     map_option (\<lambda>t. CHR 0x22 # t @ [CHR 0x22]) (concat_opt debug_cp (codepoints s)) \<and>
   concat (map snd (codepoints s)) = s \<and> write_escaped_string s \<noteq> None"
  using write_escaped_string_total [of s]
  unfolding write_escaped_string_def escape_loop_eq concat_codepoints by (cases "concat_opt debug_cp (codepoints s)") simp_all

section \<open>Where the check and the writer differ\<close>

text \<open>The check does not see that a field is named; the writer then refuses an automatic id.\<close>

lemma name_then_automatic:
  "check_format_string ''{n} {}'' (map arg_type [Bool_arg True, Bool_arg True]) [(''n'', 0)] False =
     Some (Inr \<lparr>pc_next_arg_id = 1, pc_check = Some (2, [bool_type, bool_type])\<rparr>)"
  "vformat_to ''{n} {}'' (make_format_args [Bool_arg True, Bool_arg True] [(''n'', 0)]) plain_facet = Some (Inl switch_error)"
proof -
  have ok: "args_ok [Bool_arg True, Bool_arg True] [(''n'', 0)]" by (simp add: args_ok_def)
  have id: "parse_arg_id ''n} {}'' = ok (Arg_name ''n'', ''} {}'')"
    by (simp add: parse_arg_id_def is_digit_def is_name_start_def Let_def)
  show "check_format_string ''{n} {}'' (map arg_type [Bool_arg True, Bool_arg True]) [(''n'', 0)] False =
     Some (Inr \<lparr>pc_next_arg_id = 1, pc_check = Some (2, [bool_type, bool_type])\<rparr>)"
    by (simp add: check_format_string_def parse_format_string_def format_string_checker_def parse_replacement_field_def id
        check_name_def next_arg_id_def do_check_arg_id_def int_op_def nothrow_def check_field_def native_parse_def Let_def)
  show "vformat_to ''{n} {}'' (make_format_args [Bool_arg True, Bool_arg True] [(''n'', 0)]) plain_facet = Some (Inl switch_error)"
    using get_arg_eq [OF ok, of 0] get_id_eq [OF ok, of "''n''"]
    by (simp add: vformat_to_def parse_format_string_def format_handler_def parse_replacement_field_def id run_field_def nothrow_def
        write_bool_default plain_facet_def [symmetric] check_arg_id_name_def next_arg_id_def append_out_def run_start_def)
      (simp add: report_error_def switch_error_def)
qed

text \<open>The check accepts a boolean as a width, the writer refuses it.\<close>

lemma bool_width:
  "check_format_string ''{:{}}'' (map arg_type [Bool_arg True, Bool_arg True]) [] False =
     Some (Inr \<lparr>pc_next_arg_id = 2, pc_check = Some (2, [bool_type, bool_type])\<rparr>)" 
  "vformat_to ''{:{}}'' (make_format_args [Bool_arg True, Bool_arg True] []) f = Some (Inl ''width/precision is not integer'')" 
proof -
  let ?c = "\<lambda>i ck. \<lparr>pc_next_arg_id = i, pc_check = ck\<rparr>"
  let ?ty = "Some (2, [bool_type, bool_type])"
  let ?specs = "set_dynamic_width kind_index (default_dynamic_specs\<lparr>sp_width := 0, sp_width_ref := Arg_index 1\<rparr>)"
  have ids: "next_arg_id (?c 0 ck) = ok (0, ?c 1 ck)" "next_arg_id (?c 1 ck) = ok (1, ?c 2 ck)" if "ck = None \<or> ck = ?ty" for ck
    using that by (auto simp: next_arg_id_def do_check_arg_id_def int_op_def nothrow_def Let_def ok_def)
  have st: "enter_state st_start st_width True = ok st_width" by (simp add: enter_state_def)
  have dig: "\<not> is_digit (CHR ''{'')" by (simp add: is_digit_def)
  have "specs_step bool_type (CHR ''{'') st_start ''{}}'' default_dynamic_specs (?c 1 ck) =
      ok (Spec_next st_width ''}'' ?specs (?c 2 ck))" if "ck = None \<or> ck = ?ty" for ck
    using that ids(2) [OF that]
    by (auto simp: specs_step_def st parse_width_def parse_dynamic_spec_def dig check_dynamic_spec_def is_integral_type_def specs_simps)
  moreover have "specs_step bool_type (CHR ''}'') st_width ''}'' ?specs x = ok (Spec_done ''}'' ?specs x)" for x
    by (simp add: specs_step_def)
  ultimately have parse: "parse_format_specs ''{}}'' default_dynamic_specs (?c 1 ck) bool_type = ok (''}'', ?specs, ?c 2 ck)"
    if "ck = None \<or> ck = ?ty" for ck
    using that by (simp add: parse_format_specs_def parse_align_def Let_def specs_loop.simps [of bool_type])
  show "check_format_string ''{:{}}'' (map arg_type [Bool_arg True, Bool_arg True]) [] False = Some (Inr (?c 2 ?ty))" 
    by (simp add: check_format_string_def parse_format_string_def format_string_checker_def parse_replacement_field_def
      field_specs_def ids check_specs_def native_parse_def parse)
  have ok: "args_ok [Bool_arg True, Bool_arg True] []" by (simp add: args_ok_def)
  have "sp_dynamic ?specs" using not_dynamic [of ?specs] by (auto simp: specs_simps)
  then show "vformat_to ''{:{}}'' (make_format_args [Bool_arg True, Bool_arg True] []) f = Some (Inl ''width/precision is not integer'')" 
    using get_arg_eq [OF ok, of 0] get_arg_eq [OF ok, of 1]
    by (simp add: vformat_to_def parse_format_string_def format_handler_def parse_replacement_field_def field_specs_def ids parse
      run_specs_def nothrow_def append_out_def resolve_specs_def handle_dynamic_spec_def specs_simps run_start_def)
     (simp add: report_error_def)
qed

text \<open>The zeros of a localized number are written before its sign: \<open>{:+05L}\<close> of 5.\<close>

lemma zeros_before_sign: 
  fixes specs :: dynamic_format_specs
  assumes "specs = (set_sign sign_plus (set_localized (set_align align_numeric (set_fill_char (CHR ''0'') default_dynamic_specs))))\<lparr>sp_width := 5\<rparr>"
  shows "write_integer 32 5 specs plain_facet = Some ''000+5''"
proof -
  have s: "sp_type specs = 0" "sp_sign specs = sign_plus" "sp_localized specs" "sp_align specs = align_numeric" "sp_width specs = 5" "\<not> sp_alt specs"
    "fill_size specs = 1" "sp_fill_data specs ! 0 = CHR ''0''"
    by (simp_all add: assms specs_simps set_fill_char_def)
  have d: "count_digits 64 5 = 1" "format_decimal 5 (Suc 0) = Some ''5''"
    using format_decimal_eq [of 5] by (simp_all add: count_digits_eq digits.simps digit_chars)
  have p: "prefix_text (sign_prefix 5 sign_plus) = ''+''" "prefix_size (sign_prefix 5 sign_plus) = 1"
    using sign_prefix_is [of 5 sign_plus] by (simp_all add: prefix_is_def sign_text_def)
  have "write_padded align_right specs 2 ''+5'' = Some (''000'' @ ''+5'')"
    using write_padded_eq [of specs align_right 2 "''+5''"] s by (simp add: pad_def Let_def fill_def numeral_eq_Suc)
  then show ?thesis
    by (simp add: write_integer_def make_write_int_arg_eq write_int_grouped_def loc_digits_def s Let_def d)
      (simp add: plain_facet_def count_separators_def grouping_next_def grouping_apply_def p numeral_2_eq_2)
qed

end
