(* ===== verification/Log_Api.thy ===== *)
theory Log_Api
  imports Logger Circular_Q Fmt_Format
begin

text \<open>
  The logger that the program calls: \<open>spdlog/logger.h\<close> and \<open>logger-inl.h\<close> with the formatting of the
  arguments, the errors that are caught, the backtrace and the report of errors.  A sink gets the lines it is
  given; that writing them fails is a matter of the sink.
\<close>

section \<open>Errors\<close>

text \<open>The report of an error: at most one in a second; the date comes from \<open>strftime\<close>.\<close>

record err_state =
  er_last_report_time :: int
  er_counter :: nat

definition err_start :: err_state where
  "err_start = \<lparr>er_last_report_time = 0, er_counter = 0\<rparr>"

definition c_str :: "string \<Rightarrow> string" where
  "c_str s = takeWhile (\<lambda>c. c \<noteq> CHR 0x00) s"

definition default_err_handler :: "int \<Rightarrow> string \<Rightarrow> string \<Rightarrow> string \<Rightarrow> err_state \<Rightarrow> string option \<times> err_state" where
  "default_err_handler now date name msg st =
     (let n = (er_counter st + 1) mod 2 ^ 64
      in if now - er_last_report_time st < 10 ^ 9 then (None, st\<lparr>er_counter := n\<rparr>)
         else (Some (''[*** LOG ERROR #'' @ zero_padded 4 n @ '' ***] ['' @ c_str date @ ''] ['' @ c_str name @ ''] '' @ c_str msg @ [CHR 0x0A]),
               \<lparr>er_last_report_time = now, er_counter = n\<rparr>))"

text \<open>
  What \<open>SPDLOG_LOGGER_CATCH\<close> makes of an exception with the text \<open>what\<close>: the argument of the handler.
  The addresses of the two C strings are some that are not null.
\<close>

definition catch_text :: "source_loc \<Rightarrow> string \<Rightarrow> format_facet \<Rightarrow> string option" where
  "catch_text loc what f =
     (case loc_filename loc of
        None \<Rightarrow> Some what
      | Some file \<Rightarrow>
          (case vformat_to ''{} [{}({})]''
             (make_format_args [Cstring_arg 1 what, Cstring_arg 1 file, Int_arg (word_of_int (loc_line loc))] []) f of
             Some (Inr t) \<Rightarrow> Some t | _ \<Rightarrow> None))"

section \<open>The logger\<close>

record api_logger =
  al_logger :: logger
  al_tracer :: "log_msg backtracer"

text \<open>The line of each sink and whether it flushes it at once, and whether the logger then flushes them all.\<close>

type_synonym log_output = "(string \<times> bool) option list \<times> bool"

definition sink_it :: "os_env \<Rightarrow> logger \<Rightarrow> log_msg \<Rightarrow> (logger \<times> log_output \<times> log_msg) option" where
  "sink_it env lg msg = do {
     (ss, lines, msg') \<leftarrow> sink_it_loop env (lg_sinks lg) msg;
     Some (lg\<lparr>lg_sinks := ss\<rparr>, (lines, should_flush lg msg'), msg')
   }"

definition log_it_traced ::
    "os_env \<Rightarrow> api_logger \<Rightarrow> log_msg \<Rightarrow> bool \<Rightarrow> bool \<Rightarrow> (api_logger \<times> log_output list) option" where
  "log_it_traced env l msg log_enabled traceback_enabled = do {
     (lg, outs, msg') \<leftarrow>
       (if log_enabled then do { (lg, out, msg') \<leftarrow> sink_it env (al_logger l) msg; Some (lg, [out], msg') }
        else Some (al_logger l, [], msg));
     tracer \<leftarrow> (if traceback_enabled then bt_push_back msg' (al_tracer l) else Some (al_tracer l));
     Some (\<lparr>al_logger = lg, al_tracer = tracer\<rparr>, outs)
   }"

text \<open>A call with a text, and one with a format string and its arguments.\<close>

definition log_text ::
    "os_env \<Rightarrow> int \<Rightarrow> nat \<Rightarrow> source_loc \<Rightarrow> level_enum \<Rightarrow> string \<Rightarrow> api_logger \<Rightarrow> (api_logger \<times> log_output list) option" where
  "log_text env log_time tid loc lvl msg l =
     (let log_enabled = should_log (al_logger l) lvl; traceback_enabled = bt_enabled (al_tracer l)
      in if \<not> log_enabled \<and> \<not> traceback_enabled then Some (l, [])
         else log_it_traced env l (make_log_msg log_time tid loc (lg_name (al_logger l)) lvl msg) log_enabled traceback_enabled)"

definition log_format ::
    "os_env \<Rightarrow> int \<Rightarrow> nat \<Rightarrow> source_loc \<Rightarrow> level_enum \<Rightarrow> string \<Rightarrow> fmt_arg list \<Rightarrow> format_facet \<Rightarrow> api_logger \<Rightarrow>
     (api_logger \<times> log_output list \<times> string option) option" where
  "log_format env now tid loc lvl fmt args f l =
     (let log_enabled = should_log (al_logger l) lvl; traceback_enabled = bt_enabled (al_tracer l)
      in if \<not> log_enabled \<and> \<not> traceback_enabled then Some (l, [], None)
         else (case vformat_to fmt (make_format_args args []) f of
             None \<Rightarrow> None
           | Some (Inl e) \<Rightarrow> map_option (\<lambda>t. (l, [], Some t)) (catch_text loc e f)
           | Some (Inr buf) \<Rightarrow>
               map_option (\<lambda>(l', outs). (l', outs, None))
                 (log_it_traced env l (make_log_msg now tid loc (lg_name (al_logger l)) lvl buf) log_enabled traceback_enabled)))"

section \<open>Configuration\<close>

definition lg_set_level :: "level_enum \<Rightarrow> api_logger \<Rightarrow> api_logger" where
  "lg_set_level lvl l = l\<lparr>al_logger := (al_logger l)\<lparr>lg_level := lvl\<rparr>\<rparr>"

definition lg_flush_on :: "level_enum \<Rightarrow> api_logger \<Rightarrow> api_logger" where
  "lg_flush_on lvl l = l\<lparr>al_logger := (al_logger l)\<lparr>lg_flush_level := lvl\<rparr>\<rparr>"

text \<open>Each sink gets a formatter of its own; the last one gets the original.\<close>

fun set_formatters :: "int \<Rightarrow> pattern_formatter \<Rightarrow> sink list \<Rightarrow> sink list" where
  "set_formatters now f [] = []"
| "set_formatters now f [s] = [s\<lparr>sk_formatter := f\<rparr>]"
| "set_formatters now f (s # s' # ss) = s\<lparr>sk_formatter := pf_clone now f\<rparr> # set_formatters now f (s' # ss)"

definition lg_set_formatter :: "int \<Rightarrow> pattern_formatter \<Rightarrow> api_logger \<Rightarrow> api_logger" where
  "lg_set_formatter now f l = l\<lparr>al_logger := (al_logger l)\<lparr>lg_sinks := set_formatters now f (lg_sinks (al_logger l))\<rparr>\<rparr>"

definition lg_set_pattern :: "int \<Rightarrow> string \<Rightarrow> string \<Rightarrow> pattern_time_type \<Rightarrow> api_logger \<Rightarrow> api_logger" where
  "lg_set_pattern now eol pattern time_type l =
     lg_set_formatter now (mk_pattern_formatter now pattern time_type eol Map.empty) l"

definition blank_msg :: log_msg where
  "blank_msg = make_log_msg 0 0 \<lparr>loc_filename = None, loc_line = 0, loc_funcname = None\<rparr> [] level_off []"

definition lg_enable_backtrace :: "nat \<Rightarrow> api_logger \<Rightarrow> api_logger" where
  "lg_enable_backtrace n_messages l = l\<lparr>al_tracer := bt_enable blank_msg n_messages (al_tracer l)\<rparr>"

definition lg_disable_backtrace :: "api_logger \<Rightarrow> api_logger" where
  "lg_disable_backtrace l = l\<lparr>al_tracer := bt_disable (al_tracer l)\<rparr>"

section \<open>The dump of the backtrace\<close>

fun sink_all :: "os_env \<Rightarrow> logger \<Rightarrow> log_msg list \<Rightarrow> (logger \<times> log_output list) option" where
  "sink_all env lg [] = Some (lg, [])"
| "sink_all env lg (msg # msgs) = do {
     (lg', out, msg') \<leftarrow> sink_it env lg msg;
     (lg'', outs) \<leftarrow> sink_all env lg' msgs;
     Some (lg'', out # outs)
   }"

definition stars :: "nat \<Rightarrow> string" where
  "stars n = replicate n (CHR ''*'')"

definition banner :: "int \<Rightarrow> nat \<Rightarrow> logger \<Rightarrow> string \<Rightarrow> log_msg" where
  "banner now tid lg txt = make_log_msg now tid \<lparr>loc_filename = None, loc_line = 0, loc_funcname = None\<rparr> (lg_name lg) level_info txt"

definition dump_backtrace :: "os_env \<Rightarrow> int \<Rightarrow> int \<Rightarrow> nat \<Rightarrow> api_logger \<Rightarrow> (api_logger \<times> log_output list) option" where
  "dump_backtrace env start stop tid l =
     (if bt_enabled (al_tracer l) \<and> \<not> cq_empty (bt_messages (al_tracer l)) then do {
        (lg1, out1, _) \<leftarrow> sink_it env (al_logger l) (banner start tid (al_logger l) (stars 18 @ '' Backtrace Start '' @ stars 18));
        (msgs, tracer) \<leftarrow> bt_foreach_pop (al_tracer l);
        (lg2, outs) \<leftarrow> sink_all env lg1 msgs;
        (lg3, out3, _) \<leftarrow> sink_it env lg2 (banner stop tid (al_logger l) (stars 18 @ '' Backtrace End '' @ stars 20));
        Some (\<lparr>al_logger = lg3, al_tracer = tracer\<rparr>, out1 # outs @ [out3])
      }
      else Some (l, []))"

end
