(* ===== verification/Registry.thy ===== *)
theory Registry
  imports Log_Api "HOL-Library.AList"
begin

text \<open>
  The registry of loggers: \<open>spdlog/details/registry-inl.h\<close> and the functions of \<open>spdlog-inl.h\<close> on it.
  Loggers are shared objects: the registry's map, its default logger and the program refer to the same ones,
  so they live in a store and a reference is an address in it.  The thread pool, the periodic flusher and
  custom error handlers are left out, and objects are not freed.
\<close>

section \<open>State\<close>

record registry =
  rg_objects :: "api_logger list"
  rg_loggers :: "(string \<times> nat) list"
  rg_default :: "nat option"
  rg_log_levels :: "(string \<times> level_enum) list"
  rg_formatter :: pattern_formatter
  rg_level :: level_enum
  rg_flush_level :: level_enum
  rg_automatic :: bool
  rg_backtrace_n :: nat

definition api_name :: "api_logger \<Rightarrow> string" where
  "api_name l = lg_name (al_logger l)"

text \<open>The constructor, with the default logger of an empty name on the console.\<close>

definition mk_registry :: "int \<Rightarrow> string \<Rightarrow> registry" where
  "mk_registry now eol =
     (let color_sink = \<lparr>sk_target = stdout_color_sink, sk_level = level_trace, sk_formatter = default_pattern_formatter time_local eol\<rparr>;
          l = \<lparr>al_logger = \<lparr>lg_name = [], lg_sinks = [color_sink], lg_level = level_info, lg_flush_level = level_off\<rparr>, al_tracer = bt_init\<rparr>
      in \<lparr>rg_objects = [l], rg_loggers = [([], 0)], rg_default = Some 0, rg_log_levels = [],
          rg_formatter = default_pattern_formatter time_local eol, rg_level = level_info, rg_flush_level = level_off,
          rg_automatic = True, rg_backtrace_n = 0\<rparr>)"

definition object :: "registry \<Rightarrow> nat \<Rightarrow> api_logger option" where
  "object r a = (if a < length (rg_objects r) then Some (rg_objects r ! a) else None)"

definition update_object :: "(api_logger \<Rightarrow> api_logger) \<Rightarrow> nat \<Rightarrow> registry \<Rightarrow> registry" where
  "update_object g a r = r\<lparr>rg_objects := (rg_objects r)[a := g (rg_objects r ! a)]\<rparr>"

text \<open>\<open>for (auto &l : loggers_)\<close>, with a function of the key and the logger.\<close>

fun for_loggers :: "(string \<Rightarrow> api_logger \<Rightarrow> api_logger) \<Rightarrow> (string \<times> nat) list \<Rightarrow> registry \<Rightarrow> registry" where
  "for_loggers g [] r = r"
| "for_loggers g ((n, a) # ls) r = for_loggers g ls (update_object (g n) a r)"

section \<open>Operations\<close>

text \<open>\<open>std::make_shared<logger>\<close>: a new object and its address.\<close>

definition make_logger :: "api_logger \<Rightarrow> registry \<Rightarrow> nat \<times> registry" where
  "make_logger l r = (length (rg_objects r), r\<lparr>rg_objects := rg_objects r @ [l]\<rparr>)"

definition throw_if_exists :: "string \<Rightarrow> registry \<Rightarrow> string option" where
  "throw_if_exists name r =
     (if map_of (rg_loggers r) name \<noteq> None
      then Some (''logger with name '' @ [CHR 0x27] @ name @ [CHR 0x27] @ '' already exists'') else None)"

text \<open>The result of an operation: the registry, and an exception.\<close>

definition register_logger :: "nat \<Rightarrow> registry \<Rightarrow> registry \<times> string option" where
  "register_logger a r =
     (let name = api_name (rg_objects r ! a)
      in case throw_if_exists name r of
           Some e \<Rightarrow> (r, Some e)
         | None \<Rightarrow> (r\<lparr>rg_loggers := AList.update name a (rg_loggers r)\<rparr>, None))"

definition register_or_replace :: "nat \<Rightarrow> registry \<Rightarrow> registry" where
  "register_or_replace a r = r\<lparr>rg_loggers := AList.update (api_name (rg_objects r ! a)) a (rg_loggers r)\<rparr>"

text \<open>The level that is configured for a logger.\<close>

definition apply_logger_env_levels :: "nat \<Rightarrow> registry \<Rightarrow> registry" where
  "apply_logger_env_levels a r =
     update_object (\<lambda>l. lg_set_level (case map_of (rg_log_levels r) (api_name l) of Some lvl \<Rightarrow> lvl | None \<Rightarrow> rg_level r) l) a r"

definition initialize_logger :: "int \<Rightarrow> nat \<Rightarrow> registry \<Rightarrow> registry \<times> string option" where
  "initialize_logger now a r =
     (let r1 = update_object (lg_set_formatter now (pf_clone now (rg_formatter r))) a r;
          r2 = apply_logger_env_levels a r1;
          r3 = update_object (lg_flush_on (rg_flush_level r)) a r2;
          r4 = (if rg_backtrace_n r > 0 then update_object (lg_enable_backtrace (rg_backtrace_n r)) a r3 else r3)
      in if rg_automatic r then register_logger a r4 else (r4, None))"

definition get_logger :: "string \<Rightarrow> registry \<Rightarrow> nat option" where
  "get_logger name r = map_of (rg_loggers r) name"

definition set_default_logger :: "nat option \<Rightarrow> registry \<Rightarrow> registry" where
  "set_default_logger d r =
     (let r1 = (case d of None \<Rightarrow> r
          | Some a \<Rightarrow> r\<lparr>rg_loggers := AList.update (api_name (rg_objects r ! a)) a (rg_loggers r)\<rparr>)
      in r1\<lparr>rg_default := d\<rparr>)"

definition registry_set_formatter :: "int \<Rightarrow> pattern_formatter \<Rightarrow> registry \<Rightarrow> registry" where
  "registry_set_formatter now f r =
     for_loggers (\<lambda>n. lg_set_formatter now (pf_clone now f)) (rg_loggers r) (r\<lparr>rg_formatter := f\<rparr>)"

definition registry_enable_backtrace :: "nat \<Rightarrow> registry \<Rightarrow> registry" where
  "registry_enable_backtrace n_messages r =
     for_loggers (\<lambda>n. lg_enable_backtrace n_messages) (rg_loggers r) (r\<lparr>rg_backtrace_n := n_messages\<rparr>)"

definition registry_disable_backtrace :: "registry \<Rightarrow> registry" where
  "registry_disable_backtrace r = for_loggers (\<lambda>n. lg_disable_backtrace) (rg_loggers r) (r\<lparr>rg_backtrace_n := 0\<rparr>)"

definition registry_set_level :: "level_enum \<Rightarrow> registry \<Rightarrow> registry" where
  "registry_set_level lvl r = (for_loggers (\<lambda>n. lg_set_level lvl) (rg_loggers r) r)\<lparr>rg_level := lvl\<rparr>"

definition registry_flush_on :: "level_enum \<Rightarrow> registry \<Rightarrow> registry" where
  "registry_flush_on lvl r = (for_loggers (\<lambda>n. lg_flush_on lvl) (rg_loggers r) r)\<lparr>rg_flush_level := lvl\<rparr>"

definition drop_logger :: "string \<Rightarrow> registry \<Rightarrow> registry" where
  "drop_logger name r =
     (let is_default_logger = (case rg_default r of None \<Rightarrow> False | Some d \<Rightarrow> api_name (rg_objects r ! d) = name);
          r1 = r\<lparr>rg_loggers := AList.delete name (rg_loggers r)\<rparr>
      in if is_default_logger then r1\<lparr>rg_default := None\<rparr> else r1)"

definition drop_all :: "registry \<Rightarrow> registry" where
  "drop_all r = r\<lparr>rg_loggers := [], rg_default := None\<rparr>"

definition set_automatic_registration :: "bool \<Rightarrow> registry \<Rightarrow> registry" where
  "set_automatic_registration b r = r\<lparr>rg_automatic := b\<rparr>"

definition set_levels :: "(string \<times> level_enum) list \<Rightarrow> level_enum option \<Rightarrow> registry \<Rightarrow> registry" where
  "set_levels levels global_level r =
     (let r1 = r\<lparr>rg_log_levels := levels, rg_level := (case global_level of Some g \<Rightarrow> g | None \<Rightarrow> rg_level r)\<rparr>
      in for_loggers (\<lambda>n l. case map_of levels n of
             Some lvl \<Rightarrow> lg_set_level lvl l
           | None \<Rightarrow> (case global_level of Some g \<Rightarrow> lg_set_level g l | None \<Rightarrow> l)) (rg_loggers r1) r1)"

text \<open>The factory behind \<open>spdlog::create\<close>: the new logger is returned unless its name is taken.\<close>

definition create_logger :: "int \<Rightarrow> string \<Rightarrow> string \<Rightarrow> sink \<Rightarrow> registry \<Rightarrow> registry \<times> (string + nat)" where
  "create_logger now eol name sink r =
     (let (a, r1) = make_logger \<lparr>al_logger = \<lparr>lg_name = name, lg_sinks = [sink], lg_level = level_info, lg_flush_level = level_off\<rparr>,
                                 al_tracer = bt_init\<rparr> r;
          (r2, err) = initialize_logger now a r1
      in (r2, case err of Some e \<Rightarrow> Inl e | None \<Rightarrow> Inr a))"

definition spdlog_set_pattern :: "int \<Rightarrow> string \<Rightarrow> string \<Rightarrow> pattern_time_type \<Rightarrow> registry \<Rightarrow> registry" where
  "spdlog_set_pattern now eol pattern time_type r =
     registry_set_formatter now (mk_pattern_formatter now pattern time_type eol Map.empty) r"

section \<open>The default logger\<close>

text \<open>
  The functions of \<open>spdlog\<close> on the default logger use it without a check that there is one: None is a
  null pointer that is dereferenced.
\<close>

definition spdlog_get_level :: "registry \<Rightarrow> level_enum option" where
  "spdlog_get_level r = do { d \<leftarrow> rg_default r; l \<leftarrow> object r d; Some (lg_level (al_logger l)) }"

definition spdlog_should_log :: "level_enum \<Rightarrow> registry \<Rightarrow> bool option" where
  "spdlog_should_log lvl r = do { d \<leftarrow> rg_default r; l \<leftarrow> object r d; Some (should_log (al_logger l) lvl) }"

definition spdlog_dump_backtrace :: "os_env \<Rightarrow> int \<Rightarrow> int \<Rightarrow> nat \<Rightarrow> registry \<Rightarrow> (registry \<times> log_output list) option" where
  "spdlog_dump_backtrace env start stop tid r = do {
     d \<leftarrow> rg_default r;
     l \<leftarrow> object r d;
     (l', outs) \<leftarrow> dump_backtrace env start stop tid l;
     Some (update_object (\<lambda>_. l') d r, outs)
   }"

text \<open>
  A call of \<open>spdlog::log\<close> with a format string: the lines, what the default error handler prints if the text
  cannot be formatted, and the state of that handler, which all loggers share.  \<open>err_now\<close> and \<open>err_date\<close> are
  the time and date that the handler reads.
\<close>

definition default_log ::
    "os_env \<Rightarrow> int \<Rightarrow> nat \<Rightarrow> source_loc \<Rightarrow> level_enum \<Rightarrow> string \<Rightarrow> fmt_arg list \<Rightarrow> format_facet \<Rightarrow> int \<Rightarrow> string \<Rightarrow>
     registry \<Rightarrow> err_state \<Rightarrow> (registry \<times> err_state \<times> log_output list \<times> string option) option" where
  "default_log env now tid loc lvl fmt args f err_now err_date r st = do {
     d \<leftarrow> rg_default r;
     l \<leftarrow> object r d;
     (l', outs, err) \<leftarrow> log_format env now tid loc lvl fmt args f l;
     let (printed, st') = (case err of None \<Rightarrow> (None, st)
       | Some what \<Rightarrow> default_err_handler err_now err_date (lg_name (al_logger l)) what st);
     Some (update_object (\<lambda>_. l') d r, st', outs, printed)
   }"

text \<open>\<open>setup_logger\<close> of \<open>src/logger.cpp\<close> on the registry.\<close>

definition install_logger :: "int \<Rightarrow> string \<Rightarrow> string \<Rightarrow> bool \<Rightarrow> bool \<Rightarrow> bool \<Rightarrow> registry \<Rightarrow> registry" where
  "install_logger now eol log_file utc tid cpu_id r =
     (let (a, r1) = make_logger \<lparr>al_logger = setup_logger now eol log_file utc tid cpu_id, al_tracer = bt_init\<rparr> r
      in set_default_logger (Some a) r1)"

section \<open>Any sequence of operations\<close>

datatype registry_op = Make api_logger | Register nat | Register_or_replace nat | Initialize int nat | Env_levels nat
  | Set_default "nat option" | Set_formatter int pattern_formatter | Enable_backtrace nat | Disable_backtrace
  | Set_level level_enum | Flush_on level_enum | Drop string | Drop_all | Set_automatic bool
  | Set_levels "(string \<times> level_enum) list" "level_enum option"

fun registry_step :: "registry_op \<Rightarrow> registry \<Rightarrow> registry \<times> string option" where
  "registry_step (Make l) r = (snd (make_logger l r), None)"
| "registry_step (Register a) r = register_logger a r"
| "registry_step (Register_or_replace a) r = (register_or_replace a r, None)"
| "registry_step (Initialize now a) r = initialize_logger now a r"
| "registry_step (Env_levels a) r = (apply_logger_env_levels a r, None)"
| "registry_step (Set_default d) r = (set_default_logger d r, None)"
| "registry_step (Set_formatter now f) r = (registry_set_formatter now f r, None)"
| "registry_step (Enable_backtrace n) r = (registry_enable_backtrace n r, None)"
| "registry_step Disable_backtrace r = (registry_disable_backtrace r, None)"
| "registry_step (Set_level lvl) r = (registry_set_level lvl r, None)"
| "registry_step (Flush_on lvl) r = (registry_flush_on lvl r, None)"
| "registry_step (Drop name) r = (drop_logger name r, None)"
| "registry_step Drop_all r = (drop_all r, None)"
| "registry_step (Set_automatic b) r = (set_automatic_registration b r, None)"
| "registry_step (Set_levels levels g) r = (set_levels levels g r, None)"

text \<open>An operation may name only objects that exist.\<close>

fun op_exists :: "registry_op \<Rightarrow> registry \<Rightarrow> bool" where
  "op_exists (Register a) r = (object r a \<noteq> None)"
| "op_exists (Register_or_replace a) r = (object r a \<noteq> None)"
| "op_exists (Initialize now a) r = (object r a \<noteq> None)"
| "op_exists (Env_levels a) r = (object r a \<noteq> None)"
| "op_exists (Set_default (Some a)) r = (object r a \<noteq> None)"
| "op_exists op r = True"

inductive registry_run :: "registry \<Rightarrow> registry_op list \<Rightarrow> registry \<Rightarrow> bool" where
  run_none: "registry_run r [] r"
| run_op: "registry_run r ops r1 \<Longrightarrow> op_exists op r1 \<Longrightarrow> registry_run r (ops @ [op]) (fst (registry_step op r1))"

end
