(* ===== verification/Log_Api_Facts.thy ===== *)
theory Log_Api_Facts
  imports Log_Api Logger_Facts Fmt_Text
begin

text \<open>
  Facts about the calls of the program's logger: each call writes its lines or reports its error, the
  backtrace is dumped as it was filled, and errors are reported at most once in a second.
\<close>

section \<open>What an error is reported as\<close>

lemma catch_text_eq:
  assumes "facet_ok f" and "- (2 ^ 31) \<le> loc_line loc" and "loc_line loc < 2 ^ 31"
  shows "catch_text loc what f =
    Some (case loc_filename loc of None \<Rightarrow> what | Some file \<Rightarrow> what @ '' ['' @ file @ ''('' @ to_string (loc_line loc) @ '')]'')"
proof (cases "loc_filename loc")
  case (Some path)
  let ?args = "[Cstring_arg 1 what, Cstring_arg 1 path, Int_arg (word_of_int (loc_line loc))]"
  have args: "args_ok ?args []" "\<forall>a \<in> set ?args. printable_arg a" by (simp_all add: args_ok_def printable_arg_def)
  have fmt: "fields_format [[], '' ['', ''(''] '')]'' = ''{} [{}({})]''" by (simp add: fields_format_def)
  have line: "sint (word_of_int (loc_line loc) :: u32) = loc_line loc"
    using assms(2,3) by (simp add: sint_sbintrunc' signed_take_bit_int_eq_self)
  from fields_written [OF args, of "[[], '' ['', ''('']" "'')]''" f] show ?thesis
    unfolding fmt by (simp add: catch_text_def Some line)
qed (simp add: catch_text_def)

text \<open>The reports that are printed for errors at some times, each with its time.\<close>

fun report_run :: "(int \<times> string \<times> string \<times> string) list \<Rightarrow> err_state \<Rightarrow> (int \<times> string) list" where
  "report_run [] st = []"
| "report_run ((now, date, name, msg) # es) st =
     (let (out, st') = default_err_handler now date name msg st
      in (case out of None \<Rightarrow> [] | Some s \<Rightarrow> [(now, s)]) @ report_run es st')"

text \<open>At most one in a second, whatever the times.\<close>

lemma reports_apart:
  "sorted_wrt (\<lambda>a b. fst a + 10 ^ 9 \<le> fst b) (report_run es st) \<and> (\<forall>x \<in> set (report_run es st). er_last_report_time st + 10 ^ 9 \<le> fst x)"
proof (induction es st rule: report_run.induct)
  case (2 now date name msg es st)
  obtain out st' where h: "default_err_handler now date name msg st = (out, st')" by fastforce
  with 2 have IH: "sorted_wrt (\<lambda>a b. fst a + 10 ^ 9 \<le> fst b) (report_run es st')"
    "\<forall>x \<in> set (report_run es st'). er_last_report_time st' + 10 ^ 9 \<le> fst x" by simp_all
  from h have "out = None \<and> er_last_report_time st' = er_last_report_time st \<or>
      out \<noteq> None \<and> er_last_report_time st' = now \<and> er_last_report_time st + 10 ^ 9 \<le> now"
    by (auto simp: default_err_handler_def Let_def split: if_splits)
  then show ?case
  proof (elim disjE conjE exE)
    assume "out = None" "er_last_report_time st' = er_last_report_time st"
    with IH h show ?thesis by simp
  next
    assume "out \<noteq> None" and times: "er_last_report_time st' = now" "er_last_report_time st + 10 ^ 9 \<le> now"
    then obtain s where "out = Some s" by blast
    with h have e: "report_run ((now, date, name, msg) # es) st = (now, s) # report_run es st'" by simp
    have "er_last_report_time st + 10 ^ 9 \<le> fst x" if "x \<in> set (report_run es st')" for x using bspec [OF IH(2) that] times by simp
    with IH times show ?thesis unfolding e by simp
  qed
qed simp

section \<open>Calls of the program's logger\<close>

definition api_ready :: "string \<Rightarrow> string \<Rightarrow> bool \<Rightarrow> bool \<Rightarrow> bool \<Rightarrow> (int \<Rightarrow> tm) \<Rightarrow> api_logger \<Rightarrow> bool" where
  "api_ready eol log_file utc tid cpu_id cal l \<longleftrightarrow> logger_ready eol log_file utc tid cpu_id cal (al_logger l) \<and>
     lg_name (al_logger l) = ''range_pricer''"

lemma sink_it_ready:
  assumes "logger_ready eol log_file utc tid cpu_id (os_localtime env) lg" and "\<forall>s. clock_ok (os_localtime env s)"
    and "msg_ok msg" and "10 ^ 9 \<le> msg_time msg"
  shows "\<exists>lg' a b. sink_it env lg msg = Some (lg',
      routes log_file (log_line env (os_localtime env (msg_time msg div 10 ^ 9)) msg eol utc tid cpu_id) msg,
      msg\<lparr>color_range_start := a, color_range_end := b\<rparr>) \<and>
    logger_ready eol log_file utc tid cpu_id (os_localtime env) lg' \<and> lg_name lg' = lg_name lg"
proof -
  from sink_it_loop_ready [OF _ assms(2-4)] assms(1) obtain ss' a b where "sink_it_loop env (lg_sinks lg) msg = Some (ss',
      map (routed (log_line env (os_localtime env (msg_time msg div 10 ^ 9)) msg eol utc tid cpu_id) msg) (program_sinks log_file),
      msg\<lparr>color_range_start := a, color_range_end := b\<rparr>)"
    "list_all2 (sink_ready eol utc tid cpu_id (os_localtime env)) (program_sinks log_file) ss'"
    unfolding logger_ready_def by blast
  with assms(1) show ?thesis by (auto simp: sink_it_def logger_ready_def should_flush_def routes_def)
qed

text \<open>
  A call: the system at its time, the time, thread and place, the level, format string and arguments, and the
  time and date that the error handler reads should the call fail.
\<close>

record log_call =
  lc_env :: os_env
  lc_time :: int
  lc_thread :: nat
  lc_loc :: source_loc
  lc_level :: level_enum
  lc_fmt :: string
  lc_args :: "fmt_arg list"
  lc_err_time :: int
  lc_err_date :: string

definition call_ok :: "(int \<Rightarrow> tm) \<Rightarrow> log_call \<Rightarrow> bool" where
  "call_ok cal c \<longleftrightarrow> os_localtime (lc_env c) = cal \<and>
     msg_ok (make_log_msg (lc_time c) (lc_thread c) (lc_loc c) ''range_pricer'' (lc_level c) []) \<and> 10 ^ 9 \<le> lc_time c \<and>
     args_ok (lc_args c) [] \<and> length (lc_fmt c) < 2 ^ 31 \<and> - (2 ^ 31) \<le> loc_line (lc_loc c) \<and> loc_line (lc_loc c) < 2 ^ 31"

text \<open>What a call gives: nothing below the level of the logger, the lines of the text, or the report of the error.\<close>

definition call_result ::
    "format_facet \<Rightarrow> (int \<Rightarrow> tm) \<Rightarrow> string \<Rightarrow> string \<Rightarrow> bool \<Rightarrow> bool \<Rightarrow> bool \<Rightarrow> log_call \<Rightarrow> log_output list \<times> string option" where
  "call_result f cal eol log_file utc tid cpu_id c =
     (if \<not> level_debug \<le> lc_level c then ([], None)
      else (case vformat_to (lc_fmt c) (make_format_args (lc_args c) []) f of
          Some (Inr t) \<Rightarrow>
            (let msg = make_log_msg (lc_time c) (lc_thread c) (lc_loc c) ''range_pricer'' (lc_level c) t
             in ([routes log_file (log_line (lc_env c) (cal (lc_time c div 10 ^ 9)) msg eol utc tid cpu_id) msg], None))
        | Some (Inl e) \<Rightarrow>
            ([], Some (case loc_filename (lc_loc c) of None \<Rightarrow> e
               | Some file \<Rightarrow> e @ '' ['' @ file @ ''('' @ to_string (loc_line (lc_loc c)) @ '')]''))
        | None \<Rightarrow> ([], None)))"

text \<open>The report that a call asks the error handler for.\<close>

definition call_errors :: "format_facet \<Rightarrow> (int \<Rightarrow> tm) \<Rightarrow> string \<Rightarrow> string \<Rightarrow> bool \<Rightarrow> bool \<Rightarrow> bool \<Rightarrow> log_call \<Rightarrow>
    (int \<times> string \<times> string \<times> string) list" where
  "call_errors f cal eol log_file utc tid cpu_id c =
     (case snd (call_result f cal eol log_file utc tid cpu_id c) of None \<Rightarrow> []
      | Some what \<Rightarrow> [(lc_err_time c, lc_err_date c, ''range_pricer'', what)])"

lemma msg_ok_text: "msg_ok (make_log_msg t tid loc n lvl a) \<longleftrightarrow> msg_ok (make_log_msg t tid loc n lvl b)"
  by (simp add: msg_ok_def make_log_msg_def)

lemma make_log_msg_simps [simp]:
  "msg_time (make_log_msg t tid loc n lvl a) = t" "msg_level (make_log_msg t tid loc n lvl a) = lvl"
  "payload (make_log_msg t tid loc n lvl a) = a"
  by (simp_all add: make_log_msg_def)

lemma log_format_ready:
  assumes "api_ready eol log_file utc tid cpu_id cal l" and "\<not> bt_enabled (al_tracer l)" and "\<forall>s. clock_ok (cal s)"
    and "call_ok cal c" and "facet_ok f"
  shows "\<exists>l'. log_format (lc_env c) (lc_time c) (lc_thread c) (lc_loc c) (lc_level c) (lc_fmt c) (lc_args c) f l =
      Some (l', call_result f cal eol log_file utc tid cpu_id c) \<and>
    api_ready eol log_file utc tid cpu_id cal l' \<and> \<not> bt_enabled (al_tracer l')"
proof (cases "level_debug \<le> lc_level c")
  case False
  then show ?thesis using assms(1,2)
    by (auto simp: log_format_def should_log_def api_ready_def logger_ready_def call_result_def Let_def)
next
  case True
  have c: "os_localtime (lc_env c) = cal" "10 ^ 9 \<le> lc_time c" using assms(4) by (simp_all add: call_ok_def)
  have lg: "logger_ready eol log_file utc tid cpu_id (os_localtime (lc_env c)) (al_logger l)" "lg_name (al_logger l) = ''range_pricer''"
    and le: "should_log (al_logger l) (lc_level c)"
    using assms(1) True c(1) by (simp_all add: api_ready_def logger_ready_def should_log_def)
  obtain r where r: "vformat_to (lc_fmt c) (make_format_args (lc_args c) []) f = Some r"
    using vformat_to_defined [of "lc_args c" "[]" f "lc_fmt c"] assms(4,5) by (auto simp: call_ok_def)
  show ?thesis
  proof (cases r)
    case (Inl e)
    then show ?thesis using assms r le True catch_text_eq [of f "lc_loc c" e]
      by (auto simp: log_format_def call_result_def call_ok_def split: option.split)
  next
    case (Inr t)
    let ?msg = "make_log_msg (lc_time c) (lc_thread c) (lc_loc c) ''range_pricer'' (lc_level c) t"
    have "msg_ok ?msg" using assms(4) msg_ok_text [of _ _ _ _ _ t "[]"] by (simp add: call_ok_def)
    from sink_it_ready [OF lg(1) _ this] assms(3) c obtain lg' a b where
      "sink_it (lc_env c) (al_logger l) ?msg = Some (lg',
        routes log_file (log_line (lc_env c) (cal (lc_time c div 10 ^ 9)) ?msg eol utc tid cpu_id) ?msg,
        ?msg\<lparr>color_range_start := a, color_range_end := b\<rparr>)"
      "logger_ready eol log_file utc tid cpu_id cal lg'" "lg_name lg' = lg_name (al_logger l)" by auto
    then show ?thesis using r Inr le True lg(2) assms(2)
      by (simp add: log_format_def log_it_traced_def call_result_def Let_def api_ready_def)
  qed
qed

text \<open>The logger of the program.\<close>

definition program_logger :: "int \<Rightarrow> string \<Rightarrow> string \<Rightarrow> bool \<Rightarrow> bool \<Rightarrow> bool \<Rightarrow> api_logger" where
  "program_logger now eol log_file utc tid cpu_id =
     \<lparr>al_logger = setup_logger now eol log_file utc tid cpu_id, al_tracer = bt_init\<rparr>"

lemma program_logger_ready:
  "api_ready eol log_file utc tid cpu_id cal (program_logger now eol log_file utc tid cpu_id)"
  "\<not> bt_enabled (al_tracer (program_logger now eol log_file utc tid cpu_id))"
  by (simp_all add: api_ready_def program_logger_def setup_logger_ready bt_init_def) (simp add: setup_logger_def Let_def)

section \<open>The backtrace\<close>

text \<open>Messages apart from the range that a formatter has coloured.\<close>

definition uncolored :: "log_msg \<Rightarrow> log_msg" where
  "uncolored msg = msg\<lparr>color_range_start := 0, color_range_end := 0\<rparr>"

lemma uncolored_upd [simp]:
  "uncolored (msg\<lparr>color_range_start := a, color_range_end := b\<rparr>) = uncolored msg"
  "uncolored (make_log_msg t tid loc n lvl a') = make_log_msg t tid loc n lvl a'"
  by (simp_all add: uncolored_def make_log_msg_def)

definition sunk :: "os_env \<Rightarrow> (int \<Rightarrow> tm) \<Rightarrow> string \<Rightarrow> string \<Rightarrow> bool \<Rightarrow> bool \<Rightarrow> bool \<Rightarrow> log_msg \<Rightarrow> log_output" where
  "sunk env cal eol log_file utc tid cpu_id msg =
     routes log_file (log_line env (cal (msg_time msg div 10 ^ 9)) msg eol utc tid cpu_id) msg"

lemma sunk_uncolored [simp]: "sunk env cal eol log_file utc tid cpu_id (uncolored msg) = sunk env cal eol log_file utc tid cpu_id msg"
proof -
  have "routed line (uncolored msg) = routed line msg" for line by (rule ext) (simp add: routed_def uncolored_def)
  then show ?thesis unfolding sunk_def routes_def by (simp add: uncolored_def)
qed

definition sinkable :: "log_msg \<Rightarrow> bool" where
  "sinkable msg \<longleftrightarrow> msg_ok msg \<and> 10 ^ 9 \<le> msg_time msg"

lemma sinkable_uncolored [simp]: "sinkable (uncolored msg) = sinkable msg"
  by (simp add: sinkable_def uncolored_def msg_ok_def)

lemma sink_it_sunk:
  assumes "logger_ready eol log_file utc tid cpu_id (os_localtime env) lg" and "\<forall>s. clock_ok (os_localtime env s)" and "sinkable msg"
  shows "\<exists>lg' a b. sink_it env lg msg = Some (lg', sunk env (os_localtime env) eol log_file utc tid cpu_id msg,
      msg\<lparr>color_range_start := a, color_range_end := b\<rparr>) \<and>
    logger_ready eol log_file utc tid cpu_id (os_localtime env) lg' \<and> lg_name lg' = lg_name lg"
  using sink_it_ready [OF assms(1,2)] assms(3) by (simp add: sinkable_def sunk_def)

lemma sink_all_sunk:
  "logger_ready eol log_file utc tid cpu_id (os_localtime env) lg \<Longrightarrow> \<forall>s. clock_ok (os_localtime env s) \<Longrightarrow> list_all sinkable msgs \<Longrightarrow>
    \<exists>lg'. sink_all env lg msgs = Some (lg', map (sunk env (os_localtime env) eol log_file utc tid cpu_id) msgs) \<and>
      logger_ready eol log_file utc tid cpu_id (os_localtime env) lg' \<and> lg_name lg' = lg_name lg"
proof (induction msgs arbitrary: lg)
  case (Cons m msgs)
  from sink_it_sunk [OF Cons.prems(1,2), of m] Cons.prems(3) obtain lg1 a b where
    "sink_it env lg m = Some (lg1, sunk env (os_localtime env) eol log_file utc tid cpu_id m, m\<lparr>color_range_start := a, color_range_end := b\<rparr>)"
    "logger_ready eol log_file utc tid cpu_id (os_localtime env) lg1" "lg_name lg1 = lg_name lg" by auto
  with Cons.IH [of lg1] Cons.prems(2,3) show ?case by auto
qed simp

text \<open>The backtrace holds \<open>msgs\<close>, and room for \<open>n\<close>.\<close>

definition traced :: "nat \<Rightarrow> log_msg list \<Rightarrow> log_msg backtracer \<Rightarrow> bool" where
  "traced n msgs b \<longleftrightarrow> bt_enabled b \<and> cq_inv (bt_messages b) \<and> cq_cap (bt_messages b) = n \<and>
     map uncolored (cq_contents (bt_messages b)) = map uncolored msgs"

lemma traced_enable: "n + 1 < 2 ^ 64 \<Longrightarrow> traced n [] (bt_enable dflt n b)"
  by (simp add: traced_def bt_enable_def mk_circular_q_inv mk_circular_q_cap mk_circular_q_contents)

lemma traced_push:
  assumes "traced n msgs b" and "uncolored m = uncolored msg"
  shows "\<exists>b'. bt_push_back m b = Some b' \<and> traced n (overwrite n msgs msg) b'"
proof -
  have len: "length (cq_contents (bt_messages b)) = length msgs" using assms(1) by (auto simp: traced_def dest: map_eq_imp_length_eq)
  from ring_q.push_ok [of "bt_messages b" m] assms(1) obtain q where q: "cq_push_back m (bt_messages b) = Some q" "cq_inv q"
    "cq_cap q = n" "cq_contents q = overwrite n (cq_contents (bt_messages b)) m" by (auto simp: traced_def)
  have "map uncolored (overwrite n (cq_contents (bt_messages b)) m) = map uncolored (overwrite n msgs msg)"
    using assms len by (simp add: overwrite_def traced_def flip: drop_map)
  with q assms(1) show ?thesis by (simp add: bt_push_back_def traced_def)
qed

record text_call =
  tc_env :: os_env
  tc_time :: int
  tc_thread :: nat
  tc_loc :: source_loc
  tc_level :: level_enum
  tc_text :: string

definition call_msg :: "text_call \<Rightarrow> log_msg" where
  "call_msg c = make_log_msg (tc_time c) (tc_thread c) (tc_loc c) ''range_pricer'' (tc_level c) (tc_text c)"

fun text_run :: "api_logger \<Rightarrow> text_call list \<Rightarrow> (api_logger \<times> log_output list list) option" where
  "text_run l [] = Some (l, [])"
| "text_run l (c # cs) = do {
     (l', outs) \<leftarrow> log_text (tc_env c) (tc_time c) (tc_thread c) (tc_loc c) (tc_level c) (tc_text c) l;
     (l'', rest) \<leftarrow> text_run l' cs;
     Some (l'', outs # rest)
   }"

lemma log_text_traced:
  assumes "api_ready eol log_file utc tid cpu_id cal l" and "traced n msgs (al_tracer l)" and "\<forall>s. clock_ok (cal s)"
    and "os_localtime (tc_env c) = cal" and "sinkable (call_msg c)"
  shows "\<exists>l' outs. log_text (tc_env c) (tc_time c) (tc_thread c) (tc_loc c) (tc_level c) (tc_text c) l = Some (l', outs) \<and>
    api_ready eol log_file utc tid cpu_id cal l' \<and> traced n (overwrite n msgs (call_msg c)) (al_tracer l')"
proof -
  have lg: "logger_ready eol log_file utc tid cpu_id (os_localtime (tc_env c)) (al_logger l)" "lg_name (al_logger l) = ''range_pricer''"
    and en: "bt_enabled (al_tracer l)" using assms(1,2,4) by (simp_all add: api_ready_def traced_def)
  have eq: "log_text (tc_env c) (tc_time c) (tc_thread c) (tc_loc c) (tc_level c) (tc_text c) l =
      log_it_traced (tc_env c) l (call_msg c) (should_log (al_logger l) (tc_level c)) True"
    using en lg(2) by (simp add: log_text_def call_msg_def)
  show ?thesis
  proof (cases "should_log (al_logger l) (tc_level c)")
    case False
    from traced_push [OF assms(2) refl, of "call_msg c"] False assms(1) show ?thesis
      unfolding eq by (auto simp: log_it_traced_def api_ready_def)
  next
    case True
    from sink_it_sunk [OF lg(1) _ assms(5)] assms(3,4) obtain lg' a b where s: "sink_it (tc_env c) (al_logger l) (call_msg c) =
        Some (lg', sunk (tc_env c) cal eol log_file utc tid cpu_id (call_msg c), (call_msg c)\<lparr>color_range_start := a, color_range_end := b\<rparr>)"
      "logger_ready eol log_file utc tid cpu_id cal lg'" "lg_name lg' = lg_name (al_logger l)" by auto
    from traced_push [OF assms(2), of "(call_msg c)\<lparr>color_range_start := a, color_range_end := b\<rparr>" "call_msg c"] obtain b' where
      "bt_push_back ((call_msg c)\<lparr>color_range_start := a, color_range_end := b\<rparr>) (al_tracer l) = Some b'"
      "traced n (overwrite n msgs (call_msg c)) b'" by auto
    with s True lg(2) show ?thesis unfolding eq by (simp add: log_it_traced_def api_ready_def)
  qed
qed

lemma text_run_traced:
  "api_ready eol log_file utc tid cpu_id cal l \<Longrightarrow> traced n msgs (al_tracer l) \<Longrightarrow> length msgs \<le> n \<Longrightarrow> \<forall>s. clock_ok (cal s) \<Longrightarrow>
    list_all (\<lambda>c. os_localtime (tc_env c) = cal \<and> sinkable (call_msg c)) cs \<Longrightarrow>
    \<exists>l' outs. text_run l cs = Some (l', outs) \<and> api_ready eol log_file utc tid cpu_id cal l' \<and>
      traced n (drop (length (msgs @ cs') - n) (msgs @ cs')) (al_tracer l')"
  if "cs' = map call_msg cs" for cs'
  using that
proof (induction cs arbitrary: l msgs cs')
  case (Cons c cs)
  from log_text_traced [OF Cons.prems(1,2,4), of c] Cons.prems(5) obtain l1 outs where
    l1: "log_text (tc_env c) (tc_time c) (tc_thread c) (tc_loc c) (tc_level c) (tc_text c) l = Some (l1, outs)"
    "api_ready eol log_file utc tid cpu_id cal l1" "traced n (overwrite n msgs (call_msg c)) (al_tracer l1)" by auto
  have d: "drop (length (overwrite n msgs x @ ys) - n) (overwrite n msgs x @ ys) = drop (length (msgs @ x # ys) - n) (msgs @ x # ys)" for x ys
    using last_of_last [of "msgs @ [x]" n ys] by (simp add: overwrite_def)
  have "length (overwrite n msgs (call_msg c)) \<le> n" using Cons.prems(3) by (simp add: overwrite_def)
  from Cons.IH [OF l1(2,3) this Cons.prems(4) _ refl] Cons.prems(5) l1(1) show ?case unfolding d Cons.prems(6) by auto
qed simp

text \<open>A dump writes the banner, the messages and the banner, and leaves the backtrace empty.\<close>

lemma dump_backtrace_traced:
  assumes "api_ready eol log_file utc tid cpu_id (os_localtime env) l" and "traced n msgs (al_tracer l)"
    and "\<forall>s. clock_ok (os_localtime env s)" and "list_all sinkable msgs" and "msgs \<noteq> []"
    and "sinkable (banner start th (al_logger l) [])" and "sinkable (banner stop th (al_logger l) [])"
  shows "\<exists>l'. dump_backtrace env start stop th l = Some (l', map (sunk env (os_localtime env) eol log_file utc tid cpu_id)
      (banner start th (al_logger l) (stars 18 @ '' Backtrace Start '' @ stars 18) # msgs @
        [banner stop th (al_logger l) (stars 18 @ '' Backtrace End '' @ stars 20)])) \<and>
    api_ready eol log_file utc tid cpu_id (os_localtime env) l' \<and> traced n [] (al_tracer l')"
proof -
  have lg: "logger_ready eol log_file utc tid cpu_id (os_localtime env) (al_logger l)" "lg_name (al_logger l) = ''range_pricer''"
    using assms(1) by (simp_all add: api_ready_def)
  define q where "q = bt_messages (al_tracer l)"
  have q: "bt_enabled (al_tracer l)" "cq_inv q" "cq_cap q = n" "map uncolored (cq_contents q) = map uncolored msgs"
    using assms(2) by (simp_all add: traced_def q_def)
  then have ne: "\<not> cq_empty q" using ring_q.empty_ok [OF q(2)] assms(5) by auto
  have "length (cq_contents q) < Suc (cq_max_items q)" using ring_q.bound [OF q(2)] by (simp add: cq_cap_def)
  from ring_q.drain_ok [OF q(2) this] obtain q' where q': "drain_with cq_empty cq_front cq_pop_front (Suc (cq_max_items q)) q = Some (cq_contents q, q')"
    "cq_inv q'" "cq_cap q' = n" "cq_contents q' = []" using q(3) by auto
  have ok: "sinkable (banner t th (al_logger l) w) \<longleftrightarrow> sinkable (banner t th (al_logger l) [])" for t w
    by (simp add: sinkable_def banner_def msg_ok_def make_log_msg_def)
  let ?sunk = "sunk env (os_localtime env) eol log_file utc tid cpu_id"
  let ?start = "banner start th (al_logger l) (stars 18 @ '' Backtrace Start '' @ stars 18)"
  let ?stop = "banner stop th (al_logger l) (stars 18 @ '' Backtrace End '' @ stars 20)"
  obtain lg1 m1 where 1: "sink_it env (al_logger l) ?start = Some (lg1, ?sunk ?start, m1)"
      "logger_ready eol log_file utc tid cpu_id (os_localtime env) lg1" "lg_name lg1 = ''range_pricer''"
    using sink_it_sunk [OF lg(1) assms(3), of ?start] ok assms(6) lg(2) by auto
  have through: "map g (cq_contents q) = map g msgs" if "\<And>m. g (uncolored m) = g m" for g :: "log_msg \<Rightarrow> bool"
    using arg_cong [OF q(4), of "map g"] that by (simp add: comp_def)
  have "list_all sinkable (cq_contents q)" using assms(4) arg_cong [OF through [of sinkable], of "list_all (\<lambda>b. b)"]
    by (simp add: list.pred_map comp_def)
  then obtain lg2 where 2: "sink_all env lg1 (cq_contents q) = Some (lg2, map ?sunk (cq_contents q))"
      "logger_ready eol log_file utc tid cpu_id (os_localtime env) lg2" "lg_name lg2 = ''range_pricer''"
    using sink_all_sunk [OF 1(2) assms(3)] 1(3) by auto
  obtain lg3 m3 where 3: "sink_it env lg2 ?stop = Some (lg3, ?sunk ?stop, m3)"
      "logger_ready eol log_file utc tid cpu_id (os_localtime env) lg3" "lg_name lg3 = ''range_pricer''"
    using sink_it_sunk [OF 2(2) assms(3), of ?stop] ok assms(7) 2(3) by auto
  have m: "map ?sunk (cq_contents q) = map ?sunk msgs" using arg_cong [OF q(4), of "map ?sunk"] by (simp add: comp_def)
  show ?thesis using 1 2 3 q q' ne m
    by (simp add: dump_backtrace_def bt_foreach_pop_def api_ready_def traced_def flip: q_def del: drain_with.simps)
qed

end
