(* ===== verification/Registry_Facts.thy ===== *)
theory Registry_Facts
  imports Registry Log_Api_Facts
begin

text \<open>
  Facts about the registry: its map stays consistent with the names of its loggers, the default logger is in
  it, settings reach every registered logger, and the calls of the program go to the logger it installs.
\<close>

section \<open>The invariant\<close>

definition reg_inv :: "registry \<Rightarrow> bool" where
  "reg_inv r \<longleftrightarrow> distinct (map fst (rg_loggers r)) \<and>
     (\<forall>n a. get_logger n r = Some a \<longrightarrow> a < length (rg_objects r) \<and> api_name (rg_objects r ! a) = n) \<and>
     (\<forall>d. rg_default r = Some d \<longrightarrow> get_logger (api_name (rg_objects r ! d)) r = Some d)"

lemma get_logger_cong: "rg_loggers r' = rg_loggers r \<Longrightarrow> get_logger n r' = get_logger n r"
  by (simp add: get_logger_def)

lemma reg_inv_entries: "reg_inv r \<Longrightarrow> (n, a) \<in> set (rg_loggers r) \<Longrightarrow> a < length (rg_objects r) \<and> api_name (rg_objects r ! a) = n"
  by (simp add: reg_inv_def get_logger_def)

definition keeps_name :: "(api_logger \<Rightarrow> api_logger) \<Rightarrow> bool" where
  "keeps_name g \<longleftrightarrow> (\<forall>l. api_name (g l) = api_name l)"

lemma keeps_name_rules [intro!, simp]:
  "keeps_name (lg_set_level lvl)" "keeps_name (lg_flush_on lvl)" "keeps_name (lg_set_formatter now f)"
  "keeps_name (lg_enable_backtrace n)" "keeps_name lg_disable_backtrace" "keeps_name (\<lambda>l. l)"
  by (simp_all add: keeps_name_def api_name_def lg_set_level_def lg_flush_on_def lg_set_formatter_def lg_enable_backtrace_def
      lg_disable_backtrace_def)

lemma keeps_name_env [simp]: "keeps_name (\<lambda>l. lg_set_level (h l) l)"
  by (simp add: keeps_name_def api_name_def lg_set_level_def)

lemma update_object_fields [simp]:
  "rg_loggers (update_object g a r) = rg_loggers r" "rg_default (update_object g a r) = rg_default r"
  "rg_log_levels (update_object g a r) = rg_log_levels r" "rg_formatter (update_object g a r) = rg_formatter r"
  "rg_level (update_object g a r) = rg_level r" "rg_flush_level (update_object g a r) = rg_flush_level r"
  "rg_automatic (update_object g a r) = rg_automatic r" "rg_backtrace_n (update_object g a r) = rg_backtrace_n r"
  "length (rg_objects (update_object g a r)) = length (rg_objects r)"
  by (simp_all add: update_object_def)

lemma update_object_name:
  "keeps_name g \<Longrightarrow> api_name (rg_objects (update_object g a r) ! b) = api_name (rg_objects r ! b)"
  by (cases "a < length (rg_objects r)") (auto simp: update_object_def keeps_name_def nth_list_update list_update_beyond)

lemma reg_inv_update: "keeps_name g \<Longrightarrow> reg_inv (update_object g a r) = reg_inv r"
  by (simp add: reg_inv_def update_object_name get_logger_def)

text \<open>Only the map, the default logger and the objects matter.\<close>

lemma reg_inv_cong:
  "rg_loggers r' = rg_loggers r \<Longrightarrow> rg_default r' = rg_default r \<Longrightarrow> rg_objects r' = rg_objects r \<Longrightarrow> reg_inv r' = reg_inv r"
  by (simp add: reg_inv_def get_logger_def)

lemma for_loggers_fields [simp]:
  "rg_loggers (for_loggers g ls r) = rg_loggers r" "rg_default (for_loggers g ls r) = rg_default r"
  "length (rg_objects (for_loggers g ls r)) = length (rg_objects r)"
  by (induction g ls r rule: for_loggers.induct) simp_all

lemma reg_inv_for: "(\<And>n. keeps_name (g n)) \<Longrightarrow> reg_inv (for_loggers g ls r) = reg_inv r"
  by (induction g ls r rule: for_loggers.induct) (simp_all add: reg_inv_update)

lemma reg_inv_settings [simp]:
  "reg_inv (r\<lparr>rg_formatter := f\<rparr>) = reg_inv r" "reg_inv (r\<lparr>rg_level := lvl\<rparr>) = reg_inv r"
  "reg_inv (r\<lparr>rg_flush_level := lvl\<rparr>) = reg_inv r" "reg_inv (r\<lparr>rg_automatic := b\<rparr>) = reg_inv r"
  "reg_inv (r\<lparr>rg_backtrace_n := n\<rparr>) = reg_inv r" "reg_inv (r\<lparr>rg_log_levels := ls, rg_level := lvl\<rparr>) = reg_inv r"
  "reg_inv (r\<lparr>rg_loggers := [], rg_default := None\<rparr>)"
  by (simp_all add: reg_inv_def get_logger_def)

text \<open>Every logger of the list is changed once, when no object is there twice.\<close>

lemma for_loggers_objects:
  "distinct (map snd ls) \<Longrightarrow> \<forall>(n, a) \<in> set ls. a < length (rg_objects r) \<Longrightarrow>
    (\<forall>(n, a) \<in> set ls. rg_objects (for_loggers g ls r) ! a = g n (rg_objects r ! a)) \<and>
    (\<forall>a. a \<notin> snd ` set ls \<longrightarrow> rg_objects (for_loggers g ls r) ! a = rg_objects r ! a)"
proof (induction g ls r rule: for_loggers.induct)
  case (2 g n a ls r)
  let ?r = "update_object (g n) a r"
  have IH: "\<forall>(m, b) \<in> set ls. rg_objects (for_loggers g ls ?r) ! b = g m (rg_objects ?r ! b)"
    "\<forall>b. b \<notin> snd ` set ls \<longrightarrow> rg_objects (for_loggers g ls ?r) ! b = rg_objects ?r ! b"
    using 2 by auto
  have o: "rg_objects ?r ! b = (if b = a then g n (rg_objects r ! a) else rg_objects r ! b)" for b
    using "2.prems"(2) by (simp add: update_object_def)
  have a: "a \<notin> snd ` set ls" using "2.prems"(1) by auto
  with IH o show ?case by (fastforce simp: image_iff)
qed simp

lemma addresses_distinct: "reg_inv r \<Longrightarrow> distinct (map snd (rg_loggers r))"
proof -
  assume r: "reg_inv r"
  then have d: "distinct (map fst (rg_loggers r))" by (simp add: reg_inv_def)
  moreover have "inj_on snd (set (rg_loggers r))" using reg_inv_entries [OF r] unfolding inj_on_def by (metis prod.collapse)
  ultimately show ?thesis by (simp add: distinct_map)
qed

lemma reg_inv_objects: "reg_inv r \<Longrightarrow> \<forall>(n, a) \<in> set (rg_loggers r). a < length (rg_objects r)"
  using reg_inv_entries by auto

lemma reg_inv_mk: "reg_inv (mk_registry now eol)"
  by (simp add: reg_inv_def mk_registry_def Let_def api_name_def get_logger_def)

lemma reg_inv_make: "reg_inv r \<Longrightarrow> reg_inv (r\<lparr>rg_objects := rg_objects r @ [l]\<rparr>)"
proof -
  assume r: "reg_inv r"
  have g: "get_logger n (r\<lparr>rg_objects := rg_objects r @ [l]\<rparr>) = get_logger n r" for n by (simp add: get_logger_def)
  have "rg_default r = Some d \<Longrightarrow> d < length (rg_objects r)" for d using r by (auto simp: reg_inv_def)
  with r show ?thesis by (auto simp: reg_inv_def nth_append g intro: less_SucI)
qed

section \<open>Operations keep it\<close>

lemma get_logger_update [simp]:
  "get_logger n (r\<lparr>rg_loggers := AList.update k a (rg_loggers r)\<rparr>) = (if n = k then Some a else get_logger n r)"
  "get_logger n (r\<lparr>rg_loggers := AList.update k a (rg_loggers r), rg_default := d\<rparr>) = (if n = k then Some a else get_logger n r)"
  by (simp_all add: get_logger_def update_conv')

lemma get_logger_delete [simp]:
  "get_logger n (r\<lparr>rg_loggers := AList.delete k (rg_loggers r)\<rparr>) = (if n = k then None else get_logger n r)"
  "get_logger n (r\<lparr>rg_loggers := AList.delete k (rg_loggers r), rg_default := d\<rparr>) = (if n = k then None else get_logger n r)"
  by (simp_all add: get_logger_def AList.delete_conv')

text \<open>An entry for a logger under its own name, which becomes the default or is new.\<close>

lemma reg_inv_entry:
  assumes "reg_inv r" and "a < length (rg_objects r)"
    and "d = Some a \<or> d = rg_default r \<and> get_logger (api_name (rg_objects r ! a)) r = None"
  shows "reg_inv (r\<lparr>rg_loggers := AList.update (api_name (rg_objects r ! a)) a (rg_loggers r), rg_default := d\<rparr>)"
proof -
  have "distinct (map fst (AList.update (api_name (rg_objects r ! a)) a (rg_loggers r)))"
    using assms(1) by (simp add: reg_inv_def distinct_update)
  with assms show ?thesis unfolding reg_inv_def by auto
qed

lemma reg_inv_register:
  assumes "reg_inv r" and "a < length (rg_objects r)"
  shows "reg_inv (fst (register_logger a r))"
  using reg_inv_entry [OF assms, of "rg_default r"] assms
  by (auto simp: register_logger_def throw_if_exists_def Let_def get_logger_def)

lemma reg_inv_set_default:
  assumes "reg_inv r" and "\<forall>a. d = Some a \<longrightarrow> a < length (rg_objects r)"
  shows "reg_inv (set_default_logger d r)"
proof (cases d)
  case None
  with assms show ?thesis by (simp add: set_default_logger_def reg_inv_def get_logger_def)
next
  case (Some a)
  with assms reg_inv_entry [OF assms(1), of a d] show ?thesis by (simp add: set_default_logger_def)
qed

lemma reg_inv_drop: 
  assumes "reg_inv r"
  shows "reg_inv (drop_logger name r)"
proof -
  have d: "distinct (map fst (AList.delete name (rg_loggers r)))" using assms by (simp add: reg_inv_def distinct_delete)
  show ?thesis
    using assms d by (cases "rg_default r") (auto simp add: drop_logger_def Let_def reg_inv_def)
qed

lemma reg_inv_initialize:
  assumes "reg_inv r" and "a < length (rg_objects r)"
  shows "reg_inv (fst (initialize_logger now a r))"
  using assms by (auto simp: initialize_logger_def Let_def apply_logger_env_levels_def reg_inv_update intro!: reg_inv_register)

lemma reg_inv_step:
  assumes "reg_inv r" and "op_exists op r" and "\<forall>a. op \<noteq> Register_or_replace a"
  shows "reg_inv (fst (registry_step op r))"
  using assms
proof (cases op)
  case (Set_levels levels g)
  have "keeps_name (\<lambda>l. case map_of levels n of Some lvl \<Rightarrow> lg_set_level lvl l
      | None \<Rightarrow> (case g of Some x \<Rightarrow> lg_set_level x l | None \<Rightarrow> l))" for n
    by (cases "map_of levels n"; cases g) simp_all
  then show ?thesis using Set_levels assms(1)
    by (simp add: set_levels_def Let_def reg_inv_for) (simp add: reg_inv_def get_logger_def)
next
  case (Set_default d)
  with assms show ?thesis by (cases d) (auto simp: object_def intro!: reg_inv_set_default split: if_splits)
qed (auto simp: make_logger_def object_def reg_inv_make reg_inv_register reg_inv_initialize reg_inv_drop apply_logger_env_levels_def
    reg_inv_update registry_set_formatter_def registry_enable_backtrace_def registry_disable_backtrace_def registry_set_level_def
    registry_flush_on_def reg_inv_for drop_all_def set_automatic_registration_def reg_inv_settings split: if_splits)

text \<open>Without \<open>register_or_replace\<close>, which may take the entry of the default logger away, every run keeps it.\<close>

lemma registry_run_inv:
  "registry_run r ops r' \<Longrightarrow> reg_inv r \<Longrightarrow> \<forall>a. Register_or_replace a \<notin> set ops \<Longrightarrow> reg_inv r'"
proof (induction rule: registry_run.induct)
  case (run_op r ops r1 op)
  then show ?case by (intro reg_inv_step) auto
qed

lemma replaced_default:
  "\<exists>r. registry_run (mk_registry now eol) [Make \<lparr>al_logger = (al_logger l)\<lparr>lg_name := []\<rparr>, al_tracer = bt_init\<rparr>, Register_or_replace 1] r \<and>
     rg_default r = Some 0 \<and> rg_loggers r = [([], 1)]"
proof -
  let ?l = "\<lparr>al_logger = (al_logger l)\<lparr>lg_name := []\<rparr>, al_tracer = bt_init\<rparr>"
  let ?r = "snd (make_logger ?l (mk_registry now eol))"
  have "registry_run (mk_registry now eol) ([] @ [Make ?l]) ?r"
    using run_op [OF run_none, of "Make ?l" "mk_registry now eol"] by simp
  from run_op [OF this, of "Register_or_replace 1"]
  have "registry_run (mk_registry now eol) ([Make ?l] @ [Register_or_replace 1]) (register_or_replace 1 ?r)"
    by (simp add: object_def make_logger_def mk_registry_def Let_def)
  moreover have "rg_default (register_or_replace 1 ?r) = Some 0 \<and> rg_loggers (register_or_replace 1 ?r) = [([], 1)]"
    by (simp add: register_or_replace_def make_logger_def mk_registry_def Let_def api_name_def)
  ultimately show ?thesis by auto
qed

section \<open>Settings\<close>

lemma for_loggers_entry:
  assumes "reg_inv r" and "get_logger n r = Some a"
    and "rg_loggers r' = rg_loggers r" and "rg_objects r' = rg_objects r"
  shows "rg_objects (for_loggers g (rg_loggers r) r') ! a = g n (rg_objects r ! a)"
proof -
  have "(n, a) \<in> set (rg_loggers r)" using assms(2) by (simp add: get_logger_def map_of_SomeD)
  with for_loggers_objects [OF addresses_distinct [OF assms(1)], of r' g] reg_inv_objects [OF assms(1)] assms(4) show ?thesis by auto
qed

text \<open>A setting reaches every registered logger, and no other object.\<close>

lemma setting_object:
  assumes "reg_inv r" and "rg_loggers r' = rg_loggers r" and "rg_objects r' = rg_objects r"
  shows "object (for_loggers (\<lambda>_. g) (rg_loggers r) r') a =
    map_option (if \<exists>n. get_logger n r = Some a then g else (\<lambda>l. l)) (object r a)"
proof (cases "\<exists>n. get_logger n r = Some a")
  case True
  with for_loggers_entry [OF assms(1) _ assms(2,3), of _ a "\<lambda>_. g"] assms(3) show ?thesis by (auto simp: object_def)
next
  case False
  with assms(1) have "a \<notin> snd ` set (rg_loggers r)" by (auto simp: get_logger_def reg_inv_def)
  with for_loggers_objects [OF addresses_distinct [OF assms(1)], of r' "\<lambda>_. g"] reg_inv_objects [OF assms(1)] assms(3) False
  show ?thesis by (auto simp: object_def)
qed

lemma for_loggers_settings [simp]:
  "rg_formatter (for_loggers g ls r) = rg_formatter r" "rg_backtrace_n (for_loggers g ls r) = rg_backtrace_n r"
  by (induction g ls r rule: for_loggers.induct) simp_all

lemma object_settings [simp]:
  "object (r\<lparr>rg_level := lvl\<rparr>) a = object r a" "object (r\<lparr>rg_flush_level := lvl\<rparr>) a = object r a"
  by (simp_all add: object_def)

text \<open>The level that is configured for a name.\<close>

definition configured_level :: "(string \<times> level_enum) list \<Rightarrow> level_enum option \<Rightarrow> string \<Rightarrow> level_enum option" where
  "configured_level levels g n = (case map_of levels n of Some lvl \<Rightarrow> Some lvl | None \<Rightarrow> g)"

lemma set_levels_registered:
  assumes "reg_inv r" and "get_logger n r = Some a"
  shows "lg_level (al_logger (rg_objects (set_levels levels g r) ! a)) =
    (case configured_level levels g n of Some lvl \<Rightarrow> lvl | None \<Rightarrow> lg_level (al_logger (rg_objects r ! a)))"
  using for_loggers_entry [OF assms, of "r\<lparr>rg_log_levels := levels, rg_level := (case g of Some x \<Rightarrow> x | None \<Rightarrow> rg_level r)\<rparr>"]
  by (cases g) (auto simp: set_levels_def configured_level_def lg_set_level_def Let_def split: option.split)

lemma set_levels_later:
  assumes "a < length (rg_objects r)" and "api_name (rg_objects r ! a) = n"
    and "rg_log_levels r = levels" and "rg_level r = lvl"
  shows "lg_level (al_logger (rg_objects (fst (initialize_logger now a r)) ! a)) =
    (case configured_level levels (Some lvl) n of Some l \<Rightarrow> l | None \<Rightarrow> lvl)"
  using assms
  by (auto simp: initialize_logger_def Let_def apply_logger_env_levels_def update_object_def register_logger_def lg_set_level_def
      lg_flush_on_def lg_enable_backtrace_def lg_set_formatter_def api_name_def configured_level_def throw_if_exists_def
      split: option.split)

section \<open>The calls of the program\<close>

text \<open>The default logger is the program's.\<close>

definition program_default :: "string \<Rightarrow> string \<Rightarrow> bool \<Rightarrow> bool \<Rightarrow> bool \<Rightarrow> (int \<Rightarrow> tm) \<Rightarrow> registry \<Rightarrow> bool" where
  "program_default eol log_file utc tid cpu_id cal r \<longleftrightarrow>
     (\<exists>d l. rg_default r = Some d \<and> object r d = Some l \<and> api_ready eol log_file utc tid cpu_id cal l \<and> \<not> bt_enabled (al_tracer l))"

lemma object_update [simp]: "object (update_object g a r) a = map_option g (object r a)"
  by (simp add: object_def update_object_def)

lemma install_logger_default: "program_default eol log_file utc tid cpu_id cal (install_logger now eol log_file utc tid cpu_id r)"
  by (simp add: program_default_def install_logger_def make_logger_def set_default_logger_def object_def program_logger_ready
      flip: program_logger_def)

text \<open>
  Calls one after the other, from a state of the error handler: the lines of each call, and what is printed about
  those that fail, with the times.
\<close>

fun spdlog_run ::
    "format_facet \<Rightarrow> registry \<Rightarrow> err_state \<Rightarrow> log_call list \<Rightarrow> (log_output list list \<times> (int \<times> string) list) option" where
  "spdlog_run f r st [] = Some ([], [])"
| "spdlog_run f r st (c # cs) = do {
     (r', st', outs, printed) \<leftarrow> default_log (lc_env c) (lc_time c) (lc_thread c) (lc_loc c) (lc_level c) (lc_fmt c) (lc_args c) f
       (lc_err_time c) (lc_err_date c) r st;
     (rest, reports) \<leftarrow> spdlog_run f r' st' cs;
     Some (outs # rest, (case printed of None \<Rightarrow> [] | Some s \<Rightarrow> [(lc_err_time c, s)]) @ reports)
   }"

lemma default_log_ready:
  assumes "program_default eol log_file utc tid cpu_id cal r" and "\<forall>s. clock_ok (cal s)" and "call_ok cal c" and "facet_ok f"
  shows "\<exists>r' st' printed. default_log (lc_env c) (lc_time c) (lc_thread c) (lc_loc c) (lc_level c) (lc_fmt c) (lc_args c) f
      (lc_err_time c) (lc_err_date c) r st = Some (r', st', fst (call_result f cal eol log_file utc tid cpu_id c), printed) \<and>
    program_default eol log_file utc tid cpu_id cal r' \<and>
    (\<forall>es. report_run (call_errors f cal eol log_file utc tid cpu_id c @ es) st =
       (case printed of None \<Rightarrow> [] | Some s \<Rightarrow> [(lc_err_time c, s)]) @ report_run es st')"
proof -
  from assms(1) obtain d l where d: "rg_default r = Some d" "object r d = Some l" "api_ready eol log_file utc tid cpu_id cal l"
    "\<not> bt_enabled (al_tracer l)" by (auto simp: program_default_def)
  have n: "lg_name (al_logger l) = ''range_pricer''" using d(3) by (simp add: api_ready_def)
  from log_format_ready [OF d(3,4) assms(2-4)] obtain l' where
    l': "log_format (lc_env c) (lc_time c) (lc_thread c) (lc_loc c) (lc_level c) (lc_fmt c) (lc_args c) f l =
      Some (l', call_result f cal eol log_file utc tid cpu_id c)"
    "api_ready eol log_file utc tid cpu_id cal l'" "\<not> bt_enabled (al_tracer l')" by blast
  obtain outs err where res: "call_result f cal eol log_file utc tid cpu_id c = (outs, err)" by fastforce
  have ready: "program_default eol log_file utc tid cpu_id cal (update_object (\<lambda>_. l') d r)"
    using d(1,2) l'(2,3) by (auto simp: program_default_def update_object_def object_def split: if_splits)
  show ?thesis
  proof (cases err)
    case None
    with d(1,2) l'(1) res ready show ?thesis by (simp add: default_log_def call_errors_def)
  next
    case (Some what)
    obtain printed st' where h: "default_err_handler (lc_err_time c) (lc_err_date c) ''range_pricer'' what st = (printed, st')" by fastforce
    with Some d(1,2) l'(1) res ready n show ?thesis by (simp add: default_log_def call_errors_def)
  qed
qed

lemma spdlog_run_ready:
  "program_default eol log_file utc tid cpu_id cal r \<Longrightarrow> \<forall>s. clock_ok (cal s) \<Longrightarrow> facet_ok f \<Longrightarrow> list_all (call_ok cal) cs \<Longrightarrow>
    spdlog_run f r st cs = Some (map (\<lambda>c. fst (call_result f cal eol log_file utc tid cpu_id c)) cs,
      report_run (concat (map (call_errors f cal eol log_file utc tid cpu_id) cs)) st)"
proof (induction cs arbitrary: r st)
  case (Cons c cs)
  from default_log_ready [OF Cons.prems(1,2) _ Cons.prems(3), of c st] Cons.prems(4) obtain r' st' printed where
    "default_log (lc_env c) (lc_time c) (lc_thread c) (lc_loc c) (lc_level c) (lc_fmt c) (lc_args c) f
      (lc_err_time c) (lc_err_date c) r st = Some (r', st', fst (call_result f cal eol log_file utc tid cpu_id c), printed)"
    "program_default eol log_file utc tid cpu_id cal r'"
    "\<forall>es. report_run (call_errors f cal eol log_file utc tid cpu_id c @ es) st =
       (case printed of None \<Rightarrow> [] | Some s \<Rightarrow> [(lc_err_time c, s)]) @ report_run es st'" by auto
  with Cons show ?case by simp
qed simp

text \<open>Once the default logger is dropped by its name, a call uses a null pointer.\<close>

lemma log_after_drop:
  assumes "rg_default r = Some d"
  shows "default_log env now tid loc lvl fmt args f err_now err_date (drop_logger (api_name (rg_objects r ! d)) r) st = None"
  using assms by (simp add: default_log_def drop_logger_def)

text \<open>\<open>get_level\<close> is the level of the default logger, not the one set for all loggers.\<close>

lemma get_level_of_default:
  "spdlog_get_level (install_logger now eol log_file utc tid cpu_id (mk_registry now' eol')) = Some level_debug \<and>
   rg_level (install_logger now eol log_file utc tid cpu_id (mk_registry now' eol')) = level_info"
  by (simp add: spdlog_get_level_def install_logger_def make_logger_def set_default_logger_def object_def mk_registry_def
      setup_logger_def Let_def)

end
