(* ===== verification/Log_Config.thy ===== *)
theory Log_Config
  imports Registry_Facts
begin

text \<open>
  Levels from a text such as \<open>off,logger1=debug\<close>, given in an environment variable or an argument
  (\<open>spdlog/cfg/helpers-inl.h\<close>, \<open>env.h\<close> and \<open>argv.h\<close>): the reader, and that it reads back what is printed.
\<close>

section \<open>The reader\<close>

definition char_code :: "char \<Rightarrow> nat" where
  "char_code c = of_char c"

definition to_lower :: "string \<Rightarrow> string" where
  "to_lower str =
     map (\<lambda>ch. if char_code ch \<ge> char_code (CHR ''A'') \<and> char_code ch \<le> char_code (CHR ''Z'')
              then char_of (char_code ch + (char_code (CHR ''a'') - char_code (CHR ''A''))) else ch) str"

definition is_space :: "char \<Rightarrow> bool" where
  "is_space c \<longleftrightarrow> c \<in> set [CHR '' '', CHR 0x0A, CHR 0x0D, CHR 0x09]"

definition trim :: "string \<Rightarrow> string" where
  "trim str = dropWhile is_space (rev (dropWhile is_space (rev str)))"

text \<open>\<open>str.find(sep)\<close> is the length of the text before it, or \<open>npos\<close>.\<close>

definition extract_kv :: "char \<Rightarrow> string \<Rightarrow> string \<times> string" where
  "extract_kv sep str =
     (let n = length (takeWhile (\<lambda>c. c \<noteq> sep) str)
      in if n = length str then (trim [], trim str) else (trim (take n str), trim (drop (n + 1) str)))"

text \<open>\<open>std::getline\<close> up to commas until the stream is empty.\<close>

function getline_tokens :: "string \<Rightarrow> string list" where
  "getline_tokens str =
     (if str = [] then []
      else (let token = takeWhile (\<lambda>c. c \<noteq> CHR '','') str in token # getline_tokens (drop (length token + 1) str)))"
  by pat_completeness auto
termination by (relation "measure length") auto

declare getline_tokens.simps [simp del]

definition extract_key_vals :: "string \<Rightarrow> (string \<times> string) list" where
  "extract_key_vals str =
     fold (\<lambda>token rv. if token = [] then rv else (let kv = extract_kv (CHR ''='') token in AList.update (fst kv) (snd kv) rv))
       (getline_tokens str) []"

text \<open>The loop over the pairs: the levels and the global level so far.  The keys are distinct: their order does not matter.\<close>

definition level_entry ::
    "string \<times> string \<Rightarrow> (string \<times> level_enum) list \<times> level_enum option \<Rightarrow> (string \<times> level_enum) list \<times> level_enum option" where
  "level_entry name_level acc =
     (let logger_name = fst name_level; level_name = to_lower (snd name_level); level = from_str level_name
      in if level = level_off \<and> level_name \<noteq> ''off'' then acc
         else if logger_name = [] then (fst acc, Some level)
         else (AList.update logger_name level (fst acc), snd acc))"

definition load_levels :: "string \<Rightarrow> registry \<Rightarrow> registry" where
  "load_levels input r =
     (if input = [] \<or> length input \<ge> 32768 then r
      else (let (levels, global_level) = fold level_entry (extract_key_vals input) ([], None)
            in set_levels levels global_level r))"

text \<open>The value of the variable, empty when it is not set, and the arguments after the name of the program.\<close>

definition load_env_levels :: "string \<Rightarrow> registry \<Rightarrow> registry" where
  "load_env_levels env_val r = (if env_val \<noteq> [] then load_levels env_val r else r)"

definition load_argv_levels :: "string list \<Rightarrow> registry \<Rightarrow> registry" where
  "load_argv_levels argv r =
     fold (\<lambda>arg r. if take 13 arg = ''SPDLOG_LEVEL='' then load_levels (drop 13 arg) r else r) (tl argv) r"

section \<open>Parts\<close>

lemma trim_id: "s = [] \<or> \<not> is_space (hd s) \<and> \<not> is_space (last s) \<Longrightarrow> trim s = s"
proof -
  assume "s = [] \<or> \<not> is_space (hd s) \<and> \<not> is_space (last s)"
  then have "dropWhile is_space (rev s) = rev s" "dropWhile is_space s = s" by (auto simp: dropWhile_eq_self_iff hd_rev)
  then show ?thesis by (simp add: trim_def)
qed

lemma takeWhile_item: "x \<notin> set s \<Longrightarrow> takeWhile (\<lambda>c. c \<noteq> x) (s @ x # t) = s"
  by (induction s) auto

lemma takeWhile_absent: "x \<notin> set s \<Longrightarrow> takeWhile (\<lambda>c. c \<noteq> x) s = s"
  by (induction s) auto

lemma extract_kv_pair:
  assumes "sep \<notin> set k" and "k = [] \<or> \<not> is_space (hd k) \<and> \<not> is_space (last k)" and "v = [] \<or> \<not> is_space (hd v) \<and> \<not> is_space (last v)"
  shows "extract_kv sep (k @ sep # v) = (k, v)" and "sep \<notin> set v \<Longrightarrow> extract_kv sep v = ([], v)"
  using trim_id [OF assms(2)] trim_id [OF assms(3)] trim_id [of "[]"] assms(1)
  by (simp_all add: extract_kv_def takeWhile_item takeWhile_absent)

text \<open>Texts joined by commas.\<close>

fun comma_joined :: "string list \<Rightarrow> string" where
  "comma_joined [] = []"
| "comma_joined [s] = s"
| "comma_joined (s # t # ts) = s @ CHR '','' # comma_joined (t # ts)"

lemma getline_joined:
  "\<forall>t \<in> set ts. t \<noteq> [] \<and> CHR '','' \<notin> set t \<Longrightarrow> getline_tokens (comma_joined ts) = ts"
proof (induction ts rule: comma_joined.induct)
  case 1
  then show ?case by (simp add: getline_tokens.simps)
next
  case (2 s)
  then show ?case by (subst getline_tokens.simps) (simp add: takeWhile_absent getline_tokens.simps [of "[]"])
next
  case (3 s t ts)
  then have "takeWhile (\<lambda>c. c \<noteq> CHR '','') (s @ CHR '','' # comma_joined (t # ts)) = s" by (simp add: takeWhile_item)
  with 3 show ?case by (subst getline_tokens.simps) simp
qed

section \<open>Printed levels\<close>

definition level_text :: "level_enum \<Rightarrow> string" where
  "level_text l = the (to_string_view l)"

definition print_levels :: "(string \<times> level_enum) list \<Rightarrow> level_enum option \<Rightarrow> string" where
  "print_levels levels g =
     comma_joined ((case g of None \<Rightarrow> [] | Some l \<Rightarrow> [level_text l]) @ map (\<lambda>(n, l). n @ CHR ''='' # level_text l) levels)"

text \<open>A name that can be written there.\<close>

definition plain_name :: "string \<Rightarrow> bool" where
  "plain_name n \<longleftrightarrow> n \<noteq> [] \<and> CHR '','' \<notin> set n \<and> CHR ''='' \<notin> set n \<and> \<not> is_space (hd n) \<and> \<not> is_space (last n)"

lemma level_text_plain: "l \<noteq> n_levels \<Longrightarrow> plain_name (level_text l)"
  by (cases l) (auto simp: plain_name_def level_text_def to_string_view_def array_at_def level_string_views_def is_space_def)

lemma level_text_read: "l \<noteq> n_levels \<Longrightarrow> to_lower (level_text l) = level_text l \<and> from_str (level_text l) = l"
proof
  assume l: "l \<noteq> n_levels"
  then obtain s where "to_string_view l = Some s" by (cases l) (auto simp: to_string_view_def array_at_def level_string_views_def)
  then show "from_str (level_text l) = l" using from_str_to_string_view by (simp add: level_text_def)
  show "to_lower (level_text l) = level_text l" using l
    by (cases l) (auto simp: level_text_def to_string_view_def array_at_def level_string_views_def to_lower_def char_code_def)
qed

text \<open>The comments of \<open>env.h\<close> say that \<open>*=off\<close> turns all logging off; it is the level of a logger called \<open>*\<close>.\<close>

lemma star_is_a_name: "load_levels ''*=off'' r = set_levels [(''*'', level_off)] None r"
  by (simp add: load_levels_def extract_key_vals_def getline_tokens.simps extract_kv_def trim_def is_space_def level_entry_def
      to_lower_def char_code_def from_str_def level_string_views_def level_of_def)

text \<open>They also say that an unknown level is taken as \<open>info\<close>; it is passed over.\<close>

lemma unknown_level_passed_over: "load_levels ''loud'' r = set_levels [] None r"
  by (simp add: load_levels_def extract_key_vals_def getline_tokens.simps extract_kv_def trim_def is_space_def level_entry_def
      to_lower_def char_code_def from_str_def level_string_views_def level_of_def)

text \<open>An entry of a space only takes the place of the global level.\<close>

lemma space_entry_hides_level: "load_levels ''debug, '' r = set_levels [] None r"
  by (simp add: load_levels_def extract_key_vals_def getline_tokens.simps extract_kv_def trim_def is_space_def level_entry_def
      to_lower_def char_code_def from_str_def level_string_views_def level_of_def)

lemma update_new: "k \<notin> fst ` set xs \<Longrightarrow> AList.update k v xs = xs @ [(k, v)]"
  by (induction xs) auto


text \<open>The text of a pair; the pairs are read as they were written.\<close>

definition pair_text :: "string \<times> string \<Rightarrow> string" where
  "pair_text kv = (if fst kv = [] then snd kv else fst kv @ CHR ''='' # snd kv)"

definition plain_pair :: "string \<times> string \<Rightarrow> bool" where
  "plain_pair kv \<longleftrightarrow> (fst kv = [] \<or> plain_name (fst kv)) \<and> plain_name (snd kv)"

lemma extract_pair_text: "plain_pair kv \<Longrightarrow> extract_kv (CHR ''='') (pair_text kv) = kv \<and> pair_text kv \<noteq> [] \<and> CHR '','' \<notin> set (pair_text kv)"
  using extract_kv_pair [of "CHR ''=''" "fst kv" "snd kv"] extract_kv_pair [of "CHR ''=''" "[]" "snd kv"]
  by (cases kv) (auto simp: plain_pair_def plain_name_def pair_text_def)

lemma fold_pairs:
  "\<forall>kv \<in> set kvs. plain_pair kv \<Longrightarrow> distinct (map fst (acc @ kvs)) \<Longrightarrow>
    fold (\<lambda>token rv. if token = [] then rv else (let kv = extract_kv (CHR ''='') token in AList.update (fst kv) (snd kv) rv))
      (map pair_text kvs) acc = acc @ kvs"
proof (induction kvs arbitrary: acc)
  case (Cons kv kvs)
  then have "AList.update (fst kv) (snd kv) acc = acc @ [kv]" by (simp add: update_new)
  with Cons.IH [of "acc @ [kv]"] Cons.prems extract_pair_text [of kv] show ?case by (simp add: Let_def)
qed simp

lemma extract_key_vals_joined:
  assumes "\<forall>kv \<in> set kvs. plain_pair kv" and "distinct (map fst kvs)"
  shows "extract_key_vals (comma_joined (map pair_text kvs)) = kvs"
  using fold_pairs [OF assms(1), of "[]"] assms getline_joined [of "map pair_text kvs"] extract_pair_text
  by (simp add: extract_key_vals_def)

lemma fold_entries:
  "\<forall>(n, l) \<in> set levels. plain_name n \<and> l \<noteq> n_levels \<Longrightarrow> distinct (map fst (acc @ levels)) \<Longrightarrow>
    fold level_entry (map (\<lambda>(n, l). (n, level_text l)) levels) (acc, g) = (acc @ levels, g)"
proof (induction levels arbitrary: acc)
  case (Cons nl levels)
  obtain n l where nl: "nl = (n, l)" by fastforce
  with Cons.prems have n: "n \<noteq> []" "l \<noteq> n_levels" "AList.update n l acc = acc @ [nl]" by (simp_all add: plain_name_def update_new)
  then have "level_entry (n, level_text l) (acc, g) = (acc @ [nl], g)"
    using level_text_read [OF n(2)] by (cases l) (auto simp: level_entry_def level_text_def to_string_view_def array_at_def level_string_views_def)
  with Cons.IH [of "acc @ [nl]"] Cons.prems nl show ?case by simp
qed simp

lemma load_levels_printed:
  assumes "\<forall>(n, l) \<in> set levels. plain_name n \<and> l \<noteq> n_levels" and "distinct (map fst levels)" and "g \<noteq> Some n_levels"
    and "levels \<noteq> [] \<or> g \<noteq> None" and "length (print_levels levels g) < 32768"
  shows "load_levels (print_levels levels g) r = set_levels levels g r"
proof -
  define kvs where "kvs = (case g of None \<Rightarrow> [] | Some l \<Rightarrow> [([], level_text l)]) @ map (\<lambda>(n, l). (n, level_text l)) levels"
  have unnamed: "([], l) \<notin> set levels" for l using bspec [OF assms(1), of "([], l)"] by (auto simp: plain_name_def)
  have p: "print_levels levels g = comma_joined (map pair_text kvs)" using unnamed
    by (cases g) (auto simp: print_levels_def kvs_def pair_text_def comp_def intro!: arg_cong [of _ _ comma_joined])
  have plain: "\<forall>kv \<in> set kvs. plain_pair kv" using assms(1,3) level_text_plain
    by (cases g) (auto simp: kvs_def plain_pair_def)
  have names: "fst \<circ> (\<lambda>(n :: string, l). (n, level_text l)) = fst" by auto
  have d: "distinct (map fst kvs)" using assms(2) names unnamed by (cases g) (auto simp: kvs_def)
  have f: "fold level_entry kvs ([], None) = (levels, g)"
    using fold_entries [OF assms(1), of "[]"] assms(2,3) level_text_read
    by (cases g) (auto simp: kvs_def level_entry_def level_text_def to_string_view_def array_at_def level_string_views_def split: level_enum.splits)
  have "print_levels levels g \<noteq> []" 
  proof -
    have "kvs \<noteq> []" using assms(4) by (cases g) (auto simp: kvs_def)
    then obtain kv kvs' where "kvs = kv # kvs'" by (cases kvs) auto
    then show ?thesis using p plain extract_pair_text [of kv] by (cases kvs') auto
  qed
  with assms(5) show ?thesis unfolding load_levels_def using extract_key_vals_joined [OF plain d] f p by simp
qed

end
