(* ===== verification/Thread_Pool.thy ===== *)
theory Thread_Pool
  imports Log_Api "HOL-Library.Sublist"
begin

text \<open>
  Asynchronous logging: \<open>spdlog/details/thread_pool-inl.h\<close> and the loggers that post to it
  (\<open>async_logger-inl.h\<close>).  Callers put messages on a bounded queue, worker threads take them off and write
  them; the destructor posts one message to end each thread and joins them.
\<close>

section \<open>Messages and threads\<close>

datatype async_msg_type = async_log | async_flush | async_terminate

datatype async_overflow_policy = block | overrun_oldest | discard_new

text \<open>A message, and the logger it is for.\<close>

record async_msg =
  am_type :: async_msg_type
  am_worker :: "nat option"
  am_msg :: log_msg

definition log_message :: "nat \<Rightarrow> log_msg \<Rightarrow> async_msg" where
  "log_message worker msg = \<lparr>am_type = async_log, am_worker = Some worker, am_msg = msg\<rparr>"

definition flush_message :: "nat \<Rightarrow> async_msg" where
  "flush_message worker = \<lparr>am_type = async_flush, am_worker = Some worker, am_msg = blank_msg\<rparr>"

definition terminate_message :: async_msg where
  "terminate_message = \<lparr>am_type = async_terminate, am_worker = None, am_msg = blank_msg\<rparr>"

text \<open>A thread waits for a message, has one in hand, or has left its loop.\<close>

datatype worker = Waiting | Working async_msg | Stopped

text \<open>The destructor counts the messages that it has still to post.\<close>

record thread_pool =
  tp_q :: "async_msg mpmc_queue"
  tp_threads :: "worker list"
  tp_destructor :: "nat option"

definition mk_thread_pool :: "nat \<Rightarrow> nat \<Rightarrow> string + thread_pool" where
  "mk_thread_pool q_max_items threads_n =
     (if threads_n = 0 \<or> threads_n > 1000
      then Inl ''spdlog::thread_pool(): invalid threads_n param (valid range is 1-1000)''
      else Inr \<lparr>tp_q = mk_mpmc_queue \<lparr>am_type = async_log, am_worker = None, am_msg = blank_msg\<rparr> q_max_items,
                tp_threads = replicate threads_n Waiting, tp_destructor = None\<rparr>)"

section \<open>Steps\<close>

definition post_event :: "async_overflow_policy \<Rightarrow> async_msg \<Rightarrow> async_msg mq_event" where
  "post_event policy m =
     (case policy of block \<Rightarrow> Enqueue m | overrun_oldest \<Rightarrow> Enqueue_nowait m | discard_new \<Rightarrow> Enqueue_if_have_room m)"

text \<open>
  \<open>process_next_msg_\<close> after the dequeue: the call of the logger's back end, and whether the thread goes on.
  A message that is to be written or flushed always has a logger.
\<close>

datatype backend_call = Backend_sink_it nat log_msg | Backend_flush nat

definition process_msg :: "async_msg \<Rightarrow> backend_call option \<times> bool" where
  "process_msg m = (case am_type m of
     async_log \<Rightarrow> (map_option (\<lambda>worker. Backend_sink_it worker (am_msg m)) (am_worker m), True)
   | async_flush \<Rightarrow> (map_option Backend_flush (am_worker m), True)
   | async_terminate \<Rightarrow> (None, False))"

definition goes_on :: "async_msg \<Rightarrow> bool" where
  "goes_on m = snd (process_msg m)"

datatype pool_event = Post_log async_overflow_policy nat log_msg | Post_flush async_overflow_policy nat
  | Take nat async_msg | Finish nat async_msg | Destroy | Post_terminate | Reset_overrun | Reset_discard

definition set_thread :: "nat \<Rightarrow> worker \<Rightarrow> thread_pool \<Rightarrow> thread_pool" where
  "set_thread i w s = s\<lparr>tp_threads := (tp_threads s)[i := w]\<rparr>"

text \<open>
  A post holds the pool, so that the destructor starts after the last one.  A step on the queue that has to
  wait is no step.
\<close>

inductive pool_step :: "thread_pool \<Rightarrow> pool_event \<Rightarrow> thread_pool \<Rightarrow> bool" where
  post_log: "tp_destructor s = None \<Longrightarrow> mq_step (tp_q s) (post_event policy (log_message worker msg)) q \<Longrightarrow>
    pool_step s (Post_log policy worker msg) (s\<lparr>tp_q := q\<rparr>)"
| post_flush: "tp_destructor s = None \<Longrightarrow> mq_step (tp_q s) (post_event policy (flush_message worker)) q \<Longrightarrow>
    pool_step s (Post_flush policy worker) (s\<lparr>tp_q := q\<rparr>)"
| take: "i < length (tp_threads s) \<Longrightarrow> tp_threads s ! i = Waiting \<Longrightarrow> mq_step (tp_q s) (Dequeue m) q \<Longrightarrow>
    pool_step s (Take i m) (set_thread i (Working m) (s\<lparr>tp_q := q\<rparr>))"
| finish: "i < length (tp_threads s) \<Longrightarrow> tp_threads s ! i = Working m \<Longrightarrow>
    pool_step s (Finish i m) (set_thread i (if goes_on m then Waiting else Stopped) s)"
| destroy: "tp_destructor s = None \<Longrightarrow> pool_step s Destroy (s\<lparr>tp_destructor := Some (length (tp_threads s))\<rparr>)"
| post_terminate: "tp_destructor s = Some (Suc n) \<Longrightarrow> mq_step (tp_q s) (post_event block terminate_message) q \<Longrightarrow>
    pool_step s Post_terminate (s\<lparr>tp_q := q, tp_destructor := Some n\<rparr>)"
| reset_overrun: "tp_destructor s = None \<Longrightarrow>
    pool_step s Reset_overrun (s\<lparr>tp_q := (tp_q s)\<lparr>mq_q := cq_reset_overrun (mq_q (tp_q s))\<rparr>\<rparr>)"
| reset_discard: "tp_destructor s = None \<Longrightarrow> pool_step s Reset_discard (s\<lparr>tp_q := (tp_q s)\<lparr>mq_discard := 0\<rparr>\<rparr>)"

inductive_cases pool_stepE: "pool_step s e s'"

inductive pool_run :: "thread_pool \<Rightarrow> pool_event list \<Rightarrow> thread_pool \<Rightarrow> bool" where
  pool_start: "pool_run s [] s"
| pool_snoc: "pool_run s es s' \<Longrightarrow> pool_step s' e s'' \<Longrightarrow> pool_run s (es @ [e]) s''"

text \<open>The threads are joined.\<close>

definition joined :: "thread_pool \<Rightarrow> bool" where
  "joined s \<longleftrightarrow> tp_destructor s = Some 0 \<and> (\<forall>w \<in> set (tp_threads s). w = Stopped)"

section \<open>What was posted and written\<close>

definition posted :: "pool_event list \<Rightarrow> async_msg list" where
  "posted es = concat (map (\<lambda>e. case e of Post_log p w m \<Rightarrow> [log_message w m] | Post_flush p w \<Rightarrow> [flush_message w] | _ \<Rightarrow> []) es)"

definition written :: "pool_event list \<Rightarrow> async_msg list" where
  "written es = concat (map (\<lambda>e. case e of Finish i m \<Rightarrow> if goes_on m then [m] else [] | _ \<Rightarrow> []) es)"

text \<open>The calls of the loggers' back ends, in the order in which they end.\<close>

definition backend_calls :: "pool_event list \<Rightarrow> backend_call list" where
  "backend_calls es = concat (map (\<lambda>e. case e of
     Finish i m \<Rightarrow> (case fst (process_msg m) of None \<Rightarrow> [] | Some c \<Rightarrow> [c]) | _ \<Rightarrow> []) es)"

definition blocking_posts :: "pool_event list \<Rightarrow> bool" where
  "blocking_posts es \<longleftrightarrow> (\<forall>e \<in> set es. (case e of Post_log p w m \<Rightarrow> p = block | Post_flush p w \<Rightarrow> p = block | _ \<Rightarrow> True))"

definition in_hand :: "worker list \<Rightarrow> async_msg list" where
  "in_hand ws = concat (map (\<lambda>w. case w of Working m \<Rightarrow> if goes_on m then [m] else [] | _ \<Rightarrow> []) ws)"

text \<open>A thread that has taken its last message.\<close>

definition ended :: "worker \<Rightarrow> bool" where
  "ended w \<longleftrightarrow> (case w of Waiting \<Rightarrow> False | Working m \<Rightarrow> \<not> goes_on m | Stopped \<Rightarrow> True)"

abbreviation queued :: "thread_pool \<Rightarrow> async_msg list" where
  "queued s \<equiv> cq_contents (mq_q (tp_q s))"

section \<open>The queue\<close>

definition ready_q :: "nat \<Rightarrow> 'a mpmc_queue \<Rightarrow> bool" where
  "ready_q n q \<longleftrightarrow> cq_inv (mq_q q) \<and> cq_cap (mq_q q) = n"

lemma push_overrun:
  "cq_push_back x q = Some q' \<Longrightarrow> cq_inv q \<Longrightarrow> 0 < cq_cap q \<Longrightarrow>
    cq_overrun q' = (if cq_full q then (cq_overrun q + 1) mod 2 ^ 64 else cq_overrun q)"
  by (auto simp: cq_push_back_def cq_full_def cq_cap_def Let_def split: if_splits)

text \<open>What a post does: the message is the last one in the queue, or one message is dropped and counted.\<close>

lemma post_effect:
  assumes "mq_step q (post_event policy m) q'" and "ready_q n q" and "0 < n"
  shows "ready_q n q' \<and>
    (cq_contents (mq_q q') = cq_contents (mq_q q) @ [m] \<and> cq_overrun (mq_q q') = cq_overrun (mq_q q) \<and> mq_discard q' = mq_discard q \<or>
     policy = overrun_oldest \<and> cq_contents (mq_q q) \<noteq> [] \<and> cq_contents (mq_q q') = tl (cq_contents (mq_q q)) @ [m] \<and>
       cq_overrun (mq_q q') = (cq_overrun (mq_q q) + 1) mod 2 ^ 64 \<and> mq_discard q' = mq_discard q \<or>
     policy = discard_new \<and> cq_contents (mq_q q') = cq_contents (mq_q q) \<and> cq_overrun (mq_q q') = cq_overrun (mq_q q) \<and>
       mq_discard q' = (mq_discard q + 1) mod 2 ^ 64)"
proof -
  let ?q = "mq_q q"
  have i: "cq_inv ?q" "cq_cap ?q = n" using assms(2) by (simp_all add: ready_q_def)
  have full: "cq_full ?q \<longleftrightarrow> length (cq_contents ?q) = n" using ring_q.full_ok [OF i(1)] i(2) assms(3) by simp
  have le: "length (cq_contents ?q) \<le> n" using ring_q.bound [OF i(1)] i(2) by simp
  have push: "cq_inv c \<and> cq_cap c = n \<and> cq_contents c = overwrite n (cq_contents ?q) m \<and>
      cq_overrun c = (if cq_full ?q then (cq_overrun ?q + 1) mod 2 ^ 64 else cq_overrun ?q)" if "cq_push_back m ?q = Some c" for c
    using ring_q.push_ok [OF i(1), of m] push_overrun [OF that i(1)] that i(2) assms(3) by auto
  have room: "overwrite n (cq_contents ?q) m = cq_contents ?q @ [m]" if "\<not> cq_full ?q"
    using that full le by (intro overwrite_room) simp
  have over: "overwrite n (cq_contents ?q) m = tl (cq_contents ?q) @ [m] \<and> cq_contents ?q \<noteq> []" if "cq_full ?q"
    using that full assms(3) by (cases "cq_contents ?q") (auto simp: overwrite_def simp del: length_cq_contents)
  show ?thesis
  proof (cases policy)
    case block
    with assms(1) show ?thesis using push room by (auto simp: post_event_def ready_q_def elim!: mq_stepE)
  next
    case overrun_oldest
    with assms(1) show ?thesis using push room over
      by (cases "cq_full ?q") (auto simp: post_event_def ready_q_def elim!: mq_stepE)
  next
    case discard_new
    with assms(1) i show ?thesis using push room by (auto simp: post_event_def ready_q_def elim!: mq_stepE)
  qed
qed

lemma take_effect:
  assumes "mq_step q (Dequeue m) q'" and "ready_q n q"
  shows "ready_q n q' \<and> cq_contents (mq_q q) = m # cq_contents (mq_q q') \<and>
    cq_overrun (mq_q q') = cq_overrun (mq_q q) \<and> mq_discard q' = mq_discard q"
  using assms(1)
proof cases
  case (dequeue c)
  have i: "cq_inv (mq_q q)" "cq_cap (mq_q q) = n" using assms(2) by (simp_all add: ready_q_def)
  have ne: "cq_contents (mq_q q) \<noteq> []" using ring_q.empty_ok [OF i(1)] dequeue(2) by simp
  have "cq_overrun c = cq_overrun (mq_q q)" using dequeue(4) by (auto simp: cq_pop_front_def split: if_splits)
  with ring_q.front_ok [OF i(1) ne] ring_q.pop_ok [OF i(1) ne] dequeue i(2) ne show ?thesis by (auto simp: ready_q_def)
qed

text \<open>When a queue of some capacity is not full it takes a message, when it is not empty it gives one.\<close>

lemma can_post: "ready_q n q \<Longrightarrow> 0 < n \<Longrightarrow> length (cq_contents (mq_q q)) < n \<Longrightarrow> \<exists>q'. mq_step q (post_event block m) q'"
  using ring_q.full_ok [of "mq_q q"] ring_q.push_ok [of "mq_q q" m] mq_step.enqueue [of q m]
  by (auto simp: post_event_def ready_q_def simp del: length_cq_contents)

lemma can_take: "ready_q n q \<Longrightarrow> cq_contents (mq_q q) \<noteq> [] \<Longrightarrow> \<exists>m q'. mq_step q (Dequeue m) q'"
  using ring_q.empty_ok [of "mq_q q"] ring_q.front_ok [of "mq_q q"] ring_q.pop_ok [of "mq_q q"] mq_step.dequeue [of q]
  by (auto simp: ready_q_def)

end
