(* ===== verification/Thread_Pool_Facts.thy ===== *)
theory Thread_Pool_Facts
  imports Thread_Pool
begin

text \<open>
  Facts about the thread pool: its invariant, what becomes of the messages, and that the destructor ends.
\<close>

section \<open>Threads\<close>

lemma split_at_index: "i < length ws \<Longrightarrow> \<exists>us vs. ws = us @ ws ! i # vs \<and> (\<forall>w. ws[i := w] = us @ w # vs)"
  using id_take_nth_drop [of i ws] upd_conv_take_nth_drop [of i ws] by blast

lemma in_hand_append [simp]: "in_hand (us @ vs) = in_hand us @ in_hand vs"
  by (simp add: in_hand_def)

lemma in_hand_Cons [simp]:
  "in_hand (w # ws) = (case w of Working m \<Rightarrow> if goes_on m then [m] else [] | _ \<Rightarrow> []) @ in_hand ws"
  "in_hand [] = []"
  by (simp_all add: in_hand_def)

lemma ended_simps [simp]: "\<not> ended Waiting" "ended Stopped" "ended (Working m) \<longleftrightarrow> \<not> goes_on m"
  by (simp_all add: ended_def)

lemma goes_on_simps [simp]: "goes_on (log_message w m)" "goes_on (flush_message w)" "\<not> goes_on terminate_message"
  by (simp_all add: goes_on_def process_msg_def log_message_def flush_message_def terminate_message_def)

definition ended_n :: "worker list \<Rightarrow> nat" where
  "ended_n ws = length (filter ended ws)"

lemma all_stopped: "\<forall>w \<in> set ws. w = Stopped \<Longrightarrow> ended_n ws = length ws \<and> in_hand ws = []"
  by (induction ws) (auto simp: ended_n_def)

section \<open>The invariant\<close>

text \<open>
  The messages that end the threads are the last ones in the queue; there is one for each thread, in the
  queue, taken or still to post; when one is taken there are no others in front.
\<close>

definition pool_inv :: "nat \<Rightarrow> nat \<Rightarrow> thread_pool \<Rightarrow> bool" where
  "pool_inv n W s \<longleftrightarrow> ready_q n (tp_q s) \<and> length (tp_threads s) = W \<and>
     (\<exists>ms ts. queued s = ms @ ts \<and> list_all goes_on ms \<and> list_all (\<lambda>m. \<not> goes_on m) ts \<and>
        (0 < ended_n (tp_threads s) \<longrightarrow> ms = []) \<and>
        length ts + ended_n (tp_threads s) + (case tp_destructor s of None \<Rightarrow> W | Some k \<Rightarrow> k) = W)"

lemma pool_inv_start:
  "mk_thread_pool n W = Inr s \<Longrightarrow> n + 1 < 2 ^ 64 \<Longrightarrow> pool_inv n W s \<and> 0 < W"
  by (auto simp: mk_thread_pool_def pool_inv_def ready_q_def mk_mpmc_queue_def mk_circular_q_inv mk_circular_q_cap mk_circular_q_contents
      ended_n_def split: if_splits)

lemma pool_inv_reset [simp]:
  "pool_inv n W (s\<lparr>tp_q := (tp_q s)\<lparr>mq_q := cq_reset_overrun (mq_q (tp_q s))\<rparr>\<rparr>) = pool_inv n W s"
  "pool_inv n W (s\<lparr>tp_q := (tp_q s)\<lparr>mq_discard := k\<rparr>\<rparr>) = pool_inv n W s"
  by (simp_all add: pool_inv_def ready_q_def cq_reset_overrun_def cq_inv_def cq_cap_def cq_contents_def cq_size_def)

text \<open>Before the destructor starts there are no such messages.\<close>

lemma pool_inv_None:
  "tp_destructor s = None \<Longrightarrow> pool_inv n W s \<longleftrightarrow> ready_q n (tp_q s) \<and> length (tp_threads s) = W \<and> list_all goes_on (queued s) \<and>
     ended_n (tp_threads s) = 0"
  by (auto simp: pool_inv_def)

lemma pool_inv_post:
  assumes "pool_inv n W s" and "0 < n" and "tp_destructor s = None" and "mq_step (tp_q s) (post_event policy m) q" and "goes_on m"
  shows "pool_inv n W (s\<lparr>tp_q := q\<rparr>)"
proof -
  have i: "ready_q n (tp_q s)" "length (tp_threads s) = W" "list_all goes_on (queued s)" "ended_n (tp_threads s) = 0"
    using assms(1,3) by (simp_all add: pool_inv_None)
  have "list_all goes_on (tl (queued s))" using i(3) by (cases "queued s") simp_all
  with post_effect [OF assms(4) i(1) assms(2)] assms(3,5) i show ?thesis by (auto simp: pool_inv_None)
qed

lemma pool_inv_step:
  assumes "pool_step s e s'" and "pool_inv n W s" and "0 < n"
  shows "pool_inv n W s'"
  using assms(1)
proof cases
  case (post_log policy msg q worker)
  with assms(2,3) show ?thesis by (auto intro!: pool_inv_post)
next
  case (post_flush policy worker q)
  with assms(2,3) show ?thesis by (auto intro!: pool_inv_post)
next
  case (take i m q)
  from split_at_index [OF take(3)] take(4) obtain us vs where ws: "tp_threads s = us @ Waiting # vs"
    "\<And>w. (tp_threads s)[i := w] = us @ w # vs" by metis
  from assms(2) obtain ms ts where i: "ready_q n (tp_q s)" "length (tp_threads s) = W" "queued s = ms @ ts" "list_all goes_on ms"
    "list_all (\<lambda>m. \<not> goes_on m) ts" "0 < ended_n (tp_threads s) \<longrightarrow> ms = []"
    "length ts + ended_n (tp_threads s) + (case tp_destructor s of None \<Rightarrow> W | Some k \<Rightarrow> k) = W" by (auto simp: pool_inv_def)
  note t = take_effect [OF take(5) i(1)]
  show ?thesis
  proof (cases ms)
    case Nil
    with i t obtain ts' where "ts = m # ts'" "cq_contents (mq_q q) = ts'" by (cases ts) auto
    with i t ws take(2) Nil show ?thesis by (auto simp: pool_inv_def set_thread_def ended_n_def)
  next
    case (Cons m' ms')
    with i t have "m' = m" "cq_contents (mq_q q) = ms' @ ts" by auto
    with i t ws take(2) Cons show ?thesis by (auto simp: pool_inv_def set_thread_def ended_n_def)
  qed
next
  case (finish i m)
  from split_at_index [OF finish(3)] finish(4) obtain us vs where ws: "tp_threads s = us @ Working m # vs"
    "\<And>w. (tp_threads s)[i := w] = us @ w # vs" by metis
  then have "ended_n ((tp_threads s)[i := if goes_on m then Waiting else Stopped]) = ended_n (tp_threads s)" by (auto simp: ended_n_def)
  with assms(2) finish(2) show ?thesis by (simp add: pool_inv_def set_thread_def)
next
  case destroy
  with assms(2) show ?thesis by (auto simp: pool_inv_def)
next
  case (post_terminate k q)
  from assms(2) obtain ms ts where i: "ready_q n (tp_q s)" "length (tp_threads s) = W" "queued s = ms @ ts" "list_all goes_on ms"
    "list_all (\<lambda>m. \<not> goes_on m) ts" "0 < ended_n (tp_threads s) \<longrightarrow> ms = []"
    "length ts + ended_n (tp_threads s) + (case tp_destructor s of None \<Rightarrow> W | Some k \<Rightarrow> k) = W" by (auto simp: pool_inv_def)
  from post_effect [OF post_terminate(4) i(1) assms(3)] have "ready_q n q" "cq_contents (mq_q q) = ms @ (ts @ [terminate_message])"
    using i(3) by auto
  with i post_terminate(2,3) show ?thesis unfolding pool_inv_def
    by (intro conjI exI [of _ ms] exI [of _ "ts @ [terminate_message]"]) simp_all
qed (use assms(2) in simp_all)

lemma pool_run_inv: "pool_run s es s' \<Longrightarrow> pool_inv n W s \<Longrightarrow> 0 < n \<Longrightarrow> pool_inv n W s'"
  by (induction rule: pool_run.induct) (auto intro: pool_inv_step)

text \<open>When all threads are joined the queue is empty.\<close>

lemma joined_empty:
  assumes "pool_inv n W s" and "joined s" and "0 < W"
  shows "queued s = [] \<and> in_hand (tp_threads s) = []"
proof -
  have "ended_n (tp_threads s) = length (tp_threads s) \<and> in_hand (tp_threads s) = []" using assms(2) all_stopped by (simp add: joined_def)
  with assms show ?thesis by (auto simp: pool_inv_def)
qed

section \<open>What becomes of the messages\<close>

lemma posted_snoc [simp]:
  "posted (es @ [e]) = posted es @ (case e of Post_log p w m \<Rightarrow> [log_message w m] | Post_flush p w \<Rightarrow> [flush_message w] | _ \<Rightarrow> [])"
  "posted [] = []"
  by (simp_all add: posted_def)

lemma written_snoc [simp]:
  "written (es @ [e]) = written es @ (case e of Finish i m \<Rightarrow> if goes_on m then [m] else [] | _ \<Rightarrow> [])"
  "written [] = []"
  by (simp_all add: written_def)

text \<open>Writing a message is one call of the back end of its logger.\<close>

lemma backend_calls_written:
  assumes "set (written es) \<subseteq> set (posted es)"
  shows "map Some (backend_calls es) = map (\<lambda>m. case am_type m of async_log \<Rightarrow> map_option (\<lambda>w. Backend_sink_it w (am_msg m)) (am_worker m)
      | async_flush \<Rightarrow> map_option Backend_flush (am_worker m) | async_terminate \<Rightarrow> None) (written es)"
proof -
  have "am_worker m \<noteq> None" if "m \<in> set (posted es)" for m
  proof -
    from that obtain e where "m \<in> set (posted [e])" by (auto simp: posted_def)
    then show ?thesis by (cases e) (auto simp: posted_def log_message_def flush_message_def)
  qed
  with assms have "\<forall>m \<in> set (written es). am_worker m \<noteq> None" by blast
  then show ?thesis
  proof (induction es)
    case (Cons e es)
    then show ?case
      by (cases e) (auto simp: written_def backend_calls_def goes_on_def process_msg_def split: async_msg_type.splits)
  qed (simp add: written_def backend_calls_def)
qed

lemma blocking_posts_snoc [simp]:
  "blocking_posts (es @ [e]) \<longleftrightarrow> blocking_posts es \<and>
     (case e of Post_log p w m \<Rightarrow> p = block | Post_flush p w \<Rightarrow> p = block | _ \<Rightarrow> True)"
  "blocking_posts []"
  by (auto simp: blocking_posts_def)

text \<open>
  Every message that was posted is written, in the hands of a thread, in the queue or lost; a lost one is
  counted, and with blocking posts none is lost.
\<close>

definition account :: "pool_event list \<Rightarrow> thread_pool \<Rightarrow> async_msg multiset \<Rightarrow> bool" where
  "account es s lost \<longleftrightarrow>
     mset (posted es) = mset (written es) + mset (in_hand (tp_threads s)) + mset (filter goes_on (queued s)) + lost \<and>
     (blocking_posts es \<longrightarrow> lost = {#}) \<and>
     (Reset_overrun \<notin> set es \<and> Reset_discard \<notin> set es \<longrightarrow>
       (\<exists>a b. size lost = a + b \<and> cq_overrun (mq_q (tp_q s)) = a mod 2 ^ 64 \<and> mq_discard (tp_q s) = b mod 2 ^ 64))"

lemma account_post:
  assumes "account es s lost" and "pool_inv n W s" and "0 < n" and "tp_destructor s = None" and "goes_on m"
    and "mq_step (tp_q s) (post_event policy m) q"
    and "posted (es @ [e]) = posted es @ [m]" and "written (es @ [e]) = written es"
    and "blocking_posts (es @ [e]) \<longleftrightarrow> blocking_posts es \<and> policy = block" and "e \<noteq> Reset_overrun" and "e \<noteq> Reset_discard"
  shows "\<exists>lost'. account (es @ [e]) (s\<lparr>tp_q := q\<rparr>) lost'"
proof -
  have i: "ready_q n (tp_q s)" "list_all goes_on (queued s)" using assms(2,4) by (simp_all add: pool_inv_None)
  note a = assms(1) [unfolded account_def]
  from post_effect [OF assms(6) i(1) assms(3)] consider
      (put) "cq_contents (mq_q q) = queued s @ [m]" "cq_overrun (mq_q q) = cq_overrun (mq_q (tp_q s))" "mq_discard q = mq_discard (tp_q s)"
    | (over) "policy = overrun_oldest" "queued s \<noteq> []" "cq_contents (mq_q q) = tl (queued s) @ [m]"
        "cq_overrun (mq_q q) = (cq_overrun (mq_q (tp_q s)) + 1) mod 2 ^ 64" "mq_discard q = mq_discard (tp_q s)"
    | (discard) "policy = discard_new" "cq_contents (mq_q q) = queued s" "cq_overrun (mq_q q) = cq_overrun (mq_q (tp_q s))"
        "mq_discard q = (mq_discard (tp_q s) + 1) mod 2 ^ 64" by blast
  then show ?thesis
  proof cases
    case put
    with a assms(5,7-) show ?thesis by (intro exI [of _ lost]) (auto simp: account_def)
  next
    case over
    then obtain x xs where x: "queued s = x # xs" "goes_on x" using i(2) by (cases "queued s") auto
    have "\<exists>a b. Suc (size lost) = a + b \<and> (k + 1) mod 2 ^ 64 = a mod 2 ^ 64 \<and> l = b mod 2 ^ 64"
      if "size lost = a + b" "k = a mod 2 ^ 64" "l = b mod 2 ^ 64" for a b k l :: nat
      using that by (intro exI [of _ "Suc a"] exI [of _ b]) (simp add: mod_simps)
    with a x over assms(5,7-) show ?thesis by (intro exI [of _ "add_mset x lost"]) (auto simp: account_def)
  next
    case discard
    have "\<exists>a b. Suc (size lost) = a + b \<and> k = a mod 2 ^ 64 \<and> (l + 1) mod 2 ^ 64 = b mod 2 ^ 64"
      if "size lost = a + b" "k = a mod 2 ^ 64" "l = b mod 2 ^ 64" for a b k l :: nat
      using that by (intro exI [of _ a] exI [of _ "Suc b"]) (simp add: mod_simps)
    with a discard assms(5,7-) show ?thesis by (intro exI [of _ "add_mset m lost"]) (auto simp: account_def)
  qed
qed

lemma account_step:
  assumes "account es s lost" and "pool_step s e s'" and "pool_inv n W s" and "0 < n"
  shows "\<exists>lost'. account (es @ [e]) s' lost'"
  using assms(2)
proof cases
  case (post_log policy worker msg q)
  with account_post [OF assms(1,3,4) post_log(3), of "log_message worker msg" policy q e] show ?thesis by simp
next
  case (post_flush policy worker q)
  with account_post [OF assms(1,3,4) post_flush(3), of "flush_message worker" policy q e] show ?thesis by simp
next
  case (take i m q)
  from split_at_index [OF take(3)] take(4) obtain us vs where "tp_threads s = us @ Waiting # vs"
    "\<And>w. (tp_threads s)[i := w] = us @ w # vs" by metis
  moreover from assms(3) have "ready_q n (tp_q s)" by (simp add: pool_inv_def)
  from take_effect [OF take(5) this] have "queued s = m # cq_contents (mq_q q)" "cq_overrun (mq_q q) = cq_overrun (mq_q (tp_q s))"
    "mq_discard q = mq_discard (tp_q s)" by auto
  ultimately show ?thesis using assms(1) take(1,2) by (intro exI [of _ lost]) (auto simp: account_def set_thread_def)
next
  case (finish i m)
  from split_at_index [OF finish(3)] finish(4) obtain us vs where "tp_threads s = us @ Working m # vs"
    "\<And>w. (tp_threads s)[i := w] = us @ w # vs" by metis
  with assms(1) finish(1,2) show ?thesis by (intro exI [of _ lost]) (auto simp: account_def set_thread_def)
next
  case destroy
  with assms(1) show ?thesis by (intro exI [of _ lost]) (auto simp: account_def)
next
  case (post_terminate k q)
  from assms(3) have "ready_q n (tp_q s)" by (simp add: pool_inv_def)
  from post_effect [OF post_terminate(4) this assms(4)] have "cq_contents (mq_q q) = queued s @ [terminate_message]"
    "cq_overrun (mq_q q) = cq_overrun (mq_q (tp_q s))" "mq_discard q = mq_discard (tp_q s)" by simp_all
  with assms(1) post_terminate(1,2) show ?thesis by (intro exI [of _ lost]) (auto simp: account_def)
next
  case reset_overrun
  have "cq_contents (cq_reset_overrun q) = cq_contents q" for q :: "async_msg circular_q"
    by (simp add: cq_contents_def cq_size_def cq_reset_overrun_def)
  with assms(1) reset_overrun show ?thesis by (intro exI [of _ lost]) (auto simp: account_def)
next
  case reset_discard
  with assms(1) show ?thesis by (intro exI [of _ lost]) (auto simp: account_def)
qed

lemma account_run:
  assumes "pool_run s es s'" and "pool_inv n W s" and "0 < n" and "account [] s {#}"
  shows "\<exists>lost. account es s' lost"
  using assms
proof (induction rule: pool_run.induct)
  case (pool_snoc s es s' e s'')
  then show ?case using account_step [OF _ pool_snoc.hyps(2)] pool_run_inv [OF pool_snoc.hyps(1)] by blast
qed blast

lemma account_start: "mk_thread_pool n W = Inr s \<Longrightarrow> account [] s {#}"
proof -
  assume s: "mk_thread_pool n W = Inr s"
  have "in_hand (replicate k Waiting) = []" for k by (induction k) simp_all
  moreover have "cq_overrun (mk_circular_q d n) = 0" for d :: async_msg by (simp add: mk_circular_q_def Let_def)
  ultimately show ?thesis using s
    by (auto simp: mk_thread_pool_def account_def mk_mpmc_queue_def mk_circular_q_contents split: if_splits)
qed

section \<open>One thread\<close>

section \<open>One thread\<close>

text \<open>With one thread the messages are written in the order in which they were posted, lost ones left out.\<close>

abbreviation in_order :: "pool_event list \<Rightarrow> thread_pool \<Rightarrow> bool" where
  "in_order es s \<equiv> subseq (written es @ in_hand (tp_threads s) @ filter goes_on (queued s)) (posted es)"

lemma in_order_post:
  assumes "in_order es s" and "pool_inv n 1 s" and "0 < n" and "tp_destructor s = None" and "goes_on m"
    and "mq_step (tp_q s) (post_event policy m) q"
  shows "subseq (written es @ in_hand (tp_threads s) @ filter goes_on (cq_contents (mq_q q))) (posted es @ [m])"
proof -
  have i: "ready_q n (tp_q s)" "list_all goes_on (queued s)" using assms(2,4) by (simp_all add: pool_inv_None)
  let ?A = "written es @ in_hand (tp_threads s)"
  have a: "subseq (?A @ filter goes_on (queued s)) (posted es)" using assms(1) by simp
  have last: "subseq (?A @ xs) (posted es) \<Longrightarrow> subseq (?A @ xs @ [m]) (posted es @ [m])" for xs
    using subseq_append [of "?A @ xs" "[m]" "posted es"] by simp
  from post_effect [OF assms(6) i(1) assms(3)] consider "cq_contents (mq_q q) = queued s @ [m]"
    | "queued s \<noteq> []" "cq_contents (mq_q q) = tl (queued s) @ [m]" | "cq_contents (mq_q q) = queued s" by blast
  then show ?thesis
  proof cases
    case 1
    with last [OF a] assms(5) show ?thesis by simp
  next
    case 2
    then obtain x xs where x: "queued s = x # xs" "goes_on x" using i(2) by (cases "queued s") auto
    have "subseq (?A @ filter goes_on xs) (?A @ filter goes_on (queued s))" using x
      subseq_append' [of "?A" "filter goes_on xs" "x # filter goes_on xs"] by (simp add: list_emb_Cons)
    with a have "subseq (?A @ filter goes_on xs) (posted es)" using subseq_order.trans by blast
    from last [OF this] 2 x assms(5) show ?thesis by simp
  next
    case 3
    with a show ?thesis by (simp add: subseq_rev_drop_many)
  qed
qed

lemma in_order_step:
  assumes "in_order es s" and "pool_step s e s'" and "pool_inv n 1 s" and "0 < n"
  shows "in_order (es @ [e]) s'"
  using assms(2)
proof cases
  case (post_log policy worker msg q)
  with in_order_post [OF assms(1,3,4) post_log(3) _ post_log(4)] show ?thesis by simp
next
  case (post_flush policy worker q)
  with in_order_post [OF assms(1,3,4) post_flush(3) _ post_flush(4)] show ?thesis by simp
next
  case (take i m q)
  with assms(3) have "tp_threads s = [Waiting]" "i = 0" by (cases "tp_threads s"; auto simp: pool_inv_def)+
  moreover from assms(3) have "ready_q n (tp_q s)" by (simp add: pool_inv_def)
  from take_effect [OF take(5) this] have "queued s = m # cq_contents (mq_q q)" by simp
  ultimately show ?thesis using assms(1) take(1,2) by (auto simp: set_thread_def)
next
  case (finish i m)
  with assms(3) have "tp_threads s = [Working m]" "i = 0" by (cases "tp_threads s"; auto simp: pool_inv_def)+
  with assms(1) finish(1,2) show ?thesis by (auto simp: set_thread_def)
next
  case (post_terminate k q)
  from assms(3) have "ready_q n (tp_q s)" by (simp add: pool_inv_def)
  from post_effect [OF post_terminate(4) this assms(4)] have "cq_contents (mq_q q) = queued s @ [terminate_message]" by simp
  with assms(1) post_terminate(1,2) show ?thesis by simp
next
  case reset_overrun
  have "cq_contents (cq_reset_overrun q) = cq_contents q" for q :: "async_msg circular_q"
    by (simp add: cq_contents_def cq_size_def cq_reset_overrun_def)
  with assms(1) reset_overrun show ?thesis by simp
qed (use assms(1) in simp_all)

lemma in_order_run:
  assumes "pool_run s es s'" and "pool_inv n 1 s" and "0 < n" and "in_order [] s"
  shows "in_order es s'"
  using assms
proof (induction rule: pool_run.induct)
  case (pool_snoc s es s' e s'')
  then show ?case using in_order_step [OF _ pool_snoc.hyps(2)] pool_run_inv [OF pool_snoc.hyps(1)] by blast
qed blast

section \<open>The destructor\<close>

text \<open>Work that is left: each step of the destructor and the threads takes some of it.\<close>

definition pool_work :: "thread_pool \<Rightarrow> nat" where
  "pool_work s = 3 * (case tp_destructor s of None \<Rightarrow> 0 | Some k \<Rightarrow> k) + 2 * length (queued s) +
     length (filter (\<lambda>w. \<exists>m. w = Working m) (tp_threads s))"

lemma pool_work_step:
  assumes "pool_step s e s'" and "pool_inv n W s" and "0 < n" and "tp_destructor s \<noteq> None"
  shows "pool_work s' < pool_work s \<and> tp_destructor s' \<noteq> None"
  using assms(1)
proof cases
  case (take i m q)
  from split_at_index [OF take(3)] take(4) obtain us vs where "tp_threads s = us @ Waiting # vs"
    "\<And>w. (tp_threads s)[i := w] = us @ w # vs" by metis
  moreover from assms(2) have "ready_q n (tp_q s)" by (simp add: pool_inv_def)
  from take_effect [OF take(5) this] have "queued s = m # cq_contents (mq_q q)" by simp
  ultimately show ?thesis using take(2) assms(4) by (simp add: pool_work_def set_thread_def del: length_cq_contents)
next
  case (finish i m)
  from split_at_index [OF finish(3)] finish(4) obtain us vs where "tp_threads s = us @ Working m # vs"
    "\<And>w. (tp_threads s)[i := w] = us @ w # vs" by metis
  with finish(2) assms(4) show ?thesis by (simp add: pool_work_def set_thread_def)
next
  case (post_terminate k q)
  from assms(2) have "ready_q n (tp_q s)" by (simp add: pool_inv_def)
  from post_effect [OF post_terminate(4) this assms(3)] have "cq_contents (mq_q q) = queued s @ [terminate_message]" by simp
  with post_terminate(2,3) show ?thesis by (simp add: pool_work_def del: length_cq_contents)
qed (use assms(4) in simp_all)

text \<open>Until the threads are joined one of them, or the destructor, has a step.\<close>

lemma pool_progress:
  assumes "pool_inv n W s" and "0 < n" and "tp_destructor s \<noteq> None" and "\<not> joined s"
  shows "\<exists>e s'. pool_step s e s'"
proof -
  from assms(1) obtain ms ts where i: "ready_q n (tp_q s)" "length (tp_threads s) = W" "queued s = ms @ ts"
    "length ts + ended_n (tp_threads s) + (case tp_destructor s of None \<Rightarrow> W | Some k \<Rightarrow> k) = W" by (auto simp: pool_inv_def)
  obtain k where k: "tp_destructor s = Some k" using assms(3) by blast
  show ?thesis
  proof (cases "\<exists>i m. i < length (tp_threads s) \<and> tp_threads s ! i = Working m")
    case True
    then show ?thesis using finish by blast
  next
    case False
    have each: "w = Waiting \<or> w = Stopped" if "w \<in> set (tp_threads s)" for w
      using that False unfolding in_set_conv_nth by (cases w) blast+
    have takes: ?thesis if "queued s \<noteq> []" "Waiting \<in> set (tp_threads s)"
    proof -
      from that(2) obtain j where "j < length (tp_threads s)" "tp_threads s ! j = Waiting" by (auto simp: in_set_conv_nth)
      with can_take [OF i(1) that(1)] take [of j s] show ?thesis by blast
    qed
    show ?thesis
    proof (cases "Waiting \<in> set (tp_threads s)")
      case True
      show ?thesis
      proof (cases "queued s")
        case Nil
        have "ended_n (tp_threads s) < length (tp_threads s)" unfolding ended_n_def by (rule length_filter_less [OF True]) simp
        with Nil i k obtain l where "k = Suc l" by (cases k) auto
        moreover obtain q where "mq_step (tp_q s) (post_event block terminate_message) q"
          using can_post [OF i(1) assms(2)] Nil assms(2) by auto
        ultimately show ?thesis using post_terminate k by blast
      next
        case (Cons m xs)
        with takes True show ?thesis by simp
      qed
    next
      case f: False
      then have all: "\<forall>w \<in> set (tp_threads s). w = Stopped" using each by blast
      then have "ended_n (tp_threads s) = W" using i(2) all_stopped by simp
      with i k have "k = 0" by simp
      with all k assms(4) show ?thesis by (simp add: joined_def)
    qed
  qed
qed

lemma pool_run_Cons: "pool_run s' es s'' \<Longrightarrow> pool_step s e s' \<Longrightarrow> pool_run s (e # es) s''"
proof (induction rule: pool_run.induct)
  case (pool_start s')
  from pool_snoc [OF pool_run.pool_start pool_start] show ?case by simp
next
  case (pool_snoc s' es t e' t')
  from pool_run.pool_snoc [OF pool_snoc.IH [OF pool_snoc.prems] pool_snoc.hyps(2)] show ?case by simp
qed

lemma pool_can_end:
  "pool_inv n W s \<Longrightarrow> 0 < n \<Longrightarrow> tp_destructor s \<noteq> None \<Longrightarrow> \<exists>es s'. pool_run s es s' \<and> joined s' \<and> length es \<le> pool_work s"
proof (induction "pool_work s" arbitrary: s rule: less_induct)
  case less
  show ?case
  proof (cases "joined s")
    case True
    then show ?thesis using pool_start by fastforce
  next
    case False
    from pool_progress [OF less.prems False] obtain e s1 where e: "pool_step s e s1" by blast
    from pool_work_step [OF this less.prems] have w: "pool_work s1 < pool_work s" "tp_destructor s1 \<noteq> None" by simp_all
    from less.hyps [OF w(1) pool_inv_step [OF e less.prems(1,2)] less.prems(2) w(2)] obtain es s' where
      "pool_run s1 es s'" "joined s'" "length es \<le> pool_work s1" by blast
    with pool_run_Cons [OF _ e] w(1) show ?thesis by (intro exI [of _ "e # es"] exI [of _ s']) auto
  qed
qed

end
