(* ===== verification/Logging_Calls.thy ===== *)
theory Logging_Calls
  imports Log_Config Thread_Pool_Facts Fmt_Theorems Logging_Theorems
begin

text \<open>
  What the logging calls of the program do, from the format string to the lines, and the parts of the library
  behind them: the registry, the levels, the backtrace and asynchronous logging.
\<close>

section \<open>Calls\<close>

definition no_loc :: source_loc where
  "no_loc = \<lparr>loc_filename = None, loc_line = 0, loc_funcname = None\<rparr>"

definition demo_call :: "level_enum \<Rightarrow> string \<Rightarrow> fmt_arg list \<Rightarrow> log_call" where
  "demo_call lvl fmt args = \<lparr>lc_env = demo_env, lc_time = 1712234521042000000, lc_thread = 7, lc_loc = no_loc, lc_level = lvl,
     lc_fmt = fmt, lc_args = args, lc_err_time = 1712234521042000000, lc_err_date = ''2024-04-04 12:42:01''\<rparr>"

lemma demo_call_ok: "lvl \<noteq> n_levels \<Longrightarrow> args_ok args [] \<Longrightarrow> length fmt < 2 ^ 31 \<Longrightarrow> call_ok (\<lambda>_. demo_tm) (demo_call lvl fmt args)"
  by (simp add: call_ok_def demo_call_def no_loc_def demo_env_def msg_ok_def make_log_msg_def time_ok_def loc_empty_def)

text \<open>
  C14. After \<open>setup_logger\<close>, for every sequence of calls of \<open>spdlog::info\<close> and the like, with any format
  strings (of less than \<open>2 ^ 31\<close> chars) and any integers, booleans, characters, strings and pointers as arguments (floating point and
  user-defined types are not covered): a call below \<open>debug\<close> does nothing; one whose text can be formatted
  gives that text as one line, the same to the log file and, from \<open>info\<close> on, to the console; one that cannot
  neither throws nor writes a line nor changes what later calls do, and its reason and place go to the error
  handler, which prints at most one report in a second and leaves the others out.
\<close>

theorem program_calls:
  assumes "\<forall>s. clock_ok (cal s)" and "facet_ok f" and "list_all (call_ok cal) cs"
  shows "spdlog_run f (install_logger now eol log_file utc tid cpu_id r) st cs =
    Some (map (\<lambda>c. if \<not> level_debug \<le> lc_level c then []
      else case vformat_to (lc_fmt c) (make_format_args (lc_args c) []) f of
        Some (Inr t) \<Rightarrow>
          (let msg = make_log_msg (lc_time c) (lc_thread c) (lc_loc c) ''range_pricer'' (lc_level c) t
           in [routes log_file (log_line (lc_env c) (cal (lc_time c div 10 ^ 9)) msg eol utc tid cpu_id) msg])
      | _ \<Rightarrow> []) cs,
    report_run (concat (map (\<lambda>c. if \<not> level_debug \<le> lc_level c then []
      else case vformat_to (lc_fmt c) (make_format_args (lc_args c) []) f of
        Some (Inl e) \<Rightarrow> [(lc_err_time c, lc_err_date c, ''range_pricer'',
          case loc_filename (lc_loc c) of None \<Rightarrow> e
          | Some file \<Rightarrow> e @ '' ['' @ file @ ''('' @ to_string (loc_line (lc_loc c)) @ '')]'')]
      | _ \<Rightarrow> []) cs)) st) \<and>
    (\<forall>es. sorted_wrt (\<lambda>a b. fst a + 10 ^ 9 \<le> fst b) (report_run es st))"
proof -
  have "(\<lambda>c. fst (call_result f cal eol log_file utc tid cpu_id c)) = (\<lambda>c. if \<not> level_debug \<le> lc_level c then []
      else case vformat_to (lc_fmt c) (make_format_args (lc_args c) []) f of
        Some (Inr t) \<Rightarrow>
          (let msg = make_log_msg (lc_time c) (lc_thread c) (lc_loc c) ''range_pricer'' (lc_level c) t
           in [routes log_file (log_line (lc_env c) (cal (lc_time c div 10 ^ 9)) msg eol utc tid cpu_id) msg])
      | _ \<Rightarrow> [])" by (rule ext) (simp add: call_result_def Let_def split: option.split sum.split)
  moreover have "call_errors f cal eol log_file utc tid cpu_id = (\<lambda>c. if \<not> level_debug \<le> lc_level c then []
      else case vformat_to (lc_fmt c) (make_format_args (lc_args c) []) f of
        Some (Inl e) \<Rightarrow> [(lc_err_time c, lc_err_date c, ''range_pricer'',
          case loc_filename (lc_loc c) of None \<Rightarrow> e
          | Some file \<Rightarrow> e @ '' ['' @ file @ ''('' @ to_string (loc_line (lc_loc c)) @ '')]'')]
      | _ \<Rightarrow> [])" by (rule ext) (simp add: call_errors_def call_result_def Let_def split: option.split sum.split)
  ultimately show ?thesis using spdlog_run_ready [OF install_logger_default assms] reports_apart by simp
qed

lemma demo_formats:
  "vformat_to ''hash={} pairs={}'' (make_format_args [Ulong_long_arg 907, Ulong_long_arg 12] []) plain_facet = Some (Inr ''hash=907 pairs=12'')"
  "vformat_to ''price={'' (make_format_args [Ulong_long_arg 907] []) plain_facet = Some (Inl ''invalid format string'')"
proof -
  have d: "digits 907 = ''907''" "digits 12 = ''12''" by (simp_all add: digits.simps digit_chars)
  from fields_written [OF log_args_ok, of "[''hash='', '' pairs='']" "[]" plain_facet]
  show "vformat_to ''hash={} pairs={}'' (make_format_args [Ulong_long_arg 907, Ulong_long_arg 12] []) plain_facet = Some (Inr ''hash=907 pairs=12'')"
    by (simp add: fields_format_def printable_arg_def to_string_def d)
  show "vformat_to ''price={'' (make_format_args [Ulong_long_arg 907] []) plain_facet = Some (Inl ''invalid format string'')"
    by code_simp
qed

theorem program_calls_witness:
  "spdlog_run plain_facet (install_logger 0 [CHR 0x0A] [] False True False (mk_registry 0 [CHR 0x0A])) err_start
     [demo_call level_info ''hash={} pairs={}'' [Ulong_long_arg 907, Ulong_long_arg 12],
      demo_call level_err ''price={'' [Ulong_long_arg 907], demo_call level_err ''price={'' [Ulong_long_arg 907]] =
   Some ([[([Some (''[2024-04-04 12:42:01.042] [pid:42] [tid:7] [info] hash=907 pairs=12'' @ [CHR 0x0A], True)], False)], [], []],
     [(1712234521042000000,
       ''[*** LOG ERROR #0001 ***] [2024-04-04 12:42:01] [range_pricer] invalid format string'' @ [CHR 0x0A])])"
proof -
  let ?msg = "make_log_msg 1712234521042000000 7 no_loc ''range_pricer'' level_info ''hash=907 pairs=12''"
  have l: "log_line demo_env demo_tm ?msg [CHR 0x0A] False True False =
      ''[2024-04-04 12:42:01.042] [pid:42] [tid:7] [info] hash=907 pairs=12'' @ [CHR 0x0A]" by code_simp
  have a: "args_ok [Ulong_long_arg 907] []" by (simp add: args_ok_def)
  have c: "list_all (call_ok (\<lambda>_. demo_tm)) [demo_call level_info ''hash={} pairs={}'' [Ulong_long_arg 907, Ulong_long_arg 12],
      demo_call level_err ''price={'' [Ulong_long_arg 907], demo_call level_err ''price={'' [Ulong_long_arg 907]]"
    using log_args_ok a by (simp add: demo_call_ok)
  let ?e = "(1712234521042000000, ''2024-04-04 12:42:01'', ''range_pricer'', ''invalid format string'')"
  have r: "report_run [?e, ?e] err_start = [(1712234521042000000,
      ''[*** LOG ERROR #0001 ***] [2024-04-04 12:42:01] [range_pricer] invalid format string'' @ [CHR 0x0A])]"
    by (simp add: default_err_handler_def err_start_def Let_def c_str_def zero_padded_def to_string_def digits.simps digit_chars numeral_3_eq_3)
  show ?thesis
    by (subst program_calls [OF _ plain_facet_ok c, THEN conjunct1])
      (simp_all add: demo_tm_ok demo_call_def demo_formats l routes_def program_sinks_def less_eq_level_enum_def Let_def no_loc_def [symmetric]
        del: report_run.simps, simp_all add: no_loc_def r del: report_run.simps)
qed

section \<open>The backtrace\<close>





section \<open>The registry\<close>

text \<open>
  C27. In every state that the operations of the registry reach, except \<open>register_or_replace\<close>, whatever their
  order: no name is registered twice, every logger is registered under its own name, and the default logger,
  if there is one, is the one registered under its name; a level, a flush level, a formatter, and the backtrace
  turned on or off for all loggers reach each registered logger, and no other, and are stored as the settings of
  the registry; dropping a name removes it, and the default logger when it is its name, and dropping all leaves none.
\<close>

theorem registry_consistent:
  assumes "registry_run (mk_registry now eol) ops r" and "\<forall>a. Register_or_replace a \<notin> set ops"
  shows "distinct (map fst (rg_loggers r)) \<and> distinct (map snd (rg_loggers r)) \<and>
    (\<forall>n a. get_logger n r = Some a \<longrightarrow> (\<exists>l. object r a = Some l \<and> api_name l = n)) \<and>
    (\<forall>d. rg_default r = Some d \<longrightarrow> (\<exists>l. object r d = Some l \<and> get_logger (api_name l) r = Some d)) \<and>
    (\<forall>lvl n a. get_logger n r = Some a \<longrightarrow>
       map_option (lg_level \<circ> al_logger) (object (registry_set_level lvl r) a) = Some lvl) \<and>
    (\<forall>a lvl t f k. let on_registered = (\<lambda>g. map_option (if \<exists>n. get_logger n r = Some a then g else (\<lambda>l. l)) (object r a)) in
       object (registry_set_level lvl r) a = on_registered (lg_set_level lvl) \<and> rg_level (registry_set_level lvl r) = lvl \<and>
       object (registry_flush_on lvl r) a = on_registered (lg_flush_on lvl) \<and> rg_flush_level (registry_flush_on lvl r) = lvl \<and>
       object (registry_set_formatter t f r) a = on_registered (lg_set_formatter t (pf_clone t f)) \<and>
       rg_formatter (registry_set_formatter t f r) = f \<and>
       object (registry_enable_backtrace k r) a = on_registered (lg_enable_backtrace k) \<and>
       rg_backtrace_n (registry_enable_backtrace k r) = k \<and>
       object (registry_disable_backtrace r) a = on_registered lg_disable_backtrace \<and>
       rg_backtrace_n (registry_disable_backtrace r) = 0) \<and>
    (\<forall>n m. get_logger m (drop_logger n r) = (if m = n then None else get_logger m r)) \<and>
    (\<forall>n. get_logger n (drop_logger n r) = None \<and>
       (rg_default (drop_logger n r) = (if rg_default r \<noteq> None \<and> rg_default r = get_logger n r then None else rg_default r))) \<and>
    (\<forall>n. get_logger n (drop_all r) = None) \<and> rg_default (drop_all r) = None"
proof -
  have r: "reg_inv r" using registry_run_inv [OF assms(1) reg_inv_mk assms(2)] .
  have i: "distinct (map fst (rg_loggers r))"
    "get_logger n r = Some a \<Longrightarrow> a < length (rg_objects r) \<and> api_name (rg_objects r ! a) = n"
    "rg_default r = Some d \<Longrightarrow> get_logger (api_name (rg_objects r ! d)) r = Some d" for n a d using r by (simp_all add: reg_inv_def)
  have "rg_objects (registry_set_level lvl r) ! a = lg_set_level lvl (rg_objects r ! a)" if "get_logger n r = Some a" for lvl n a
    using for_loggers_entry [OF r that refl refl, of "\<lambda>n. lg_set_level lvl"] by (simp add: registry_set_level_def)
  then have level: "map_option (lg_level \<circ> al_logger) (object (registry_set_level lvl r) a) = Some lvl" if "get_logger n r = Some a" for lvl n a
    using that i(2) [OF that] by (simp add: object_def registry_set_level_def lg_set_level_def)
  have settings: "let on_registered = (\<lambda>g. map_option (if \<exists>n. get_logger n r = Some a then g else (\<lambda>l. l)) (object r a)) in
       object (registry_set_level lvl r) a = on_registered (lg_set_level lvl) \<and> rg_level (registry_set_level lvl r) = lvl \<and>
       object (registry_flush_on lvl r) a = on_registered (lg_flush_on lvl) \<and> rg_flush_level (registry_flush_on lvl r) = lvl \<and>
       object (registry_set_formatter t f r) a = on_registered (lg_set_formatter t (pf_clone t f)) \<and>
       rg_formatter (registry_set_formatter t f r) = f \<and>
       object (registry_enable_backtrace k r) a = on_registered (lg_enable_backtrace k) \<and>
       rg_backtrace_n (registry_enable_backtrace k r) = k \<and>
       object (registry_disable_backtrace r) a = on_registered lg_disable_backtrace \<and>
       rg_backtrace_n (registry_disable_backtrace r) = 0" for a lvl t f k
    by (simp add: registry_set_level_def registry_flush_on_def registry_set_formatter_def registry_enable_backtrace_def
        registry_disable_backtrace_def setting_object [OF r] Let_def)
  have drop1: "get_logger m (drop_logger n r) = (if m = n then None else get_logger m r)" for n m
    by (cases "rg_default r") (simp_all add: drop_logger_def Let_def)
  have all: "get_logger n (drop_all r) = None" "rg_default (drop_all r) = None" for n by (simp_all add: drop_all_def get_logger_def)
  have drop: "get_logger n (drop_logger n r) = None \<and>
       (rg_default (drop_logger n r) = (if rg_default r \<noteq> None \<and> rg_default r = get_logger n r then None else rg_default r))" for n
  proof (cases "rg_default r")
    case (Some d)
    then have "api_name (rg_objects r ! d) = n \<longleftrightarrow> get_logger n r = Some d" using i(2) [of n d] i(3) [of d] by auto
    with Some show ?thesis by (simp add: drop_logger_def Let_def)
  qed (simp add: drop_logger_def)
  have "\<exists>l. object r a = Some l \<and> api_name l = n" if "get_logger n r = Some a" for n a
    using i(2) [OF that] by (simp add: object_def)
  moreover have "\<exists>l. object r d = Some l \<and> get_logger (api_name l) r = Some d" if "rg_default r = Some d" for d
    using i(3) [OF that] i(2) [OF i(3) [OF that]] by (simp add: object_def)
  ultimately show ?thesis using i(1) addresses_distinct [OF r] level settings drop1 drop [THEN conjunct1] drop [THEN conjunct2] all
    by (intro conjI allI impI)
qed

theorem registry_consistent_witness:
  "\<exists>r. registry_run (mk_registry 0 []) [Make (program_logger 0 [] [] False False False), Set_default (Some 1), Set_level level_err] r \<and>
     get_logger ''range_pricer'' r = Some 1 \<and> map_option (lg_level \<circ> al_logger) (object (registry_set_level level_warn r) 1) = Some level_warn \<and>
     rg_default (drop_logger ''range_pricer'' r) = None \<and> get_logger [] (drop_logger ''range_pricer'' r) \<noteq> None \<and>
     map_option (bt_enabled \<circ> al_tracer) (object (registry_enable_backtrace 8 r) 1) = Some True"
proof -
  let ?l = "program_logger 0 [] [] False False False" and ?r0 = "mk_registry 0 []"
  define r1 where "r1 = fst (registry_step (Make ?l) ?r0)"
  define r2 where "r2 = fst (registry_step (Set_default (Some 1)) r1)"
  define r3 where "r3 = fst (registry_step (Set_level level_err) r2)"
  have n: "api_name ?l = ''range_pricer''" by (simp add: program_logger_def api_name_def setup_logger_def Let_def)
  have r1: "rg_loggers r1 = [([], 0)]" "length (rg_objects r1) = 2" "rg_objects r1 ! 1 = ?l"
    by (simp_all add: r1_def make_logger_def mk_registry_def Let_def)
  have r2: "rg_loggers r2 = [([], 0), (''range_pricer'', 1)]" "rg_default r2 = Some 1"
    using r1 n by (simp_all add: r2_def set_default_logger_def)
  have r3: "get_logger ''range_pricer'' r3 = Some 1" "rg_default r3 = Some 1" "get_logger [] r3 = Some 0"
    "length (rg_objects r3) = 2"
    using r1 r2 by (simp_all add: r3_def registry_set_level_def get_logger_def) (simp add: r2_def set_default_logger_def)
  have "registry_run ?r0 ([] @ [Make ?l]) r1" unfolding r1_def by (intro run_op run_none) simp
  then have "registry_run ?r0 (([] @ [Make ?l]) @ [Set_default (Some 1)]) r2" unfolding r2_def
    by (rule run_op) (simp add: object_def r1)
  then have "registry_run ?r0 ((([] @ [Make ?l]) @ [Set_default (Some 1)]) @ [Set_level level_err]) r3" unfolding r3_def
    by (rule run_op) simp
  then have run: "registry_run ?r0 [Make ?l, Set_default (Some 1), Set_level level_err] r3" by simp
  have "\<forall>a. Register_or_replace a \<notin> set [Make ?l, Set_default (Some 1), Set_level level_err]" by simp
  note w = registry_consistent [OF run this, THEN conjunct2, THEN conjunct2, THEN conjunct2, THEN conjunct2]
  from w [THEN conjunct1] r3(1) have "map_option (lg_level \<circ> al_logger) (object (registry_set_level level_warn r3) 1) = Some level_warn" by simp
  moreover have "object (registry_enable_backtrace 8 r3) 1 =
      map_option (if \<exists>n. get_logger n r3 = Some 1 then lg_enable_backtrace 8 else (\<lambda>l. l)) (object r3 1)"
    using w [THEN conjunct2, THEN conjunct1, THEN spec, THEN spec, THEN spec, THEN spec, THEN spec, of 1 _ _ _ 8] by (simp add: Let_def)
  moreover have "rg_default (drop_logger ''range_pricer'' r3) = None" "get_logger [] (drop_logger ''range_pricer'' r3) = get_logger [] r3"
    using w [THEN conjunct2, THEN conjunct2, THEN conjunct2, THEN conjunct1, THEN spec, of "''range_pricer''"] r3(1,2)
      w [THEN conjunct2, THEN conjunct2, THEN conjunct1, THEN spec, THEN spec, of "[]" "''range_pricer''"] by simp_all
  moreover have "\<exists>l. object r3 1 = Some l" using r3(4) by (simp add: object_def)
  moreover have "bt_enabled (al_tracer (lg_enable_backtrace 8 l))" for l by (simp add: lg_enable_backtrace_def bt_enable_def)
  moreover have "\<exists>n. get_logger n r3 = Some 1" using r3(1) by blast
  ultimately show ?thesis using run r3(1,3) by (intro exI [of _ r3]) auto
qed

section \<open>Levels\<close>

text \<open>
  C40. Round trip: reading the text of a list of levels, for loggers whose names hold no comma, equals sign or
  outer space and are not \<open>*\<close> (which a comment in \<open>env.h\<close> gives another meaning), and for all loggers, sets these levels: every registered logger gets the level of its name,
  else the one for all loggers, else keeps its own, and so does every logger that is initialized later.
\<close>

theorem levels_roundtrip:
  assumes "\<forall>(n, l) \<in> set levels. plain_name n \<and> n \<noteq> ''*'' \<and> l \<noteq> n_levels" and "distinct (map fst levels)" and "g \<noteq> Some n_levels"
    and "levels \<noteq> [] \<or> g \<noteq> None" and "length (print_levels levels g) < 32768" and "reg_inv r"
  shows "load_levels (print_levels levels g) r = set_levels levels g r \<and>
    (\<forall>n a. get_logger n r = Some a \<longrightarrow> lg_level (al_logger (rg_objects (load_levels (print_levels levels g) r) ! a)) =
       (case map_of levels n of Some lvl \<Rightarrow> lvl | None \<Rightarrow>
          (case g of Some lvl \<Rightarrow> lvl | None \<Rightarrow> lg_level (al_logger (rg_objects r ! a))))) \<and>
    (\<forall>l now. let (a, r1) = make_logger l (load_levels (print_levels levels g) r)
       in lg_level (al_logger (rg_objects (fst (initialize_logger now a r1)) ! a)) =
         (case map_of levels (api_name l) of Some lvl \<Rightarrow> lvl | None \<Rightarrow> (case g of Some lvl \<Rightarrow> lvl | None \<Rightarrow> rg_level r)))"
proof -
  have e: "load_levels (print_levels levels g) r = set_levels levels g r" using assms(1) by (intro load_levels_printed [OF _ assms(2-5)]) auto
  have s: "rg_log_levels (for_loggers h ls q) = rg_log_levels q \<and> rg_level (for_loggers h ls q) = rg_level q" for h ls q
    by (induction h ls q rule: for_loggers.induct) simp_all
  have f: "rg_log_levels (set_levels levels g r) = levels" "rg_level (set_levels levels g r) = (case g of Some x \<Rightarrow> x | None \<Rightarrow> rg_level r)"
    by (simp_all add: set_levels_def s)
  have later: "let (a, r1) = make_logger l (set_levels levels g r)
       in lg_level (al_logger (rg_objects (fst (initialize_logger now a r1)) ! a)) =
         (case map_of levels (api_name l) of Some lvl \<Rightarrow> lvl | None \<Rightarrow> (case g of Some lvl \<Rightarrow> lvl | None \<Rightarrow> rg_level r))" for l now
    using set_levels_later [of "length (rg_objects (set_levels levels g r))" "snd (make_logger l (set_levels levels g r))"
        "api_name l" levels "case g of Some x \<Rightarrow> x | None \<Rightarrow> rg_level r" now] f
    by (simp add: make_logger_def configured_level_def split: option.split)
  show ?thesis unfolding e using set_levels_registered [OF assms(6)] later
    by (auto simp: configured_level_def split: option.split)
qed

theorem levels_roundtrip_witness:
  "print_levels [(''db'', level_trace), (''web'', level_err)] (Some level_off) = ''off,db=trace,web=error'' \<and>
   lg_level (al_logger (rg_objects (load_levels ''off,db=trace,web=error'' (mk_registry 0 [])) ! 0)) = level_off"
proof -
  let ?ls = "[(''db'', level_trace), (''web'', level_err)]"
  have p: "print_levels ?ls (Some level_off) = ''off,db=trace,web=error''" by code_simp
  have h: "\<forall>(n, l) \<in> set ?ls. plain_name n \<and> n \<noteq> ''*'' \<and> l \<noteq> n_levels" by (simp add: plain_name_def is_space_def)
  have g: "get_logger [] (mk_registry 0 []) = Some 0" by (simp add: get_logger_def mk_registry_def Let_def)
  have "distinct (map fst ?ls)" "Some level_off \<noteq> Some n_levels" "?ls \<noteq> [] \<or> Some level_off \<noteq> None"
    "length (print_levels ?ls (Some level_off)) < 32768" by (simp_all add: p)
  note w = levels_roundtrip [OF h this reg_inv_mk, of 0 "[]"]
  from g w [THEN conjunct2, THEN conjunct1, rule_format, of "[]" 0] show ?thesis unfolding p by simp
qed

section \<open>Asynchronous logging\<close>

text \<open>
  C25. When the destructor of the thread pool has joined its threads, every message that was posted, from any
  number of threads and in any interleaving, has been written exactly once or was lost to a full queue and is
  counted as an overrun or a discard; with blocking posts every one has been written.  With one thread they
  are written in the order in which they were posted.  Writing one is one call of its logger's back end, with the
  message that was logged or for the flush.
\<close>

theorem pool_writes_all:
  assumes "mk_thread_pool n W = Inr s0" and "pool_run s0 es s" and "joined s" and "0 < n" and "n + 1 < 2 ^ 64"
  shows "(\<exists>lost. mset (posted es) = mset (written es) + lost \<and> (blocking_posts es \<longrightarrow> lost = {#}) \<and>
      (Reset_overrun \<notin> set es \<and> Reset_discard \<notin> set es \<longrightarrow>
        (\<exists>a b. size lost = a + b \<and> cq_overrun (mq_q (tp_q s)) = a mod 2 ^ 64 \<and> mq_discard (tp_q s) = b mod 2 ^ 64))) \<and>
    (W = 1 \<longrightarrow> subseq (written es) (posted es) \<and> (blocking_posts es \<longrightarrow> written es = posted es)) \<and>
    map Some (backend_calls es) = map (\<lambda>m. case am_type m of async_log \<Rightarrow> map_option (\<lambda>w. Backend_sink_it w (am_msg m)) (am_worker m)
      | async_flush \<Rightarrow> map_option Backend_flush (am_worker m) | async_terminate \<Rightarrow> None) (written es)"
proof -
  from pool_inv_start [OF assms(1,5)] have i0: "pool_inv n W s0" "0 < W" by simp_all
  from pool_run_inv [OF assms(2) i0(1) assms(4)] have "pool_inv n W s" .
  from joined_empty [OF this assms(3) i0(2)] have e: "queued s = []" "in_hand (tp_threads s) = []" by simp_all
  from account_run [OF assms(2) i0(1) assms(4) account_start [OF assms(1)]] obtain lost where a: "account es s lost" by blast
  have "subseq (written es) (posted es)" if "W = 1"
  proof -
    have "in_order [] s0" using account_start [OF assms(1)] by (simp add: account_def)
    with in_order_run [OF assms(2) _ assms(4)] i0(1) that e show ?thesis by simp
  qed
  moreover have "written es = posted es" if "subseq (written es) (posted es)" "blocking_posts es"
  proof -
    have "mset (posted es) = mset (written es)" using a e that(2) by (simp add: account_def)
    then have "length (written es) = length (posted es)" by (metis size_mset)
    with that(1) show ?thesis by (rule subseq_same_length)
  qed
  moreover have "set (written es) \<subseteq> set (posted es)"
    using a e by (metis account_def add.right_neutral empty_iff filter.simps(1) mset.simps(1) set_mset_mset subsetI union_iff)
  ultimately show ?thesis using a e backend_calls_written [of es] by (intro conjI exI [of _ lost]) (simp_all add: account_def)
qed

text \<open>A message through a pool of one thread and room for one message.\<close>

lemma demo_pool:
  "\<exists>s0 s m. mk_thread_pool 1 1 = Inr s0 \<and> m = log_message 0 blank_msg \<and>
     pool_run s0 [Post_log block 0 blank_msg, Destroy, Take 0 m, Post_terminate, Finish 0 m, Take 0 terminate_message,
       Finish 0 terminate_message] s \<and> joined s"
proof -
  have replicate_two: "replicate 2 x = [x, x]" for x :: async_msg by (simp add: numeral_2_eq_2)
  let ?d = "\<lparr>am_type = async_log, am_worker = None, am_msg = blank_msg\<rparr>" and ?m = "log_message 0 blank_msg" and ?t = terminate_message
  define ring where "ring h t v = \<lparr>cq_max_items = 2, cq_head = h, cq_tail = t, cq_overrun = 0, cq_v = v\<rparr>" for h t and v :: "async_msg list"
  define st where "st h t v ws dt = \<lparr>tp_q = \<lparr>mq_q = ring h t v, mq_discard = 0\<rparr>, tp_threads = ws, tp_destructor = dt\<rparr>" for h t v ws dt
  have put: "mq_step (tp_q (st h t v ws dt)) (Enqueue x) (tp_q (st h ((t + 1) mod 2) (v[t := x]) ws dt))"
    if "t < length v" "(t + 1) mod 2 \<noteq> h" for h t v ws dt x
    using mq_step.enqueue [of "tp_q (st h t v ws dt)" x "ring h ((t + 1) mod 2) (v[t := x])"] that
    by (simp add: st_def ring_def cq_full_def cq_push_back_def)
  have get: "mq_step (tp_q (st h t v ws dt)) (Dequeue (v ! h)) (tp_q (st ((h + 1) mod 2) t v ws dt))" if "h < length v" "t \<noteq> h" for h t v ws dt
    using mq_step.dequeue [of "tp_q (st h t v ws dt)" "v ! h" "ring ((h + 1) mod 2) t v"] that
    by (simp add: st_def ring_def cq_empty_def cq_front_def cq_pop_front_def)
  let ?s0 = "st 0 0 [?d, ?d] [Waiting] None" and ?s1 = "st 0 1 [?m, ?d] [Waiting] None" and ?s2 = "st 0 1 [?m, ?d] [Waiting] (Some 1)"
    and ?s3 = "st 1 1 [?m, ?d] [Working ?m] (Some 1)" and ?s4 = "st 1 0 [?m, ?t] [Working ?m] (Some 0)"
    and ?s5 = "st 1 0 [?m, ?t] [Waiting] (Some 0)" and ?s6 = "st 0 0 [?m, ?t] [Working ?t] (Some 0)"
    and ?s7 = "st 0 0 [?m, ?t] [Stopped] (Some 0)"
  have s0: "mk_thread_pool 1 1 = Inr ?s0" using replicate_two [of ?d]
    by (simp add: mk_thread_pool_def mk_mpmc_queue_def mk_circular_q_def st_def ring_def)
  have 1: "pool_step ?s0 (Post_log block 0 blank_msg) ?s1"
    using pool_step.post_log [of ?s0 block 0 blank_msg "tp_q ?s1"] put [of 0 "[?d, ?d]" 0 "[Waiting]" None ?m]
    by (simp add: st_def post_event_def)
  have 2: "pool_step ?s1 Destroy ?s2" using pool_step.destroy [of ?s1] by (simp add: st_def)
  have 3: "pool_step ?s2 (Take 0 ?m) ?s3"
    using pool_step.take [of 0 ?s2 ?m "tp_q ?s3"] get [of 0 "[?m, ?d]" 1 "[Waiting]" "Some 1"] by (simp add: st_def set_thread_def)
  have 4: "pool_step ?s3 Post_terminate ?s4"
    using pool_step.post_terminate [of ?s3 0 "tp_q ?s4"] put [of 1 "[?m, ?d]" 1 "[Working ?m]" "Some 1" ?t]
    by (simp add: st_def post_event_def)
  have 5: "pool_step ?s4 (Finish 0 ?m) ?s5" using pool_step.finish [of 0 ?s4 ?m] by (simp add: st_def set_thread_def)
  have 6: "pool_step ?s5 (Take 0 ?t) ?s6"
    using pool_step.take [of 0 ?s5 ?t "tp_q ?s6"] get [of 1 "[?m, ?t]" 0 "[Waiting]" "Some 0"] by (simp add: st_def set_thread_def)
  have 7: "pool_step ?s6 (Finish 0 ?t) ?s7" using pool_step.finish [of 0 ?s6 ?t] by (simp add: st_def set_thread_def)
  from pool_snoc [OF pool_snoc [OF pool_snoc [OF pool_snoc [OF pool_snoc [OF pool_snoc [OF pool_snoc [OF pool_start 1] 2] 3] 4] 5] 6] 7]
  have "pool_run ?s0 [Post_log block 0 blank_msg, Destroy, Take 0 ?m, Post_terminate, Finish 0 ?m, Take 0 ?t, Finish 0 ?t] ?s7" by simp
  moreover have "joined ?s7" by (simp add: joined_def st_def)
  ultimately show ?thesis using s0 by blast
qed

theorem pool_writes_all_witness:
  "\<exists>s0 s m es. mk_thread_pool 1 1 = Inr s0 \<and> pool_run s0 es s \<and> joined s \<and> m = log_message 0 blank_msg \<and> posted es = [m] \<and> written es = [m]"
proof -
  from demo_pool obtain s0 s where p: "mk_thread_pool 1 1 = Inr s0" "joined s"
    "pool_run s0 [Post_log block 0 blank_msg, Destroy, Take 0 (log_message 0 blank_msg), Post_terminate, Finish 0 (log_message 0 blank_msg),
       Take 0 terminate_message, Finish 0 terminate_message] s" by blast
  from pool_writes_all [OF p(1,3,2)] have "written [Post_log block 0 blank_msg, Destroy, Take 0 (log_message 0 blank_msg), Post_terminate,
      Finish 0 (log_message 0 blank_msg), Take 0 terminate_message, Finish 0 terminate_message] = [log_message 0 blank_msg]"
    by (simp add: blocking_posts_def posted_def)
  moreover have "posted [Post_log block 0 blank_msg, Destroy, Take 0 (log_message 0 blank_msg), Post_terminate,
      Finish 0 (log_message 0 blank_msg), Take 0 terminate_message, Finish 0 terminate_message] = [log_message 0 blank_msg]"
    by (simp add: posted_def)
  ultimately show ?thesis using p by blast
qed

text \<open>
  C26. The destructor of the thread pool ends: from every reachable state after it has begun, each step of its
  own or of a thread takes some of a finite amount of work, and until all threads are joined there is such a
  step; a full queue or a thread that waits never blocks it for good.
\<close>

theorem pool_destructor_ends:
  assumes "mk_thread_pool n W = Inr s0" and "pool_run s0 es s" and "tp_destructor s \<noteq> None" and "0 < n" and "n + 1 < 2 ^ 64"
  shows "(\<forall>e s'. pool_step s e s' \<longrightarrow> pool_work s' < pool_work s \<and> tp_destructor s' \<noteq> None) \<and> (joined s \<or> (\<exists>e s'. pool_step s e s')) \<and>
    (\<exists>es' s'. pool_run s es' s' \<and> joined s' \<and> length es' \<le> pool_work s)"
proof -
  from pool_inv_start [OF assms(1,5)] have i0: "pool_inv n W s0" by simp
  have i: "pool_inv n W s" by (rule pool_run_inv [OF assms(2) i0 assms(4)])
  from pool_work_step [OF _ i assms(4,3)] pool_progress [OF i assms(4,3)] pool_can_end [OF i assms(4,3)] show ?thesis by blast
qed

theorem pool_destructor_ends_witness:
  "\<exists>s0 s es' s'. mk_thread_pool 1 1 = Inr s0 \<and> pool_step s0 Destroy s \<and> pool_run s es' s' \<and> joined s' \<and> length es' \<le> 3"
proof -
  obtain s0 where s0: "mk_thread_pool 1 1 = Inr s0" by (simp add: mk_thread_pool_def)
  let ?s = "s0\<lparr>tp_destructor := Some (length (tp_threads s0))\<rparr>"
  from s0 have t: "tp_threads s0 = [Waiting]" "queued s0 = []" "tp_destructor s0 = None"
    by (auto simp: mk_thread_pool_def mk_mpmc_queue_def mk_circular_q_contents)
  have d: "pool_step s0 Destroy ?s" by (rule pool_step.destroy [OF t(3)])
  from pool_snoc [OF pool_start this] have "pool_run s0 ([] @ [Destroy]) ?s" .
  from pool_destructor_ends [OF s0 this] have "\<exists>es' s'. pool_run ?s es' s' \<and> joined s' \<and> length es' \<le> pool_work ?s" by simp
  moreover have "pool_work ?s = 3" using t by (simp add: pool_work_def)
  ultimately show ?thesis using s0 d by metis
qed

end
