(* ===== verification/Spec2Isabelle.thy ===== *)
theory Spec2Isabelle
  imports Server_Theorems Logging_Theorems Storage_Theorems Log_Context Fmt_Theorems Logging_Calls
begin

text \<open>
  A verification library for the distributed Black-Scholes range pricer: the client, server and workers of
  \<open>src/cpp/src\<close>, and the parts of the libraries under \<open>src/cpp/include\<close> that their results rest on:
  FlatBuffers, spdlog and fmt.  Everything is translated from the source by hand into functions that compute;
  undefined behaviour (a read outside a buffer, a failed assertion, a signed overflow) is the value \<open>None\<close>,
  a thrown exception a value of a sum type, so that "never undefined" and "never throws" are statements.

  \<^bold>\<open>The program.\<close>  A client (\<open>client.cpp\<close>) makes the product of two grids of parameters, hashes it, sends it in a
  FlatBuffers message and logs the rows of the reply.  The server (\<open>worker.cpp\<close>, \<open>main.cpp\<close>) checks a request, cuts
  it into batches of \<open>simd_lanes\<close> pairs, pushes them to its worker threads over ZeroMQ pipes, collects as many
  answers, sorts their rows and replies.  A worker checks a batch, prices it (\<open>range_pricer.cpp\<close>) with a vector
  loop and a scalar tail, and answers with the rows, or with an empty message.  A monitor thread waits for a
  signal and shuts the context down.  All of them log through spdlog, whose text is made by fmt.

  \<^bold>\<open>Where each part is modelled.\<close>

  \<^item> \<open>Prelude\<close>: bytes, little-endian numbers, reads and writes of a buffer, overflow of \<open>int\<close> and \<open>long\<close>.
  \<^item> \<open>Fb_Base\<close>, \<open>Fb_Table\<close>, \<open>Fb_Verifier\<close>, \<open>Fb_Downward\<close>, \<open>Fb_Builder\<close>: \<open>flatbuffers/base.h\<close>, \<open>buffer.h\<close>, \<open>table.h\<close>,
    \<open>vector.h\<close>, \<open>verifier.h\<close>, \<open>vector_downward.h\<close>, \<open>flatbuffer_builder.h\<close>.  A pointer is a position in its buffer;
    the builder is its block with two indices and the nesting flags.  \<open>Fb_Layout\<close>, \<open>Fb_Objects\<close>, \<open>Fb_Builder_Facts\<close> and
    \<open>Fb_Verified\<close> show what the builder lays out, that the accessors read it back and that it passes the verifier.
  \<^item> \<open>Schema_Read\<close>, \<open>Schema_Build\<close>, \<open>Schema_Message\<close>, \<open>Schema_Roundtrip\<close>: \<open>generated/pricing_request_generated.h\<close>,
    its accessors, \<open>Verify\<close> functions and builders, whole messages and their round trips.
  \<^item> \<open>Float32\<close>, \<open>Pricer\<close>: \<open>float\<close> and \<open>double\<close> as bit patterns with IEEE rounding; the kernel, \<open>price\<close> and \<open>process\<close>.
  \<^item> \<open>Codec\<close>: the locales \<open>message_format\<close> and \<open>message_codec\<close>, the contract of sender and receiver, interpreted for the
    request, the batch, the answer of a worker and the reply (\<open>Worker_Facts\<close>, \<open>Server_Facts\<close>, \<open>Client_Facts\<close>).
  \<^item> \<open>Worker\<close>, \<open>Client\<close>: slicing, the round of a worker, collecting, the round of the server as a function; the grids, the
    hash, the request and the handling of the reply.
  \<^item> \<open>Dispatch\<close>, \<open>Dispatch_Theorems\<close>: the threads of one round as a step relation over bounded pipes.
    \<open>Server_Loop\<close>, \<open>Server_Theorems\<close>: \<open>run_server\<close> over its whole life, with its threads, requests and shutdown.
  \<^item> \<open>Log_Msg\<close>, \<open>Log_Formatters\<close>, \<open>Log_Pattern\<close>, \<open>Logger\<close>: \<open>spdlog/common.h\<close>, \<open>mdc.h\<close>, \<open>pattern_formatter-inl.h\<close>, the dispatch of
    \<open>logger-inl.h\<close>, the coloured console sink, and the set-up of \<open>src/logger.cpp\<close> and \<open>src/config.cpp\<close>.  \<open>Log_Facts\<close>,
    \<open>Pattern_Syntax\<close>, \<open>Log_Fields\<close>, \<open>Logger_Facts\<close>, \<open>Log_Context\<close> and \<open>Logging_Theorems\<close> prove what they guarantee.
  \<^item> \<open>Rotating_File\<close>, \<open>Circular_Q\<close>, \<open>Storage_Theorems\<close>: the rotating log file over a file system whose calls may fail, the
    circular queue, the blocking queue with its threads, and the backtrace.
  \<^item> \<open>Log_Api\<close>: the calls of \<open>spdlog/logger.h\<close> with a format string, what they catch and report, the configuration of a logger
    and the dump of its backtrace.  \<open>Registry\<close>: \<open>details/registry-inl.h\<close> and \<open>spdlog-inl.h\<close>; loggers are shared, so they
    live in a store and the map, the default logger and the program hold addresses.  \<open>Log_Config\<close>: levels read from
    text (\<open>cfg/helpers-inl.h\<close>).  \<open>Thread_Pool\<close>: \<open>details/thread_pool-inl.h\<close>, its queue, threads and destructor as a step
    relation.  \<open>Log_Api_Facts\<close>, \<open>Registry_Facts\<close>, \<open>Thread_Pool_Facts\<close> and \<open>Logging_Calls\<close> hold what is proved of them.
  \<^item> \<open>Fmt_Int\<close>: counting and writing decimal digits.  \<open>Fmt_Utf8\<close>, \<open>Fmt_Escape\<close>: UTF-8, UTF-16, code points, display width, the
    tables of printable code points, escaping.  \<open>Fmt_Specs\<close>, \<open>Fmt_Parse\<close>: the packed specifiers and their parser.
    \<open>Fmt_Write\<close>: integers, grouping, chars, strings, pointers and padding.  \<open>Fmt_Args\<close>: packed arguments and their
    visitors.  \<open>Fmt_Format\<close>: the parser of format strings with its two handlers, and \<open>vformat_to\<close>.  All are from
    \<open>spdlog/fmt/bundled/base.h\<close>, \<open>format.h\<close> and \<open>format-inl.h\<close>; \<open>Fmt_Utf8_Facts\<close>, \<open>Fmt_Parse_Facts\<close>, \<open>Fmt_Write_Facts\<close>,
    \<open>Fmt_Format_Facts\<close>, \<open>Fmt_Checker\<close>, \<open>Fmt_Text\<close> and \<open>Fmt_Theorems\<close> hold what is proved of them.
  \<^item> \<open>Examples\<close>: the concrete platform, memory, requests and parameters of the witnesses.

  A definition has the name of the function it translates where the name is free; a member function takes the
  object's record first, or last where it is threaded through a chain of calls; loops are recursive functions
  over the rest of their input.

  \<^bold>\<open>What is shown.\<close>

  \<^item> The exchange: the reply has the hash and exactly the priced rows of the request, whatever the order of the
    workers' messages (\<open>exchange_correct\<close>, \<open>serve_correct\<close>); each interleaving of the threads refines the sequential
    round, keeps every batch in exactly one place and never mixes two requests; when the batches fit into the pipes it
    ends with the reply, and it is stuck for ever when they do not; every row of a reply belongs to one pair of the
    request; with a positive number of lanes the server ends after a signal and only then.
  \<^item> Messages: no bytes make the verifier or a reader leave the buffer; what is sent is accepted and read back.
  \<^item> Pricing and grids: the kernel fills its arrays for every count and number of lanes; slices hold the pairs in
    order; grids miss no value, and can fail to end; both entry points of the pricer agree.
  \<^item> Logging: which line goes to which sink and when it is flushed (the console after every line, both from \<open>warn\<close> on); no pattern makes formatting undefined; compiling a
    printed pattern gives back its parts; caches are transparent; the log file loses only its oldest text; the
    queues refine lists and lose nothing between threads; the diagnostic context is a map.
  \<^item> Logging calls: a call with integers, booleans, characters, strings and pointers writes its text as one line to its sinks
    or goes to the error handler, which prints at most one report in a second, and never throws (the calls of the client
    with floating-point fields are outside this); the registry stays consistent and settings reach every logger; printed levels are read back; the backtrace is dumped as it was filled; the thread pool
    writes each message once or counts it as lost, in order with one thread, and its destructor ends.
  \<^item> Formatting: every format string has a result; texts and fields are written as they are; a checked format string
    fails only for its values; packed arguments are a list; integers, precisions, UTF-16 and escapes are what
    reference functions say.

  The interfaces are locales with their laws, interpreted on the code's own definitions: \<open>message_format\<close>,
  \<open>message_codec\<close>, \<open>downward_store\<close> (the builder's buffer as two lists), \<open>bounded_queue\<close> (the ring), \<open>string_map\<close> (the
  diagnostic context), \<open>handler_contract\<close> (what the parser of format strings needs of a handler) and \<open>handler_follows\<close>
  (the handler that writes against the one that checks).

  \<^bold>\<open>Parameters, bounds and fuel.\<close>  Highway, \<open>std::exp\<close>, the allocator's alignment and the byte order are the record
  \<open>platform\<close> with \<open>platform_ok\<close>; \<open>std::sort\<close> is a function with \<open>sort_ok\<close>; memory that is not initialised is a function
  \<open>fresh\<close>; the order of arrival is any permutation; the limits of the pipes are parameters, and stand for
  what a pipe really takes before \<open>send\<close> blocks: ZeroMQ documents the high-water mark as approximate; clock, calendar, process
  id and environment are \<open>os_env\<close>; each call of the file system asks an oracle whether it succeeds.  A client sends at most
  999,999 pairs and a server slices at most five million into batches of at most 999,999, so that a message stays
  below the limits of FlatBuffers (2 GB, 1,000,000 tables).  Flags are padded to at most 64; times are within \<open>2 ^ 62\<close>
  nanoseconds of the epoch; format strings are shorter than \<open>2 ^ 31\<close> chars, since ids are counted in an \<open>int\<close>.
  Loops that need fuel have a bound that is proved to be enough: the length of a format string plus one, the number of
  digits plus one for separators, the capacity of a ring plus one for a dump.  The grid loop of the client and the
  vector loop are partial functions: the vector loop always ends, the grid loop does not when rounding absorbs the step.

  \<^bold>\<open>Not modelled.\<close>  \<open>zmq.hpp\<close>: a binding of a C library that is not in the repository; its sockets are bounded queues here.
  The digits of floating-point numbers in \<open>format.h\<close> and \<open>format-inl.h\<close> (Dragonbox, Dragon4), so the fields of the client's
  log with a precision of decimals, and arguments of user-defined types; dates, ranges, standard types, compiled and
  printf formats (\<open>chrono.h\<close>, \<open>ranges.h\<close>, \<open>std.h\<close>, \<open>compile.h\<close>, \<open>printf.h\<close>, \<open>xchar.h\<close>): the program does not use them.  Of
  FlatBuffers \<open>flexbuffers.h\<close>, \<open>idl.h\<close>, \<open>reflection.h\<close>, the code generators, gRPC, 64-bit offsets, sorted vectors and native
  objects; of spdlog the sinks that the program does not create, sinks whose writing fails inside a call, custom error handlers and
  the periodic flusher.
  The linger of sockets when a context closes, the parsing of flags by gflags, signal masks and the flush thread.  The
  Python client: its messages meet the same verifier.
\<close>

section \<open>The exchange between client, server and workers\<close>

text \<open>
  C1. A client request of at most 999,999 pairs, served by workers whose messages arrive in any
  order, is answered by a reply the client accepts: it carries the request's hash and, sorted by
  index, exactly the priced rows of the request's slices.
\<close>

theorem exchange_correct:
  assumes "platform_ok pf e" and "\<forall>j. alloc_ok pf (als j)" and "fresh_ok fresh" and "fresh_ok fresh'"
    and "sort_ok std_sort" and "\<forall>xs. mset (arrive xs) = mset xs"
    and "0 < L" and "L \<le> 999999" and "length ps \<le> 999999"
  shows "\<exists>msg D rows. client_request fresh' fl h ps = Some msg \<and>
     serve pf als arrive std_sort fresh (int L) msg = Some (Inr D) \<and>
     on_reply D = Some (0, Results h (Some rows)) \<and>
     mset rows = mset (round_rows pf e L (request_content fl h ps)) \<and>
     sorted_wrt (\<lambda>a b. pr_idx a \<le> pr_idx b) rows"
  using exchange [OF assms(1-9)] .

theorem exchange_correct_witness:
  "\<exists>msg D rows. client_request demo_fresh default_flags 5 demo_pairs = Some msg \<and>
     serve demo_platform (\<lambda>j. demo_alloc) rev demo_sort demo_fresh 2 msg = Some (Inr D) \<and>
     on_reply D = Some (0, Results 5 (Some rows)) \<and>
     mset rows = mset (round_rows demo_platform demo_exp 2 (request_content default_flags 5 demo_pairs)) \<and>
     sorted_wrt (\<lambda>a b. pr_idx a \<le> pr_idx b) rows"
proof -
  have "\<forall>xs. mset (rev xs) = mset xs" by simp
  from exchange_correct [OF demo_platform_ok _ demo_fresh_ok demo_fresh_ok demo_sort_ok this,
      of "\<lambda>j. demo_alloc" 2 demo_pairs default_flags 5] show ?thesis
    using demo_alloc_ok by (simp add: demo_pairs_def)
qed

text \<open>The rows of a round and the pairs of the request.\<close>

lemma round_rows_pairs:
  assumes "0 < L"
  shows "map (\<lambda>r. (pr_idx r, pr_alpha r, pr_beta r)) (round_rows pf e L rr) =
    (if check_of (rq_params rr) = None
     then map (\<lambda>p. (ab_idx p, canon_f32 (ab_alpha p), canon_f32 (ab_beta p))) (rq_pairs rr) else [])"
proof -
  define g where "g = (\<lambda>p :: AlphaBetaPair. (ab_idx p, canon_f32 (ab_alpha p), canon_f32 (ab_beta p)))"
  have s: "map (\<lambda>r. (pr_idx r, pr_alpha r, pr_beta r)) (slice_rows pf e (rq_params rr) cp) =
      (if check_of (rq_params rr) = None then map g cp else [])" for cp
  proof -
    have "map (\<lambda>i. (ab_idx (cp ! i), canon_f32 (ab_alpha (cp ! i)), canon_f32 (ab_beta (cp ! i)))) [0..<length cp] = map g cp"
      by (intro nth_equalityI) (simp_all add: g_def)
    then show ?thesis by (simp add: slice_rows_def canon_row_def priced_def comp_def)
  qed
  have "map (\<lambda>r. (pr_idx r, pr_alpha r, pr_beta r)) (concat (map (slice_rows pf e (rq_params rr)) cs)) =
      (if check_of (rq_params rr) = None then map g (concat cs) else [])" for cs
    by (induction cs) (simp_all add: s)
  from this [of "chunks_of L (rq_pairs rr)"] show ?thesis
    by (simp only: round_rows_def concat_chunks_of [OF assms] g_def)
qed

text \<open>
  C19. Every row of a reply belongs to exactly one pair of the request, and every pair has one: the indices,
  alphas and betas of the rows that a round of the server puts into its reply are, in some order, those of the
  pairs of the request; when the parameters are refused there are no rows.
\<close>

theorem reply_rows_are_the_pairs:
  assumes "platform_ok pf e" and "\<forall>j. alloc_ok pf (als j)" and "fresh_ok fresh" and "sort_ok std_sort"
    and "\<forall>xs. mset (arrive xs) = mset xs"
    and "request_check msg = Some True" and "request_read msg = Some rr"
    and "0 < L" and "L \<le> 999999" and "length (rq_pairs rr) \<le> 5 * 10 ^ 6"
  shows "\<exists>D rows. serve pf als arrive std_sort fresh (int L) msg = Some (Inr D) \<and>
     root_read range_response_of D = Some (rq_hash rr, Some rows) \<and>
     image_mset (\<lambda>r. (pr_idx r, pr_alpha r, pr_beta r)) (mset rows) =
       (if check_of (rq_params rr) = None
        then image_mset (\<lambda>p. (ab_idx p, canon_f32 (ab_alpha p), canon_f32 (ab_beta p))) (mset (rq_pairs rr)) else {#})"
proof -
  obtain t where "GetRangePricingRequest msg = Some t" "request_of msg t = Some rr"
    using assms(7) by (auto simp: request_read_def bind_eq_Some_conv)
  from serve_round [OF assms(1-5) assms(6) [unfolded request_check_def] this assms(8-10)] obtain D rows where
    D: "serve pf als arrive std_sort fresh (int L) msg = Some (Inr D)" "root_read range_response_of D = Some (rq_hash rr, Some rows)"
    "mset rows = mset (round_rows pf e L rr)" by blast
  from arg_cong [OF round_rows_pairs [OF assms(8), of pf e rr], of mset] D show ?thesis by auto
qed

theorem reply_rows_are_the_pairs_witness:
  "\<exists>D rows. serve demo_platform (\<lambda>j. demo_alloc) rev demo_sort demo_fresh 1 example_request = Some (Inr D) \<and>
     root_read range_response_of D = Some (rq_hash example_content, Some rows) \<and>
     image_mset (\<lambda>r. (pr_idx r, pr_alpha r, pr_beta r)) (mset rows) = {# (1, 0x3F800000, 0), (0, 0x3F800000, 0) #}"
proof -
  have r: "\<forall>xs. mset (rev xs) = mset xs" by simp
  have n: "length (rq_pairs example_content) \<le> 5 * 10 ^ 6" by (simp add: example_content_pairs)
  have "map (\<lambda>p. (ab_idx p, canon_f32 (ab_alpha p), canon_f32 (ab_beta p))) (rq_pairs example_content) =
      [(1, 0x3F800000, 0), (0, 0x3F800000, 0)]" by code_simp
  from arg_cong [OF this, of mset] have p: "image_mset (\<lambda>p. (ab_idx p, canon_f32 (ab_alpha p), canon_f32 (ab_beta p)))
      (mset (rq_pairs example_content)) = {# (1, 0x3F800000, 0), (0, 0x3F800000, 0) #}" by simp
  from reply_rows_are_the_pairs [OF demo_platform_ok _ demo_fresh_ok demo_sort_ok r example_request_check example_request_read _ _ n,
      of "\<lambda>j. demo_alloc" 1] show ?thesis
    using demo_alloc_ok p example_content_pairs(2) by auto
qed

text \<open>
  C3. A round of the server for any message that passed the check, wherever it came from: the reply
  has the request's hash and the rows of its slices, sorted; up to 999,999 rows it also passes the
  check of its receiver.
\<close>

theorem serve_correct:
  assumes "platform_ok pf e" and "\<forall>j. alloc_ok pf (als j)" and "fresh_ok fresh" and "sort_ok std_sort"
    and "\<forall>xs. mset (arrive xs) = mset xs"
    and "request_check msg = Some True" and "request_read msg = Some rr"
    and "0 < L" and "L \<le> 999999" and "length (rq_pairs rr) \<le> 5 * 10 ^ 6"
  shows "\<exists>D rows. serve pf als arrive std_sort fresh (int L) msg = Some (Inr D) \<and>
     root_read range_response_of D = Some (rq_hash rr, Some rows) \<and>
     mset rows = mset (round_rows pf e L rr) \<and> sorted_wrt (\<lambda>a b. pr_idx a \<le> pr_idx b) rows \<and>
     (length rows \<le> 999999 \<longrightarrow> root_check RangePricingResponse_Verify D = Some True)"
proof -
  obtain t where "GetRangePricingRequest msg = Some t" "request_of msg t = Some rr"
    using assms(7) by (auto simp: request_read_def bind_eq_Some_conv)
  from serve_round [OF assms(1-5) assms(6) [unfolded request_check_def] this assms(8-10)] show ?thesis .
qed

theorem serve_correct_witness:
  "\<exists>D rows. serve demo_platform (\<lambda>j. demo_alloc) rev demo_sort demo_fresh 1 example_request = Some (Inr D) \<and>
     root_read range_response_of D = Some (rq_hash example_content, Some rows) \<and>
     mset rows = mset (round_rows demo_platform demo_exp 1 example_content) \<and>
     sorted_wrt (\<lambda>a b. pr_idx a \<le> pr_idx b) rows"
proof -
  have r: "\<forall>xs. mset (rev xs) = mset xs" by simp
  have n: "length (rq_pairs example_content) \<le> 5 * 10 ^ 6" by (simp add: example_content_pairs)
  from serve_correct [OF demo_platform_ok _ demo_fresh_ok demo_sort_ok r example_request_check example_request_read _ _ n,
      of "\<lambda>j. demo_alloc" 1] show ?thesis
    using demo_alloc_ok by auto
qed

section \<open>Slicing a request\<close>

text \<open>
  C9. The batches of a request: their pairs are the request's, in order and without loss or
  duplication, at most \<open>simd_lanes\<close> in each and none empty; each carries the parameters with the
  option type reset to 0, and the ids count up from \<open>request_hash * 1000\<close>.
\<close>

theorem expand_correct:
  assumes "fresh_ok fresh" and "0 < L" and "L \<le> 2 ^ 27" and "length (rq_pairs rr) + L \<le> 2 ^ 31 - 1"
  shows "\<exists>Ds bs. expand_to_batches fresh rr (int L) = Some (Inr Ds) \<and>
     map (root_check BatchPricingRequest_Verify) Ds = map (\<lambda>b. Some True) bs \<and>
     map (root_read batch_of) Ds = map Some bs \<and>
     concat (map bq_pairs bs) = rq_pairs rr \<and>
     (\<forall>b\<in>set bs. 0 < length (bq_pairs b) \<and> length (bq_pairs b) \<le> L \<and>
        bq_params b = canon_params ((rq_params rr)\<lparr>pp_option_type := 0\<rparr>)) \<and>
     map bq_id bs = map (\<lambda>c. rq_hash rr * 1000 + of_nat c) [0..<length bs]"
proof -
  define ps where "ps = rq_pairs rr"
  define bs where "bs = map (\<lambda>c. batch_content rr (chunk L ps c) (int c)) [0..<nchunks L ps]"
  obtain Ds where Ds: "expand_to_batches fresh rr (int L) = Some (Inr Ds)" "length Ds = nchunks L ps"
    "\<forall>j<length Ds. batch_format.receive (Ds ! j) = Some (Some (batch_content rr (chunk L ps j) (int j)))"
    using expand_batches [OF assms(1-4)] unfolding ps_def by blast
  have c: "map (root_check BatchPricingRequest_Verify) Ds = map (\<lambda>b. Some True) bs"
    "map (root_read batch_of) Ds = map Some bs"
    using Ds(2,3) by (auto simp: bs_def batch_format.receive_Some intro!: nth_equalityI)
  have pc: "map bq_pairs bs = chunks_of L ps" by (simp add: bs_def batch_content_def chunks_of_def)
  then have "concat (map bq_pairs bs) = rq_pairs rr" using concat_chunks_of [OF assms(2), of ps] by (simp add: ps_def)
  moreover have "0 < length (bq_pairs b) \<and> length (bq_pairs b) \<le> L \<and>
      bq_params b = canon_params ((rq_params rr)\<lparr>pp_option_type := 0\<rparr>)" if b: "b \<in> set bs" for b
  proof -
    have "bq_pairs b \<in> set (chunks_of L ps)" using b pc by (metis image_eqI set_map)
    with chunks_of_sizes [OF assms(2) this] b show ?thesis by (auto simp: bs_def batch_content_def)
  qed
  moreover have "map bq_id bs = map (\<lambda>c. rq_hash rr * 1000 + of_nat c) [0..<length bs]"
    by (simp add: bs_def batch_content_def batch_counter_id_def)
  ultimately show ?thesis using Ds(1) c by blast
qed

theorem expand_correct_witness:
  "\<exists>Ds bs. expand_to_batches demo_fresh demo_request 2 = Some (Inr Ds) \<and>
     map (root_read batch_of) Ds = map Some bs \<and> concat (map bq_pairs bs) = demo_pairs"
  using expand_correct [OF demo_fresh_ok, of 2 demo_request] by (auto simp: demo_request_def demo_pairs_def)

text \<open>\<open>simd_lanes\<close> is not validated: with 0 the server divides by zero on the first request.\<close>

theorem zero_lanes_undefined: "expand_to_batches fresh rr 0 = None"
  by (simp add: expand_to_batches_def Let_def int_div_def bind_eq_None_conv)

text \<open>
  With \<open>simd_lanes\<close> negative no request gives a batch: from two pairs up to twice its absolute value the
  request is answered with no rows, with fewer or more \<open>reserve\<close> throws \<open>std::length_error\<close>.
\<close>

theorem negative_lanes_no_batches:
  assumes "0 < m" and "m < 2 ^ 30" and "length (rq_pairs rr) < 2 ^ 30"
  shows "expand_to_batches fresh rr (- int m) =
    Some (if 2 \<le> length (rq_pairs rr) \<and> length (rq_pairs rr) \<le> 2 * m then Inr [] else Inl length_error)"
proof -
  define k where "k = length (rq_pairs rr)"
  define s where "s = int k - int m - 1"
  have "int_of_u32 k = int k" using assms(3) unfolding k_def by (intro int_of_u32_small) simp
  moreover have "int_op (int k - int m) = Some (int k - int m)" "int_op s = Some s"
    using assms by (simp_all add: int_op_def s_def k_def)
  moreover have "int_div s (- int m) = Some (s sdiv (- int m))"
  proof -
    have "s sdiv (- int m) = - (s sdiv int m)" by (simp add: signed_divide_int_def sgn_minus)
    moreover have "\<bar>s sdiv int m\<bar> \<le> \<bar>s\<bar> div int m"
      using assms(1) by (simp add: signed_divide_int_def abs_mult abs_sgn_eq pos_imp_zdiv_nonneg_iff)
    moreover have "\<bar>s\<bar> div int m \<le> \<bar>s\<bar>" using zdiv_mono2 [of "\<bar>s\<bar>" 1 "int m"] assms(1) by simp
    moreover have "\<bar>s\<bar> < 2 ^ 31 - 1" using assms by (simp add: s_def k_def)
    ultimately have "\<bar>s sdiv int m\<bar> < 2 ^ 31 - 1" by linarith
    with \<open>s sdiv (- int m) = - (s sdiv int m)\<close> show ?thesis using assms(1) by (simp add: int_div_def int_op_def abs_less_iff)
  qed
  ultimately have e: "expand_to_batches fresh rr (- int m) =
      (if s sdiv (- int m) < 0 then Some (Inl length_error) else expand_loop fresh rr (- int m) (int k) (nat (s sdiv (- int m))) 0)"
    by (simp add: expand_to_batches_def Let_def s_def flip: k_def)
  consider "k \<le> 1" | "2 \<le> k" "k \<le> 2 * m" | "2 * m < k" by linarith
  then show ?thesis
  proof cases
    case 1
    then have "int m \<le> - s" "s < 0" using assms(1) by (simp_all add: s_def)
    then have "int m div int m \<le> (- s) div int m" by (intro zdiv_mono1) (use assms(1) in simp_all)
    then have "0 < s sdiv (- int m)" using assms(1) \<open>s < 0\<close> by (simp add: signed_divide_int_def)
    then obtain n where n: "nat (s sdiv (- int m)) = Suc n" by (metis gr0_conv_Suc zero_less_nat_eq)
    have "expand_loop fresh rr (- int m) (int k) (Suc n) 0 = Some (Inl length_error)"
      using assms(1,2) by (simp add: int_op_def)
    with e n \<open>0 < s sdiv (- int m)\<close> 1 show ?thesis by (simp flip: k_def)
  next
    case 2
    then have "\<bar>s\<bar> < int m" by (simp add: s_def)
    then have "s sdiv (- int m) = 0" by (simp add: signed_divide_int_def)
    with e 2 show ?thesis by (simp flip: k_def)
  next
    case 3
    then have "int m \<le> s" by (simp add: s_def)
    then have "int m div int m \<le> s div int m" by (intro zdiv_mono1) (use assms(1) in simp_all)
    then have "s sdiv (- int m) < 0" using assms(1) \<open>int m \<le> s\<close> by (simp add: signed_divide_int_def)
    with e 3 show ?thesis by (simp flip: k_def)
  qed
qed

theorem negative_lanes_no_batches_witness:
  "expand_to_batches demo_fresh demo_request (- 3) = Some (Inr []) \<and>
   expand_to_batches demo_fresh demo_request (- 1) = Some (Inl length_error)"
  using negative_lanes_no_batches [of 3 demo_request demo_fresh] negative_lanes_no_batches [of 1 demo_request demo_fresh]
  by (simp add: demo_request_def demo_pairs_def)

text \<open>Batch ids are not unique: two requests share one, and so do the slices past the thousandth.\<close>

theorem batch_ids_collide: "batch_counter_id h 1000 = batch_counter_id (h + 1) 0"
  by (simp add: batch_counter_id_def algebra_simps)

section \<open>The worker\<close>

text \<open>
  C6. A worker that receives a message of at least four bytes, whatever they are, with at most five million
  pairs if it is a batch, sends exactly one message.  It is empty when the batch fails the check or its
  parameters are refused; otherwise it reads back as the batch's id and its priced rows.  For a message of fewer
  than four bytes the behaviour is undefined, since the root offset is read before the check.
\<close>

theorem worker_sends_one:
  assumes "platform_ok pf e" and "alloc_ok pf al" and "small D"
    and "\<forall>b. root_read batch_of D = Some b \<longrightarrow> length (bq_pairs b) \<le> 5 * 10 ^ 6"
  shows "(length D < 4 \<longrightarrow> worker_round pf al D = None) \<and>
    (4 \<le> length D \<longrightarrow> (\<exists>R. worker_round pf al D = Some R \<and>
    (case batch_format.receive D of
       Some (Some b) \<Rightarrow> (if check_of (bq_params b) \<noteq> None then R = []
          else root_read batch_response_of R = Some (bq_id b, Some (map canon_row (priced pf e (bq_params b) (bq_pairs b)))))
     | _ \<Rightarrow> R = [])))"
proof (intro conjI impI)
  assume "length D < 4"
  then show "worker_round pf al D = None" by (rule worker_round_short)
next
  assume "4 \<le> length D"
  with assms(3) have r: "received D" by simp
  obtain m where m: "batch_format.receive D = Some m" using batch_format.receive_total [OF r] by blast
  show "\<exists>R. worker_round pf al D = Some R \<and>
    (case batch_format.receive D of
       Some (Some b) \<Rightarrow> (if check_of (bq_params b) \<noteq> None then R = []
          else root_read batch_response_of R = Some (bq_id b, Some (map canon_row (priced pf e (bq_params b) (bq_pairs b)))))
     | _ \<Rightarrow> R = [])"
  proof (cases m)
    case None
    then have "root_check BatchPricingRequest_Verify D = Some False"
      using m batch_format.receive_None [OF r] by simp
    with None m worker_round_rejects show ?thesis by simp
  next
    case (Some b)
    then have c: "root_check BatchPricingRequest_Verify D = Some True" "root_read batch_of D = Some b"
      using m by (simp_all add: batch_format.receive_Some)
    with assms(4) have n: "length (bq_pairs b) \<le> 5 * 10 ^ 6" by simp
    note w = worker_round_result [OF assms(1,2) c n]
    show ?thesis
    proof (cases "check_of (bq_params b) = None")
      case True
      from w(2) [OF this] True m Some show ?thesis by fastforce
    next
      case False
      from w(1) [OF this] False m Some show ?thesis by simp
    qed
  qed
qed

theorem worker_sends_one_witness:
  "\<exists>D R rows. make_batch demo_fresh example_content (rq_pairs example_content) 3 = Some D \<and>
     worker_round demo_platform demo_alloc D = Some R \<and>
     root_read batch_response_of R = Some (rq_hash example_content * 1000 + 3, Some rows) \<and> length rows = 2 \<and>
     worker_round demo_platform demo_alloc [0, 0, 0, 0] = Some [] \<and> worker_round demo_platform demo_alloc [0, 0, 0] = None"
proof -
  have l: "length (rq_pairs example_content) \<le> 2 ^ 27" by (simp add: example_content_pairs)
  let ?b = "batch_content example_content (rq_pairs example_content) 3"
  obtain D where D: "make_batch demo_fresh example_content (rq_pairs example_content) 3 = Some D"
    "root_check BatchPricingRequest_Verify D = Some True" "root_read batch_of D = Some ?b" "4 \<le> length D" "small D"
    using make_batch_spec [OF demo_fresh_ok l, of example_content 3] by blast
  have b: "check_of (bq_params ?b) = None" by code_simp
  have f: "bq_id ?b = rq_hash example_content * 1000 + 3" "bq_pairs ?b = rq_pairs example_content"
    by (simp_all add: batch_content_def batch_counter_id_def)
  have "\<forall>b. root_read batch_of D = Some b \<longrightarrow> length (bq_pairs b) \<le> 5 * 10 ^ 6"
    using D(3) f(2) by (simp add: example_content_pairs)
  note w = worker_sends_one [OF demo_platform_ok demo_alloc_ok D(5) this]
  have "batch_format.receive D = Some (Some ?b)" using D(2,3) by (simp add: batch_format.receive_Some)
  with w [THEN conjunct2] D(4) b f obtain R where R: "worker_round demo_platform demo_alloc D = Some R"
    "root_read batch_response_of R = Some (rq_hash example_content * 1000 + 3,
       Some (map canon_row (priced demo_platform demo_exp (bq_params ?b) (rq_pairs example_content))))" by auto
  have z: "small [0, 0, 0, 0]" "small [0, 0, 0]" by (simp_all add: small_def)
  have z2: "root_read batch_of [0, 0, 0, 0] = None" "root_read batch_of [0, 0, 0] = None" by code_simp+
  obtain r where r: "batch_format.receive [0, 0, 0, 0] = Some r" using batch_format.receive_total [of "[0, 0, 0, 0]"] z by auto
  with z2 have "r = None" by (cases r) (auto simp: batch_format.receive_Some)
  with r have "batch_format.receive [0, 0, 0, 0] = Some None" by simp
  with worker_sends_one [OF demo_platform_ok demo_alloc_ok z(1)] worker_sends_one [OF demo_platform_ok demo_alloc_ok z(2)] z2
  have "worker_round demo_platform demo_alloc [0, 0, 0, 0] = Some []" "worker_round demo_platform demo_alloc [0, 0, 0] = None"
    by simp_all
  with D(1) R show ?thesis using example_content_pairs(1)
    by (intro exI [of _ D] exI [of _ R] exI [of _ "map canon_row (priced demo_platform demo_exp (bq_params ?b) (rq_pairs example_content))"])
      simp
qed

section \<open>Pricing\<close>

text \<open>
  C8. The kernel fills both arrays for every count and number of lanes: elements of full vectors
  get the vector exponential of \<open>-(r * T)\<close>, the tail the scalar one of \<open>(-r) * T\<close>, and the hedge
  ratios are 0.
\<close>

theorem kernel_correct:
  assumes "platform_ok pf e" and "aligned_at (hn_Lanes pf) bp" and "aligned_at (hn_Lanes pf) bh"
    and "length ps = n" and "length hs = n"
  shows "vectorized_price pf S K r T ds as bs bp ps bh hs n =
    Some (map (\<lambda>i. if i < n div hn_Lanes pf * hn_Lanes pf then e (f32_neg (f32_mul r T))
                   else std_exp pf (f32_mul (f32_neg r) T)) [0..<n], replicate n 0)"
  using vectorized_price_eq [OF assms] by (simp add: kernel_price_def)

theorem kernel_correct_witness:
  "vectorized_price demo_platform 0 0 0 0 0 [] [] 0 (replicate 5 1) 32 (replicate 5 1) 5 =
    Some (map (\<lambda>i. if i < 4 then demo_exp (f32_neg (f32_mul 0 0)) else demo_exp (f32_mul (f32_neg 0) 0)) [0..<5],
      replicate 5 0)"
proof -
  have a: "aligned_at (hn_Lanes demo_platform) 0" "aligned_at (hn_Lanes demo_platform) 32"
    by (simp_all add: aligned_at_def demo_platform_def)
  have s: "hn_Lanes demo_platform = 4" "std_exp demo_platform = demo_exp" "(5::nat) div 4 * 4 = 4"
    by (simp_all add: demo_platform_def)
  from kernel_correct [OF demo_platform_ok a, of "replicate 5 1" 5 "replicate 5 1" 0 0 0 0 0 "[]" "[]"]
  show ?thesis unfolding s by simp
qed

text \<open>
  The kernel stores with the aligned \<open>hn::Store\<close> into \<open>std::vector\<close> storage, which has the
  alignment of \<open>max_align_t\<close> only: with eight lanes there are platforms that keep Highway's contract
  on which pricing eight pairs at an address of 16 is undefined.
\<close>

theorem unaligned_store_undefined:
  "\<exists>pf e. platform_ok pf e \<and> hn_Lanes pf = 8 \<and>
     vectorized_price pf S K r T ds as bs 16 (replicate 8 0) 64 (replicate 8 0) 8 = None"
proof -
  define pf where "pf = \<lparr>hn_Lanes = 8, hn_Set = replicate 8, hn_Neg = map f32_neg, hn_Mul = map2 f32_mul,
     hn_Exp = map demo_exp, hn_Zero = replicate 8 0,
     hn_Store = (\<lambda>v base i arr. if aligned_at 8 (base + 4 * i) then Some (take i arr @ v @ drop (i + 8) arr) else None),
     std_exp = demo_exp\<rparr>"
  have "platform_ok pf demo_exp" by (auto simp: platform_ok_def pf_def)
  moreover have "store_loop pf v w 16 64 8 0 ps hs = None" for v w ps hs
    by (subst store_loop.simps) (simp add: pf_def aligned_at_def)
  then have "vectorized_price pf S K r T ds as bs 16 (replicate 8 0) 64 (replicate 8 0) 8 = None"
    by (simp add: vectorized_price_def)
  moreover have "hn_Lanes pf = 8" by (simp add: pf_def)
  ultimately show ?thesis by blast
qed

text \<open>
  C18. The two entry points agree: \<open>process\<close> refuses the parameters \<open>price\<close> refuses, with the same
  error, and otherwise its message holds exactly the outputs of \<open>price\<close> (a -0 as +0).
\<close>

theorem process_agrees_with_price:
  assumes "platform_ok pf e" and "alloc_ok pf al" and "length ps \<le> 5 * 10 ^ 6"
  shows "case price_of pf (al_prices al) (al_hedge_ratios al) p ps of
      Some (Inl x) \<Rightarrow> process_of pf al p ps i = Some (Inl x)
    | Some (Inr out) \<Rightarrow> \<exists>D rows. process_of pf al p ps i = Some (Inr D) \<and>
        root_read batch_response_of D = Some (i, Some (map canon_row rows)) \<and> map output_of rows = out
    | None \<Rightarrow> False"
proof (cases "check_of p")
  case (Some x)
  then show ?thesis by (simp add: price_def process_def)
next
  case None
  have a: "aligned_at (hn_Lanes pf) (al_prices al)" "aligned_at (hn_Lanes pf) (al_hedge_ratios al)"
    using assms(2) by (simp_all add: alloc_ok_def)
  from process_spec [OF assms(1,2) None assms(3), of i] price_eq [OF assms(1) a None] show ?thesis by fastforce
qed

theorem process_agrees_with_price_witness:
  "\<exists>D rows out. price_of demo_platform 0 64 demo_params demo_pairs = Some (Inr out) \<and>
     process_of demo_platform demo_alloc demo_params demo_pairs 9 = Some (Inr D) \<and>
     root_read batch_response_of D = Some (9, Some (map canon_row rows)) \<and> map output_of rows = out"
proof -
  have a: "aligned_at (hn_Lanes demo_platform) 0" "aligned_at (hn_Lanes demo_platform) 64"
    by (simp_all add: aligned_at_def demo_platform_def)
  have "length demo_pairs \<le> 5 * 10 ^ 6" by (simp add: demo_pairs_def)
  from process_agrees_with_price [OF demo_platform_ok demo_alloc_ok this, of demo_params 9]
    price_eq [OF demo_platform_ok a demo_check, of demo_pairs]
  show ?thesis by (simp add: demo_alloc_def)
qed

text \<open>A NaN maturity or discretization passes the checks, since \<open>NaN <= 0\<close> is false.\<close>

theorem nan_parameters_pass: "f32_is_nan T \<Longrightarrow> f32_is_nan ds \<Longrightarrow> check_params T ds = None"
  by (simp add: check_params_def)

theorem nan_parameters_pass_witness: "check_params f32_qnan f32_qnan = None"
proof -
  have "f32_is_nan f32_qnan" by code_simp
  from nan_parameters_pass [OF this this] show ?thesis .
qed

section \<open>The client\<close>

text \<open>
  C7. The client's request passes the server's check and reads back as the flags, the hash and the
  pairs it was built from.
\<close>

theorem request_roundtrip:
  assumes "fresh_ok fresh" and "length ps \<le> 2 ^ 27"
  shows "\<exists>D. client_request fresh fl h ps = Some D \<and> request_check D = Some True \<and>
     request_read D = Some \<lparr>rq_params = canon_params (flag_params fl), rq_hash = h, rq_pairs = ps\<rparr>"
  using client_request_spec [OF assms] by (simp add: request_content_def)

theorem request_roundtrip_witness:
  "\<exists>D. client_request demo_fresh default_flags 1 demo_pairs = Some D \<and> request_check D = Some True"
  using request_roundtrip [OF demo_fresh_ok, of demo_pairs default_flags 1] by (auto simp: demo_pairs_def)

text \<open>
  C36. The client reads the root offset of a reply before it verifies the reply, with a bounds-checked check of
  everything after it: handling the reply is defined exactly when it has the four bytes of the root offset.
\<close>

theorem reply_needs_four_bytes:
  assumes "small D"
  shows "on_reply D \<noteq> None \<longleftrightarrow> 4 \<le> length D"
  using on_reply_total [of D] on_reply_short [of D] assms by (cases "4 \<le> length D") auto

theorem reply_needs_four_bytes_witness: "on_reply [1, 2, 3] = None"
proof -
  have "small [1, 2, 3]" "\<not> 4 \<le> length [1 :: byte, 2, 3]" by (simp_all add: small_def)
  with reply_needs_four_bytes [of "[1, 2, 3]"] show ?thesis by blast
qed

text \<open>
  C20. A grid that the client computes starts at the lower bound, each value is the one before plus
  the step, no value exceeds the upper bound plus 1e-6, and the next one would; a step that is not
  positive gives the lower bound alone.
\<close>

theorem grid_values_correct:
  assumes "grid_values lo hi step = Some v"
  shows "if f32_le step 0 then v = [lo]
    else (\<forall>y\<in>set v. f32_le y (f32_add hi f32_1em6)) \<and>
      (\<forall>i. Suc i < length v \<longrightarrow> v ! Suc i = f32_add (v ! i) step) \<and>
      (if v = [] then \<not> f32_le lo (f32_add hi f32_1em6)
       else hd v = lo \<and> \<not> f32_le (f32_add (last v) step) (f32_add hi f32_1em6))"
  using assms grid_loop_is_grid [of step "f32_add hi f32_1em6" lo v]
  by (auto simp: grid_values_def is_grid_def split: if_splits)

theorem grid_values_correct_witness:
  "\<exists>v. grid_values 0 0x3F800000 0x3F000000 = Some v \<and> length v = 3 \<and> hd v = 0"
proof -
  have c: "f32_le 0 (f32_add 0x3F800000 f32_1em6)" "f32_le 0x3F000000 (f32_add 0x3F800000 f32_1em6)"
    "f32_le 0x3F800000 (f32_add 0x3F800000 f32_1em6)" "\<not> f32_le 0x3FC00000 (f32_add 0x3F800000 f32_1em6)"
    "f32_add 0 0x3F000000 = 0x3F000000" "f32_add 0x3F000000 0x3F000000 = 0x3F800000"
    "f32_add 0x3F800000 0x3F000000 = 0x3FC00000" "\<not> f32_le 0x3F000000 0" by code_simp+
  have g: "grid_values 0 0x3F800000 0x3F000000 = Some [0, 0x3F000000, 0x3F800000]"
    unfolding grid_values_def using c by (simp add: grid_loop.simps)
  from grid_values_correct [OF this] c g show ?thesis by simp
qed

text \<open>
  The grid loop does not end when rounding absorbs the step.
\<close>

theorem grid_never_ends:
  assumes "f32_add lo step = lo" and "\<not> f32_le step 0" and "f32_le lo (f32_add hi f32_1em6)"
  shows "grid_values lo hi step = None"
  using grid_loop_stuck [OF assms(1,3)] assms(2) by (simp add: grid_values_def)

theorem grid_never_ends_witness: "grid_values 0x4B800000 0x4B800001 0x3F800000 = None"
proof -
  have "f32_add 0x4B800000 0x3F800000 = 0x4B800000" "\<not> f32_le 0x3F800000 0"
    "f32_le 0x4B800000 (f32_add 0x4B800001 f32_1em6)" by code_simp+
  from grid_never_ends [OF this] show ?thesis .
qed

text \<open>
  C21. The client's pairs are the product of the two grids in row order, numbered from 0.
\<close>

theorem pairs_are_the_grid:
  assumes "alpha_loop betas alphas 0 = (ps, n)"
  shows "map (\<lambda>p. (ab_alpha p, ab_beta p)) ps = List.product alphas betas \<and>
    map ab_idx ps = map of_nat [0..<length alphas * length betas]"
  using alpha_loop_spec [of betas alphas 0] assms by simp_all

theorem pairs_are_the_grid_witness:
  "map (\<lambda>p. (ab_alpha p, ab_beta p)) (fst (alpha_loop [3, 4] [1, 2] 0)) = [(1, 3), (1, 4), (2, 3), (2, 4)]"
  using pairs_are_the_grid [OF prod.collapse [symmetric], of "[3, 4]" "[1, 2]"] by simp

end
